(* ===== verification/Prelude.thy ===== *)
theory Prelude
  imports Complex_Main
begin

text \<open>
  The computations of self-hosted JavaScript: a state-passing program that returns a value,
  throws, fails a (debug-build) assertion or runs out of the fuel a loop was given, together
  with the loop forms the sources use and a total-correctness calculus over them.
  Every component theory is written with these combinators.
\<close>

section \<open>Programs\<close>

datatype ('e, 'a) res =
    Ret 'a
  | Throw 'e
  | AssertFail string
  | OutOfFuel

type_synonym ('s, 'e, 'a) prog = "'s \<Rightarrow> ('e, 'a) res \<times> 's"

definition ret :: "'a \<Rightarrow> ('s, 'e, 'a) prog" where
  "ret a = (\<lambda>s. (Ret a, s))"

definition bnd :: "('s, 'e, 'a) prog \<Rightarrow> ('a \<Rightarrow> ('s, 'e, 'b) prog) \<Rightarrow> ('s, 'e, 'b) prog" where
  "bnd m f = (\<lambda>s. case m s of
      (Ret a, s') \<Rightarrow> f a s'
    | (Throw e, s') \<Rightarrow> (Throw e, s')
    | (AssertFail msg, s') \<Rightarrow> (AssertFail msg, s')
    | (OutOfFuel, s') \<Rightarrow> (OutOfFuel, s'))"

definition sq :: "('s, 'e, 'a) prog \<Rightarrow> ('s, 'e, 'b) prog \<Rightarrow> ('s, 'e, 'b) prog" where
  "sq m n = bnd m (\<lambda>_. n)"

definition throw :: "'e \<Rightarrow> ('s, 'e, 'a) prog" where
  "throw e = (\<lambda>s. (Throw e, s))"

text \<open>\<open>assert(b, info)\<close> of Utilities.js: a no-op when it holds, the end of the run when not.\<close>

definition asrt :: "bool \<Rightarrow> string \<Rightarrow> ('s, 'e, unit) prog" where
  "asrt b msg = (\<lambda>s. if b then (Ret (), s) else (AssertFail msg, s))"

definition no_fuel :: "('s, 'e, 'a) prog" where
  "no_fuel = (\<lambda>s. (OutOfFuel, s))"

definition get_st :: "('s, 'e, 's) prog" where
  "get_st = (\<lambda>s. (Ret s, s))"

definition gets :: "('s \<Rightarrow> 'a) \<Rightarrow> ('s, 'e, 'a) prog" where
  "gets f = (\<lambda>s. (Ret (f s), s))"

definition modify :: "('s \<Rightarrow> 's) \<Rightarrow> ('s, 'e, unit) prog" where
  "modify f = (\<lambda>s. (Ret (), f s))"

text \<open>\<open>try { m } catch (e) { h(e) }\<close>; a failed assertion is not an exception.\<close>

definition try_catch :: "('s, 'e, 'a) prog \<Rightarrow> ('e \<Rightarrow> ('s, 'e, 'a) prog) \<Rightarrow> ('s, 'e, 'a) prog" where
  "try_catch m h = (\<lambda>s. case m s of
      (Throw e, s') \<Rightarrow> h e s'
    | r \<Rightarrow> r)"

definition whenJ :: "bool \<Rightarrow> ('s, 'e, unit) prog \<Rightarrow> ('s, 'e, unit) prog" where
  "whenJ b m = (if b then m else ret ())"

named_theorems run_simps "how programs run on a state"

lemma ret_run [run_simps]: "(ret a s = p) = ((Ret a, s) = p)"
  by (simp add: ret_def)

lemma throw_run [run_simps]: "(throw e s = p) = ((Throw e, s) = p)"
  by (simp add: throw_def)

lemma asrt_run [run_simps]: "asrt b msg s = (if b then (Ret (), s) else (AssertFail msg, s))"
  by (simp add: asrt_def)

lemma no_fuel_run [run_simps]: "(no_fuel s = p) = ((OutOfFuel, s) = p)"
  by (simp add: no_fuel_def)

lemma get_st_run [run_simps]: "get_st s = (Ret s, s)"
  by (simp add: get_st_def)

lemma gets_run [run_simps]: "gets f s = (Ret (f s), s)"
  by (simp add: gets_def)

lemma modify_run [run_simps]: "modify f s = (Ret (), f s)"
  by (simp add: modify_def)

lemma bnd_run [run_simps]:
  "m s = (Ret a, s') \<Longrightarrow> bnd m f s = f a s'"
  "m s = (Throw e, s') \<Longrightarrow> bnd m f s = (Throw e, s')"
  "m s = (AssertFail msg, s') \<Longrightarrow> bnd m f s = (AssertFail msg, s')"
  "m s = (OutOfFuel, s') \<Longrightarrow> bnd m f s = (OutOfFuel, s')"
  by (simp_all add: bnd_def sq_def)

lemma bnd_run_bool [run_simps]:
  "m s = (Ret True, s') \<Longrightarrow> bnd m f s = f True s'"
  "m s = (Ret False, s') \<Longrightarrow> bnd m f s = f False s'"
  by (simp_all add: bnd_def)

lemma sq_run [run_simps]:
  "m s = (Ret a, s') \<Longrightarrow> sq m n s = n s'"
  "m s = (Throw e, s') \<Longrightarrow> sq m n s = (Throw e, s')"
  "m s = (AssertFail msg, s') \<Longrightarrow> sq m n s = (AssertFail msg, s')"
  "m s = (OutOfFuel, s') \<Longrightarrow> sq m n s = (OutOfFuel, s')"
  by (simp_all add: bnd_def sq_def)

lemma try_catch_run [run_simps]:
  "m s = (Ret a, s') \<Longrightarrow> try_catch m h s = (Ret a, s')"
  "m s = (Throw e, s') \<Longrightarrow> try_catch m h s = h e s'"
  "m s = (AssertFail msg, s') \<Longrightarrow> try_catch m h s = (AssertFail msg, s')"
  "m s = (OutOfFuel, s') \<Longrightarrow> try_catch m h s = (OutOfFuel, s')"
  by (simp_all add: try_catch_def)

lemma when_run [run_simps]: "whenJ b m s = (if b then m s else (Ret (), s))"
  by (simp add: whenJ_def ret_def)

lemma ret_bnd [simp]: "bnd (ret a) f = f a"
  by (simp add: bnd_def ret_def fun_eq_iff)

lemma bnd_ret [simp]: "bnd m ret = m"
  by (auto simp: bnd_def ret_def fun_eq_iff split: prod.splits res.splits)

lemma bnd_assoc [run_simps]: "bnd (bnd m f) g = bnd m (\<lambda>a. bnd (f a) g)"
  by (auto simp: bnd_def fun_eq_iff split: prod.splits res.splits)

lemma bnd_sq [run_simps]: "bnd (sq m n) f = sq m (bnd n f)"
  by (simp add: sq_def bnd_assoc)

lemma sq_bnd [run_simps]: "sq (bnd m f) n = bnd m (\<lambda>a. sq (f a) n)"
  by (simp add: sq_def bnd_assoc)

lemma sq_sq [run_simps]: "sq (sq m n) p = sq m (sq n p)"
  by (simp add: sq_def bnd_assoc)

lemma bnd_if [run_simps]: "bnd (if b then m else n) f = (if b then bnd m f else bnd n f)"
  by simp

lemma bnd_cong_run: "(\<And>a t. m s = (Ret a, t) \<Longrightarrow> f a t = g a t) \<Longrightarrow> bnd m f s = bnd m g s"
  by (auto simp: bnd_def split: prod.splits res.splits)

lemma throw_bnd [simp]: "bnd (throw e) f = throw e"
  by (simp add: bnd_def throw_def fun_eq_iff)

lemma ret_sq [simp]: "sq (ret a) n = n"
  by (simp add: sq_def)

lemma throw_sq [simp]: "sq (throw e) n = throw e"
  by (simp add: sq_def)

lemma ret_try [simp]: "try_catch (ret a) h = ret a"
  by (simp add: try_catch_def ret_def fun_eq_iff)

lemma throw_try [simp]: "try_catch (throw e) h = h e"
  by (simp add: try_catch_def throw_def fun_eq_iff)

section \<open>Loops\<close>

text \<open>
  \<open>for (var k = lo; k < n; k++) body\<close> with loop-carried variables \<open>c\<close>: the body gives
  \<open>Inl c'\<close> to go on and \<open>Inr r\<close> for a \<open>return r\<close> or \<open>break\<close> out of the loop.
\<close>

function for_up :: "int \<Rightarrow> int \<Rightarrow> (int \<Rightarrow> 'c \<Rightarrow> ('s, 'e, 'c + 'r) prog) \<Rightarrow> 'c \<Rightarrow> ('s, 'e, 'c + 'r) prog" where
  "for_up k n body c =
     (if k < n
      then bnd (body k c) (\<lambda>x. case x of Inl c' \<Rightarrow> for_up (k + 1) n body c' | Inr r \<Rightarrow> ret (Inr r))
      else ret (Inl c))"
  by pat_completeness auto
termination
  by (relation "measure (\<lambda>(k, n, body, c). nat (n - k))") auto

declare for_up.simps [simp del]

text \<open>\<open>for (; k >= lo; k--) body\<close>\<close>

function for_down :: "int \<Rightarrow> int \<Rightarrow> (int \<Rightarrow> 'c \<Rightarrow> ('s, 'e, 'c + 'r) prog) \<Rightarrow> 'c \<Rightarrow> ('s, 'e, 'c + 'r) prog" where
  "for_down k lo body c =
     (if lo \<le> k
      then bnd (body k c) (\<lambda>x. case x of Inl c' \<Rightarrow> for_down (k - 1) lo body c' | Inr r \<Rightarrow> ret (Inr r))
      else ret (Inl c))"
  by pat_completeness auto
termination
  by (relation "measure (\<lambda>(k, lo, body, c). nat (k - lo + 1))") auto

declare for_down.simps [simp del]

text \<open>The same without a way out of the loop.\<close>

function for_each :: "int \<Rightarrow> int \<Rightarrow> (int \<Rightarrow> ('s, 'e, unit) prog) \<Rightarrow> ('s, 'e, unit) prog" where
  "for_each k n body = (if k < n then sq (body k) (for_each (k + 1) n body) else ret ())"
  by pat_completeness auto
termination
  by (relation "measure (\<lambda>(k, n, body). nat (n - k))") auto

declare for_each.simps [simp del]

text \<open>The same with loop-carried variables.\<close>

function for_acc :: "int \<Rightarrow> int \<Rightarrow> (int \<Rightarrow> 'c \<Rightarrow> ('s, 'e, 'c) prog) \<Rightarrow> 'c \<Rightarrow> ('s, 'e, 'c) prog" where
  "for_acc k n body c = (if k < n then bnd (body k c) (for_acc (k + 1) n body) else ret c)"
  by pat_completeness auto
termination
  by (relation "measure (\<lambda>(k, n, body, c). nat (n - k))") auto

declare for_acc.simps [simp del]

text \<open>
  \<open>while (true) body\<close>: the bound on the iterations is fuel, and a claim that the loop ends is
  a claim that the result is not \<open>OutOfFuel\<close>.
\<close>

fun loop_fuel :: "nat \<Rightarrow> ('c \<Rightarrow> ('s, 'e, 'c + 'r) prog) \<Rightarrow> 'c \<Rightarrow> ('s, 'e, 'r) prog" where
  "loop_fuel 0 body c = no_fuel"
| "loop_fuel (Suc fuel) body c =
     bnd (body c) (\<lambda>x. case x of Inl c' \<Rightarrow> loop_fuel fuel body c' | Inr r \<Rightarrow> ret r)"

lemma for_up_done: "n \<le> k \<Longrightarrow> for_up k n body c = ret (Inl c)"
  by (simp add: for_up.simps)

lemma for_up_step: "k < n \<Longrightarrow> for_up k n body c =
    bnd (body k c) (\<lambda>x. case x of Inl c' \<Rightarrow> for_up (k + 1) n body c' | Inr r \<Rightarrow> ret (Inr r))"
  by (simp add: for_up.simps)

lemma for_down_done: "k < lo \<Longrightarrow> for_down k lo body c = ret (Inl c)"
  by (simp add: for_down.simps)

lemma for_down_step: "lo \<le> k \<Longrightarrow> for_down k lo body c =
    bnd (body k c) (\<lambda>x. case x of Inl c' \<Rightarrow> for_down (k - 1) lo body c' | Inr r \<Rightarrow> ret (Inr r))"
  by (simp add: for_down.simps)

lemma for_each_done: "n \<le> k \<Longrightarrow> for_each k n body = ret ()"
  by (simp add: for_each.simps)

lemma for_each_step: "k < n \<Longrightarrow> for_each k n body = sq (body k) (for_each (k + 1) n body)"
  by (simp add: for_each.simps)

lemma for_acc_done: "n \<le> k \<Longrightarrow> for_acc k n body c = ret c"
  by (simp add: for_acc.simps)

lemma for_acc_step: "k < n \<Longrightarrow> for_acc k n body c = bnd (body k c) (for_acc (k + 1) n body)"
  by (simp add: for_acc.simps)

section \<open>Total correctness\<close>

text \<open>
  \<open>wp m Q E s\<close>: from \<open>s\<close>, \<open>m\<close> returns with \<open>Q\<close> or throws with \<open>E\<close>; it neither fails an
  assertion nor runs out of fuel.
\<close>

definition wp :: "('s, 'e, 'a) prog \<Rightarrow> ('a \<Rightarrow> 's \<Rightarrow> bool) \<Rightarrow> ('e \<Rightarrow> 's \<Rightarrow> bool) \<Rightarrow> 's \<Rightarrow> bool" where
  "wp m Q E s = (case m s of
      (Ret a, s') \<Rightarrow> Q a s'
    | (Throw e, s') \<Rightarrow> E e s'
    | _ \<Rightarrow> False)"

named_theorems wp_simps "weakest preconditions of the program combinators"

lemma wp_ret [wp_simps]: "wp (ret a) Q E = Q a"
  by (simp add: wp_def ret_def fun_eq_iff)

lemma wp_throw [wp_simps]: "wp (throw e) Q E = E e"
  by (simp add: wp_def throw_def fun_eq_iff)

lemma wp_bnd [wp_simps]: "wp (bnd m f) Q E = wp m (\<lambda>a. wp (f a) Q E) E"
  by (auto simp: wp_def bnd_def fun_eq_iff split: prod.splits res.splits)

lemma wp_sq [wp_simps]: "wp (sq m n) Q E = wp m (\<lambda>_. wp n Q E) E"
  by (simp add: sq_def wp_bnd fun_eq_iff)

lemma wp_asrt [wp_simps]: "wp (asrt b msg) Q E = (\<lambda>s. b \<and> Q () s)"
  by (simp add: wp_def asrt_def fun_eq_iff)

lemma wp_get_st [wp_simps]: "wp get_st Q E = (\<lambda>s. Q s s)"
  by (simp add: wp_def get_st_def fun_eq_iff)

lemma wp_gets [wp_simps]: "wp (gets f) Q E = (\<lambda>s. Q (f s) s)"
  by (simp add: wp_def gets_def fun_eq_iff)

lemma wp_modify [wp_simps]: "wp (modify f) Q E = (\<lambda>s. Q () (f s))"
  by (simp add: wp_def modify_def fun_eq_iff)

lemma wp_try_catch [wp_simps]: "wp (try_catch m h) Q E = wp m Q (\<lambda>e. wp (h e) Q E)"
  by (auto simp: wp_def try_catch_def fun_eq_iff split: prod.splits res.splits)

lemma wp_when [wp_simps]: "wp (whenJ b m) Q E = (\<lambda>s. if b then wp m Q E s else Q () s)"
  by (simp add: whenJ_def wp_ret fun_eq_iff)

lemma wp_if [wp_simps]: "wp (if b then m else n) Q E = (if b then wp m Q E else wp n Q E)"
  by (simp add: fun_eq_iff)

lemma wp_mono:
  assumes "wp m Q E s" and "\<And>a s'. Q a s' \<Longrightarrow> Q' a s'" and "\<And>e s'. E e s' \<Longrightarrow> E' e s'"
  shows "wp m Q' E' s"
  using assms by (auto simp: wp_def split: prod.splits res.splits)

lemma wp_conj: "wp m Q E s \<Longrightarrow> wp m Q' E' s \<Longrightarrow> wp m (\<lambda>a s. Q a s \<and> Q' a s) (\<lambda>e s. E e s \<and> E' e s) s"
  by (auto simp: wp_def split: prod.splits res.splits)

lemma wp_runD: "wp m Q (\<lambda>_ _. False) s \<Longrightarrow> \<exists>a s'. m s = (Ret a, s') \<and> Q a s'"
  by (auto simp: wp_def split: prod.splits res.splits)

lemma wp_run: "m s = (Ret a, s') \<Longrightarrow> wp m Q E s = Q a s'"
  by (simp add: wp_def)

text \<open>Loop rules: an invariant indexed by the counter.\<close>

lemma wp_for_up:
  assumes start: "I lo c s" and "lo \<le> n"
    and body: "\<And>i c s. lo \<le> i \<Longrightarrow> i < n \<Longrightarrow> I i c s \<Longrightarrow>
       wp (body i c) (\<lambda>x s'. case x of Inl c' \<Rightarrow> I (i + 1) c' s' | Inr r \<Rightarrow> Q (Inr r) s') E s"
    and exit: "\<And>c s. I n c s \<Longrightarrow> Q (Inl c) s"
  shows "wp (for_up lo n body c) Q E s"
proof -
  have "wp (for_up k n body c) Q E s" if "lo \<le> k" "k \<le> n" "I k c s" for k c s
    using that
  proof (induction "nat (n - k)" arbitrary: k c s rule: less_induct)
    case less
    show ?case
    proof (cases "k < n")
      case True
      have "wp (body k c) (\<lambda>x. wp (case x of Inl c' \<Rightarrow> for_up (k + 1) n body c' | Inr r \<Rightarrow> ret (Inr r)) Q E) E s"
        by (rule wp_mono [OF body [OF less.prems(1) True less.prems(3)]])
          (use less True in \<open>auto simp: wp_ret split: sum.splits\<close>)
      with True show ?thesis by (simp add: for_up.simps [of k] wp_bnd)
    next
      case False
      with less.prems have "k = n" by simp
      with less.prems exit have "Q (Inl c) s" by simp
      with False show ?thesis by (simp add: for_up.simps [of k] wp_ret)
    qed
  qed
  from this [OF _ \<open>lo \<le> n\<close> start] show ?thesis by simp
qed

lemma wp_for_down:
  assumes start: "I hi c s" and "lo - 1 \<le> hi"
    and body: "\<And>i c s. lo \<le> i \<Longrightarrow> i \<le> hi \<Longrightarrow> I i c s \<Longrightarrow>
       wp (body i c) (\<lambda>x s'. case x of Inl c' \<Rightarrow> I (i - 1) c' s' | Inr r \<Rightarrow> Q (Inr r) s') E s"
    and exit: "\<And>c s. I (lo - 1) c s \<Longrightarrow> Q (Inl c) s"
  shows "wp (for_down hi lo body c) Q E s"
proof -
  have "wp (for_down k lo body c) Q E s" if "lo - 1 \<le> k" "k \<le> hi" "I k c s" for k c s
    using that
  proof (induction "nat (k - lo + 1)" arbitrary: k c s rule: less_induct)
    case less
    show ?case
    proof (cases "lo \<le> k")
      case True
      have "wp (body k c) (\<lambda>x. wp (case x of Inl c' \<Rightarrow> for_down (k - 1) lo body c' | Inr r \<Rightarrow> ret (Inr r)) Q E) E s"
        by (rule wp_mono [OF body [OF True less.prems(2,3)]])
          (use less True in \<open>auto simp: wp_ret split: sum.splits\<close>)
      with True show ?thesis by (simp add: for_down.simps [of k] wp_bnd)
    next
      case False
      with less.prems have "k = lo - 1" by simp
      with less.prems exit have "Q (Inl c) s" by simp
      with False show ?thesis by (simp add: for_down.simps [of k] wp_ret)
    qed
  qed
  from this [OF \<open>lo - 1 \<le> hi\<close> _ start] show ?thesis by simp
qed

lemma wp_for_each:
  assumes start: "I lo s" and "lo \<le> n"
    and body: "\<And>i s. lo \<le> i \<Longrightarrow> i < n \<Longrightarrow> I i s \<Longrightarrow> wp (body i) (\<lambda>_. I (i + 1)) E s"
    and exit: "\<And>s. I n s \<Longrightarrow> Q () s"
  shows "wp (for_each lo n body) Q E s"
proof -
  have "wp (for_each k n body) Q E s" if "lo \<le> k" "k \<le> n" "I k s" for k s
    using that
  proof (induction "nat (n - k)" arbitrary: k s rule: less_induct)
    case less
    show ?case
    proof (cases "k < n")
      case True
      have "wp (body k) (\<lambda>_. wp (for_each (k + 1) n body) Q E) E s"
        by (rule wp_mono [OF body [OF less.prems(1) True less.prems(3)]]) (use less True in auto)
      with True show ?thesis by (simp add: for_each.simps [of k] wp_sq)
    next
      case False
      with less.prems have "k = n" by simp
      with less.prems exit have "Q () s" by simp
      with False show ?thesis by (simp add: for_each.simps [of k] wp_ret)
    qed
  qed
  from this [OF _ \<open>lo \<le> n\<close> start] show ?thesis by simp
qed

lemma wp_for_acc:
  assumes start: "I lo c s" and "lo \<le> n"
    and body: "\<And>i c s. lo \<le> i \<Longrightarrow> i < n \<Longrightarrow> I i c s \<Longrightarrow> wp (body i c) (I (i + 1)) E s"
    and exit: "\<And>c s. I n c s \<Longrightarrow> Q c s"
  shows "wp (for_acc lo n body c) Q E s"
proof -
  have "wp (for_acc k n body c) Q E s" if "lo \<le> k" "k \<le> n" "I k c s" for k c s
    using that
  proof (induction "nat (n - k)" arbitrary: k c s rule: less_induct)
    case less
    show ?case
    proof (cases "k < n")
      case True
      have "wp (body k c) (\<lambda>c. wp (for_acc (k + 1) n body c) Q E) E s"
        by (rule wp_mono [OF body [OF less.prems(1) True less.prems(3)]]) (use less True in auto)
      with True show ?thesis by (simp add: for_acc.simps [of k] wp_bnd)
    next
      case False
      with less.prems have "k = n" by simp
      with less.prems exit have "Q c s" by simp
      with False show ?thesis by (simp add: for_acc.simps [of k] wp_ret)
    qed
  qed
  from this [OF _ \<open>lo \<le> n\<close> start] show ?thesis by simp
qed

text \<open>
  A loop without a syntactic bound: the variant \<open>v\<close> decreases in every round that goes on, so
  fuel above its first value is enough.
\<close>

lemma wp_loop_fuel:
  assumes "I c s" and "v c s < fuel"
    and body: "\<And>c s. I c s \<Longrightarrow>
       wp (body c) (\<lambda>x s'. case x of Inl c' \<Rightarrow> I c' s' \<and> v c' s' < v c s | Inr r \<Rightarrow> Q r s') E s"
  shows "wp (loop_fuel fuel body c) Q E s"
  using assms(1,2)
proof (induction fuel arbitrary: c s)
  case 0
  then show ?case by simp
next
  case (Suc fuel)
  have "wp (body c) (\<lambda>x. wp (case x of Inl c' \<Rightarrow> loop_fuel fuel body c' | Inr r \<Rightarrow> ret r) Q E) E s"
    by (rule wp_mono [OF body [OF Suc.prems(1)]]) (use Suc in \<open>auto simp: wp_ret split: sum.splits\<close>)
  then show ?case by (simp add: wp_bnd)
qed

section \<open>Loops over arrays\<close>

text \<open>\<open>for (let i = 0; i < array.length; i++) { let x = array[i]; ... }\<close> over a fixed array.\<close>

primrec for_list :: "'b list \<Rightarrow> ('b \<Rightarrow> 'c \<Rightarrow> ('s, 'e, 'c) prog) \<Rightarrow> 'c \<Rightarrow> ('s, 'e, 'c) prog" where
  "for_list [] body c = ret c"
| "for_list (x # xs) body c = bnd (body x c) (for_list xs body)"

text \<open>The same with a way out (\<open>Inr\<close>).\<close>

primrec for_list_exit :: "'b list \<Rightarrow> ('b \<Rightarrow> 'c \<Rightarrow> ('s, 'e, 'c + 'r) prog) \<Rightarrow> 'c \<Rightarrow> ('s, 'e, 'c + 'r) prog" where
  "for_list_exit [] body c = ret (Inl c)"
| "for_list_exit (x # xs) body c =
     bnd (body x c) (\<lambda>r. case r of Inl c' \<Rightarrow> for_list_exit xs body c' | Inr v \<Rightarrow> ret (Inr v))"

section \<open>Partial correctness with assertions\<close>

text \<open>
  \<open>wpa m Q E A s\<close>: like \<open>wp\<close>, but a failed assertion with message \<open>msg\<close> is an outcome too, and
  then \<open>A msg\<close> holds. Running out of fuel is still excluded.
\<close>

definition wpa :: "('s, 'e, 'a) prog \<Rightarrow> ('a \<Rightarrow> 's \<Rightarrow> bool) \<Rightarrow> ('e \<Rightarrow> 's \<Rightarrow> bool) \<Rightarrow> (string \<Rightarrow> 's \<Rightarrow> bool) \<Rightarrow> 's \<Rightarrow> bool" where
  "wpa m Q E A s = (case m s of
      (Ret a, s') \<Rightarrow> Q a s'
    | (Throw e, s') \<Rightarrow> E e s'
    | (AssertFail msg, s') \<Rightarrow> A msg s'
    | (OutOfFuel, s') \<Rightarrow> False)"

named_theorems wpa_simps "wpa of the program combinators"

lemma wpa_ret [wpa_simps]: "wpa (ret a) Q E A = Q a"
  by (simp add: wpa_def ret_def fun_eq_iff)

lemma wpa_throw [wpa_simps]: "wpa (throw e) Q E A = E e"
  by (simp add: wpa_def throw_def fun_eq_iff)

lemma wpa_bnd [wpa_simps]: "wpa (bnd m f) Q E A = wpa m (\<lambda>a. wpa (f a) Q E A) E A"
  by (auto simp: wpa_def bnd_def fun_eq_iff split: prod.splits res.splits)

lemma wpa_sq [wpa_simps]: "wpa (sq m n) Q E A = wpa m (\<lambda>_. wpa n Q E A) E A"
  by (simp add: sq_def wpa_bnd fun_eq_iff)

lemma wpa_asrt [wpa_simps]: "wpa (asrt b msg) Q E A = (\<lambda>s. if b then Q () s else A msg s)"
  by (simp add: wpa_def asrt_def fun_eq_iff)

lemma wpa_gets [wpa_simps]: "wpa (gets f) Q E A = (\<lambda>s. Q (f s) s)"
  by (simp add: wpa_def gets_def fun_eq_iff)

lemma wpa_modify [wpa_simps]: "wpa (modify f) Q E A = (\<lambda>s. Q () (f s))"
  by (simp add: wpa_def modify_def fun_eq_iff)

lemma wpa_try_catch [wpa_simps]: "wpa (try_catch m h) Q E A = wpa m Q (\<lambda>e. wpa (h e) Q E A) A"
  by (auto simp: wpa_def try_catch_def fun_eq_iff split: prod.splits res.splits)

lemma wpa_when [wpa_simps]: "wpa (whenJ b m) Q E A = (\<lambda>s. if b then wpa m Q E A s else Q () s)"
  by (simp add: whenJ_def wpa_ret fun_eq_iff)

lemma wpa_if [wpa_simps]: "wpa (if b then m else n) Q E A = (if b then wpa m Q E A else wpa n Q E A)"
  by (simp add: fun_eq_iff)

lemma wpa_mono:
  assumes "wpa m Q E A s" and "\<And>a s'. Q a s' \<Longrightarrow> Q' a s'" and "\<And>e s'. E e s' \<Longrightarrow> E' e s'"
    and "\<And>msg s'. A msg s' \<Longrightarrow> A' msg s'"
  shows "wpa m Q' E' A' s"
  using assms by (auto simp: wpa_def split: prod.splits res.splits)

lemma wpa_conj: "wpa m Q E A s \<Longrightarrow> wpa m Q' E' A' s \<Longrightarrow>
    wpa m (\<lambda>a s. Q a s \<and> Q' a s) (\<lambda>e s. E e s \<and> E' e s) (\<lambda>x s. A x s \<and> A' x s) s"
  by (auto simp: wpa_def split: prod.splits res.splits)

lemma wpa_cases:
  assumes "wpa m Q E A s"
  obtains a t where "m s = (Ret a, t)" "Q a t" | e t where "m s = (Throw e, t)" "E e t"
    | msg t where "m s = (AssertFail msg, t)" "A msg t"
  using assms by (cases "m s"; cases "fst (m s)") (auto simp: wpa_def)

text \<open>A loop over a list: an invariant of what is done, what is left and the variable.\<close>

lemma wpa_for_list:
  assumes start: "I [] xs c s"
    and body: "\<And>ds x rs c s. xs = ds @ x # rs \<Longrightarrow> I ds (x # rs) c s \<Longrightarrow> wpa (body x c) (I (ds @ [x]) rs) E A s"
    and exit: "\<And>c s. I xs [] c s \<Longrightarrow> Q c s"
  shows "wpa (for_list xs body c) Q E A s"
proof -
  have "wpa (for_list rs body c) Q E A s" if "xs = ds @ rs" "I ds rs c s" for ds rs c s
    using that
  proof (induction rs arbitrary: ds c s)
    case Nil
    with exit show ?case by (simp add: wpa_ret)
  next
    case (Cons x rs)
    have "wpa (body x c) (\<lambda>c. wpa (for_list rs body c) Q E A) E A s"
      by (rule wpa_mono [OF body [OF Cons.prems]]) (use Cons.IH [of "ds @ [x]"] Cons.prems(1) in auto)
    then show ?case by (simp add: wpa_bnd)
  qed
  from this [of "[]", OF _ start] show ?thesis by simp
qed

lemma wp_for_list:
  assumes start: "I [] xs c s"
    and body: "\<And>ds x rs c s. xs = ds @ x # rs \<Longrightarrow> I ds (x # rs) c s \<Longrightarrow> wp (body x c) (I (ds @ [x]) rs) E s"
    and exit: "\<And>c s. I xs [] c s \<Longrightarrow> Q c s"
  shows "wp (for_list xs body c) Q E s"
proof -
  have "wp (for_list rs body c) Q E s" if "xs = ds @ rs" "I ds rs c s" for ds rs c s
    using that
  proof (induction rs arbitrary: ds c s)
    case Nil
    with exit show ?case by (simp add: wp_ret)
  next
    case (Cons x rs)
    have "wp (body x c) (\<lambda>c. wp (for_list rs body c) Q E) E s"
      by (rule wp_mono [OF body [OF Cons.prems]]) (use Cons.IH [of "ds @ [x]"] Cons.prems(1) in auto)
    then show ?case by (simp add: wp_bnd)
  qed
  from this [of "[]", OF _ start] show ?thesis by simp
qed

lemma wp_for_list_exit:
  assumes start: "I [] xs c s"
    and body: "\<And>ds x rs c s. xs = ds @ x # rs \<Longrightarrow> I ds (x # rs) c s \<Longrightarrow>
       wp (body x c) (\<lambda>r t. case r of Inl c' \<Rightarrow> I (ds @ [x]) rs c' t | Inr v \<Rightarrow> Q (Inr v) t) E s"
    and exit: "\<And>c s. I xs [] c s \<Longrightarrow> Q (Inl c) s"
  shows "wp (for_list_exit xs body c) Q E s"
proof -
  have "wp (for_list_exit rs body c) Q E s" if "xs = ds @ rs" "I ds rs c s" for ds rs c s
    using that
  proof (induction rs arbitrary: ds c s)
    case Nil
    with exit show ?case by (simp add: wp_ret)
  next
    case (Cons x rs)
    have "wp (body x c) (\<lambda>r. wp (case r of Inl c' \<Rightarrow> for_list_exit rs body c' | Inr v \<Rightarrow> ret (Inr v)) Q E) E s"
      by (rule wp_mono [OF body [OF Cons.prems]])
        (use Cons.IH [of "ds @ [x]"] Cons.prems(1) in \<open>auto simp: wp_ret split: sum.splits\<close>)
    then show ?case by (simp add: wp_bnd)
  qed
  from this [of "[]", OF _ start] show ?thesis by simp
qed

section \<open>Partial correctness\<close>

text \<open>\<open>wlp m Q s\<close>: if \<open>m\<close> returns from \<open>s\<close>, then with \<open>Q\<close>.\<close>

definition wlp :: "('s, 'e, 'a) prog \<Rightarrow> ('a \<Rightarrow> 's \<Rightarrow> bool) \<Rightarrow> 's \<Rightarrow> bool" where
  "wlp m Q s = (\<forall>a t. m s = (Ret a, t) \<longrightarrow> Q a t)"

named_theorems wlp_simps "wlp of the program combinators"

lemma wlp_ret [wlp_simps]: "wlp (ret a) Q = Q a"
  by (simp add: wlp_def ret_def fun_eq_iff)

lemma wlp_throw [wlp_simps]: "wlp (throw e) Q = (\<lambda>s. True)"
  by (simp add: wlp_def throw_def fun_eq_iff)

lemma wlp_bnd [wlp_simps]: "wlp (bnd m f) Q = wlp m (\<lambda>a. wlp (f a) Q)"
  by (auto simp: wlp_def bnd_def fun_eq_iff split: prod.splits res.splits)

lemma wlp_sq [wlp_simps]: "wlp (sq m n) Q = wlp m (\<lambda>_. wlp n Q)"
  by (simp add: sq_def wlp_bnd)

lemma wlp_asrt [wlp_simps]: "wlp (asrt b msg) Q = (\<lambda>s. b \<longrightarrow> Q () s)"
  by (auto simp: wlp_def asrt_def fun_eq_iff)

lemma wlp_no_fuel [wlp_simps]: "wlp no_fuel Q = (\<lambda>s. True)"
  by (simp add: wlp_def no_fuel_def fun_eq_iff)

lemma wlp_gets [wlp_simps]: "wlp (gets f) Q = (\<lambda>s. Q (f s) s)"
  by (simp add: wlp_def gets_def fun_eq_iff)

lemma wlp_modify [wlp_simps]: "wlp (modify f) Q = (\<lambda>s. Q () (f s))"
  by (simp add: wlp_def modify_def fun_eq_iff)

lemma wlp_when [wlp_simps]: "wlp (whenJ b m) Q = (\<lambda>s. if b then wlp m Q s else Q () s)"
  by (simp add: whenJ_def wlp_ret fun_eq_iff)

lemma wlp_if [wlp_simps]: "wlp (if b then m else n) Q = (if b then wlp m Q else wlp n Q)"
  by simp

lemma wlp_True [wlp_simps]: "wlp m (\<lambda>_ _. True) = (\<lambda>s. True)"
  by (simp add: wlp_def fun_eq_iff)

lemma wlp_try_catch:
  assumes "wlp m Q s" and "\<And>e t. wlp (h e) Q t"
  shows "wlp (try_catch m h) Q s"
  using assms by (auto simp: wlp_def try_catch_def split: prod.splits res.splits)

lemma wlp_mono: "wlp m Q s \<Longrightarrow> (\<And>a t. Q a t \<Longrightarrow> Q' a t) \<Longrightarrow> wlp m Q' s"
  by (auto simp: wlp_def)

lemma wlpD: "wlp m Q s \<Longrightarrow> m s = (Ret a, t) \<Longrightarrow> Q a t"
  by (simp add: wlp_def)

text \<open>Nothing is known of what is run first; a loop, for what holds of every way out of it.\<close>

lemma wlp_any: "(\<And>a t. wlp (f a) Q t) \<Longrightarrow> wlp (bnd m f) Q s"
  by (auto simp: wlp_bnd wlp_def)

lemma wlp_loop_any:
  assumes "\<And>c t. wlp (body c) (\<lambda>x t. case x of Inl _ \<Rightarrow> True | Inr r \<Rightarrow> Q r t) t"
  shows "wlp (loop_fuel n body c) Q s"
proof (induction n arbitrary: c s)
  case (Suc n)
  show ?case unfolding loop_fuel.simps wlp_bnd
    by (rule wlp_mono [OF assms]) (auto simp: wlp_ret Suc.IH split: sum.splits)
qed (simp add: wlp_no_fuel)

lemma wlp_for_list:
  assumes start: "I [] xs c s"
    and body: "\<And>ds x rs c s. xs = ds @ x # rs \<Longrightarrow> I ds (x # rs) c s \<Longrightarrow> wlp (body x c) (I (ds @ [x]) rs) s"
    and exit: "\<And>c s. I xs [] c s \<Longrightarrow> Q c s"
  shows "wlp (for_list xs body c) Q s"
proof -
  have "wlp (for_list rs body c) Q s" if "xs = ds @ rs" "I ds rs c s" for ds rs c s
    using that
  proof (induction rs arbitrary: ds c s)
    case Nil
    with exit show ?case by (simp add: wlp_ret)
  next
    case (Cons x rs)
    have "wlp (body x c) (\<lambda>c. wlp (for_list rs body c) Q) s"
      by (rule wlp_mono [OF body [OF Cons.prems]]) (use Cons.IH [of "ds @ [x]"] Cons.prems(1) in auto)
    then show ?case by (simp add: wlp_bnd)
  qed
  from this [of "[]", OF _ start] show ?thesis by simp
qed

lemma wlp_for_acc:
  assumes start: "I lo c s" and "lo \<le> n"
    and body: "\<And>i c s. lo \<le> i \<Longrightarrow> i < n \<Longrightarrow> I i c s \<Longrightarrow> wlp (body i c) (I (i + 1)) s"
    and exit: "\<And>c s. I n c s \<Longrightarrow> Q c s"
  shows "wlp (for_acc lo n body c) Q s"
proof -
  have "wlp (for_acc k n body c) Q s" if "lo \<le> k" "k \<le> n" "I k c s" for k c s
    using that
  proof (induction "nat (n - k)" arbitrary: k c s rule: less_induct)
    case less
    show ?case
    proof (cases "k < n")
      case True
      have "wlp (body k c) (\<lambda>c. wlp (for_acc (k + 1) n body c) Q) s"
        by (rule wlp_mono [OF body [OF less.prems(1) True less.prems(3)]]) (use less True in auto)
      with True show ?thesis by (simp add: for_acc.simps [of k] wlp_bnd)
    next
      case False
      with less.prems have "k = n" by simp
      with less.prems exit have "Q c s" by simp
      with False show ?thesis by (simp add: for_acc.simps [of k] wlp_ret)
    qed
  qed
  from this [OF _ \<open>lo \<le> n\<close> start] show ?thesis by simp
qed

end
