(* ===== verification/JSValues.thy ===== *)
theory JSValues
  imports Prelude "HOL-Library.Word"
begin

text \<open>
  The values of the language: numbers, strings of 16-bit code units, the other primitives and
  references to objects; property keys; the operators of the sources on primitive values
  (\<open>===\<close>, \<open><\<close>, \<open>typeof\<close>, truthiness, integer conversions).
\<close>

section \<open>Numbers\<close>

text \<open>
  A Number is NaN, an infinity, negative zero or a finite value. Finite values are exact: the
  sources do their arithmetic on integers of magnitude at most 2 ^ 53, where doubles are exact
  too. \<open>Fin 0\<close> is positive zero.
\<close>

datatype num = NaN | NInf | NZero | PInf | Fin rat

fun num_rat :: "num \<Rightarrow> rat" where
  "num_rat (Fin r) = r"
| "num_rat _ = 0"

text \<open>The operators \<open><\<close>, \<open>===\<close>, \<open><=\<close> and \<open>>\<close> on Numbers: false whenever a side is NaN.\<close>

fun num_lt :: "num \<Rightarrow> num \<Rightarrow> bool" where
  "num_lt NaN _ = False"
| "num_lt _ NaN = False"
| "num_lt PInf _ = False"
| "num_lt _ NInf = False"
| "num_lt NInf _ = True"
| "num_lt _ PInf = True"
| "num_lt x y = (num_rat x < num_rat y)"

definition num_eq :: "num \<Rightarrow> num \<Rightarrow> bool" where
  "num_eq x y = (x \<noteq> NaN \<and> y \<noteq> NaN \<and> \<not> num_lt x y \<and> \<not> num_lt y x)"

definition num_le :: "num \<Rightarrow> num \<Rightarrow> bool" where
  "num_le x y = (num_lt x y \<or> num_eq x y)"

definition num_gt :: "num \<Rightarrow> num \<Rightarrow> bool" where
  "num_gt x y = num_lt y x"

abbreviation nint :: "int \<Rightarrow> num" where
  "nint i \<equiv> Fin (of_int i)"

lemma num_lt_nint [simp]: "num_lt (nint i) (nint j) = (i < j)"
  by simp

lemma num_eq_nint [simp]: "num_eq (nint i) (nint j) = (i = j)"
  by (auto simp: num_eq_def)

lemma num_eq_refl: "num_eq x x = (x \<noteq> NaN)"
  by (cases x) (auto simp: num_eq_def)

lemma num_lt_irrefl [simp]: "\<not> num_lt x x"
  by (cases x) auto

lemma num_lt_asym: "num_lt x y \<Longrightarrow> \<not> num_lt y x"
  by (cases x; cases y) auto

lemma num_lt_trans: "num_lt x y \<Longrightarrow> num_lt y z \<Longrightarrow> num_lt x z"
  by (cases x; cases y; cases z) auto

lemma num_lt_NaN [simp]: "\<not> num_lt x NaN"
  by (cases x) auto

text \<open>The test for NaN of the sources: \<open>x !== x\<close>.\<close>

lemma num_neq_self_iff_NaN: "(\<not> num_eq x x) = (x = NaN)"
  by (simp add: num_eq_refl)

text \<open>Exactly one of \<open><\<close>, \<open>===\<close>, \<open>>\<close> holds of two Numbers neither of which is NaN.\<close>

lemma num_trichotomy:
  "x \<noteq> NaN \<Longrightarrow> y \<noteq> NaN \<Longrightarrow> num_lt x y \<or> num_eq x y \<or> num_lt y x"
  by (auto simp: num_eq_def)

lemma num_le_iff_not_lt: "x \<noteq> NaN \<Longrightarrow> y \<noteq> NaN \<Longrightarrow> num_le x y \<longleftrightarrow> \<not> num_lt y x"
  by (auto simp: num_le_def num_eq_def dest: num_lt_asym)

section \<open>Values and property keys\<close>

type_synonym jstr = "16 word list"

definition js :: "string \<Rightarrow> jstr" where
  "js s = map of_char s"

datatype val =
    Undef
  | Null
  | Bool bool
  | Num num
  | Str jstr
  | Sym nat
  | BigInt int
  | Obj nat

text \<open>Property keys: the engine keeps integer keys apart from the other strings.\<close>

datatype key = PIdx int | PStr jstr | PSym nat

abbreviation vint :: "int \<Rightarrow> val" where
  "vint i \<equiv> Num (nint i)"

fun IsObject :: "val \<Rightarrow> bool" where
  "IsObject (Obj _) = True"
| "IsObject _ = False"

text \<open>\<open>undefined\<close> or \<open>null\<close>\<close>

definition is_nullish :: "val \<Rightarrow> bool" where
  "is_nullish v = (v = Undef \<or> v = Null)"

text \<open>\<open>!!v\<close>\<close>

fun truthy :: "val \<Rightarrow> bool" where
  "truthy Undef = False"
| "truthy Null = False"
| "truthy (Bool b) = b"
| "truthy (Num n) = (n \<noteq> NaN \<and> n \<noteq> NZero \<and> n \<noteq> Fin 0)"
| "truthy (Str s) = (s \<noteq> [])"
| "truthy (BigInt i) = (i \<noteq> 0)"
| "truthy _ = True"

text \<open>The operator \<open>===\<close>.\<close>

fun strict_eq :: "val \<Rightarrow> val \<Rightarrow> bool" where
  "strict_eq (Num x) (Num y) = num_eq x y"
| "strict_eq x y = (x = y)"

lemma strict_eq_refl: "strict_eq x x = (x \<noteq> Num NaN)"
  by (cases x) (auto simp: num_eq_refl)

lemma strict_eq_sym: "strict_eq x y = strict_eq y x"
  by (cases x; cases y) (auto simp: num_eq_def)

section \<open>Integer conversions\<close>

text \<open>\<open>ToInteger\<close> gives an integer or an infinity; NaN and the zeros give \<open>+0\<close>.\<close>

datatype inum = IFin int | IPInf | INInf

definition rat_trunc :: "rat \<Rightarrow> int" where
  "rat_trunc r = (if 0 \<le> r then floor r else ceiling r)"

fun num_to_integer :: "num \<Rightarrow> inum" where
  "num_to_integer NaN = IFin 0"
| "num_to_integer NZero = IFin 0"
| "num_to_integer PInf = IPInf"
| "num_to_integer NInf = INInf"
| "num_to_integer (Fin r) = IFin (rat_trunc r)"

lemma num_to_integer_nint [simp]: "num_to_integer (nint i) = IFin i"
  by (simp add: rat_trunc_def)

text \<open>These numbers are ordered, so \<open>std_Math_min\<close> and \<open>std_Math_max\<close> are \<open>min\<close> and \<open>max\<close>.\<close>

fun inum_le :: "inum \<Rightarrow> inum \<Rightarrow> bool" where
  "inum_le INInf _ = True"
| "inum_le _ IPInf = True"
| "inum_le (IFin i) (IFin j) = (i \<le> j)"
| "inum_le _ _ = False"

instantiation inum :: linorder
begin

definition less_eq_inum :: "inum \<Rightarrow> inum \<Rightarrow> bool" where
  "less_eq_inum a b = inum_le a b"

definition less_inum :: "inum \<Rightarrow> inum \<Rightarrow> bool" where
  "less_inum a b = (\<not> inum_le b a)"

lemma inum_le_trans: "inum_le a b \<Longrightarrow> inum_le b c \<Longrightarrow> inum_le a c"
  by (cases a; cases b; cases c) auto

lemma inum_le_antisym: "inum_le a b \<Longrightarrow> inum_le b a \<Longrightarrow> a = b"
  by (cases a; cases b) auto

lemma inum_le_linear: "inum_le a b \<or> inum_le b a"
  by (cases a; cases b) auto

instance
proof
  fix a b c :: inum
  show "(a < b) = (a \<le> b \<and> \<not> b \<le> a)"
    unfolding less_eq_inum_def less_inum_def using inum_le_linear by blast
  show "a \<le> a" unfolding less_eq_inum_def using inum_le_linear by blast
  show "a \<le> b \<Longrightarrow> b \<le> c \<Longrightarrow> a \<le> c" unfolding less_eq_inum_def by (rule inum_le_trans)
  show "a \<le> b \<Longrightarrow> b \<le> a \<Longrightarrow> a = b" unfolding less_eq_inum_def by (rule inum_le_antisym)
  show "a \<le> b \<or> b \<le> a" unfolding less_eq_inum_def by (rule inum_le_linear)
qed

end

lemma inum_le_simps [simp]: "inum_le a IPInf" "inum_le IPInf a = (a = IPInf)" "inum_le a INInf = (a = INInf)"
  by (cases a, simp_all)+

lemma inum_order [simp]:
  "IFin i \<le> IFin j \<longleftrightarrow> i \<le> j" "IFin i < IFin j \<longleftrightarrow> i < j"
  "a \<le> IPInf" "INInf \<le> a" "\<not> IPInf < a" "\<not> a < INInf"
  "IFin i < IPInf" "INInf < IFin i" "\<not> IPInf \<le> IFin i" "\<not> IFin i \<le> INInf" "INInf < IPInf" "\<not> IPInf \<le> INInf"
  unfolding less_eq_inum_def less_inum_def by auto

lemma inum_min_max [simp]:
  "min (IFin i) (IFin j) = IFin (min i j)" "max (IFin i) (IFin j) = IFin (max i j)"
  "min IPInf a = a" "min a IPInf = a" "min INInf a = INInf" "min a INInf = INInf"
  "max IPInf a = IPInf" "max a IPInf = IPInf" "max INInf a = a" "max a INInf = a"
  unfolding min_def max_def less_eq_inum_def by auto

text \<open>\<open>n + i\<close> and \<open>n - i\<close> for an integer \<open>n\<close>.\<close>

fun iplus :: "int \<Rightarrow> inum \<Rightarrow> inum" where
  "iplus n (IFin i) = IFin (n + i)"
| "iplus n IPInf = IPInf"
| "iplus n INInf = INInf"

fun iminus :: "int \<Rightarrow> inum \<Rightarrow> inum" where
  "iminus n (IFin i) = IFin (n - i)"
| "iminus n IPInf = INInf"
| "iminus n INInf = IPInf"

fun inum_num :: "inum \<Rightarrow> num" where
  "inum_num (IFin i) = nint i"
| "inum_num IPInf = PInf"
| "inum_num INInf = NInf"

text \<open>\<open>ToLength\<close>: clamped to [0, 2 ^ 53 - 1].\<close>

definition max_safe :: int where
  "max_safe = 2 ^ 53 - 1"

fun num_to_length :: "num \<Rightarrow> int" where
  "num_to_length n = (case num_to_integer n of
      IFin i \<Rightarrow> max 0 (min i max_safe)
    | IPInf \<Rightarrow> max_safe
    | INInf \<Rightarrow> 0)"

lemma num_to_length_bounds: "0 \<le> num_to_length n" "num_to_length n \<le> max_safe"
  by (auto simp: max_safe_def split: inum.splits)

lemma num_to_length_nint: "0 \<le> i \<Longrightarrow> i \<le> max_safe \<Longrightarrow> num_to_length (nint i) = i"
  by (simp add: max_def min_def rat_trunc_def)

text \<open>\<open>ToInt32\<close>: the integer part modulo 2 ^ 32, read as two's complement.\<close>

definition to_int32 :: "int \<Rightarrow> int" where
  "to_int32 i = sint (word_of_int i :: 32 word)"

lemma to_int32_small: "- (2 ^ 31) \<le> i \<Longrightarrow> i < 2 ^ 31 \<Longrightarrow> to_int32 i = i"
  unfolding to_int32_def by (simp add: signed_of_int signed_take_bit_int_eq_self)

section \<open>Exceptions\<close>

text \<open>What a \<open>Throw\<close> carries: an error made by \<open>ThrowTypeError\<close> and its like, by message id, or
  a value thrown by other code.\<close>

datatype exn = TypeErr string | RangeErr string | SyntaxErr string | InternalErr string | Thrown val

end
