(* ===== verification/SortInsertion.thy ===== *)
theory SortInsertion
  imports JSValues "HOL-Library.Sorting_Algorithms"
begin

text \<open>
  The array interface of Sorting.js, comparators, and \<open>InsertionSort\<close>. The abstract
  specification of every comparison sort here is the library's \<open>Sorting_Algorithms.sort\<close>: the
  sorted, stable permutation of the input, which is unique.
\<close>

section \<open>The interfaces\<close>

text \<open>\<open>array[i]\<close> and \<open>array[i] = x\<close>.\<close>

record ('s, 'e, 'a) arrayI =
  rd :: "int \<Rightarrow> ('s, 'e, 'a) prog"
  wr :: "int \<Rightarrow> 'a \<Rightarrow> ('s, 'e, unit) prog"

text \<open>
  An array of fixed length inside the state \<open>'s\<close>: \<open>view\<close> reads its elements, \<open>upd\<close> replaces
  them. \<open>valid\<close> says which values a write stores unchanged.
\<close>

locale indexed_array =
  fixes A :: "('s, 'e, 'a) arrayI"
    and view :: "'s \<Rightarrow> 'a list"
    and upd :: "'a list \<Rightarrow> 's \<Rightarrow> 's"
    and valid :: "'a \<Rightarrow> bool"
  assumes rd_in: "0 \<le> i \<Longrightarrow> i < int (length (view s)) \<Longrightarrow> rd A i s = (Ret (view s ! nat i), s)"
    and wr_in: "0 \<le> i \<Longrightarrow> i < int (length (view s)) \<Longrightarrow> valid x \<Longrightarrow>
      wr A i x s = (Ret (), upd ((view s)[nat i := x]) s)"
    and view_upd: "length xs = length (view s) \<Longrightarrow> view (upd xs s) = xs"
    and upd_upd: "upd ys (upd xs s) = upd ys s"
    and upd_view: "upd (view s) s = s"
begin

lemma rd_at: "view s = us @ x # vs \<Longrightarrow> i = int (length us) \<Longrightarrow> rd A i s = (Ret x, s)"
  using rd_in [of i s] by simp

lemma wr_at: "view s = us @ y # vs \<Longrightarrow> i = int (length us) \<Longrightarrow> valid x \<Longrightarrow>
    wr A i x s = (Ret (), upd (us @ x # vs) s)"
  using wr_in [of i s x] by (simp add: list_update_append)

end

text \<open>
  A comparison function that runs without effects on valid elements and whose sign is that of a
  linear preorder \<open>c\<close>: what \<open>sort\<close> needs of the function it is given.
\<close>

definition comparefn_for :: "'a comparator \<Rightarrow> ('a \<Rightarrow> bool) \<Rightarrow> ('a \<Rightarrow> 'a \<Rightarrow> ('s, 'e, num) prog) \<Rightarrow> bool" where
  "comparefn_for c valid cmp = (\<forall>x y s. valid x \<longrightarrow> valid y \<longrightarrow>
     (\<exists>n. cmp x y s = (Ret n, s)
        \<and> num_lt n (Fin 0) = (compare c x y = Less)
        \<and> num_gt n (Fin 0) = (compare c x y = Greater)
        \<and> num_le n (Fin 0) = (compare c x y \<noteq> Greater)))"

lemma comparefn_forD:
  assumes "comparefn_for c valid cmp" "valid x" "valid y"
  obtains n where "cmp x y s = (Ret n, s)"
    and "num_lt n (Fin 0) = (compare c x y = Less)"
    and "num_gt n (Fin 0) = (compare c x y = Greater)"
    and "num_le n (Fin 0) = (compare c x y \<noteq> Greater)"
  using assms unfolding comparefn_for_def by blast

text \<open>A comparison function given by a pure, never-NaN function.\<close>

lemma comparefn_forI:
  assumes "\<And>x y s. valid x \<Longrightarrow> valid y \<Longrightarrow> cmp x y s = (Ret (f x y), s)"
    and "\<And>x y. valid x \<Longrightarrow> valid y \<Longrightarrow> f x y \<noteq> NaN"
    and "\<And>x y. valid x \<Longrightarrow> valid y \<Longrightarrow> num_lt (f x y) (Fin 0) = (compare c x y = Less)"
    and "\<And>x y. valid x \<Longrightarrow> valid y \<Longrightarrow> num_lt (Fin 0) (f x y) = (compare c x y = Greater)"
  shows "comparefn_for c valid cmp"
  using assms by (auto simp: comparefn_for_def num_gt_def num_le_iff_not_lt)

section \<open>Stable insertion\<close>

text \<open>Inserting after the last element that is not greater keeps the order of equal elements.\<close>

lemma stable_segment_none:
  "\<forall>p \<in> set xs. compare c p x = Greater \<Longrightarrow> compare c y x = Equiv \<Longrightarrow>
   filter (\<lambda>z. compare c y z = Equiv) xs = []"
proof (rule filter_False, rule ballI, rule notI)
  fix z
  assume z: "\<forall>p \<in> set xs. compare c p x = Greater" "compare c y x = Equiv" "z \<in> set xs" "compare c y z = Equiv"
  then have "compare c z y = Equiv" by (simp add: compare.sym)
  from compare.trans_equiv [OF this z(2)] have "compare c z x = Equiv" .
  with z show False by auto
qed

lemma sort_insert_last:
  assumes s: "Sorting_Algorithms.sort c xs = P1 @ P2"
    and gt: "\<forall>p \<in> set P2. compare c p x = Greater"
    and le: "P1 = [] \<or> compare c (last P1) x \<noteq> Greater"
  shows "Sorting_Algorithms.sort c (xs @ [x]) = P1 @ x # P2"
proof (rule sort_eqI)
  have "mset xs = mset (P1 @ P2)" using s by (metis mset_sort)
  then show "mset (xs @ [x]) = mset (P1 @ x # P2)" by simp
next
  have srt: "Sorting_Algorithms.sorted c (P1 @ P2)" using s by (metis sorted_sort)
  have P1le: "compare c p x \<noteq> Greater" if "p \<in> set P1" for p
  proof -
    from that obtain ps where ps: "P1 = ps @ [last P1]" by (metis append_butlast_last_id list.set_cases list.discI)
    have "Sorting_Algorithms.sorted c P1" using srt by (simp add: sorted_append_iff)
    then have "p = last P1 \<or> compare c p (last P1) \<noteq> Greater"
      using that ps sorted_append_iff [of c ps "[last P1]"] by (metis Un_iff empty_iff insert_iff list.set(1,2) set_append)
    with le that show ?thesis by (metis compare.trans_not_greater list.set_cases list.discI)
  qed
  show "Sorting_Algorithms.sorted c (P1 @ x # P2)"
    unfolding sorted_append_iff [of c P1]
  proof (intro conjI)
    show "Sorting_Algorithms.sorted c P1" using srt by (simp add: sorted_append_iff)
    show "Sorting_Algorithms.sorted c (x # P2)"
      using srt gt by (intro sorted_ConsI) (auto simp: sorted_append_iff compare.greater_iff_sym_less)
    show "\<forall>y\<in>set P1. \<forall>z\<in>set (x # P2). compare c y z \<noteq> Greater"
      using srt P1le by (auto simp: sorted_append_iff)
  qed
next
  fix y
  have seg: "filter (\<lambda>z. compare c y z = Equiv) xs = filter (\<lambda>z. compare c y z = Equiv) (P1 @ P2)"
    using stable_sort [of c y xs] s by simp
  show "filter (\<lambda>z. compare c y z = Equiv) (xs @ [x]) = filter (\<lambda>z. compare c y z = Equiv) (P1 @ x # P2)"
  proof (cases "compare c y x = Equiv")
    case True
    with gt have "filter (\<lambda>z. compare c y z = Equiv) P2 = []" by (rule stable_segment_none)
    with seg True show ?thesis by simp
  next
    case False
    with seg show ?thesis by simp
  qed
qed

section \<open>InsertionSort\<close>

text \<open>
  The inner loop \<open>for (j = i - 1; j >= from; j--)\<close>; it yields the value of \<open>j\<close> on exit.
\<close>

definition InsertionSort_inner ::
    "('s, 'e, 'a) arrayI \<Rightarrow> ('a \<Rightarrow> 'a \<Rightarrow> ('s, 'e, num) prog) \<Rightarrow> 'a \<Rightarrow> int \<Rightarrow> int \<Rightarrow> ('s, 'e, int) prog" where
  "InsertionSort_inner A comparefn item frm i =
     bnd (for_down (i - 1) frm (\<lambda>j _.
            bnd (rd A j) (\<lambda>swap.
            bnd (comparefn swap item) (\<lambda>r.
            if num_le r (Fin 0) then ret (Inr j)
            else sq (wr A (j + 1) swap) (ret (Inl ()))))) ())
       (\<lambda>x. case x of Inl _ \<Rightarrow> ret (frm - 1) | Inr j \<Rightarrow> ret j)"

definition InsertionSort ::
    "('s, 'e, 'a) arrayI \<Rightarrow> int \<Rightarrow> int \<Rightarrow> ('a \<Rightarrow> 'a \<Rightarrow> ('s, 'e, num) prog) \<Rightarrow> ('s, 'e, unit) prog" where
  "InsertionSort A frm to comparefn =
     for_each (frm + 1) (to + 1) (\<lambda>i.
       bnd (rd A i) (\<lambda>item.
       bnd (InsertionSort_inner A comparefn item frm i) (\<lambda>j.
       wr A (j + 1) item)))"

context indexed_array begin

lemma inner_loop:
  assumes cmp: "comparefn_for c valid cmp" and "valid x"
  shows "view s = us @ P @ h # Q \<Longrightarrow> list_all valid P \<Longrightarrow> frm = int (length us) \<Longrightarrow>
    k = frm + int (length P) - 1 \<Longrightarrow>
    \<exists>P1 P2 h' j. P = P1 @ P2 \<and> (\<forall>p \<in> set P2. compare c p x = Greater)
      \<and> (P1 = [] \<or> compare c (last P1) x \<noteq> Greater)
      \<and> j = frm + int (length P1) - 1
      \<and> bnd (for_down k frm (\<lambda>j _.
            bnd (rd A j) (\<lambda>swap.
            bnd (cmp swap x) (\<lambda>r.
            if num_le r (Fin 0) then ret (Inr j)
            else sq (wr A (j + 1) swap) (ret (Inl ()))))) ())
          (\<lambda>x. case x of Inl _ \<Rightarrow> ret (frm - 1) | Inr j \<Rightarrow> ret j) s
        = (Ret j, upd (us @ P1 @ h' # P2 @ Q) s)"
proof (induction P arbitrary: s h Q k rule: rev_induct)
  case Nil
  then have "upd (us @ h # Q) s = s" by (metis append_Nil upd_view)
  with Nil show ?case
    by (intro exI [of _ "[]"] exI [of _ h]) (simp add: for_down_done run_simps)
next
  case (snoc p P)
  from snoc.prems have v: "view s = (us @ P) @ p # h # Q" and k: "k = int (length (us @ P))" by simp_all
  from snoc.prems have vp: "valid p" "list_all valid P" by simp_all
  have r: "rd A k s = (Ret p, s)" using v k by (rule rd_at)
  obtain n where n: "cmp p x s = (Ret n, s)" "num_le n (Fin 0) = (compare c p x \<noteq> Greater)"
    using comparefn_forD [OF cmp \<open>valid p\<close> \<open>valid x\<close>] by metis
  show ?case
  proof (cases "compare c p x = Greater")
    case False
    have "upd (us @ (P @ [p]) @ h # Q) s = s" using snoc.prems(1) by (metis upd_view)
    with False r n k show ?thesis
      by (intro exI [of _ "P @ [p]"] exI [of _ "[]"] exI [of _ h])
        (simp add: for_down_step run_simps snoc.prems(3))
  next
    case True
    let ?s = "upd (us @ P @ p # p # Q) s"
    have w: "wr A (k + 1) p s = (Ret (), ?s)"
      using wr_at [of s "us @ P @ [p]" h Q "k + 1" p] v k vp by simp
    have vs: "view ?s = us @ P @ p # p # Q" using v by (simp add: view_upd)
    have k1: "k - 1 = frm + int (length P) - 1" using k snoc.prems(3) by simp
    obtain P1 P2 h' j where IH: "P = P1 @ P2" "\<forall>q \<in> set P2. compare c q x = Greater"
      "P1 = [] \<or> compare c (last P1) x \<noteq> Greater" "j = frm + int (length P1) - 1"
      "bnd (for_down (k - 1) frm (\<lambda>j _.
            bnd (rd A j) (\<lambda>swap.
            bnd (cmp swap x) (\<lambda>r.
            if num_le r (Fin 0) then ret (Inr j)
            else sq (wr A (j + 1) swap) (ret (Inl ()))))) ())
          (\<lambda>x. case x of Inl _ \<Rightarrow> ret (frm - 1) | Inr j \<Rightarrow> ret j) ?s
        = (Ret j, upd (us @ P1 @ h' # P2 @ p # Q) ?s)"
      using snoc.IH [OF vs vp(2) snoc.prems(3) k1] by blast
    have "frm \<le> k" using k snoc.prems(3) by simp
    with r n True w IH show ?thesis
      by (intro exI [of _ P1] exI [of _ "P2 @ [p]"] exI [of _ h'] exI [of _ j])
        (simp add: for_down_step run_simps bnd_assoc upd_upd)
  qed
qed

lemma InsertionSort_inner_spec:
  assumes cmp: "comparefn_for c valid cmp" and "valid x" and v: "view s = us @ P @ h # Q"
    and "list_all valid P" and frm: "frm = int (length us)" and i: "i = frm + int (length P)"
  shows "\<exists>P1 P2 h' j. P = P1 @ P2 \<and> (\<forall>p \<in> set P2. compare c p x = Greater)
    \<and> (P1 = [] \<or> compare c (last P1) x \<noteq> Greater) \<and> j = frm + int (length P1) - 1
    \<and> InsertionSort_inner A cmp x frm i s = (Ret j, upd (us @ P1 @ h' # P2 @ Q) s)"
  unfolding InsertionSort_inner_def
  by (rule inner_loop [OF cmp \<open>valid x\<close> v \<open>list_all valid P\<close> frm]) (simp add: i)

lemma outer_loop:
  assumes cmp: "comparefn_for c valid cmp"
  shows "view s = us @ Sorting_Algorithms.sort c S @ ps @ vs \<Longrightarrow> list_all valid (S @ ps) \<Longrightarrow>
    frm = int (length us) \<Longrightarrow> i = frm + int (length S) \<Longrightarrow> to = i + int (length ps) - 1 \<Longrightarrow>
    for_each i (to + 1) (\<lambda>i.
       bnd (rd A i) (\<lambda>item.
       bnd (InsertionSort_inner A cmp item frm i) (\<lambda>j.
       wr A (j + 1) item))) s
     = (Ret (), upd (us @ Sorting_Algorithms.sort c (S @ ps) @ vs) s)"
proof (induction ps arbitrary: s S i)
  case Nil
  then have "upd (us @ Sorting_Algorithms.sort c S @ vs) s = s" by (metis append_Nil upd_view)
  with Nil show ?case by (simp add: for_each_done run_simps)
next
  case (Cons x ps)
  let ?P = "Sorting_Algorithms.sort c S"
  have v: "view s = us @ ?P @ x # ps @ vs" using Cons.prems(1) by simp
  have val: "valid x" "list_all valid ?P" "list_all valid (S @ [x]) " "list_all valid ps"
    using Cons.prems(2) by (auto simp: list_all_iff)
  have r: "rd A i s = (Ret x, s)"
    using v Cons.prems(3,4) by (intro rd_at [of s "us @ ?P" x "ps @ vs"]) simp_all
  obtain P1 P2 h' j where I: "?P = P1 @ P2" "\<forall>p \<in> set P2. compare c p x = Greater"
      "P1 = [] \<or> compare c (last P1) x \<noteq> Greater" "j = frm + int (length P1) - 1"
      "InsertionSort_inner A cmp x frm i s = (Ret j, upd (us @ P1 @ h' # P2 @ ps @ vs) s)"
    using InsertionSort_inner_spec [OF cmp val(1) v val(2) Cons.prems(3), of i] Cons.prems(4)
    unfolding length_sort by blast
  let ?s1 = "upd (us @ P1 @ h' # P2 @ ps @ vs) s"
  let ?s2 = "upd (us @ P1 @ x # P2 @ ps @ vs) s"
  have "view ?s1 = (us @ P1) @ h' # P2 @ ps @ vs" using v I(1) by (simp add: view_upd)
  then have w: "wr A (j + 1) x ?s1 = (Ret (), ?s2)"
    using wr_at [of ?s1 "us @ P1" h' "P2 @ ps @ vs" "j + 1" x] I(4) Cons.prems(3) val(1)
    by (simp add: upd_upd)
  have S: "Sorting_Algorithms.sort c (S @ [x]) = P1 @ x # P2"
    using I(1-3) by (rule sort_insert_last)
  have "view ?s2 = us @ Sorting_Algorithms.sort c (S @ [x]) @ ps @ vs"
    using v I(1) by (simp add: view_upd S)
  note IH = Cons.IH [OF this _ Cons.prems(3), of "i + 1"]
  have "for_each (i + 1) (to + 1) (\<lambda>i.
       bnd (rd A i) (\<lambda>item.
       bnd (InsertionSort_inner A cmp item frm i) (\<lambda>j.
       wr A (j + 1) item))) ?s2
     = (Ret (), upd (us @ Sorting_Algorithms.sort c ((S @ [x]) @ ps) @ vs) ?s2)"
    by (rule IH) (use Cons.prems val in simp_all)
  moreover have "i < to + 1" using Cons.prems(5) by simp
  ultimately show ?case
    using r I(5) w by (simp add: for_each_step run_simps upd_upd)
qed

text \<open>The slice \<open>[from..to]\<close> is sorted stably; nothing else changes.\<close>

lemma InsertionSort_slice:
  assumes cmp: "comparefn_for c valid cmp"
    and v: "view s = us @ xs @ vs" and "list_all valid xs"
    and "frm = int (length us)" and "to = frm + int (length xs) - 1"
  shows "InsertionSort A frm to cmp s = (Ret (), upd (us @ Sorting_Algorithms.sort c xs @ vs) s)"
proof (cases xs)
  case Nil
  with v have "upd (us @ vs) s = s" by (metis append_Nil upd_view)
  with Nil assms(5) show ?thesis
    by (simp add: InsertionSort_def for_each_done run_simps)
next
  case (Cons x ps)
  with v have "view s = us @ Sorting_Algorithms.sort c [x] @ ps @ vs" by simp
  from outer_loop [OF cmp this, of frm "frm + 1" to] assms Cons show ?thesis
    by (simp add: InsertionSort_def)
qed

end

end
