(* ===== verification/TypedElems.thy ===== *)
theory TypedElems
  imports SortInsertion "HOL-Library.Product_Lexorder"
begin

text \<open>
  The elements of typed arrays: kinds, the Number or BigInt an element's bits stand for, and the
  default comparison functions of TypedArray.js with the linear orders they compute.
\<close>

unbundle bit_operations_syntax

section \<open>Kinds and bits\<close>

datatype ta_kind =
    Int8 | Uint8 | Int16 | Uint16 | Int32 | Uint32 | Float32 | Float64 | Uint8Clamped | BigInt64 | BigUint64

text \<open>What \<open>array[i]\<close> gives: an element, kept as its bits, or \<open>undefined\<close> out of range.\<close>

datatype tval = Elt "64 word" | UndefT

text \<open>
  The IEEE 754 formats: \<open>mb\<close> bits of mantissa, \<open>eb\<close> of exponent, then the sign. The magnitude
  of the pattern \<open>k\<close> is \<open>float_mag mb k\<close> units of the least positive number.
\<close>

definition float_mag :: "nat \<Rightarrow> nat \<Rightarrow> nat" where
  "float_mag mb k = (if k < 2 ^ mb then k else (2 ^ mb + k mod 2 ^ mb) * 2 ^ (k div 2 ^ mb - 1))"

definition float_inf :: "nat \<Rightarrow> nat \<Rightarrow> nat" where
  "float_inf mb eb = (2 ^ eb - 1) * 2 ^ mb"

definition float_num :: "nat \<Rightarrow> nat \<Rightarrow> nat \<Rightarrow> num" where
  "float_num mb eb n =
     (let k = n mod 2 ^ (mb + eb);
          neg = (2 ^ (mb + eb) \<le> n);
          unit' = 2 ^ (2 ^ (eb - 1) - 2 + mb)
      in
      if float_inf mb eb < k then NaN
      else if k = float_inf mb eb then (if neg then NInf else PInf)
      else if k = 0 then (if neg then NZero else Fin 0)
      else Fin ((if neg then -1 else 1) * (of_nat (float_mag mb k) / unit')))"

definition float32_num :: "32 word \<Rightarrow> num" where
  "float32_num w = float_num 23 8 (unat w)"

definition float64_num :: "64 word \<Rightarrow> num" where
  "float64_num w = float_num 52 11 (unat w)"

text \<open>The integer an element of an integer or BigInt array stands for.\<close>

fun elem_int :: "ta_kind \<Rightarrow> 64 word \<Rightarrow> int" where
  "elem_int Int8 w = sint (ucast w :: 8 word)"
| "elem_int Uint8 w = uint (ucast w :: 8 word)"
| "elem_int Uint8Clamped w = uint (ucast w :: 8 word)"
| "elem_int Int16 w = sint (ucast w :: 16 word)"
| "elem_int Uint16 w = uint (ucast w :: 16 word)"
| "elem_int Int32 w = sint (ucast w :: 32 word)"
| "elem_int Uint32 w = uint (ucast w :: 32 word)"
| "elem_int BigInt64 w = sint w"
| "elem_int BigUint64 w = uint w"
| "elem_int _ w = 0"

definition elem :: "ta_kind \<Rightarrow> tval \<Rightarrow> val" where
  "elem K x = (case x of
      UndefT \<Rightarrow> Undef
    | Elt w \<Rightarrow>
       if K = Float32 then Num (float32_num (ucast w))
       else if K = Float64 then Num (float64_num w)
       else if K = BigInt64 \<or> K = BigUint64 then BigInt (elem_int K w)
       else vint (elem_int K w))"

text \<open>Storing an integral Number in an integer array keeps its low bits.\<close>

fun store_int :: "ta_kind \<Rightarrow> int \<Rightarrow> tval" where
  "store_int Int8 i = Elt (ucast (word_of_int i :: 8 word))"
| "store_int Uint8 i = Elt (ucast (word_of_int i :: 8 word))"
| "store_int Uint8Clamped i = Elt (ucast (word_of_int (max 0 (min 255 i)) :: 8 word))"
| "store_int Int16 i = Elt (ucast (word_of_int i :: 16 word))"
| "store_int Uint16 i = Elt (ucast (word_of_int i :: 16 word))"
| "store_int Int32 i = Elt (ucast (word_of_int i :: 32 word))"
| "store_int Uint32 i = Elt (ucast (word_of_int i :: 32 word))"
| "store_int _ i = UndefT"

section \<open>Comparison functions\<close>

fun val_num :: "val \<Rightarrow> num" where
  "val_num (Num n) = n"
| "val_num _ = NaN"

fun is_number :: "val \<Rightarrow> bool" where
  "is_number (Num _) = True"
| "is_number _ = False"

text \<open>\<open>1 / x > 0\<close> for \<open>x === 0\<close>\<close>

definition positive_zero :: "num \<Rightarrow> bool" where
  "positive_zero x = (x = Fin 0)"

definition TypedArrayCompare :: "val \<Rightarrow> val \<Rightarrow> ('s, 'e, num) prog" where
  "TypedArrayCompare vx vy =
     sq (asrt (is_number vx \<and> is_number vy) ''x and y are not numbers.'')
     (let x = val_num vx; y = val_num vy in
      if num_lt x y then ret (nint (-1))
      else if num_gt x y then ret (nint 1)
      else if num_eq x (Fin 0) \<and> num_eq y (Fin 0) then
        ret (nint ((if positive_zero x then 1 else 0) - (if positive_zero y then 1 else 0)))
      else if x = NaN then ret (if y = NaN then nint 0 else nint 1)
      else ret (if y = NaN then nint (-1) else nint 0))"

text \<open>\<open>x === (x | 0) || x === (x >>> 0)\<close>\<close>

definition is_int32_or_uint32 :: "num \<Rightarrow> bool" where
  "is_int32_or_uint32 x = (case x of
      Fin r \<Rightarrow> r = of_int (rat_trunc r) \<and> - (2 ^ 31) \<le> rat_trunc r \<and> rat_trunc r < 2 ^ 32
    | NZero \<Rightarrow> True
    | _ \<Rightarrow> False)"

fun num_sub :: "num \<Rightarrow> num \<Rightarrow> num" where
  "num_sub (Fin a) (Fin b) = Fin (a - b)"
| "num_sub (Fin a) NZero = Fin a"
| "num_sub NZero (Fin b) = (if b = 0 then NZero else Fin (- b))"
| "num_sub NZero NZero = Fin 0"
| "num_sub PInf NInf = PInf"
| "num_sub NInf PInf = NInf"
| "num_sub PInf (Fin _) = PInf"
| "num_sub PInf NZero = PInf"
| "num_sub NInf (Fin _) = NInf"
| "num_sub NInf NZero = NInf"
| "num_sub (Fin _) PInf = NInf"
| "num_sub NZero PInf = NInf"
| "num_sub (Fin _) NInf = PInf"
| "num_sub NZero NInf = PInf"
| "num_sub _ _ = NaN"

definition TypedArrayCompareInt :: "val \<Rightarrow> val \<Rightarrow> ('s, 'e, num) prog" where
  "TypedArrayCompareInt vx vy =
     sq (asrt (is_number vx \<and> is_number vy) ''x and y are not numbers.'')
    (sq (asrt (is_int32_or_uint32 (val_num vx) \<and> is_int32_or_uint32 (val_num vy))
           ''x and y are not int32/uint32 numbers.'')
     (let diff = num_sub (val_num vx) (val_num vy) in
      if truthy (Num diff) then ret diff else ret (nint 0)))"

fun is_bigint :: "val \<Rightarrow> bool" where
  "is_bigint (BigInt _) = True"
| "is_bigint _ = False"

fun val_bigint :: "val \<Rightarrow> int" where
  "val_bigint (BigInt i) = i"
| "val_bigint _ = 0"

definition TypedArrayCompareBigInt :: "val \<Rightarrow> val \<Rightarrow> ('s, 'e, num) prog" where
  "TypedArrayCompareBigInt vx vy =
     sq (asrt (is_bigint vx \<and> is_bigint vy) ''x and y are not BigInts.'')
     (let x = val_bigint vx; y = val_bigint vy in
      if x < y then ret (nint (-1)) else if x > y then ret (nint 1) else ret (nint 0))"

section \<open>The orders they compute\<close>

text \<open>Numeric order with \<open>-0\<close> before \<open>+0\<close> and NaN last; BigInts by value.\<close>

fun val_rank :: "val \<Rightarrow> int \<times> rat \<times> int" where
  "val_rank (Num NInf) = (-1, 0, 0)"
| "val_rank (Num NZero) = (0, 0, 0)"
| "val_rank (Num (Fin r)) = (0, r, 1)"
| "val_rank (Num PInf) = (1, 0, 0)"
| "val_rank (Num NaN) = (2, 0, 0)"
| "val_rank (BigInt i) = (3, of_int i, 0)"
| "val_rank _ = (4, 0, 0)"

definition val_order :: "val comparator" where
  "val_order = key val_rank default"

text \<open>The order of the elements of an array.\<close>

definition elem_order :: "ta_kind \<Rightarrow> tval comparator" where
  "elem_order K = key (elem K) val_order"

lemma compare_val_order:
  "compare val_order x y = (if val_rank x < val_rank y then Less else if val_rank x > val_rank y then Greater else Equiv)"
  by (auto simp: val_order_def)

lemma compare_elem_order: "compare (elem_order K) x y = compare val_order (elem K x) (elem K y)"
  by (simp add: elem_order_def)

text \<open>Two elements are equivalent only when they are the same value.\<close>

fun sortable :: "val \<Rightarrow> bool" where
  "sortable (Num _) = True"
| "sortable (BigInt _) = True"
| "sortable _ = False"

lemma val_order_Equiv:
  "sortable x \<Longrightarrow> sortable y \<Longrightarrow> compare val_order x y = Equiv \<longleftrightarrow> x = y"
  by (induction x rule: val_rank.induct; induction y rule: val_rank.induct)
    (auto simp: compare_val_order)

lemma elem_sortable: "x \<noteq> UndefT \<Longrightarrow> sortable (elem K x)"
  by (cases x) (auto simp: elem_def)

fun number_kind :: "ta_kind \<Rightarrow> bool" where
  "number_kind BigInt64 = False"
| "number_kind BigUint64 = False"
| "number_kind _ = True"

fun int_kind :: "ta_kind \<Rightarrow> bool" where
  "int_kind Float32 = False"
| "int_kind Float64 = False"
| "int_kind K = number_kind K"

text \<open>The comparison functions compute these orders, and their assertions hold.\<close>

lemma TypedArrayCompare_order:
  assumes "number_kind K"
  shows "comparefn_for (elem_order K) (\<lambda>x. x \<noteq> UndefT) (\<lambda>x y. TypedArrayCompare (elem K x) (elem K y))"
proof -
  have *: "\<exists>n. TypedArrayCompare (Num a) (Num b) s = (Ret n, s)
        \<and> num_lt n (Fin 0) = (compare val_order (Num a) (Num b) = Less)
        \<and> num_gt n (Fin 0) = (compare val_order (Num a) (Num b) = Greater)
        \<and> num_le n (Fin 0) = (compare val_order (Num a) (Num b) \<noteq> Greater)" for a b s
    by (cases a; cases b)
      (auto simp: TypedArrayCompare_def run_simps compare_val_order positive_zero_def num_eq_def num_gt_def num_le_def Let_def)
  have "\<exists>n. elem K x = Num n" if "x \<noteq> UndefT" for x
    using assms that by (cases x; cases K) (auto simp: elem_def)
  then show ?thesis
    unfolding comparefn_for_def compare_elem_order using * by metis
qed

lemma int_elem: "int_kind K \<Longrightarrow> elem K (Elt w) = vint (elem_int K w)"
  by (cases K) (auto simp: elem_def)

lemma elem_int_range:
  assumes "int_kind K"
  shows "- (2 ^ 31) \<le> elem_int K w \<and> elem_int K w < 2 ^ 32"
proof -
  have "- (2 ^ 31) \<le> sint x \<and> sint x < 2 ^ 32" for x :: "32 word"
    using sint_greater_eq [of x] sint_lt [of x] by simp
  moreover have "- (2 ^ 31) \<le> sint x \<and> sint x < 2 ^ 32" for x :: "16 word"
    using sint_greater_eq [of x] sint_lt [of x] by simp
  moreover have "- (2 ^ 31) \<le> sint x \<and> sint x < 2 ^ 32" for x :: "8 word"
    using sint_greater_eq [of x] sint_lt [of x] by simp
  moreover have "- (2 ^ 31) \<le> uint x \<and> uint x < 2 ^ 32" for x :: "32 word"
    using uint_lt2p [of x] by (auto intro: order_trans [of _ 0])
  moreover have "- (2 ^ 31) \<le> uint x \<and> uint x < 2 ^ 32" for x :: "16 word"
    using uint_lt2p [of x] by (auto intro: order_trans [of _ 0])
  moreover have "- (2 ^ 31) \<le> uint x \<and> uint x < 2 ^ 32" for x :: "8 word"
    using uint_lt2p [of x] by (auto intro: order_trans [of _ 0])
  ultimately show ?thesis using assms by (cases K) auto
qed

lemma TypedArrayCompareInt_order:
  assumes "int_kind K"
  shows "comparefn_for (elem_order K) (\<lambda>x. x \<noteq> UndefT) (\<lambda>x y. TypedArrayCompareInt (elem K x) (elem K y))"
proof -
  have *: "\<exists>n. TypedArrayCompareInt (vint a) (vint b) s = (Ret n, s)
        \<and> num_lt n (Fin 0) = (compare val_order (vint a) (vint b) = Less)
        \<and> num_gt n (Fin 0) = (compare val_order (vint a) (vint b) = Greater)
        \<and> num_le n (Fin 0) = (compare val_order (vint a) (vint b) \<noteq> Greater)"
    if "- (2 ^ 31) \<le> a" "a < 2 ^ 32" "- (2 ^ 31) \<le> b" "b < 2 ^ 32" for a b s
    using that
    by (auto simp: TypedArrayCompareInt_def run_simps compare_val_order num_eq_def num_gt_def num_le_def
        is_int32_or_uint32_def rat_trunc_def)
  have "\<exists>i. elem K x = vint i \<and> - (2 ^ 31) \<le> i \<and> i < 2 ^ 32" if "x \<noteq> UndefT" for x
    using int_elem [OF assms] elem_int_range [OF assms] that by (cases x) auto
  then show ?thesis
    unfolding comparefn_for_def compare_elem_order using * by metis
qed

lemma TypedArrayCompareBigInt_order:
  assumes "\<not> number_kind K"
  shows "comparefn_for (elem_order K) (\<lambda>x. x \<noteq> UndefT) (\<lambda>x y. TypedArrayCompareBigInt (elem K x) (elem K y))"
proof -
  have *: "\<exists>n. TypedArrayCompareBigInt (BigInt a) (BigInt b) s = (Ret n, s)
        \<and> num_lt n (Fin 0) = (compare val_order (BigInt a) (BigInt b) = Less)
        \<and> num_gt n (Fin 0) = (compare val_order (BigInt a) (BigInt b) = Greater)
        \<and> num_le n (Fin 0) = (compare val_order (BigInt a) (BigInt b) \<noteq> Greater)" for a b s
    by (auto simp: TypedArrayCompareBigInt_def run_simps compare_val_order num_eq_def num_gt_def num_le_def)
  have "\<exists>i. elem K x = BigInt i" if "x \<noteq> UndefT" for x
    using assms that by (cases x; cases K) (auto simp: elem_def)
  then show ?thesis
    unfolding comparefn_for_def compare_elem_order using * by metis
qed

text \<open>
  A sorted rearrangement is the sort, up to elements that are the same value: with equivalence
  being equality of values, the values come out as one list.
\<close>

lemma sorted_values_unique:
  assumes ms: "mset (map f xs) = mset (map f ys)" and srt: "Sorting_Algorithms.sorted (key f c) xs"
    and eq: "\<And>x y. x \<in> set ys \<Longrightarrow> y \<in> set ys \<Longrightarrow> compare c (f x) (f y) = Equiv \<Longrightarrow> f x = f y"
  shows "map f xs = Sorting_Algorithms.sort c (map f ys)"
proof (rule sort_eqI [symmetric])
  show "mset (map f ys) = mset (map f xs)" using ms by simp
  show "Sorting_Algorithms.sorted c (map f xs)"
    using srt
  proof (induction xs)
    case (Cons x xs)
    then show ?case by (cases xs) auto
  qed simp
next
  fix l
  have sets: "f ` set xs = f ` set ys" using ms by (metis list.set_map set_mset_mset)
  let ?P = "\<lambda>z. compare c l z = Equiv"
  have "mset (filter ?P (map f ys)) = mset (filter ?P (map f xs))"
    using ms by (simp add: mset_filter)
  then have len: "length (filter ?P (map f ys)) = length (filter ?P (map f xs))"
    by (metis size_mset)
  have same: "u = v" if "u \<in> set (filter ?P (map f zs))" "v \<in> set (filter ?P (map f zs'))"
    "f ` set zs = f ` set ys" "f ` set zs' = f ` set ys" for u v zs zs'
  proof -
    from that have uv: "u \<in> f ` set ys" "v \<in> f ` set ys" "?P u" "?P v" by auto
    then have "compare c u v = Equiv" by (metis compare.sym compare.trans_equiv)
    with uv eq show ?thesis by blast
  qed
  show "filter ?P (map f ys) = filter ?P (map f xs)"
  proof (rule nth_equalityI [OF len])
    fix i assume "i < length (filter ?P (map f ys))"
    with len show "filter ?P (map f ys) ! i = filter ?P (map f xs) ! i"
      by (intro same [of _ ys _ xs] sets nth_mem) simp_all
  qed
qed

section \<open>Float bits and numeric order\<close>

lemma float_mag_Suc: "float_mag mb k < float_mag mb (Suc k)"
proof -
  let ?m = "2 ^ mb :: nat"
  have m0: "0 < ?m" by simp
  consider "Suc k < ?m" | "Suc k = ?m" | "?m \<le> k" "Suc (k mod ?m) < ?m" | "?m \<le> k" "Suc (k mod ?m) = ?m"
    using mod_less_divisor [OF m0, of k] by linarith
  then show ?thesis
  proof cases
    case 1 then show ?thesis by (simp add: float_mag_def)
  next
    case 2
    have "float_mag mb (Suc k) = ?m" using 2 by (simp add: float_mag_def)
    then show ?thesis using 2 by (simp add: float_mag_def)
  next
    case 3
    then have "Suc k mod ?m = Suc (k mod ?m)" "Suc k div ?m = k div ?m"
      by (simp_all add: mod_Suc div_Suc)
    then show ?thesis using 3 by (simp add: float_mag_def)
  next
    case 4
    then have s: "Suc k mod ?m = 0" "Suc k div ?m = Suc (k div ?m)"
      by (simp_all add: mod_Suc div_Suc)
    have "0 < k div ?m" using 4 by (simp add: div_greater_zero_iff)
    then have e: "k div ?m = Suc (k div ?m - 1)" by simp
    have "(?m + k mod ?m) * 2 ^ (k div ?m - 1) < (2 * ?m) * 2 ^ (k div ?m - 1)"
      using 4(2) by simp
    also have "\<dots> = ?m * 2 ^ (k div ?m)" by (subst (2) e) simp
    finally show ?thesis using 4 s by (simp add: float_mag_def)
  qed
qed

lemma float_mag_less: "k < l \<Longrightarrow> float_mag mb k < float_mag mb l"
  by (rule lift_Suc_mono_less [of "float_mag mb"]) (rule float_mag_Suc)

lemma float_mag_less_iff: "float_mag mb k < float_mag mb l \<longleftrightarrow> k < l"
  by (metis float_mag_less linorder_neqE_nat less_asym)

end
