(* ===== verification/SortMerge.thy ===== *)
theory SortMerge
  imports SortInsertion
begin

text \<open>
  \<open>Merge\<close>, \<open>MergeSort\<close> (for \<open>Array.prototype.sort\<close> with a comparison function),
  \<open>MergeTypedArray\<close> and \<open>MergeSortTypedArray\<close> of Sorting.js. The two merges are the same code
  over two ways to store an element, so both are the one definition over array interfaces.
\<close>

section \<open>Merge\<close>

text \<open>\<open>while (i <= mid && j <= end)\<close>, with the final \<open>i\<close>, \<open>j\<close>, \<open>k\<close>.\<close>

function Merge_while ::
    "('s, 'e, 'a) arrayI \<Rightarrow> ('s, 'e, 'a) arrayI \<Rightarrow> int \<Rightarrow> int \<Rightarrow> ('a \<Rightarrow> 'a \<Rightarrow> ('s, 'e, num) prog) \<Rightarrow>
     int \<Rightarrow> int \<Rightarrow> int \<Rightarrow> ('s, 'e, int \<times> int \<times> int) prog" where
  "Merge_while lst out mid end' comparefn i j k =
     (if i \<le> mid \<and> j \<le> end' then
        bnd (rd lst i) (\<lambda>lvalue.
        bnd (rd lst j) (\<lambda>rvalue.
        bnd (comparefn lvalue rvalue) (\<lambda>r.
        if num_le r (Fin 0)
        then sq (wr out k lvalue) (Merge_while lst out mid end' comparefn (i + 1) j (k + 1))
        else sq (wr out k rvalue) (Merge_while lst out mid end' comparefn i (j + 1) (k + 1)))))
      else ret (i, j, k))"
  by pat_completeness auto
termination
  by (relation "measure (\<lambda>(lst, out, mid, end', f, i, j, k). nat (mid - i + 1) + nat (end' - j + 1))") auto

declare Merge_while.simps [simp del]

text \<open>\<open>while (i <= bound) out[k++] = list[i++]\<close>, with the final \<open>k\<close>.\<close>

function Merge_drain ::
    "('s, 'e, 'a) arrayI \<Rightarrow> ('s, 'e, 'a) arrayI \<Rightarrow> int \<Rightarrow> int \<Rightarrow> int \<Rightarrow> ('s, 'e, int) prog" where
  "Merge_drain lst out bound i k =
     (if i \<le> bound then
        bnd (rd lst i) (\<lambda>x. sq (wr out k x) (Merge_drain lst out bound (i + 1) (k + 1)))
      else ret k)"
  by pat_completeness auto
termination
  by (relation "measure (\<lambda>(lst, out, bound, i, k). nat (bound - i + 1))") auto

declare Merge_drain.simps [simp del]

lemma Merge_while_done: "mid < i \<or> end' < j \<Longrightarrow> Merge_while lst out mid end' f i j k = ret (i, j, k)"
  by (subst Merge_while.simps) auto

lemma Merge_while_step: "i \<le> mid \<Longrightarrow> j \<le> end' \<Longrightarrow> Merge_while lst out mid end' f i j k =
    bnd (rd lst i) (\<lambda>x. bnd (rd lst j) (\<lambda>y. bnd (f x y) (\<lambda>r.
      if num_le r (Fin 0)
      then sq (wr out k x) (Merge_while lst out mid end' f (i + 1) j (k + 1))
      else sq (wr out k y) (Merge_while lst out mid end' f i (j + 1) (k + 1)))))"
  by (simp add: Merge_while.simps)

lemma Merge_drain_done: "bound < i \<Longrightarrow> Merge_drain lst out bound i k = ret k"
  by (simp add: Merge_drain.simps)

lemma Merge_drain_step: "i \<le> bound \<Longrightarrow> Merge_drain lst out bound i k =
    bnd (rd lst i) (\<lambda>x. sq (wr out k x) (Merge_drain lst out bound (i + 1) (k + 1)))"
  by (simp add: Merge_drain.simps)

definition Merge ::
    "('s, 'e, 'a) arrayI \<Rightarrow> ('s, 'e, 'a) arrayI \<Rightarrow> int \<Rightarrow> int \<Rightarrow> int \<Rightarrow>
     ('a \<Rightarrow> 'a \<Rightarrow> ('s, 'e, num) prog) \<Rightarrow> ('s, 'e, unit) prog" where
  "Merge lst out start mid end' comparefn =
     bnd (if end' \<le> mid then ret True
          else bnd (rd lst mid) (\<lambda>x.
               bnd (rd lst (mid + 1)) (\<lambda>y.
               bnd (comparefn x y) (\<lambda>r. ret (num_le r (Fin 0)))))) (\<lambda>skip.
     if skip then for_each start (end' + 1) (\<lambda>i. bnd (rd lst i) (wr out i))
     else bnd (Merge_while lst out mid end' comparefn start (mid + 1) start) (\<lambda>(i, j, k).
          bnd (Merge_drain lst out mid i k) (\<lambda>k.
          bnd (Merge_drain lst out end' j k) (\<lambda>_. ret ()))))"

definition MergeTypedArray ::
    "('s, 'e, 'a) arrayI \<Rightarrow> ('s, 'e, 'a) arrayI \<Rightarrow> int \<Rightarrow> int \<Rightarrow> int \<Rightarrow>
     ('a \<Rightarrow> 'a \<Rightarrow> ('s, 'e, num) prog) \<Rightarrow> ('s, 'e, unit) prog" where
  "MergeTypedArray lst out start mid end' comparefn = Merge lst out start mid end' comparefn"

section \<open>The passes of the bottom-up merge sorts\<close>

text \<open>\<open>for (var start = k; start < n; start += step)\<close> with a positive step.\<close>

function for_step :: "int \<Rightarrow> int \<Rightarrow> int \<Rightarrow> (int \<Rightarrow> ('s, 'e, unit) prog) \<Rightarrow> ('s, 'e, unit) prog" where
  "for_step k step n body =
     (if k < n \<and> 0 < step then sq (body k) (for_step (k + step) step n body) else ret ())"
  by pat_completeness auto
termination
  by (relation "measure (\<lambda>(k, step, n, body). nat (n - k))") auto

declare for_step.simps [simp del]

lemma for_step_done: "n \<le> k \<Longrightarrow> for_step k step n body = ret ()"
  by (simp add: for_step.simps)

lemma for_step_step: "k < n \<Longrightarrow> 0 < step \<Longrightarrow>
    for_step k step n body = sq (body k) (for_step (k + step) step n body)"
  by (simp add: for_step.simps)

text \<open>\<open>InsertionSort\<close> on the initial ranges of four.\<close>

definition sort_windows ::
    "('s, 'e, 'a) arrayI \<Rightarrow> int \<Rightarrow> ('a \<Rightarrow> 'a \<Rightarrow> ('s, 'e, num) prog) \<Rightarrow> ('s, 'e, unit) prog" where
  "sort_windows lBuffer n comparefn =
     for_step 0 4 (n - 1) (\<lambda>start.
       InsertionSort lBuffer start (min (start + 4 - 1) (n - 1)) comparefn)"

text \<open>
  \<open>for (; windowSize < n; windowSize = 2 * windowSize)\<close> with the swap of the buffers; the
  result says whether \<open>lBuffer\<close> is the second buffer at the end.
\<close>

function merge_passes ::
    "int \<Rightarrow> int \<Rightarrow> ('a \<Rightarrow> 'a \<Rightarrow> ('s, 'e, num) prog) \<Rightarrow> bool \<Rightarrow> ('s, 'e, 'a) arrayI \<Rightarrow> ('s, 'e, 'a) arrayI \<Rightarrow>
     ('s, 'e, bool) prog" where
  "merge_passes windowSize n comparefn flip lBuffer rBuffer =
     (if windowSize < n \<and> 0 < windowSize then
        sq (for_step 0 (2 * windowSize) n (\<lambda>start.
              let mid = start + windowSize - 1;
                  end' = min (start + 2 * windowSize - 1) (n - 1)
              in Merge lBuffer rBuffer start mid end' comparefn))
           (merge_passes (2 * windowSize) n comparefn (\<not> flip) rBuffer lBuffer)
      else ret flip)"
  by pat_completeness auto
termination
  by (relation "measure (\<lambda>(w, n, f, flip, l, r). nat (n - w))") auto

declare merge_passes.simps [simp del]

section \<open>Arrays local to a function\<close>

text \<open>
  Buffers that no other code can reach are local variables: the state of a computation with
  locals \<open>'l\<close> is \<open>'l \<times> 's\<close>.
\<close>

definition lift_locals :: "('s, 'e, 'b) prog \<Rightarrow> ('l \<times> 's, 'e, 'b) prog" where
  "lift_locals m = (\<lambda>(l, s). case m s of (r, s') \<Rightarrow> (r, (l, s')))"

definition with_locals :: "'l \<Rightarrow> ('l \<times> 's, 'e, 'b) prog \<Rightarrow> ('s, 'e, 'b) prog" where
  "with_locals l m = (\<lambda>s. case m (l, s) of (r, (_, s')) \<Rightarrow> (r, s'))"

lemma lift_locals_run [run_simps]: "m s = (r, s') \<Longrightarrow> lift_locals m (l, s) = (r, (l, s'))"
  by (simp add: lift_locals_def)

lemma with_locals_run [run_simps]: "m (l, s) = (r, (l', s')) \<Longrightarrow> with_locals l m s = (r, s')"
  by (simp add: with_locals_def)

definition lift_array :: "('s, 'e, 'a) arrayI \<Rightarrow> ('l \<times> 's, 'e, 'a) arrayI" where
  "lift_array A = \<lparr>rd = (\<lambda>i. lift_locals (rd A i)), wr = (\<lambda>i x. lift_locals (wr A i x))\<rparr>"

definition lift_cmp :: "('a \<Rightarrow> 'a \<Rightarrow> ('s, 'e, num) prog) \<Rightarrow> 'a \<Rightarrow> 'a \<Rightarrow> ('l \<times> 's, 'e, num) prog" where
  "lift_cmp cmp x y = lift_locals (cmp x y)"

lemma comparefn_for_lift:
  "comparefn_for c valid cmp \<Longrightarrow>
   comparefn_for c valid (lift_cmp cmp :: 'a \<Rightarrow> 'a \<Rightarrow> ('l \<times> 's, 'e, num) prog)"
proof -
  assume *: "comparefn_for c valid cmp"
  have "\<exists>n. lift_locals (cmp x y) (l, s) = (Ret n, l, s)
      \<and> num_lt n (Fin 0) = (compare c x y = Less)
      \<and> num_gt n (Fin 0) = (compare c x y = Greater)
      \<and> num_le n (Fin 0) = (compare c x y \<noteq> Greater)"
    if "valid x" "valid y" for x y and l :: 'l and s
    using comparefn_forD [OF * that, of s] by (metis lift_locals_run)
  then show ?thesis by (auto simp: comparefn_for_def lift_cmp_def)
qed

text \<open>
  \<open>_DefineDataProperty(xs, k, x)\<close> on a local Array: overwrites, appends, or leaves holes below
  \<open>k\<close>, which read as \<open>undefined\<close> (\<open>u\<close>).
\<close>

definition define_at :: "'a \<Rightarrow> 'a list \<Rightarrow> nat \<Rightarrow> 'a \<Rightarrow> 'a list" where
  "define_at u xs k x =
     (if k < length xs then xs[k := x] else xs @ replicate (k - length xs) u @ [x])"

definition local_rd :: "'a \<Rightarrow> 'a list \<Rightarrow> int \<Rightarrow> 'a" where
  "local_rd u xs i = (if 0 \<le> i \<and> i < int (length xs) then xs ! nat i else u)"

text \<open>The buffers \<open>denseList\<close> (first) and \<open>rBuffer = []\<close> (second) of \<open>MergeSort\<close>.\<close>

definition dense_buf :: "'a \<Rightarrow> (('a list \<times> 'a list) \<times> 's, 'e, 'a) arrayI" where
  "dense_buf u = \<lparr>
     rd = (\<lambda>i ((a, b), s). (Ret (local_rd u a i), ((a, b), s))),
     wr = (\<lambda>i x ((a, b), s). (Ret (), ((define_at u a (nat i) x, b), s)))\<rparr>"

definition aux_buf :: "'a \<Rightarrow> (('a list \<times> 'a list) \<times> 's, 'e, 'a) arrayI" where
  "aux_buf u = \<lparr>
     rd = (\<lambda>i ((a, b), s). (Ret (local_rd u b i), ((a, b), s))),
     wr = (\<lambda>i x ((a, b), s). (Ret (), ((a, define_at u b (nat i) x), s)))\<rparr>"

section \<open>MergeSort\<close>

text \<open>What \<open>MergeSort\<close> does to the array-like object it is given.\<close>

record ('s, 'e, 'a) sparseI =
  has_at :: "int \<Rightarrow> ('s, 'e, bool) prog"
  get_at :: "int \<Rightarrow> ('s, 'e, 'a) prog"
  set_at :: "int \<Rightarrow> 'a \<Rightarrow> ('s, 'e, unit) prog"
  del_at :: "int \<Rightarrow> ('s, 'e, unit) prog"

definition MoveHoles :: "('s, 'e, 'a) sparseI \<Rightarrow> int \<Rightarrow> 'a list \<Rightarrow> 'a \<Rightarrow> int \<Rightarrow> ('s, 'e, unit) prog" where
  "MoveHoles sparse sparseLen dense u denseLen =
     sq (for_each 0 denseLen (\<lambda>i. set_at sparse i (local_rd u dense i)))
        (for_each denseLen sparseLen (\<lambda>j. del_at sparse j))"

text \<open>The first loop: the elements present in the array, in order.\<close>

definition MergeSort_dense :: "('s, 'e, 'a) sparseI \<Rightarrow> int \<Rightarrow> ('s, 'e, 'a list) prog" where
  "MergeSort_dense array len =
     bnd (for_up 0 len (\<lambda>i denseList.
            bnd (has_at array i) (\<lambda>present.
            if present then bnd (get_at array i) (\<lambda>v. ret (Inl (denseList @ [v])))
            else ret (Inl denseList))) [])
       (\<lambda>x. case x of Inl denseList \<Rightarrow> ret denseList | Inr denseList \<Rightarrow> ret denseList)"

definition MergeSort ::
    "'a \<Rightarrow> ('s, 'e, 'a) sparseI \<Rightarrow> int \<Rightarrow> ('a \<Rightarrow> 'a \<Rightarrow> ('s, 'e, num) prog) \<Rightarrow> ('s, 'e, unit) prog" where
  "MergeSort u array len comparefn =
     bnd (MergeSort_dense array len) (\<lambda>denseList.
     let denseLen = int (length denseList) in
     if denseLen < 1 then ret ()
     else if denseLen < 24 then
       bnd (with_locals (denseList, [])
              (sq (InsertionSort (dense_buf u) 0 (denseLen - 1) (lift_cmp comparefn))
                  (gets (\<lambda>((a, b), _). a)))) (\<lambda>sorted.
       MoveHoles array len sorted u denseLen)
     else
       bnd (with_locals (denseList, [])
              (sq (sort_windows (dense_buf u) denseLen (lift_cmp comparefn))
              (bnd (merge_passes 4 denseLen (lift_cmp comparefn) False (dense_buf u) (aux_buf u)) (\<lambda>flip.
               gets (\<lambda>((a, b), _). if flip then b else a))))) (\<lambda>lBuffer.
       MoveHoles array len lBuffer u denseLen))"

section \<open>MergeSortTypedArray\<close>

text \<open>
  \<open>rBuffer = new C(len)\<close> is a zero-filled local typed array (writes out of range are ignored);
  \<open>array\<close> is reachable by other code, so it lives in the state \<open>'s\<close>.
\<close>

definition typed_buf :: "'a \<Rightarrow> ('a list \<times> 's, 'e, 'a) arrayI" where
  "typed_buf u = \<lparr>
     rd = (\<lambda>i (b, s). (Ret (local_rd u b i), (b, s))),
     wr = (\<lambda>i x (b, s). (Ret (), (if 0 \<le> i \<and> i < int (length b) then b[nat i := x] else b, s)))\<rparr>"

definition MergeSortTypedArray ::
    "'a \<Rightarrow> 'a \<Rightarrow> ('s, 'e, 'a) arrayI \<Rightarrow> int \<Rightarrow> ('a \<Rightarrow> 'a \<Rightarrow> ('s, 'e, num) prog) \<Rightarrow> ('s, 'e, unit) prog" where
  "MergeSortTypedArray u zero array len comparefn =
     (if len < 8 then InsertionSort array 0 (len - 1) comparefn
      else with_locals (replicate (nat len) zero)
        (sq (sort_windows (lift_array array) len (lift_cmp comparefn))
        (bnd (merge_passes 4 len (lift_cmp comparefn) False (lift_array array) (typed_buf u)) (\<lambda>flip.
         whenJ flip (for_each 0 len (\<lambda>i. bnd (rd (typed_buf u) i) (wr (lift_array array) i)))))))"

end
