(* ===== verification/SortQuickCorrect.thy ===== *)
theory SortQuickCorrect
  imports SortQuick
begin

text \<open>
  \<open>Partition\<close> splits an interval around a pivot, and \<open>QuickSort\<close> returns a sorted permutation
  with fuel linear in the length: the pending intervals on the stack are disjoint, and two
  positions that are not in one pending interval are already in order.
\<close>

text \<open>What the main loop of \<open>Partition\<close> keeps: everything up to \<open>i\<close> is at most the pivot, everything
  from \<open>j\<close> on at least.\<close>

definition split_at :: "'a comparator \<Rightarrow> 'a list \<Rightarrow> 'a \<Rightarrow> int \<Rightarrow> int \<Rightarrow> int \<Rightarrow> int \<Rightarrow> bool" where
  "split_at c xs p frm to i j = (xs ! nat (frm + 1) = p
     \<and> (\<forall>k. frm \<le> k \<and> k \<le> i \<longrightarrow> compare c (xs ! nat k) p \<noteq> Greater)
     \<and> (\<forall>k. j \<le> k \<and> k \<le> to \<longrightarrow> compare c (xs ! nat k) p \<noteq> Less))"

section \<open>Effects on a fixed array\<close>

context indexed_array begin

lemma wp_rd:
  "length xs = length (view s) \<Longrightarrow> 0 \<le> i \<Longrightarrow> i < int (length xs) \<Longrightarrow>
   wp (rd A i) Q E (upd xs s) = Q (xs ! nat i) (upd xs s)"
  by (rule wp_run) (use rd_in [of i "upd xs s"] in \<open>simp add: view_upd\<close>)

lemma wp_wr:
  "length xs = length (view s) \<Longrightarrow> 0 \<le> i \<Longrightarrow> i < int (length xs) \<Longrightarrow> valid x \<Longrightarrow>
   wp (wr A i x) Q E (upd xs s) = Q () (upd (xs[nat i := x]) s)"
  by (rule wp_run) (use wr_in [of i "upd xs s" x] in \<open>simp add: view_upd upd_upd\<close>)

lemma wp_swap:
  assumes "length xs = length (view s)" "0 \<le> i" "i < int (length xs)" "0 \<le> j" "j < int (length xs)"
    and "list_all valid xs"
  shows "wp (SwapArrayElements A i j) Q E (upd xs s) = Q () (upd (swapl xs i j) s)"
  using assms by (simp add: SwapArrayElements_def wp_simps wp_rd wp_wr swapl_def list_all_length)

lemma wp_cmp:
  assumes "comparefn_for c valid cmp" "valid x" "valid y"
    and "\<And>n. num_lt n (Fin 0) = (compare c x y = Less) \<Longrightarrow> num_gt n (Fin 0) = (compare c x y = Greater) \<Longrightarrow> Q n s"
  shows "wp (cmp x y) Q E s"
proof -
  obtain n where "cmp x y s = (Ret n, s)" "num_lt n (Fin 0) = (compare c x y = Less)"
    "num_gt n (Fin 0) = (compare c x y = Greater)"
    using comparefn_forD [OF assms(1-3)] by metis
  with assms(4) show ?thesis by (simp add: wp_run)
qed

lemma valid_nth: "list_all valid xs \<Longrightarrow> 0 \<le> i \<Longrightarrow> i < int (length xs) \<Longrightarrow> valid (xs ! nat i)"
  by (simp add: list_all_length)

lemma wp_swap_if_greater:
  assumes cmp: "comparefn_for c valid cmp" and "length xs = length (view s)"
    and "0 \<le> i" "i < int (length xs)" "0 \<le> j" "j < int (length xs)" and "list_all valid xs"
    and "Q () (upd (if compare c (xs ! nat i) (xs ! nat j) = Greater then swapl xs i j else xs) s)"
  shows "wp (swap_if_greater A cmp i j) Q E (upd xs s)"
  unfolding swap_if_greater_def
  using assms by (auto simp: wp_simps wp_rd wp_swap intro!: wp_cmp [OF cmp] valid_nth)

text \<open>Scanning stops at the first element that is not below (above) the pivot.\<close>

lemma wp_scan_up:
  assumes cmp: "comparefn_for c valid cmp" and len: "length xs = length (view s)"
    and val: "list_all valid xs" and pv: "0 \<le> pv" "pv < int (length xs)" and "0 \<le> i" "i < b" "b < int (length xs)"
    and stop: "compare c (xs ! nat b) (xs ! nat pv) \<noteq> Less" and fuel: "nat (b - i) < fuel"
    and Q: "\<And>i'. i < i' \<Longrightarrow> i' \<le> b \<Longrightarrow> compare c (xs ! nat i') (xs ! nat pv) \<noteq> Less \<Longrightarrow>
      (\<forall>k. i < k \<and> k < i' \<longrightarrow> compare c (xs ! nat k) (xs ! nat pv) = Less) \<Longrightarrow> Q i' (upd xs s)"
  shows "wp (scan_up fuel A cmp pv i) Q E (upd xs s)"
proof -
  let ?I = "\<lambda>k t. t = upd xs s \<and> i \<le> k \<and> k < b
    \<and> (\<forall>l. i < l \<and> l \<le> k \<longrightarrow> compare c (xs ! nat l) (xs ! nat pv) = Less)"
  have step: "wp (let i = k + 1 in bnd (rd A i) (\<lambda>x. bnd (rd A pv) (\<lambda>p. bnd (cmp x p) (\<lambda>r.
      ret (if num_lt r (Fin 0) then Inl i else Inr i)))))
    (\<lambda>x t'. case x of Inl k' \<Rightarrow> ?I k' t' \<and> nat (b - k') < nat (b - k) | Inr r \<Rightarrow> Q r t') E t"
    if I: "?I k t" for k t
  proof -
    have t: "t = upd xs s" and k: "i \<le> k" "k < b"
      and ls: "\<And>l. i < l \<Longrightarrow> l \<le> k \<Longrightarrow> compare c (xs ! nat l) (xs ! nat pv) = Less"
      using I by auto
    have r: "0 \<le> k + 1" "k + 1 < int (length xs)" using k assms by auto
    show ?thesis
      unfolding Let_def wp_bnd t wp_rd [OF len r] wp_rd [OF len pv] wp_ret
    proof (rule wp_cmp [OF cmp])
      show "valid (xs ! nat (k + 1))" "valid (xs ! nat pv)" using val r pv by (auto intro: valid_nth)
    next
      fix n
      assume n: "num_lt n (Fin 0) = (compare c (xs ! nat (k + 1)) (xs ! nat pv) = Less)"
      show "case if num_lt n (Fin 0) then Inl (k + 1) else Inr (k + 1) of
          Inl k' \<Rightarrow> ?I k' (upd xs s) \<and> nat (b - k') < nat (b - k) | Inr r \<Rightarrow> Q r (upd xs s)"
      proof (cases "compare c (xs ! nat (k + 1)) (xs ! nat pv) = Less")
        case True
        then have "k + 1 \<noteq> b" using stop by auto
        with True n k ls show ?thesis
          by (simp add: zless_add1_eq [symmetric] del: zless_add1_eq)
            (metis add1_zle_eq linorder_not_less order.antisym zle_add1_eq_le order_le_less)
      next
        case False
        have "Q (k + 1) (upd xs s)"
          by (rule Q) (use k False ls in auto)
        with False n show ?thesis by simp
      qed
    qed
  qed
  show ?thesis
    unfolding scan_up_def
    by (rule wp_loop_fuel [where I = ?I and v = "\<lambda>k t. nat (b - k)"]) (use assms step in auto)
qed

lemma wp_scan_down:
  assumes cmp: "comparefn_for c valid cmp" and len: "length xs = length (view s)"
    and val: "list_all valid xs" and pv: "0 \<le> pv" "pv < int (length xs)" and "0 \<le> d" "d < j" "j \<le> int (length xs)"
    and stop: "compare c (xs ! nat d) (xs ! nat pv) \<noteq> Greater" and fuel: "nat (j - d) < fuel"
    and Q: "\<And>j'. j' < j \<Longrightarrow> d \<le> j' \<Longrightarrow> compare c (xs ! nat j') (xs ! nat pv) \<noteq> Greater \<Longrightarrow>
      (\<forall>k. j' < k \<and> k < j \<longrightarrow> compare c (xs ! nat k) (xs ! nat pv) = Greater) \<Longrightarrow> Q j' (upd xs s)"
  shows "wp (scan_down fuel A cmp pv j) Q E (upd xs s)"
proof -
  let ?I = "\<lambda>k t. t = upd xs s \<and> k \<le> j \<and> d < k
    \<and> (\<forall>l. k \<le> l \<and> l < j \<longrightarrow> compare c (xs ! nat l) (xs ! nat pv) = Greater)"
  have step: "wp (let j = k - 1 in bnd (rd A j) (\<lambda>x. bnd (rd A pv) (\<lambda>p. bnd (cmp x p) (\<lambda>r.
      ret (if num_gt r (Fin 0) then Inl j else Inr j)))))
    (\<lambda>x t'. case x of Inl k' \<Rightarrow> ?I k' t' \<and> nat (k' - d) < nat (k - d) | Inr r \<Rightarrow> Q r t') E t"
    if I: "?I k t" for k t
  proof -
    have t: "t = upd xs s" and k: "k \<le> j" "d < k"
      and ls: "\<And>l. k \<le> l \<Longrightarrow> l < j \<Longrightarrow> compare c (xs ! nat l) (xs ! nat pv) = Greater"
      using I by auto
    have r: "0 \<le> k - 1" "k - 1 < int (length xs)" using k assms by auto
    show ?thesis
      unfolding Let_def wp_bnd t wp_rd [OF len r] wp_rd [OF len pv] wp_ret
    proof (rule wp_cmp [OF cmp])
      show "valid (xs ! nat (k - 1))" "valid (xs ! nat pv)" using val r pv by (auto intro: valid_nth)
    next
      fix n
      assume n: "num_gt n (Fin 0) = (compare c (xs ! nat (k - 1)) (xs ! nat pv) = Greater)"
      show "case if num_gt n (Fin 0) then Inl (k - 1) else Inr (k - 1) of
          Inl k' \<Rightarrow> ?I k' (upd xs s) \<and> nat (k' - d) < nat (k - d) | Inr r \<Rightarrow> Q r (upd xs s)"
      proof (cases "compare c (xs ! nat (k - 1)) (xs ! nat pv) = Greater")
        case True
        then have "k - 1 \<noteq> d" using stop by auto
        moreover have "compare c (xs ! nat l) (xs ! nat pv) = Greater" if "k - 1 \<le> l" "l < j" for l
          using that True ls [of l] by (cases "l = k - 1") auto
        ultimately show ?thesis using True n k by simp
      next
        case False
        have "Q (k - 1) (upd xs s)"
          by (rule Q) (use k False ls in auto)
        with False n show ?thesis by simp
      qed
    qed
  qed
  show ?thesis
    unfolding scan_down_def
    by (rule wp_loop_fuel [where I = ?I and v = "\<lambda>k t. nat (k - d)"]) (use assms step in auto)
qed

lemma wp_Partition_loop:
  assumes cmp: "comparefn_for c valid cmp" and len: "length xs = length (view s)" and val: "list_all valid xs"
    and frm: "0 \<le> frm" "frm + 3 \<le> to" "to < int (length xs)" and fuel: "nat (to - frm) < fuel"
    and init: "split_at c xs p frm to (frm + 1) to"
    and Q: "\<And>ys j. rearranged frm to xs ys \<Longrightarrow> frm < j \<Longrightarrow> j < to \<Longrightarrow> split_at c ys p frm to j (j + 1) \<Longrightarrow> Q j (upd ys s)"
  shows "wp (Partition_loop fuel A cmp (frm + 1) (frm + 1) to) Q E (upd xs s)"
proof -
  let ?body = "\<lambda>(i, j).
     bnd (scan_up fuel A cmp (frm + 1) i) (\<lambda>i.
     bnd (scan_down fuel A cmp (frm + 1) j) (\<lambda>j.
     if i > j then ret (Inr j)
     else sq (SwapArrayElements A i j) (ret (Inl (i, j)))))"
  let ?I = "\<lambda>(i, j) t. \<exists>ys. t = upd ys s \<and> rearranged frm to xs ys \<and> split_at c ys p frm to i j
      \<and> frm + 1 \<le> i \<and> i \<le> j \<and> j \<le> to \<and> (i = j \<longrightarrow> frm + 2 \<le> i \<and> j < to)"
  have step: "wp (?body (i, j)) (\<lambda>x t'. case x of Inl d \<Rightarrow> ?I d t' \<and> nat (snd d - fst d + 1) < nat (j - i + 1) | Inr r \<Rightarrow> Q r t') E t"
    if I: "?I (i, j) t" for i j t
  proof -
    from I obtain ys where t: "t = upd ys s" and re: "rearranged frm to xs ys"
      and sp: "split_at c ys p frm to i j"
      and ij: "frm + 1 \<le> i" "i \<le> j" "j \<le> to" "i = j \<longrightarrow> frm + 2 \<le> i \<and> j < to"
      by auto
    have lys: "length ys = length xs" using re by (rule rearranged_length)
    have vys: "list_all valid ys" using re val rearranged_all by metis
    have piv: "ys ! nat (frm + 1) = p" using sp by (simp add: split_at_def)
    define b where "b = (if i < j then j else i + 1)"
    define d where "d = (if i < j then i else j - 1)"
    have b: "i < b" "b \<le> to" "compare c (ys ! nat b) p \<noteq> Less"
      using ij sp by (auto simp: b_def split_at_def)
    have d: "d < j" "frm \<le> d" "0 \<le> d" "compare c (ys ! nat d) p \<noteq> Greater"
      using ij sp frm by (auto simp: d_def split_at_def)
    show ?thesis
      unfolding t prod.case wp_bnd
    proof (rule wp_scan_up [OF cmp _ vys, where b = b])
      fix i'
      assume up: "i < i'" "i' \<le> b" "compare c (ys ! nat i') (ys ! nat (frm + 1)) \<noteq> Less"
        "\<forall>k. i < k \<and> k < i' \<longrightarrow> compare c (ys ! nat k) (ys ! nat (frm + 1)) = Less"
      show "wp (scan_down fuel A cmp (frm + 1) j) (\<lambda>j'. wp (if i' > j' then ret (Inr j')
          else sq (SwapArrayElements A i' j') (ret (Inl (i', j'))))
            (\<lambda>x t'. case x of Inl d \<Rightarrow> ?I d t' \<and> nat (snd d - fst d + 1) < nat (j - i + 1) | Inr r \<Rightarrow> Q r t') E) E (upd ys s)"
      proof (rule wp_scan_down [OF cmp _ vys, where d = d])
        fix j'
        assume dn: "j' < j" "d \<le> j'" "compare c (ys ! nat j') (ys ! nat (frm + 1)) \<noteq> Greater"
          "\<forall>k. j' < k \<and> k < j \<longrightarrow> compare c (ys ! nat k) (ys ! nat (frm + 1)) = Greater"
        have le: "compare c (ys ! nat k) p \<noteq> Greater" if "frm \<le> k" "k < i'" for k
          using that up(4) sp piv by (cases "k \<le> i") (auto simp: split_at_def)
        have ge: "compare c (ys ! nat k) p \<noteq> Less" if "j' < k" "k \<le> to" for k
          using that dn(4) sp piv by (cases "j \<le> k") (auto simp: split_at_def)
        show "wp (if i' > j' then ret (Inr j') else sq (SwapArrayElements A i' j') (ret (Inl (i', j'))))
            (\<lambda>x t'. case x of Inl d \<Rightarrow> ?I d t' \<and> nat (snd d - fst d + 1) < nat (j - i + 1) | Inr r \<Rightarrow> Q r t') E (upd ys s)"
        proof (cases "i' > j'")
          case True
          have "split_at c ys p frm to j' (j' + 1)"
            using piv le ge True by (simp add: split_at_def)
          moreover have "frm < j'" "j' < to" using dn ij by (auto simp: d_def split: if_splits)
          ultimately show ?thesis using True Q [OF re] by (simp add: wp_ret)
        next
          case False
          let ?zs = "swapl ys i' j'"
          have r: "0 \<le> i'" "i' < int (length ys)" "0 \<le> j'" "j' < int (length ys)"
            using False up dn ij frm lys d by auto
          note nth = swapl_nth [OF r(1,3) _ r(2,4)]
          have "rearranged frm to xs ?zs"
            by (rule rearranged_trans [OF re rearranged_swapl]) (use False up dn ij frm lys d in auto)
          moreover have "split_at c ?zs p frm to i' j'"
            unfolding split_at_def
          proof (intro conjI allI impI; (elim conjE)?)
            show "?zs ! nat (frm + 1) = p" using nth [of "frm + 1"] piv False up ij frm by simp
          next
            fix k assume k: "frm \<le> k" "k \<le> i'"
            have "?zs ! nat k = (if k = j' then ys ! nat i' else if k = i' then ys ! nat j' else ys ! nat k)"
              by (rule nth) (use k frm in simp)
            moreover have "compare c (ys ! nat i') p \<noteq> Greater" if "i' = j'" using dn(3) that piv by simp
            ultimately show "compare c (?zs ! nat k) p \<noteq> Greater" using k le [of k] dn(3) piv False by auto
          next
            fix k assume k: "j' \<le> k" "k \<le> to"
            have "?zs ! nat k = (if k = j' then ys ! nat i' else if k = i' then ys ! nat j' else ys ! nat k)"
              by (rule nth) (use k r in simp)
            then show "compare c (?zs ! nat k) p \<noteq> Less" using k ge [of k] up(3) piv False by auto
          qed
          moreover have "frm + 1 \<le> i'" "i' \<le> j'" "j' \<le> to" "i' = j' \<longrightarrow> frm + 2 \<le> i' \<and> j' < to"
            using False up dn ij by auto
          moreover have "nat (j' - i' + 1) < nat (j - i + 1)" using up dn False by auto
          ultimately show ?thesis
            using False by (auto simp: wp_sq wp_ret wp_swap [OF _ r vys] lys len)
        qed
      qed (use len lys frm ij d piv fuel in auto)
    qed (use len lys frm ij b piv fuel in auto)
  qed
  show ?thesis
    unfolding Partition_loop_def
  proof (rule wp_loop_fuel [where I = ?I and v = "\<lambda>d t. nat (snd d - fst d + 1)"])
    show "?I (frm + 1, to) (upd xs s)" using init frm rearranged_refl by auto
    show "nat (snd (frm + 1, to) - fst (frm + 1, to) + 1) < fuel" using fuel by simp
  next
    fix d t assume I: "?I d t"
    show "wp (?body d) (\<lambda>x t'. case x of Inl d' \<Rightarrow> ?I d' t' \<and> nat (snd d' - fst d' + 1) < nat (snd d - fst d + 1)
        | Inr r \<Rightarrow> Q r t') E t"
      using step [of "fst d" "snd d" t] I by (cases d) simp
  qed
qed

end

text \<open>Median of three.\<close>

definition cswap :: "'a comparator \<Rightarrow> 'a list \<Rightarrow> int \<Rightarrow> int \<Rightarrow> 'a list" where
  "cswap c xs i j = (if compare c (xs ! nat i) (xs ! nat j) = Greater then swapl xs i j else xs)"

lemma length_cswap [simp]: "length (cswap c xs i j) = length xs"
  by (simp add: cswap_def)

lemma rearranged_cswap:
  "lo \<le> i \<Longrightarrow> i \<le> hi \<Longrightarrow> lo \<le> j \<Longrightarrow> j \<le> hi \<Longrightarrow> 0 \<le> lo \<Longrightarrow> hi < int (length xs) \<Longrightarrow>
   rearranged lo hi xs (cswap c xs i j)"
  by (simp add: cswap_def rearranged_refl rearranged_swapl)

lemma cswap_nth:
  "0 \<le> i \<Longrightarrow> 0 \<le> j \<Longrightarrow> 0 \<le> k \<Longrightarrow> i < int (length xs) \<Longrightarrow> j < int (length xs) \<Longrightarrow>
   cswap c xs i j ! nat k =
     (if compare c (xs ! nat i) (xs ! nat j) = Greater
      then (if k = j then xs ! nat i else if k = i then xs ! nat j else xs ! nat k) else xs ! nat k)"
  by (simp add: cswap_def swapl_nth)

lemma compare_less_trans_le:
  "compare c x y \<noteq> Greater \<Longrightarrow> compare c y z \<noteq> Greater \<Longrightarrow> compare c x z \<noteq> Greater"
  by (rule compare.trans_not_greater)

lemma greater_swap: "compare c x y = Greater \<Longrightarrow> compare c y x \<noteq> Greater"
  using compare.greater_iff_sym_less [of c x y] compare.greater_iff_sym_less [of c y x] by auto

lemma not_less_iff: "compare c x y \<noteq> Less \<longleftrightarrow> compare c y x \<noteq> Greater"
  by (simp add: compare.greater_iff_sym_less)

lemma median_of_three:
  fixes c :: "'a comparator" and xs :: "'a list"
  assumes frm: "0 \<le> frm" "frm + 3 \<le> to" "to < int (length xs)"
  defines "ys \<equiv> cswap c (cswap c (cswap c xs frm to) (frm + 1) to) frm (frm + 1)"
  shows "rearranged frm to xs ys" and "split_at c ys (ys ! nat (frm + 1)) frm to (frm + 1) to"
proof -
  let ?x1 = "cswap c xs frm to" and ?x2 = "cswap c (cswap c xs frm to) (frm + 1) to"
  show "rearranged frm to xs ys"
    unfolding ys_def using frm
    by (intro rearranged_trans [OF rearranged_trans [OF rearranged_cswap rearranged_cswap] rearranged_cswap]) auto
  define x y z where "x = xs ! nat frm" and "y = xs ! nat (frm + 1)" and "z = xs ! nat to"
  define x' z' where "x' = (if compare c x z = Greater then z else x)"
    and "z' = (if compare c x z = Greater then x else z)"
  have xz: "compare c x' z' \<noteq> Greater"
    by (auto simp: x'_def z'_def dest: greater_swap)
  define y' z'' where "y' = (if compare c y z' = Greater then z' else y)"
    and "z'' = (if compare c y z' = Greater then y else z')"
  have yz: "compare c y' z'' \<noteq> Greater"
    by (auto simp: y'_def z''_def dest: greater_swap)
  have "compare c z' y \<noteq> Greater" if "compare c y z' = Greater"
    using that by (rule greater_swap)
  then have xz2: "compare c x' z'' \<noteq> Greater"
    using xz compare_less_trans_le [of c x' z' y] by (auto simp: z''_def)
  have x1: "?x1 ! nat frm = x'" "?x1 ! nat (frm + 1) = y" "?x1 ! nat to = z'"
    using frm by (simp_all add: cswap_nth x_def y_def z_def x'_def z'_def)
  then have x2: "?x2 ! nat frm = x'" "?x2 ! nat (frm + 1) = y'" "?x2 ! nat to = z''"
    using frm by (simp_all add: cswap_nth y'_def z''_def)
  define x3 y3 where "x3 = (if compare c x' y' = Greater then y' else x')"
    and "y3 = (if compare c x' y' = Greater then x' else y')"
  have ys: "ys ! nat frm = x3" "ys ! nat (frm + 1) = y3" "ys ! nat to = z''"
    using frm x2 by (simp_all add: ys_def cswap_nth x3_def y3_def)
  have "compare c x3 y3 \<noteq> Greater"
    by (auto simp: x3_def y3_def dest: greater_swap)
  moreover have "compare c z'' y3 \<noteq> Less"
    using yz xz2 by (simp add: y3_def not_less_iff)
  ultimately show "split_at c ys (ys ! nat (frm + 1)) frm to (frm + 1) to"
    unfolding split_at_def ys(2)
  proof (intro conjI allI impI; (elim conjE)?)
    fix k assume "frm \<le> k" "k \<le> frm + 1"
    then have "k = frm \<or> k = frm + 1" by auto
    with \<open>compare c x3 y3 \<noteq> Greater\<close> ys show "compare c (ys ! nat k) y3 \<noteq> Greater" by auto
  next
    fix k assume "to \<le> k" "k \<le> to"
    with \<open>compare c z'' y3 \<noteq> Less\<close> ys show "compare c (ys ! nat k) y3 \<noteq> Less" by auto
  qed (simp add: ys)
qed

lemma split_at_pivot:
  fixes c :: "'a comparator" and ys :: "'a list" and p :: 'a
  assumes frm: "0 \<le> frm" "frm < j" "j < to" "to < int (length ys)" and sp: "split_at c ys p frm to j (j + 1)"
  defines "zs \<equiv> swapl ys (frm + 1) j"
  shows "rearranged frm to ys zs"
    and "\<And>k. frm \<le> k \<Longrightarrow> k \<le> j \<Longrightarrow> compare c (zs ! nat k) (zs ! nat j) \<noteq> Greater"
    and "\<And>k. j \<le> k \<Longrightarrow> k \<le> to \<Longrightarrow> compare c (zs ! nat j) (zs ! nat k) \<noteq> Greater"
proof -
  show "rearranged frm to ys zs" unfolding zs_def by (rule rearranged_swapl) (use frm in auto)
  have nth: "zs ! nat k = (if k = j then p else if k = frm + 1 then ys ! nat j else ys ! nat k)" if "0 \<le> k" for k
    unfolding zs_def using that frm sp by (subst swapl_nth) (auto simp: split_at_def)
  show "compare c (zs ! nat k) (zs ! nat j) \<noteq> Greater" if "frm \<le> k" "k \<le> j" for k
    using that nth [of k] nth [of j] sp frm by (auto simp: split_at_def)
  show "compare c (zs ! nat j) (zs ! nat k) \<noteq> Greater" if "j \<le> k" "k \<le> to" for k
    using that nth [of k] nth [of j] sp frm by (auto simp: split_at_def not_less_iff [symmetric])
qed

context indexed_array begin

lemma wp_Partition:
  assumes cmp: "comparefn_for c valid cmp" and len: "length xs = length (view s)" and val: "list_all valid xs"
    and frm: "0 \<le> frm" "frm + 3 \<le> to" "to < int (length xs)" and fuel: "nat (to - frm) < fuel"
    and Q: "\<And>ys j. rearranged frm to xs ys \<Longrightarrow> frm < j \<Longrightarrow> j < to \<Longrightarrow>
      (\<And>k. frm \<le> k \<Longrightarrow> k \<le> j \<Longrightarrow> compare c (ys ! nat k) (ys ! nat j) \<noteq> Greater) \<Longrightarrow>
      (\<And>k. j \<le> k \<Longrightarrow> k \<le> to \<Longrightarrow> compare c (ys ! nat j) (ys ! nat k) \<noteq> Greater) \<Longrightarrow> Q j (upd ys s)"
  shows "wp (Partition fuel A frm to cmp) Q E (upd xs s)"
proof -
  let ?m = "frm + (to - frm) div 2"
  let ?x0 = "swapl xs ?m (frm + 1)"
  let ?x1 = "cswap c ?x0 frm to"
  let ?x2 = "cswap c ?x1 (frm + 1) to"
  let ?x3 = "cswap c ?x2 frm (frm + 1)"
  have m: "frm \<le> ?m" "?m \<le> to" using frm by auto
  have r0: "rearranged frm to xs ?x0" by (rule rearranged_swapl) (use m frm in auto)
  have r3: "rearranged frm to ?x0 ?x3" and sp: "split_at c ?x3 (?x3 ! nat (frm + 1)) frm to (frm + 1) to"
    using median_of_three [OF frm(1,2), of ?x0 c] frm by simp_all
  note re = rearranged_trans [OF r0 r3]
  have vs: "list_all valid ?x0" "list_all valid ?x1" "list_all valid ?x2" "list_all valid ?x3"
    using rearranged_all [OF r0] val frm
      rearranged_all [OF rearranged_cswap [of frm frm to to ?x0]]
      rearranged_all [OF rearranged_cswap [of frm "frm + 1" to to ?x1]]
      rearranged_all [OF r3] by simp_all
  have loop: "wp (Partition_loop fuel A cmp (frm + 1) (frm + 1) to)
      (\<lambda>j. wp (sq (SwapArrayElements A (frm + 1) j) (ret j)) Q E) E (upd ?x3 s)"
  proof (rule wp_Partition_loop [OF cmp _ vs(4) _ _ _ _ sp])
    fix ys j
    assume ys: "rearranged frm to ?x3 ys" "frm < j" "j < to" "split_at c ys (?x3 ! nat (frm + 1)) frm to j (j + 1)"
    have lys: "length ys = length xs" and vys: "list_all valid ys"
      using rearranged_length [OF ys(1)] rearranged_all [OF ys(1)] vs(4) by auto
    note p = split_at_pivot [OF frm(1) ys(2,3) _ ys(4)]
    have "Q j (upd (swapl ys (frm + 1) j) s)"
    proof (rule Q)
      show "rearranged frm to xs (swapl ys (frm + 1) j)"
        using rearranged_trans [OF re] rearranged_trans [OF ys(1)] p(1) frm lys by simp
    qed (use ys p(2,3) frm lys in auto)
    then show "wp (sq (SwapArrayElements A (frm + 1) j) (ret j)) Q E (upd ys s)"
      using wp_swap [of ys s "frm + 1" j] vys lys len frm ys(2,3) by (simp add: wp_sq wp_ret)
  qed (use frm fuel len in auto)
  have len': "length (view s) = length xs" using len by simp
  show ?thesis
    unfolding Partition_def Let_def wp_sq wp_asrt
    using frm
    by (simp add: wp_swap len val m del: wp_swap_if_greater)
      (rule wp_swap_if_greater [OF cmp]; simp add: vs len flip: cswap_def;
       rule wp_swap_if_greater [OF cmp]; simp add: vs len flip: cswap_def;
       rule wp_swap_if_greater [OF cmp]; simp add: vs len flip: cswap_def;
       use loop len in \<open>simp add: wp_bnd\<close>)
qed

end

section \<open>Pending intervals\<close>

definition segs_ok :: "int \<Rightarrow> (int \<times> int) list \<Rightarrow> bool" where
  "segs_ok n segs = ((\<forall>(a, b) \<in> set segs. 0 \<le> a \<and> a \<le> b + 1 \<and> b < n)
     \<and> sorted_wrt (\<lambda>(a, b) (a', b'). b < a' \<or> b' < a) segs)"

definition ordered_but :: "'a comparator \<Rightarrow> 'a list \<Rightarrow> (int \<times> int) list \<Rightarrow> bool" where
  "ordered_but c xs segs = (\<forall>k l. 0 \<le> k \<longrightarrow> k < l \<longrightarrow> l < int (length xs) \<longrightarrow>
     (\<exists>(a, b) \<in> set segs. a \<le> k \<and> l \<le> b) \<or> compare c (xs ! nat k) (xs ! nat l) \<noteq> Greater)"

lemma segs_ok_Cons:
  "segs_ok n ((a, b) # segs) = (0 \<le> a \<and> a \<le> b + 1 \<and> b < n
     \<and> (\<forall>(a', b') \<in> set segs. b < a' \<or> b' < a) \<and> segs_ok n segs)"
  by (auto simp: segs_ok_def)

lemma ordered_butD:
  assumes "segs_ok n ((a, b) # segs)" and "ordered_but c xs ((a, b) # segs)"
    and "0 \<le> k" "k < l" "l < int (length xs)" and "a \<le> k \<and> k \<le> b \<and> b < l \<or> k < a \<and> a \<le> l \<and> l \<le> b"
  shows "compare c (xs ! nat k) (xs ! nat l) \<noteq> Greater"
proof -
  have "\<not> (a' \<le> k \<and> l \<le> b')" if "(a', b') \<in> set ((a, b) # segs)" for a' b'
    using that assms(1,4,6) by (auto simp: segs_ok_Cons)
  with assms(2-5) show ?thesis unfolding ordered_but_def by blast
qed

lemma ordered_but_rearranged:
  assumes ok: "segs_ok (int (length xs)) ((a, b) # segs)" and ord: "ordered_but c xs ((a, b) # segs)"
    and re: "rearranged a b xs ys"
  shows "ordered_but c ys ((a, b) # segs)"
  unfolding ordered_but_def
proof (intro allI impI)
  fix k l assume kl: "0 \<le> k" "k < l" "l < int (length ys)"
  have len: "length ys = length xs" and bnds: "0 \<le> a" "b < int (length xs)"
    using re ok by (auto simp: rearranged_length segs_ok_Cons)
  have out: "ys ! nat m = xs ! nat m" if "0 \<le> m" "m < int (length xs)" "m < a \<or> b < m" for m
    using re that unfolding rearranged_def by blast
  have ins: "\<exists>m'. a \<le> m' \<and> m' \<le> b \<and> ys ! nat m = xs ! nat m'" if "a \<le> m" "m \<le> b" for m
    using re that unfolding rearranged_def by blast
  note le = ordered_butD [OF ok ord]
  consider (both) "a \<le> k" "l \<le> b" | (left) "a \<le> k" "k \<le> b" "b < l" | (right) "k < a" "a \<le> l" "l \<le> b"
    | (none) "k < a \<or> b < k" "l < a \<or> b < l" by linarith
  then show "(\<exists>(a, b) \<in> set ((a, b) # segs). a \<le> k \<and> l \<le> b) \<or> compare c (ys ! nat k) (ys ! nat l) \<noteq> Greater"
  proof cases
    case both
    then show ?thesis by auto
  next
    case left
    then obtain m where m: "a \<le> m" "m \<le> b" "ys ! nat k = xs ! nat m" using ins by blast
    with le [of m l] left kl len bnds out [of l] show ?thesis by auto
  next
    case right
    then obtain m where m: "a \<le> m" "m \<le> b" "ys ! nat l = xs ! nat m" using ins by blast
    with le [of k m] right kl len bnds out [of k] show ?thesis by auto
  next
    case none
    with out [of k] out [of l] kl len ord show ?thesis unfolding ordered_but_def by auto
  qed
qed

lemma ordered_but_sorted_segment:
  assumes "ordered_but c ys ((a, b) # segs)"
    and "\<And>k l. a \<le> k \<Longrightarrow> k < l \<Longrightarrow> l \<le> b \<Longrightarrow> compare c (ys ! nat k) (ys ! nat l) \<noteq> Greater"
  shows "ordered_but c ys segs"
  using assms unfolding ordered_but_def by (metis (mono_tags, lifting) case_prodE case_prodI prod.inject set_ConsD)

lemma ordered_but_split:
  assumes ord: "ordered_but c ys ((a, b) # segs)" and j: "a < j" "j < b"
    and le: "\<And>k. a \<le> k \<Longrightarrow> k \<le> j \<Longrightarrow> compare c (ys ! nat k) (ys ! nat j) \<noteq> Greater"
    and ge: "\<And>k. j \<le> k \<Longrightarrow> k \<le> b \<Longrightarrow> compare c (ys ! nat j) (ys ! nat k) \<noteq> Greater"
  shows "ordered_but c ys ((a, j - 1) # (j + 1, b) # segs)"
  unfolding ordered_but_def
proof (intro allI impI)
  fix k l assume kl: "0 \<le> k" "k < l" "l < int (length ys)"
  show "(\<exists>(a, b) \<in> set ((a, j - 1) # (j + 1, b) # segs). a \<le> k \<and> l \<le> b) \<or> compare c (ys ! nat k) (ys ! nat l) \<noteq> Greater"
  proof (cases "a \<le> k \<and> k \<le> j \<and> j \<le> l \<and> l \<le> b")
    case True
    then have "compare c (ys ! nat k) (ys ! nat j) \<noteq> Greater" "compare c (ys ! nat j) (ys ! nat l) \<noteq> Greater"
      using le [of k] ge [of l] by simp_all
    then have "compare c (ys ! nat k) (ys ! nat l) \<noteq> Greater" by (rule compare_less_trans_le)
    then show ?thesis by simp
  next
    case False
    from ord kl consider "\<exists>(a, b) \<in> set ((a, b) # segs). a \<le> k \<and> l \<le> b" | "compare c (ys ! nat k) (ys ! nat l) \<noteq> Greater"
      unfolding ordered_but_def by blast
    then show ?thesis using False kl j by cases auto
  qed
qed

lemma ordered_but_perm: "set segs = set segs' \<Longrightarrow> ordered_but c xs segs = ordered_but c xs segs'"
  by (simp add: ordered_but_def)

lemma sorted_nth:
  "Sorting_Algorithms.sorted c xs \<Longrightarrow> k < l \<Longrightarrow> l < length xs \<Longrightarrow> compare c (xs ! k) (xs ! l) \<noteq> Greater"
proof -
  assume "Sorting_Algorithms.sorted c xs" "k < l" "l < length xs"
  then have "Sorting_Algorithms.sorted c (take l xs @ xs ! l # drop (Suc l) xs)"
    by (simp add: id_take_nth_drop [symmetric])
  then have "\<forall>x \<in> set (take l xs). compare c x (xs ! l) \<noteq> Greater"
    by (simp add: sorted_append_iff)
  moreover have "xs ! k \<in> set (take l xs)"
    using \<open>k < l\<close> \<open>l < length xs\<close> by (metis in_set_conv_nth length_take min.absorb4 nth_take)
  ultimately show ?thesis by blast
qed

lemma sorted_if_ordered: "ordered_but c xs [] \<Longrightarrow> Sorting_Algorithms.sorted c xs"
proof (induction xs)
  case (Cons x xs)
  have *: "compare c x (xs ! l) \<noteq> Greater" if "l < length xs" for l
    using Cons.prems [unfolded ordered_but_def, rule_format, of 0 "int (Suc l)"] that nat_int [of "Suc l"]
    by (simp del: nat_int of_nat_Suc)
  have "ordered_but c xs []"
    unfolding ordered_but_def
  proof (intro allI impI)
    fix k l assume "0 \<le> k" "k < l" "l < int (length xs)"
    with Cons.prems show "(\<exists>(a, b) \<in> set []. a \<le> k \<and> l \<le> b) \<or> compare c (xs ! nat k) (xs ! nat l) \<noteq> Greater"
      using Cons.prems [unfolded ordered_but_def, rule_format, of "k + 1" "l + 1"] by (simp add: nat_add_distrib)
  qed
  then show ?case
    using Cons.IH * [of 0] by (intro sorted_ConsI) auto
qed simp

section \<open>The stack\<close>

definition flat_segs :: "(int \<times> int) list \<Rightarrow> int list" where
  "flat_segs segs = concat (map (\<lambda>(a, b). [a, b]) segs)"

fun unflat :: "int list \<Rightarrow> (int \<times> int) list" where
  "unflat (a # b # r) = (a, b) # unflat r"
| "unflat _ = []"

lemma flat_segs_simps [simp]: "flat_segs [] = []" "flat_segs (segs @ [(a, b)]) = flat_segs segs @ [a, b]"
  by (simp_all add: flat_segs_def)

lemma unflat_flat [simp]: "unflat (flat_segs segs) = segs"
  by (induction segs) (auto simp: flat_segs_def)

lemma stack_push_take:
  "tp \<le> length stack \<Longrightarrow> stack_push (stack, tp) v = (stack', tp') \<Longrightarrow>
   tp' = Suc tp \<and> tp' \<le> length stack' \<and> take tp' stack' = take tp stack @ [v]"
  by (auto simp: stack_push_def take_Suc_conv_app_nth split: if_splits)

definition pending :: "int list \<Rightarrow> nat \<Rightarrow> (int \<times> int) list \<Rightarrow> bool" where
  "pending stack tp segs = (tp \<le> length stack \<and> take tp stack = flat_segs (rev segs))"

lemma pending_push:
  assumes "pending stack tp segs" "stack_push (stack_push (stack, tp) a) b = (stack', tp')"
  shows "pending stack' tp' ((a, b) # segs)"
proof -
  obtain s1 t1 where s1: "stack_push (stack, tp) a = (s1, t1)" by fastforce
  with stack_push_take [OF _ s1] stack_push_take [of t1 s1 b stack' tp'] assms show ?thesis
    by (auto simp: pending_def)
qed

lemma pending_empty: "pending stack tp segs \<Longrightarrow> (tp < 1) = (segs = [])"
  by (cases segs rule: rev_cases)
    (auto simp: pending_def flat_segs_def dest: arg_cong [where f = length])

lemma pending_pop:
  assumes "pending stack tp ((a, b) # segs)"
  shows "stack ! (tp - 2) = a" "stack ! (tp - 1) = b" "pending stack (tp - 2) segs"
proof -
  from assms have t: "tp \<le> length stack" "take tp stack = flat_segs (rev segs) @ [a, b]"
    by (simp_all add: pending_def)
  then have tp: "tp = Suc (Suc (length (flat_segs (rev segs))))"
    by (metis length_append_singleton append_Cons append_Nil append_assoc length_take min.absorb2)
  have "stack = take tp stack @ drop tp stack" by simp
  then have st: "stack = flat_segs (rev segs) @ a # b # drop tp stack" unfolding t(2) by simp
  show "stack ! (tp - 2) = a" "stack ! (tp - 1) = b"
    by (subst st, simp add: tp nth_append)+
  have "take (tp - 2) stack = take (tp - 2) (take tp stack)" by simp
  also have "\<dots> = flat_segs (rev segs)" unfolding t(2) using tp by simp
  finally show "pending stack (tp - 2) segs" using t by (simp add: pending_def)
qed

text \<open>The variant: every round removes an interval or splits one around a pivot.\<close>

definition work :: "(int \<times> int) list \<Rightarrow> nat" where
  "work segs = sum_list (map (\<lambda>(a, b). 2 * nat (b - a + 1) + 1) segs)"

lemma work_simps [simp]: "work [] = 0" "work ((a, b) # segs) = 2 * nat (b - a + 1) + 1 + work segs"
  by (simp_all add: work_def)

section \<open>QuickSort\<close>

context indexed_array begin

text \<open>The invariant of the main loop, on the loop variables and the state.\<close>

definition quick_inv :: "'a comparator \<Rightarrow> 's \<Rightarrow> int \<times> int \<times> int list \<times> nat \<Rightarrow> 's \<Rightarrow> bool" where
  "quick_inv c s = (\<lambda>(start, end', stack, tp) t. \<exists>ys segs. t = upd ys s
     \<and> length ys = length (view s) \<and> mset ys = mset (view s) \<and> pending stack tp segs
     \<and> segs_ok (int (length (view s))) ((start, end') # segs) \<and> ordered_but c ys ((start, end') # segs))"

fun quick_work :: "int \<times> int \<times> int list \<times> nat \<Rightarrow> 's \<Rightarrow> nat" where
  "quick_work (start, end', stack, tp) t = work ((start, end') # rev (unflat (take tp stack)))"

lemma quick_work_pending:
  "pending stack tp segs \<Longrightarrow> quick_work (start, end', stack, tp) t = work ((start, end') # segs)"
  by (simp add: pending_def)

lemma insertion_segment:
  assumes cmp: "comparefn_for c valid cmp" and len: "length ys = length (view s)" and val: "list_all valid ys"
    and ab: "0 \<le> a" "a \<le> b + 1" "b < int (length ys)"
  shows "\<exists>zs. InsertionSort A a b cmp (upd ys s) = (Ret (), upd zs s) \<and> rearranged a b ys zs
    \<and> (\<forall>k l. a \<le> k \<longrightarrow> k < l \<longrightarrow> l \<le> b \<longrightarrow> compare c (zs ! nat k) (zs ! nat l) \<noteq> Greater)"
proof -
  let ?us = "take (nat a) ys" and ?xs = "take (nat (b - a + 1)) (drop (nat a) ys)" and ?vs = "drop (nat (b + 1)) ys"
  let ?zs = "?us @ Sorting_Algorithms.sort c ?xs @ ?vs"
  have lens: "length ?us = nat a" "length ?xs = nat (b - a + 1)" using ab by auto
  have ba: "nat (b - a + 1) + nat a = nat (b + 1)" using ab by simp
  have ys: "ys = ?us @ ?xs @ ?vs"
    by (metis append_take_drop_id drop_drop ba)
  have "InsertionSort A a b cmp (upd ys s) = (Ret (), upd ?zs (upd ys s))"
  proof (rule InsertionSort_slice [OF cmp])
    show "view (upd ys s) = ?us @ ?xs @ ?vs" using ys len view_upd by metis
    show "list_all valid ?xs" using val by (auto simp: list_all_iff dest!: in_set_takeD in_set_dropD)
    show "a = int (length ?us)" "b = a + int (length ?xs) - 1" using lens ab by auto
  qed
  then have run: "InsertionSort A a b cmp (upd ys s) = (Ret (), upd ?zs s)" by (simp add: upd_upd)
  have lz: "length ?zs = length ys" using arg_cong [OF ys, of length] by simp
  have mz: "mset ?zs = mset ys" using arg_cong [OF ys, of mset] by simp
  have nz: "?zs ! nat k = (if k < a then ys ! nat k else if k \<le> b then Sorting_Algorithms.sort c ?xs ! nat (k - a) else ys ! nat k)"
    if "0 \<le> k" "k < int (length ys)" for k
  proof -
    have n1: "(nat k < nat a) = (k < a)" using that ab by auto
    have n2: "nat k - nat a = nat (k - a)" if "a \<le> k" using that ab by (simp add: nat_diff_distrib)
    have n3: "(nat (k - a) < nat (b - a + 1)) = (k \<le> b)" if "a \<le> k" using that ab by auto
    have n4: "nat (k - a) - nat (b - a + 1) = nat (k - b - 1)" if "b < k" using that ab by auto
    have n5: "?vs ! nat (k - b - 1) = ys ! nat k" if "b < k" using that ab \<open>k < int (length ys)\<close>
      by (simp add: nat_add_distrib [symmetric] flip: nat_diff_distrib)
    consider "k < a" | "a \<le> k" "k \<le> b" | "a \<le> k" "b < k" by linarith
    then show ?thesis
    proof cases
      case 1 with n1 lens ab that show ?thesis by (simp add: nth_append)
    next
      case 2 with n1 n2 n3 lens show ?thesis by (simp add: nth_append)
    next
      case 3 with n1 n2 n3 n4 n5 lens show ?thesis by (simp add: nth_append)
    qed
  qed
  have "\<exists>l. a \<le> l \<and> l \<le> b \<and> ?zs ! nat k = ys ! nat l" if "a \<le> k" "k \<le> b" for k
  proof -
    have "?zs ! nat k = Sorting_Algorithms.sort c ?xs ! nat (k - a)" using nz [of k] that ab by simp
    moreover have "nat (k - a) < length (Sorting_Algorithms.sort c ?xs)" using that ab lens by simp
    ultimately have "?zs ! nat k \<in> set ?xs" by (metis nth_mem set_sort)
    then obtain m where m: "m < nat (b - a + 1)" "?zs ! nat k = ?xs ! m" unfolding in_set_conv_nth lens by metis
    have "?xs ! m = ys ! nat (a + int m)" using m ab by (simp add: nat_add_distrib)
    with m ab show ?thesis by (intro exI [of _ "a + int m"]) auto
  qed
  moreover have "?zs ! nat k = ys ! nat k" if "0 \<le> k" "k < int (length ys)" "k < a \<or> b < k" for k
    using nz [of k] that ab by auto
  ultimately have "rearranged a b ys ?zs" unfolding rearranged_def using lz mz by blast
  moreover have "compare c (?zs ! nat k) (?zs ! nat l) \<noteq> Greater" if "a \<le> k" "k < l" "l \<le> b" for k l
  proof -
    have "compare c (Sorting_Algorithms.sort c ?xs ! nat (k - a)) (Sorting_Algorithms.sort c ?xs ! nat (l - a)) \<noteq> Greater"
      by (rule sorted_nth) (use that ab lens in auto)
    with nz [of k] nz [of l] that ab show ?thesis by simp
  qed
  ultimately show ?thesis using run by blast
qed

lemma quick_round:
  assumes cmp: "comparefn_for c valid cmp" and val: "list_all valid (view s)" and I: "quick_inv c s (start, end', stack, tp) t"
    and fuel: "2 * length (view s) + 2 \<le> fuel"
    and fin: "\<And>ys. length ys = length (view s) \<Longrightarrow> mset ys = mset (view s) \<Longrightarrow> Sorting_Algorithms.sorted c ys \<Longrightarrow> Q () (upd ys s)"
  shows "wp (QuickSort_round fuel A cmp (start, end', stack, tp))
      (\<lambda>x t'. case x of Inl d \<Rightarrow> quick_inv c s d t' \<and> quick_work d t' < quick_work (start, end', stack, tp) t | Inr r \<Rightarrow> Q r t') E t"
proof -
  obtain ys segs where t: "t = upd ys s" and len: "length ys = length (view s)" and ms: "mset ys = mset (view s)"
    and pend: "pending stack tp segs" and ok: "segs_ok (int (length (view s))) ((start, end') # segs)"
    and ord: "ordered_but c ys ((start, end') # segs)"
    using I unfolding quick_inv_def by auto
  have vy: "list_all valid ys" using val ms by (metis list_all_iff set_mset_mset)
  have bnds: "0 \<le> start" "start \<le> end' + 1" "end' < int (length ys)"
    and ok': "segs_ok (int (length (view s))) segs" using ok len by (auto simp: segs_ok_Cons)
  note wk = quick_work_pending [OF pend]
  show ?thesis
  proof (cases "end' - start \<le> 23")
    case True
    obtain zs where run: "InsertionSort A start end' cmp (upd ys s) = (Ret (), upd zs s)"
      and re: "rearranged start end' ys zs"
      and srt: "\<And>k l. start \<le> k \<Longrightarrow> k < l \<Longrightarrow> l \<le> end' \<Longrightarrow> compare c (zs ! nat k) (zs ! nat l) \<noteq> Greater"
      using insertion_segment [OF cmp len vy bnds] by blast
    have lz: "length zs = length (view s)" "mset zs = mset (view s)" using re len ms by (auto simp: rearranged_def)
    have o1: "ordered_but c zs ((start, end') # segs)"
      by (rule ordered_but_rearranged [OF _ ord re]) (use ok len in simp)
    have o2: "ordered_but c zs segs" by (rule ordered_but_sorted_segment [OF o1 srt])
    have w: "wp (InsertionSort A start end' cmp) Q' E' t = Q' () (upd zs s)" for Q' E'
      unfolding t using run by (simp add: wp_def)
    show ?thesis
    proof (cases segs)
      case Nil
      with pend have "tp < 1" using pending_empty by blast
      moreover have "Q () (upd zs s)" using fin [OF lz] sorted_if_ordered o2 Nil by blast
      ultimately show ?thesis using True by (simp add: QuickSort_round_def wp_sq w wp_ret)
    next
      case (Cons ab segs')
      obtain a b where ab: "ab = (a, b)" by fastforce
      have p: "pending stack tp ((a, b) # segs')" using pend Cons ab by simp
      then have "\<not> tp < 1" using pending_empty [OF p] by simp
      moreover have "quick_inv c s (a, b, stack, tp - 2) (upd zs s)"
        unfolding quick_inv_def using lz pending_pop(3) [OF p] ok' o2 Cons ab by auto
      moreover have "quick_work (a, b, stack, tp - 2) (upd zs s) < quick_work (start, end', stack, tp) t"
        unfolding wk quick_work_pending [OF pending_pop(3) [OF p]] using Cons ab by simp
      ultimately show ?thesis using True pending_pop(1,2) [OF p] by (simp add: QuickSort_round_def wp_sq w wp_ret del: quick_work.simps)
    qed
  next
    case False
    then have three: "start + 3 \<le> end'" by simp
    have fu: "nat (end' - start) < fuel" using fuel bnds len by simp
    show ?thesis
      unfolding QuickSort_round_def prod.case t wp_if if_not_P [OF False] wp_bnd
    proof (rule wp_Partition [OF cmp len vy bnds(1) three bnds(3) fu])
      fix zs j
      assume re: "rearranged start end' ys zs" and j: "start < j" "j < end'"
        and le: "\<And>k. start \<le> k \<Longrightarrow> k \<le> j \<Longrightarrow> compare c (zs ! nat k) (zs ! nat j) \<noteq> Greater"
        and ge: "\<And>k. j \<le> k \<Longrightarrow> k \<le> end' \<Longrightarrow> compare c (zs ! nat j) (zs ! nat k) \<noteq> Greater"
      have lz: "length zs = length (view s)" "mset zs = mset (view s)" using re len ms by (auto simp: rearranged_def)
      have o1: "ordered_but c zs ((start, end') # segs)"
        by (rule ordered_but_rearranged [OF _ ord re]) (use ok len in simp)
      have o2: "ordered_but c zs ((start, j - 1) # (j + 1, end') # segs)"
        by (rule ordered_but_split [OF o1 j le ge])
      have o3: "ordered_but c zs ((j + 1, end') # (start, j - 1) # segs)"
        using o2 ordered_but_perm [of "(start, j - 1) # (j + 1, end') # segs" "(j + 1, end') # (start, j - 1) # segs"] by auto
      have k2: "segs_ok (int (length (view s))) ((start, j - 1) # (j + 1, end') # segs)"
        and k3: "segs_ok (int (length (view s))) ((j + 1, end') # (start, j - 1) # segs)"
        using ok j unfolding segs_ok_Cons by fastforce+
      obtain st1 tp1 where pu1: "stack_push (stack_push (stack, tp) start) (j - 1) = (st1, tp1)" by fastforce
      obtain st2 tp2 where pu2: "stack_push (stack_push (stack, tp) (j + 1)) end' = (st2, tp2)" by fastforce
      note p1 = pending_push [OF pend pu1] and p2 = pending_push [OF pend pu2]
      have q1: "quick_inv c s (j + 1, end', st1, tp1) (upd zs s)"
        and q2: "quick_inv c s (start, j - 1, st2, tp2) (upd zs s)"
        unfolding quick_inv_def using lz p1 p2 k2 k3 o2 o3 by auto
      have "quick_work (j + 1, end', st1, tp1) (upd zs s) < quick_work (start, end', stack, tp) (upd ys s)"
        "quick_work (start, j - 1, st2, tp2) (upd zs s) < quick_work (start, end', stack, tp) (upd ys s)"
        unfolding wk quick_work_pending [OF p1] quick_work_pending [OF p2] using j by simp_all
      with q1 q2 pu1 pu2
      show "wp (let leftLen = (j - 1) - start; rightLen = end' - (j + 1)
          in
          if rightLen > leftLen then
            (let (stack, tp) = stack_push (stack_push (stack, tp) start) (j - 1)
             in ret (Inl (j + 1, end', stack, tp)))
          else
            (let (stack, tp) = stack_push (stack_push (stack, tp) (j + 1)) end'
             in ret (Inl (start, j - 1, stack, tp))))
        (\<lambda>x t'. case x of Inl d \<Rightarrow> quick_inv c s d t' \<and> quick_work d t' < quick_work (start, end', stack, tp) (upd ys s) | Inr r \<Rightarrow> Q r t') E (upd zs s)"
        by (simp add: Let_def wp_ret del: quick_work.simps)
    qed
  qed
qed

text \<open>The whole sort: fuel linear in the length is enough.\<close>

lemma QuickSort_correct:
  assumes cmp: "comparefn_for c valid cmp" and val: "list_all valid (view s)"
    and len: "len = int (length (view s))" "len \<le> 0x7FFFFFFF" and fuel: "2 * length (view s) + 2 \<le> fuel"
  shows "\<exists>ys. QuickSort fuel A len cmp s = (Ret (), upd ys s) \<and> length ys = length (view s)
    \<and> mset ys = mset (view s) \<and> Sorting_Algorithms.sorted c ys"
proof -
  have init: "quick_inv c s (0, len - 1, [], 0) s"
    unfolding quick_inv_def prod.case
  proof (intro exI conjI)
    show "s = upd (view s) s" by (simp add: upd_view)
    show "pending [] 0 []" by (simp add: pending_def)
    show "segs_ok (int (length (view s))) [(0, len - 1)]" using len by (simp add: segs_ok_def)
    show "ordered_but c (view s) [(0, len - 1)]" using len by (simp add: ordered_but_def)
  qed simp_all
  have "wp (QuickSort fuel A len cmp) (\<lambda>_ t. \<exists>ys. t = upd ys s \<and> length ys = length (view s)
    \<and> mset ys = mset (view s) \<and> Sorting_Algorithms.sorted c ys) (\<lambda>_ _. False) s"
    unfolding QuickSort_def wp_sq wp_asrt
  proof (intro conjI)
    show "wp (loop_fuel fuel (QuickSort_round fuel A cmp) (0, len - 1, [], 0))
      (\<lambda>_ t. \<exists>ys. t = upd ys s \<and> length ys = length (view s)
        \<and> mset ys = mset (view s) \<and> Sorting_Algorithms.sorted c ys) (\<lambda>_ _. False) s"
    proof (rule wp_loop_fuel [where I = "quick_inv c s" and v = quick_work])
      show "quick_inv c s (0, len - 1, [], 0) s" by (rule init)
      show "quick_work (0, len - 1, [], 0) s < fuel" using fuel len by simp
    next
      fix d t assume "quick_inv c s d t"
      moreover obtain start end' stack tp where d: "d = (start, end', stack, tp)" by (metis prod_cases4)
      ultimately have I: "quick_inv c s (start, end', stack, tp) t" by simp
      show "wp (QuickSort_round fuel A cmp d)
        (\<lambda>x t'. case x of Inl d' \<Rightarrow> quick_inv c s d' t' \<and> quick_work d' t' < quick_work d t
          | Inr r \<Rightarrow> \<exists>ys. t' = upd ys s \<and> length ys = length (view s)
              \<and> mset ys = mset (view s) \<and> Sorting_Algorithms.sorted c ys) (\<lambda>_ _. False) t"
        unfolding d by (rule quick_round [OF cmp val I fuel]) blast
    qed
  qed (use len in auto)
  then show ?thesis by (auto dest!: wp_runD)
qed

end

end
