(* ===== verification/SortRadix.thy ===== *)
theory SortRadix
  imports TypedElems SortMerge SortQuickCorrect
begin

text \<open>
  \<open>CountingSort\<close>, \<open>SortByColumn\<close> and \<open>RadixSort\<close>. The arrays hold element bits; a script sees
  their values through \<open>elem\<close>. An Int32Array over the buffer of a Float32Array is the same bits
  read as another kind.
\<close>

section \<open>The operations\<close>

text \<open>The operand of a bitwise operator: \<open>ToInt32\<close>.\<close>

definition int32_of :: "val \<Rightarrow> 32 word" where
  "int32_of v = (case num_to_integer (val_num v) of IFin i \<Rightarrow> word_of_int i | _ \<Rightarrow> 0)"

definition ByteAtCol :: "val \<Rightarrow> nat \<Rightarrow> int" where
  "ByteAtCol x pos = uint (signed_drop_bit (pos * 8) (int32_of x) AND 0xFF)"

definition SortByColumn ::
    "ta_kind \<Rightarrow> ('s, 'e, tval) arrayI \<Rightarrow> int \<Rightarrow> tval list \<Rightarrow> nat \<Rightarrow> int list \<Rightarrow> ('s, 'e, tval list \<times> int list) prog" where
  "SortByColumn K A len aux col counts =
     sq (asrt (length counts = 257) ''counts has |R| + 1 entries'')
    (bnd (for_acc 0 257 (\<lambda>r counts. ret (counts[nat r := 0])) counts) (\<lambda>counts.
     bnd (for_acc 0 len (\<lambda>i counts.
            bnd (rd A i) (\<lambda>val.
            let b = ByteAtCol (elem K val) col in
            ret (counts[nat (b + 1) := counts ! nat (b + 1) + 1]))) counts) (\<lambda>counts.
     bnd (for_acc 0 256 (\<lambda>r counts.
            ret (counts[nat (r + 1) := counts ! nat (r + 1) + counts ! nat r])) counts) (\<lambda>counts.
     bnd (for_acc 0 len (\<lambda>i (aux, counts).
            bnd (rd A i) (\<lambda>val.
            let b = ByteAtCol (elem K val) col;
                k = counts ! nat b
            in ret (define_at UndefT aux (nat k) val, counts[nat b := k + 1]))) (aux, counts)) (\<lambda>(aux, counts).
     sq (for_each 0 len (\<lambda>i. wr A i (local_rd UndefT aux i)))
        (ret (aux, counts)))))))"

text \<open>\<open>view[i] ^= mask\<close>\<close>

definition xor_at :: "ta_kind \<Rightarrow> ('s, 'e, tval) arrayI \<Rightarrow> int \<Rightarrow> 32 word \<Rightarrow> ('s, 'e, unit) prog" where
  "xor_at K A i m = bnd (rd A i) (\<lambda>x. wr A i (store_int K (sint (int32_of (elem K x) XOR m))))"

definition RadixSort ::
    "nat \<Rightarrow> ta_kind \<Rightarrow> ('s, 'e, tval) arrayI \<Rightarrow> int \<Rightarrow> nat \<Rightarrow> bool \<Rightarrow> bool \<Rightarrow> (val \<Rightarrow> val \<Rightarrow> ('s, 'e, num) prog) \<Rightarrow>
     ('s, 'e, unit) prog" where
  "RadixSort fuel K A len nbytes signed' floating comparefn =
     (if len < 512 then QuickSort fuel A len (\<lambda>x y. comparefn (elem K x) (elem K y))
      else
        let aux = replicate (nat len) (Elt 0);
            view' = (if floating then Int32 else K);
            signMask = push_bit (nbytes * 8 - 1) 1;
            bits = (\<lambda>x. int32_of (elem view' x))
        in
        sq (if floating then
              for_each 0 len (\<lambda>i. bnd (rd A i) (\<lambda>x.
                if bits x AND signMask \<noteq> 0 then
                  whenJ (bits x AND 0x7F800000 \<noteq> 0x7F800000 \<or> bits x AND 0x007FFFFF = 0)
                    (xor_at view' A i 0xFFFFFFFF)
                else xor_at view' A i signMask))
            else if signed' then for_each 0 len (\<lambda>i. xor_at view' A i signMask)
            else ret ())
       (bnd (for_acc 0 (int nbytes) (\<lambda>col (aux, counts). SortByColumn view' A len aux (nat col) counts)
               (aux, replicate 257 0)) (\<lambda>_.
        if floating then
          for_each 0 len (\<lambda>i. bnd (rd A i) (\<lambda>x.
            if bits x AND signMask \<noteq> 0 then xor_at view' A i signMask
            else xor_at view' A i 0xFFFFFFFF))
        else if signed' then for_each 0 len (\<lambda>i. xor_at view' A i signMask)
        else ret ())))"

text \<open>
  \<open>CountingSort\<close>: the buffer of counts is local; \<open>do j = buffer[++val]; while (j === 0)\<close> reads
  \<open>undefined\<close> past its end, which stops the loop (here an exit with count 0).
\<close>

definition CountingSort_write :: "nat \<Rightarrow> ta_kind \<Rightarrow> ('s, 'e, tval) arrayI \<Rightarrow> int \<Rightarrow> int \<Rightarrow> int list \<Rightarrow> ('s, 'e, unit) prog" where
  "CountingSort_write fuel K A len min' buffer =
     loop_fuel fuel (\<lambda>(i, val).
       if i < len then
         bnd (loop_fuel fuel (\<lambda>val.
                let val = val + 1 in
                ret (if val < 256 \<and> buffer ! nat val = 0 then Inl val else Inr val)) val) (\<lambda>val.
         let j = (if val < 256 then buffer ! nat val else 0) in
         sq (for_each i (i + j) (\<lambda>i. wr A i (store_int K (val + min'))))
            (ret (Inl (i + j, val))))
       else ret (Inr ())) (0, -1)"

definition CountingSort ::
    "nat \<Rightarrow> ta_kind \<Rightarrow> ('s, 'e, tval) arrayI \<Rightarrow> int \<Rightarrow> bool \<Rightarrow> (val \<Rightarrow> val \<Rightarrow> ('s, 'e, num) prog) \<Rightarrow>
     ('s, 'e, unit) prog" where
  "CountingSort fuel K A len signed' comparefn =
     (if len < 128 then QuickSort fuel A len (\<lambda>x y. comparefn (elem K x) (elem K y))
      else
        let min' = (if signed' then -128 else 0) in
        bnd (for_acc 0 len (\<lambda>i buffer.
               bnd (rd A i) (\<lambda>x.
               let k = sint (int32_of (elem K x)) - min' in
               ret (buffer[nat k := buffer ! nat k + 1]))) (replicate 256 0))
            (CountingSort_write fuel K A len min'))"

section \<open>Counting\<close>

text \<open>The number of elements of a list with key \<open>k\<close>, and below \<open>k\<close>.\<close>

definition cnt :: "('a \<Rightarrow> nat) \<Rightarrow> 'a list \<Rightarrow> nat \<Rightarrow> nat" where
  "cnt ky xs k = length (filter (\<lambda>x. ky x = k) xs)"

definition below :: "('a \<Rightarrow> nat) \<Rightarrow> 'a list \<Rightarrow> nat \<Rightarrow> nat" where
  "below ky xs k = length (filter (\<lambda>x. ky x < k) xs)"

lemma cnt_simps [simp]:
  "cnt ky [] k = 0" "cnt ky (x # xs) k = (if ky x = k then Suc (cnt ky xs k) else cnt ky xs k)"
  "cnt ky (xs @ ys) k = cnt ky xs k + cnt ky ys k"
  by (simp_all add: cnt_def)

lemma below_0 [simp]: "below ky xs 0 = 0"
  by (simp add: below_def)

lemma below_Suc: "below ky xs (Suc k) = below ky xs k + cnt ky xs k"
  by (induction xs) (auto simp: below_def cnt_def less_Suc_eq)

lemma below_mono: "k \<le> l \<Longrightarrow> below ky xs k \<le> below ky xs l"
  by (induction l) (auto simp: below_Suc le_Suc_eq)

lemma below_le: "below ky xs k \<le> length xs"
  by (simp add: below_def)

lemma below_cnt_le: "below ky xs k + cnt ky xs k \<le> length xs"
  using below_le [of ky xs "Suc k"] by (simp add: below_Suc)

text \<open>A list sorted by key is its part below \<open>k\<close>, its part at \<open>k\<close> and the rest.\<close>

lemma sorted_key_split:
  fixes ky :: "'a \<Rightarrow> nat"
  shows "sorted_wrt (\<le>) (map ky ys) \<Longrightarrow>
   ys = filter (\<lambda>x. ky x < k) ys @ filter (\<lambda>x. ky x = k) ys @ filter (\<lambda>x. k < ky x) ys"
proof (induction ys)
  case (Cons y ys)
  consider "ky y < k" | "ky y = k" | "k < ky y" by linarith
  then show ?case
  proof cases
    case 1
    with Cons show ?thesis by simp
  next
    case 2
    then have "filter (\<lambda>x. ky x < k) ys = []" using Cons.prems by (auto intro!: filter_False)
    with 2 Cons show ?thesis by simp
  next
    case 3
    then have "filter (\<lambda>x. ky x < k) ys = []" "filter (\<lambda>x. ky x = k) ys = []" using Cons.prems by (auto intro!: filter_False)
    with 3 Cons show ?thesis by simp
  qed
qed simp

lemma filter_key_sort_key: "filter (\<lambda>x. ky x = k) (sort_key ky xs) = filter (\<lambda>x. ky x = k) xs"
  using sort_key_stable [of ky k xs] by simp

lemma length_filter_sort_key: "length (filter P (sort_key ky xs)) = length (filter P xs)"
proof -
  have "mset (filter P (sort_key ky xs)) = mset (filter P xs)" by (simp add: mset_filter)
  then show ?thesis by (metis size_mset)
qed

text \<open>Where each element of the sorted list comes from.\<close>

lemma sort_key_nth:
  "j < cnt ky xs k \<Longrightarrow> sort_key ky xs ! (below ky xs k + j) = filter (\<lambda>x. ky x = k) xs ! j"
proof -
  assume j: "j < cnt ky xs k"
  let ?ys = "sort_key ky xs"
  define as bs cs where "as = filter (\<lambda>x. ky x < k) ?ys" and "bs = filter (\<lambda>x. ky x = k) ?ys"
    and "cs = filter (\<lambda>x. k < ky x) ?ys"
  have ys: "?ys = as @ bs @ cs"
    unfolding as_def bs_def cs_def by (rule sorted_key_split) simp
  have "length as = below ky xs k"
    unfolding as_def below_def by (rule length_filter_sort_key)
  moreover have "bs = filter (\<lambda>x. ky x = k) xs"
    unfolding bs_def by (rule filter_key_sort_key)
  ultimately show ?thesis using j unfolding ys by (simp add: nth_append cnt_def)
qed

lemma position_of_key:
  assumes "i < length xs" shows "\<exists>k j. k \<in> ky ` set xs \<and> j < cnt ky xs k \<and> i = below ky xs k + j"
proof -
  let ?ys = "sort_key ky xs"
  let ?k = "ky (?ys ! i)"
  have i: "i < length ?ys" using assms by simp
  define as bs cs where "as = filter (\<lambda>x. ky x < ?k) ?ys" and "bs = filter (\<lambda>x. ky x = ?k) ?ys"
    and "cs = filter (\<lambda>x. ?k < ky x) ?ys"
  have ys: "?ys = as @ bs @ cs"
    unfolding as_def bs_def cs_def by (rule sorted_key_split) simp
  have "\<not> i < length as"
  proof
    assume "i < length as"
    then have "?ys ! i \<in> set as" using ys by (metis nth_append nth_mem)
    then show False by (simp add: as_def)
  qed
  moreover have "i < length as + length bs"
  proof (rule ccontr)
    assume ge: "\<not> i < length as + length bs"
    moreover have "i < length as + (length bs + length cs)" using i unfolding ys by simp
    ultimately have "\<not> i < length as" "\<not> i - length as < length bs" "i - length as - length bs < length cs"
      by linarith+
    then have "(as @ bs @ cs) ! i = cs ! (i - length as - length bs)" "i - length as - length bs < length cs"
      by (simp_all add: nth_append)
    then have "(as @ bs @ cs) ! i \<in> set cs" by simp
    then have "?ys ! i \<in> set cs" using ys by metis
    then show False by (simp add: cs_def)
  qed
  moreover have "length as = below ky xs ?k" "length bs = cnt ky xs ?k"
    unfolding as_def bs_def below_def cnt_def by (rule length_filter_sort_key)+
  moreover have "?k \<in> ky ` set xs" using nth_mem [OF i] by simp
  ultimately show ?thesis
    by (intro exI [of _ ?k] exI [of _ "i - length as"]) auto
qed

section \<open>The loops of \<open>SortByColumn\<close> on lists\<close>

definition bump :: "nat \<Rightarrow> int list \<Rightarrow> int list" where
  "bump k cs = cs[k := cs ! k + 1]"

definition tally :: "('a \<Rightarrow> nat) \<Rightarrow> 'a list \<Rightarrow> int list \<Rightarrow> int list" where
  "tally ky = fold (\<lambda>x. bump (Suc (ky x)))"

definition place :: "'a \<Rightarrow> ('a \<Rightarrow> nat) \<Rightarrow> 'a \<Rightarrow> 'a list \<times> int list \<Rightarrow> 'a list \<times> int list" where
  "place u ky x = (\<lambda>(aux, cs). (define_at u aux (nat (cs ! ky x)) x, bump (ky x) cs))"

lemma bump_nth: "length (bump k cs) = length cs"
  "k < length cs \<Longrightarrow> bump k cs ! l = (if l = k then cs ! k + 1 else cs ! l)"
  by (auto simp: bump_def)

lemma tally_nth:
  assumes "\<forall>x \<in> set xs. ky x < 256" and "length cs = 257"
  shows "length (tally ky xs cs) = 257"
    and "k \<le> 256 \<Longrightarrow> tally ky xs cs ! k = cs ! k + (if k = 0 then 0 else int (cnt ky xs (k - 1)))"
proof -
  have "length (tally ky xs cs) = 257 \<and> (\<forall>k \<le> 256. tally ky xs cs ! k = cs ! k + (if k = 0 then 0 else int (cnt ky xs (k - 1))))"
    using assms
  proof (induction xs arbitrary: cs)
    case (Cons x xs)
    have "length (bump (Suc (ky x)) cs) = 257" using Cons.prems by (simp add: bump_nth)
    from Cons.IH [OF _ this] Cons.prems show ?case
      by (auto simp: tally_def bump_nth)
  qed (simp add: tally_def)
  then show "length (tally ky xs cs) = 257"
    and "k \<le> 256 \<Longrightarrow> tally ky xs cs ! k = cs ! k + (if k = 0 then 0 else int (cnt ky xs (k - 1)))" by auto
qed

text \<open>The invariant of the distribution: after the elements \<open>ps\<close>, the next free place of each key.\<close>

lemma place_inv:
  assumes "\<forall>x \<in> set xs. ky x < 256"
  shows "xs = ps @ rs \<Longrightarrow> length aux = length xs \<Longrightarrow> length cs = 257 \<Longrightarrow>
    \<forall>k < 256. cs ! k = int (below ky xs k + cnt ky ps k) \<Longrightarrow>
    \<forall>k < 256. \<forall>j < cnt ky ps k. aux ! (below ky xs k + j) = filter (\<lambda>x. ky x = k) ps ! j \<Longrightarrow>
    fold (place u ky) rs (aux, cs) = (aux', cs') \<Longrightarrow>
    length aux' = length xs \<and> length cs' = 257 \<and>
    (\<forall>k < 256. \<forall>j < cnt ky xs k. aux' ! (below ky xs k + j) = filter (\<lambda>x. ky x = k) xs ! j)"
proof (induction rs arbitrary: ps aux cs)
  case (Cons x rs)
  have kx: "ky x < 256" using assms Cons.prems(1) by simp
  let ?p = "below ky xs (ky x) + cnt ky ps (ky x)"
  have c: "cs ! ky x = int ?p" using Cons.prems(4) kx by blast
  have room: "?p < length aux"
    using below_cnt_le [of ky xs "ky x"] Cons.prems(1,2) by simp
  let ?aux = "aux[?p := x]" and ?cs = "bump (ky x) cs"
  have "place u ky x (aux, cs) = (?aux, ?cs)"
    unfolding place_def prod.case c nat_int define_at_def if_P [OF room] ..
  then have f: "fold (place u ky) rs (?aux, ?cs) = (aux', cs')" using Cons.prems(6) by simp
  have other: "below ky xs k + j \<noteq> ?p" if "k \<noteq> ky x" "j < cnt ky ps k" for k j
  proof -
    have "below ky xs k + j < below ky xs (Suc k)"
      using that Cons.prems(1) by (simp add: below_Suc)
    moreover have "?p < below ky xs (Suc (ky x))" using Cons.prems(1) by (simp add: below_Suc)
    moreover have "below ky xs (Suc k) \<le> below ky xs (ky x)" if "k < ky x" by (rule below_mono) (use that in simp)
    moreover have "below ky xs (Suc (ky x)) \<le> below ky xs k" if "ky x < k" by (rule below_mono) (use that in simp)
    ultimately show ?thesis using that by (cases "k < ky x") auto
  qed
  have aux: "?aux ! (below ky xs k + j) = filter (\<lambda>y. ky y = k) (ps @ [x]) ! j"
    if "k < 256" "j < cnt ky (ps @ [x]) k" for k j
  proof (cases "k = ky x \<and> j = cnt ky ps k")
    case True
    then show ?thesis using room by (simp add: cnt_def nth_append)
  next
    case False
    then have j: "j < cnt ky ps k" using that by (auto split: if_splits)
    then have "below ky xs k + j \<noteq> ?p" using other [of k j] False by (cases "k = ky x") auto
    then have "?aux ! (below ky xs k + j) = filter (\<lambda>y. ky y = k) ps ! j"
      using Cons.prems(5) that(1) j by simp
    then show ?thesis using j by (simp add: cnt_def nth_append)
  qed
  show ?case
    by (rule Cons.IH [OF _ _ _ _ _ f, of "ps @ [x]"])
      (use Cons.prems kx c aux in \<open>auto simp: bump_nth\<close>)
qed auto

lemma place_sorts:
  assumes key256: "\<forall>x \<in> set xs. ky x < 256" and "length aux = length xs" "length cs = 257"
    and start: "\<forall>k < 256. cs ! k = int (below ky xs k)"
    and f: "fold (place u ky) xs (aux, cs) = (aux', cs')"
  shows "aux' = sort_key ky xs \<and> length cs' = 257"
proof -
  have inv: "length aux' = length xs" "length cs' = 257"
    "\<And>k j. k < 256 \<Longrightarrow> j < cnt ky xs k \<Longrightarrow> aux' ! (below ky xs k + j) = filter (\<lambda>x. ky x = k) xs ! j"
    using place_inv [OF key256, of "[]" xs aux cs u aux' cs'] assms by auto
  have "aux' ! i = sort_key ky xs ! i" if i: "i < length xs" for i
  proof -
    obtain k j where kj: "k \<in> ky ` set xs" "j < cnt ky xs k" "i = below ky xs k + j"
      using position_of_key [OF i, of ky] by blast
    with key256 have "k < 256" by auto
    with kj inv(3) sort_key_nth [OF kj(2)] show ?thesis by simp
  qed
  with inv show ?thesis by (auto intro: nth_equalityI)
qed

end
