(* ===== verification/RadixKeys.thy ===== *)
theory RadixKeys
  imports SortRadix
begin

text \<open>
  The bit tricks of \<open>RadixSort\<close>: the bytes of an element, flipping the sign of integers and the
  bits of floats, and why the resulting unsigned key follows the order of the element values.
\<close>

section \<open>Words of 32 bits\<close>

text \<open>Flipping the sign bit of a word is adding it, and shifts the signed range onto the unsigned.\<close>

definition top_bit :: "'a::len word" where
  "top_bit = push_bit (LENGTH('a) - 1) 1"

lemma bit_top: "bit (top_bit :: 'a::len word) n \<longleftrightarrow> n = LENGTH('a) - 1"
  by (simp only: top_bit_def bit_push_bit_iff) (auto simp: bit_1_iff)

lemma top_top: "(top_bit :: 'a::len word) + top_bit = 0"
proof -
  have "(top_bit :: 'a word) = 2 ^ (LENGTH('a) - 1)" by (simp add: top_bit_def push_bit_eq_mult)
  then have "(top_bit :: 'a word) + top_bit = 2 * 2 ^ (LENGTH('a) - 1)" by (simp only: mult_2)
  also have "\<dots> = 2 ^ Suc (LENGTH('a) - 1)" by (simp only: power_Suc)
  also have "Suc (LENGTH('a) - 1) = LENGTH('a)" by simp
  finally show ?thesis by simp
qed

lemma xor_top: "(v :: 'a::len word) XOR top_bit = v + top_bit"
proof (cases "bit v (LENGTH('a) - 1)")
  case False
  have "v AND top_bit = 0" by (rule bit_word_eqI) (use False in \<open>auto simp: bit_and_iff bit_top\<close>)
  moreover have "v XOR top_bit = v OR top_bit"
    by (rule bit_word_eqI) (use False in \<open>auto simp: bit_xor_iff bit_or_iff bit_top\<close>)
  ultimately show ?thesis using word_plus_and_or [of v top_bit] by simp
next
  case True
  define t where "t = v XOR top_bit"
  have nt: "\<not> bit t (LENGTH('a) - 1)" using True by (simp add: t_def bit_xor_iff bit_top)
  have "t AND top_bit = 0" by (rule bit_word_eqI) (use nt in \<open>auto simp: bit_and_iff bit_top\<close>)
  moreover have "v = t OR top_bit"
    by (rule bit_word_eqI) (use True in \<open>auto simp: t_def bit_xor_iff bit_or_iff bit_top\<close>)
  ultimately have v: "v = t + top_bit" using word_plus_and_or [of t top_bit] by simp
  have "v XOR top_bit = t" by (simp add: t_def)
  also have "t = v + top_bit" by (subst v) (simp add: add.assoc top_top)
  finally show ?thesis .
qed

lemma uint_xor_top: "uint ((v :: 'a::len word) XOR top_bit) = (uint v + 2 ^ (LENGTH('a) - 1)) mod 2 ^ LENGTH('a)"
proof -
  have "uint (top_bit :: 'a word) = take_bit LENGTH('a) (push_bit (LENGTH('a) - 1) (uint (1 :: 'a word)))"
    unfolding top_bit_def by (rule unsigned_push_bit_eq)
  also have "\<dots> = 2 ^ (LENGTH('a) - 1) mod 2 ^ LENGTH('a)"
    by (simp only: uint_1 take_bit_eq_mod push_bit_eq_mult mult_1)
  also have "\<dots> = 2 ^ (LENGTH('a) - 1)"
    by (rule mod_pos_pos_trivial) (auto intro!: power_strict_increasing)
  finally show ?thesis unfolding xor_top by (simp add: uint_word_ariths)
qed

lemma sint_xor_top: "sint (v :: 'a::len word) = uint (v XOR top_bit) - 2 ^ (LENGTH('a) - 1)"
  unfolding uint_xor_top by (simp add: sint_uint signed_take_bit_eq_take_bit_shift take_bit_eq_mod)

lemma top_bit_numeral: "(top_bit :: 32 word) = 0x80000000" "(top_bit :: 16 word) = 0x8000"
  by (simp_all add: top_bit_def)

lemma uint_xor_top32: "uint ((v :: 32 word) XOR 0x80000000) = (uint v + 2 ^ 31) mod 2 ^ 32"
  using uint_xor_top [of v] by (simp add: top_bit_numeral)

lemmas sint_xor_top32 = sint_xor_top [where ?'a = 32, unfolded top_bit_numeral]
lemmas sint_xor_top16 = sint_xor_top [where ?'a = 16, unfolded top_bit_numeral]

lemma byte_div: "c < 4 \<Longrightarrow> uint (signed_drop_bit (c * 8) (w :: 32 word) AND 0xFF) = uint w div 256 ^ c mod 256"
proof -
  assume c: "c < 4"
  have m: "(0xFF :: 32 word) = mask 8" by (simp add: mask_eq_exp_minus_1)
  have "signed_drop_bit (c * 8) w AND 0xFF = take_bit 8 (drop_bit (c * 8) w)"
    unfolding m by (rule bit_word_eqI) (use c in \<open>auto simp: bit_simps\<close>)
  also have "uint \<dots> = take_bit 8 (drop_bit (c * 8) (take_bit 32 (uint w)))"
    by (simp only: unsigned_take_bit_eq unsigned_drop_bit_eq) simp
  also have "take_bit 32 (uint w) = uint w" by (rule take_bit_int_eq_self) (use uint_lt2p [of w] in simp_all)
  also have "take_bit 8 (drop_bit (c * 8) (uint w)) = uint w div 2 ^ (c * 8) mod 256"
    by (simp add: take_bit_eq_mod drop_bit_eq_div)
  also have "(2 :: int) ^ (c * 8) = 256 ^ c"
    by (simp add: mult.commute [of c] power_mult)
  finally show ?thesis .
qed

lemma top_bit32: "(v :: 32 word) AND 0x80000000 \<noteq> 0 \<longleftrightarrow> 2 ^ 31 \<le> uint v"
proof -
  have "(v AND 0x80000000 \<noteq> 0) = bit v 31"
    using bit_iff_and_push_bit_not_eq_0 [of v 31] by simp
  also have "\<dots> = odd (uint v div 2 ^ 31)"
    unfolding bit_iff_odd [of "uint v", symmetric] bit_uint_iff by simp
  also have "\<dots> = (2 ^ 31 \<le> uint v)"
  proof -
    have "0 \<le> uint v div 2 ^ 31" "uint v div 2 ^ 31 < 2" using uint_lt2p [of v] by (auto simp: pos_imp_zdiv_nonneg_iff)
    then have "uint v div 2 ^ 31 = 0 \<or> uint v div 2 ^ 31 = 1" by linarith
    then show ?thesis using uint_lt2p [of v] by (auto simp: div_eq_0_iff)
  qed
  finally show ?thesis .
qed

lemma exponent_ones: "(v :: 32 word) AND 0x7F800000 = 0x7F800000 \<longleftrightarrow> uint v div 2 ^ 23 mod 2 ^ 8 = 255"
proof -
  have m: "(0x7F800000 :: 32 word) = push_bit 23 (mask 8)" by (simp add: mask_eq_exp_minus_1)
  have p: "v AND push_bit 23 (mask 8) = push_bit 23 (take_bit 8 (drop_bit 23 v))"
    by (rule bit_word_eqI, simp only: bit_and_iff bit_push_bit_iff bit_mask_iff bit_take_bit_iff bit_drop_bit_eq) auto
  have "uint (push_bit 23 (take_bit 8 (drop_bit 23 v))) = take_bit 32 (push_bit 23 (take_bit 8 (drop_bit 23 (take_bit 32 (uint v)))))"
    by (simp only: unsigned_push_bit_eq unsigned_take_bit_eq unsigned_drop_bit_eq) simp
  also have "take_bit 32 (uint v) = uint v" by (rule take_bit_int_eq_self) (use uint_lt2p [of v] in simp_all)
  also have "take_bit 32 (push_bit 23 (take_bit 8 (drop_bit 23 (uint v)))) = uint v div 2 ^ 23 mod 2 ^ 8 * 2 ^ 23"
    by (simp add: take_bit_eq_mod drop_bit_eq_div push_bit_eq_mult)
  finally have "uint (v AND 0x7F800000) = uint v div 2 ^ 23 mod 2 ^ 8 * 2 ^ 23" unfolding m p .
  then show ?thesis unfolding word_uint_eq_iff by simp
qed

lemma mantissa_zero: "(v :: 32 word) AND 0x007FFFFF = 0 \<longleftrightarrow> uint v mod 2 ^ 23 = 0"
proof -
  have m: "(0x007FFFFF :: 32 word) = mask 23" by (simp add: mask_eq_exp_minus_1)
  have "v AND 0x007FFFFF = take_bit 23 v" unfolding m by (simp only: take_bit_eq_mask)
  then have "uint (v AND 0x007FFFFF) = take_bit 23 (uint v)"
    by (simp only: unsigned_take_bit_eq)
  then show ?thesis unfolding word_uint_eq_iff by (simp add: take_bit_eq_mod)
qed

lemma uint_xor_ones: "uint ((v :: 32 word) XOR 0xFFFFFFFF) = 2 ^ 32 - 1 - uint v"
proof -
  have "(0xFFFFFFFF :: 32 word) = -1" by simp
  then have "v XOR 0xFFFFFFFF = NOT v" by (simp only: bit.xor_one_right)
  also have "uint (NOT v) = take_bit 32 (NOT (uint v))" by (simp only: unsigned_not_eq) simp
  also have "\<dots> = 2 ^ 32 - 1 - uint v"
  proof -
    have "(- uint v - 1) mod 2 ^ 32 = (- uint v - 1 + 2 ^ 32) mod 2 ^ 32" by (rule mod_add_self2 [symmetric])
    also have "\<dots> = - uint v - 1 + 2 ^ 32" by (rule mod_pos_pos_trivial) (use uint_lt2p [of v] in \<open>auto intro: less_le_trans [of _ 0]\<close>)
    finally show ?thesis by (simp add: take_bit_eq_mod not_eq_complement)
  qed
  finally show ?thesis .
qed

section \<open>Keys of the elements\<close>

definition key32 :: "ta_kind \<Rightarrow> tval \<Rightarrow> nat" where
  "key32 K x = unat (int32_of (elem K x))"

lemma int32_of_vint [simp]: "int32_of (vint i) = word_of_int i"
  by (simp add: int32_of_def rat_trunc_def)

lemma byte_of_key: "c < 4 \<Longrightarrow> nat (ByteAtCol (elem K x) c) = key32 K x div 256 ^ c mod 256"
proof -
  assume c: "c < 4"
  define u where "u = uint (int32_of (elem K x))"
  have "0 \<le> u" by (simp add: u_def)
  then have "nat (u div 256 ^ c mod 256) = nat u div 256 ^ c mod 256"
    by (simp add: nat_mod_distrib nat_div_distrib nat_power_eq pos_imp_zdiv_nonneg_iff)
  then show ?thesis
    by (simp only: ByteAtCol_def byte_div [OF c] key32_def unat_eq_nat_uint u_def)
qed

text \<open>The flip of one element before the passes, and back after them.\<close>

definition flip_sign :: "ta_kind \<Rightarrow> nat \<Rightarrow> tval \<Rightarrow> tval" where
  "flip_sign K nbytes x = store_int K (sint (int32_of (elem K x) XOR push_bit (nbytes * 8 - 1) 1))"

definition pre_float :: "tval \<Rightarrow> tval" where
  "pre_float x =
     (if int32_of (elem Int32 x) AND 0x80000000 \<noteq> 0 then
        (if int32_of (elem Int32 x) AND 0x7F800000 \<noteq> 0x7F800000 \<or> int32_of (elem Int32 x) AND 0x007FFFFF = 0
         then store_int Int32 (sint (int32_of (elem Int32 x) XOR 0xFFFFFFFF)) else x)
      else store_int Int32 (sint (int32_of (elem Int32 x) XOR 0x80000000)))"

definition post_float :: "tval \<Rightarrow> tval" where
  "post_float x =
     (if int32_of (elem Int32 x) AND 0x80000000 \<noteq> 0
      then store_int Int32 (sint (int32_of (elem Int32 x) XOR 0x80000000))
      else store_int Int32 (sint (int32_of (elem Int32 x) XOR 0xFFFFFFFF)))"

lemma elem_Int32: "elem Int32 (Elt w) = vint (sint (ucast w :: 32 word))"
  by (simp add: elem_def)

lemma word32_of_elem: "int32_of (elem Int32 (Elt w)) = ucast w"
  by (simp only: elem_Int32 int32_of_vint scast_eq [symmetric] scast_id)

lemma store_word32: "store_int Int32 (sint (v :: 32 word)) = Elt (ucast v)"
  by simp

lemma ucast_up_down32: "ucast (ucast (v :: 32 word) :: 64 word) = v"
  by (rule bit_word_eqI) (auto simp: bit_ucast_iff)

lemma key32_Int32: "int (key32 Int32 (Elt w)) = uint (ucast w :: 32 word)"
  by (simp only: key32_def word32_of_elem) simp

lemma unat32_less: "unat (v :: 32 word) < 2 ^ 32"
  using unsigned_less [of v] by simp

section \<open>Floats\<close>

definition float_key :: "int \<Rightarrow> int" where
  "float_key n = (if n < 2 ^ 31 then n + 2 ^ 31
     else if n - 2 ^ 31 \<le> 0x7F800000 then 2 ^ 32 - 1 - n else n)"

lemma float_inf32: "float_inf 23 8 = 0x7F800000"
  by (simp add: float_inf_def)

lemma not_nan_bits:
  "0 \<le> k \<Longrightarrow> k < 2 ^ 31 \<Longrightarrow> (k div 2 ^ 23 mod 2 ^ 8 \<noteq> 255 \<or> k mod 2 ^ 23 = 0) = (k \<le> (0x7F800000 :: int))"
proof -
  assume k: "0 \<le> k" "k < 2 ^ 31"
  have "k div 2 ^ 23 < 2 ^ 8" using k by (simp add: div_less_iff_less_mult)
  then have e: "k div 2 ^ 23 mod 2 ^ 8 = k div 2 ^ 23" using k by (intro mod_pos_pos_trivial) (auto simp: pos_imp_zdiv_nonneg_iff)
  obtain d r where d: "d = k div 2 ^ 23" and r: "r = k mod 2 ^ 23" by simp
  have "k = d * 8388608 + r" "0 \<le> r" "r < 8388608" unfolding d r by simp_all
  moreover have "d \<le> 255" using \<open>k div 2 ^ 23 < 2 ^ 8\<close> unfolding d by simp
  ultimately show ?thesis unfolding e unfolding d [symmetric] r [symmetric] by (cases "d = 255") auto
qed

lemma pre_float_key:
  "key32 Int32 (pre_float (Elt w)) = nat (float_key (uint (ucast w :: 32 word)))"
proof -
  let ?v = "ucast w :: 32 word"
  have b: "0 \<le> uint ?v" "uint ?v < 2 ^ 32" using uint_lt2p [of ?v] by auto
  have st: "key32 Int32 (store_int Int32 (sint (v :: 32 word))) = unat v" for v
    by (simp only: store_word32 key32_def word32_of_elem ucast_up_down32)
  have x1: "unat (?v XOR 0xFFFFFFFF) = nat (2 ^ 32 - 1 - uint ?v)"
    by (simp only: unat_eq_nat_uint uint_xor_ones)
  have x2: "unat (?v XOR 0x80000000) = nat (uint ?v + 2 ^ 31)" if "uint ?v < 2 ^ 31"
  proof -
    have "uint (?v XOR 0x80000000) = (uint ?v + 2 ^ 31) mod 2 ^ 32" by (rule uint_xor_top32)
    also have "\<dots> = uint ?v + 2 ^ 31" by (rule mod_pos_pos_trivial) (use that b in auto)
    finally show ?thesis by (simp only: unat_eq_nat_uint)
  qed
  show ?thesis
  proof (cases "2 ^ 31 \<le> uint ?v")
    case True
    let ?k = "uint ?v - 2 ^ 31"
    have k: "0 \<le> ?k" "?k < 2 ^ 31" using True b by auto
    have e: "uint ?v div 2 ^ 23 mod 2 ^ 8 = ?k div 2 ^ 23 mod 2 ^ 8"
    proof -
      have "(?k + 256 * 2 ^ 23) div 2 ^ 23 = 256 + ?k div 2 ^ 23" by (rule div_mult_self1) simp
      then have "uint ?v div 2 ^ 23 = 256 + ?k div 2 ^ 23" by simp
      then show ?thesis by simp
    qed
    have m: "uint ?v mod 2 ^ 23 = ?k mod 2 ^ 23"
    proof -
      have "(?k + 256 * 2 ^ 23) mod 2 ^ 23 = ?k mod 2 ^ 23" by (rule mod_mult_self1)
      then show ?thesis by simp
    qed
    have nn: "(?v AND 0x7F800000 \<noteq> 0x7F800000 \<or> ?v AND 0x007FFFFF = 0) = (?k \<le> 0x7F800000)"
      unfolding exponent_ones mantissa_zero e m by (rule not_nan_bits [OF k])
    have top: "?v AND 0x80000000 \<noteq> 0" using True top_bit32 by blast
    show ?thesis
    proof (cases "?k \<le> 0x7F800000")
      case t: True
      then have "pre_float (Elt w) = store_int Int32 (sint (?v XOR 0xFFFFFFFF))"
        unfolding pre_float_def word32_of_elem if_P [OF top] using nn by (simp only: if_True)
      then show ?thesis using t True by (simp only: st x1 float_key_def) simp
    next
      case f: False
      then have "pre_float (Elt w) = Elt w"
        unfolding pre_float_def word32_of_elem if_P [OF top] using nn by (simp only: if_False)
      then show ?thesis using f True by (simp only: key32_def word32_of_elem float_key_def unat_eq_nat_uint) simp
    qed
  next
    case False
    then have "\<not> ?v AND 0x80000000 \<noteq> 0" using top_bit32 by blast
    then have "pre_float (Elt w) = store_int Int32 (sint (?v XOR 0x80000000))"
      unfolding pre_float_def word32_of_elem by (simp only: if_False)
    then show ?thesis using False x2 by (simp only: st float_key_def) simp
  qed
qed

lemma post_float_bits:
  "\<exists>w'. post_float (Elt w) = Elt w'
    \<and> uint (ucast w' :: 32 word) = (if 2 ^ 31 \<le> uint (ucast w :: 32 word) then uint (ucast w :: 32 word) - 2 ^ 31
        else 2 ^ 32 - 1 - uint (ucast w :: 32 word))"
proof -
  let ?v = "ucast w :: 32 word"
  show ?thesis
  proof (cases "2 ^ 31 \<le> uint ?v")
    case True
    then have top: "?v AND 0x80000000 \<noteq> 0" using top_bit32 by blast
    have "uint (?v XOR 0x80000000) = (uint ?v + 2 ^ 31) mod 2 ^ 32"
      by (rule uint_xor_top32)
    also have "\<dots> = (uint ?v - 2 ^ 31 + 2 ^ 32) mod 2 ^ 32" by (simp add: add.commute)
    also have "\<dots> = (uint ?v - 2 ^ 31) mod 2 ^ 32" by (rule mod_add_self2)
    also have "\<dots> = uint ?v - 2 ^ 31"
      by (rule mod_pos_pos_trivial) (use True uint_lt2p [of ?v] in auto)
    finally show ?thesis
      using True unfolding post_float_def word32_of_elem if_P [OF top] store_word32
      by (intro exI [of _ "ucast (?v XOR 0x80000000)"]) (simp only: ucast_up_down32 if_True)
  next
    case False
    then have "\<not> ?v AND 0x80000000 \<noteq> 0" using top_bit32 by blast
    with False show ?thesis
      unfolding post_float_def word32_of_elem store_word32
      by (intro exI [of _ "ucast (?v XOR 0xFFFFFFFF)"]) (simp only: ucast_up_down32 if_False uint_xor_ones)
  qed
qed

lemma elem_Float32: "elem Float32 (Elt w) = Num (float_num 23 8 (nat (uint (ucast w :: 32 word))))"
  by (simp add: elem_def float32_num_def)

lemma float_num_NaN: "0x7F800000 < n mod 2 ^ 31 \<Longrightarrow> float_num 23 8 n = NaN"
  using float_inf32 by (simp add: float_num_def)

lemma post_pre_float: "elem Float32 (post_float (pre_float (Elt w))) = elem Float32 (Elt w)"
proof -
  let ?n = "uint (ucast w :: 32 word)"
  have b: "0 \<le> ?n" "?n < 2 ^ 32" using uint_lt2p [of "ucast w :: 32 word"] by auto
  obtain w1 where w1: "pre_float (Elt w) = Elt w1" unfolding pre_float_def by (metis store_word32)
  have u1: "uint (ucast w1 :: 32 word) = float_key ?n"
  proof -
    have "int (key32 Int32 (Elt w1)) = int (nat (float_key ?n))" using pre_float_key [of w] w1 by simp
    moreover have "0 \<le> float_key ?n" using b by (auto simp: float_key_def)
    ultimately show ?thesis by (simp only: key32_Int32 int_nat_eq if_True)
  qed
  obtain w2 where w2: "post_float (Elt w1) = Elt w2"
    and u2: "uint (ucast w2 :: 32 word) = (if 2 ^ 31 \<le> float_key ?n then float_key ?n - 2 ^ 31 else 2 ^ 32 - 1 - float_key ?n)"
    using post_float_bits [of w1] unfolding u1 by blast
  consider "?n < 2 ^ 31" | "2 ^ 31 \<le> ?n" "?n - 2 ^ 31 \<le> 0x7F800000" | "2 ^ 31 \<le> ?n" "0x7F800000 < ?n - 2 ^ 31" by linarith
  then have "uint (ucast w2 :: 32 word) = ?n \<or> 2 ^ 31 \<le> ?n \<and> 0x7F800000 < ?n - 2 ^ 31 \<and> uint (ucast w2 :: 32 word) = ?n - 2 ^ 31"
    by cases (use u2 in \<open>simp_all add: float_key_def\<close>)
  then show ?thesis
  proof
    assume "uint (ucast w2 :: 32 word) = ?n"
    then show ?thesis unfolding w1 w2 elem_Float32 by simp
  next
    assume nan: "2 ^ 31 \<le> ?n \<and> 0x7F800000 < ?n - 2 ^ 31 \<and> uint (ucast w2 :: 32 word) = ?n - 2 ^ 31"
    have "nat ?n mod 2 ^ 31 = nat (?n - 2 ^ 31)"
    proof -
      have "nat (?n - 2 ^ 31 + 2 ^ 31) = nat (?n - 2 ^ 31) + nat (2 ^ 31)"
        by (rule nat_add_distrib) (use nan in simp_all)
      then have "nat ?n = nat (?n - 2 ^ 31) + 2 ^ 31" by (simp only: diff_add_cancel) simp
      moreover have "nat (?n - 2 ^ 31) < 2 ^ 31" using b by simp
      ultimately show ?thesis by simp
    qed
    moreover have "nat (?n - 2 ^ 31) mod 2 ^ 31 = nat (?n - 2 ^ 31)" using b by simp
    moreover have "0x7F800000 < nat (?n - 2 ^ 31)" using nan by (simp add: zless_nat_eq_int_zless)
    ultimately have "float_num 23 8 (nat ?n) = NaN" "float_num 23 8 (nat (?n - 2 ^ 31)) = NaN"
      by (simp_all only: float_num_NaN)
    then show ?thesis unfolding w1 w2 elem_Float32 using nan by simp
  qed
qed

text \<open>The key of the bits \<open>n\<close> grows with the value they stand for.\<close>

lemma float_rank:
  assumes "n < 2 ^ 32"
  defines "k \<equiv> n mod 2 ^ 31" and "m \<equiv> \<lambda>k. of_nat (float_mag 23 k) / (2 ^ 149 :: rat)"
  shows "val_rank (Num (float_num 23 8 n)) =
    (if 0x7F800000 < k then (2, 0, 0)
     else if n < 2 ^ 31 then (if k = 0x7F800000 then (1, 0, 0) else (0, m k, 1))
     else if k = 0x7F800000 then (-1, 0, 0) else if k = 0 then (0, 0, 0) else (0, - m k, 1))"
proof -
  have u: "(2 :: nat) ^ (8 - 1) - 2 + 23 = 149" by simp
  have "m 0 = 0" by (simp add: m_def float_mag_def)
  then show ?thesis
    unfolding float_num_def Let_def float_inf32 u k_def m_def by auto
qed

lemma float_order:
  assumes n: "n < 2 ^ 32" "n' < 2 ^ 32" and key: "float_key (int n) \<le> float_key (int n')"
  shows "compare val_order (Num (float_num 23 8 n)) (Num (float_num 23 8 n')) \<noteq> Greater"
proof -
  define k k' where "k = n mod 2 ^ 31" and "k' = n' mod 2 ^ 31"
  define m where "m = (\<lambda>k. of_nat (float_mag 23 k) / (2 ^ 149 :: rat))"
  have mono: "m a \<le> m b" if "a \<le> b" for a b
    unfolding m_def using that float_mag_less [of a b 23] by (cases "a = b") (auto simp: divide_right_mono)
  have pos: "0 \<le> m a" for a by (simp add: m_def)
  have nk: "n = (if n < 2 ^ 31 then k else k + 2 ^ 31)" "k < 2 ^ 31"
    using n(1) by (auto simp: k_def mod_if)
  have nk': "n' = (if n' < 2 ^ 31 then k' else k' + 2 ^ 31)" "k' < 2 ^ 31"
    using n(2) by (auto simp: k'_def mod_if)
  have ra: "val_rank (Num (float_num 23 8 n)) =
    (if 0x7F800000 < k then (2, 0, 0)
     else if n < 2 ^ 31 then (if k = 0x7F800000 then (1, 0, 0) else (0, m k, 1))
     else if k = 0x7F800000 then (-1, 0, 0) else if k = 0 then (0, 0, 0) else (0, - m k, 1))"
    unfolding k_def m_def by (rule float_rank [OF n(1)])
  have ra': "val_rank (Num (float_num 23 8 n')) =
    (if 0x7F800000 < k' then (2, 0, 0)
     else if n' < 2 ^ 31 then (if k' = 0x7F800000 then (1, 0, 0) else (0, m k', 1))
     else if k' = 0x7F800000 then (-1, 0, 0) else if k' = 0 then (0, 0, 0) else (0, - m k', 1))"
    unfolding k'_def m_def by (rule float_rank [OF n(2)])
  have "\<not> val_rank (Num (float_num 23 8 n')) < val_rank (Num (float_num 23 8 n))"
  proof (cases "0x7F800000 < k'")
    case True
    then show ?thesis unfolding ra ra' by auto
  next
    case nan': False
    then have b': "float_key (int n') \<le> 0xFF800000"
      using nk' by (auto simp: float_key_def split: if_splits)
    have nan: "\<not> 0x7F800000 < k"
    proof
      assume "0x7F800000 < k"
      then have "0xFF800000 < float_key (int n)" using nk by (auto simp: float_key_def split: if_splits)
      with b' key show False by simp
    qed
    consider (pp) "n < 2 ^ 31" "n' < 2 ^ 31" | (np) "2 ^ 31 \<le> n" "n' < 2 ^ 31" | (pn) "n < 2 ^ 31" "2 ^ 31 \<le> n'"
      | (nn) "2 ^ 31 \<le> n" "2 ^ 31 \<le> n'" by linarith
    then show ?thesis
    proof cases
      case pp
      then have "k \<le> k'" using key nk nk' by (simp add: float_key_def)
      then show ?thesis unfolding ra ra' using pp nan nan' mono [of k k'] by auto
    next
      case np
      then show ?thesis unfolding ra ra' using nan nan' pos [of k] pos [of k'] by auto
    next
      case pn
      then have False using key nk nk' nan' by (auto simp: float_key_def split: if_splits)
      then show ?thesis ..
    next
      case nn
      then have "k' \<le> k" using key nk nk' nan nan' by (auto simp: float_key_def split: if_splits)
      moreover have "0 < k \<Longrightarrow> 0 < m k" "0 < k' \<Longrightarrow> 0 < m k'"
        using float_mag_less [of 0 k 23] float_mag_less [of 0 k' 23] by (simp_all add: m_def)
      ultimately show ?thesis unfolding ra ra' using nn nan nan' mono [of k' k] by auto
    qed
  qed
  then show ?thesis by (auto simp: compare_val_order)
qed

section \<open>What the passes need of an element kind\<close>

text \<open>
  \<open>pre\<close> before the passes, \<open>post\<close> after them: \<open>post\<close> gives the value back, and the low
  \<open>nbytes\<close> bytes of the flipped element follow the order of the values.
\<close>

definition radix_ok :: "ta_kind \<Rightarrow> ta_kind \<Rightarrow> nat \<Rightarrow> (tval \<Rightarrow> tval) \<Rightarrow> (tval \<Rightarrow> tval) \<Rightarrow> bool" where
  "radix_ok K view' nbytes pre post = (\<forall>w. \<exists>w'. pre (Elt w) = Elt w' \<and> post (Elt w) \<noteq> UndefT
     \<and> elem K (post (pre (Elt w))) = elem K (Elt w)
     \<and> (\<forall>u. key32 view' (pre (Elt w)) mod 256 ^ nbytes \<le> key32 view' (pre (Elt u)) mod 256 ^ nbytes \<longrightarrow>
          compare (elem_order K) (Elt w) (Elt u) \<noteq> Greater))"

lemma radix_okI:
  assumes "\<And>w. \<exists>w'. pre (Elt w) = Elt w'" and "\<And>w. post (Elt w) \<noteq> UndefT"
    and "\<And>w. elem K (post (pre (Elt w))) = elem K (Elt w)"
    and "\<And>w u. key32 view' (pre (Elt w)) mod 256 ^ nbytes \<le> key32 view' (pre (Elt u)) mod 256 ^ nbytes \<Longrightarrow>
          compare (elem_order K) (Elt w) (Elt u) \<noteq> Greater"
  shows "radix_ok K view' nbytes pre post"
  unfolding radix_ok_def
proof (intro allI)
  fix w
  obtain w' where "pre (Elt w) = Elt w'" using assms(1) by blast
  with assms(2-4) show "\<exists>w'. pre (Elt w) = Elt w' \<and> post (Elt w) \<noteq> UndefT
     \<and> elem K (post (pre (Elt w))) = elem K (Elt w)
     \<and> (\<forall>u. key32 view' (pre (Elt w)) mod 256 ^ nbytes \<le> key32 view' (pre (Elt u)) mod 256 ^ nbytes \<longrightarrow>
          compare (elem_order K) (Elt w) (Elt u) \<noteq> Greater)"
    by (intro exI [of _ w'] conjI allI impI) (assumption | rule assms)+
qed

lemma compare_vint: "compare val_order (vint i) (vint j) \<noteq> Greater \<longleftrightarrow> i \<le> j"
  by (auto simp: compare_val_order)

lemma key_of_int: "int_kind K \<Longrightarrow> int (key32 K (Elt w)) = elem_int K w mod 2 ^ 32"
proof -
  assume K: "int_kind K"
  have "int (key32 K (Elt w)) = uint (word_of_int (elem_int K w) :: 32 word)"
    unfolding key32_def int_elem [OF K] int32_of_vint by simp
  also have "\<dots> = take_bit 32 (elem_int K w)" unfolding uint_word_of_int_eq by simp
  finally show ?thesis unfolding take_bit_eq_mod .
qed

lemma elem_Int16: "elem Int16 (Elt w) = vint (elem_int Int16 w)"
  by (rule int_elem) simp

lemma elem_Int32': "elem Int32 (Elt w) = vint (elem_int Int32 w)"
  by (rule int_elem) simp

lemma radix_ok_unsigned:
  assumes "K = Uint32 \<and> nbytes = 4 \<or> K = Uint16 \<and> nbytes = 2"
  shows "radix_ok K K nbytes (\<lambda>x. x) (\<lambda>x. x)"
proof (rule radix_okI)
  have K: "int_kind K" using assms by auto
  have r: "0 \<le> elem_int K w" "elem_int K w < 256 ^ nbytes" for w
    using assms uint_lt2p [of "ucast w :: 32 word"] uint_lt2p [of "ucast w :: 16 word"] by auto
  have r32: "elem_int K w < 2 ^ 32" for w
    using r(2) [of w] assms by auto
  have key: "key32 K (Elt w) mod 256 ^ nbytes = nat (elem_int K w)" for w
  proof -
    have "int (key32 K (Elt w)) = elem_int K w"
      unfolding key_of_int [OF K] by (rule mod_pos_pos_trivial) (use r r32 in auto)
    then have "key32 K (Elt w) = nat (elem_int K w)" by simp
    moreover have "nat (elem_int K w) < 256 ^ nbytes" using r [of w] by (simp add: nat_less_iff)
    ultimately show ?thesis by simp
  qed
  show "compare (elem_order K) (Elt w) (Elt u) \<noteq> Greater"
    if "key32 K (Elt w) mod 256 ^ nbytes \<le> key32 K (Elt u) mod 256 ^ nbytes" for w u
    using that r(1) [of u] unfolding key compare_elem_order int_elem [OF K] compare_vint by simp
qed simp_all

lemma radix_ok_Int32: "radix_ok Int32 Int32 4 (flip_sign Int32 4) (flip_sign Int32 4)"
proof (rule radix_okI)
  have f: "flip_sign Int32 4 (Elt w) = Elt (ucast ((ucast w :: 32 word) XOR 0x80000000))" for w
    unfolding flip_sign_def word32_of_elem by (simp del: store_int.simps add: store_word32)
  show "\<exists>w'. flip_sign Int32 4 (Elt w) = Elt w'" "flip_sign Int32 4 (Elt w) \<noteq> UndefT" for w
    unfolding f by simp_all
  show "elem Int32 (flip_sign Int32 4 (flip_sign Int32 4 (Elt w))) = elem Int32 (Elt w)" for w
    unfolding f ucast_up_down32 elem_Int32 by (simp only: ucast_up_down32 xor.assoc xor_self_eq xor.right_neutral)
  have key: "int (key32 Int32 (flip_sign Int32 4 (Elt w)) mod 256 ^ 4) = elem_int Int32 w + 2 ^ 31" for w
  proof -
    have "key32 Int32 (flip_sign Int32 4 (Elt w)) = unat ((ucast w :: 32 word) XOR 0x80000000)"
      unfolding f key32_def word32_of_elem ucast_up_down32 ..
    moreover have "unat ((ucast w :: 32 word) XOR 0x80000000) < 256 ^ 4"
      using unat32_less [of "(ucast w :: 32 word) XOR 0x80000000"] by simp
    ultimately have "int (key32 Int32 (flip_sign Int32 4 (Elt w)) mod 256 ^ 4) = uint ((ucast w :: 32 word) XOR 0x80000000)"
      by simp
    also have "\<dots> = elem_int Int32 w + 2 ^ 31" using sint_xor_top32 [of "ucast w"] by simp
    finally show ?thesis .
  qed
  show "compare (elem_order Int32) (Elt w) (Elt u) \<noteq> Greater"
    if "key32 Int32 (flip_sign Int32 4 (Elt w)) mod 256 ^ 4 \<le> key32 Int32 (flip_sign Int32 4 (Elt u)) mod 256 ^ 4" for w u
  proof -
    have "elem_int Int32 w \<le> elem_int Int32 u"
      using that unfolding of_nat_le_iff [where ?'a = int, symmetric] key by simp
    then show ?thesis unfolding compare_elem_order elem_Int32' compare_vint .
  qed
qed

lemma radix_ok_Int16: "radix_ok Int16 Int16 2 (flip_sign Int16 2) (flip_sign Int16 2)"
proof (rule radix_okI)
  have up_down: "ucast (ucast (v :: 16 word) :: 64 word) = v" for v
    by (rule bit_word_eqI) (auto simp: bit_ucast_iff)
  have f: "flip_sign Int16 2 (Elt w) = Elt (ucast ((ucast w :: 16 word) XOR 0x8000))" for w
  proof -
    let ?v = "ucast w :: 16 word"
    have "(word_of_int (sint (scast ?v XOR 0x8000 :: 32 word)) :: 16 word) = ?v XOR 0x8000"
      unfolding scast_eq [symmetric]
      by (rule bit_word_eqI) (simp add: bit_simps)
    moreover have "int32_of (elem Int16 (Elt w)) = scast ?v"
      by (simp only: elem_Int16 int32_of_vint elem_int.simps scast_eq)
    ultimately show ?thesis unfolding flip_sign_def by simp
  qed
  show "\<exists>w'. flip_sign Int16 2 (Elt w) = Elt w'" "flip_sign Int16 2 (Elt w) \<noteq> UndefT" for w
    unfolding f by simp_all
  have ei: "elem_int Int16 (ucast (v :: 16 word)) = sint v" for v by (simp only: elem_int.simps up_down)
  show "elem Int16 (flip_sign Int16 2 (flip_sign Int16 2 (Elt w))) = elem Int16 (Elt w)" for w
    unfolding f up_down elem_Int16 ei
    by (simp only: ei xor.assoc xor_self_eq xor.right_neutral elem_int.simps)
  have key: "int (key32 Int16 (flip_sign Int16 2 (Elt w)) mod 256 ^ 2) = elem_int Int16 w + 2 ^ 15" for w
  proof -
    let ?v = "(ucast w :: 16 word) XOR 0x8000"
    have "int (key32 Int16 (Elt (ucast ?v)) mod 256 ^ 2) = sint ?v mod 2 ^ 32 mod 2 ^ 16"
      using key_of_int [of Int16 "ucast ?v"] ei by (simp add: zmod_int)
    also have "\<dots> = sint ?v mod 2 ^ 16" by (rule mod_mod_cancel) simp
    also have "\<dots> = uint ?v" by (simp add: uint_sint take_bit_eq_mod)
    also have "\<dots> = elem_int Int16 w + 2 ^ 15" using sint_xor_top16 [of "ucast w"] by simp
    finally show ?thesis unfolding f .
  qed
  show "compare (elem_order Int16) (Elt w) (Elt u) \<noteq> Greater"
    if "key32 Int16 (flip_sign Int16 2 (Elt w)) mod 256 ^ 2 \<le> key32 Int16 (flip_sign Int16 2 (Elt u)) mod 256 ^ 2" for w u
  proof -
    have "elem_int Int16 w \<le> elem_int Int16 u"
      using that unfolding of_nat_le_iff [where ?'a = int, symmetric] key by simp
    then show ?thesis unfolding compare_elem_order elem_Int16 compare_vint .
  qed
qed

lemma radix_ok_Float32: "radix_ok Float32 Int32 4 pre_float post_float"
proof (rule radix_okI)
  show "\<exists>w'. pre_float (Elt w) = Elt w'" for w unfolding pre_float_def by (metis store_word32)
  show "post_float (Elt w) \<noteq> UndefT" for w using post_float_bits [of w] by auto
  show "elem Float32 (post_float (pre_float (Elt w))) = elem Float32 (Elt w)" for w by (rule post_pre_float)
  have b: "float_key (uint v) < 2 ^ 32 \<and> 0 \<le> float_key (uint v)" for v :: "32 word"
    using uint_lt2p [of v] by (auto simp: float_key_def)
  have key: "int (key32 Int32 (pre_float (Elt w)) mod 256 ^ 4) = float_key (uint (ucast w :: 32 word))" for w
  proof -
    have "nat (float_key (uint (ucast w :: 32 word))) < 256 ^ 4" using b [of "ucast w"] by (simp add: nat_less_iff)
    then show ?thesis unfolding pre_float_key using b [of "ucast w"] by simp
  qed
  show "compare (elem_order Float32) (Elt w) (Elt u) \<noteq> Greater"
    if "key32 Int32 (pre_float (Elt w)) mod 256 ^ 4 \<le> key32 Int32 (pre_float (Elt u)) mod 256 ^ 4" for w u
  proof -
    have "float_key (uint (ucast w :: 32 word)) \<le> float_key (uint (ucast u :: 32 word))"
      using that unfolding of_nat_le_iff [where ?'a = int, symmetric] key .
    then show ?thesis
      unfolding compare_elem_order elem_Float32
      by (intro float_order) (use unat32_less [of "ucast w :: 32 word"] unat32_less [of "ucast u :: 32 word"] in simp_all)
  qed
qed

end
