(* ===== verification/SortRadixCorrect.thy ===== *)
theory SortRadixCorrect
  imports SortRadix
begin

text \<open>
  \<open>SortByColumn\<close> is the stable sort by one byte, so the passes of \<open>RadixSort\<close> sort by the whole
  key, and the sign and float bit flips make that key follow the order of the element values.
\<close>

section \<open>One column\<close>

lemma ByteAtCol_bounds: "0 \<le> ByteAtCol v c \<and> ByteAtCol v c < 256"
proof -
  have "uint (signed_drop_bit (c * 8) (int32_of v) AND 0xFF) \<le> uint (0xFF :: 32 word)"
    using word_and_le1 [of "signed_drop_bit (c * 8) (int32_of v)" "0xFF"] unfolding word_le_def .
  then show ?thesis unfolding ByteAtCol_def by simp
qed

locale elem_array = indexed_array A view upd "\<lambda>x. x \<noteq> UndefT"
  for A :: "('s, 'e, tval) arrayI" and view upd
begin

lemma read_loop:
  assumes "len = int (length (view s))"
    and body: "\<And>i c. 0 \<le> i \<Longrightarrow> i < len \<Longrightarrow> body i c s = (Ret (f (view s ! nat i) c), s)"
    and Q: "Q (fold f (view s) c) s"
  shows "wp (for_acc 0 len body c) Q E s"
proof (rule wp_for_acc [where I = "\<lambda>i c' t. t = s \<and> c' = fold f (take (nat i) (view s)) c"])
  fix i c' t
  assume i: "0 \<le> i" "i < len" and I: "t = s \<and> c' = fold f (take (nat i) (view s)) c"
  have "take (nat (i + 1)) (view s) = take (nat i) (view s) @ [view s ! nat i]"
    using i assms(1) by (simp add: nat_add_distrib take_Suc_conv_app_nth)
  with I body [OF i] show "wp (body i c') (\<lambda>c' t. t = s \<and> c' = fold f (take (nat (i + 1)) (view s)) c) E t"
    by (simp add: wp_def)
qed (use assms in auto)

lemma write_loop:
  assumes len: "len = int (length (view s))" and ys: "length ys = length (view s)" "\<forall>y \<in> set ys. y \<noteq> UndefT"
    and body: "\<And>i t. 0 \<le> i \<Longrightarrow> i < len \<Longrightarrow> t = upd (take (nat i) ys @ drop (nat i) (view s)) s \<Longrightarrow>
      body i t = (Ret (), upd ((take (nat i) ys @ drop (nat i) (view s))[nat i := ys ! nat i]) s)"
  shows "for_each 0 len body s = (Ret (), upd ys s)"
proof -
  have "wp (for_each 0 len body) (\<lambda>_ t. t = upd ys s) (\<lambda>_ _. False) s"
  proof (rule wp_for_each [where I = "\<lambda>i t. t = upd (take (nat i) ys @ drop (nat i) (view s)) s"])
    fix i t
    assume i: "0 \<le> i" "i < len" and I: "t = upd (take (nat i) ys @ drop (nat i) (view s)) s"
    have n: "nat i < length ys" using i len ys by simp
    have "drop (nat i) (view s) = view s ! nat i # drop (Suc (nat i)) (view s)"
      using n ys by (simp add: Cons_nth_drop_Suc)
    then have "(take (nat i) ys @ drop (nat i) (view s))[nat i := ys ! nat i]
      = take (nat (i + 1)) ys @ drop (nat (i + 1)) (view s)"
      using n i by (simp add: list_update_append take_Suc_conv_app_nth nat_add_distrib)
    then show "wp (body i) (\<lambda>_ t. t = upd (take (nat (i + 1)) ys @ drop (nat (i + 1)) (view s)) s) (\<lambda>_ _. False) t"
      using body [OF i I] by (simp add: wp_def)
  qed (use len ys upd_view in auto)
  then show ?thesis by (auto dest!: wp_runD)
qed

text \<open>A loop that replaces each element by a function of it.\<close>

lemma map_loop:
  assumes len: "len = int (length (view s))" and g: "\<And>x. x \<in> set (view s) \<Longrightarrow> g x \<noteq> UndefT"
    and body: "\<And>i t. 0 \<le> i \<Longrightarrow> i < len \<Longrightarrow> length (view t) = length (view s) \<Longrightarrow> view t ! nat i = view s ! nat i \<Longrightarrow>
      body i t = (Ret (), upd ((view t)[nat i := g (view t ! nat i)]) t)"
  shows "for_each 0 len body s = (Ret (), upd (map g (view s)) s)"
proof (rule write_loop [OF len])
  fix i t
  assume i: "0 \<le> i" "i < len" and t: "t = upd (take (nat i) (map g (view s)) @ drop (nat i) (view s)) s"
  have n: "nat i < length (view s)" using i len by simp
  have v: "view t = take (nat i) (map g (view s)) @ drop (nat i) (view s)"
    unfolding t by (rule view_upd) (use n in simp)
  have "view t ! nat i = view s ! nat i" using n unfolding v by (simp add: nth_append)
  moreover have "length (view t) = length (view s)" using n unfolding v by simp
  ultimately have "body i t = (Ret (), upd ((view t)[nat i := g (view s ! nat i)]) t)" using body [OF i] by simp
  then show "body i t = (Ret (), upd ((take (nat i) (map g (view s)) @ drop (nat i) (view s))[nat i := map g (view s) ! nat i]) s)"
    using n unfolding v by (simp add: t upd_upd)
qed (use g in auto)

definition byte :: "ta_kind \<Rightarrow> nat \<Rightarrow> tval \<Rightarrow> nat" where
  "byte K col x = nat (ByteAtCol (elem K x) col)"

lemma byte_less: "byte K col x < 256"
  using ByteAtCol_bounds [of "elem K x" col] by (auto simp: byte_def)

lemma wp_SortByColumn:
  assumes len: "len = int (length (view s))" and val: "\<forall>x \<in> set (view s). x \<noteq> UndefT"
    and aux: "length aux = length (view s)" and counts: "length counts = 257"
    and Q: "\<And>aux' counts'. length aux' = length (view s) \<Longrightarrow> length counts' = 257 \<Longrightarrow>
      Q (aux', counts') (upd (sort_key (byte K col) (view s)) s)"
  shows "wp (SortByColumn K A len aux col counts) Q E s"
proof -
  let ?ky = "byte K col" and ?xs = "view s"
  have b1: "nat (ByteAtCol (elem K x) col + 1) = Suc (?ky x)" for x
    using ByteAtCol_bounds [of "elem K x" col] by (simp add: byte_def nat_add_distrib)
  define tl where "tl = tally ?ky ?xs (replicate 257 0)"
  have tl: "length tl = 257" "\<And>k. k < 256 \<Longrightarrow> tl ! Suc k = int (cnt ?ky ?xs k)" "tl ! 0 = 0"
    using tally_nth(1) [of ?xs ?ky "replicate 257 0"] tally_nth(2) [of ?xs ?ky "replicate 257 0" 0]
      tally_nth(2) [of ?xs ?ky "replicate 257 0" "Suc k" for k] byte_less by (simp_all add: tl_def)
  have copy: "for_each 0 len (\<lambda>i. wr A i (local_rd UndefT (sort_key ?ky ?xs) i)) s = (Ret (), upd (sort_key ?ky ?xs) s)"
  proof (rule write_loop [OF len])
    fix i t
    assume i: "0 \<le> i" "i < len" and t: "t = upd (take (nat i) (sort_key ?ky ?xs) @ drop (nat i) ?xs) s"
    have n: "nat i < length (sort_key ?ky ?xs)" using i len by simp
    have "sort_key ?ky ?xs ! nat i \<in> set ?xs" using nth_mem [OF n] by simp
    moreover have "view t = take (nat i) (sort_key ?ky ?xs) @ drop (nat i) ?xs"
      unfolding t by (rule view_upd) (use n in simp)
    ultimately show "wr A i (local_rd UndefT (sort_key ?ky ?xs) i) t
      = (Ret (), upd ((take (nat i) (sort_key ?ky ?xs) @ drop (nat i) ?xs)[nat i := sort_key ?ky ?xs ! nat i]) s)"
      using wr_in [of i t "sort_key ?ky ?xs ! nat i"] val i n len by (simp add: local_rd_def t upd_upd)
  qed (use val in auto)
  have dist: "wp (for_acc 0 len (\<lambda>i (aux, counts).
            bnd (rd A i) (\<lambda>val.
            let b = ByteAtCol (elem K val) col;
                k = counts ! nat b
            in ret (define_at UndefT aux (nat k) val, counts[nat b := k + 1]))) (aux, cs))
     (\<lambda>(aux, counts). wp (sq (for_each 0 len (\<lambda>i. wr A i (local_rd UndefT aux i))) (ret (aux, counts))) Q E) E s"
    if cs: "length cs = 257" "\<forall>k < 256. cs ! k = int (below ?ky ?xs k)" for cs
  proof (rule read_loop [OF len, where f = "place UndefT ?ky"])
    fix i and c :: "tval list \<times> int list" assume i: "0 \<le> i" "i < len"
    obtain a cs where c: "c = (a, cs)" by fastforce
    show "(case c of (aux, counts) \<Rightarrow> bnd (rd A i) (\<lambda>val.
        let b = ByteAtCol (elem K val) col; k = counts ! nat b
        in ret (define_at UndefT aux (nat k) val, counts[nat b := k + 1]))) s = (Ret (place UndefT ?ky (?xs ! nat i) c), s)"
      using rd_in [of i s] i len by (simp add: c run_simps place_def bump_def byte_def Let_def)
  next
    obtain aux' cs' where f: "fold (place UndefT ?ky) ?xs (aux, cs) = (aux', cs')" by fastforce
    have "aux' = sort_key ?ky ?xs \<and> length cs' = 257"
      by (rule place_sorts [OF _ aux cs f]) (use byte_less in blast)
    with f copy show "(\<lambda>(aux, counts). wp (sq (for_each 0 len (\<lambda>i. wr A i (local_rd UndefT aux i))) (ret (aux, counts))) Q E)
        (fold (place UndefT ?ky) ?xs (aux, cs)) s"
      using Q [of "sort_key ?ky ?xs" cs'] by (simp add: wp_def run_simps) (simp add: ret_def)
  qed
  have sums: "wp (for_acc 0 256 (\<lambda>r counts.
            ret (counts[nat (r + 1) := counts ! nat (r + 1) + counts ! nat r])) tl)
      (\<lambda>cs t. t = s \<and> length cs = 257 \<and> (\<forall>k < 256. cs ! k = int (below ?ky ?xs k))) E s"
  proof (rule wp_for_acc [where I = "\<lambda>r cs t. t = s \<and> length cs = 257
      \<and> (\<forall>k. int k \<le> r \<longrightarrow> cs ! k = int (below ?ky ?xs k)) \<and> (\<forall>k < 256. r \<le> int k \<longrightarrow> cs ! Suc k = int (cnt ?ky ?xs k))"])
    fix r cs t
    assume r: "0 \<le> r" "r < 256" and I: "t = s \<and> length cs = 257
      \<and> (\<forall>k. int k \<le> r \<longrightarrow> cs ! k = int (below ?ky ?xs k)) \<and> (\<forall>k < 256. r \<le> int k \<longrightarrow> cs ! Suc k = int (cnt ?ky ?xs k))"
    obtain n where n: "r = int n" "n < 256" using r zero_le_imp_eq_int [of r] by auto
    have "cs ! Suc n + cs ! n = int (below ?ky ?xs (Suc n))" using I n by (simp add: below_Suc)
    then show "wp (ret (cs[nat (r + 1) := cs ! nat (r + 1) + cs ! nat r])) (\<lambda>cs t. t = s \<and> length cs = 257
      \<and> (\<forall>k. int k \<le> r + 1 \<longrightarrow> cs ! k = int (below ?ky ?xs k))
      \<and> (\<forall>k < 256. r + 1 \<le> int k \<longrightarrow> cs ! Suc k = int (cnt ?ky ?xs k))) E t"
      using I n by (auto simp: wp_ret nat_add_distrib nth_list_update le_less)
  qed (use tl in \<open>auto simp: le_less\<close>)
  have tallied: "wp (for_acc 0 len (\<lambda>i counts.
            bnd (rd A i) (\<lambda>val.
            let b = ByteAtCol (elem K val) col in
            ret (counts[nat (b + 1) := counts ! nat (b + 1) + 1]))) (replicate 257 0))
      (\<lambda>cs t. t = s \<and> cs = tl) E s"
    by (rule read_loop [OF len, where f = "\<lambda>x. bump (Suc (?ky x))"])
      (use rd_in [of _ s] len in \<open>auto simp: run_simps Let_def b1 bump_def tl_def tally_def\<close>)
  have zero: "wp (for_acc 0 257 (\<lambda>r counts. ret (counts[nat r := 0])) counts) (\<lambda>cs t. t = s \<and> cs = replicate 257 (0 :: int)) E s"
  proof (rule wp_for_acc [where I = "\<lambda>r cs t. t = s \<and> length cs = 257 \<and> (\<forall>k < nat r. cs ! k = 0)"])
    fix cs t assume "t = s \<and> length cs = 257 \<and> (\<forall>k < nat 257. cs ! k = (0 :: int))"
    then show "t = s \<and> cs = replicate 257 0" by (auto intro: nth_equalityI)
  qed (use counts in \<open>auto simp: wp_ret nth_list_update nat_add_distrib less_Suc_eq\<close>)
  show ?thesis
    unfolding SortByColumn_def wp_sq [of "asrt _ _"] wp_asrt wp_bnd
  proof (intro conjI counts, rule wp_mono [OF zero], elim conjE, simp only:,
      rule wp_mono [OF tallied], elim conjE, simp only:, rule wp_mono [OF sums], elim conjE, simp only:)
    fix cs assume "length cs = 257" "\<forall>k < 256. cs ! k = int (below ?ky ?xs k)"
    from dist [OF this] show "wp (for_acc 0 len (\<lambda>i (aux, counts).
            bnd (rd A i) (\<lambda>val.
            let b = ByteAtCol (elem K val) col;
                k = counts ! nat b
            in ret (define_at UndefT aux (nat k) val, counts[nat b := k + 1]))) (aux, cs))
     (\<lambda>a. wp (case a of (aux, counts) \<Rightarrow> sq (for_each 0 len (\<lambda>i. wr A i (local_rd UndefT aux i))) (ret (aux, counts))) Q E) E s"
      by (rule wp_mono) auto
  qed
qed

end

end
