(* ===== verification/SortMergeCorrect.thy ===== *)
theory SortMergeCorrect
  imports SortMerge
begin

text \<open>
  Correctness of the merge sorts: \<open>Merge\<close> writes the stable merge of two sorted slices, a pass
  doubles the length of the sorted windows, and the whole computation is the stable sort.
\<close>

section \<open>Lists\<close>

definition filled :: "'a list \<Rightarrow> nat \<Rightarrow> 'a list \<Rightarrow> 'a list" where
  "filled ys st zs = take st ys @ zs @ drop (st + length zs) ys"

definition room :: "bool \<Rightarrow> 'a list \<Rightarrow> nat \<Rightarrow> nat \<Rightarrow> bool" where
  "room grow ys st n = (st \<le> length ys \<and> (grow \<or> st + n \<le> length ys))"

lemma filled_Nil [simp]: "filled ys st [] = ys"
  by (simp add: filled_def)

lemma length_filled: "room False ys st (length zs) \<Longrightarrow> length (filled ys st zs) = length ys"
  by (simp add: filled_def room_def)

lemma filled_snoc:
  assumes "st \<le> length ys"
  shows "take (st + length zs) (filled ys st zs) @ x # drop (Suc (st + length zs)) (filled ys st zs)
    = filled ys st (zs @ [x])"
  using assms by (simp add: filled_def add.commute)

lemma filled_filled:
  "st \<le> length ys \<Longrightarrow> filled (filled ys st zs) (st + length zs) ws = filled ys st (zs @ ws)"
  by (simp add: filled_def add.commute add.left_commute)

lemma sort_append_merge:
  "Sorting_Algorithms.sort c (xs @ ys)
   = Sorting_Algorithms.merge c (Sorting_Algorithms.sort c xs) (Sorting_Algorithms.sort c ys)"
proof (rule sort_eqI)
  show "mset (xs @ ys) = mset (Sorting_Algorithms.merge c (Sorting_Algorithms.sort c xs) (Sorting_Algorithms.sort c ys))"
    by (simp add: mset_merge)
  show "Sorting_Algorithms.sorted c (Sorting_Algorithms.merge c (Sorting_Algorithms.sort c xs) (Sorting_Algorithms.sort c ys))"
    by (simp add: sorted_merge)
next
  fix y
  show "filter (\<lambda>z. compare c y z = Equiv) (xs @ ys)
    = filter (\<lambda>z. compare c y z = Equiv)
        (Sorting_Algorithms.merge c (Sorting_Algorithms.sort c xs) (Sorting_Algorithms.sort c ys))"
    by (simp add: filter_merge stable_sort merge_stable_segments)
qed

text \<open>When the seam is in order the merge is the concatenation (the test at the start of \<open>Merge\<close>).\<close>

lemma merge_at_seam:
  assumes "Sorting_Algorithms.sorted c (xs @ [x])" "Sorting_Algorithms.sorted c (y # ys)" "compare c x y \<noteq> Greater"
  shows "Sorting_Algorithms.merge c (xs @ [x]) (y # ys) = xs @ x # y # ys"
proof -
  have "compare c a b \<noteq> Greater" if "a \<in> set (xs @ [x])" "b \<in> set (y # ys)" for a b
  proof -
    have "a = x \<or> compare c a x \<noteq> Greater"
      using that(1) assms(1) sorted_append_iff [of c xs "[x]"] by auto
    moreover have "b = y \<or> compare c y b \<noteq> Greater"
      using that(2) assms(2) by (auto dest: sorted_Cons_imp_not_less)
    ultimately show ?thesis using assms(3) by (metis compare.trans_not_greater)
  qed
  then have "Sorting_Algorithms.merge c (xs @ [x]) (y # ys) = (xs @ [x]) @ (y # ys)"
    by (rule merge_eq_appendI)
  then show ?thesis by simp
qed

section \<open>One merge\<close>

text \<open>
  The two arrays a merge works on: \<open>L\<close> is read, \<open>R\<close> is written, at positions below its length
  or, for a growing array, at its end; writing \<open>R\<close> leaves \<open>L\<close> alone.
\<close>

locale merge_pair =
  fixes L R :: "('s, 'e, 'a) arrayI"
    and lview rview :: "'s \<Rightarrow> 'a list"
    and rupd :: "'a list \<Rightarrow> 's \<Rightarrow> 's"
    and valid :: "'a \<Rightarrow> bool"
    and grow :: bool
  assumes rdL: "0 \<le> i \<Longrightarrow> i < int (length (lview s)) \<Longrightarrow> rd L i s = (Ret (lview s ! nat i), s)"
    and wrR: "0 \<le> k \<Longrightarrow> k < int (length (rview s)) \<or> grow \<and> k = int (length (rview s)) \<Longrightarrow> valid x \<Longrightarrow>
      wr R k x s = (Ret (), rupd (take (nat k) (rview s) @ x # drop (Suc (nat k)) (rview s)) s)"
    and lview_rupd: "lview (rupd ys s) = lview s"
    and rview_rupd: "grow \<or> length ys = length (rview s) \<Longrightarrow> rview (rupd ys s) = ys"
    and rupd_rupd: "rupd zs (rupd ys s) = rupd zs s"
    and rupd_rview: "rupd (rview s) s = s"
begin

lemma rd_at: "lview s = us @ x # vs \<Longrightarrow> i = int (length us) \<Longrightarrow> rd L i s = (Ret x, s)"
  using rdL [of i s] by simp

lemma rview_filled:
  "room grow (rview s) st (length zs) \<Longrightarrow> rview (rupd (filled (rview s) st zs) s) = filled (rview s) st zs"
  by (rule rview_rupd) (auto simp: room_def intro: length_filled)

lemma wr_next:
  assumes "room grow (rview s) st (Suc (length zs))" and "valid x" and "k = int (st + length zs)"
  shows "wr R k x (rupd (filled (rview s) st zs) s) = (Ret (), rupd (filled (rview s) st (zs @ [x])) s)"
proof -
  have rm: "room grow (rview s) st (length zs)" using assms(1) by (auto simp: room_def)
  let ?s = "rupd (filled (rview s) st zs) s"
  have v: "rview ?s = filled (rview s) st zs" using rm by (rule rview_filled)
  have "k < int (length (filled (rview s) st zs)) \<or> grow \<and> k = int (length (filled (rview s) st zs))"
    using assms(1,3) by (auto simp: room_def filled_def)
  then have "wr R k x ?s = (Ret (), rupd (take (nat k) (filled (rview s) st zs) @ x # drop (Suc (nat k)) (filled (rview s) st zs)) ?s)"
    using wrR [of k ?s x] assms(2,3) v by simp
  also have "take (nat k) (filled (rview s) st zs) @ x # drop (Suc (nat k)) (filled (rview s) st zs) = filled (rview s) st (zs @ [x])"
    using assms(1,3) filled_snoc [of st "rview s" zs x] by (simp add: room_def nat_int_add)
  finally show ?thesis by (simp add: rupd_rupd)
qed

lemma drain:
  "lview s = us @ xs @ vs \<Longrightarrow> list_all valid xs \<Longrightarrow> i = int (length us) \<Longrightarrow> bound = i + int (length xs) - 1 \<Longrightarrow>
   k = int (st + length zs) \<Longrightarrow> room grow (rview s) st (length (zs @ xs)) \<Longrightarrow>
   Merge_drain L R bound i k (rupd (filled (rview s) st zs) s)
   = (Ret (k + int (length xs)), rupd (filled (rview s) st (zs @ xs)) s)"
proof (induction xs arbitrary: us i k zs)
  case Nil
  then show ?case by (simp add: Merge_drain_done run_simps)
next
  case (Cons x xs)
  let ?s = "rupd (filled (rview s) st zs) s"
  have r: "rd L i ?s = (Ret x, ?s)"
    using Cons.prems(1,3) by (intro rd_at [of ?s us x "xs @ vs"]) (simp_all add: lview_rupd)
  have w: "wr R k x ?s = (Ret (), rupd (filled (rview s) st (zs @ [x])) s)"
    using Cons.prems by (intro wr_next) (auto simp: room_def)
  have "Merge_drain L R bound (i + 1) (k + 1) (rupd (filled (rview s) st (zs @ [x])) s)
    = (Ret (k + 1 + int (length xs)), rupd (filled (rview s) st ((zs @ [x]) @ xs)) s)"
    by (rule Cons.IH [of "us @ [x]"]) (use Cons.prems in auto)
  moreover have "i \<le> bound" using Cons.prems(4) by simp
  ultimately show ?case
    using r w by (simp add: Merge_drain.simps [of _ _ _ i] run_simps)
qed

lemma copy_loop:
  "lview s = us @ xs @ vs \<Longrightarrow> list_all valid xs \<Longrightarrow> i = int (length us) \<Longrightarrow> n = i + int (length xs) \<Longrightarrow>
   i = int (st + length zs) \<Longrightarrow> room grow (rview s) st (length (zs @ xs)) \<Longrightarrow>
   for_each i n (\<lambda>i. bnd (rd L i) (wr R i)) (rupd (filled (rview s) st zs) s)
   = (Ret (), rupd (filled (rview s) st (zs @ xs)) s)"
proof (induction xs arbitrary: us i zs)
  case Nil
  then show ?case by (simp add: for_each_done run_simps)
next
  case (Cons x xs)
  let ?s = "rupd (filled (rview s) st zs) s"
  have r: "rd L i ?s = (Ret x, ?s)"
    using Cons.prems(1,3) by (intro rd_at [of ?s us x "xs @ vs"]) (simp_all add: lview_rupd)
  have w: "wr R i x ?s = (Ret (), rupd (filled (rview s) st (zs @ [x])) s)"
    using Cons.prems by (intro wr_next) (auto simp: room_def)
  have "for_each (i + 1) n (\<lambda>i. bnd (rd L i) (wr R i)) (rupd (filled (rview s) st (zs @ [x])) s)
    = (Ret (), rupd (filled (rview s) st ((zs @ [x]) @ xs)) s)"
    by (rule Cons.IH [of "us @ [x]"]) (use Cons.prems in auto)
  moreover have "i < n" using Cons.prems(4) by simp
  ultimately show ?case
    using r w by (simp add: for_each_step run_simps)
qed

text \<open>The main loop of \<open>Merge\<close> and the two loops that empty out what remains.\<close>

lemma merge_loops:
  assumes cmp: "comparefn_for c valid cmp"
  shows "lview s = us @ xs @ ts @ ys @ vs \<Longrightarrow> list_all valid xs \<Longrightarrow> list_all valid ys \<Longrightarrow>
   i = int (length us) \<Longrightarrow> mid = i + int (length xs) - 1 \<Longrightarrow>
   j = i + int (length xs + length ts) \<Longrightarrow> end' = j + int (length ys) - 1 \<Longrightarrow>
   k = int (st + length zs) \<Longrightarrow> room grow (rview s) st (length (zs @ xs @ ys)) \<Longrightarrow>
   bnd (Merge_while L R mid end' cmp i j k) (\<lambda>(i, j, k).
     bnd (Merge_drain L R mid i k) (\<lambda>k.
     bnd (Merge_drain L R end' j k) (\<lambda>_. ret ()))) (rupd (filled (rview s) st zs) s)
   = (Ret (), rupd (filled (rview s) st (zs @ Sorting_Algorithms.merge c xs ys)) s)"
proof (induction xs ys arbitrary: us ts i j k zs rule: Sorting_Algorithms.merge.induct [where cmp = c])
  case (1 ys)
  have "Merge_drain L R end' j k (rupd (filled (rview s) st zs) s)
    = (Ret (k + int (length ys)), rupd (filled (rview s) st (zs @ ys)) s)"
    using "1.prems" by (intro drain [of s "us @ ts" ys vs]) simp_all
  with "1.prems" show ?case
    by (simp add: Merge_while_done Merge_drain_done run_simps)
next
  case (2 xs)
  have "Merge_drain L R mid i k (rupd (filled (rview s) st zs) s)
    = (Ret (k + int (length xs)), rupd (filled (rview s) st (zs @ xs)) s)"
    using "2.prems" by (intro drain [of s us xs "ts @ vs"]) simp_all
  with "2.prems" show ?case
    by (simp add: Merge_while_done Merge_drain_done run_simps)
next
  case (3 x xs y ys)
  let ?s = "rupd (filled (rview s) st zs) s"
  have lv: "lview ?s = us @ x # xs @ ts @ y # ys @ vs" using "3.prems"(1) by (simp add: lview_rupd)
  have rx: "rd L i ?s = (Ret x, ?s)" by (rule rd_at [OF lv "3.prems"(4)])
  have ry: "rd L j ?s = (Ret y, ?s)"
    using lv "3.prems"(4,6) by (intro rd_at [of ?s "us @ x # xs @ ts" y "ys @ vs"]) simp_all
  have val: "valid x" "valid y" using "3.prems"(2,3) by simp_all
  obtain n where n: "cmp x y ?s = (Ret n, ?s)" "num_le n (Fin 0) = (compare c x y \<noteq> Greater)"
    using comparefn_forD [OF cmp val] by metis
  have w: "wr R k z ?s = (Ret (), rupd (filled (rview s) st (zs @ [z])) s)" if "valid z" for z
    using "3.prems" that by (intro wr_next) (auto simp: room_def)
  have in_range: "i \<le> mid" "j \<le> end'" using "3.prems" by simp_all
  show ?case
  proof (cases "compare c x y = Greater")
    case True
    have "bnd (Merge_while L R mid end' cmp i (j + 1) (k + 1)) (\<lambda>(i, j, k).
        bnd (Merge_drain L R mid i k) (\<lambda>k.
        bnd (Merge_drain L R end' j k) (\<lambda>_. ret ()))) (rupd (filled (rview s) st (zs @ [y])) s)
      = (Ret (), rupd (filled (rview s) st ((zs @ [y]) @ Sorting_Algorithms.merge c (x # xs) ys)) s)"
      by (rule "3.IH"(1) [OF True, of us "ts @ [y]"]) (use "3.prems" in \<open>simp_all add: add.assoc\<close>)
    with True rx ry n w [OF val(2)] in_range show ?thesis
      by (simp add: Merge_while_step bnd_assoc sq_def run_simps)
  next
    case False
    have "bnd (Merge_while L R mid end' cmp (i + 1) j (k + 1)) (\<lambda>(i, j, k).
        bnd (Merge_drain L R mid i k) (\<lambda>k.
        bnd (Merge_drain L R end' j k) (\<lambda>_. ret ()))) (rupd (filled (rview s) st (zs @ [x])) s)
      = (Ret (), rupd (filled (rview s) st ((zs @ [x]) @ Sorting_Algorithms.merge c xs (y # ys))) s)"
      by (rule "3.IH"(2) [OF False, of "us @ [x]" ts]) (use "3.prems" in \<open>simp_all add: add.assoc\<close>)
    with False rx ry n w [OF val(1)] in_range show ?thesis
      by (simp add: Merge_while_step bnd_assoc sq_def run_simps)
  qed
qed

text \<open>
  \<open>Merge\<close> of the sorted slices \<open>[start..mid]\<close> and \<open>[mid + 1..end]\<close>; \<open>mid\<close> may lie beyond
  \<open>end\<close>, and then the one slice is copied.
\<close>

lemma Merge_correct:
  assumes cmp: "comparefn_for c valid cmp"
    and v: "lview s = us @ Sorting_Algorithms.sort c xs @ Sorting_Algorithms.sort c ys @ vs"
    and val: "list_all valid (xs @ ys)"
    and start: "start = int (length us)" and en: "end' = start + int (length (xs @ ys)) - 1"
    and mid: "mid = start + int (length xs) - 1 \<or> ys = [] \<and> end' \<le> mid"
    and xs: "xs \<noteq> []"
    and rm: "room grow (rview s) (length us) (length (xs @ ys))"
  shows "Merge L R start mid end' cmp s
    = (Ret (), rupd (filled (rview s) (length us) (Sorting_Algorithms.sort c (xs @ ys))) s)"
proof -
  let ?xs = "Sorting_Algorithms.sort c xs" and ?ys = "Sorting_Algorithms.sort c ys"
  have val': "list_all valid ?xs" "list_all valid ?ys" using val by (auto simp: list_all_iff)
  have s0: "rupd (filled (rview s) (length us) []) s = s" by (simp add: rupd_rview)
  have copy: "for_each start (end' + 1) (\<lambda>i. bnd (rd L i) (wr R i)) s
      = (Ret (), rupd (filled (rview s) (length us) (?xs @ ?ys)) s)"
    using copy_loop [of s us "?xs @ ?ys" vs start "end' + 1" "length us" "[]"] v val' start en rm s0
    by simp
  show ?thesis
  proof (cases "ys = []")
    case True
    with mid en have "end' \<le> mid" by auto
    with copy True show ?thesis by (simp add: Merge_def run_simps)
  next
    case False
    with mid have mid: "mid = start + int (length xs) - 1" by simp
    obtain ps x where ps: "?xs = ps @ [x]" using xs by (metis length_sort length_0_conv rev_exhaust)
    obtain y qs where qs: "?ys = y # qs" using False by (metis length_sort length_0_conv list.exhaust)
    have lx: "length xs = Suc (length ps)" using ps by (metis length_append_singleton length_sort)
    have rx: "rd L mid s = (Ret x, s)"
      using v ps mid start lx by (intro rd_at [of s "us @ ps" x "?ys @ vs"]) simp_all
    have ry: "rd L (mid + 1) s = (Ret y, s)"
      using v qs mid start by (intro rd_at [of s "us @ ?xs" y "qs @ vs"]) simp_all
    have vxy: "valid x" "valid y" using val' ps qs by simp_all
    obtain n where n: "cmp x y s = (Ret n, s)" "num_le n (Fin 0) = (compare c x y \<noteq> Greater)"
      using comparefn_forD [OF cmp vxy] by metis
    have "\<not> end' \<le> mid" using en mid False by simp
    note early = this rx ry n
    show ?thesis
    proof (cases "compare c x y = Greater")
      case True
      have "bnd (Merge_while L R mid end' cmp start (mid + 1) start) (\<lambda>(i, j, k).
          bnd (Merge_drain L R mid i k) (\<lambda>k.
          bnd (Merge_drain L R end' j k) (\<lambda>_. ret ()))) s
        = (Ret (), rupd (filled (rview s) (length us) (Sorting_Algorithms.merge c ?xs ?ys)) s)"
        using merge_loops [OF cmp, of s us ?xs "[]" ?ys vs start mid "mid + 1" end' start "length us" "[]"]
          v val' start en mid rm s0 by simp
      with True early show ?thesis by (simp add: Merge_def run_simps sort_append_merge)
    next
      case False
      have "Sorting_Algorithms.sort c (xs @ ys) = ?xs @ ?ys"
        using merge_at_seam [of c ps x y qs] False ps qs sorted_sort [of c xs] sorted_sort [of c ys]
        by (simp add: sort_append_merge)
      with False early copy show ?thesis by (simp add: Merge_def run_simps)
    qed
  qed
qed

end

section \<open>Sorted windows\<close>

text \<open>The list with each window of \<open>w\<close> elements sorted: what the array holds between passes.\<close>

function windows :: "'a comparator \<Rightarrow> nat \<Rightarrow> 'a list \<Rightarrow> 'a list" where
  "windows c w xs =
     (if w = 0 \<or> xs = [] then xs
      else Sorting_Algorithms.sort c (take w xs) @ windows c w (drop w xs))"
  by pat_completeness auto
termination
  by (relation "measure (\<lambda>(c, w, xs). length xs)") auto

declare windows.simps [simp del]

lemma windows_Nil [simp]: "windows c w [] = []"
  by (simp add: windows.simps)

lemma windows_rec: "0 < w \<Longrightarrow> windows c w xs = Sorting_Algorithms.sort c (take w xs) @ windows c w (drop w xs)"
  by (cases "xs = []") (simp_all add: windows.simps [of c w xs])

lemma length_windows [simp]: "length (windows c w xs) = length xs"
  by (induction c w xs rule: windows.induct) (subst windows.simps, auto simp: min_def)

lemma set_windows [simp]: "set (windows c w xs) = set xs"
proof (induction c w xs rule: windows.induct)
  case (1 c w xs)
  show ?case
  proof (cases "w = 0 \<or> xs = []")
    case False
    with 1 have "set (windows c w xs) = set (take w xs) \<union> set (drop w xs)"
      by (simp add: windows.simps [of c w xs])
    then show ?thesis by (metis append_take_drop_id set_append)
  qed (simp add: windows.simps [of c w xs])
qed

lemma windows_whole: "0 < w \<Longrightarrow> length xs \<le> w \<Longrightarrow> windows c w xs = Sorting_Algorithms.sort c xs"
  by (simp add: windows_rec)

lemma windows_two:
  "0 < w \<Longrightarrow> windows c w xs = Sorting_Algorithms.sort c (take w xs)
     @ Sorting_Algorithms.sort c (take w (drop w xs)) @ windows c w (drop (2 * w) xs)"
  using windows_rec [of w c xs] windows_rec [of w c "drop w xs"] by (simp add: mult_2)

lemma windows_double:
  "0 < w \<Longrightarrow> windows c (2 * w) xs
   = Sorting_Algorithms.sort c (take w xs @ take w (drop w xs)) @ windows c (2 * w) (drop (2 * w) xs)"
  using windows_rec [of "2 * w" c xs] by (simp add: mult_2 take_add)

context indexed_array begin

text \<open>\<open>InsertionSort\<close> on the ranges of four.\<close>

lemma sort_windows_from:
  assumes cmp: "comparefn_for c valid cmp"
  shows "view s = us @ xs \<Longrightarrow> list_all valid xs \<Longrightarrow> k = int (length us) \<Longrightarrow> n = k + int (length xs) \<Longrightarrow>
    for_step k 4 (n - 1) (\<lambda>start. InsertionSort A start (min (start + 4 - 1) (n - 1)) cmp) s
    = (Ret (), upd (us @ windows c 4 xs) s)"
proof (induction "length xs" arbitrary: xs us k s rule: less_induct)
  case less
  show ?case
  proof (cases "length xs \<le> 1")
    case True
    then have "windows c 4 xs = xs" by (cases xs) (simp_all add: windows_rec)
    with True less.prems upd_view [of s] show ?thesis by (simp add: for_step_done run_simps)
  next
    case False
    let ?ys = "take 4 xs" and ?zs = "drop 4 xs"
    let ?us = "us @ Sorting_Algorithms.sort c ?ys"
    let ?s = "upd (?us @ ?zs) s"
    have ins: "InsertionSort A k (min (k + 4 - 1) (n - 1)) cmp s = (Ret (), ?s)"
    proof -
      have "view s = us @ ?ys @ ?zs" using less.prems(1) by simp
      moreover have "list_all valid ?ys" using less.prems(2) by (auto simp: list_all_iff dest: in_set_takeD)
      moreover have "min (k + 4 - 1) (n - 1) = k + int (length ?ys) - 1"
        using less.prems(4) by (simp add: min_def)
      ultimately show ?thesis
        using InsertionSort_slice [OF cmp, of s us ?ys ?zs k "min (k + 4 - 1) (n - 1)"] less.prems(3)
        by (simp only: append_assoc)
    qed
    have v: "view ?s = ?us @ ?zs" using less.prems(1) by (simp add: view_upd)
    have rest: "for_step (k + 4) 4 (n - 1) (\<lambda>start. InsertionSort A start (min (start + 4 - 1) (n - 1)) cmp) ?s
        = (Ret (), upd (?us @ windows c 4 ?zs) ?s)"
    proof (cases "4 \<le> length xs")
      case True
      show ?thesis
        by (rule less.hyps [OF _ v]) (use less.prems True in \<open>auto simp: list_all_iff dest: in_set_dropD\<close>)
    next
      case short: False
      then have "?zs = []" by simp
      with short False less.prems(3,4) show ?thesis
        by (simp add: for_step_done run_simps upd_upd)
    qed
    have "k < n - 1" using False less.prems(4) by simp
    with ins rest show ?thesis
      by (simp add: for_step_step run_simps upd_upd windows_rec [of 4 c xs])
  qed
qed

lemma sort_windows_correct:
  assumes "comparefn_for c valid cmp" and "list_all valid (view s)" and "n = int (length (view s))"
  shows "sort_windows A n cmp s = (Ret (), upd (windows c 4 (view s)) s)"
  using sort_windows_from [OF assms(1), of s "[]" "view s" 0 n] assms(2,3)
  by (simp add: sort_windows_def)

end

context merge_pair begin

text \<open>One pass: windows of \<open>w\<close> in \<open>L\<close> become windows of \<open>2 * w\<close> in \<open>R\<close>.\<close>

lemma one_pass:
  assumes cmp: "comparefn_for c valid cmp" and w: "0 < w"
  shows "lview s = us @ windows c w xs \<Longrightarrow> list_all valid xs \<Longrightarrow> length zs = length us \<Longrightarrow>
    k = int (length us) \<Longrightarrow> n = k + int (length xs) \<Longrightarrow> room grow (rview s) 0 (length (us @ xs)) \<Longrightarrow>
    for_step k (2 * int w) n (\<lambda>start.
      let mid = start + int w - 1; end' = min (start + 2 * int w - 1) (n - 1)
      in Merge L R start mid end' cmp) (rupd (filled (rview s) 0 zs) s)
    = (Ret (), rupd (filled (rview s) 0 (zs @ windows c (2 * w) xs)) s)"
proof (induction "length xs" arbitrary: xs us zs k rule: less_induct)
  case less
  show ?case
  proof (cases "xs = []")
    case True
    with less.prems show ?thesis by (simp add: for_step_done run_simps)
  next
    case False
    let ?xs = "take w xs" and ?ys = "take w (drop w xs)" and ?rest = "drop (2 * w) xs"
    let ?t = "rupd (filled (rview s) 0 zs) s"
    let ?zs = "zs @ Sorting_Algorithms.sort c (?xs @ ?ys)"
    let ?last = "min (k + 2 * int w - 1) (n - 1)"
    have rm: "room grow (rview s) 0 (length zs)" using less.prems(3,6) by (auto simp: room_def)
    have rt: "rview ?t = filled (rview s) 0 zs" using rm by (rule rview_filled)
    have lt: "lview ?t = us @ Sorting_Algorithms.sort c ?xs @ Sorting_Algorithms.sort c ?ys @ windows c w ?rest"
      using less.prems(1) windows_two [OF w, of c xs] by (simp add: lview_rupd)
    have val: "list_all valid (?xs @ ?ys)" "list_all valid ?rest"
      using less.prems(2) by (auto simp: list_all_iff dest: in_set_takeD in_set_dropD)
    have len: "length (?xs @ ?ys) = min (2 * w) (length xs)" by simp
    have mrg: "Merge L R k (k + int w - 1) ?last cmp ?t
        = (Ret (), rupd (filled (rview ?t) (length us) (Sorting_Algorithms.sort c (?xs @ ?ys))) ?t)"
    proof (rule Merge_correct [OF cmp lt val(1) less.prems(4)])
      show "?last = k + int (length (?xs @ ?ys)) - 1" using len less.prems(5) by (simp add: min_def)
      show "k + int w - 1 = k + int (length ?xs) - 1 \<or> ?ys = [] \<and> ?last \<le> k + int w - 1"
        using less.prems(5) by (simp add: min_def)
      show "?xs \<noteq> []" using False w by simp
      show "room grow (rview ?t) (length us) (length (?xs @ ?ys))"
        using less.prems(3,6) len rm rt by (auto simp: room_def filled_def)
    qed
    have t': "rupd (filled (rview ?t) (length us) (Sorting_Algorithms.sort c (?xs @ ?ys))) ?t
        = rupd (filled (rview s) 0 ?zs) s"
      using filled_filled [of 0 "rview s" zs "Sorting_Algorithms.sort c (?xs @ ?ys)"] rt less.prems(3)
      by (simp add: rupd_rupd)
    have rest: "for_step (k + 2 * int w) (2 * int w) n (\<lambda>start.
          let mid = start + int w - 1; end' = min (start + 2 * int w - 1) (n - 1)
          in Merge L R start mid end' cmp) (rupd (filled (rview s) 0 ?zs) s)
        = (Ret (), rupd (filled (rview s) 0 (?zs @ windows c (2 * w) ?rest)) s)"
    proof (cases "2 * w \<le> length xs")
      case True
      have "lview s = (us @ Sorting_Algorithms.sort c ?xs @ Sorting_Algorithms.sort c ?ys) @ windows c w ?rest"
        using less.prems(1) windows_two [OF w, of c xs] by simp
      then show ?thesis
        by (rule less.hyps [rotated]) (use less.prems True w False val in \<open>auto simp: room_def\<close>)
    next
      case short: False
      with less.prems(5) show ?thesis by (simp add: for_step_done run_simps)
    qed
    have "k < n" using False less.prems(5) by simp
    with mrg t' rest w show ?thesis
      by (simp add: for_step_step run_simps Let_def windows_double [of w c xs])
  qed
qed

lemma one_pass_all:
  assumes cmp: "comparefn_for c valid cmp" and w: "0 < w"
    and "lview s = windows c w xs" and "list_all valid xs" and "n = int (length xs)"
    and "length (rview s) \<le> length xs" and "grow \<or> length (rview s) = length xs"
  shows "for_step 0 (2 * int w) n (\<lambda>start.
      let mid = start + int w - 1; end' = min (start + 2 * int w - 1) (n - 1)
      in Merge L R start mid end' cmp) s
    = (Ret (), rupd (windows c (2 * w) xs) s)"
proof -
  have "filled (rview s) 0 (windows c (2 * w) xs) = windows c (2 * w) xs"
    using assms(6) by (simp add: filled_def)
  moreover have "room grow (rview s) 0 (length xs)" using assms(7) by (auto simp: room_def)
  ultimately show ?thesis
    using one_pass [OF cmp w, of s "[]" xs "[]" 0 n] assms(3-5) by (simp add: rupd_rview)
qed

end

section \<open>All passes\<close>

text \<open>Two buffers, each of which can be merged into the other.\<close>

locale merge_buffers =
  fwd: merge_pair A0 A1 v0 v1 u1 valid grow + bwd: merge_pair A1 A0 v1 v0 u0 valid grow
  for A0 A1 :: "('s, 'e, 'a) arrayI" and v0 v1 u0 u1 valid grow +
  assumes commute: "u0 a (u1 b s) = u1 b (u0 a s)"
begin

lemma passes:
  assumes cmp: "comparefn_for c valid cmp" and val: "list_all valid xs" and n: "n = int (length xs)"
  shows "0 < w \<Longrightarrow> v0 s = windows c w xs \<Longrightarrow> length (v1 s) \<le> length xs \<Longrightarrow> grow \<or> length (v1 s) = length xs \<Longrightarrow>
      \<exists>a b d. merge_passes (int w) n cmp flip A0 A1 s = (Ret (flip \<noteq> d), u0 a (u1 b s))
        \<and> (if d then b else a) = Sorting_Algorithms.sort c xs
        \<and> length a = length xs \<and> (b = v1 s \<or> length b = length xs)"
    and "0 < w \<Longrightarrow> v1 s = windows c w xs \<Longrightarrow> length (v0 s) \<le> length xs \<Longrightarrow> grow \<or> length (v0 s) = length xs \<Longrightarrow>
      \<exists>a b d. merge_passes (int w) n cmp flip A1 A0 s = (Ret (flip \<noteq> d), u0 a (u1 b s))
        \<and> (if d then a else b) = Sorting_Algorithms.sort c xs
        \<and> length b = length xs \<and> (a = v0 s \<or> length a = length xs)"
proof (induction "length xs - w" arbitrary: w s flip rule: less_induct)
  case less
  {
    case 1
    show ?case
    proof (cases "w < length xs")
      case False
      then have "merge_passes (int w) n cmp flip A0 A1 s = (Ret flip, s)"
        using n by (simp add: merge_passes.simps [of "int w"] run_simps split: if_splits)
      moreover have "s = u0 (v0 s) (u1 (v1 s) s)" by (simp add: bwd.rupd_rview fwd.rupd_rview)
      moreover have "v0 s = Sorting_Algorithms.sort c xs" using 1(1,2) False by (simp add: windows_whole)
      ultimately have "merge_passes (int w) n cmp flip A0 A1 s = (Ret (flip \<noteq> False), u0 (v0 s) (u1 (v1 s) s))
        \<and> (if False then (v1 s) else (v0 s)) = Sorting_Algorithms.sort c xs \<and> length (v0 s) = length xs \<and> ((v1 s) = v1 s \<or> length (v1 s) = length xs)"
        by simp
      then show ?thesis by blast
    next
      case True
      let ?t = "u1 (windows c (2 * w) xs) s"
      have p: "for_step 0 (2 * int w) n (\<lambda>start.
          let mid = start + int w - 1; end' = min (start + 2 * int w - 1) (n - 1)
          in Merge A0 A1 start mid end' cmp) s = (Ret (), ?t)"
        by (rule fwd.one_pass_all [OF cmp 1(1,2) val n 1(3,4)])
      have vt: "v1 ?t = windows c (2 * w) xs" "v0 ?t = v0 s"
        using 1(4) fwd.rview_rupd [of "windows c (2 * w) xs" s] by (auto simp: fwd.lview_rupd)
      have dec: "length xs - 2 * w < length xs - w" and w2: "0 < 2 * w" using 1(1) True by simp_all
      have len: "length (v0 ?t) \<le> length xs" "grow \<or> length (v0 ?t) = length xs" using vt(2) 1(2) by simp_all
      obtain a b d where IH: "merge_passes (int (2 * w)) n cmp (\<not> flip) A1 A0 ?t = (Ret ((\<not> flip) \<noteq> d), u0 a (u1 b ?t))"
          "(if d then a else b) = Sorting_Algorithms.sort c xs" "length b = length xs"
          "a = v0 ?t \<or> length a = length xs"
        using less.hyps(2) [OF dec w2 vt(1) len, of "\<not> flip"] by blast
      have "length a = length xs" using IH(4) vt(2) 1(2) by auto
      with p IH 1(1) True n have "merge_passes (int w) n cmp flip A0 A1 s = (Ret (flip \<noteq> (\<not> d)), u0 a (u1 b s))
        \<and> (if (\<not> d) then b else a) = Sorting_Algorithms.sort c xs \<and> length a = length xs \<and> (b = v1 s \<or> length b = length xs)"
        by (simp add: merge_passes.simps [of "int w"] run_simps fwd.rupd_rupd split: if_splits)
      then show ?thesis by blast
    qed
  next
    case 2
    show ?case
    proof (cases "w < length xs")
      case False
      then have "merge_passes (int w) n cmp flip A1 A0 s = (Ret flip, s)"
        using n by (simp add: merge_passes.simps [of "int w"] run_simps split: if_splits)
      moreover have "s = u0 (v0 s) (u1 (v1 s) s)" by (simp add: bwd.rupd_rview fwd.rupd_rview)
      moreover have "v1 s = Sorting_Algorithms.sort c xs" using 2(1,2) False by (simp add: windows_whole)
      ultimately have "merge_passes (int w) n cmp flip A1 A0 s = (Ret (flip \<noteq> False), u0 (v0 s) (u1 (v1 s) s))
        \<and> (if False then (v0 s) else (v1 s)) = Sorting_Algorithms.sort c xs \<and> length (v1 s) = length xs \<and> ((v0 s) = v0 s \<or> length (v0 s) = length xs)"
        by simp
      then show ?thesis by blast
    next
      case True
      let ?t = "u0 (windows c (2 * w) xs) s"
      have p: "for_step 0 (2 * int w) n (\<lambda>start.
          let mid = start + int w - 1; end' = min (start + 2 * int w - 1) (n - 1)
          in Merge A1 A0 start mid end' cmp) s = (Ret (), ?t)"
        by (rule bwd.one_pass_all [OF cmp 2(1,2) val n 2(3,4)])
      have vt: "v0 ?t = windows c (2 * w) xs" "v1 ?t = v1 s"
        using 2(4) bwd.rview_rupd [of "windows c (2 * w) xs" s] by (auto simp: bwd.lview_rupd)
      have dec: "length xs - 2 * w < length xs - w" and w2: "0 < 2 * w" using 2(1) True by simp_all
      have len: "length (v1 ?t) \<le> length xs" "grow \<or> length (v1 ?t) = length xs" using vt(2) 2(2) by simp_all
      obtain a b d where IH: "merge_passes (int (2 * w)) n cmp (\<not> flip) A0 A1 ?t = (Ret ((\<not> flip) \<noteq> d), u0 a (u1 b ?t))"
          "(if d then b else a) = Sorting_Algorithms.sort c xs" "length a = length xs"
          "b = v1 ?t \<or> length b = length xs"
        using less.hyps(1) [OF dec w2 vt(1) len, of "\<not> flip"] by blast
      have "length b = length xs" using IH(4) vt(2) 2(2) by auto
      moreover have "u0 a (u1 b ?t) = u0 a (u1 b s)" by (metis commute bwd.rupd_rupd)
      ultimately have "merge_passes (int w) n cmp flip A1 A0 s = (Ret (flip \<noteq> (\<not> d)), u0 a (u1 b s))
        \<and> (if (\<not> d) then a else b) = Sorting_Algorithms.sort c xs \<and> length b = length xs \<and> (a = v0 s \<or> length a = length xs)"
        using p IH 2(1) True n by (simp add: merge_passes.simps [of "int w"] run_simps split: if_splits)
      then show ?thesis by blast
    qed
  }
qed

end

end
