(* ===== verification/SortMergeTop.thy ===== *)
theory SortMergeTop
  imports SortMergeCorrect
begin

text \<open>
  \<open>MergeSort\<close> and \<open>MergeSortTypedArray\<close> as wholes: the buffers of the model satisfy the array
  interfaces, so the passes apply to them; the array-like object that is sorted is an interface
  of its own (holes included).
\<close>

section \<open>The local buffers\<close>

fun dense_view :: "('a list \<times> 'a list) \<times> 's \<Rightarrow> 'a list" where
  "dense_view ((a, b), s) = a"

fun aux_view :: "('a list \<times> 'a list) \<times> 's \<Rightarrow> 'a list" where
  "aux_view ((a, b), s) = b"

fun dense_upd :: "'a list \<Rightarrow> ('a list \<times> 'a list) \<times> 's \<Rightarrow> ('a list \<times> 'a list) \<times> 's" where
  "dense_upd xs ((a, b), s) = ((xs, b), s)"

fun aux_upd :: "'a list \<Rightarrow> ('a list \<times> 'a list) \<times> 's \<Rightarrow> ('a list \<times> 'a list) \<times> 's" where
  "aux_upd xs ((a, b), s) = ((a, xs), s)"

lemma define_at_end:
  "k \<le> length xs \<Longrightarrow> define_at u xs k x = take k xs @ x # drop (Suc k) xs"
  by (auto simp: define_at_def upd_conv_take_nth_drop)

interpretation dense: indexed_array "dense_buf u :: (('a list \<times> 'a list) \<times> 's, 'e, 'a) arrayI"
    dense_view dense_upd valid for u valid
  by unfold_locales (auto simp: dense_buf_def local_rd_def define_at_def)

interpretation bufs: merge_buffers "dense_buf u :: (('a list \<times> 'a list) \<times> 's, 'e, 'a) arrayI" "aux_buf u"
    dense_view aux_view dense_upd aux_upd valid True for u valid
  by unfold_locales (auto simp: dense_buf_def aux_buf_def local_rd_def define_at_end)

section \<open>The array-like object\<close>

text \<open>An object with elements and holes at \<open>0 .. length - 1\<close>, seen as a list of options.\<close>

locale sparse_array =
  fixes S :: "('s, 'e, 'a) sparseI"
    and view :: "'s \<Rightarrow> 'a option list"
    and upd :: "'a option list \<Rightarrow> 's \<Rightarrow> 's"
  assumes has: "0 \<le> i \<Longrightarrow> i < int (length (view s)) \<Longrightarrow> has_at S i s = (Ret (view s ! nat i \<noteq> None), s)"
    and get: "0 \<le> i \<Longrightarrow> i < int (length (view s)) \<Longrightarrow> view s ! nat i = Some x \<Longrightarrow> get_at S i s = (Ret x, s)"
    and set: "0 \<le> i \<Longrightarrow> i < int (length (view s)) \<Longrightarrow>
      set_at S i x s = (Ret (), upd ((view s)[nat i := Some x]) s)"
    and del: "0 \<le> i \<Longrightarrow> i < int (length (view s)) \<Longrightarrow>
      del_at S i s = (Ret (), upd ((view s)[nat i := None]) s)"
    and view_upd: "length xs = length (view s) \<Longrightarrow> view (upd xs s) = xs"
    and upd_upd: "upd ys (upd xs s) = upd ys s"
    and upd_view: "upd (view s) s = s"

text \<open>The elements present, in order.\<close>

definition present :: "'a option list \<Rightarrow> 'a list" where
  "present xs = map the (filter (\<lambda>x. x \<noteq> None) xs)"

lemma present_simps [simp]:
  "present [] = []"
  "present (None # xs) = present xs"
  "present (Some x # xs) = x # present xs"
  "present (xs @ ys) = present xs @ present ys"
  by (simp_all add: present_def)

lemma length_present: "length (present xs) \<le> length xs"
  by (simp add: present_def)

lemma present_map_Some [simp]: "present (map Some xs) = xs"
  by (induction xs) simp_all

lemma present_eq_Nil: "present xs = [] \<Longrightarrow> xs = replicate (length xs) None"
proof (induction xs)
  case (Cons x xs)
  then show ?case by (cases x) simp_all
qed simp

text \<open>The specification of \<open>MergeSort\<close> on an array with holes.\<close>

definition sort_holes :: "'a comparator \<Rightarrow> 'a option list \<Rightarrow> 'a option list" where
  "sort_holes c xs = map Some (Sorting_Algorithms.sort c (present xs))
     @ replicate (length xs - length (present xs)) None"

context sparse_array begin

lemma dense_loop:
  "view s = us @ xs \<Longrightarrow> i = int (length us) \<Longrightarrow> n = int (length (us @ xs)) \<Longrightarrow>
   for_up i n (\<lambda>i denseList.
            bnd (has_at S i) (\<lambda>present.
            if present then bnd (get_at S i) (\<lambda>v. ret (Inl (denseList @ [v])))
            else ret (Inl denseList))) zs s
   = (Ret (Inl (zs @ present xs) :: 'a list + 'a list), s)"
proof (induction xs arbitrary: us i zs)
  case Nil
  then show ?case by (simp add: for_up_done run_simps)
next
  case (Cons x xs)
  have h: "has_at S i s = (Ret (x \<noteq> None), s)"
    using has [of i s] Cons.prems(1,2) by simp
  have IH: "for_up (i + 1) n (\<lambda>i denseList.
            bnd (has_at S i) (\<lambda>present.
            if present then bnd (get_at S i) (\<lambda>v. ret (Inl (denseList @ [v])))
            else ret (Inl denseList))) zs s
    = (Ret (Inl (zs @ present xs) :: 'a list + 'a list), s)" for zs
    using Cons.IH [of "us @ [x]" "i + 1" zs] Cons.prems by simp
  show ?case
  proof (cases x)
    case None
    with h IH Cons.prems(2,3) show ?thesis by (simp add: for_up_step run_simps)
  next
    case (Some v)
    have "get_at S i s = (Ret v, s)"
      using get [of i s v] Cons.prems(1,2) Some by simp
    with h IH Cons.prems(2,3) Some show ?thesis by (simp add: for_up_step run_simps)
  qed
qed

lemma MergeSort_dense_spec:
  "len = int (length (view s)) \<Longrightarrow> MergeSort_dense S len s = (Ret (present (view s)), s)"
  using dense_loop [of s "[]" "view s" 0 len "[]"] by (simp add: MergeSort_dense_def run_simps)

lemma set_loop:
  "view s = us @ vs \<Longrightarrow> length vs = length xs + length ws \<Longrightarrow> drop (length xs) vs = ws \<Longrightarrow>
   i = int (length us) \<Longrightarrow> n = i + int (length xs) \<Longrightarrow> i = int (length ys) \<Longrightarrow>
   for_each i n (\<lambda>i. set_at S i (local_rd u (ys @ xs) i)) s = (Ret (), upd (us @ map Some xs @ ws) s)"
proof (induction xs arbitrary: s us vs i ys)
  case Nil
  then show ?case using upd_view [of s] by (simp add: for_each_done run_simps)
next
  case (Cons x xs)
  then obtain v vs' where vs: "vs = v # vs'" by (cases vs) auto
  let ?s = "upd (us @ Some x # vs') s"
  have "local_rd u (ys @ x # xs) i = x"
    using Cons.prems(4,6) by (simp add: local_rd_def nth_append)
  then have st: "set_at S i (local_rd u (ys @ x # xs) i) s = (Ret (), ?s)"
    using set [of i s x] Cons.prems vs by (simp add: list_update_append)
  have v: "view ?s = (us @ [Some x]) @ vs'" using Cons.prems(1) vs by (simp add: view_upd)
  have "for_each (i + 1) n (\<lambda>i. set_at S i (local_rd u ((ys @ [x]) @ xs) i)) ?s
    = (Ret (), upd ((us @ [Some x]) @ map Some xs @ ws) ?s)"
    by (rule Cons.IH [OF v]) (use Cons.prems vs in auto)
  with st Cons.prems(5) show ?case by (simp add: for_each_step run_simps upd_upd)
qed

lemma del_loop:
  "view s = us @ vs \<Longrightarrow> i = int (length us) \<Longrightarrow> n = i + int (length vs) \<Longrightarrow>
   for_each i n (del_at S) s = (Ret (), upd (us @ replicate (length vs) None) s)"
proof (induction vs arbitrary: s us i)
  case Nil
  then show ?case using upd_view [of s] by (simp add: for_each_done run_simps)
next
  case (Cons v vs)
  let ?s = "upd (us @ None # vs) s"
  have st: "del_at S i s = (Ret (), ?s)"
    using del [of i s] Cons.prems by (simp add: list_update_append)
  have w: "view ?s = (us @ [None]) @ vs" using Cons.prems(1) by (simp add: view_upd)
  have "for_each (i + 1) n (del_at S) ?s = (Ret (), upd ((us @ [None]) @ replicate (length vs) None) ?s)"
    by (rule Cons.IH [OF w]) (use Cons.prems in auto)
  with st Cons.prems(3) show ?case by (simp add: for_each_step run_simps upd_upd)
qed

lemma MoveHoles_spec:
  assumes "len = int (length (view s))" and "n = int (length xs)" and "length xs \<le> length (view s)"
  shows "MoveHoles S len xs u n s
    = (Ret (), upd (map Some xs @ replicate (length (view s) - length xs) None) s)"
proof -
  let ?s = "upd (map Some xs @ drop (length xs) (view s)) s"
  have "for_each 0 n (\<lambda>i. set_at S i (local_rd u xs i)) s = (Ret (), ?s)"
    using set_loop [of s "[]" "view s" xs "drop (length xs) (view s)" 0 n "[]" u] assms by simp
  moreover have "view ?s = map Some xs @ drop (length xs) (view s)"
    using assms by (simp add: view_upd)
  then have "for_each n len (del_at S) ?s
    = (Ret (), upd (map Some xs @ replicate (length (view s) - length xs) None) ?s)"
    using del_loop [of ?s "map Some xs" "drop (length xs) (view s)" n len] assms by simp
  ultimately show ?thesis
    by (simp add: MoveHoles_def run_simps upd_upd)
qed

lemma MergeSort_correct:
  assumes cmp: "comparefn_for c valid cmp" and val: "list_all valid (present (view s))"
    and len: "len = int (length (view s))"
  shows "MergeSort u S len cmp s = (Ret (), upd (sort_holes c (view s)) s)"
proof -
  let ?xs = "present (view s)" and ?n = "int (length (present (view s)))"
  have d: "MergeSort_dense S len s = (Ret ?xs, s)" by (rule MergeSort_dense_spec [OF len])
  have mv: "MoveHoles S len (Sorting_Algorithms.sort c ?xs) u ?n s = (Ret (), upd (sort_holes c (view s)) s)"
    using MoveHoles_spec [OF len, of ?n "Sorting_Algorithms.sort c ?xs" u]
    by (simp add: sort_holes_def length_present)
  note cmp' = comparefn_for_lift [OF cmp]
  consider "?xs = []" | "?xs \<noteq> []" "length ?xs < 24" | "24 \<le> length ?xs" by fastforce
  then show ?thesis
  proof cases
    case 1
    then have "sort_holes c (view s) = view s" using present_eq_Nil [of "view s"] by (simp add: sort_holes_def)
    with 1 d show ?thesis by (simp add: MergeSort_def run_simps upd_view)
  next
    case 2
    then have "1 \<le> ?n" by (cases ?xs) auto
    have "InsertionSort (dense_buf u) 0 (?n - 1) (lift_cmp cmp) ((?xs, []), s)
        = (Ret (), ((Sorting_Algorithms.sort c ?xs, []), s))"
      using dense.InsertionSort_slice [OF cmp', of "((?xs, []), s)" "[]" ?xs "[]" 0 "?n - 1"] val by simp
    then have "with_locals (?xs, []) (sq (InsertionSort (dense_buf u) 0 (?n - 1) (lift_cmp cmp))
                  (gets (\<lambda>((a, b), _). a))) s = (Ret (Sorting_Algorithms.sort c ?xs), s)"
      by (simp add: run_simps)
    with 2 \<open>1 \<le> ?n\<close> d mv show ?thesis by (simp add: MergeSort_def Let_def run_simps)
  next
    case 3
    let ?t = "((windows c 4 ?xs, []), s) :: ('a list \<times> 'a list) \<times> 's"
    have sw: "sort_windows (dense_buf u) ?n (lift_cmp cmp) ((?xs, []), s) = (Ret (), ?t)"
      using dense.sort_windows_correct [OF cmp', of "((?xs, []), s)" ?n] val by simp
    have "\<exists>a b d. merge_passes (int 4) ?n (lift_cmp cmp) False (dense_buf u) (aux_buf u) ?t
          = (Ret (False \<noteq> d), dense_upd a (aux_upd b ?t))
        \<and> (if d then b else a) = Sorting_Algorithms.sort c ?xs
        \<and> length a = length ?xs \<and> (b = aux_view ?t \<or> length b = length ?xs)"
      by (rule bufs.passes(1) [OF cmp' val refl]) simp_all
    then obtain a b fl where p: "merge_passes 4 ?n (lift_cmp cmp) False (dense_buf u) (aux_buf u) ?t
        = (Ret fl, ((a, b), s))" "(if fl then b else a) = Sorting_Algorithms.sort c ?xs" by auto
    have "with_locals (?xs, [])
              (sq (sort_windows (dense_buf u) ?n (lift_cmp cmp))
              (bnd (merge_passes 4 ?n (lift_cmp cmp) False (dense_buf u) (aux_buf u)) (\<lambda>flip.
               gets (\<lambda>((a, b), _). if flip then b else a)))) s
      = (Ret (Sorting_Algorithms.sort c ?xs), s)"
      using sw p by (simp add: run_simps)
    moreover have "\<not> ?n < 1" using 3 by linarith
    ultimately show ?thesis using 3 d mv by (simp add: MergeSort_def Let_def run_simps)
  qed
qed

end

section \<open>MergeSortTypedArray\<close>

locale typed_array = indexed_array A view upd valid
  for A :: "('s, 'e, 'a) arrayI" and view upd valid +
  fixes u :: 'a
begin

definition lview :: "'a list \<times> 's \<Rightarrow> 'a list" where
  "lview t = view (snd t)"

definition lupd :: "'a list \<Rightarrow> 'a list \<times> 's \<Rightarrow> 'a list \<times> 's" where
  "lupd xs t = (fst t, upd xs (snd t))"

definition bupd :: "'a list \<Rightarrow> 'a list \<times> 's \<Rightarrow> 'a list \<times> 's" where
  "bupd xs t = (xs, snd t)"

end

sublocale typed_array \<subseteq> lifted: indexed_array "lift_array A :: ('a list \<times> 's, 'e, 'a) arrayI" lview lupd valid
  by unfold_locales
    (auto simp: lift_array_def lview_def lupd_def lift_locals_def rd_in wr_in view_upd upd_upd upd_view)

sublocale typed_array \<subseteq> tb: merge_buffers "lift_array A :: ('a list \<times> 's, 'e, 'a) arrayI" "typed_buf u"
    lview fst lupd bupd valid False
  by unfold_locales
    (auto simp: lift_array_def lview_def lupd_def bupd_def lift_locals_def typed_buf_def local_rd_def
      rd_in wr_in view_upd upd_upd upd_view upd_conv_take_nth_drop)

context typed_array begin

lemma copy_back:
  "view s = us @ vs \<Longrightarrow> b = cs @ xs \<Longrightarrow> length cs = length us \<Longrightarrow> length xs = length vs \<Longrightarrow> list_all valid xs \<Longrightarrow>
   i = int (length us) \<Longrightarrow> n = i + int (length xs) \<Longrightarrow>
   for_each i n (\<lambda>i. bnd (rd (typed_buf u) i) (wr (lift_array A) i)) (b, s)
   = (Ret (), (b, upd (us @ xs) s))"
proof (induction xs arbitrary: s us vs i cs)
  case Nil
  then show ?case using upd_view [of s] by (simp add: for_each_done run_simps)
next
  case (Cons x xs)
  then obtain v vs' where vs: "vs = v # vs'" by (cases vs) auto
  let ?s = "upd (us @ x # vs') s"
  have r: "rd (typed_buf u) i (b, s) = (Ret x, (b, s))"
    using Cons.prems vs by (simp add: typed_buf_def local_rd_def nth_append)
  have w: "wr (lift_array A) i x (b, s) = (Ret (), (b, ?s))"
    using wr_at [of s us v vs' i x] Cons.prems vs by (simp add: lift_array_def lift_locals_def)
  have v: "view ?s = (us @ [x]) @ vs'" using Cons.prems(1) vs by (simp add: view_upd)
  have "for_each (i + 1) n (\<lambda>i. bnd (rd (typed_buf u) i) (wr (lift_array A) i)) (b, ?s)
    = (Ret (), (b, upd ((us @ [x]) @ xs) ?s))"
    by (rule Cons.IH [OF v, of "cs @ [x]"]) (use Cons.prems vs in auto)
  with w Cons.prems(7) show ?case by (simp add: for_each_step run_simps upd_upd r)
qed

lemma MergeSortTypedArray_correct:
  assumes cmp: "comparefn_for c valid cmp" and val: "list_all valid (view s)"
    and len: "len = int (length (view s))"
  shows "MergeSortTypedArray u zero A len cmp s = (Ret (), upd (Sorting_Algorithms.sort c (view s)) s)"
proof (cases "len < 8")
  case True
  with InsertionSort_slice [OF cmp, of s "[]" "view s" "[]" 0 "len - 1"] val len
  show ?thesis by (simp add: MergeSortTypedArray_def)
next
  case False
  note cmp' = comparefn_for_lift [OF cmp]
  let ?xs = "view s"
  let ?b = "replicate (nat len) zero"
  let ?t = "(?b, upd (windows c 4 ?xs) s)"
  have sw: "sort_windows (lift_array A) len (lift_cmp cmp) (?b, s) = (Ret (), ?t)"
    using lifted.sort_windows_correct [OF cmp', of "(?b, s)" len] val len
    by (simp add: lview_def lupd_def)
  have "lview ?t = windows c 4 ?xs" by (simp add: lview_def view_upd)
  then have "\<exists>a b fl. merge_passes 4 len (lift_cmp cmp) False (lift_array A) (typed_buf u) ?t
      = (Ret fl, lupd a (bupd b ?t)) \<and> (if fl then b else a) = Sorting_Algorithms.sort c ?xs
      \<and> length a = length ?xs \<and> length b = length ?xs"
    using tb.passes(1) [OF cmp' val len, of 4 ?t False] len by fastforce
  then obtain a b fl where p: "merge_passes 4 len (lift_cmp cmp) False (lift_array A) (typed_buf u) ?t
      = (Ret fl, lupd a (bupd b ?t))" "(if fl then b else a) = Sorting_Algorithms.sort c ?xs"
      "length a = length ?xs" "length b = length ?xs" by blast
  have st: "lupd a (bupd b ?t) = (b, upd a s)" by (simp add: lupd_def bupd_def upd_upd)
  have va: "view (upd a s) = a" using p(3) by (simp add: view_upd)
  show ?thesis
  proof (cases fl)
    case False
    with sw p st \<open>\<not> len < 8\<close> show ?thesis
      by (simp add: MergeSortTypedArray_def run_simps)
  next
    case True
    with p(2) have b: "b = Sorting_Algorithms.sort c ?xs" by simp
    have "for_each 0 len (\<lambda>i. bnd (rd (typed_buf u) i) (wr (lift_array A) i)) (b, upd a s)
      = (Ret (), (b, upd b (upd a s)))"
      using copy_back [of "upd a s" "[]" a b "[]" b 0 len] va p(3,4) val len b
      by (simp add: list_all_iff)
    with True sw p st b \<open>\<not> len < 8\<close> show ?thesis
      by (simp add: MergeSortTypedArray_def run_simps upd_upd)
  qed
qed

end

end
