(* ===== verification/SortTyped.thy ===== *)
theory SortTyped
  imports RadixKeys SortRadixCorrect SortMergeTop
begin

text \<open>
  Correctness of \<open>RadixSort\<close> and \<open>CountingSort\<close> on any array of elements: the values come out
  in the order of the default comparison, whichever algorithm the length selects.
\<close>

section \<open>Lexicographic composition of stable sorts\<close>

lemma sorted_lex:
  fixes hi lo :: "'a \<Rightarrow> nat"
  assumes "sorted_wrt (\<lambda>x y. hi x \<le> hi y) ys" and "\<And>k. sorted_wrt (\<lambda>x y. lo x \<le> lo y) (filter (\<lambda>x. hi x = k) ys)"
  shows "sorted_wrt (\<lambda>x y. hi x < hi y \<or> hi x = hi y \<and> lo x \<le> lo y) ys"
  using assms
proof (induction ys)
  case (Cons y ys)
  have "sorted_wrt (\<lambda>x y. lo x \<le> lo y) (filter (\<lambda>x. hi x = k) ys)" for k
    using Cons.prems(2) [of k] by (cases "hi y = k") auto
  moreover have "hi y < hi x \<or> hi y = hi x \<and> lo y \<le> lo x" if "x \<in> set ys" for x
    using Cons.prems(1) Cons.prems(2) [of "hi y"] that by (cases "hi y = hi x") auto
  ultimately show ?case using Cons.IH Cons.prems(1) by simp
qed simp

lemma sort_key_step:
  fixes f :: "'a \<Rightarrow> nat"
  assumes "0 < B"
  shows "sort_key (\<lambda>x. f x div B mod 256) (sort_key (\<lambda>x. f x mod B) xs) = sort_key (\<lambda>x. f x mod (B * 256)) xs"
proof -
  let ?hi = "\<lambda>x. f x div B mod 256" and ?lo = "\<lambda>x. f x mod B" and ?g = "\<lambda>x. f x mod (B * 256)"
  let ?zs = "sort_key ?lo xs" and ?ys = "sort_key ?hi (sort_key ?lo xs)"
  have g: "?g x = B * ?hi x + ?lo x" for x by (simp add: mod_mult2_eq)
  have eq: "?g x = ?g y \<longleftrightarrow> ?hi x = ?hi y \<and> ?lo x = ?lo y" for x y
  proof
    assume "?g x = ?g y"
    then have "?g x div B = ?g y div B" "?g x mod B = ?g y mod B" by simp_all
    with assms show "?hi x = ?hi y \<and> ?lo x = ?lo y" unfolding g by simp
  qed (simp add: g)
  have lt: "?g x \<le> ?g y" if "?hi x < ?hi y \<or> ?hi x = ?hi y \<and> ?lo x \<le> ?lo y" for x y
  proof -
    have "B * ?hi x + ?lo x \<le> B * ?hi y + ?lo y"
    proof (cases "?hi x < ?hi y")
      case True
      then have "B * Suc (?hi x) \<le> B * ?hi y" by (intro mult_le_mono2) simp
      moreover have "?lo x < B" using assms by simp
      ultimately show ?thesis by simp
    next
      case False
      with that show ?thesis by simp
    qed
    then show ?thesis unfolding g .
  qed
  have "sorted_wrt (\<lambda>x y. ?hi x < ?hi y \<or> ?hi x = ?hi y \<and> ?lo x \<le> ?lo y) ?ys"
  proof (rule sorted_lex)
    show "sorted_wrt (\<lambda>x y. ?hi x \<le> ?hi y) ?ys"
      using sorted_sort_key [of ?hi ?zs] unfolding sorted_wrt_map .
    have "sorted_wrt (\<lambda>x y. ?lo x \<le> ?lo y) ?zs"
      using sorted_sort_key [of ?lo xs] unfolding sorted_wrt_map .
    then show "sorted_wrt (\<lambda>x y. ?lo x \<le> ?lo y) (filter (\<lambda>x. ?hi x = k) ?ys)" for k
      unfolding filter_key_sort_key by (rule sorted_wrt_filter)
  qed
  then have srt: "sorted_wrt (\<le>) (map ?g ?ys)"
    unfolding sorted_wrt_map by (rule sorted_wrt_mono_rel [rotated]) (use lt in blast)
  have stab: "filter (\<lambda>x. ?g k = ?g x) ?ys = filter (\<lambda>x. ?g k = ?g x) xs" for k
  proof -
    have "filter (\<lambda>x. ?g k = ?g x) ws = filter (\<lambda>x. ?lo x = ?lo k) (filter (\<lambda>x. ?hi x = ?hi k) ws)" for ws
      unfolding eq filter_filter by (metis (mono_tags, lifting) filter_cong)
    moreover have "filter (\<lambda>x. ?lo x = ?lo k) (filter (\<lambda>x. ?hi x = ?hi k) ?zs)
        = filter (\<lambda>x. ?hi x = ?hi k) (filter (\<lambda>x. ?lo x = ?lo k) ?zs)"
      by (simp add: conj_commute)
    moreover have "filter (\<lambda>x. ?hi x = ?hi k) (filter (\<lambda>x. ?lo x = ?lo k) xs)
        = filter (\<lambda>x. ?lo x = ?lo k) (filter (\<lambda>x. ?hi x = ?hi k) xs)"
      by (simp add: conj_commute)
    ultimately show ?thesis by (simp only: filter_key_sort_key)
  qed
  show ?thesis
    by (rule properties_for_sort_key [symmetric]) (use srt stab in \<open>simp_all\<close>)
qed

lemma sorted_if_sorted_wrt:
  "sorted_wrt (\<lambda>x y. compare c x y \<noteq> Greater) xs \<Longrightarrow> Sorting_Algorithms.sorted c xs"
proof (induction xs)
  case (Cons x xs)
  then show ?case by (cases xs) auto
qed simp

section \<open>Sorting by values\<close>

text \<open>What every default sort promises: the values, sorted.\<close>

definition value_sorted :: "ta_kind \<Rightarrow> tval list \<Rightarrow> tval list \<Rightarrow> bool" where
  "value_sorted K xs ys = (length ys = length xs \<and> (\<forall>y \<in> set ys. y \<noteq> UndefT)
     \<and> map (elem K) ys = Sorting_Algorithms.sort val_order (map (elem K) xs))"

lemma value_sortedI:
  assumes "\<forall>x \<in> set xs. x \<noteq> UndefT" "\<forall>y \<in> set ys. y \<noteq> UndefT"
    and "mset (map (elem K) ys) = mset (map (elem K) xs)" and "Sorting_Algorithms.sorted (elem_order K) ys"
  shows "value_sorted K xs ys"
proof -
  have "length ys = length xs" using assms(3) by (metis length_map size_mset)
  moreover have "map (elem K) ys = Sorting_Algorithms.sort val_order (map (elem K) xs)"
    by (rule sorted_values_unique [OF assms(3)])
      (use assms in \<open>auto simp: elem_order_def elem_sortable val_order_Equiv\<close>)
  ultimately show ?thesis using assms(2) by (simp add: value_sorted_def)
qed

context elem_array begin

lemma QuickSort_values:
  assumes cmp: "comparefn_for (elem_order K) (\<lambda>x. x \<noteq> UndefT) cmp" and val: "\<forall>x \<in> set (view s). x \<noteq> UndefT"
    and len: "len = int (length (view s))" "len \<le> 0x7FFFFFFF" and fuel: "2 * length (view s) + 2 \<le> fuel"
  shows "\<exists>ys. QuickSort fuel A len cmp s = (Ret (), upd ys s) \<and> value_sorted K (view s) ys"
proof -
  obtain ys where ys: "QuickSort fuel A len cmp s = (Ret (), upd ys s)"
    "mset ys = mset (view s)" "Sorting_Algorithms.sorted (elem_order K) ys"
    using QuickSort_correct [OF cmp _ len fuel] val by (auto simp: list_all_iff)
  moreover have "value_sorted K (view s) ys"
    by (rule value_sortedI) (use ys val in \<open>auto dest: mset_eq_setD\<close>)
  ultimately show ?thesis by blast
qed

lemma wp_passes:
  assumes len: "len = int (length (view s))" and val: "\<forall>x \<in> set (view s). x \<noteq> UndefT"
    and aux: "length aux = length (view s)" and counts: "length counts = 257" and nb: "nbytes \<le> 4"
  shows "wp (for_acc 0 (int nbytes) (\<lambda>col (aux, counts). SortByColumn K A len aux (nat col) counts) (aux, counts))
    (\<lambda>_ t. t = upd (sort_key (\<lambda>x. key32 K x mod 256 ^ nbytes) (view s)) s) E s"
proof (rule wp_for_acc [where I = "\<lambda>i c t. t = upd (sort_key (\<lambda>x. key32 K x mod 256 ^ nat i) (view s)) s
    \<and> length (fst c) = length (view s) \<and> length (snd c) = 257"])
  fix i and c :: "tval list \<times> int list" and t
  assume i: "0 \<le> i" "i < int nbytes" and I: "t = upd (sort_key (\<lambda>x. key32 K x mod 256 ^ nat i) (view s)) s
    \<and> length (fst c) = length (view s) \<and> length (snd c) = 257"
  obtain a cs where c: "c = (a, cs)" by fastforce
  obtain n where n: "i = int n" "n < 4" using i nb zero_le_imp_eq_int [of i] by auto
  have v: "view t = sort_key (\<lambda>x. key32 K x mod 256 ^ n) (view s)"
    using I n by (simp add: view_upd)
  have bt: "byte K n = (\<lambda>x. key32 K x div 256 ^ n mod 256)"
    using byte_of_key [OF n(2)] by (auto simp: byte_def)
  have st: "sort_key (byte K n) (view t) = sort_key (\<lambda>x. key32 K x mod 256 ^ nat (i + 1)) (view s)"
    unfolding v bt using sort_key_step [of "256 ^ n" "key32 K" "view s"] n by (simp add: nat_add_distrib mult.commute)
  show "wp (case c of (aux, counts) \<Rightarrow> SortByColumn K A len aux (nat i) counts)
    (\<lambda>c t. t = upd (sort_key (\<lambda>x. key32 K x mod 256 ^ nat (i + 1)) (view s)) s
       \<and> length (fst c) = length (view s) \<and> length (snd c) = 257) E t"
    unfolding c prod.case
  proof (rule wp_SortByColumn)
    show "len = int (length (view t))" "\<forall>x \<in> set (view t). x \<noteq> UndefT" using len val v by auto
    show "length a = length (view t)" "length cs = 257" using I c v by auto
  next
    fix aux' counts' assume "length aux' = length (view t)" "length counts' = (257 :: nat)"
    then show "upd (sort_key (byte K (nat i)) (view t)) t = upd (sort_key (\<lambda>x. key32 K x mod 256 ^ nat (i + 1)) (view s)) s
       \<and> length (fst (aux', counts')) = length (view s) \<and> length (snd (aux', counts')) = 257"
      using st n I v by (simp add: upd_upd)
  qed
next
  show "s = upd (sort_key (\<lambda>x. key32 K x mod 256 ^ nat 0) (view s)) s \<and> length (fst (aux, counts)) = length (view s)
    \<and> length (snd (aux, counts)) = 257"
    using aux counts by (simp add: sort_key_const upd_view)
qed auto

text \<open>The passes between two flips.\<close>

lemma radix_values:
  assumes ok: "radix_ok K view' nbytes pre post" and val: "\<forall>x \<in> set xs. x \<noteq> UndefT"
  defines "lk \<equiv> \<lambda>x. key32 view' x mod 256 ^ nbytes"
  shows "value_sorted K xs (map post (sort_key lk (map pre xs)))"
proof (rule value_sortedI [OF val])
  have x: "\<exists>w. x = Elt w" if "x \<in> set xs" for x using val that by (cases x) auto
  have pp: "elem K (post (pre x)) = elem K x" if "x \<in> set xs" for x
    using x [OF that] ok unfolding radix_ok_def by metis
  have pre: "\<exists>w. pre x = Elt w" if "x \<in> set xs" for x
    using x [OF that] ok unfolding radix_ok_def by metis
  have post: "post (Elt w) \<noteq> UndefT" for w
    using ok unfolding radix_ok_def by blast
  have sets: "set (sort_key lk (map pre xs)) = pre ` set xs" by simp
  show "\<forall>y \<in> set (map post (sort_key lk (map pre xs))). y \<noteq> UndefT"
  proof
    fix y assume "y \<in> set (map post (sort_key lk (map pre xs)))"
    then obtain x where "x \<in> set xs" "y = post (pre x)" by auto
    with pre post show "y \<noteq> UndefT" by metis
  qed
  have "mset (map (elem K) (map post (sort_key lk (map pre xs)))) = image_mset (\<lambda>x. elem K (post x)) (mset (sort_key lk (map pre xs)))"
    unfolding map_map comp_def by (rule mset_map)
  also have "mset (sort_key lk (map pre xs)) = mset (map pre xs)" by (simp del: mset_map)
  also have "image_mset (\<lambda>x. elem K (post x)) (mset (map pre xs)) = mset (map (\<lambda>x. elem K (post x)) (map pre xs))"
    by (rule mset_map [symmetric])
  also have "map (\<lambda>x. elem K (post x)) (map pre xs) = map (elem K) xs"
    unfolding map_map comp_def by (rule map_cong [OF refl]) (use pp in simp)
  finally show "mset (map (elem K) (map post (sort_key lk (map pre xs)))) = mset (map (elem K) xs)" .
  have low: "compare (elem_order K) (Elt w) (Elt u) \<noteq> Greater" if "lk (pre (Elt w)) \<le> lk (pre (Elt u))" for w u
    using ok that unfolding radix_ok_def lk_def by blast
  have mono: "compare (elem_order K) (post a) (post b) \<noteq> Greater"
    if "a \<in> pre ` set xs" "b \<in> pre ` set xs" "lk a \<le> lk b" for a b
  proof -
    from that obtain x y where xy: "x \<in> set xs" "a = pre x" "y \<in> set xs" "b = pre y" by auto
    obtain w u where wu: "x = Elt w" "y = Elt u" using x xy(1,3) by blast
    have "compare (elem_order K) (Elt w) (Elt u) \<noteq> Greater"
      by (rule low) (use that(3) xy(2,4) wu in simp)
    then have "compare (elem_order K) x y \<noteq> Greater" unfolding wu .
    then show ?thesis unfolding compare_elem_order xy(2,4) pp [OF xy(1)] pp [OF xy(3)] .
  qed
  have "sorted_wrt (\<lambda>a b. lk a \<le> lk b) (sort_key lk (map pre xs))"
    using sorted_sort_key [of lk "map pre xs"] unfolding sorted_wrt_map .
  then have "sorted_wrt (\<lambda>a b. compare (elem_order K) (post a) (post b) \<noteq> Greater) (sort_key lk (map pre xs))"
  proof (rule sorted_wrt_mono_rel [rotated])
    fix a b
    assume "a \<in> set (sort_key lk (map pre xs))" "b \<in> set (sort_key lk (map pre xs))" "lk a \<le> lk b"
    then show "compare (elem_order K) (post a) (post b) \<noteq> Greater" unfolding sets by (rule mono)
  qed
  then show "Sorting_Algorithms.sorted (elem_order K) (map post (sort_key lk (map pre xs)))"
    by (intro sorted_if_sorted_wrt) (simp add: sorted_wrt_map)
qed

lemma xor_at_run:
  assumes "0 \<le> i" "i < int (length (view t))" "store_int K (sint (int32_of (elem K (view t ! nat i)) XOR m)) \<noteq> UndefT"
  shows "xor_at K A i m t = (Ret (), upd ((view t)[nat i := store_int K (sint (int32_of (elem K (view t ! nat i)) XOR m))]) t)"
  using rd_in [OF assms(1,2)] wr_in [OF assms(1,2,3)] by (simp add: xor_at_def run_simps)

lemma flip_loop:
  assumes "len = int (length (view s))" and "\<And>x. flip_sign K nbytes x \<noteq> UndefT"
  shows "for_each 0 len (\<lambda>i. xor_at K A i (push_bit (nbytes * 8 - 1) 1)) s = (Ret (), upd (map (flip_sign K nbytes) (view s)) s)"
proof (rule map_loop [OF assms(1)])
  fix i t
  assume i: "0 \<le> i" "i < len" "length (view t) = length (view s)"
  show "xor_at K A i (push_bit (nbytes * 8 - 1) 1) t = (Ret (), upd ((view t)[nat i := flip_sign K nbytes (view t ! nat i)]) t)"
    using xor_at_run [of i t K "push_bit (nbytes * 8 - 1) 1"] i assms unfolding flip_sign_def by simp
qed (rule assms(2))

lemma pre_float_loop:
  assumes len: "len = int (length (view s))" and val: "\<forall>x \<in> set (view s). x \<noteq> UndefT"
  shows "for_each 0 len (\<lambda>i. bnd (rd A i) (\<lambda>x.
                if int32_of (elem Int32 x) AND 0x80000000 \<noteq> 0 then
                  whenJ (int32_of (elem Int32 x) AND 0x7F800000 \<noteq> 0x7F800000 \<or> int32_of (elem Int32 x) AND 0x007FFFFF = 0)
                    (xor_at Int32 A i 0xFFFFFFFF)
                else xor_at Int32 A i 0x80000000)) s = (Ret (), upd (map pre_float (view s)) s)"
proof (rule map_loop [OF len])
  show "pre_float x \<noteq> UndefT" if "x \<in> set (view s)" for x
    using val that by (auto simp: pre_float_def)
  fix i t
  assume i: "0 \<le> i" "i < len" "length (view t) = length (view s)"
  have r: "rd A i t = (Ret (view t ! nat i), t)" using rd_in [of i t] i len by simp
  have x: "xor_at Int32 A i m t = (Ret (), upd ((view t)[nat i := store_int Int32 (sint (int32_of (elem Int32 (view t ! nat i)) XOR m))]) t)" for m
    by (rule xor_at_run) (use i len in simp_all)
  show "bnd (rd A i) (\<lambda>x.
                if int32_of (elem Int32 x) AND 0x80000000 \<noteq> 0 then
                  whenJ (int32_of (elem Int32 x) AND 0x7F800000 \<noteq> 0x7F800000 \<or> int32_of (elem Int32 x) AND 0x007FFFFF = 0)
                    (xor_at Int32 A i 0xFFFFFFFF)
                else xor_at Int32 A i 0x80000000) t
    = (Ret (), upd ((view t)[nat i := pre_float (view t ! nat i)]) t)"
    unfolding bnd_run(1) [of "rd A i", OF r] pre_float_def
    by (simp only: when_run x if_distrib [of "\<lambda>f. f t"] if_distrib [of "\<lambda>v. (Ret (), upd ((view t)[nat i := v]) t)"]
        list_update_id upd_view cong: if_cong)
qed

lemma post_float_loop:
  assumes len: "len = int (length (view s))"
  shows "for_each 0 len (\<lambda>i. bnd (rd A i) (\<lambda>x.
            if int32_of (elem Int32 x) AND 0x80000000 \<noteq> 0 then xor_at Int32 A i 0x80000000
            else xor_at Int32 A i 0xFFFFFFFF)) s = (Ret (), upd (map post_float (view s)) s)"
proof (rule map_loop [OF len])
  show "post_float x \<noteq> UndefT" for x by (simp add: post_float_def)
  fix i t
  assume i: "0 \<le> i" "i < len" "length (view t) = length (view s)"
  have r: "rd A i t = (Ret (view t ! nat i), t)" using rd_in [of i t] i len by simp
  have x: "xor_at Int32 A i m t = (Ret (), upd ((view t)[nat i := store_int Int32 (sint (int32_of (elem Int32 (view t ! nat i)) XOR m))]) t)" for m
    by (rule xor_at_run) (use i len in simp_all)
  show "bnd (rd A i) (\<lambda>x.
            if int32_of (elem Int32 x) AND 0x80000000 \<noteq> 0 then xor_at Int32 A i 0x80000000
            else xor_at Int32 A i 0xFFFFFFFF) t
    = (Ret (), upd ((view t)[nat i := post_float (view t ! nat i)]) t)"
    unfolding bnd_run(1) [of "rd A i", OF r] post_float_def
    by (simp only: x if_distrib [of "\<lambda>f. f t"] if_distrib [of "\<lambda>v. (Ret (), upd ((view t)[nat i := v]) t)"] cong: if_cong)
qed

lemma radix_core:
  assumes ok: "radix_ok K view' nbytes pre post" and nb: "nbytes \<le> 4"
    and len: "len = int (length (view s))" and val: "\<forall>x \<in> set (view s). x \<noteq> UndefT"
    and aux: "length aux = length (view s)" and counts: "length counts = 257"
    and preP: "preP s = (Ret (), upd (map pre (view s)) s)"
    and postP: "\<And>t. length (view t) = length (view s) \<Longrightarrow> \<forall>x \<in> set (view t). x \<noteq> UndefT \<Longrightarrow>
      postP t = (Ret (), upd (map post (view t)) t)"
  shows "\<exists>ys. sq preP (bnd (for_acc 0 (int nbytes) (\<lambda>col (aux, counts). SortByColumn view' A len aux (nat col) counts) (aux, counts))
      (\<lambda>_. postP)) s = (Ret (), upd ys s) \<and> value_sorted K (view s) ys"
proof -
  let ?lk = "\<lambda>x. key32 view' x mod 256 ^ nbytes"
  let ?s1 = "upd (map pre (view s)) s" and ?s2 = "upd (sort_key ?lk (map pre (view s))) s"
  have v1: "view ?s1 = map pre (view s)" by (simp add: view_upd)
  have val1: "\<forall>x \<in> set (map pre (view s)). x \<noteq> UndefT"
  proof
    fix y assume "y \<in> set (map pre (view s))"
    then obtain x where "x \<in> set (view s)" "y = pre x" by auto
    moreover from this val have "x \<noteq> UndefT" by blast
    then obtain w where "x = Elt w" by (cases x) auto
    ultimately show "y \<noteq> UndefT" using ok unfolding radix_ok_def by (metis tval.distinct(1))
  qed
  have "wp (for_acc 0 (int nbytes) (\<lambda>col (aux, counts). SortByColumn view' A len aux (nat col) counts) (aux, counts))
    (\<lambda>_ t. t = upd (sort_key ?lk (view ?s1)) ?s1) (\<lambda>_ _. False) ?s1"
    by (rule wp_passes) (use len val1 aux counts nb v1 in simp_all)
  then obtain r where r: "for_acc 0 (int nbytes) (\<lambda>col (aux, counts). SortByColumn view' A len aux (nat col) counts) (aux, counts) ?s1
      = (Ret r, ?s2)"
    by (auto dest!: wp_runD simp: v1 upd_upd)
  have v2: "view ?s2 = sort_key ?lk (map pre (view s))" by (simp add: view_upd)
  have "postP ?s2 = (Ret (), upd (map post (sort_key ?lk (map pre (view s)))) s)"
    using postP [of ?s2] v2 val1 by (simp add: upd_upd)
  with preP r have "sq preP (bnd (for_acc 0 (int nbytes) (\<lambda>col (aux, counts). SortByColumn view' A len aux (nat col) counts) (aux, counts))
      (\<lambda>_. postP)) s = (Ret (), upd (map post (sort_key ?lk (map pre (view s)))) s)"
    by (simp add: run_simps)
  then show ?thesis using radix_values [OF ok val] by blast
qed

definition radix_params :: "ta_kind \<Rightarrow> nat \<Rightarrow> bool \<Rightarrow> bool \<Rightarrow> bool" where
  "radix_params K nbytes signed' floating =
     ((K, nbytes, signed', floating) \<in> {(Uint16, 2, False, False), (Int16, 2, True, False), (Uint32, 4, False, False),
       (Int32, 4, True, False), (Float32, 4, True, True)})"

lemma RadixSort_values:
  assumes params: "radix_params K nbytes sg fl"
    and cmp: "comparefn_for (elem_order K) (\<lambda>x. x \<noteq> UndefT) (\<lambda>x y. comparefn (elem K x) (elem K y))"
    and val: "\<forall>x \<in> set (view s). x \<noteq> UndefT"
    and len: "len = int (length (view s))" "len \<le> 0x7FFFFFFF" and fuel: "2 * length (view s) + 2 \<le> fuel"
  shows "\<exists>ys. RadixSort fuel K A len nbytes sg fl comparefn s = (Ret (), upd ys s) \<and> value_sorted K (view s) ys"
proof (cases "len < 512")
  case True
  with QuickSort_values [OF cmp val len fuel] show ?thesis by (simp add: RadixSort_def)
next
  case False
  have aux: "length (replicate (nat len) (Elt 0)) = length (view s)" "length (replicate 257 (0 :: int)) = 257"
    using len by simp_all
  have ident: "ret () t = (Ret (), upd (map (\<lambda>x. x) (view t)) t)" for t :: 's
    by (simp add: upd_view run_simps)
  have mask32: "push_bit (4 * 8 - 1) 1 = (0x80000000 :: 32 word)" by simp
  note core = radix_core [OF _ _ len(1) val aux]
  consider (unsigned) "\<not> sg" "\<not> fl" "K = Uint32 \<and> nbytes = 4 \<or> K = Uint16 \<and> nbytes = 2"
    | (i32) "K = Int32" "nbytes = 4" "sg" "\<not> fl" | (i16) "K = Int16" "nbytes = 2" "sg" "\<not> fl"
    | (f32) "K = Float32" "nbytes = 4" "fl"
    using params by (auto simp: radix_params_def)
  then show ?thesis
  proof cases
    case unsigned
    have "\<exists>ys. sq (ret ()) (bnd (for_acc 0 (int nbytes) (\<lambda>col (aux, counts). SortByColumn K A len aux (nat col) counts)
        (replicate (nat len) (Elt 0), replicate 257 0)) (\<lambda>_. ret ())) s = (Ret (), upd ys s) \<and> value_sorted K (view s) ys"
      by (rule core [OF radix_ok_unsigned [OF unsigned(3)]]) (use unsigned ident in auto)
    with False unsigned show ?thesis by (simp add: RadixSort_def Let_def)
  next
    case i32
    have flip: "for_each 0 len (\<lambda>i. xor_at Int32 A i (push_bit (4 * 8 - 1) 1)) t = (Ret (), upd (map (flip_sign Int32 4) (view t)) t)"
      if "length (view t) = length (view s)" for t
      by (rule flip_loop) (use that len in \<open>simp_all add: flip_sign_def\<close>)
    have "\<exists>ys. sq (for_each 0 len (\<lambda>i. xor_at Int32 A i (push_bit (4 * 8 - 1) 1))) (bnd (for_acc 0 (int 4) (\<lambda>col (aux, counts). SortByColumn Int32 A len aux (nat col) counts)
        (replicate (nat len) (Elt 0), replicate 257 0)) (\<lambda>_. for_each 0 len (\<lambda>i. xor_at Int32 A i (push_bit (4 * 8 - 1) 1)))) s = (Ret (), upd ys s) \<and> value_sorted Int32 (view s) ys"
      by (rule core [OF radix_ok_Int32]) (use flip in simp_all)
    with False i32 show ?thesis by (simp add: RadixSort_def Let_def)
  next
    case i16
    have flip: "for_each 0 len (\<lambda>i. xor_at Int16 A i (push_bit (2 * 8 - 1) 1)) t = (Ret (), upd (map (flip_sign Int16 2) (view t)) t)"
      if "length (view t) = length (view s)" for t
      by (rule flip_loop) (use that len in \<open>simp_all add: flip_sign_def\<close>)
    have "\<exists>ys. sq (for_each 0 len (\<lambda>i. xor_at Int16 A i (push_bit (2 * 8 - 1) 1))) (bnd (for_acc 0 (int 2) (\<lambda>col (aux, counts). SortByColumn Int16 A len aux (nat col) counts)
        (replicate (nat len) (Elt 0), replicate 257 0)) (\<lambda>_. for_each 0 len (\<lambda>i. xor_at Int16 A i (push_bit (2 * 8 - 1) 1)))) s = (Ret (), upd ys s) \<and> value_sorted Int16 (view s) ys"
      by (rule core [OF radix_ok_Int16]) (use flip in simp_all)
    with False i16 show ?thesis by (simp add: RadixSort_def Let_def)
  next
    case f32
    let ?pre = "for_each 0 len (\<lambda>i. bnd (rd A i) (\<lambda>x.
                if int32_of (elem Int32 x) AND 0x80000000 \<noteq> 0 then
                  whenJ (int32_of (elem Int32 x) AND 0x7F800000 \<noteq> 0x7F800000 \<or> int32_of (elem Int32 x) AND 0x007FFFFF = 0)
                    (xor_at Int32 A i 0xFFFFFFFF)
                else xor_at Int32 A i 0x80000000))"
    let ?post = "for_each 0 len (\<lambda>i. bnd (rd A i) (\<lambda>x.
            if int32_of (elem Int32 x) AND 0x80000000 \<noteq> 0 then xor_at Int32 A i 0x80000000
            else xor_at Int32 A i 0xFFFFFFFF))"
    have "\<exists>ys. sq ?pre (bnd (for_acc 0 (int 4) (\<lambda>col (aux, counts). SortByColumn Int32 A len aux (nat col) counts)
        (replicate (nat len) (Elt 0), replicate 257 0)) (\<lambda>_. ?post)) s = (Ret (), upd ys s) \<and> value_sorted Float32 (view s) ys"
    proof (rule core [OF radix_ok_Float32])
      show "?pre s = (Ret (), upd (map pre_float (view s)) s)" by (rule pre_float_loop [OF len(1) val])
      show "?post t = (Ret (), upd (map post_float (view t)) t)" if "length (view t) = length (view s)" for t
        by (rule post_float_loop) (use len that in simp)
    qed simp
    with False f32 show ?thesis unfolding RadixSort_def Let_def f32(1,2) mask32 by simp
  qed
qed

end

end
