(* ===== verification/SortCounting.thy ===== *)
theory SortCounting
  imports SortTyped
begin

text \<open>Correctness of \<open>CountingSort\<close> on 8-bit elements.\<close>

section \<open>Sorting by key is concatenating the classes\<close>

lemma sort_key_concat:
  fixes ky :: "'a \<Rightarrow> nat"
  assumes "\<forall>x \<in> set xs. ky x < n"
  shows "sort_key ky xs = concat (map (\<lambda>k. filter (\<lambda>x. ky x = k) xs) [0..<n])"
proof -
  let ?ys = "sort_key ky xs"
  have "filter (\<lambda>x. ky x < m) ?ys = concat (map (\<lambda>k. filter (\<lambda>x. ky x = k) xs) [0..<m])" for m
  proof (induction m)
    case (Suc m)
    let ?zs = "filter (\<lambda>x. ky x < Suc m) ?ys"
    have "sorted_wrt (\<lambda>x y. ky x \<le> ky y) ?ys" using sorted_sort_key [of ky xs] unfolding sorted_wrt_map .
    then have "sorted_wrt (\<lambda>x y. ky x \<le> ky y) ?zs" by (rule sorted_wrt_filter)
    then have "sorted_wrt (\<le>) (map ky ?zs)" unfolding sorted_wrt_map .
    from sorted_key_split [OF this, of m]
    have "?zs = filter (\<lambda>x. ky x < m) ?zs @ filter (\<lambda>x. ky x = m) ?zs @ filter (\<lambda>x. m < ky x) ?zs" .
    moreover have "filter (\<lambda>x. ky x < m) ?zs = filter (\<lambda>x. ky x < m) ?ys"
      unfolding filter_filter by (rule filter_cong) auto
    moreover have "filter (\<lambda>x. ky x = m) ?zs = filter (\<lambda>x. ky x = m) ?ys"
      unfolding filter_filter by (rule filter_cong) auto
    moreover have "filter (\<lambda>x. m < ky x) ?zs = []"
      unfolding filter_filter by (rule filter_False) auto
    ultimately have "?zs = filter (\<lambda>x. ky x < m) ?ys @ filter (\<lambda>x. ky x = m) xs"
      unfolding filter_key_sort_key by simp
    with Suc.IH show ?case by simp
  qed simp
  from this [of n] show ?thesis
    using assms by (simp add: filter_id_conv [THEN iffD2])
qed

definition blocks :: "nat list \<Rightarrow> (nat \<Rightarrow> 'b) \<Rightarrow> nat \<Rightarrow> 'b list" where
  "blocks ns v n = concat (map (\<lambda>k. replicate (ns ! k) (v k)) [0..<n])"

lemma blocks_Suc: "blocks ns v (Suc n) = blocks ns v n @ replicate (ns ! n) (v n)"
  by (simp add: blocks_def)

lemma blocks_0 [simp]: "blocks ns v 0 = []"
  by (simp add: blocks_def)

lemma blocks_zeros:
  "m \<le> n \<Longrightarrow> (\<forall>k. m \<le> k \<and> k < n \<longrightarrow> ns ! k = 0) \<Longrightarrow> blocks ns v n = blocks ns v m"
  by (induction n) (auto simp: blocks_Suc le_Suc_eq)

lemma set_blocks: "set (blocks ns v n) \<subseteq> v ` {..<n}"
  by (auto simp: blocks_def)

lemma blocks_mono: "m \<le> n \<Longrightarrow> length (blocks ns v m) \<le> length (blocks ns v n)"
  by (induction n) (auto simp: blocks_Suc le_Suc_eq)

definition counts_of :: "('a \<Rightarrow> nat) \<Rightarrow> 'a list \<Rightarrow> nat \<Rightarrow> nat list" where
  "counts_of ky xs n = map (cnt ky xs) [0..<n]"

lemma map_blocks: "map f (blocks ns v n) = blocks ns (\<lambda>k. f (v k)) n"
  by (induction n) (simp_all add: blocks_Suc)

lemma blocks_sort_key:
  assumes "\<forall>x \<in> set xs. ky x < n" and "\<forall>x \<in> set xs. g x = v (ky x)"
  shows "map g (sort_key ky xs) = blocks (counts_of ky xs n) v n"
proof -
  have m: "map g (filter (\<lambda>x. ky x = k) xs) = replicate (cnt ky xs k) (v k)" for k
    using assms(2) by (intro replicate_eqI) (auto simp: cnt_def)
  have "map g (sort_key ky xs) = concat (map (\<lambda>k. map g (filter (\<lambda>x. ky x = k) xs)) [0..<n])"
    unfolding sort_key_concat [OF assms(1)] map_concat map_map comp_def ..
  also have "\<dots> = blocks (counts_of ky xs n) v n"
    unfolding m blocks_def counts_of_def by (rule arg_cong [where f = concat]) (rule map_cong, simp_all)
  finally show ?thesis .
qed

lemma fold_bump:
  assumes "\<forall>x \<in> set xs. ky x < n" and "length cs = n"
  shows "fold (\<lambda>x. bump (ky x)) xs cs = map (\<lambda>k. cs ! k + int (cnt ky xs k)) [0..<n]"
  using assms
proof (induction xs arbitrary: cs)
  case Nil
  then show ?case by (auto intro: nth_equalityI)
next
  case (Cons x xs)
  then have "fold (\<lambda>x. bump (ky x)) xs (bump (ky x) cs) = map (\<lambda>k. bump (ky x) cs ! k + int (cnt ky xs k)) [0..<n]"
    by (simp add: bump_nth)
  with Cons.prems show ?case by (auto simp: bump_nth)
qed

section \<open>CountingSort\<close>

definition counting_kind :: "ta_kind \<Rightarrow> bool \<Rightarrow> bool" where
  "counting_kind K sg = (if sg then K = Int8 else K = Uint8 \<or> K = Uint8Clamped)"

definition min_of :: "bool \<Rightarrow> int" where
  "min_of sg = (if sg then - 128 else 0)"

definition byte_key :: "ta_kind \<Rightarrow> bool \<Rightarrow> tval \<Rightarrow> nat" where
  "byte_key K sg x = nat (sint (int32_of (elem K x)) - min_of sg)"

lemma sint_of_int32: "- (2 ^ 31) \<le> i \<Longrightarrow> i < 2 ^ 31 \<Longrightarrow> sint (word_of_int i :: 32 word) = i"
  by (simp add: sint_uint uint_word_of_int_eq signed_take_bit_take_bit signed_take_bit_int_eq_self)

lemma byte_elem:
  assumes "counting_kind K sg"
  shows "min_of sg \<le> elem_int K w \<and> elem_int K w < min_of sg + 256"
    and "elem K (Elt w) = vint (elem_int K w)"
    and "sint (int32_of (elem K (Elt w))) = elem_int K w"
proof -
  have 1: "- 128 \<le> sint v \<and> sint v < 128" for v :: "8 word"
    using sint_greater_eq [of v] sint_lt [of v] by simp
  have 2: "0 \<le> uint v \<and> uint v < 256" for v :: "8 word"
    using uint_lt2p [of v] by simp
  show r: "min_of sg \<le> elem_int K w \<and> elem_int K w < min_of sg + 256"
    using assms 1 2 by (auto simp: counting_kind_def min_of_def split: if_splits)
  show e: "elem K (Elt w) = vint (elem_int K w)"
    by (rule int_elem) (use assms in \<open>auto simp: counting_kind_def split: if_splits\<close>)
  have "- (2 ^ 31) \<le> elem_int K w" "elem_int K w < 2 ^ 31"
    using r by (auto simp: min_of_def split: if_splits)
  then show "sint (int32_of (elem K (Elt w))) = elem_int K w"
    unfolding e int32_of_vint by (rule sint_of_int32)
qed

lemma byte_key_elem:
  assumes "counting_kind K sg" "x \<noteq> UndefT"
  shows "byte_key K sg x < 256" and "elem K x = vint (int (byte_key K sg x) + min_of sg)"
    and "sint (int32_of (elem K x)) - min_of sg = int (byte_key K sg x)"
proof -
  from assms(2) obtain w where x: "x = Elt w" by (cases x) auto
  note b = byte_elem [OF assms(1), of w]
  have k: "int (byte_key K sg x) = elem_int K w - min_of sg"
    unfolding byte_key_def x b(3) using b(1) by simp
  show "byte_key K sg x < 256" using k b(1) by linarith
  show "elem K x = vint (int (byte_key K sg x) + min_of sg)" unfolding x b(2) by (simp only: k [unfolded x] diff_add_cancel)
  show "sint (int32_of (elem K x)) - min_of sg = int (byte_key K sg x)" unfolding x b(3) k [unfolded x] ..
qed

lemma elem_store_byte:
  assumes "counting_kind K sg" "k < 256"
  shows "elem K (store_int K (int k + min_of sg)) = vint (int k + min_of sg)" "store_int K (int k + min_of sg) \<noteq> UndefT"
proof -
  have ud: "ucast (ucast (v :: 8 word) :: 64 word) = v" for v
    by (rule bit_word_eqI) (auto simp: bit_ucast_iff)
  have s: "sint (word_of_int i :: 8 word) = i" if "- 128 \<le> i" "i < 128" for i
    using that by (simp add: sint_uint uint_word_of_int_eq signed_take_bit_take_bit signed_take_bit_int_eq_self)
  have u: "uint (word_of_int i :: 8 word) = i" if "0 \<le> i" "i < 256" for i
    using that by (simp add: uint_word_of_int_eq take_bit_int_eq_self)
  have K: "K = Int8 \<and> sg \<or> K = Uint8 \<and> \<not> sg \<or> K = Uint8Clamped \<and> \<not> sg"
    using assms(1) by (auto simp: counting_kind_def split: if_splits)
  obtain w where w: "store_int K (int k + min_of sg) = Elt w" using K by auto
  have "elem_int K w = int k + min_of sg"
    using K
  proof (elim disjE conjE)
    assume "K = Int8" "sg"
    with w have "w = ucast (word_of_int (int k - 128) :: 8 word)" by (simp add: min_of_def)
    with \<open>K = Int8\<close> \<open>sg\<close> show ?thesis
      using s [of "int k - 128"] assms(2) by (simp only: elem_int.simps ud min_of_def if_True)
  next
    assume "K = Uint8" "\<not> sg"
    with w have "w = ucast (word_of_int (int k) :: 8 word)" by (simp add: min_of_def)
    with \<open>K = Uint8\<close> \<open>\<not> sg\<close> show ?thesis
      using u [of "int k"] assms(2) by (simp add: ud min_of_def)
  next
    assume "K = Uint8Clamped" "\<not> sg"
    moreover have "max 0 (min 255 (int k)) = int k" using assms(2) by auto
    ultimately have "w = ucast (word_of_int (int k) :: 8 word)" using w by (simp only: store_int.simps tval.inject min_of_def if_False) simp
    with \<open>K = Uint8Clamped\<close> \<open>\<not> sg\<close> show ?thesis
      using u [of "int k"] assms(2) by (simp add: ud min_of_def)
  qed
  then show "elem K (store_int K (int k + min_of sg)) = vint (int k + min_of sg)"
    unfolding w byte_elem(2) [OF assms(1)] by (rule arg_cong [where f = vint])
  show "store_int K (int k + min_of sg) \<noteq> UndefT" unfolding w by simp
qed

context elem_array begin

lemma fill_loop:
  assumes "x \<noteq> UndefT"
  shows "view t = us @ vs \<Longrightarrow> i = int (length us) \<Longrightarrow> j \<le> length vs \<Longrightarrow>
    for_each i (i + int j) (\<lambda>i. wr A i x) t = (Ret (), upd (us @ replicate j x @ drop j vs) t)"
proof (induction j arbitrary: t us vs i)
  case 0
  then show ?case using upd_view [of t] by (simp add: for_each_done run_simps)
next
  case (Suc j)
  then obtain v vs' where vs: "vs = v # vs'" by (cases vs) auto
  let ?t = "upd (us @ x # vs') t"
  have w: "wr A i x t = (Ret (), ?t)"
    using wr_at [of t us v vs' i x] Suc.prems vs assms by simp
  have v: "view ?t = (us @ [x]) @ vs'" using Suc.prems(1) vs by (simp add: view_upd)
  have "for_each (i + 1) (i + 1 + int j) (\<lambda>i. wr A i x) ?t = (Ret (), upd ((us @ [x]) @ replicate j x @ drop j vs') ?t)"
    by (rule Suc.IH [OF v]) (use Suc.prems vs in auto)
  with w vs show ?case by (simp add: for_each_step run_simps upd_upd algebra_simps)
qed

definition written :: "ta_kind \<Rightarrow> bool \<Rightarrow> tval list \<Rightarrow> nat \<Rightarrow> tval list" where
  "written K sg xs n = blocks (counts_of (byte_key K sg) xs 256) (\<lambda>k. store_int K (int k + min_of sg)) n"

lemma written_values:
  assumes K: "counting_kind K sg" and val: "\<forall>x \<in> set xs. x \<noteq> UndefT"
  shows "value_sorted K xs (written K sg xs 256)"
proof -
  let ?ky = "byte_key K sg"
  have ky: "\<forall>x \<in> set xs. ?ky x < 256" using byte_key_elem(1) [OF K] val by blast
  have "value_sorted K xs (sort_key ?ky xs)"
  proof (rule value_sortedI [OF val])
    show "\<forall>y \<in> set (sort_key ?ky xs). y \<noteq> UndefT" using val by simp
    show "mset (map (elem K) (sort_key ?ky xs)) = mset (map (elem K) xs)"
      unfolding mset_map by (rule arg_cong [where f = "image_mset (elem K)"]) simp
    have "sorted_wrt (\<lambda>x y. ?ky x \<le> ?ky y) (sort_key ?ky xs)"
      using sorted_sort_key [of ?ky xs] unfolding sorted_wrt_map .
    then have "sorted_wrt (\<lambda>x y. compare (elem_order K) x y \<noteq> Greater) (sort_key ?ky xs)"
    proof (rule sorted_wrt_mono_rel [rotated])
      fix x y assume "x \<in> set (sort_key ?ky xs)" "y \<in> set (sort_key ?ky xs)" and le: "?ky x \<le> ?ky y"
      then have "x \<noteq> UndefT" "y \<noteq> UndefT" using val by auto
      with le show "compare (elem_order K) x y \<noteq> Greater"
        unfolding compare_elem_order byte_key_elem(2) [OF K \<open>x \<noteq> UndefT\<close>] byte_key_elem(2) [OF K \<open>y \<noteq> UndefT\<close>] compare_vint
        by simp
    qed
    then show "Sorting_Algorithms.sorted (elem_order K) (sort_key ?ky xs)" by (rule sorted_if_sorted_wrt)
  qed
  moreover have eq: "map (elem K) (sort_key ?ky xs) = map (elem K) (written K sg xs 256)"
  proof -
    have "map (elem K) (sort_key ?ky xs) = blocks (counts_of ?ky xs 256) (\<lambda>k. vint (int k + min_of sg)) 256"
      by (rule blocks_sort_key [OF ky]) (use byte_key_elem(2) [OF K] val in blast)
    also have "\<dots> = map (elem K) (written K sg xs 256)"
    proof -
      have "blocks ns (\<lambda>k. vint (int k + min_of sg)) n = blocks ns (\<lambda>k. elem K (store_int K (int k + min_of sg))) n"
        if "n \<le> 256" for ns n
        using that
      proof (induction n)
        case (Suc n)
        then have "elem K (store_int K (int n + min_of sg)) = vint (int n + min_of sg)"
          by (intro elem_store_byte(1) [OF K]) simp
        with Suc show ?case unfolding blocks_Suc by simp
      qed simp
      then show ?thesis unfolding written_def map_blocks by simp
    qed
    finally show ?thesis .
  qed
  moreover have "\<forall>y \<in> set (written K sg xs 256). y \<noteq> UndefT"
  proof
    fix y assume "y \<in> set (written K sg xs 256)"
    then have "y \<in> (\<lambda>k. store_int K (int k + min_of sg)) ` {..<256}"
      unfolding written_def by (rule subsetD [OF set_blocks])
    then obtain k where "k < 256" "y = store_int K (int k + min_of sg)" by (elim imageE) simp
    with elem_store_byte(2) [OF K] show "y \<noteq> UndefT" by simp
  qed
  moreover have "length (written K sg xs 256) = length xs"
    using arg_cong [OF eq, of length] by simp
  ultimately show ?thesis
    unfolding value_sorted_def by simp
qed

lemma length_written:
  assumes K: "counting_kind K sg" and val: "\<forall>x \<in> set xs. x \<noteq> UndefT"
  shows "length (written K sg xs 256) = length xs"
  using written_values [OF assms] by (simp add: value_sorted_def)

lemma next_block:
  fixes ns :: "nat list"
  assumes "length (blocks ns v n) < length (blocks ns v 256)" and "n \<le> 256"
  shows "\<exists>k. n \<le> k \<and> k < 256 \<and> ns ! k \<noteq> 0"
proof (rule ccontr)
  assume "\<not> ?thesis"
  with assms(2) blocks_zeros [of n 256 ns v] have "blocks ns v 256 = blocks ns v n" by auto
  with assms(1) show False by simp
qed

text \<open>\<open>do { j = buffer[++val]; } while (j === 0)\<close> finds the next value that occurs.\<close>

lemma wp_skip_zeros:
  fixes buffer :: "int list"
  assumes "- 1 \<le> v0" "v0 < int k" "k < 256" "buffer ! k \<noteq> 0" and "258 \<le> fuel"
    and Q: "\<And>v. v0 < int v \<Longrightarrow> v \<le> k \<Longrightarrow> buffer ! v \<noteq> 0 \<Longrightarrow> (\<forall>l. v0 < int l \<and> l < v \<longrightarrow> buffer ! l = 0) \<Longrightarrow> Q (int v) s"
  shows "wp (loop_fuel fuel (\<lambda>val. let val = val + 1 in
      ret (if val < 256 \<and> buffer ! nat val = 0 then Inl val else Inr val)) v0) Q E s"
proof (rule wp_loop_fuel [where I = "\<lambda>v t. t = s \<and> v0 \<le> v \<and> v < int k \<and> (\<forall>l. v0 < int l \<and> int l \<le> v \<longrightarrow> buffer ! l = 0)"
      and v = "\<lambda>v t. nat (256 - v)"])
  fix v t assume I: "t = s \<and> v0 \<le> v \<and> v < int k \<and> (\<forall>l. v0 < int l \<and> int l \<le> v \<longrightarrow> buffer ! l = 0)"
  obtain n where n: "v + 1 = int n" using I assms(1) zero_le_imp_eq_int [of "v + 1"] by auto
  have nk: "n \<le> k" "v0 < int n" "v = int n - 1" using n I by auto
  show "wp (let val = v + 1 in ret (if val < 256 \<and> buffer ! nat val = 0 then Inl val else Inr val))
    (\<lambda>x s'. case x of Inl c' \<Rightarrow> (s' = s \<and> v0 \<le> c' \<and> c' < int k \<and> (\<forall>l. v0 < int l \<and> int l \<le> c' \<longrightarrow> buffer ! l = 0))
        \<and> nat (256 - c') < nat (256 - v) | Inr r \<Rightarrow> Q r s') E t"
  proof (cases "buffer ! n = 0")
    case True
    with assms(4) nk have "n < k" by (cases "n = k") auto
    moreover have "buffer ! l = 0" if "v0 < int l" "int l \<le> int n" for l
      using that I nk True by (cases "l = n") auto
    ultimately show ?thesis using True n nk I assms(3) by (simp add: wp_ret)
  next
    case False
    have "Q (int n) s" by (rule Q) (use False nk I in auto)
    with False n I show ?thesis by (simp add: wp_ret)
  qed
qed (use assms in auto)

text \<open>The loop that writes the values back.\<close>

lemma counting_loop:
  fixes ns :: "nat list"
  assumes K: "counting_kind K sg" and val: "\<forall>x \<in> set (view s). x \<noteq> UndefT"
    and len: "len = int (length (view s))" and fuel: "258 \<le> fuel"
    and ns: "ns = counts_of (byte_key K sg) (view s) 256" and buffer: "buffer = map int ns"
  shows "wp (CountingSort_write fuel K A len (min_of sg) buffer) (\<lambda>_ t. t = upd (written K sg (view s) 256) s) E s"
proof -
  let ?W = "written K sg (view s)"
  let ?body = "\<lambda>(i, val).
          if i < len then
            bnd (loop_fuel fuel (\<lambda>val.
                   let val = val + 1 in
                   ret (if val < 256 \<and> buffer ! nat val = 0 then Inl val else Inr val)) val) (\<lambda>val.
            let j = (if val < 256 then buffer ! nat val else 0) in
            sq (for_each i (i + j) (\<lambda>i. wr A i (store_int K (val + min_of sg))))
               (ret (Inl (i + j, val))))
          else ret (Inr ())"
  let ?I = "\<lambda>c t. - 1 \<le> snd c \<and> snd c < 256 \<and> fst c = int (length (?W (nat (snd c + 1))))
      \<and> t = upd (?W (nat (snd c + 1)) @ drop (nat (fst c)) (view s)) s"
  have lenW: "length (?W n) \<le> length (view s)" if "n \<le> 256" for n
    using blocks_mono [OF that] length_written [OF K val] unfolding written_def by (metis (no_types))
  have buf: "buffer ! k = int (ns ! k)" if "k < 256" for k
    using that unfolding buffer ns by (simp add: counts_of_def)
  have step: "wp (?body (i, v)) (\<lambda>x t'. case x of Inl c' \<Rightarrow> ?I c' t' \<and> nat (256 - snd c') < nat (256 - v)
        | Inr _ \<Rightarrow> t' = upd (?W 256) s) E t" if I: "?I (i, v) t" for i v t
  proof -
    obtain n where n: "v + 1 = int n" using I zero_le_imp_eq_int [of "v + 1"] by auto
    have v: "- 1 \<le> v" "v = int n - 1" and n256: "n \<le> 256" and i: "i = int (length (?W n))"
      and t: "t = upd (?W n @ drop (length (?W n)) (view s)) s"
      using I n by auto
    have vt: "view t = ?W n @ drop (length (?W n)) (view s)"
      unfolding t by (rule view_upd) (use lenW [OF n256] in simp)
    show ?thesis
    proof (cases "i < len")
      case False
      then have "length (?W n) = length (view s)" using lenW [OF n256] i len by simp
      moreover have "?W 256 = ?W n"
      proof (rule ccontr)
        assume "?W 256 \<noteq> ?W n"
        then obtain k where k: "n \<le> k" "k < 256" "ns ! k \<noteq> 0"
          using blocks_zeros [of n 256 ns] n256 unfolding written_def ns by fastforce
        have "length (?W (Suc k)) \<le> length (view s)" using lenW k by simp
        moreover have "length (?W n) \<le> length (?W k)" unfolding written_def by (rule blocks_mono [OF k(1)])
        moreover have "length (?W (Suc k)) = length (?W k) + ns ! k" unfolding written_def blocks_Suc ns by simp
        ultimately show False using \<open>length (?W n) = length (view s)\<close> k(3) by simp
      qed
      ultimately have "t = upd (?W 256) s" unfolding t by simp
      with False show ?thesis by (simp add: wp_ret)
    next
      case True
      then have "length (?W n) < length (?W 256)" using i len length_written [OF K val] by simp
      then obtain k where k: "n \<le> k" "k < 256" "ns ! k \<noteq> 0"
        using next_block n256 unfolding written_def ns by blast
      have "wp (loop_fuel fuel (\<lambda>val. let val = val + 1 in
          ret (if val < 256 \<and> buffer ! nat val = 0 then Inl val else Inr val)) v)
        (\<lambda>val. wp (let j = (if val < 256 then buffer ! nat val else 0) in
            sq (for_each i (i + j) (\<lambda>i. wr A i (store_int K (val + min_of sg))))
               (ret (Inl (i + j, val))))
           (\<lambda>x t'. case x of Inl c' \<Rightarrow> ?I c' t' \<and> nat (256 - snd c') < nat (256 - v)
        | Inr _ \<Rightarrow> t' = upd (?W 256) s) E) E t"
      proof (rule wp_skip_zeros [where k = k])
        fix m assume m: "v < int m" "m \<le> k" "\<forall>l. v < int l \<and> l < m \<longrightarrow> buffer ! l = 0"
        have m': "n \<le> m" "m < 256" using m v k by auto
        have zeros: "\<forall>l. n \<le> l \<and> l < m \<longrightarrow> ns ! l = 0"
        proof (intro allI impI)
          fix l assume "n \<le> l \<and> l < m"
          with m(3) v have "buffer ! l = 0" by auto
          with buf [of l] \<open>n \<le> l \<and> l < m\<close> m' show "ns ! l = 0" by simp
        qed
        have Wm: "?W m = ?W n" unfolding written_def ns [symmetric] by (rule blocks_zeros [OF m'(1) zeros])
        have "?W (Suc m) = ?W m @ replicate (ns ! m) (store_int K (int m + min_of sg))"
          unfolding written_def blocks_Suc ns ..
        then have WS: "?W (Suc m) = ?W n @ replicate (ns ! m) (store_int K (int m + min_of sg))"
          unfolding Wm .
        have fits: "length (?W n) + ns ! m \<le> length (view s)" using lenW [of "Suc m"] m' unfolding WS by simp
        have "for_each i (i + int (ns ! m)) (\<lambda>i. wr A i (store_int K (int m + min_of sg))) t
          = (Ret (), upd (?W n @ replicate (ns ! m) (store_int K (int m + min_of sg)) @ drop (ns ! m) (drop (length (?W n)) (view s))) t)"
          by (rule fill_loop [OF elem_store_byte(2) [OF K m'(2)] vt i]) (use fits in simp)
        then have fl: "for_each i (i + int (ns ! m)) (\<lambda>i. wr A i (store_int K (int m + min_of sg))) t
          = (Ret (), upd (?W (Suc m) @ drop (length (?W (Suc m))) (view s)) s)"
          unfolding WS t by (simp add: upd_upd add.commute)
        have nm: "nat (int m + 1) = Suc m" by simp
        let ?T = "upd (?W (Suc m) @ drop (length (?W (Suc m))) (view s)) s"
        have run: "(let j = (if int m < 256 then buffer ! nat (int m) else 0) in
            sq (for_each i (i + j) (\<lambda>i. wr A i (store_int K (int m + min_of sg))))
               (ret (Inl (i + j, int m)))) t = (Ret (Inl (i + int (ns ! m), int m)), ?T)"
          using fl buf [OF m'(2)] m'(2) by (simp add: Let_def run_simps)
        have inv: "?I (i + int (ns ! m), int m) ?T"
          unfolding fst_conv snd_conv nm using m' i WS by (simp add: nat_add_distrib)
        have "nat (256 - int m) < nat (256 - v)" using m(1) m'(2) by simp
        with inv show "wp (let j = (if int m < 256 then buffer ! nat (int m) else 0) in
            sq (for_each i (i + j) (\<lambda>i. wr A i (store_int K (int m + min_of sg))))
               (ret (Inl (i + j, int m))))
           (\<lambda>x t'. case x of Inl c' \<Rightarrow> ?I c' t' \<and> nat (256 - snd c') < nat (256 - v)
        | Inr _ \<Rightarrow> t' = upd (?W 256) s) E t"
          unfolding wp_def run by (simp only: prod.case res.case sum.case fst_conv snd_conv)
      qed (use k v fuel buf [OF k(2)] in auto)
      with True show ?thesis by (simp add: wp_bnd del: fst_conv snd_conv)
    qed
  qed
  show ?thesis
    unfolding CountingSort_write_def
  proof (rule wp_loop_fuel [where I = ?I and v = "\<lambda>c t. nat (256 - snd c)"])
    show "?I (0, - 1) s" by (simp add: written_def upd_view)
    show "nat (256 - snd (0 :: int, - 1 :: int)) < fuel" using fuel by simp
    fix c t assume I: "?I c t"
    show "wp (?body c) (\<lambda>x t'. case x of Inl c' \<Rightarrow> ?I c' t' \<and> nat (256 - snd c') < nat (256 - snd c)
        | Inr _ \<Rightarrow> t' = upd (?W 256) s) E t"
      using step [of "fst c" "snd c" t] I by (cases c) simp
  qed
qed

lemma CountingSort_values:
  assumes K: "counting_kind K sg"
    and cmp: "comparefn_for (elem_order K) (\<lambda>x. x \<noteq> UndefT) (\<lambda>x y. comparefn (elem K x) (elem K y))"
    and val: "\<forall>x \<in> set (view s). x \<noteq> UndefT"
    and len: "len = int (length (view s))" "len \<le> 0x7FFFFFFF" and fuel: "2 * length (view s) + 2 \<le> fuel"
  shows "\<exists>ys. CountingSort fuel K A len sg comparefn s = (Ret (), upd ys s) \<and> value_sorted K (view s) ys"
proof (cases "len < 128")
  case True
  with QuickSort_values [OF cmp val len fuel] show ?thesis by (simp add: CountingSort_def)
next
  case False
  let ?ky = "byte_key K sg" and ?ns = "counts_of (byte_key K sg) (view s) 256"
  let ?Q = "\<lambda>_ t. t = upd (written K sg (view s) 256) s"
  have ky: "\<forall>x \<in> set (view s). ?ky x < 256" using byte_key_elem(1) [OF K] val by blast
  have buffer: "fold (\<lambda>x. bump (?ky x)) (view s) (replicate 256 0) = map int ?ns"
    unfolding fold_bump [OF ky, of "replicate 256 0", simplified] by (simp add: counts_of_def)
  have mn: "(if sg then - 128 else 0) = min_of sg" by (simp add: min_of_def)
  have "wp (CountingSort fuel K A len sg comparefn) ?Q (\<lambda>_ _. False) s"
    unfolding CountingSort_def if_not_P [OF False] Let_def mn wp_bnd
  proof (rule read_loop [OF len(1), where f = "\<lambda>x. bump (?ky x)"])
    fix i and c :: "int list"
    assume i: "0 \<le> i" "i < len"
    then have r: "rd A i s = (Ret (view s ! nat i), s)" using rd_in [of i s] len by simp
    have "view s ! nat i \<noteq> UndefT" using i len val by simp
    from byte_key_elem(3) [OF K this]
    show "bnd (rd A i) (\<lambda>x. ret (c[nat (sint (int32_of (elem K x)) - min_of sg) :=
        c ! nat (sint (int32_of (elem K x)) - min_of sg) + 1])) s = (Ret (bump (?ky (view s ! nat i)) c), s)"
      unfolding bnd_run(1) [of "rd A i", OF r] by (simp add: bump_def ret_def)
  next
    show "wp (CountingSort_write fuel K A len (min_of sg) (fold (\<lambda>x. bump (?ky x)) (view s) (replicate 256 0))) ?Q (\<lambda>_ _. False) s"
      by (rule counting_loop [OF K val len(1) _ refl buffer]) (use fuel False len in simp)
  qed
  then show ?thesis using written_values [OF K val] by (auto dest!: wp_runD)
qed

end

end
