(* ===== verification/SortFrame.thy ===== *)
theory SortFrame
  imports SortMergeTop
begin

text \<open>
  What the merge sorts do for any comparison function whatsoever: a state predicate that the
  array operations and the comparison function keep is kept by the sort, and comparison functions
  that agree where it holds give the same run (up to calls the first one asserts against).
\<close>

definition agree :: "('s \<Rightarrow> bool) \<Rightarrow> ('s, 'e, 'a) prog \<Rightarrow> ('s, 'e, 'a) prog \<Rightarrow> bool" where
  "agree P m m' = (\<forall>s. P s \<longrightarrow> (\<exists>msg. fst (m s) = AssertFail msg) \<or> m s = m' s \<and> P (snd (m s)))"

named_theorems agrees "programs that agree, unless an assertion of the first fails"

lemma agreeD: "agree P m m' \<Longrightarrow> P s \<Longrightarrow> (\<exists>msg. fst (m s) = AssertFail msg) \<or> m s = m' s \<and> P (snd (m s))"
  unfolding agree_def by blast

lemma agree_Ret: "agree P m m' \<Longrightarrow> P s \<Longrightarrow> m s = (Ret a, t) \<Longrightarrow> m' s = (Ret a, t)"
  using agreeD [of P m m' s] by auto

lemma agree_ret [agrees]: "agree P (ret a) (ret a)"
  by (simp add: agree_def ret_def)

lemma agree_gets [agrees]: "agree P (gets f) (gets f)"
  by (simp add: agree_def gets_def)

lemma agree_bnd [agrees]:
  assumes m: "agree P m m'" and f: "\<And>a. agree P (f a) (f' a)"
  shows "agree P (bnd m f) (bnd m' f')"
  unfolding agree_def
proof (intro allI impI)
  fix s assume Ps: "P s"
  obtain r t where rt: "m s = (r, t)" by fastforce
  show "(\<exists>msg. fst (bnd m f s) = AssertFail msg) \<or> bnd m f s = bnd m' f' s \<and> P (snd (bnd m f s))"
  proof (cases "\<exists>msg. r = AssertFail msg")
    case True
    then show ?thesis unfolding bnd_def rt by auto
  next
    case False
    with agreeD [OF m Ps] have rt': "m' s = (r, t)" and "P t" unfolding rt by auto
    show ?thesis
    proof (cases r)
      case (Ret a)
      with agreeD [OF f \<open>P t\<close>] show ?thesis unfolding bnd_def rt rt' by simp
    qed (use \<open>P t\<close> in \<open>simp_all add: bnd_def rt rt'\<close>)
  qed
qed

lemma agree_sq [agrees]: "agree P m m' \<Longrightarrow> agree P n n' \<Longrightarrow> agree P (sq m n) (sq m' n')"
  unfolding sq_def by (rule agree_bnd)

lemma agree_if [agrees]: "agree P m m' \<Longrightarrow> agree P n n' \<Longrightarrow> agree P (if b then m else n) (if b then m' else n')"
  by simp

lemma agree_when [agrees]: "agree P m m' \<Longrightarrow> agree P (whenJ b m) (whenJ b m')"
  by (simp add: whenJ_def agree_ret)

lemma agree_case_prod [agrees]:
  "(\<And>a b. agree P (f a b) (f' a b)) \<Longrightarrow> agree P (case p of (a, b) \<Rightarrow> f a b) (case p of (a, b) \<Rightarrow> f' a b)"
  by (cases p) simp

lemma agree_case_sum [agrees]:
  "(\<And>a. agree P (f a) (f' a)) \<Longrightarrow> (\<And>b. agree P (g b) (g' b)) \<Longrightarrow>
   agree P (case x of Inl a \<Rightarrow> f a | Inr b \<Rightarrow> g b) (case x of Inl a \<Rightarrow> f' a | Inr b \<Rightarrow> g' b)"
  by (cases x) simp_all

lemma agree_for_each [agrees]:
  assumes "\<And>i. agree P (body i) (body' i)"
  shows "agree P (for_each k n body) (for_each k n body')"
proof (induction "nat (n - k)" arbitrary: k rule: less_induct)
  case less
  show ?case
  proof (cases "k < n")
    case True
    then have "agree P (for_each (k + 1) n body) (for_each (k + 1) n body')" by (intro less) simp
    with True assms show ?thesis by (simp add: for_each_step agree_sq)
  next
    case False
    then show ?thesis by (simp add: for_each_done agree_ret)
  qed
qed

lemma agree_for_down [agrees]:
  assumes "\<And>i c. agree P (body i c) (body' i c)"
  shows "agree P (for_down k lo body c) (for_down k lo body' c)"
proof (induction "nat (k - lo + 1)" arbitrary: k c rule: less_induct)
  case less
  show ?case
  proof (cases "lo \<le> k")
    case True
    then have "agree P (for_down (k - 1) lo body c) (for_down (k - 1) lo body' c)" for c by (intro less) simp
    with True show ?thesis by (simp add: for_down_step) (intro agrees assms)
  next
    case False
    then show ?thesis by (simp add: for_down_done agree_ret)
  qed
qed

lemma agree_for_step [agrees]:
  fixes body :: "int \<Rightarrow> ('s, 'e, unit) prog"
  assumes "\<And>i. agree P (body i) (body' i)"
  shows "agree P (for_step k step n body) (for_step k step n body')"
proof (induction "nat (n - k)" arbitrary: k rule: less_induct)
  case less
  show ?case
  proof (cases "k < n \<and> 0 < step")
    case True
    then have e: "for_step k step n b = sq (b k) (for_step (k + step) step n b)" for b :: "int \<Rightarrow> ('s, 'e, unit) prog"
      by (intro for_step_step) simp_all
    have "agree P (for_step (k + step) step n body) (for_step (k + step) step n body')"
      by (rule less) (use True in simp)
    then show ?thesis unfolding e by (intro agree_sq assms)
  next
    case False
    then have e: "for_step k step n b = ret ()" for b :: "int \<Rightarrow> ('s, 'e, unit) prog"
      by (subst for_step.simps) auto
    show ?thesis unfolding e by (rule agree_ret)
  qed
qed

section \<open>The sorts\<close>

text \<open>An array whose operations keep the predicate, and two comparison functions.\<close>

definition keeps :: "('s \<Rightarrow> bool) \<Rightarrow> ('s, 'e, 'a) arrayI \<Rightarrow> bool" where
  "keeps P A = ((\<forall>i. agree P (rd A i) (rd A i)) \<and> (\<forall>i x. agree P (wr A i x) (wr A i x)))"

lemma keeps_rd [agrees]: "keeps P A \<Longrightarrow> agree P (rd A i) (rd A i)"
  and keeps_wr [agrees]: "keeps P A \<Longrightarrow> agree P (wr A i x) (wr A i x)"
  by (simp_all add: keeps_def)

definition cmp_agree :: "('s \<Rightarrow> bool) \<Rightarrow> ('a \<Rightarrow> 'a \<Rightarrow> ('s, 'e, num) prog) \<Rightarrow> ('a \<Rightarrow> 'a \<Rightarrow> ('s, 'e, num) prog) \<Rightarrow> bool" where
  "cmp_agree P f g = (\<forall>x y. agree P (f x y) (g x y))"

lemma cmp_agreeD [agrees]: "cmp_agree P f g \<Longrightarrow> agree P (f x y) (g x y)"
  by (simp add: cmp_agree_def)

lemma agree_InsertionSort: "cmp_agree P f g \<Longrightarrow> keeps P A \<Longrightarrow> agree P (InsertionSort A frm to f) (InsertionSort A frm to g)"
  unfolding InsertionSort_def InsertionSort_inner_def by (intro agrees; assumption)

lemma agree_Merge_while:
  assumes cmp: "cmp_agree P f g" and A: "keeps P A" and B: "keeps P B"
  shows "agree P (Merge_while A B mid end' f i j k) (Merge_while A B mid end' g i j k)"
proof (induction "nat (mid - i + 1) + nat (end' - j + 1)" arbitrary: i j k rule: less_induct)
  case less
  show ?case
  proof (cases "i \<le> mid \<and> j \<le> end'")
    case True
    then have "agree P (Merge_while A B mid end' f (i + 1) j (k + 1)) (Merge_while A B mid end' g (i + 1) j (k + 1))"
      "agree P (Merge_while A B mid end' f i (j + 1) (k + 1)) (Merge_while A B mid end' g i (j + 1) (k + 1))"
      by (intro less; simp)+
    with True A B cmp show ?thesis by (simp add: Merge_while_step) (intro agrees; assumption)
  next
    case False
    then have "mid < i \<or> end' < j" by auto
    then show ?thesis by (simp add: Merge_while_done agree_ret)
  qed
qed

lemma agree_Merge_drain:
  assumes A: "keeps P A" and B: "keeps P B"
  shows "agree P (Merge_drain A B bound i k) (Merge_drain A B bound i k)"
proof (induction "nat (bound - i + 1)" arbitrary: i k rule: less_induct)
  case less
  show ?case
  proof (cases "i \<le> bound")
    case True
    then have "agree P (Merge_drain A B bound (i + 1) (k + 1)) (Merge_drain A B bound (i + 1) (k + 1))"
      by (intro less) simp
    with True A B show ?thesis by (simp add: Merge_drain_step) (intro agrees; assumption)
  next
    case False
    then show ?thesis by (simp add: Merge_drain_done agree_ret)
  qed
qed

lemma agree_Merge: "cmp_agree P f g \<Longrightarrow> keeps P A \<Longrightarrow> keeps P B \<Longrightarrow> agree P (Merge A B start mid end' f) (Merge A B start mid end' g)"
  unfolding Merge_def by (intro agrees agree_Merge_while agree_Merge_drain; assumption)

lemma agree_sort_windows: "cmp_agree P f g \<Longrightarrow> keeps P A \<Longrightarrow> agree P (sort_windows A n f) (sort_windows A n g)"
  unfolding sort_windows_def by (intro agrees agree_InsertionSort; assumption)

lemma agree_merge_passes:
  assumes cmp: "cmp_agree P f g"
  shows "keeps P A \<Longrightarrow> keeps P B \<Longrightarrow> agree P (merge_passes w n f flip A B) (merge_passes w n g flip A B)"
proof (induction "nat (n - w)" arbitrary: w flip A B rule: less_induct)
  case less
  show ?case
  proof (cases "w < n \<and> 0 < w")
    case True
    then have "agree P (merge_passes (2 * w) n f (\<not> flip) B A) (merge_passes (2 * w) n g (\<not> flip) B A)"
      using less.prems by (intro less.hyps) simp_all
    then show ?thesis
      unfolding merge_passes.simps [of w] Let_def if_P [OF True]
      by (intro agree_sq agree_for_step agree_Merge cmp less.prems)
  next
    case False
    show ?thesis unfolding merge_passes.simps [of w] if_not_P [OF False] by (rule agree_ret)
  qed
qed

lemma agree_lift:
  fixes m m' :: "('s, 'e, 'a) prog"
  assumes "agree P m m'"
  shows "agree (\<lambda>t. P (snd t)) (lift_locals m) (lift_locals m')"
  unfolding agree_def
proof (intro allI impI)
  fix t assume P: "P (snd t)"
  obtain l s where t: "t = (l, s)" by fastforce
  obtain r s' where r: "m s = (r, s')" by fastforce
  have w: "lift_locals m t = (r, (l, s'))" by (simp add: lift_locals_def r t)
  have w': "lift_locals m' t = (r, (l, s'))" if "m' s = (r, s')" using that by (simp add: lift_locals_def t)
  from agreeD [OF assms, of s] P t r
  have "(\<exists>msg. r = AssertFail msg) \<or> m' s = (r, s') \<and> P s'" by auto
  with w w' show "(\<exists>msg. fst (lift_locals m t) = AssertFail msg) \<or> lift_locals m t = lift_locals m' t \<and> P (snd (snd (lift_locals m t)))"
    by auto
qed

lemma agree_with:
  assumes "agree (\<lambda>t. P (snd t)) m m'"
  shows "agree P (with_locals l m) (with_locals l m')"
  unfolding agree_def
proof (intro allI impI)
  fix s assume P: "P s"
  obtain r l' s' where r: "m (l, s) = (r, (l', s'))" by (metis prod_cases3)
  have w: "with_locals l m s = (r, s')" by (simp add: with_locals_def r)
  have w': "with_locals l m' s = (r, s')" if "m' (l, s) = (r, (l', s'))" using that by (simp add: with_locals_def)
  from agreeD [OF assms, of "(l, s)"] P r
  have "(\<exists>msg. r = AssertFail msg) \<or> m' (l, s) = (r, (l', s')) \<and> P s'" by auto
  with w w' show "(\<exists>msg. fst (with_locals l m s) = AssertFail msg) \<or> with_locals l m s = with_locals l m' s \<and> P (snd (with_locals l m s))"
    by auto
qed

lemma keeps_lift: "keeps P A \<Longrightarrow> keeps (\<lambda>t. P (snd t)) (lift_array A)"
  by (auto simp: keeps_def lift_array_def intro: agree_lift)

lemma keeps_bufs: "keeps (\<lambda>t. P (snd t)) (dense_buf u)" "keeps (\<lambda>t. P (snd t)) (aux_buf u)"
    "keeps (\<lambda>t. P (snd t)) (typed_buf u)"
  by (auto simp: keeps_def agree_def dense_buf_def aux_buf_def typed_buf_def)

lemma agree_MergeSortTypedArray:
  assumes A: "keeps P A" and cmp: "cmp_agree P f g"
  shows "agree P (MergeSortTypedArray u zero A len f) (MergeSortTypedArray u zero A len g)"
proof -
  have lc: "cmp_agree (\<lambda>t. P (snd t)) (lift_cmp f) (lift_cmp g)"
    using cmp unfolding cmp_agree_def lift_cmp_def by (blast intro: agree_lift)
  show ?thesis
    unfolding MergeSortTypedArray_def
    by (intro agree_if agree_InsertionSort cmp A agree_with agree_sq agree_bnd agree_when agree_for_each
        agree_sort_windows agree_merge_passes lc keeps_lift keeps_bufs keeps_rd keeps_wr)
qed

text \<open>
  The part of \<open>MergeSort\<close> that calls the comparison function works on local arrays only: as long
  as that function does not touch the array itself, nothing is written before the sort is over.
\<close>

definition MergeSort_local :: "'a \<Rightarrow> 'a list \<Rightarrow> ('a \<Rightarrow> 'a \<Rightarrow> ('s, 'e, num) prog) \<Rightarrow> ('s, 'e, 'a list) prog" where
  "MergeSort_local u denseList comparefn =
     (let denseLen = int (length denseList) in
      if denseLen < 24 then
        with_locals (denseList, [])
          (sq (InsertionSort (dense_buf u) 0 (denseLen - 1) (lift_cmp comparefn))
              (gets (\<lambda>((a, b), _). a)))
      else
        with_locals (denseList, [])
          (sq (sort_windows (dense_buf u) denseLen (lift_cmp comparefn))
          (bnd (merge_passes 4 denseLen (lift_cmp comparefn) False (dense_buf u) (aux_buf u)) (\<lambda>flip.
           gets (\<lambda>((a, b), _). if flip then b else a)))))"

lemma MergeSort_split:
  "MergeSort u array len comparefn =
     bnd (MergeSort_dense array len) (\<lambda>denseList.
     if int (length denseList) < 1 then ret ()
     else bnd (MergeSort_local u denseList comparefn) (\<lambda>sorted.
       MoveHoles array len sorted u (int (length denseList))))"
  unfolding MergeSort_def MergeSort_local_def Let_def
  by (rule arg_cong [where f = "bnd _"]) (auto simp: fun_eq_iff)

lemma agree_MergeSort_local:
  assumes cmp: "cmp_agree P f g"
  shows "agree P (MergeSort_local u xs f) (MergeSort_local u xs g)"
proof -
  have lc: "cmp_agree (\<lambda>t. P (snd t)) (lift_cmp f) (lift_cmp g)"
    using cmp unfolding cmp_agree_def lift_cmp_def by (blast intro: agree_lift)
  show ?thesis
    unfolding MergeSort_local_def Let_def
    by (intro agree_if agree_InsertionSort agree_with agree_sq agree_bnd agree_gets
        agree_sort_windows agree_merge_passes lc keeps_bufs)
qed

end
