(* ===== verification/TypedSort.thy ===== *)
theory TypedSort
  imports SortCounting SortFrame
begin

text \<open>
  \<open>%TypedArray%.prototype.sort\<close>: the dispatch on the element kind, the wrapper around a
  comparison function of the caller, and what both promise.
\<close>

section \<open>The typed array\<close>

text \<open>
  The object under \<open>this\<close>: its elements, the detached flag of its buffer (a detached buffer has
  no elements left) and the rest of the world that a comparison function can reach.
\<close>

record 'w ta_state =
  ta_data :: "tval list"
  ta_detached :: bool
  ta_world :: 'w

text \<open>Storing \<open>undefined\<close> stores NaN in a float array and 0 in an integer array.\<close>

definition ta_store :: "ta_kind \<Rightarrow> tval \<Rightarrow> tval" where
  "ta_store K x = (case x of
      Elt w \<Rightarrow> Elt w
    | UndefT \<Rightarrow> Elt (if K = Float32 then 0x7FC00000 else if K = Float64 then 0x7FF8000000000000 else 0))"

definition ta_array :: "ta_kind \<Rightarrow> ('w ta_state, exn, tval) arrayI" where
  "ta_array K = \<lparr>
     rd = (\<lambda>i s. (Ret (local_rd UndefT (ta_data s) i), s)),
     wr = (\<lambda>i x s. (Ret (),
       if 0 \<le> i \<and> i < int (length (ta_data s)) then s\<lparr>ta_data := (ta_data s)[nat i := ta_store K x]\<rparr> else s))\<rparr>"

definition ta_upd :: "tval list \<Rightarrow> 'w ta_state \<Rightarrow> 'w ta_state" where
  "ta_upd xs s = s\<lparr>ta_data := xs\<rparr>"

interpretation ta: elem_array "ta_array K" ta_data ta_upd for K
  by unfold_locales
    (auto simp: ta_array_def ta_upd_def ta_store_def local_rd_def split: tval.splits)

interpretation tam: typed_array "ta_array K" ta_data ta_upd "\<lambda>x. x \<noteq> UndefT" UndefT for K
  by unfold_locales

section \<open>TypedArraySort\<close>

text \<open>The argument: \<open>undefined\<close>, not callable, or a function of the caller.\<close>

datatype 's cmp_arg = NoCompare | NotCallable | Compare "val \<Rightarrow> val \<Rightarrow> ('s, exn, val) prog"

definition ta_attached :: "('w ta_state, exn, unit) prog" where
  "ta_attached =
     bnd (gets ta_detached) (\<lambda>d. if d then throw (TypeErr ''JSMSG_TYPED_ARRAY_DETACHED'') else ret ())"

definition TypedArrayLength :: "('w ta_state, exn, int) prog" where
  "TypedArrayLength = gets (\<lambda>s. int (length (ta_data s)))"

text \<open>\<open>toNumber\<close> is the operator \<open>+\<close> on the result of the caller's function.\<close>

definition wrappedCompareFn ::
    "(val \<Rightarrow> ('w ta_state, exn, num) prog) \<Rightarrow> (val \<Rightarrow> val \<Rightarrow> ('w ta_state, exn, val) prog) \<Rightarrow>
     val \<Rightarrow> val \<Rightarrow> ('w ta_state, exn, num) prog" where
  "wrappedCompareFn toNumber comparefn x y =
     bnd (comparefn x y) (\<lambda>r.
     bnd (toNumber r) (\<lambda>v.
     bnd TypedArrayLength (\<lambda>length'.
     if length' = 0 then
       bnd (gets ta_detached) (\<lambda>d.
       sq (asrt d ''Length can only change from non-zero to zero when the buffer was detached'')
          (throw (TypeErr ''JSMSG_TYPED_ARRAY_DETACHED'')))
     else if v = NaN then ret (Fin 0)
     else ret v)))"

definition TypedArraySort_default :: "nat \<Rightarrow> ta_kind \<Rightarrow> int \<Rightarrow> ('w ta_state, exn, unit) prog" where
  "TypedArraySort_default fuel K len = (case K of
      Uint8 \<Rightarrow> CountingSort fuel K (ta_array K) len False TypedArrayCompareInt
    | Uint8Clamped \<Rightarrow> CountingSort fuel K (ta_array K) len False TypedArrayCompareInt
    | Int8 \<Rightarrow> CountingSort fuel K (ta_array K) len True TypedArrayCompareInt
    | Uint16 \<Rightarrow> RadixSort fuel K (ta_array K) len 2 False False TypedArrayCompareInt
    | Int16 \<Rightarrow> RadixSort fuel K (ta_array K) len 2 True False TypedArrayCompareInt
    | Uint32 \<Rightarrow> RadixSort fuel K (ta_array K) len 4 False False TypedArrayCompareInt
    | Int32 \<Rightarrow> RadixSort fuel K (ta_array K) len 4 True False TypedArrayCompareInt
    | BigInt64 \<Rightarrow> QuickSort fuel (ta_array K) len (\<lambda>x y. TypedArrayCompareBigInt (elem K x) (elem K y))
    | BigUint64 \<Rightarrow> QuickSort fuel (ta_array K) len (\<lambda>x y. TypedArrayCompareBigInt (elem K x) (elem K y))
    | Float32 \<Rightarrow> RadixSort fuel K (ta_array K) len 4 True True TypedArrayCompare
    | Float64 \<Rightarrow> QuickSort fuel (ta_array K) len (\<lambda>x y. TypedArrayCompare (elem K x) (elem K y)))"

definition TypedArraySort ::
    "nat \<Rightarrow> ta_kind \<Rightarrow> (val \<Rightarrow> ('w ta_state, exn, num) prog) \<Rightarrow> 'w ta_state cmp_arg \<Rightarrow> ('w ta_state, exn, unit) prog" where
  "TypedArraySort fuel K toNumber comparefn =
     (if comparefn = NotCallable then throw (TypeErr ''JSMSG_NOT_FUNCTION'')
      else
        sq ta_attached
       (bnd TypedArrayLength (\<lambda>len.
        if len \<le> 1 then ret ()
        else case comparefn of
          Compare f \<Rightarrow>
            MergeSortTypedArray UndefT (ta_store K UndefT) (ta_array K) len
              (\<lambda>x y. wrappedCompareFn toNumber f (elem K x) (elem K y))
        | _ \<Rightarrow> TypedArraySort_default fuel K len)))"

section \<open>Properties\<close>

text \<open>An attached array: all entries are elements, at most 2 ^ 31 - 1 of them.\<close>

definition ta_ok :: "'w ta_state \<Rightarrow> bool" where
  "ta_ok s = ((\<forall>x \<in> set (ta_data s). x \<noteq> UndefT) \<and> length (ta_data s) \<le> 0x7FFFFFFF \<and> \<not> ta_detached s)"

lemma ta_upd_simps [simp]: "ta_upd (ta_data s) s = s"
  by (simp add: ta_upd_def)

lemma value_sorted_short:
  assumes "length xs \<le> 1" "\<forall>x \<in> set xs. x \<noteq> UndefT" shows "value_sorted K xs xs"
  using assms by (cases xs) (auto simp: value_sorted_def)

lemma default_sorts:
  assumes "ta_ok s" "len = int (length (ta_data s))" "2 * length (ta_data s) + 2 \<le> fuel"
  shows "\<exists>ys. TypedArraySort_default fuel K len s = (Ret (), ta_upd ys s) \<and> value_sorted K (ta_data s) ys"
proof -
  have a: "\<forall>x \<in> set (ta_data s). x \<noteq> UndefT" "len \<le> 0x7FFFFFFF" using assms by (auto simp: ta_ok_def)
  note counting = ta.CountingSort_values [OF _ TypedArrayCompareInt_order a(1) assms(2) a(2) assms(3)]
  note radix = ta.RadixSort_values [OF _ TypedArrayCompareInt_order a(1) assms(2) a(2) assms(3)]
  note radixf = ta.RadixSort_values [OF _ TypedArrayCompare_order a(1) assms(2) a(2) assms(3)]
  note quick = ta.QuickSort_values [OF TypedArrayCompareBigInt_order a(1) assms(2) a(2) assms(3)]
  note quickf = ta.QuickSort_values [OF TypedArrayCompare_order a(1) assms(2) a(2) assms(3)]
  show ?thesis
    by (cases K)
      (simp_all add: TypedArraySort_default_def counting radix radixf quick quickf counting_kind_def ta.radix_params_def)
qed

text \<open>
  C1: \<open>%TypedArray%.prototype.sort\<close> without a comparison function, on every element kind and at
  every length: it returns, and the values of the array afterwards are the sorted values of the
  array before (numeric order, \<open>-0\<close> before \<open>+0\<close>, NaN last). Fuel linear in the length is enough.
\<close>

theorem TypedArraySort_default_sorts:
  assumes "ta_ok s" and "2 * length (ta_data s) + 2 \<le> fuel"
  shows "\<exists>ys. TypedArraySort fuel K toNumber NoCompare s = (Ret (), s\<lparr>ta_data := ys\<rparr>)
    \<and> length ys = length (ta_data s)
    \<and> map (elem K) ys = Sorting_Algorithms.sort val_order (map (elem K) (ta_data s))"
proof (cases "length (ta_data s) \<le> 1")
  case True
  then have "value_sorted K (ta_data s) (ta_data s)"
    using assms(1) by (intro value_sorted_short) (auto simp: ta_ok_def)
  then have "map (elem K) (ta_data s) = Sorting_Algorithms.sort val_order (map (elem K) (ta_data s))"
    unfolding value_sorted_def by blast
  with True assms(1) show ?thesis
    by (intro exI [of _ "ta_data s"]) (simp add: TypedArraySort_def ta_attached_def TypedArrayLength_def run_simps ta_ok_def)
next
  case False
  obtain ys where ys: "TypedArraySort_default fuel K (int (length (ta_data s))) s = (Ret (), ta_upd ys s)"
    "value_sorted K (ta_data s) ys"
    using default_sorts [OF assms(1) refl assms(2)] by blast
  from ys False assms(1) show ?thesis
    by (intro exI [of _ ys])
      (simp add: TypedArraySort_def ta_attached_def TypedArrayLength_def run_simps ta_ok_def value_sorted_def ta_upd_def)
qed

lemma TypedArraySort_default_sorts_witness:
  "\<exists>ys. TypedArraySort 8 Int16 (\<lambda>_. ret NaN) NoCompare
      \<lparr>ta_data = [Elt 5, Elt 0xFFFF, Elt 3], ta_detached = False, ta_world = ()\<rparr>
    = (Ret (), \<lparr>ta_data = ys, ta_detached = False, ta_world = ()\<rparr>) \<and> length ys = 3"
  using TypedArraySort_default_sorts
    [of "\<lparr>ta_data = [Elt 5, Elt 0xFFFF, Elt 3], ta_detached = False, ta_world = ()\<rparr>" 8 Int16 "\<lambda>_. ret NaN"]
  by (auto simp: ta_ok_def)

lemma length_ta_wr: "length (ta_data (snd (wr (ta_array K) i x s))) = length (ta_data s)"
  by (simp add: ta_array_def)

lemma keeps_ta_array: "keeps (\<lambda>s. ta_data s \<noteq> []) (ta_array K)"
  by (auto simp: keeps_def agree_def ta_array_def)

text \<open>What the wrapper gives for a comparison with a sign, as long as the array is not empty.\<close>

definition has_sign :: "tval comparator \<Rightarrow> tval \<Rightarrow> tval \<Rightarrow> num \<Rightarrow> bool" where
  "has_sign c x y n \<longleftrightarrow> num_lt n (Fin 0) = (compare c x y = Less) \<and> num_gt n (Fin 0) = (compare c x y = Greater)
     \<and> num_le n (Fin 0) = (compare c x y \<noteq> Greater)"

lemma wrappedCompareFn_run:
  assumes n: "bnd (f (elem K x) (elem K y)) toNumber t = (Ret n, t)"
      "num_lt n (Fin 0) = (compare c x y = Less)" "num_gt n (Fin 0) = (compare c x y = Greater)"
    and t: "ta_data t \<noteq> []"
  shows "\<exists>n. wrappedCompareFn toNumber f (elem K x) (elem K y) t = (Ret n, t) \<and> has_sign c x y n"
proof -
  define m where "m = bnd (f (elem K x) (elem K y)) toNumber"
  have "wrappedCompareFn toNumber f (elem K x) (elem K y) t = bnd m (\<lambda>v. bnd TypedArrayLength (\<lambda>length'.
      if length' = 0 then
        bnd (gets ta_detached) (\<lambda>d.
        sq (asrt d ''Length can only change from non-zero to zero when the buffer was detached'')
           (throw (TypeErr ''JSMSG_TYPED_ARRAY_DETACHED'')))
      else if v = NaN then ret (Fin 0) else ret v)) t"
    unfolding wrappedCompareFn_def m_def bnd_assoc ..
  also have "\<dots> = (Ret (if n = NaN then Fin 0 else n), t)"
    using n(1) [folded m_def] t by (simp add: TypedArrayLength_def run_simps)
  finally have "wrappedCompareFn toNumber f (elem K x) (elem K y) t = (Ret (if n = NaN then Fin 0 else n), t)" .
  moreover have "compare c x y = Equiv" if "n = NaN" using n(2,3) that by (cases "compare c x y") (auto simp: num_gt_def)
  ultimately show ?thesis using n(2,3)
    by (cases "compare c x y") (auto simp: has_sign_def num_gt_def num_le_def num_eq_def split: if_splits)
qed

text \<open>The sort is stated for comparison functions that give a sign in every state: one that agrees with \<open>w\<close> on arrays that are
  not empty, and fails for the value that is no element.\<close>

definition total_cmp :: "tval comparator \<Rightarrow> (tval \<Rightarrow> tval \<Rightarrow> ('a ta_state, exn, num) prog) \<Rightarrow>
    tval \<Rightarrow> tval \<Rightarrow> ('a ta_state, exn, num) prog" where
  "total_cmp c w x y t = (if x = UndefT \<or> y = UndefT then (AssertFail [], t)
     else if ta_data t = [] then (Ret (nint (case compare c x y of Less \<Rightarrow> - 1 | Equiv \<Rightarrow> 0 | Greater \<Rightarrow> 1)), t)
     else w x y t)"

lemma total_cmp_for:
  assumes "\<And>x y t. x \<noteq> UndefT \<Longrightarrow> y \<noteq> UndefT \<Longrightarrow> ta_data t \<noteq> [] \<Longrightarrow> \<exists>n. w x y t = (Ret n, t) \<and> has_sign c x y n"
  shows "comparefn_for c (\<lambda>x. x \<noteq> UndefT) (total_cmp c w)"
  unfolding comparefn_for_def
proof (intro allI impI)
  fix x y :: tval and t :: "'a ta_state" assume xy: "x \<noteq> UndefT" "y \<noteq> UndefT"
  have "\<exists>n. total_cmp c w x y t = (Ret n, t) \<and> has_sign c x y n"
  proof (cases "ta_data t = []")
    case True
    then show ?thesis using xy
      by (cases "compare c x y") (auto simp: total_cmp_def has_sign_def num_gt_def num_le_def num_eq_def)
  qed (use assms xy in \<open>simp add: total_cmp_def\<close>)
  then show "\<exists>n. total_cmp c w x y t = (Ret n, t) \<and> num_lt n (Fin 0) = (compare c x y = Less)
      \<and> num_gt n (Fin 0) = (compare c x y = Greater) \<and> num_le n (Fin 0) = (compare c x y \<noteq> Greater)"
    by (simp add: has_sign_def)
qed

lemma total_cmp_agree:
  assumes "\<And>x y t. x \<noteq> UndefT \<Longrightarrow> y \<noteq> UndefT \<Longrightarrow> ta_data t \<noteq> [] \<Longrightarrow> \<exists>n. w x y t = (Ret n, t) \<and> has_sign c x y n"
  shows "cmp_agree (\<lambda>t. ta_data t \<noteq> []) (total_cmp c w) w"
  unfolding cmp_agree_def agree_def
proof (intro allI impI)
  fix x y :: tval and t :: "'a ta_state" assume t: "ta_data t \<noteq> []"
  show "(\<exists>msg. fst (total_cmp c w x y t) = AssertFail msg) \<or> total_cmp c w x y t = w x y t \<and> ta_data (snd (total_cmp c w x y t)) \<noteq> []"
    using assms [of x y t] t by (cases "x = UndefT \<or> y = UndefT") (auto simp: total_cmp_def)
qed

lemma sort_short: "length xs \<le> 1 \<Longrightarrow> Sorting_Algorithms.sort c xs = xs"
  by (rule sort_eqI) (auto simp: le_Suc_eq length_Suc_conv)

text \<open>
  C2: with a comparison function whose results (NaN counting as 0) have the signs of a linear
  preorder, the array is sorted by it, and elements it takes for equal keep their order.
\<close>

theorem TypedArraySort_comparefn_stable:
  fixes c :: "tval comparator"
  assumes ok: "ta_ok s"
    and cmp: "\<And>x y t. x \<noteq> UndefT \<Longrightarrow> y \<noteq> UndefT \<Longrightarrow>
      \<exists>n. bnd (f (elem K x) (elem K y)) toNumber t = (Ret n, t)
        \<and> num_lt n (Fin 0) = (compare c x y = Less) \<and> num_gt n (Fin 0) = (compare c x y = Greater)"
  shows "TypedArraySort fuel K toNumber (Compare f) s = (Ret (), s\<lparr>ta_data := Sorting_Algorithms.sort c (ta_data s)\<rparr>)"
proof -
  let ?len = "int (length (ta_data s))" and ?w = "\<lambda>x y. wrappedCompareFn toNumber f (elem K x) (elem K y)"
  have run: "\<exists>n. ?w x y t = (Ret n, t) \<and> has_sign c x y n" if "x \<noteq> UndefT" "y \<noteq> UndefT" "ta_data t \<noteq> []" for x y t
    using cmp [OF that(1,2)] wrappedCompareFn_run [OF _ _ _ that(3)] by blast
  have cmps: "comparefn_for c (\<lambda>x. x \<noteq> UndefT) (total_cmp c ?w)" "cmp_agree (\<lambda>t. ta_data t \<noteq> []) (total_cmp c ?w) ?w"
    by (rule total_cmp_for total_cmp_agree, erule (2) run)+
  have val: "list_all (\<lambda>x. x \<noteq> UndefT) (ta_data s)" using ok by (simp add: ta_ok_def list_all_iff)
  have start: "ta_attached s = (Ret (), s)" "TypedArrayLength s = (Ret ?len, s)"
    using ok by (simp_all add: ta_attached_def TypedArrayLength_def run_simps ta_ok_def)
  show ?thesis
  proof (cases "?len \<le> 1")
    case True
    with sort_short [of "ta_data s"] start show ?thesis by (simp add: TypedArraySort_def run_simps)
  next
    case False
    then have "ta_data s \<noteq> []" by auto
    have "MergeSortTypedArray UndefT (ta_store K UndefT) (ta_array K) ?len (total_cmp c ?w) s
      = (Ret (), ta_upd (Sorting_Algorithms.sort c (ta_data s)) s)"
      by (rule tam.MergeSortTypedArray_correct [OF cmps(1) val refl])
    then have "MergeSortTypedArray UndefT (ta_store K UndefT) (ta_array K) ?len ?w s
      = (Ret (), ta_upd (Sorting_Algorithms.sort c (ta_data s)) s)"
      by (rule agree_Ret [OF agree_MergeSortTypedArray [OF keeps_ta_array cmps(2)] \<open>ta_data s \<noteq> []\<close>])
    with False start show ?thesis by (simp add: TypedArraySort_def run_simps ta_upd_def)
  qed
qed

text \<open>A comparison function for descending order.\<close>

definition descending :: "val \<Rightarrow> val \<Rightarrow> ('s, exn, val) prog" where
  "descending x y = bnd (TypedArrayCompareInt y x) (\<lambda>n. ret (Num n))"

lemma descending_order:
  fixes t :: 's
  assumes "x \<noteq> UndefT" "y \<noteq> UndefT"
  shows "\<exists>n. bnd (descending (elem Int8 x) (elem Int8 y)) (\<lambda>v. ret (val_num v)) t = (Ret n, t)
    \<and> num_lt n (Fin 0) = (compare (reversed (elem_order Int8)) x y = Less)
    \<and> num_gt n (Fin 0) = (compare (reversed (elem_order Int8)) x y = Greater)"
proof -
  have c: "comparefn_for (elem_order Int8) (\<lambda>x. x \<noteq> UndefT)
      (\<lambda>x y. TypedArrayCompareInt (elem Int8 x) (elem Int8 y) :: ('s, exn, num) prog)"
    by (rule TypedArrayCompareInt_order) simp
  obtain n where "(TypedArrayCompareInt (elem Int8 y) (elem Int8 x) :: ('s, exn, num) prog) t = (Ret n, t)"
    "num_lt n (Fin 0) = (compare (elem_order Int8) y x = Less)"
    "num_gt n (Fin 0) = (compare (elem_order Int8) y x = Greater)"
    by (rule comparefn_forD [OF c assms(2,1), where s = t]) blast
  then show ?thesis by (simp add: descending_def run_simps)
qed

lemma TypedArraySort_comparefn_stable_witness:
  "TypedArraySort 0 Int8 (\<lambda>v. ret (val_num v)) (Compare descending)
      \<lparr>ta_data = [Elt 1, Elt 0xFF, Elt 3], ta_detached = False, ta_world = ()\<rparr>
    = (Ret (), \<lparr>ta_data = Sorting_Algorithms.sort (reversed (elem_order Int8)) [Elt 1, Elt 0xFF, Elt 3],
               ta_detached = False, ta_world = ()\<rparr>)"
  using TypedArraySort_comparefn_stable
    [of "\<lparr>ta_data = [Elt 1, Elt 0xFF, Elt 3], ta_detached = False, ta_world = ()\<rparr>" descending Int8
      "\<lambda>v. ret (val_num v)" "reversed (elem_order Int8)" 0, OF _ descending_order]
  by (simp add: ta_ok_def)

end
