(* ===== verification/Module.thy ===== *)
theory Module
  imports JSValues "HOL-Library.List_Lexorder" "HOL-Library.Char_ord"
begin

text \<open>
  The module loader of Module.js: module records, name resolution (\<open>GetExportedNames\<close>,
  \<open>ResolveExport\<close>), module namespaces, linking (\<open>ModuleInstantiate\<close>, \<open>InnerModuleLinking\<close>) and
  evaluation (\<open>ModuleEvaluate\<close>, \<open>InnerModuleEvaluation\<close>), with their assertions and their
  exception handlers.
\<close>

section \<open>Module records\<close>

type_synonym mid = nat

datatype mstatus = UNLINKED | LINKING | LINKED | EVALUATING | EVALUATED | EVALUATED_ERROR

text \<open>The statuses are numbers in the code; the code compares them with \<open><\<close> and \<open><=\<close>.\<close>

primrec status_code :: "mstatus \<Rightarrow> nat" where
  "status_code UNLINKED = 0"
| "status_code LINKING = 1"
| "status_code LINKED = 2"
| "status_code EVALUATING = 3"
| "status_code EVALUATED = 4"
| "status_code EVALUATED_ERROR = 5"

instantiation mstatus :: linorder
begin

definition less_eq_mstatus :: "mstatus \<Rightarrow> mstatus \<Rightarrow> bool" where
  "less_eq_mstatus a b = (status_code a \<le> status_code b)"

definition less_mstatus :: "mstatus \<Rightarrow> mstatus \<Rightarrow> bool" where
  "less_mstatus a b = (status_code a < status_code b)"

lemma status_code_inject: "status_code a = status_code b \<Longrightarrow> a = b"
  by (cases a; cases b) simp_all

instance
  by intro_classes (auto simp: less_eq_mstatus_def less_mstatus_def intro: status_code_inject)

end

lemmas mstatus_order = less_eq_mstatus_def less_mstatus_def

record export_entry =
  exportName :: string
  moduleRequest :: string
  importName :: string
  localName :: string
  lineNumber :: int
  columnNumber :: int

record import_entry =
  imp_moduleRequest :: string
  imp_importName :: string
  imp_localName :: string
  imp_lineNumber :: int
  imp_columnNumber :: int

text \<open>The bindings of a module environment: an indirect one into another module, or a
  namespace object, named by the module it belongs to.\<close>

datatype ebinding = ImportBinding string mid string | NamespaceBinding string mid

record ns_rec =
  ns_exports :: "string list"
  ns_bindings :: "(string \<times> mid \<times> string) list"

record module_rec =
  status :: mstatus
  namespace :: "ns_rec option"
  dfsIndex :: "int option"
  dfsAncestorIndex :: "int option"
  evaluationError :: "exn option"
  environment :: "ebinding list option"
  env_namespace :: bool
  requestedModules :: "string list"
  importEntries :: "import_entry list"
  localExportEntries :: "export_entry list"
  indirectExportEntries :: "export_entry list"
  starExportEntries :: "export_entry list"

text \<open>The state: the module objects, the \<open>stack\<close> array of the walk under way, the rest.\<close>

record 'w mstate =
  modules :: "mid \<Rightarrow> module_rec"
  stk :: "mid list"
  world :: 'w

text \<open>
  What the code calls and does not define: the hook of the embedding that maps a specifier to a
  module (the same module for the same specifier each time, or an error), the run of a module's
  body, and the instantiation of its function declarations.
\<close>

record 'w mhost =
  HostResolveImportedModule :: "mid \<Rightarrow> string \<Rightarrow> exn + mid"
  run_module :: "mid \<Rightarrow> 'w \<Rightarrow> exn option \<times> 'w"
  instantiate_functions :: "mid \<Rightarrow> 'w \<Rightarrow> exn option \<times> 'w"

type_synonym ('w, 'a) mprog = "('w mstate, exn, 'a) prog"

definition get_module :: "mid \<Rightarrow> ('w, module_rec) mprog" where
  "get_module m = gets (\<lambda>s. modules s m)"

definition upd_module :: "mid \<Rightarrow> (module_rec \<Rightarrow> module_rec) \<Rightarrow> ('w, unit) mprog" where
  "upd_module m f = modify (\<lambda>s. s\<lparr>modules := (modules s)(m := f (modules s m))\<rparr>)"

definition in_world :: "('w \<Rightarrow> exn option \<times> 'w) \<Rightarrow> ('w, unit) mprog" where
  "in_world f = (\<lambda>s. case f (world s) of
      (None, w) \<Rightarrow> (Ret (), s\<lparr>world := w\<rparr>)
    | (Some e, w) \<Rightarrow> (Throw e, s\<lparr>world := w\<rparr>))"

definition ExecuteModule :: "'w mhost \<Rightarrow> mid \<Rightarrow> ('w, unit) mprog" where
  "ExecuteModule h m = in_world (run_module h m)"

definition InstantiateModuleFunctionDeclarations :: "'w mhost \<Rightarrow> mid \<Rightarrow> ('w, unit) mprog" where
  "InstantiateModuleFunctionDeclarations h m = in_world (instantiate_functions h m)"

section \<open>Resolution of names\<close>

definition CallModuleResolveHook :: "'w mhost \<Rightarrow> mid \<Rightarrow> string \<Rightarrow> mstatus \<Rightarrow> ('w, mid) mprog" where
  "CallModuleResolveHook h m specifier expectedMinimumStatus =
     (case HostResolveImportedModule h m specifier of
        Inl e \<Rightarrow> throw e
      | Inr r \<Rightarrow> bnd (get_module r) (\<lambda>rm.
          if status rm < expectedMinimumStatus then throw (InternalErr ''JSMSG_BAD_MODULE_STATUS'') else ret r))"

text \<open>One star export: the names of the module it names, less \<open>default\<close> and those there are.\<close>

fun add_star_names :: "string list \<Rightarrow> string list \<Rightarrow> string list" where
  "add_star_names exportedNames [] = exportedNames"
| "add_star_names exportedNames (n # starNames) =
     (if n \<noteq> ''default'' \<and> n \<notin> set exportedNames then add_star_names (exportedNames @ [n]) starNames
      else add_star_names exportedNames starNames)"

fun ModuleGetExportedNames :: "'w mhost \<Rightarrow> nat \<Rightarrow> mid \<Rightarrow> mid list \<Rightarrow> ('w, string list \<times> mid list) mprog" where
  "ModuleGetExportedNames h 0 m exportStarSet = no_fuel"
| "ModuleGetExportedNames h (Suc fuel) m exportStarSet =
     (if m \<in> set exportStarSet then ret ([], exportStarSet)
      else
        bnd (get_module m) (\<lambda>mr.
        for_list (starExportEntries mr)
          (\<lambda>e (exportedNames, exportStarSet).
             bnd (CallModuleResolveHook h m (moduleRequest e) UNLINKED) (\<lambda>requestedModule.
             bnd (ModuleGetExportedNames h fuel requestedModule exportStarSet) (\<lambda>(starNames, exportStarSet).
             ret (add_star_names exportedNames starNames, exportStarSet))))
          (map exportName (localExportEntries mr) @ map exportName (indirectExportEntries mr),
           exportStarSet @ [m])))"

text \<open>What \<open>ResolveExport\<close> returns: \<open>null\<close>, the string \<open>"ambiguous"\<close> or a resolved binding.\<close>

datatype resolution = NotFound | Ambiguous | Resolved (res_module: mid) (bindingName: string)

fun ModuleResolveExport ::
    "'w mhost \<Rightarrow> nat \<Rightarrow> mid \<Rightarrow> string \<Rightarrow> (mid \<times> string) list \<Rightarrow> ('w, resolution \<times> (mid \<times> string) list) mprog" where
  "ModuleResolveExport h 0 m name resolveSet = no_fuel"
| "ModuleResolveExport h (Suc fuel) m name resolveSet =
     (if (m, name) \<in> set resolveSet then ret (NotFound, resolveSet)
      else let resolveSet = resolveSet @ [(m, name)] in
        bnd (get_module m) (\<lambda>mr.
        case find (\<lambda>e. name = exportName e) (localExportEntries mr) of
          Some e \<Rightarrow> ret (Resolved m (localName e), resolveSet)
        | None \<Rightarrow>
          (case find (\<lambda>e. name = exportName e) (indirectExportEntries mr) of
             Some e \<Rightarrow>
               bnd (CallModuleResolveHook h m (moduleRequest e) UNLINKED) (\<lambda>importedModule.
               if importName e = ''*'' then ret (Resolved importedModule ''*namespace*'', resolveSet)
               else ModuleResolveExport h fuel importedModule (importName e) resolveSet)
           | None \<Rightarrow>
             if name = ''default'' then ret (NotFound, resolveSet)
             else
               bnd (for_list_exit (starExportEntries mr)
                 (\<lambda>e (starResolution, resolveSet).
                    bnd (CallModuleResolveHook h m (moduleRequest e) UNLINKED) (\<lambda>importedModule.
                    bnd (ModuleResolveExport h fuel importedModule name resolveSet) (\<lambda>(resolution, resolveSet).
                    if resolution = Ambiguous then ret (Inr (Ambiguous, resolveSet))
                    else if resolution \<noteq> NotFound then
                      if starResolution = NotFound then ret (Inl (resolution, resolveSet))
                      else if res_module resolution \<noteq> res_module starResolution \<or>
                              bindingName resolution \<noteq> bindingName starResolution
                      then ret (Inr (Ambiguous, resolveSet))
                      else ret (Inl (starResolution, resolveSet))
                    else ret (Inl (starResolution, resolveSet)))))
                 (NotFound, resolveSet))
               (\<lambda>x. case x of Inl r \<Rightarrow> ret r | Inr r \<Rightarrow> ret r))))"

definition IsResolvedBinding :: "resolution \<Rightarrow> bool" where
  "IsResolvedBinding resolution = (resolution \<noteq> Ambiguous \<and> resolution \<noteq> NotFound)"

text \<open>A call of \<open>resolveExport\<close>, \<open>getExportedNames\<close> with the default second argument.\<close>

definition resolveExport :: "'w mhost \<Rightarrow> nat \<Rightarrow> mid \<Rightarrow> string \<Rightarrow> ('w, resolution) mprog" where
  "resolveExport h fuel m name = bnd (ModuleResolveExport h fuel m name []) (\<lambda>(r, _). ret r)"

definition getExportedNames :: "'w mhost \<Rightarrow> nat \<Rightarrow> mid \<Rightarrow> ('w, string list) mprog" where
  "getExportedNames h fuel m = bnd (ModuleGetExportedNames h fuel m []) (\<lambda>(ns, _). ret ns)"

section \<open>Status and environment\<close>

definition ModuleSetStatus :: "mid \<Rightarrow> mstatus \<Rightarrow> ('w, unit) mprog" where
  "ModuleSetStatus m newStatus =
     bnd (get_module m) (\<lambda>mr.
     sq (asrt ((status mr \<le> LINKED \<and> newStatus = UNLINKED) \<or> status mr < newStatus)
           ''New module status inconsistent with current status'')
        (upd_module m (\<lambda>mr. mr\<lparr>status := newStatus\<rparr>)))"

definition GetModuleEnvironment :: "mid \<Rightarrow> ('w, mid) mprog" where
  "GetModuleEnvironment m =
     bnd (get_module m) (\<lambda>mr.
     sq (asrt (LINKING \<le> status mr) ''Attempt to access module environement before linking'')
    (sq (asrt (environment mr \<noteq> None) ''Module environment slot contains unexpected value'')
        (ret m)))"

text \<open>\<open>CreateImportBinding\<close>, \<open>CreateNamespaceBinding\<close> on an environment, named by its module.\<close>

definition add_binding :: "mid \<Rightarrow> ebinding \<Rightarrow> ('w, unit) mprog" where
  "add_binding env b = upd_module env (\<lambda>mr. mr\<lparr>environment := map_option (\<lambda>bs. bs @ [b]) (environment mr)\<rparr>)"

definition EnsureModuleEnvironmentNamespace :: "mid \<Rightarrow> ('w, unit) mprog" where
  "EnsureModuleEnvironmentNamespace m = upd_module m (\<lambda>mr. mr\<lparr>env_namespace := True\<rparr>)"

definition NewModuleNamespace :: "mid \<Rightarrow> string list \<Rightarrow> ('w, unit) mprog" where
  "NewModuleNamespace m exports =
     upd_module m (\<lambda>mr. mr\<lparr>namespace := Some \<lparr>ns_exports = exports, ns_bindings = []\<rparr>\<rparr>)"

definition AddModuleNamespaceBinding :: "mid \<Rightarrow> string \<Rightarrow> mid \<Rightarrow> string \<Rightarrow> ('w, unit) mprog" where
  "AddModuleNamespaceBinding m name target bname =
     upd_module m (\<lambda>mr. mr\<lparr>namespace :=
       map_option (\<lambda>ns. ns\<lparr>ns_bindings := ns_bindings ns @ [(name, target, bname)]\<rparr>) (namespace mr)\<rparr>)"

text \<open>
  \<open>ModuleNamespaceCreate\<close>, over the function that gives another module's namespace, and
  \<open>GetModuleNamespace\<close>; the two call each other. A namespace object is named by its module.
\<close>

definition ModuleNamespaceCreate_binding ::
    "'w mhost \<Rightarrow> nat \<Rightarrow> (mid \<Rightarrow> ('w, unit) mprog) \<Rightarrow> mid \<Rightarrow> string \<Rightarrow> ('w, unit) mprog" where
  "ModuleNamespaceCreate_binding h fuel getNamespace m name =
     bnd (resolveExport h fuel m name) (\<lambda>binding.
     sq (asrt (IsResolvedBinding binding) ''Failed to resolve binding'')
    (if bindingName binding = ''*namespace*'' then
       sq (getNamespace (res_module binding))
      (sq (EnsureModuleEnvironmentNamespace (res_module binding))
          (AddModuleNamespaceBinding m name (res_module binding) (bindingName binding)))
     else AddModuleNamespaceBinding m name (res_module binding) (bindingName binding)))"

definition ModuleNamespaceCreate ::
    "'w mhost \<Rightarrow> nat \<Rightarrow> (mid \<Rightarrow> ('w, unit) mprog) \<Rightarrow> mid \<Rightarrow> string list \<Rightarrow> ('w, unit) mprog" where
  "ModuleNamespaceCreate h fuel getNamespace m exports =
     (let exports = sort exports in
      sq (NewModuleNamespace m exports)
         (for_list exports (\<lambda>name _. ModuleNamespaceCreate_binding h fuel getNamespace m name) ()))"

text \<open>The loop of \<open>GetModuleNamespace\<close> that keeps the names with a binding.\<close>

definition unambiguous_names :: "'w mhost \<Rightarrow> nat \<Rightarrow> mid \<Rightarrow> string list \<Rightarrow> ('w, string list) mprog" where
  "unambiguous_names h fuel m exportedNames =
     for_list exportedNames (\<lambda>name unambiguousNames.
       bnd (resolveExport h fuel m name) (\<lambda>resolution.
       if IsResolvedBinding resolution then ret (unambiguousNames @ [name]) else ret unambiguousNames)) []"

fun GetModuleNamespace :: "'w mhost \<Rightarrow> nat \<Rightarrow> nat \<Rightarrow> mid \<Rightarrow> ('w, unit) mprog" where
  "GetModuleNamespace h fuel 0 m = no_fuel"
| "GetModuleNamespace h fuel (Suc nfuel) m =
     bnd (get_module m) (\<lambda>mr.
     sq (asrt (status mr \<noteq> UNLINKED) ''Bad module state in GetModuleNamespace'')
    (if namespace mr = None then
       bnd (getExportedNames h fuel m) (\<lambda>exportedNames.
       bnd (unambiguous_names h fuel m exportedNames)
           (ModuleNamespaceCreate h fuel (GetModuleNamespace h fuel nfuel) m))
     else ret ()))"

section \<open>Linking\<close>

definition ThrowResolutionError :: "mid \<Rightarrow> resolution \<Rightarrow> string \<Rightarrow> string \<Rightarrow> int \<Rightarrow> int \<Rightarrow> ('w, unit) mprog" where
  "ThrowResolutionError m resolution kind name line column =
     bnd (get_module m) (\<lambda>mr.
     sq (asrt (status mr = LINKING) ''Unexpected module status in ThrowResolutionError'')
    (sq (asrt (kind = ''import'' \<or> kind = ''indirectExport'') ''Unexpected kind in ThrowResolutionError'')
    (sq (asrt (0 < line) ''Line number should be present for all imports and indirect exports'')
    (let ambiguous = (resolution = Ambiguous);
         errorNumber =
           (if kind = ''import'' then (if ambiguous then ''JSMSG_AMBIGUOUS_IMPORT'' else ''JSMSG_MISSING_IMPORT'')
            else (if ambiguous then ''JSMSG_AMBIGUOUS_INDIRECT_EXPORT'' else ''JSMSG_MISSING_INDIRECT_EXPORT''))
     in throw (SyntaxErr errorNumber)))))"

definition InitializeEnvironment_indirect :: "'w mhost \<Rightarrow> nat \<Rightarrow> mid \<Rightarrow> export_entry \<Rightarrow> ('w, unit) mprog" where
  "InitializeEnvironment_indirect h fuel m e =
     bnd (resolveExport h fuel m (exportName e)) (\<lambda>resolution.
     if \<not> IsResolvedBinding resolution
     then ThrowResolutionError m resolution ''indirectExport'' (exportName e) (lineNumber e) (columnNumber e)
     else ret ())"

definition InitializeEnvironment_import :: "'w mhost \<Rightarrow> nat \<Rightarrow> mid \<Rightarrow> mid \<Rightarrow> import_entry \<Rightarrow> ('w, unit) mprog" where
  "InitializeEnvironment_import h fuel m env imp =
     bnd (CallModuleResolveHook h m (imp_moduleRequest imp) LINKING) (\<lambda>importedModule.
     if imp_importName imp = ''*'' then
       sq (GetModuleNamespace h fuel fuel importedModule)
          (add_binding env (NamespaceBinding (imp_localName imp) importedModule))
     else
       bnd (resolveExport h fuel importedModule (imp_importName imp)) (\<lambda>resolution.
       sq (if \<not> IsResolvedBinding resolution
           then ThrowResolutionError m resolution ''import'' (imp_importName imp) (imp_lineNumber imp) (imp_columnNumber imp)
           else ret ())
      (if bindingName resolution = ''*namespace*'' then
         sq (GetModuleNamespace h fuel fuel (res_module resolution))
        (sq (EnsureModuleEnvironmentNamespace (res_module resolution))
            (add_binding env (ImportBinding (imp_localName imp) (res_module resolution) (bindingName resolution))))
       else add_binding env (ImportBinding (imp_localName imp) (res_module resolution) (bindingName resolution)))))"

definition InitializeEnvironment :: "'w mhost \<Rightarrow> nat \<Rightarrow> mid \<Rightarrow> ('w, unit) mprog" where
  "InitializeEnvironment h fuel m =
     bnd (get_module m) (\<lambda>mr.
     sq (for_list (indirectExportEntries mr) (\<lambda>e _. InitializeEnvironment_indirect h fuel m e) ())
    (bnd (GetModuleEnvironment m) (\<lambda>env.
     sq (for_list (importEntries mr) (\<lambda>imp _. InitializeEnvironment_import h fuel m env imp) ())
        (InstantiateModuleFunctionDeclarations h m))))"

primrec CountArrayValues :: "mid list \<Rightarrow> mid \<Rightarrow> nat" where
  "CountArrayValues [] v = 0"
| "CountArrayValues (x # xs) v = (if x = v then Suc (CountArrayValues xs v) else CountArrayValues xs v)"

primrec ArrayContains :: "mid list \<Rightarrow> mid \<Rightarrow> bool" where
  "ArrayContains [] v = False"
| "ArrayContains (x # xs) v = (x = v \<or> ArrayContains xs v)"

definition stack_append :: "mid \<Rightarrow> ('w, unit) mprog" where
  "stack_append m = modify (\<lambda>s. s\<lparr>stk := stk s @ [m]\<rparr>)"

text \<open>
  \<open>do { r = pop(stack); ModuleSetStatus(r, st); } while (r !== module)\<close>. On an empty stack
  \<open>pop\<close> gives \<open>undefined\<close>, whose \<open>status\<close> is a TypeError.
\<close>

fun pop_component :: "nat \<Rightarrow> mid \<Rightarrow> mstatus \<Rightarrow> ('w, unit) mprog" where
  "pop_component 0 m st = no_fuel"
| "pop_component (Suc n) m st =
     bnd (gets stk) (\<lambda>stack.
     if stack = [] then throw (TypeErr ''JSMSG_UNEXPECTED_TYPE'')
     else
       sq (modify (\<lambda>s. s\<lparr>stk := butlast (stk s)\<rparr>))
      (sq (ModuleSetStatus (last stack) st)
          (if last stack \<noteq> m then pop_component n m st else ret ())))"

text \<open>The assignment of the two DFS numbers.\<close>

definition set_dfs :: "mid \<Rightarrow> int \<Rightarrow> ('w, unit) mprog" where
  "set_dfs m index =
     sq (upd_module m (\<lambda>mr. mr\<lparr>dfsIndex := Some index\<rparr>))
        (upd_module m (\<lambda>mr. mr\<lparr>dfsAncestorIndex := Some index\<rparr>))"

text \<open>\<open>module.dfsAncestorIndex = min(module.dfsAncestorIndex, required.dfsAncestorIndex)\<close>\<close>

definition join_ancestor :: "mid \<Rightarrow> mid \<Rightarrow> ('w, unit) mprog" where
  "join_ancestor m r =
     bnd (get_module r) (\<lambda>rm.
     upd_module m (\<lambda>mr. mr\<lparr>dfsAncestorIndex :=
       Some (min (the (dfsAncestorIndex mr)) (the (dfsAncestorIndex rm)))\<rparr>))"

fun InnerModuleLinking :: "'w mhost \<Rightarrow> nat \<Rightarrow> nat \<Rightarrow> mid \<Rightarrow> int \<Rightarrow> ('w, int) mprog" where
  "InnerModuleLinking h fuel 0 m index = no_fuel"
| "InnerModuleLinking h fuel (Suc d) m index =
     bnd (get_module m) (\<lambda>mr.
     if status mr \<in> {LINKING, LINKED, EVALUATED, EVALUATED_ERROR} then ret index
     else if status mr \<noteq> UNLINKED then throw (InternalErr ''JSMSG_BAD_MODULE_STATUS'')
     else
       sq (ModuleSetStatus m LINKING)
      (sq (set_dfs m index)
      (sq (stack_append m)
      (bnd (for_list (requestedModules mr)
         (\<lambda>required index.
            bnd (CallModuleResolveHook h m required UNLINKED) (\<lambda>requiredModule.
            bnd (InnerModuleLinking h fuel d requiredModule index) (\<lambda>index.
            bnd (get_module requiredModule) (\<lambda>rm.
            bnd (gets stk) (\<lambda>stack.
            sq (asrt (status rm \<in> {LINKING, LINKED, EVALUATED, EVALUATED_ERROR})
                  ''Bad required module status after InnerModuleLinking'')
           (sq (asrt ((status rm = LINKING) = ArrayContains stack requiredModule)
                  ''Required module should be in the stack iff it is currently being instantiated'')
           (sq (asrt (dfsIndex rm \<noteq> None) ''Bad dfsIndex'')
           (sq (asrt (dfsAncestorIndex rm \<noteq> None) ''Bad dfsAncestorIndex'')
           (sq (whenJ (status rm = LINKING) (join_ancestor m requiredModule))
               (ret index))))))))))
         (index + 1))
       (\<lambda>index.
       sq (InitializeEnvironment h fuel m)
      (bnd (gets stk) (\<lambda>stack.
       bnd (get_module m) (\<lambda>mr.
       sq (asrt (CountArrayValues stack m = 1) ''Current module should appear exactly once in the stack'')
      (sq (asrt (the (dfsAncestorIndex mr) \<le> the (dfsIndex mr)) ''Bad DFS ancestor index'')
      (sq (whenJ (dfsAncestorIndex mr = dfsIndex mr) (pop_component (length stack + 1) m LINKED))
          (ret index)))))))))))"

definition HandleModuleInstantiationFailure :: "mid \<Rightarrow> ('w, unit) mprog" where
  "HandleModuleInstantiationFailure m =
     sq (ModuleSetStatus m UNLINKED)
    (sq (upd_module m (\<lambda>mr. mr\<lparr>dfsIndex := None\<rparr>))
        (upd_module m (\<lambda>mr. mr\<lparr>dfsAncestorIndex := None\<rparr>)))"

text \<open>The \<open>catch\<close> block, and the assertions after the \<open>try\<close>.\<close>

definition ModuleInstantiate_failed :: "mid \<Rightarrow> exn \<Rightarrow> ('w, unit) mprog" where
  "ModuleInstantiate_failed m error =
     bnd (gets stk) (\<lambda>stack.
     sq (for_list stack (\<lambda>x _.
           bnd (get_module x) (\<lambda>xm.
           whenJ (status xm = LINKING) (HandleModuleInstantiationFailure x))) ())
    (bnd (get_module m) (\<lambda>mr.
     sq (whenJ (stack = [] \<and> status mr = LINKING) (HandleModuleInstantiationFailure m))
    (bnd (get_module m) (\<lambda>mr.
     sq (asrt (status mr \<noteq> LINKING) ''Expected unlinked status after failed linking'')
        (throw error))))))"

definition ModuleInstantiate_returns :: "mid \<Rightarrow> ('w, unit) mprog" where
  "ModuleInstantiate_returns m =
     bnd (get_module m) (\<lambda>mr.
     bnd (gets stk) (\<lambda>stack.
     sq (asrt (status mr \<in> {LINKED, EVALUATED, EVALUATED_ERROR}) ''Bad module status after successful linking'')
        (asrt (stack = []) ''Stack should be empty after successful linking'')))"

definition ModuleInstantiate :: "'w mhost \<Rightarrow> nat \<Rightarrow> mid \<Rightarrow> ('w, unit) mprog" where
  "ModuleInstantiate h fuel m =
     bnd (get_module m) (\<lambda>mr.
     if status mr = LINKING \<or> status mr = EVALUATING then throw (InternalErr ''JSMSG_BAD_MODULE_STATUS'')
     else
       sq (modify (\<lambda>s. s\<lparr>stk := []\<rparr>))
      (sq (try_catch (bnd (InnerModuleLinking h fuel fuel m 0) (\<lambda>_. ret ())) (ModuleInstantiate_failed m))
          (ModuleInstantiate_returns m)))"

section \<open>Evaluation\<close>

definition GetModuleEvaluationError :: "mid \<Rightarrow> ('w, exn) mprog" where
  "GetModuleEvaluationError m =
     bnd (get_module m) (\<lambda>mr.
     sq (asrt (status mr = EVALUATED_ERROR) ''Bad module status in GetModuleEvaluationError'')
        (ret (the (evaluationError mr))))"

definition RecordModuleEvaluationError :: "mid \<Rightarrow> exn \<Rightarrow> ('w, unit) mprog" where
  "RecordModuleEvaluationError m error =
     bnd (get_module m) (\<lambda>mr.
     if status mr = EVALUATED_ERROR then ret ()
     else
       sq (ModuleSetStatus m EVALUATED_ERROR)
          (upd_module m (\<lambda>mr. mr\<lparr>evaluationError := Some error\<rparr>)))"

fun InnerModuleEvaluation :: "'w mhost \<Rightarrow> nat \<Rightarrow> mid \<Rightarrow> int \<Rightarrow> ('w, int) mprog" where
  "InnerModuleEvaluation h 0 m index = no_fuel"
| "InnerModuleEvaluation h (Suc d) m index =
     bnd (get_module m) (\<lambda>mr.
     if status mr = EVALUATED_ERROR then bnd (GetModuleEvaluationError m) throw
     else if status mr = EVALUATED then ret index
     else if status mr = EVALUATING then ret index
     else
       sq (asrt (status mr = LINKED) ''Bad module status in InnerModuleEvaluation'')
      (sq (ModuleSetStatus m EVALUATING)
      (sq (set_dfs m index)
      (sq (stack_append m)
      (bnd (for_list (requestedModules mr)
         (\<lambda>required index.
            bnd (CallModuleResolveHook h m required LINKED) (\<lambda>requiredModule.
            bnd (InnerModuleEvaluation h d requiredModule index) (\<lambda>index.
            bnd (get_module requiredModule) (\<lambda>rm.
            bnd (gets stk) (\<lambda>stack.
            sq (asrt (status rm \<in> {EVALUATING, EVALUATED})
                  ''Bad module status after InnerModuleEvaluation'')
           (sq (asrt ((status rm = EVALUATING) = ArrayContains stack requiredModule)
                  ''Required module should be in the stack iff it is currently being evaluated'')
           (sq (asrt (dfsIndex rm \<noteq> None) ''Bad dfsIndex'')
           (sq (asrt (dfsAncestorIndex rm \<noteq> None) ''Bad dfsAncestorIndex'')
           (sq (whenJ (status rm = EVALUATING) (join_ancestor m requiredModule))
               (ret index))))))))))
         (index + 1))
       (\<lambda>index.
       sq (ExecuteModule h m)
      (bnd (gets stk) (\<lambda>stack.
       bnd (get_module m) (\<lambda>mr.
       sq (asrt (CountArrayValues stack m = 1) ''Current module should appear exactly once in the stack'')
      (sq (asrt (the (dfsAncestorIndex mr) \<le> the (dfsIndex mr)) ''Bad DFS ancestor index'')
      (sq (whenJ (dfsAncestorIndex mr = dfsIndex mr) (pop_component (length stack + 1) m EVALUATED))
          (ret index))))))))))))"

definition ModuleEvaluate_failed :: "mid \<Rightarrow> exn \<Rightarrow> ('w, unit) mprog" where
  "ModuleEvaluate_failed m error =
     bnd (gets stk) (\<lambda>stack.
     sq (for_list stack (\<lambda>x _.
           bnd (get_module x) (\<lambda>xm.
           sq (asrt (status xm = EVALUATING) ''Bad module status after failed evaluation'')
              (RecordModuleEvaluationError x error))) ())
    (sq (whenJ (stack = []) (RecordModuleEvaluationError m error))
    (bnd (get_module m) (\<lambda>mr.
     sq (asrt (status mr = EVALUATED_ERROR) ''Bad module status after failed evaluation'')
        (throw error)))))"

definition ModuleEvaluate_returns :: "mid \<Rightarrow> ('w, unit) mprog" where
  "ModuleEvaluate_returns m =
     bnd (get_module m) (\<lambda>mr.
     bnd (gets stk) (\<lambda>stack.
     sq (asrt (status mr = EVALUATED) ''Bad module status after successful evaluation'')
        (asrt (stack = []) ''Stack should be empty after successful evaluation'')))"

definition ModuleEvaluate :: "'w mhost \<Rightarrow> nat \<Rightarrow> mid \<Rightarrow> ('w, unit) mprog" where
  "ModuleEvaluate h fuel m =
     bnd (get_module m) (\<lambda>mr.
     if status mr \<notin> {LINKED, EVALUATED, EVALUATED_ERROR} then throw (InternalErr ''JSMSG_BAD_MODULE_STATUS'')
     else
       sq (modify (\<lambda>s. s\<lparr>stk := []\<rparr>))
      (sq (try_catch (bnd (InnerModuleEvaluation h fuel m 0) (\<lambda>_. ret ())) (ModuleEvaluate_failed m))
          (ModuleEvaluate_returns m)))"

end
