(* ===== verification/ModuleTarjan.thy ===== *)
theory ModuleTarjan
  imports ModuleWalk
begin

text \<open>
  The invariant of the depth-first walk over the module graph and its consequences: every
  outcome leaves the stack and the statuses consistent, the assertions of the walk hold, a
  returned walk leaves a closed set of finished modules.
\<close>

section \<open>Views of the state\<close>

abbreviation st :: "'w mstate \<Rightarrow> mid \<Rightarrow> mstatus" where
  "st s m \<equiv> status (modules s m)"

definition ix :: "'w mstate \<Rightarrow> mid \<Rightarrow> int" where
  "ix s m = the (dfsIndex (modules s m))"

definition anc :: "'w mstate \<Rightarrow> mid \<Rightarrow> int" where
  "anc s m = the (dfsAncestorIndex (modules s m))"

definition numbered :: "'w mstate \<Rightarrow> mid \<Rightarrow> bool" where
  "numbered s m = (dfsIndex (modules s m) \<noteq> None \<and> dfsAncestorIndex (modules s m) \<noteq> None)"

definition same_dfs :: "'w mstate \<Rightarrow> 'w mstate \<Rightarrow> mid \<Rightarrow> bool" where
  "same_dfs s t m = (dfsIndex (modules t m) = dfsIndex (modules s m)
     \<and> dfsAncestorIndex (modules t m) = dfsAncestorIndex (modules s m))"

text \<open>The parts of a module record that no step changes.\<close>

definition tables :: "module_rec \<Rightarrow> string list \<times> import_entry list \<times> export_entry list \<times> export_entry list \<times> export_entry list" where
  "tables r = (requestedModules r, importEntries r, localExportEntries r, indirectExportEntries r, starExportEntries r)"

text \<open>What an action on a module may change: namespaces, environments, the world.\<close>

definition same_core :: "'w mstate \<Rightarrow> 'w mstate \<Rightarrow> bool" where
  "same_core s t = (stk t = stk s \<and> (\<forall>m. st t m = st s m \<and> same_dfs s t m
     \<and> evaluationError (modules t m) = evaluationError (modules s m)
     \<and> tables (modules t m) = tables (modules s m)))"

text \<open>What the walk itself may change: the stack, statuses and DFS numbers.\<close>

definition same_rest :: "'w mstate \<Rightarrow> 'w mstate \<Rightarrow> bool" where
  "same_rest s t = (\<forall>m. tables (modules t m) = tables (modules s m)
     \<and> environment (modules t m) = environment (modules s m)
     \<and> namespace (modules t m) = namespace (modules s m))"

lemma same_core_refl [simp]: "same_core s s"
  by (simp add: same_core_def same_dfs_def)

lemma same_core_trans: "same_core s t \<Longrightarrow> same_core t u \<Longrightarrow> same_core s u"
  by (simp add: same_core_def same_dfs_def)

lemma CountArrayValues_distinct: "distinct xs \<Longrightarrow> CountArrayValues xs v = (if v \<in> set xs then 1 else 0)"
  by (induction xs) auto

lemma ArrayContains_set: "ArrayContains xs v = (v \<in> set xs)"
  by (induction xs) auto

definition upd :: "'w mstate \<Rightarrow> mid \<Rightarrow> (module_rec \<Rightarrow> module_rec) \<Rightarrow> 'w mstate" where
  "upd s m f = s\<lparr>modules := (modules s)(m := f (modules s m))\<rparr>"

lemma upd_module_run [run_simps]: "upd_module m f s = (Ret (), upd s m f)"
  by (simp add: upd_module_def upd_def run_simps)

lemma upd_simps [simp]:
  "modules (upd s m f) x = (if x = m then f (modules s m) else modules s x)"
  "stk (upd s m f) = stk s" "world (upd s m f) = world s"
  by (simp_all add: upd_def)

lemma ModuleSetStatus_run:
  "st s m < new \<Longrightarrow> ModuleSetStatus m new s = (Ret (), upd s m (\<lambda>r. r\<lparr>status := new\<rparr>))"
  by (simp add: ModuleSetStatus_def run_simps)

section \<open>Popping a component\<close>

definition finish :: "mstatus \<Rightarrow> mid list \<Rightarrow> mid set \<Rightarrow> 'w mstate \<Rightarrow> 'w mstate" where
  "finish new stack C s = s\<lparr>stk := stack,
     modules := (\<lambda>x. if x \<in> C then modules s x\<lparr>status := new\<rparr> else modules s x)\<rparr>"

lemma pop_component_run:
  assumes "stk s = stack @ m # seg" "distinct (m # seg)" "\<forall>x \<in> set (m # seg). st s x < new" "length seg < n"
  shows "pop_component n m new s = (Ret (), finish new stack (set (m # seg)) s)"
  using assms
proof (induction seg arbitrary: s n rule: rev_induct)
  case Nil
  then obtain k where n: "n = Suc k" by (cases n) auto
  have eq: "upd (s\<lparr>stk := stack\<rparr>) m (\<lambda>r. r\<lparr>status := new\<rparr>) = finish new stack {m} s"
    by (simp add: upd_def finish_def fun_eq_iff)
  from Nil show ?case
    by (simp add: n run_simps ModuleSetStatus_run eq)
next
  case (snoc x seg)
  then obtain k where n: "n = Suc k" "length seg < k" by (cases n) auto
  define t where "t = upd (s\<lparr>stk := stack @ m # seg\<rparr>) x (\<lambda>r. r\<lparr>status := new\<rparr>)"
  have "pop_component k m new t = (Ret (), finish new stack (set (m # seg)) t)"
    by (rule snoc.IH) (use snoc.prems n in \<open>auto simp: t_def\<close>)
  moreover have "finish new stack (set (m # seg)) t = finish new stack (set (m # seg @ [x])) s"
    using snoc.prems(2) by (auto simp: finish_def t_def upd_def fun_eq_iff)
  moreover have "pop_component n m new s = pop_component k m new t"
    using snoc.prems by (simp add: n t_def run_simps ModuleSetStatus_run butlast_append)
  ultimately show ?case by simp
qed

declare pop_component.simps [simp del]

lemma finish_simps [simp]:
  "stk (finish new stack C s) = stack"
  "modules (finish new stack C s) x = (if x \<in> C then modules s x\<lparr>status := new\<rparr> else modules s x)"
  "world (finish new stack C s) = world s"
  by (simp_all add: finish_def)

lemma ix_upd: "ix (upd s m f) x = (if x = m then the (dfsIndex (f (modules s m))) else ix s x)"
  by (simp add: ix_def)

lemma anc_upd: "anc (upd s m f) x = (if x = m then the (dfsAncestorIndex (f (modules s m))) else anc s x)"
  by (simp add: anc_def)

lemma ix_finish [simp]: "ix (finish new stack C s) x = ix s x"
  by (simp add: ix_def)

lemma anc_finish [simp]: "anc (finish new stack C s) x = anc s x"
  by (simp add: anc_def)

lemma wpa_get_module [wpa_simps]: "wpa (get_module m) Q E A = (\<lambda>s. Q (modules s m) s)"
  by (simp add: get_module_def wpa_simps)

lemma wpa_upd_module [wpa_simps]: "wpa (upd_module m f) Q E A = (\<lambda>s. Q () (upd s m f))"
  by (simp add: upd_module_def upd_def wpa_simps)

lemma wpa_run: "m s = (Ret a, t) \<Longrightarrow> wpa m Q E A s = Q a t"
  by (simp add: wpa_def)

lemma wpa_runT: "m s = (Throw e, t) \<Longrightarrow> wpa m Q E A s = E e t"
  by (simp add: wpa_def)

section \<open>The invariant\<close>

text \<open>The tables of all modules, and the modules that one requests.\<close>

type_synonym tabs = "mid \<Rightarrow> string list \<times> import_entry list \<times> export_entry list \<times> export_entry list \<times> export_entry list"

definition module_deps :: "'w mhost \<Rightarrow> tabs \<Rightarrow> mid \<Rightarrow> mid set" where
  "module_deps h T m = {r. \<exists>q \<in> set (fst (T m)). HostResolveImportedModule h m q = Inr r}"

locale module_walk =
  fixes h :: "'w mhost" and W :: "'w walk" and D :: "mid set"
    and T :: tabs
    and P :: "'w mstate \<Rightarrow> bool" and A :: "string \<Rightarrow> bool"
  assumes order: "w_start W < w_working W" "w_working W < w_finished W"
    and dones: "w_start W \<notin> w_dones W" "w_working W \<notin> w_dones W" "w_finished W \<in> w_dones W"
    and early_ok: "st s m \<in> insert (w_working W) (w_dones W) \<Longrightarrow> w_early W m i s = (Ret i, s)"
    and early_bad: "st s m \<noteq> w_start W \<Longrightarrow> st s m \<notin> insert (w_working W) (w_dones W) \<Longrightarrow> w_min W \<le> st s m \<Longrightarrow>
      \<exists>e. w_early W m i s = (Throw e, s)"
    and fin: "finite D"
    and closed: "m \<in> D \<Longrightarrow> q \<in> set (fst (T m)) \<Longrightarrow> HostResolveImportedModule h m q = Inr r \<Longrightarrow> r \<in> D"
    and P_tables: "P s \<Longrightarrow> tables (modules s m) = T m"
    and P_same: "P s \<Longrightarrow> same_rest s t \<Longrightarrow> P t"
    and action: "P s \<Longrightarrow> m \<in> D \<Longrightarrow> st s m = w_working W \<Longrightarrow>
      wpa (w_action W m) (\<lambda>_ t. same_core s t \<and> P t) (\<lambda>e t. same_core s t \<and> P t) (\<lambda>msg _. A msg) s"
begin

definition base :: "'w mstate \<Rightarrow> bool" where
  "base s = (distinct (stk s) \<and> (\<forall>m. (st s m = w_working W) = (m \<in> set (stk s)))
     \<and> (\<forall>m. st s m \<in> insert (w_working W) (w_dones W) \<longrightarrow> numbered s m)
     \<and> (\<forall>m r. st s m \<in> w_dones W \<longrightarrow> r \<in> module_deps h T m \<longrightarrow> st s r \<in> w_dones W) \<and> P s)"

definition srt :: "'w mstate \<Rightarrow> int \<Rightarrow> bool" where
  "srt s i = (sorted_wrt (\<lambda>x y. ix s x < ix s y) (stk s)
     \<and> (\<forall>x \<in> set (stk s). 0 \<le> anc s x \<and> anc s x \<le> ix s x \<and> ix s x < i))"

definition frame :: "'w mstate \<Rightarrow> 'w mstate \<Rightarrow> bool" where
  "frame s t = (\<forall>y. (st t y = st s y \<and> same_dfs s t y \<or>
        y \<in> D \<and> st s y = w_start W \<and> st t y \<in> {w_working W, w_finished W})
     \<and> evaluationError (modules t y) = evaluationError (modules s y))"

definition loose :: "'w mstate \<Rightarrow> mid \<Rightarrow> bool" where
  "loose t x = (\<forall>y \<in> module_deps h T x. st t y \<in> w_dones W \<or> y \<in> set (stk t) \<and> anc t x \<le> ix t y)"

definition post :: "mid \<Rightarrow> 'w mstate \<Rightarrow> int \<Rightarrow> int \<Rightarrow> 'w mstate \<Rightarrow> bool" where
  "post m s i j t = (base t \<and> srt t j \<and> i \<le> j \<and> frame s t \<and> st t m \<in> insert (w_working W) (w_dones W)
     \<and> (\<exists>seg. stk t = stk s @ seg \<and> (\<forall>x \<in> set seg. loose t x \<and> anc t m \<le> anc t x)
          \<and> (seg \<noteq> [] \<longrightarrow> m \<in> set seg \<and> anc t m < ix t m \<and> ix t m = i)))"

definition err :: "mid \<Rightarrow> 'w mstate \<Rightarrow> 'w mstate \<Rightarrow> bool" where
  "err m s t = (base t \<and> frame s t \<and> (\<exists>seg. stk t = stk s @ seg) \<and> (st s m = w_start W \<longrightarrow> m \<in> set (stk t)))"

definition inloop :: "mid \<Rightarrow> 'w mstate \<Rightarrow> int \<Rightarrow> string list \<Rightarrow> int \<Rightarrow> 'w mstate \<Rightarrow> bool" where
  "inloop m s i ds j t = (base t \<and> srt t j \<and> i < j \<and> frame s t \<and> ix t m = i
     \<and> (\<exists>seg. stk t = stk s @ m # seg \<and> (\<forall>x \<in> set seg. loose t x \<and> anc t m \<le> anc t x))
     \<and> (\<forall>q \<in> set ds. \<forall>y. HostResolveImportedModule h m q = Inr y \<longrightarrow>
          st t y \<in> w_dones W \<or> y \<in> set (stk t) \<and> anc t m \<le> ix t y))"

definition fresh :: "'w mstate \<Rightarrow> nat" where
  "fresh s = card {x \<in> D. st s x = w_start W}"

lemmas status_facts = order dones order [THEN less_imp_neq]

lemma working_ne: "w_working W \<noteq> w_start W" "w_finished W \<noteq> w_working W" "w_finished W \<noteq> w_start W"
  using order by auto

lemma done_ne: "st s x \<in> w_dones W \<Longrightarrow> st s x \<noteq> w_start W \<and> st s x \<noteq> w_working W"
  using dones by auto

lemma frame_refl [simp]: "frame s s"
  by (simp add: frame_def same_dfs_def)

lemma frame_at: "frame s t \<Longrightarrow> (st t y = st s y \<and> same_dfs s t y \<or>
    y \<in> D \<and> st s y = w_start W \<and> st t y \<in> {w_working W, w_finished W})
    \<and> evaluationError (modules t y) = evaluationError (modules s y)"
  by (simp add: frame_def)

lemma frameD:
  assumes "frame s t"
  shows "y \<notin> D \<or> st s y \<noteq> w_start W \<Longrightarrow> st t y = st s y \<and> same_dfs s t y"
    and "st t y = st s y \<or> y \<in> D \<and> st s y = w_start W \<and> st t y \<in> {w_working W, w_finished W}"
    and "evaluationError (modules t y) = evaluationError (modules s y)"
    and "st t y = w_start W \<Longrightarrow> st s y = w_start W"
  using frame_at [OF assms, of y] working_ne by auto

lemma same_dfs_trans: "same_dfs s t y \<Longrightarrow> same_dfs t u y \<Longrightarrow> same_dfs s u y"
  by (simp add: same_dfs_def)

lemma frame_trans:
  assumes "frame s t" "frame t u"
  shows "frame s u"
  unfolding frame_def
proof (intro allI conjI)
  fix y
  show "evaluationError (modules u y) = evaluationError (modules s y)"
    using frameD(3) [OF assms(1)] frameD(3) [OF assms(2)] by simp
  show "st u y = st s y \<and> same_dfs s u y \<or> y \<in> D \<and> st s y = w_start W \<and> st u y \<in> {w_working W, w_finished W}"
  proof (cases "st t y = w_start W")
    case True
    then have "st t y = st s y \<and> same_dfs s t y" using frame_at [OF assms(1), of y] working_ne by auto
    then show ?thesis using frame_at [OF assms(2), of y] same_dfs_trans [of s t y u] by auto
  next
    case False
    then have "st u y = st t y \<and> same_dfs t u y" using frameD(1) [OF assms(2)] by simp
    then show ?thesis using frame_at [OF assms(1), of y] same_dfs_trans [of s t y u] by auto
  qed
qed

lemma frame_keeps: "frame t u \<Longrightarrow> st t x \<noteq> w_start W \<Longrightarrow> st u x = st t x \<and> ix u x = ix t x \<and> anc u x = anc t x"
  using frameD(1) [of t u x] by (simp add: same_dfs_def ix_def anc_def)

lemma on_stack: "base t \<Longrightarrow> x \<in> set (stk t) \<Longrightarrow> st t x = w_working W"
  by (simp add: base_def)

lemma on_stackD: "base t \<Longrightarrow> st t x = w_working W \<Longrightarrow> x \<in> set (stk t)"
  by (simp add: base_def)

lemma edge_keeps:
  assumes "base t" "frame t u" "set (stk t) \<subseteq> set (stk u)"
    and "st t y \<in> w_dones W \<or> y \<in> set (stk t) \<and> a \<le> ix t y" "b \<le> a"
  shows "st u y \<in> w_dones W \<or> y \<in> set (stk u) \<and> b \<le> ix u y"
  using assms frame_keeps [OF assms(2), of y] done_ne [of t y] on_stack [OF assms(1), of y] working_ne by auto

lemma loose_keeps:
  assumes "base t" "frame t u" "set (stk t) \<subseteq> set (stk u)" "anc u x \<le> anc t x" "loose t x"
  shows "loose u x"
  unfolding loose_def
  by (intro ballI edge_keeps [OF assms(1,2,3) _ assms(4)]) (use assms(5) in \<open>auto simp: loose_def\<close>)

end

section \<open>One edge\<close>

context module_walk
begin

text \<open>Lowering the ancestor index of a module on the stack.\<close>

lemma same_rest_upd:
  assumes "\<And>r. tables (f r) = tables r" "\<And>r. environment (f r) = environment r" "\<And>r. namespace (f r) = namespace r"
  shows "same_rest s (upd s m f)"
  using assms by (simp add: same_rest_def)

lemma lower_base:
  assumes "base u"
  shows "base (upd u m (\<lambda>r. r\<lparr>dfsAncestorIndex := Some v\<rparr>))"
proof -
  have "same_rest u (upd u m (\<lambda>r. r\<lparr>dfsAncestorIndex := Some v\<rparr>))"
    by (rule same_rest_upd) (simp_all add: tables_def)
  then show ?thesis using assms P_same by (auto simp: base_def numbered_def)
qed

lemma lower_srt:
  assumes "srt u j" "0 \<le> v" "v \<le> anc u m"
  shows "srt (upd u m (\<lambda>r. r\<lparr>dfsAncestorIndex := Some v\<rparr>)) j"
proof -
  have "ix (upd u m (\<lambda>r. r\<lparr>dfsAncestorIndex := Some v\<rparr>)) = ix u" by (auto simp: ix_upd ix_def)
  then show ?thesis using assms by (auto simp: srt_def anc_upd)
qed

lemma lower_frame:
  assumes "frame s u" "m \<in> D" "st s m = w_start W" "st u m = w_working W"
  shows "frame s (upd u m (\<lambda>r. r\<lparr>dfsAncestorIndex := Some v\<rparr>))"
  unfolding frame_def
proof
  fix y
  show "(st (upd u m (\<lambda>r. r\<lparr>dfsAncestorIndex := Some v\<rparr>)) y = st s y
       \<and> same_dfs s (upd u m (\<lambda>r. r\<lparr>dfsAncestorIndex := Some v\<rparr>)) y \<or>
      y \<in> D \<and> st s y = w_start W \<and> st (upd u m (\<lambda>r. r\<lparr>dfsAncestorIndex := Some v\<rparr>)) y \<in> {w_working W, w_finished W})
     \<and> evaluationError (modules (upd u m (\<lambda>r. r\<lparr>dfsAncestorIndex := Some v\<rparr>)) y) = evaluationError (modules s y)"
    using frame_at [OF assms(1), of y] assms(2-4) by (cases "y = m") (auto simp: same_dfs_def)
qed

lemma inloop_err: "inloop m s i ds j t \<Longrightarrow> err m s t"
  by (auto simp: inloop_def err_def)

lemma err_trans:
  assumes "inloop m s i ds j t" "err r t u"
  shows "err m s u"
  using assms frame_trans [of s t u] by (auto simp: inloop_def err_def)

lemma edge_post:
  assumes lp: "inloop m s i ds j t" and m: "m \<in> D" "st s m = w_start W"
    and q: "HostResolveImportedModule h m q = Inr r" and po: "post r t j k u"
    and v: "v = (if st u r = w_working W then upd u m (\<lambda>x. x\<lparr>dfsAncestorIndex := Some (min (anc u m) (anc u r))\<rparr>) else u)"
  shows "inloop m s i (ds @ [q]) k v"
proof -
  from lp obtain seg where lp': "base t" "srt t j" "i < j" "frame s t" "ix t m = i"
    "stk t = stk s @ m # seg" "\<forall>x \<in> set seg. loose t x \<and> anc t m \<le> anc t x"
    and es: "\<forall>q \<in> set ds. \<forall>y. HostResolveImportedModule h m q = Inr y \<longrightarrow>
          st t y \<in> w_dones W \<or> y \<in> set (stk t) \<and> anc t m \<le> ix t y"
    by (auto simp: inloop_def)
  from po obtain seg' where po': "base u" "srt u k" "j \<le> k" "frame t u" "st u r \<in> insert (w_working W) (w_dones W)"
    "stk u = stk t @ seg'" "\<forall>x \<in> set seg'. loose u x \<and> anc u r \<le> anc u x" "seg' \<noteq> [] \<longrightarrow> r \<in> set seg'"
    by (auto simp: post_def)
  have on: "x \<in> set (stk t) \<Longrightarrow> st t x \<noteq> w_start W" for x
    using on_stack [OF lp'(1)] working_ne by auto
  have kept: "ix u x = ix t x" "anc u x = anc t x" if "x \<in> set (stk t)" for x
    using frame_keeps [OF po'(4) on [OF that]] by auto
  have m_on: "m \<in> set (stk t)" "m \<in> set (stk u)" using lp'(6) po'(6) by auto
  have nonneg: "0 \<le> anc u x" if "x \<in> set (stk u)" for x using po'(2) that by (auto simp: srt_def)
  have r_on: "r \<in> set (stk u)" if "st u r = w_working W" using on_stackD [OF po'(1) that] .
  have seg'_r: "seg' \<noteq> [] \<Longrightarrow> st u r = w_working W" using po'(6,8) on_stack [OF po'(1)] by auto
  have dist: "distinct (stk u)" using po'(1) by (simp add: base_def)
  have stv: "stk v = stk u" "\<And>x. st v x = st u x" "\<And>x. ix v x = ix u x" by (auto simp: v ix_upd ix_def)
  have ancv: "anc v x = anc u x" if "x \<noteq> m" for x using that by (simp add: v anc_upd)
  have ancm: "anc v m \<le> anc u m" "st u r = w_working W \<Longrightarrow> anc v m \<le> anc u r" by (auto simp: v anc_upd)
  have base_v: "base v" using lower_base [OF po'(1)] po'(1) by (simp add: v)
  have srt_v: "srt v k"
  proof (cases "st u r = w_working W")
    case True
    then show ?thesis using lower_srt [OF po'(2), of "min (anc u m) (anc u r)" m] nonneg [OF m_on(2)] nonneg [OF r_on]
      by (simp add: v)
  qed (use po'(2) v in simp)
  have frame_tu: "frame s u" by (rule frame_trans [OF lp'(4) po'(4)])
  have frame_v: "frame s v" using lower_frame [OF frame_tu m on_stack [OF po'(1) m_on(2)]] frame_tu by (simp add: v)
  have sub: "set (stk t) \<subseteq> set (stk u)" using po'(6) by auto
  have lv: "loose v x" if "loose u x" "x \<noteq> m" for x
    using that by (simp add: loose_def stv ancv)
  have l1: "loose v x \<and> anc v m \<le> anc v x" if x: "x \<in> set seg" for x
  proof -
    have xt: "x \<in> set (stk t)" "x \<noteq> m" using x lp'(1,6) by (auto simp: base_def)
    have "loose u x" by (rule loose_keeps [OF lp'(1) po'(4) sub]) (use kept [OF xt(1)] lp'(7) x in auto)
    moreover have "anc v m \<le> anc u x" using ancm(1) kept(2) [OF m_on(1)] kept(2) [OF xt(1)] lp'(7) x by fastforce
    ultimately show ?thesis using lv xt(2) ancv by simp
  qed
  have l2: "loose v x \<and> anc v m \<le> anc v x" if x: "x \<in> set seg'" for x
  proof -
    have "x \<noteq> m" using x po'(6) dist m_on(1) by auto
    moreover have "st u r = w_working W" using seg'_r x by (cases seg') auto
    ultimately show ?thesis using lv ancv ancm(2) po'(7) x by fastforce
  qed
  have e1: "st v y \<in> w_dones W \<or> y \<in> set (stk v) \<and> anc v m \<le> ix v y"
    if "st t y \<in> w_dones W \<or> y \<in> set (stk t) \<and> anc t m \<le> ix t y" for y
    using edge_keeps [OF lp'(1) po'(4) sub that, of "anc v m"] ancm(1) kept(2) [OF m_on(1)] by (simp add: stv)
  have e2: "st v r \<in> w_dones W \<or> r \<in> set (stk v) \<and> anc v m \<le> ix v r"
  proof (cases "st u r = w_working W")
    case True
    have "anc u r \<le> ix u r" using po'(2) r_on [OF True] by (auto simp: srt_def)
    then show ?thesis using ancm(2) [OF True] r_on [OF True] by (simp add: stv)
  qed (use po'(5) stv in auto)
  show ?thesis
    unfolding inloop_def
  proof (intro conjI)
    show "\<exists>seg. stk v = stk s @ m # seg \<and> (\<forall>x \<in> set seg. loose v x \<and> anc v m \<le> anc v x)"
      by (rule exI [of _ "seg @ seg'"]) (use l1 l2 lp'(6) po'(6) stv in auto)
    show "ix v m = i" using stv(3) kept(1) [OF m_on(1)] lp'(5) by simp
    show "\<forall>q' \<in> set (ds @ [q]). \<forall>y. HostResolveImportedModule h m q' = Inr y \<longrightarrow>
        st v y \<in> w_dones W \<or> y \<in> set (stk v) \<and> anc v m \<le> ix v y"
      using es e1 e2 q by auto
  qed (use base_v srt_v frame_v lp'(3) po'(3) in auto)
qed

lemma join_step:
  assumes lp: "inloop m s i ds j t" and m: "m \<in> D" "st s m = w_start W"
    and q: "HostResolveImportedModule h m q = Inr r" and po: "post r t j k u"
  shows "wpa (walk_join W m r k) (inloop m s i (ds @ [q])) (\<lambda>_. err m s) (\<lambda>msg _. A msg) u"
proof -
  have "st u r \<in> insert (w_working W) (w_dones W)" "(st u r = w_working W) = (r \<in> set (stk u))" "numbered u r"
    using po by (auto simp: post_def base_def)
  moreover have "inloop m s i (ds @ [q]) k
      (if st u r = w_working W then upd u m (\<lambda>x. x\<lparr>dfsAncestorIndex := Some (min (anc u m) (anc u r))\<rparr>) else u)"
    by (rule edge_post [OF lp m q po refl])
  moreover have "(\<lambda>x. x\<lparr>dfsAncestorIndex := Some (min (anc u m) (anc u r))\<rparr>) (modules u m)
     = modules u m\<lparr>dfsAncestorIndex := Some (min (the (dfsAncestorIndex (modules u m))) (the (dfsAncestorIndex (modules u r))))\<rparr>"
    by (simp add: anc_def)
  ultimately show ?thesis
    by (simp add: walk_join_def wpa_simps ArrayContains_set numbered_def join_ancestor_def upd_def split: if_splits)
qed

lemma fresh_less:
  assumes "frame s t" "m \<in> D" "st s m = w_start W" "st t m \<noteq> w_start W"
  shows "fresh t < fresh s"
  unfolding fresh_def
proof (rule psubset_card_mono)
  show "finite {x \<in> D. st s x = w_start W}" using fin by simp
  have "x \<in> D \<Longrightarrow> st t x = w_start W \<Longrightarrow> st s x = w_start W" for x
    using assms(1) working_ne by (metis frame_def)
  then show "{x \<in> D. st t x = w_start W} \<subset> {x \<in> D. st s x = w_start W}" using assms(2-4) by auto
qed

definition visit_ok :: "(mid \<Rightarrow> int \<Rightarrow> ('w, int) mprog) \<Rightarrow> nat \<Rightarrow> bool" where
  "visit_ok rec d = (\<forall>r j t. base t \<longrightarrow> srt t j \<longrightarrow> 0 \<le> j \<longrightarrow> r \<in> D \<longrightarrow> w_min W \<le> st t r \<longrightarrow> fresh t < d \<longrightarrow>
     wpa (rec r j) (post r t j) (\<lambda>_. err r t) (\<lambda>msg _. A msg) t)"

lemma edge_step:
  assumes rec: "visit_ok rec d" and m: "m \<in> D" "st s m = w_start W" "fresh s \<le> d" "0 \<le> i"
    and lp: "inloop m s i ds j t" and q: "q \<in> set (fst (T m))"
  shows "wpa (walk_edge h W rec m q j) (inloop m s i (ds @ [q])) (\<lambda>_. err m s) (\<lambda>msg _. A msg) t"
proof (cases "HostResolveImportedModule h m q")
  case (Inl e)
  then show ?thesis using inloop_err [OF lp] by (simp add: walk_edge_def CallModuleResolveHook_def wpa_simps)
next
  case (Inr r)
  have r: "r \<in> D" using closed [OF m(1) q Inr] .
  show ?thesis
  proof (cases "st t r < w_min W")
    case True
    then show ?thesis using Inr inloop_err [OF lp] by (simp add: walk_edge_def CallModuleResolveHook_def wpa_simps)
  next
    case False
    have bt: "base t" "srt t j" "0 \<le> j" "frame s t" "m \<in> set (stk t)" using lp m(4) by (auto simp: inloop_def)
    have "st t m \<noteq> w_start W" using on_stack [OF bt(1,5)] working_ne by simp
    then have "fresh t < d" using fresh_less [OF bt(4) m(1,2)] m(3) by simp
    with rec bt r False have "wpa (rec r j) (post r t j) (\<lambda>_. err r t) (\<lambda>msg _. A msg) t"
      by (simp add: visit_ok_def)
    then have "wpa (rec r j) (\<lambda>k u. post r t j k u) (\<lambda>_. err m s) (\<lambda>msg _. A msg) t"
      by (rule wpa_mono) (use err_trans [OF lp] in auto)
    then have "wpa (rec r j) (\<lambda>k. wpa (walk_join W m r k) (inloop m s i (ds @ [q])) (\<lambda>_. err m s) (\<lambda>msg _. A msg))
        (\<lambda>_. err m s) (\<lambda>msg _. A msg) t"
      by (rule wpa_mono) (use join_step [OF lp m(1,2) Inr] in auto)
    then show ?thesis using Inr False
      by (simp add: walk_edge_def CallModuleResolveHook_def wpa_simps)
  qed
qed

end

section \<open>One module\<close>

context module_walk
begin

lemma base_core: "base t \<Longrightarrow> same_core t u \<Longrightarrow> P u \<Longrightarrow> base u"
  by (simp add: base_def same_core_def numbered_def same_dfs_def)

lemma core_numbers: "same_core t u \<Longrightarrow> ix u = ix t" "same_core t u \<Longrightarrow> anc u = anc t"
  by (simp_all add: same_core_def same_dfs_def ix_def anc_def fun_eq_iff)

lemma frame_core: "frame s t \<Longrightarrow> same_core t u \<Longrightarrow> frame s u"
  by (simp add: frame_def same_core_def same_dfs_def)

lemma inloop_core:
  assumes "inloop m s i ds j t" "same_core t u" "P u"
  shows "inloop m s i ds j u"
proof -
  have "stk u = stk t" "\<And>x. st u x = st t x" "ix u = ix t" "anc u = anc t"
    using assms(2) core_numbers by (simp_all add: same_core_def)
  with assms base_core [OF _ assms(2,3)] frame_core [OF _ assms(2)] show ?thesis
    by (auto simp: inloop_def srt_def loose_def)
qed

text \<open>What is above \<open>m\<close> on the stack was not started before.\<close>

lemma seg_started:
  assumes "base s" "base t" "frame s t" "stk t = stk s @ seg" "x \<in> set seg"
  shows "x \<in> D \<and> st s x = w_start W"
proof -
  have "x \<notin> set (stk s)" "st t x = w_working W" using assms(2,4,5) by (auto simp: base_def)
  moreover then have "st s x \<noteq> w_working W" using assms(1) by (simp add: base_def)
  ultimately show ?thesis using assms(3) by (metis frame_def)
qed

lemma finish_post:
  assumes lp: "inloop m s i (fst (T m)) j t" and s: "base s" and m: "anc t m = ix t m"
    and seg: "stk t = stk s @ m # seg" "\<forall>x \<in> set seg. loose t x \<and> anc t m \<le> anc t x"
    and f: "f = finish (w_finished W) (stk s) (set (m # seg)) t"
  shows "post m s i j f"
proof -
  have bt: "base t" "srt t j" "i < j" "frame s t" using lp by (auto simp: inloop_def)
  have loose_m: "loose t m" using lp by (auto simp: inloop_def loose_def module_deps_def)
  have low: "loose t x \<and> ix t m \<le> anc t x" if "x \<in> set (m # seg)" for x
    using that seg(2) loose_m m by auto
  have stf: "st f x = (if x \<in> set (m # seg) then w_finished W else st t x)" for x by (simp add: f)
  have sorted: "\<forall>x \<in> set (stk s). \<forall>y \<in> set (m # seg). ix t x < ix t y"
    using bt(2) by (auto simp: srt_def seg(1) sorted_wrt_append)
  have dist: "distinct (stk s @ m # seg)" using bt(1) seg(1) by (simp add: base_def)
  have "P f" using bt(1) P_same by (auto simp: base_def f same_rest_def tables_def)
  moreover have "(st f x = w_working W) = (x \<in> set (stk s))" for x
    using bt(1) dist working_ne by (auto simp: stf base_def seg(1))
  moreover have "numbered f x" if "st f x \<in> insert (w_working W) (w_dones W)" for x
    using that bt(1) by (auto simp: f numbered_def base_def seg(1) split: if_splits)
  moreover have "st f y \<in> w_dones W" if "st f x \<in> w_dones W" "y \<in> module_deps h T x" for x y
  proof (cases "x \<in> set (m # seg)")
    case True
    show ?thesis
    proof (cases "st t y \<in> w_dones W")
      case False
      then have "y \<in> set (stk t)" "ix t m \<le> ix t y" using low [OF True] that(2) by (auto simp: loose_def)
      moreover from this sorted have "y \<notin> set (stk s)" by fastforce
      ultimately have "y \<in> set (m # seg)" using seg(1) by auto
      then show ?thesis using dones(3) by (simp add: stf)
    qed (use dones(3) in \<open>simp add: stf\<close>)
  next
    case False
    with that bt(1) have "st t y \<in> w_dones W" by (auto simp: stf base_def)
    then show ?thesis using dones(3) by (simp add: stf)
  qed
  ultimately have base_f: "base f" using dist by (auto simp: base_def f)
  have srt_f: "srt f j" using bt(2) by (auto simp: srt_def seg(1) sorted_wrt_append f)
  have started: "x \<in> set (m # seg) \<Longrightarrow> x \<in> D \<and> st s x = w_start W" for x
    using seg_started [OF s bt(1,4) seg(1)] by simp
  have "frame s f"
    unfolding frame_def
  proof
    fix y
    show "(st f y = st s y \<and> same_dfs s f y \<or> y \<in> D \<and> st s y = w_start W \<and> st f y \<in> {w_working W, w_finished W})
       \<and> evaluationError (modules f y) = evaluationError (modules s y)"
      using frame_at [OF bt(4), of y] started [of y] by (auto simp: stf f same_dfs_def)
  qed
  then show ?thesis using base_f srt_f bt(3) dones(3) by (simp add: post_def stf) (simp add: f)
qed

lemma pop_step:
  assumes lp: "inloop m s i (fst (T m)) j u" and s: "base s"
  shows "wpa (walk_pop W m j) (post m s i) (\<lambda>_. err m s) (\<lambda>msg _. A msg) u"
proof -
  obtain seg where bu: "base u" "srt u j" "i < j" "frame s u" "ix u m = i"
    and seg: "stk u = stk s @ m # seg" "\<forall>x \<in> set seg. loose u x \<and> anc u m \<le> anc u x"
    using lp by (auto simp: inloop_def)
  have count: "CountArrayValues (stk u) m = 1"
    using bu(1) seg(1) by (simp add: CountArrayValues_distinct base_def)
  have le: "anc u m \<le> ix u m" using bu(2) seg(1) by (auto simp: srt_def)
  have work: "st u x = w_working W" if "x \<in> set (m # seg)" for x using on_stack [OF bu(1)] seg(1) that by auto
  have num: "numbered u m" using bu(1) work by (auto simp: base_def)
  have eq: "(dfsAncestorIndex (modules u m) = dfsIndex (modules u m)) = (anc u m = ix u m)"
    using num by (auto simp: numbered_def anc_def ix_def)
  have dist: "distinct (m # seg)" using bu(1) seg(1) by (simp add: base_def)
  have pop: "pop_component (length (stk u) + 1) m (w_finished W) u
      = (Ret (), finish (w_finished W) (stk s) (set (m # seg)) u)"
    by (rule pop_component_run [OF seg(1) dist]) (use work order(2) seg(1) in auto)
  show ?thesis
  proof (cases "anc u m = ix u m")
    case True
    have "post m s i j (finish (w_finished W) (stk s) (set (m # seg)) u)"
      by (rule finish_post [OF lp s True seg refl])
    then show ?thesis using count le eq True by (simp add: walk_pop_def wpa_simps wpa_run [of "pop_component (Suc (length (stk u))) m (w_finished W)", OF pop [unfolded Suc_eq_plus1 [symmetric]]] anc_def ix_def)
  next
    case False
    have "loose u m" using lp by (auto simp: inloop_def loose_def module_deps_def)
    then have "post m s i j u" unfolding post_def using False le bu seg work by auto
    then show ?thesis using False count le eq by (simp add: walk_pop_def wpa_simps anc_def ix_def)
  qed
qed

lemma close_step:
  assumes lp: "inloop m s i (fst (T m)) j t" and s: "base s" and m: "m \<in> D"
  shows "wpa (walk_close W m j) (post m s i) (\<lambda>_. err m s) (\<lambda>msg _. A msg) t"
proof -
  have bt: "base t" "m \<in> set (stk t)" using lp by (auto simp: inloop_def)
  then have "P t" "st t m = w_working W" by (auto simp: base_def)
  then have "wpa (w_action W m) (\<lambda>_ u. same_core t u \<and> P u) (\<lambda>e u. same_core t u \<and> P u) (\<lambda>msg _. A msg) t"
    by (intro action m)
  then have "wpa (w_action W m) (\<lambda>_. wpa (walk_pop W m j) (post m s i) (\<lambda>_. err m s) (\<lambda>msg _. A msg))
      (\<lambda>_. err m s) (\<lambda>msg _. A msg) t"
    by (rule wpa_mono) (use pop_step [OF inloop_core [OF lp] s] inloop_err [OF inloop_core [OF lp]] in auto)
  then show ?thesis by (simp add: walk_close_def wpa_simps)
qed

text \<open>Entering a module: the state after the first statements of the walk.\<close>

definition enter :: "mid \<Rightarrow> int \<Rightarrow> 'w mstate \<Rightarrow> 'w mstate" where
  "enter m i s = s\<lparr>stk := stk s @ [m], modules := (modules s)(m := modules s m
     \<lparr>status := w_working W, dfsIndex := Some i, dfsAncestorIndex := Some i\<rparr>)\<rparr>"

lemma enter_run:
  assumes "st s m = w_start W"
  shows "visit h W (Suc d) m i s = bnd (for_list (requestedModules (modules s m)) (walk_edge h W (visit h W d) m) (i + 1))
    (walk_close W m) (enter m i s)"
proof -
  have "upd (upd (upd s m (\<lambda>r. r\<lparr>status := w_working W\<rparr>)) m (\<lambda>r. r\<lparr>dfsIndex := Some i\<rparr>)) m (\<lambda>r. r\<lparr>dfsAncestorIndex := Some i\<rparr>)
      \<lparr>stk := stk s @ [m]\<rparr> = enter m i s"
    by (simp add: upd_def enter_def)
  then show ?thesis using assms order(1)
    by (simp add: bnd_get_module sq_run(1) [OF ModuleSetStatus_run] set_dfs_def stack_append_def run_simps)
qed

lemma enter_inloop:
  assumes s: "base s" "srt s i" "0 \<le> i" and m: "m \<in> D" "st s m = w_start W"
  shows "inloop m s i [] (i + 1) (enter m i s)"
proof -
  let ?t = "enter m i s"
  have t: "stk ?t = stk s @ [m]" "st ?t x = (if x = m then w_working W else st s x)"
    "ix ?t x = (if x = m then i else ix s x)" "anc ?t x = (if x = m then i else anc s x)" for x
    by (auto simp: enter_def ix_def anc_def)
  have off: "m \<notin> set (stk s)" using on_stack [OF s(1), of m] m(2) working_ne by auto
  have P: "P ?t" using s(1) P_same by (auto simp: base_def enter_def same_rest_def tables_def)
  have num: "numbered ?t x = (x = m \<or> numbered s x)" for x by (simp add: numbered_def enter_def)
  have "r \<noteq> m" if "st s x \<in> w_dones W" "r \<in> module_deps h T x" for x r
    using s(1) m(2) dones(1) that unfolding base_def by metis
  then have "base ?t"
    using s(1) off P dones m(2) unfolding base_def num t by (auto split: if_splits)
  moreover have "sorted_wrt (\<lambda>x y. ix ?t x < ix ?t y) (stk s)"
    by (rule sorted_wrt_mono_rel [where P = "\<lambda>x y. ix s x < ix s y"]) (use s(2) off in \<open>auto simp: t srt_def\<close>)
  then have "srt ?t (i + 1)"
    using s(2,3) off by (force simp: srt_def t sorted_wrt_append)
  moreover have "frame s ?t"
    using m by (auto simp: frame_def same_dfs_def enter_def)
  ultimately show ?thesis by (simp add: inloop_def t)
qed

theorem visit_correct: "visit_ok (visit h W d) d"
proof (induction d)
  case 0
  show ?case by (simp add: visit_ok_def)
next
  case (Suc d)
  show ?case
    unfolding visit_ok_def
  proof (intro allI impI)
    fix m :: mid and i and s :: "'w mstate"
    assume s: "base s" "srt s i" "0 \<le> i" and m: "m \<in> D" "w_min W \<le> st s m" and f: "fresh s < Suc d"
    show "wpa (visit h W (Suc d) m i) (post m s i) (\<lambda>_. err m s) (\<lambda>msg _. A msg) s"
    proof (cases "st s m = w_start W")
      case True
      have reqs: "requestedModules (modules s m) = fst (T m)"
        using s(1) by (simp add: P_tables [of s m, symmetric] base_def tables_def)
      have lp: "inloop m s i [] (i + 1) (enter m i s)" by (rule enter_inloop [OF s m(1) True])
      have "wpa (for_list (fst (T m)) (walk_edge h W (visit h W d) m) (i + 1))
          (\<lambda>j. wpa (walk_close W m j) (post m s i) (\<lambda>_. err m s) (\<lambda>msg _. A msg)) (\<lambda>_. err m s) (\<lambda>msg _. A msg) (enter m i s)"
        by (rule wpa_for_list [where I = "\<lambda>ds rs. inloop m s i ds"])
          (use lp edge_step [OF Suc.IH m(1) True _ s(3)] close_step [OF _ s(1) m(1)] f in auto)
      then have "wpa (bnd (for_list (fst (T m)) (walk_edge h W (visit h W d) m) (i + 1)) (walk_close W m))
          (post m s i) (\<lambda>_. err m s) (\<lambda>msg _. A msg) (enter m i s)"
        by (simp only: wpa_bnd)
      then show ?thesis using enter_run [OF True, of d i] by (simp add: wpa_def reqs)
    next
      case False
      show ?thesis
      proof (cases "st s m \<in> insert (w_working W) (w_dones W)")
        case True
        then have "post m s i i s" using s by (auto simp: post_def)
        moreover have "visit h W (Suc d) m i s = (Ret i, s)"
          using False early_ok [OF True] by (simp add: bnd_get_module)
        ultimately show ?thesis by (simp add: wpa_run)
      next
        case bad: False
        obtain e where "visit h W (Suc d) m i s = (Throw e, s)"
          using False early_bad [OF False bad m(2)] by (auto simp: bnd_get_module)
        then show ?thesis using s False by (simp add: wpa_runT err_def)
      qed
    qed
  qed
qed

end

end
