(* ===== verification/ModuleResolve.thy ===== *)
theory ModuleResolve
  imports ModuleTarjan
begin

text \<open>
  What name resolution promises, stated on the tables of the modules alone: the names a module
  exports and the bindings that a name has through indirect and star exports, as inductive
  relations; \<open>GetExportedNames\<close> and \<open>ResolveExport\<close> compute them and end.
\<close>

section \<open>The relations\<close>

definition tabs_of :: "'w mstate \<Rightarrow> tabs" where
  "tabs_of s = (\<lambda>m. tables (modules s m))"

abbreviation t_requests :: "tabs \<Rightarrow> mid \<Rightarrow> string list" where
  "t_requests T m \<equiv> fst (T m)"

abbreviation t_imports :: "tabs \<Rightarrow> mid \<Rightarrow> import_entry list" where
  "t_imports T m \<equiv> fst (snd (T m))"

abbreviation t_locals :: "tabs \<Rightarrow> mid \<Rightarrow> export_entry list" where
  "t_locals T m \<equiv> fst (snd (snd (T m)))"

abbreviation t_indirects :: "tabs \<Rightarrow> mid \<Rightarrow> export_entry list" where
  "t_indirects T m \<equiv> fst (snd (snd (snd (T m))))"

abbreviation t_stars :: "tabs \<Rightarrow> mid \<Rightarrow> export_entry list" where
  "t_stars T m \<equiv> snd (snd (snd (snd (T m))))"

definition own_names :: "tabs \<Rightarrow> mid \<Rightarrow> string list" where
  "own_names T m = map exportName (t_locals T m) @ map exportName (t_indirects T m)"

definition star_succs :: "'w mhost \<Rightarrow> tabs \<Rightarrow> mid \<Rightarrow> mid set" where
  "star_succs h T m = {i. \<exists>e \<in> set (t_stars T m). HostResolveImportedModule h m (moduleRequest e) = Inr i}"

text \<open>The names a module exports.\<close>

inductive exported :: "'w mhost \<Rightarrow> tabs \<Rightarrow> mid \<Rightarrow> string \<Rightarrow> bool" for h T where
  own: "n \<in> set (own_names T m) \<Longrightarrow> exported h T m n"
| star: "i \<in> star_succs h T m \<Longrightarrow> exported h T i n \<Longrightarrow> n \<noteq> ''default'' \<Longrightarrow> exported h T m n"

text \<open>A name that a module defines itself (or as a namespace), and where it looks on otherwise.\<close>

definition terminal :: "'w mhost \<Rightarrow> tabs \<Rightarrow> mid \<times> string \<Rightarrow> (mid \<times> string) option" where
  "terminal h T p = (case find (\<lambda>e. snd p = exportName e) (t_locals T (fst p)) of
      Some e \<Rightarrow> Some (fst p, localName e)
    | None \<Rightarrow> (case find (\<lambda>e. snd p = exportName e) (t_indirects T (fst p)) of
        Some e \<Rightarrow> (case HostResolveImportedModule h (fst p) (moduleRequest e) of
            Inr i \<Rightarrow> if importName e = ''*'' then Some (i, ''*namespace*'') else None
          | Inl _ \<Rightarrow> None)
      | None \<Rightarrow> None))"

definition looks_in :: "'w mhost \<Rightarrow> tabs \<Rightarrow> mid \<times> string \<Rightarrow> (mid \<times> string) set" where
  "looks_in h T p = (case find (\<lambda>e. snd p = exportName e) (t_locals T (fst p)) of
      Some e \<Rightarrow> {}
    | None \<Rightarrow> (case find (\<lambda>e. snd p = exportName e) (t_indirects T (fst p)) of
        Some e \<Rightarrow> (case HostResolveImportedModule h (fst p) (moduleRequest e) of
            Inr i \<Rightarrow> if importName e = ''*'' then {} else {(i, importName e)}
          | Inl _ \<Rightarrow> {})
      | None \<Rightarrow> if snd p = ''default'' then {} else (\<lambda>i. (i, snd p)) ` star_succs h T (fst p)))"

text \<open>The bindings a name of a module may stand for.\<close>

inductive provides :: "'w mhost \<Rightarrow> tabs \<Rightarrow> mid \<times> string \<Rightarrow> mid \<times> string \<Rightarrow> bool" for h T where
  here: "terminal h T p = Some b \<Longrightarrow> provides h T p b"
| there: "q \<in> looks_in h T p \<Longrightarrow> provides h T q b \<Longrightarrow> provides h T p b"

text \<open>What the result of \<open>ResolveExport\<close> says of these bindings.\<close>

definition ambiguous_at :: "'w mhost \<Rightarrow> tabs \<Rightarrow> mid \<times> string \<Rightarrow> bool" where
  "ambiguous_at h T p = (\<exists>b b'. b \<noteq> b' \<and> provides h T p b \<and> provides h T p b')"

definition resolves_to :: "'w mhost \<Rightarrow> tabs \<Rightarrow> mid \<times> string \<Rightarrow> resolution \<Rightarrow> bool" where
  "resolves_to h T p r = (case r of
      NotFound \<Rightarrow> \<forall>b. \<not> provides h T p b
    | Resolved m' n' \<Rightarrow> \<forall>b. provides h T p b \<longleftrightarrow> b = (m', n')
    | Ambiguous \<Rightarrow> ambiguous_at h T p)"

lemma resolves_to_unique: "resolves_to h T p r \<Longrightarrow> resolves_to h T p r' \<Longrightarrow> r = r'"
  by (cases r; cases r') (auto simp: resolves_to_def ambiguous_at_def)

lemma ambiguous_there: "q \<in> looks_in h T p \<Longrightarrow> ambiguous_at h T q \<Longrightarrow> ambiguous_at h T p"
  unfolding ambiguous_at_def by (meson provides.there)

lemma ambiguousI: "provides h T p b \<Longrightarrow> provides h T p b' \<Longrightarrow> b \<noteq> b' \<Longrightarrow> ambiguous_at h T p"
  unfolding ambiguous_at_def by blast

section \<open>Resolution\<close>

lemma wp_get_module [wp_simps]: "wp (get_module m) Q E = (\<lambda>s. Q (modules s m) s)"
  by (simp add: get_module_def wp_simps)

lemma wp_resolve_hook: "wp (CallModuleResolveHook h m q UNLINKED) Q E s =
    (case HostResolveImportedModule h m q of Inl e \<Rightarrow> E e s | Inr i \<Rightarrow> Q i s)"
  by (simp add: CallModuleResolveHook_def mstatus_order wp_simps split: sum.split)

lemma modules_tabs:
  "localExportEntries (modules s m) = t_locals (tabs_of s) m"
  "indirectExportEntries (modules s m) = t_indirects (tabs_of s) m"
  "starExportEntries (modules s m) = t_stars (tabs_of s) m"
  "importEntries (modules s m) = t_imports (tabs_of s) m"
  "requestedModules (modules s m) = t_requests (tabs_of s) m"
  by (simp_all add: tabs_of_def tables_def)

text \<open>What one call has found out: \<open>rs\<close> and \<open>rs'\<close> are the resolve sets before and after.\<close>

definition explored :: "'w mhost \<Rightarrow> tabs \<Rightarrow> (mid \<times> string) set \<Rightarrow> (mid \<times> string) set \<Rightarrow> (mid \<times> string) option \<Rightarrow> bool" where
  "explored h T R R' res = (R \<subseteq> R' \<and> (\<forall>p \<in> R' - R. looks_in h T p \<subseteq> R' \<and>
     (terminal h T p = None \<or> terminal h T p = res)))"

fun found :: "resolution \<Rightarrow> (mid \<times> string) option" where
  "found (Resolved m n) = Some (m, n)"
| "found _ = None"

definition resolve_post :: "'w mhost \<Rightarrow> tabs \<Rightarrow> mid \<times> string \<Rightarrow> (mid \<times> string) set \<Rightarrow> resolution \<Rightarrow> (mid \<times> string) set \<Rightarrow> bool" where
  "resolve_post h T p R r R' =
     (if r = Ambiguous then ambiguous_at h T p
      else explored h T R R' (found r) \<and> p \<in> R' \<and> (\<forall>b. found r = Some b \<longrightarrow> provides h T p b))"

lemma explored_trans: "explored h T R R' res \<Longrightarrow> explored h T R' R'' res' \<Longrightarrow> res = None \<or> res' = None \<or> res = res'
    \<Longrightarrow> explored h T R R'' (if res = None then res' else res)"
  unfolding explored_def by (auto split: if_splits; metis DiffI subsetD)

lemma wp_bnd_get: "wp (bnd (get_module m) f) Q E s = wp (f (modules s m)) Q E s"
  by (simp add: wp_simps)

definition hook_throws :: "'w mhost \<Rightarrow> exn \<Rightarrow> bool" where
  "hook_throws h e = (\<exists>m q. HostResolveImportedModule h m q = Inl e)"

text \<open>The loop over the star exports.\<close>

definition star_inv :: "'w mhost \<Rightarrow> tabs \<Rightarrow> mid \<times> string \<Rightarrow> (mid \<times> string) set \<Rightarrow> export_entry list \<Rightarrow>
    resolution \<times> (mid \<times> string) list \<Rightarrow> bool" where
  "star_inv h T p R ds c = (fst c \<noteq> Ambiguous \<and> explored h T R (set (snd c)) (found (fst c))
     \<and> (\<forall>b. found (fst c) = Some b \<longrightarrow> provides h T p b)
     \<and> (\<forall>e \<in> set ds. \<forall>i. HostResolveImportedModule h (fst p) (moduleRequest e) = Inr i \<longrightarrow> (i, snd p) \<in> set (snd c)))"

lemma star_inv_step:
  assumes inv: "star_inv h T p R ds (star, rs)" and q: "(i, snd p) \<in> looks_in h T p"
    "HostResolveImportedModule h (fst p) (moduleRequest e) = Inr i"
    and r: "resolve_post h T (i, snd p) (set rs) r (set rs')"
  shows "r = Ambiguous \<Longrightarrow> ambiguous_at h T p"
    and "r \<noteq> Ambiguous \<Longrightarrow> r \<noteq> NotFound \<Longrightarrow> star = NotFound \<Longrightarrow> star_inv h T p R (ds @ [e]) (r, rs')"
    and "r \<noteq> Ambiguous \<Longrightarrow> r \<noteq> NotFound \<Longrightarrow> star \<noteq> NotFound \<Longrightarrow>
      res_module r \<noteq> res_module star \<or> bindingName r \<noteq> bindingName star \<Longrightarrow>
      ambiguous_at h T p"
    and "r \<noteq> Ambiguous \<Longrightarrow> star \<noteq> NotFound \<Longrightarrow> r = star \<Longrightarrow> star_inv h T p R (ds @ [e]) (star, rs')"
    and "r = NotFound \<Longrightarrow> star_inv h T p R (ds @ [e]) (star, rs')"
proof -
  have up: "provides h T (i, snd p) b \<Longrightarrow> provides h T p b" for b
    using q(1) by (rule provides.there)
  have sub: "r \<noteq> Ambiguous \<Longrightarrow> set rs \<subseteq> set rs'" using r by (simp add: resolve_post_def explored_def)
  note r' = r [unfolded resolve_post_def]
  note inv' = inv [unfolded star_inv_def fst_conv snd_conv]
  have tr: "r \<noteq> Ambiguous \<Longrightarrow> found star = None \<or> found r = None \<or> found star = found r \<Longrightarrow>
      explored h T R (set rs') (if found star = None then found r else found star)"
    using explored_trans [of h T R "set rs" "found star" "set rs'" "found r"] inv' r' by auto
  have old: "r \<noteq> Ambiguous \<Longrightarrow> \<forall>e' \<in> set (ds @ [e]). \<forall>i. HostResolveImportedModule h (fst p) (moduleRequest e') = Inr i \<longrightarrow> (i, snd p) \<in> set rs'"
    using inv' sub r' q(2) by auto
  show "r = Ambiguous \<Longrightarrow> ambiguous_at h T p"
    using r' ambiguous_there [OF q(1)] by simp
  show "r \<noteq> Ambiguous \<Longrightarrow> r \<noteq> NotFound \<Longrightarrow> star = NotFound \<Longrightarrow> star_inv h T p R (ds @ [e]) (r, rs')"
    using tr old r' up by (auto simp: star_inv_def)
  show "r \<noteq> Ambiguous \<Longrightarrow> r \<noteq> NotFound \<Longrightarrow> star \<noteq> NotFound \<Longrightarrow>
      res_module r \<noteq> res_module star \<or> bindingName r \<noteq> bindingName star \<Longrightarrow>
      ambiguous_at h T p"
    using inv' r' up
    by (cases r; cases star) (auto intro: ambiguousI)
  show "r \<noteq> Ambiguous \<Longrightarrow> star \<noteq> NotFound \<Longrightarrow> r = star \<Longrightarrow> star_inv h T p R (ds @ [e]) (star, rs')"
    using tr old inv' by (cases star) (auto simp: star_inv_def)
  show "r = NotFound \<Longrightarrow> star_inv h T p R (ds @ [e]) (star, rs')"
    using tr old inv' by (auto simp: star_inv_def split: if_splits)
qed

lemma resolution_cases:
  assumes "r \<noteq> Ambiguous" "star \<noteq> Ambiguous" "star \<noteq> NotFound" "r \<noteq> NotFound"
    "\<not> (res_module r \<noteq> res_module star \<or> bindingName r \<noteq> bindingName star)"
  shows "r = star"
  using assms by (cases r; cases star) auto

text \<open>The decision the loop takes on the resolution \<open>r\<close> of one star export.\<close>

definition star_next :: "resolution \<Rightarrow> resolution \<Rightarrow> 'r \<Rightarrow> (resolution \<times> 'r) + (resolution \<times> 'r)" where
  "star_next star r rs = (if r = Ambiguous then Inr (Ambiguous, rs)
     else if r \<noteq> NotFound then
       if star = NotFound then Inl (r, rs)
       else if res_module r \<noteq> res_module star \<or> bindingName r \<noteq> bindingName star then Inr (Ambiguous, rs)
       else Inl (star, rs)
     else Inl (star, rs))"

lemma star_next_ret: "(if r = Ambiguous then ret (Inr (Ambiguous, rs))
     else if r \<noteq> NotFound then
       if star = NotFound then ret (Inl (r, rs))
       else if res_module r \<noteq> res_module star \<or> bindingName r \<noteq> bindingName star then ret (Inr (Ambiguous, rs))
       else ret (Inl (star, rs))
     else ret (Inl (star, rs))) = ret (star_next star r rs)"
  by (simp add: star_next_def)

lemma star_next_inv:
  assumes inv: "star_inv h T p R ds (star, rs)" and q: "(i, snd p) \<in> looks_in h T p"
    "HostResolveImportedModule h (fst p) (moduleRequest e) = Inr i"
    and r: "resolve_post h T (i, snd p) (set rs) r (set rs')"
  shows "case star_next star r rs' of Inl c \<Rightarrow> star_inv h T p R (ds @ [e]) c
    | Inr v \<Rightarrow> resolve_post h T p R' (fst v) (set (snd v))"
proof -
  note step = star_inv_step [OF inv q r]
  have star: "star \<noteq> Ambiguous" using inv by (simp add: star_inv_def)
  consider "r = Ambiguous" | "r = NotFound" | "r \<noteq> Ambiguous" "r \<noteq> NotFound" "star = NotFound"
    | "r \<noteq> Ambiguous" "r \<noteq> NotFound" "star \<noteq> NotFound" "res_module r \<noteq> res_module star \<or> bindingName r \<noteq> bindingName star"
    | "r \<noteq> Ambiguous" "star \<noteq> NotFound" "r = star"
    using resolution_cases [of r star] star by blast
  then show ?thesis
  proof cases
    case 1
    with step(1) show ?thesis by (simp add: star_next_def resolve_post_def)
  next
    case 2
    with step(5) show ?thesis by (simp add: star_next_def)
  next
    case 3
    with step(2) show ?thesis by (simp add: star_next_def)
  next
    case 4
    with step(3) show ?thesis by (simp add: star_next_def resolve_post_def)
  next
    case 5
    with step(4) show ?thesis by (simp add: star_next_def)
  qed
qed

lemma explored_first:
  assumes "explored h T (insert p R) R' res" "p \<notin> R" "looks_in h T p \<subseteq> R'" "terminal h T p = None \<or> terminal h T p = res" "p \<in> R'"
  shows "explored h T R R' res"
  using assms by (auto simp: explored_def)

lemma resolve_post_indirect:
  assumes "looks_in h T p = {q}" "terminal h T p = None" "p \<notin> R" "resolve_post h T q (insert p R) r R'"
  shows "resolve_post h T p R r R'"
proof -
  have up: "provides h T q b \<Longrightarrow> provides h T p b" for b using assms(1) by (auto intro: provides.there)
  show ?thesis
  proof (cases "r = Ambiguous")
    case True
    then show ?thesis using assms(1,4) ambiguous_there [of q h T p] by (simp add: resolve_post_def)
  next
    case False
    then have "explored h T (insert p R) R' (found r)" "q \<in> R'" "p \<in> R'" "\<forall>b. found r = Some b \<longrightarrow> provides h T q b"
      using assms(4) by (auto simp: resolve_post_def explored_def)
    then show ?thesis using False assms(1,2,3) up explored_first [of h T p R R' "found r"] by (simp add: resolve_post_def)
  qed
qed

lemma resolve_post_star:
  assumes "looks_in h T p = (\<lambda>i. (i, snd p)) ` star_succs h T (fst p)" "terminal h T p = None" "p \<notin> R"
    and "star_inv h T p (insert p R) (t_stars T (fst p)) (r, rs')"
  shows "resolve_post h T p R r (set rs')"
proof -
  have "explored h T (insert p R) (set rs') (found r)" "p \<in> set rs'" "looks_in h T p \<subseteq> set rs'" "r \<noteq> Ambiguous"
    "\<forall>b. found r = Some b \<longrightarrow> provides h T p b"
    using assms(1,4) by (auto simp: star_inv_def explored_def star_succs_def)
  then show ?thesis using assms(2,3) explored_first [of h T p R "set rs'" "found r"] by (simp add: resolve_post_def)
qed

lemma wp_ModuleResolveExport:
  assumes U: "finite U" "\<And>p. p \<in> U \<Longrightarrow> looks_in h (tabs_of s) p \<subseteq> U"
    and "(m, n) \<in> U" "card (U - set rs) < fuel"
  shows "wp (ModuleResolveExport h fuel m n rs)
    (\<lambda>(r, rs') t. t = s \<and> resolve_post h (tabs_of s) (m, n) (set rs) r (set rs'))
    (\<lambda>e t. t = s \<and> hook_throws h e) s"
  using assms(3,4)
proof (induction fuel arbitrary: m n rs)
  case 0
  then show ?case by simp
next
  case (Suc fuel)
  let ?T = "tabs_of s" and ?p = "(m, n)" and ?rs = "rs @ [(m, n)]"
  let ?Q = "\<lambda>(r, rs') t. t = s \<and> resolve_post h (tabs_of s) (m, n) (set rs) r (set rs')"
  let ?E = "\<lambda>e t. t = s \<and> hook_throws h e"
  show ?case
  proof (cases "?p \<in> set rs")
    case True
    then show ?thesis by (simp add: wp_simps resolve_post_def explored_def)
  next
    case new: False
    have less: "card (U - set rs') < fuel" if "insert ?p (set rs) \<subseteq> set rs'" for rs'
    proof -
      have "card (U - set rs') < card (U - set rs)"
        by (rule psubset_card_mono) (use that new Suc.prems(1) U(1) in auto)
      then show ?thesis using Suc.prems(2) by simp
    qed
    have here: "resolve_post h ?T ?p (set rs) (Resolved a b) (set ?rs)" if "terminal h ?T ?p = Some (a, b)" "looks_in h ?T ?p = {}" for a b
      using that new by (auto simp: resolve_post_def explored_def intro: provides.here)
    show ?thesis
    proof (cases "find (\<lambda>e. n = exportName e) (t_locals ?T m)")
      case (Some e)
      then show ?thesis using new here by (simp add: wp_simps modules_tabs terminal_def looks_in_def Let_def)
    next
      case local: None
      show ?thesis
      proof (cases "find (\<lambda>e. n = exportName e) (t_indirects ?T m)")
        case (Some e)
        show ?thesis
        proof (cases "HostResolveImportedModule h m (moduleRequest e)")
          case (Inl x)
          then show ?thesis using new local Some
            by (auto simp: wp_simps modules_tabs Let_def wp_resolve_hook hook_throws_def)
        next
          case (Inr i)
          show ?thesis
          proof (cases "importName e = ''*''")
            case True
            then show ?thesis using new local Some Inr here
              by (simp add: wp_simps modules_tabs Let_def wp_resolve_hook terminal_def looks_in_def)
          next
            case False
            have look: "looks_in h ?T ?p = {(i, importName e)}" "terminal h ?T ?p = None"
              using local Some Inr False by (simp_all add: looks_in_def terminal_def)
            have "(i, importName e) \<in> U" using U(2) [OF Suc.prems(1)] look by auto
            moreover have "card (U - set ?rs) < fuel" by (rule less) auto
            ultimately have "wp (ModuleResolveExport h fuel i (importName e) ?rs) ?Q ?E s"
              by (rule wp_mono [OF Suc.IH]) (use resolve_post_indirect [OF look new] in auto)
            then show ?thesis using new local Some Inr False
              by (simp add: wp_simps modules_tabs Let_def wp_resolve_hook)
          qed
        qed
      next
        case indirect: None
        show ?thesis
        proof (cases "n = ''default''")
          case True
          then show ?thesis using new local indirect
            by (auto simp: wp_simps modules_tabs Let_def resolve_post_def explored_def looks_in_def terminal_def)
        next
          case False
          have look: "looks_in h ?T ?p = (\<lambda>i. (i, n)) ` star_succs h ?T m" "terminal h ?T ?p = None"
            using local indirect False by (simp_all add: looks_in_def terminal_def)
          let ?body = "\<lambda>e (starResolution, resolveSet).
              bnd (CallModuleResolveHook h m (moduleRequest e) UNLINKED) (\<lambda>importedModule.
              bnd (ModuleResolveExport h fuel importedModule n resolveSet) (\<lambda>(resolution, resolveSet).
              if resolution = Ambiguous then ret (Inr (Ambiguous, resolveSet))
              else if resolution \<noteq> NotFound then
                if starResolution = NotFound then ret (Inl (resolution, resolveSet))
                else if res_module resolution \<noteq> res_module starResolution \<or>
                        bindingName resolution \<noteq> bindingName starResolution
                then ret (Inr (Ambiguous, resolveSet))
                else ret (Inl (starResolution, resolveSet))
              else ret (Inl (starResolution, resolveSet))))"
          have "wp (for_list_exit (t_stars ?T m) ?body (NotFound, ?rs)) (\<lambda>x t. case x of Inl r \<Rightarrow> ?Q r t | Inr r \<Rightarrow> ?Q r t) ?E s"
          proof (rule wp_for_list_exit [where I = "\<lambda>ds _ c t. t = s \<and> star_inv h ?T ?p (insert ?p (set rs)) ds c"])
            show "s = s \<and> star_inv h ?T ?p (insert ?p (set rs)) [] (NotFound, ?rs)"
              by (simp add: star_inv_def explored_def)
          next
            fix c t assume "t = s \<and> star_inv h ?T ?p (insert ?p (set rs)) (t_stars ?T m) c"
            then show "case Inl c of Inl r \<Rightarrow> ?Q r t | Inr r \<Rightarrow> ?Q r t"
              using resolve_post_star [of h ?T ?p "set rs" "fst c" "snd c"] look new by (cases c) simp
          next
            fix ds e es c t
            assume e: "t_stars ?T m = ds @ e # es" and c: "t = s \<and> star_inv h ?T ?p (insert ?p (set rs)) ds c"
            obtain star rs1 where c': "c = (star, rs1)" by (cases c)
            show "wp (?body e c) (\<lambda>r t. case r of Inl c' \<Rightarrow> t = s \<and> star_inv h ?T ?p (insert ?p (set rs)) (ds @ [e]) c'
                | Inr v \<Rightarrow> (case Inr v of Inl r \<Rightarrow> ?Q r t | Inr r \<Rightarrow> ?Q r t)) ?E t"
            proof (cases "HostResolveImportedModule h m (moduleRequest e)")
              case (Inl x)
              then show ?thesis using c by (auto simp: c' wp_simps wp_resolve_hook hook_throws_def)
            next
              case (Inr i)
              have inv: "star_inv h ?T ?p (insert ?p (set rs)) ds (star, rs1)" using c c' by simp
              have look': "(i, snd ?p) \<in> looks_in h ?T ?p" using look(1) e Inr by (auto simp: star_succs_def)
              note step = star_inv_step [OF inv look', of e, simplified, OF Inr]
              have "insert ?p (set rs) \<subseteq> set rs1" using inv by (simp add: star_inv_def explored_def)
              then have "card (U - set rs1) < fuel" by (rule less)
              moreover have "(i, n) \<in> U" using U(2) [OF Suc.prems(1)] look' by auto
              ultimately have "wp (ModuleResolveExport h fuel i n rs1) (\<lambda>(r, rs') t. t = s \<and> resolve_post h ?T (i, n) (set rs1) r (set rs')) ?E s"
                by (intro Suc.IH)
              then have "wp (ModuleResolveExport h fuel i n rs1) (\<lambda>(r, rs') t. t = s \<and>
                  (case star_next star r rs' of Inl c' \<Rightarrow> star_inv h ?T ?p (insert ?p (set rs)) (ds @ [e]) c' | Inr v \<Rightarrow> ?Q v t)) ?E s"
                by (rule wp_mono) (use star_next_inv [OF inv look', of e _ _ "set rs"] Inr in
                    \<open>fastforce simp: case_prod_beta split: sum.splits\<close>)+
              then have "wp (ModuleResolveExport h fuel i n rs1) (\<lambda>p. wp (ret (star_next star (fst p) (snd p)))
                  (\<lambda>r t. case r of Inl c' \<Rightarrow> t = s \<and> star_inv h ?T ?p (insert ?p (set rs)) (ds @ [e]) c'
                    | Inr v \<Rightarrow> ?Q v t) ?E) ?E s"
                by (rule wp_mono) (auto simp: wp_ret split: sum.splits)
              then show ?thesis
                using c Inr by (simp add: c' wp_bnd wp_resolve_hook star_next_ret split_def cong: sum.case_cong)
            qed
          qed
          then have "wp (bnd (for_list_exit (t_stars ?T m) ?body (NotFound, ?rs))
              (\<lambda>x. case x of Inl r \<Rightarrow> ret r | Inr r \<Rightarrow> ret r)) ?Q ?E s"
            unfolding wp_bnd by (rule wp_mono) (auto simp: wp_ret split: sum.splits)
          then show ?thesis using new local indirect False
            by (simp add: wp_bnd_get modules_tabs Let_def)
        qed
      qed
    qed
  qed
qed

section \<open>Closed sets of modules\<close>

definition requests :: "tabs \<Rightarrow> mid \<Rightarrow> string set" where
  "requests T m = set (t_requests T m) \<union> moduleRequest ` set (t_indirects T m) \<union> moduleRequest ` set (t_stars T m)
     \<union> imp_moduleRequest ` set (t_imports T m)"

text \<open>A finite set of modules with everything they request.\<close>

definition module_graph :: "'w mhost \<Rightarrow> tabs \<Rightarrow> mid set \<Rightarrow> bool" where
  "module_graph h T D = (finite D \<and> (\<forall>m \<in> D. \<forall>q \<in> requests T m. \<forall>i. HostResolveImportedModule h m q = Inr i \<longrightarrow> i \<in> D))"

definition names_of :: "tabs \<Rightarrow> mid set \<Rightarrow> string set" where
  "names_of T D = (\<Union>m \<in> D. exportName ` (set (t_locals T m) \<union> set (t_indirects T m)) \<union> importName ` set (t_indirects T m)
     \<union> imp_importName ` set (t_imports T m))"

text \<open>Fuel for the recursions over modules and names.\<close>

definition enough_fuel :: "tabs \<Rightarrow> mid set \<Rightarrow> nat \<Rightarrow> bool" where
  "enough_fuel T D fuel = (card D * Suc (card (names_of T D)) < fuel)"

lemma find_SomeD: "find P xs = Some x \<Longrightarrow> x \<in> set xs \<and> P x"
  by (induction xs) (auto split: if_splits)

lemma finite_names: "finite D \<Longrightarrow> finite (names_of T D)"
  by (simp add: names_of_def)

lemma star_succs_closed: "module_graph h T D \<Longrightarrow> m \<in> D \<Longrightarrow> star_succs h T m \<subseteq> D"
  by (auto simp: module_graph_def requests_def star_succs_def)

lemma looks_in_closed:
  assumes g: "module_graph h T D" and p: "p \<in> D \<times> insert n (names_of T D)"
  shows "looks_in h T p \<subseteq> D \<times> insert n (names_of T D)"
proof
  fix x assume x: "x \<in> looks_in h T p"
  have m: "fst p \<in> D" using p by auto
  show "x \<in> D \<times> insert n (names_of T D)"
  proof (cases "find (\<lambda>e. snd p = exportName e) (t_indirects T (fst p))")
    case None
    then obtain i where "i \<in> star_succs h T (fst p)" "x = (i, snd p)"
      using x by (auto simp: looks_in_def split: option.splits if_splits)
    then show ?thesis using star_succs_closed [OF g m] p by (cases p) auto
  next
    case (Some e)
    then obtain i where "HostResolveImportedModule h (fst p) (moduleRequest e) = Inr i" "x = (i, importName e)"
      using x by (auto simp: looks_in_def split: option.splits if_splits sum.splits)
    moreover have "e \<in> set (t_indirects T (fst p))" using find_SomeD [OF Some] by simp
    ultimately show ?thesis using g m by (force simp: module_graph_def requests_def names_of_def)
  qed
qed

lemma pairs_fuel:
  assumes "module_graph h T D" "enough_fuel T D fuel"
  shows "card (D \<times> insert n (names_of T D)) < fuel" "card D < fuel"
proof -
  have "card (insert n (names_of T D)) \<le> Suc (card (names_of T D))" by (rule card_insert_le_m1) auto
  then have "card D * card (insert n (names_of T D)) \<le> card D * Suc (card (names_of T D))" by (rule mult_le_mono2)
  then show "card (D \<times> insert n (names_of T D)) < fuel" using assms(2) by (simp add: enough_fuel_def card_cartesian_product)
  show "card D < fuel" using assms(2) by (simp add: enough_fuel_def)
qed

lemma explored_all:
  assumes "provides h T p b" "explored h T {} R res" "p \<in> R"
  shows "res = Some b"
  using assms
proof (induction rule: provides.induct)
  case (here p b)
  then show ?case by (auto simp: explored_def)
next
  case (there q p b)
  then show ?case by (auto simp: explored_def)
qed

lemma resolve_post_resolves:
  assumes "resolve_post h T p {} r R"
  shows "resolves_to h T p r"
proof (cases "r = Ambiguous")
  case True
  then show ?thesis using assms by (simp add: resolve_post_def resolves_to_def)
next
  case False
  then have "explored h T {} R (found r)" "p \<in> R" "\<forall>b. found r = Some b \<longrightarrow> provides h T p b"
    using assms by (auto simp: resolve_post_def)
  then have "provides h T p b \<longleftrightarrow> found r = Some b" for b
    using explored_all by blast
  with False show ?thesis by (cases r) (auto simp: resolves_to_def)
qed

lemma wp_resolveExport:
  assumes "module_graph h (tabs_of s) D" "m \<in> D" "enough_fuel (tabs_of s) D fuel"
  shows "wp (resolveExport h fuel m n) (\<lambda>r t. t = s \<and> resolves_to h (tabs_of s) (m, n) r)
    (\<lambda>e t. t = s \<and> hook_throws h e) s"
proof -
  let ?U = "D \<times> insert n (names_of (tabs_of s) D)"
  have "finite ?U" using assms(1) finite_names by (auto simp: module_graph_def)
  moreover have "p \<in> ?U \<Longrightarrow> looks_in h (tabs_of s) p \<subseteq> ?U" for p by (rule looks_in_closed [OF assms(1)])
  ultimately have "wp (ModuleResolveExport h fuel m n [])
    (\<lambda>(r, rs') t. t = s \<and> resolve_post h (tabs_of s) (m, n) (set []) r (set rs')) (\<lambda>e t. t = s \<and> hook_throws h e) s"
    by (rule wp_ModuleResolveExport) (use assms pairs_fuel [OF assms(1,3)] in auto)
  then have "wp (ModuleResolveExport h fuel m n [])
    (\<lambda>p t. t = s \<and> resolves_to h (tabs_of s) (m, n) (fst p)) (\<lambda>e t. t = s \<and> hook_throws h e) s"
    by (rule wp_mono) (auto dest: resolve_post_resolves)
  then show ?thesis by (simp add: resolveExport_def wp_simps case_prod_beta)
qed

section \<open>Exported names\<close>

lemma set_add_star_names: "set (add_star_names ns ms) = set ns \<union> (set ms - {''default''})"
  by (induction ns ms rule: add_star_names.induct) auto

lemma distinct_add_star_names: "distinct ns \<Longrightarrow> distinct (add_star_names ns ms)"
  by (induction ns ms rule: add_star_names.induct) auto

text \<open>What a call finds out, \<open>R\<close> and \<open>R'\<close> being the sets of modules visited before and after.\<close>

definition names_post :: "'w mhost \<Rightarrow> tabs \<Rightarrow> mid \<Rightarrow> mid set \<Rightarrow> string set \<Rightarrow> mid set \<Rightarrow> bool" where
  "names_post h T m R ns R' = (R \<subseteq> R' \<and> m \<in> R' \<and> (\<forall>p \<in> R' - R. star_succs h T p \<subseteq> R' \<and> set (own_names T p) - {''default''} \<subseteq> ns)
     \<and> (\<forall>n \<in> ns. exported h T m n) \<and> (m \<notin> R \<longrightarrow> set (own_names T m) \<subseteq> ns))"

definition names_inv :: "'w mhost \<Rightarrow> tabs \<Rightarrow> mid \<Rightarrow> mid set \<Rightarrow> export_entry list \<Rightarrow> string list \<times> mid list \<Rightarrow> bool" where
  "names_inv h T m R ds c = (insert m R \<subseteq> set (snd c) \<and> set (own_names T m) \<subseteq> set (fst c)
     \<and> (\<forall>p \<in> set (snd c) - insert m R. star_succs h T p \<subseteq> set (snd c) \<and> set (own_names T p) - {''default''} \<subseteq> set (fst c))
     \<and> (\<forall>n \<in> set (fst c). exported h T m n)
     \<and> (\<forall>e \<in> set ds. \<forall>i. HostResolveImportedModule h m (moduleRequest e) = Inr i \<longrightarrow> i \<in> set (snd c)))"

lemma names_inv_step:
  assumes inv: "names_inv h T m R ds (ns, vs)" and i: "i \<in> star_succs h T m"
    "HostResolveImportedModule h m (moduleRequest e) = Inr i"
    and po: "names_post h T i (set vs) (set ns') (set vs')"
  shows "names_inv h T m R (ds @ [e]) (add_star_names ns ns', vs')"
proof -
  have "exported h T m n" if "n \<in> set ns'" "n \<noteq> ''default''" for n
    using that po i(1) by (auto simp: names_post_def intro: exported.star)
  moreover have "\<forall>e' \<in> set (ds @ [e]). \<forall>i. HostResolveImportedModule h m (moduleRequest e') = Inr i \<longrightarrow> i \<in> set vs'"
    using inv po i(2) by (simp add: names_inv_def names_post_def) blast
  ultimately show ?thesis
    using inv po unfolding names_inv_def names_post_def fst_conv snd_conv set_add_star_names
  proof (intro conjI ballI; elim conjE)
    fix p assume p: "p \<in> set vs' - insert m R"
      and old: "\<forall>p \<in> set vs - insert m R. star_succs h T p \<subseteq> set vs \<and> set (own_names T p) - {''default''} \<subseteq> set ns"
      and new: "\<forall>p \<in> set vs' - set vs. star_succs h T p \<subseteq> set vs' \<and> set (own_names T p) - {''default''} \<subseteq> set ns'"
      and sub: "set vs \<subseteq> set vs'"
    show "star_succs h T p \<subseteq> set vs'"
    proof (cases "p \<in> set vs")
      case True
      then have "star_succs h T p \<subseteq> set vs" using p old by simp
      then show ?thesis using sub by (rule order_trans)
    qed (use p new in simp)
    show "set (own_names T p) - {''default''} \<subseteq> set ns \<union> (set ns' - {''default''})"
      using p old new by (cases "p \<in> set vs") auto
  qed auto
qed

lemma names_inv_post:
  assumes "names_inv h T m R (t_stars T m) (ns, vs)" "m \<notin> R"
  shows "names_post h T m R (set ns) (set vs)"
proof -
  have "star_succs h T m \<subseteq> set vs" using assms(1) by (auto simp: names_inv_def star_succs_def)
  moreover have "star_succs h T p \<subseteq> set vs \<and> set (own_names T p) - {''default''} \<subseteq> set ns" if "p \<in> set vs - insert m R" for p
    using assms(1) that by (auto simp: names_inv_def)
  ultimately show ?thesis using assms by (auto simp: names_inv_def names_post_def)
qed

lemma wp_ModuleGetExportedNames:
  assumes g: "module_graph h (tabs_of s) D" and "m \<in> D" "card (D - set vs) < fuel"
  shows "wp (ModuleGetExportedNames h fuel m vs)
    (\<lambda>(ns, vs') t. t = s \<and> names_post h (tabs_of s) m (set vs) (set ns) (set vs')
       \<and> (distinct (own_names (tabs_of s) m) \<longrightarrow> distinct ns))
    (\<lambda>e t. t = s \<and> hook_throws h e) s"
  using assms(2,3)
proof (induction fuel arbitrary: m vs)
  case 0
  then show ?case by simp
next
  case (Suc fuel)
  let ?T = "tabs_of s"
  let ?E = "\<lambda>e t. t = s \<and> hook_throws h e"
  show ?case
  proof (cases "m \<in> set vs")
    case True
    then show ?thesis by (auto simp: wp_simps names_post_def)
  next
    case new: False
    let ?I = "\<lambda>ds c. names_inv h ?T m (set vs) ds c \<and> (distinct (own_names ?T m) \<longrightarrow> distinct (fst c))"
    let ?body = "\<lambda>e (exportedNames, exportStarSet).
             bnd (CallModuleResolveHook h m (moduleRequest e) UNLINKED) (\<lambda>requestedModule.
             bnd (ModuleGetExportedNames h fuel requestedModule exportStarSet) (\<lambda>(starNames, exportStarSet).
             ret (add_star_names exportedNames starNames, exportStarSet)))"
    have "wp (for_list (t_stars ?T m) ?body (own_names ?T m, vs @ [m]))
        (\<lambda>c t. t = s \<and> ?I (t_stars ?T m) c) ?E s"
    proof (rule wp_for_list [where I = "\<lambda>ds _ c t. t = s \<and> ?I ds c"])
      show "s = s \<and> ?I [] (own_names ?T m, vs @ [m])"
        by (auto simp: names_inv_def intro: exported.own)
    next
      fix ds e es c t assume e: "t_stars ?T m = ds @ e # es" and c: "t = s \<and> ?I ds c"
      obtain ns vs1 where c': "c = (ns, vs1)" by (cases c)
      show "wp (?body e c) (\<lambda>c t. t = s \<and> ?I (ds @ [e]) c) ?E t"
      proof (cases "HostResolveImportedModule h m (moduleRequest e)")
        case (Inl x)
        then show ?thesis using c by (auto simp: c' wp_simps wp_resolve_hook hook_throws_def)
      next
        case (Inr i)
        have star: "i \<in> star_succs h ?T m" using e Inr by (auto simp: star_succs_def)
        have inv: "names_inv h ?T m (set vs) ds (ns, vs1)" using c c' by simp
        have "card (D - set vs1) < card (D - set vs)"
          by (rule psubset_card_mono) (use g Suc.prems(1) new inv in \<open>auto simp: names_inv_def module_graph_def\<close>)
        moreover have "i \<in> D" using star_succs_closed [OF g Suc.prems(1)] star by auto
        ultimately have "wp (ModuleGetExportedNames h fuel i vs1)
            (\<lambda>(ns, vs') t. t = s \<and> names_post h ?T i (set vs1) (set ns) (set vs')
              \<and> (distinct (own_names ?T i) \<longrightarrow> distinct ns)) ?E s"
          using Suc.prems(2) by (intro Suc.IH) simp_all
        then have "wp (ModuleGetExportedNames h fuel i vs1) (\<lambda>p t. t = s \<and> ?I (ds @ [e]) (add_star_names ns (fst p), snd p)) ?E s"
          by (rule wp_mono) (use names_inv_step [OF inv star Inr] c in \<open>auto simp: c' distinct_add_star_names\<close>)
        then show ?thesis using c Inr by (simp add: c' wp_simps wp_resolve_hook split_def)
      qed
    qed simp
    then have "wp (for_list (t_stars ?T m) ?body (own_names ?T m, vs @ [m]))
        (\<lambda>(ns, vs') t. t = s \<and> names_post h ?T m (set vs) (set ns) (set vs') \<and> (distinct (own_names ?T m) \<longrightarrow> distinct ns)) ?E s"
      by (rule wp_mono) (use names_inv_post [OF _ new] in auto)
    then show ?thesis using new by (simp add: wp_bnd_get modules_tabs own_names_def)
  qed
qed

lemma names_post_all:
  assumes "exported h T p n" "names_post h T m {} ns R" "p \<in> R" "n \<noteq> ''default'' \<or> p = m"
  shows "n \<in> ns"
  using assms
proof (induction rule: exported.induct)
  case (own n p)
  then show ?case by (auto simp: names_post_def)
next
  case (star i p n)
  then show ?case by (auto simp: names_post_def)
qed

lemma wp_getExportedNames:
  assumes "module_graph h (tabs_of s) D" "m \<in> D" "card D < fuel"
  shows "wp (getExportedNames h fuel m)
    (\<lambda>ns t. t = s \<and> set ns = {n. exported h (tabs_of s) m n} \<and> (distinct (own_names (tabs_of s) m) \<longrightarrow> distinct ns))
    (\<lambda>e t. t = s \<and> hook_throws h e) s"
proof -
  have all: "set ns = {n. exported h (tabs_of s) m n}" if "names_post h (tabs_of s) m {} (set ns) R" for ns R
    using names_post_all [OF _ that, of m] that by (auto simp: names_post_def)
  have "wp (ModuleGetExportedNames h fuel m [])
    (\<lambda>(ns, vs') t. t = s \<and> names_post h (tabs_of s) m (set []) (set ns) (set vs')
       \<and> (distinct (own_names (tabs_of s) m) \<longrightarrow> distinct ns)) (\<lambda>e t. t = s \<and> hook_throws h e) s"
    by (rule wp_ModuleGetExportedNames [OF assms(1,2)]) (use assms(3) in simp)
  then have "wp (ModuleGetExportedNames h fuel m [])
    (\<lambda>p t. t = s \<and> set (fst p) = {n. exported h (tabs_of s) m n} \<and> (distinct (own_names (tabs_of s) m) \<longrightarrow> distinct (fst p)))
    (\<lambda>e t. t = s \<and> hook_throws h e) s"
    by (rule wp_mono) (auto simp del: Collect_mem_eq dest!: all)
  then show ?thesis by (simp add: getExportedNames_def wp_simps case_prod_beta)
qed

end
