(* ===== verification/ModuleNamespace.thy ===== *)
theory ModuleNamespace
  imports ModuleResolve
begin

text \<open>
  Module namespaces and environments: the namespace object of a module has exactly its
  unambiguous exports, sorted, each bound to what the name resolves to; \<open>InitializeEnvironment\<close>
  binds every import. Neither touches the statuses of the walk.
\<close>

lemma wp_wpa: "wp m Q E s \<Longrightarrow> wpa m Q E A s"
  by (auto simp: wp_def wpa_def split: prod.splits res.splits)

section \<open>Namespaces\<close>

definition unambiguous :: "'w mhost \<Rightarrow> tabs \<Rightarrow> mid \<Rightarrow> string \<Rightarrow> bool" where
  "unambiguous h T m n = (\<exists>m' n'. resolves_to h T (m, n) (Resolved m' n'))"

definition good_ns :: "'w mhost \<Rightarrow> tabs \<Rightarrow> mid \<Rightarrow> ns_rec \<Rightarrow> bool" where
  "good_ns h T m ns = (sorted (ns_exports ns)
     \<and> set (ns_exports ns) = {n. exported h T m n \<and> unambiguous h T m n}
     \<and> map fst (ns_bindings ns) = ns_exports ns
     \<and> (\<forall>(n, m', n') \<in> set (ns_bindings ns). resolves_to h T (m, n) (Resolved m' n')))"

definition same_envs :: "'w mstate \<Rightarrow> 'w mstate \<Rightarrow> bool" where
  "same_envs s t = (\<forall>x. environment (modules t x) = environment (modules s x))"

text \<open>A step that may make namespaces, complete ones, and changes no other.\<close>

definition ns_step :: "'w mhost \<Rightarrow> mid set \<Rightarrow> 'w mstate \<Rightarrow> 'w mstate \<Rightarrow> bool" where
  "ns_step h X s t = (same_core s t \<and> same_envs s t \<and> (\<forall>x. x \<notin> X \<longrightarrow>
     (namespace (modules t x) = namespace (modules s x) \<or>
      namespace (modules s x) = None \<and> (\<exists>ns. namespace (modules t x) = Some ns \<and> good_ns h (tabs_of s) x ns))))"

lemma tabs_of_core: "same_core s t \<Longrightarrow> tabs_of t = tabs_of s"
  by (simp add: same_core_def tabs_of_def fun_eq_iff)

lemma same_envs_refl [simp]: "same_envs s s"
  by (simp add: same_envs_def)

lemma same_envs_trans: "same_envs s t \<Longrightarrow> same_envs t u \<Longrightarrow> same_envs s u"
  by (simp add: same_envs_def)

lemma ns_step_refl [simp]: "ns_step h X s s"
  by (simp add: ns_step_def)

lemma ns_step_trans: "ns_step h X s t \<Longrightarrow> ns_step h Y t u \<Longrightarrow> Y \<subseteq> X \<Longrightarrow> ns_step h X s u"
  unfolding ns_step_def using same_core_trans same_envs_trans tabs_of_core [of s t] by fastforce

lemma ns_step_none:
  assumes "ns_step h X s t" "x \<notin> X" "namespace (modules s x) = None" "namespace (modules t x) \<noteq> None"
  shows "good_ns h (tabs_of s) x (the (namespace (modules t x)))"
  using assms by (force simp: ns_step_def)

lemma provides_closed:
  assumes "provides h T p b" "module_graph h T D" "fst p \<in> D"
  shows "fst b \<in> D"
  using assms
proof (induction rule: provides.induct)
  case (here p b)
  show ?case
  proof (cases "find (\<lambda>e. snd p = exportName e) (t_locals T (fst p))")
    case None
    with here obtain e i where e: "find (\<lambda>e. snd p = exportName e) (t_indirects T (fst p)) = Some e"
      "HostResolveImportedModule h (fst p) (moduleRequest e) = Inr i" "fst b = i"
      by (auto simp: terminal_def split: option.splits sum.splits if_splits)
    then show ?thesis using here find_SomeD [OF e(1)] by (auto simp: module_graph_def requests_def)
  qed (use here in \<open>auto simp: terminal_def\<close>)
next
  case (there q p b)
  then have "q \<in> D \<times> insert (snd p) (names_of T D)"
    using looks_in_closed [OF there.prems(1), of p "snd p"] by (cases p) auto
  then show ?case using there by (cases q) auto
qed

abbreviation bad_state :: string where
  "bad_state \<equiv> ''Bad module state in GetModuleNamespace''"

lemma wpa_resolveExport:
  assumes "module_graph h (tabs_of s) D" "m \<in> D" "enough_fuel (tabs_of s) D fuel" "same_core s t"
    and "\<And>r. resolves_to h (tabs_of s) (m, n) r \<Longrightarrow> Q r t" "\<And>e. hook_throws h e \<Longrightarrow> E e t"
  shows "wpa (resolveExport h fuel m n) Q E A t"
proof (rule wp_wpa, rule wp_mono [OF wp_resolveExport [of h t D m fuel n]])
  show "module_graph h (tabs_of t) D" "enough_fuel (tabs_of t) D fuel" "m \<in> D"
    using assms tabs_of_core [OF assms(4)] by simp_all
next
  fix a u assume "u = t \<and> resolves_to h (tabs_of t) (m, n) a"
  then show "Q a u" using assms(5) tabs_of_core [OF assms(4)] by simp
next
  fix e u assume "u = t \<and> hook_throws h e"
  then show "E e u" using assms(6) by simp
qed

lemma same_core_upd:
  assumes "\<And>r. status (f r) = status r \<and> dfsIndex (f r) = dfsIndex r \<and> dfsAncestorIndex (f r) = dfsAncestorIndex r
    \<and> evaluationError (f r) = evaluationError r \<and> tables (f r) = tables r"
  shows "same_core s (upd s m f)"
  using assms by (simp add: same_core_def same_dfs_def)

text \<open>Adding a binding to a namespace under construction.\<close>

definition ns_inv :: "'w mhost \<Rightarrow> 'w mstate \<Rightarrow> mid \<Rightarrow> string list \<Rightarrow> string list \<Rightarrow> 'w mstate \<Rightarrow> bool" where
  "ns_inv h s m exports ds t = (ns_step h {m} s t \<and> (\<exists>bs. map fst bs = ds
     \<and> namespace (modules t m) = Some \<lparr>ns_exports = exports, ns_bindings = bs\<rparr>
     \<and> (\<forall>(n, m', n') \<in> set bs. resolves_to h (tabs_of s) (m, n) (Resolved m' n'))))"

lemma ns_inv_add:
  assumes "ns_inv h s m exports ds t" "resolves_to h (tabs_of s) (m, n) (Resolved m' n')"
  shows "ns_inv h s m exports (ds @ [n]) (upd t m (\<lambda>r. r\<lparr>namespace :=
       map_option (\<lambda>ns. ns\<lparr>ns_bindings := ns_bindings ns @ [(n, m', n')]\<rparr>) (namespace r)\<rparr>))"
proof -
  obtain bs where bs: "map fst bs = ds" "namespace (modules t m) = Some \<lparr>ns_exports = exports, ns_bindings = bs\<rparr>"
    "\<forall>(n, m', n') \<in> set bs. resolves_to h (tabs_of s) (m, n) (Resolved m' n')" and st: "ns_step h {m} s t"
    using assms(1) by (auto simp: ns_inv_def)
  let ?u = "upd t m (\<lambda>r. r\<lparr>namespace :=
       map_option (\<lambda>ns. ns\<lparr>ns_bindings := ns_bindings ns @ [(n, m', n')]\<rparr>) (namespace r)\<rparr>)"
  have "same_core t ?u" by (rule same_core_upd) (simp add: tables_def)
  moreover have "same_envs t ?u" by (simp add: same_envs_def)
  ultimately have "ns_step h {m} t ?u" by (simp add: ns_step_def)
  with st have "ns_step h {m} s ?u" by (rule ns_step_trans) simp
  then show ?thesis using bs assms(2) by (auto simp: ns_inv_def intro!: exI [of _ "bs @ [(n, m', n')]"])
qed

lemma ns_inv_other:
  assumes "ns_inv h s m exports ds t" "ns_step h {} t u"
  shows "ns_inv h s m exports ds u"
proof -
  have "namespace (modules u m) = namespace (modules t m)"
    using assms by (auto simp: ns_inv_def ns_step_def)
  moreover have "ns_step h {m} s u" using assms ns_step_trans [of h "{m}" s t "{}" u] by (auto simp: ns_inv_def)
  ultimately show ?thesis using assms(1) by (auto simp: ns_inv_def)
qed

definition unnamed :: "mid set \<Rightarrow> 'w mstate \<Rightarrow> nat" where
  "unnamed D s = card {x \<in> D. namespace (modules s x) = None}"

text \<open>The contract of \<open>GetModuleNamespace\<close> at a given fuel.\<close>

definition namespace_ok :: "'w mhost \<Rightarrow> mid set \<Rightarrow> tabs \<Rightarrow> nat \<Rightarrow> (mid \<Rightarrow> ('w, unit) mprog) \<Rightarrow> bool" where
  "namespace_ok h D T k rec = (\<forall>m s. tabs_of s = T \<longrightarrow> m \<in> D \<longrightarrow> unnamed D s < k \<longrightarrow>
     wpa (rec m) (\<lambda>_ t. ns_step h {} s t \<and> namespace (modules t m) \<noteq> None)
       (\<lambda>e t. same_core s t \<and> same_envs s t \<and> hook_throws h e) (\<lambda>msg _. msg = bad_state) s)"

lemma ns_body:
  assumes g: "module_graph h (tabs_of s) D" "m \<in> D" "enough_fuel (tabs_of s) D fuel"
    and rec: "namespace_ok h D (tabs_of s) k rec" and un: "unnamed D s \<le> k" "namespace (modules s m) = None"
    and n: "unambiguous h (tabs_of s) m n" and inv: "ns_inv h s m exports ds t"
  shows "wpa (ModuleNamespaceCreate_binding h fuel rec m n)
    (\<lambda>_. ns_inv h s m exports (ds @ [n])) (\<lambda>e u. same_core s u \<and> same_envs s u \<and> hook_throws h e) (\<lambda>msg _. msg = bad_state) t"
proof -
  from n obtain m' n' where r: "resolves_to h (tabs_of s) (m, n) (Resolved m' n')" by (auto simp: unambiguous_def)
  have core: "same_core s t" "same_envs s t" using inv by (auto simp: ns_inv_def ns_step_def)
  have "provides h (tabs_of s) (m, n) (m', n')" using r by (simp add: resolves_to_def)
  then have m': "m' \<in> D" using provides_closed [OF _ g(1)] g(2) by fastforce
  have "x \<in> D \<Longrightarrow> namespace (modules t x) = None \<Longrightarrow> namespace (modules s x) = None \<and> x \<noteq> m" for x
    using inv un(2) by (cases "x = m") (force simp: ns_inv_def ns_step_def)+
  then have "{x \<in> D. namespace (modules t x) = None} \<subset> {x \<in> D. namespace (modules s x) = None}"
    using g(2) un(2) by auto
  then have "unnamed D t < unnamed D s"
    unfolding unnamed_def by (rule psubset_card_mono [rotated]) (use g(1) in \<open>simp add: module_graph_def\<close>)
  then have "unnamed D t < k" using un(1) by simp
  then have recm: "wpa (rec m') (\<lambda>_ u. ns_step h {} t u \<and> namespace (modules u m') \<noteq> None)
       (\<lambda>e u. same_core t u \<and> same_envs t u \<and> hook_throws h e) (\<lambda>msg _. msg = bad_state) t"
    using rec m' tabs_of_core [OF core(1)] unfolding namespace_ok_def by blast
  have ensure: "ns_step h {} u (upd u m' (\<lambda>r. r\<lparr>env_namespace := True\<rparr>))" for u
    using same_core_upd [of "\<lambda>r. r\<lparr>env_namespace := True\<rparr>" u m'] by (simp add: ns_step_def same_envs_def tables_def)
  have named: "wpa (rec m') (\<lambda>_ u. ns_inv h s m exports (ds @ [n])
      (upd (upd u m' (\<lambda>r. r\<lparr>env_namespace := True\<rparr>)) m (\<lambda>r. r\<lparr>namespace :=
       map_option (\<lambda>ns. ns\<lparr>ns_bindings := ns_bindings ns @ [(n, m', n')]\<rparr>) (namespace r)\<rparr>)))
     (\<lambda>e u. same_core s u \<and> same_envs s u \<and> hook_throws h e) (\<lambda>msg _. msg = bad_state) t"
    by (rule wpa_mono [OF recm])
      (use ns_inv_add [OF ns_inv_other [OF ns_inv_other [OF inv] ensure] r] same_core_trans [OF core(1)]
        same_envs_trans [OF core(2)] in auto)
  have res: "r' = Resolved m' n'" if "resolves_to h (tabs_of s) (m, n) r'" for r'
    using resolves_to_unique [OF that r] .
  show ?thesis
    unfolding ModuleNamespaceCreate_binding_def wpa_bnd
    by (rule wpa_resolveExport [OF g core(1)])
      (use named ns_inv_add [OF inv r] core in \<open>auto dest!: res simp: wpa_simps IsResolvedBinding_def
        EnsureModuleEnvironmentNamespace_def AddModuleNamespaceBinding_def\<close>)
qed

lemma new_ns_inv:
  assumes "namespace (modules s m) = None"
  shows "ns_inv h s m exports [] (upd s m (\<lambda>r. r\<lparr>namespace := Some \<lparr>ns_exports = exports, ns_bindings = []\<rparr>\<rparr>))"
proof -
  have "same_core s (upd s m (\<lambda>r. r\<lparr>namespace := Some \<lparr>ns_exports = exports, ns_bindings = []\<rparr>\<rparr>))"
    by (rule same_core_upd) (simp add: tables_def)
  then show ?thesis by (simp add: ns_inv_def ns_step_def same_envs_def)
qed

lemma ns_inv_complete:
  assumes inv: "ns_inv h s m (sort us) (sort us) t" and us: "set us = {n. exported h (tabs_of s) m n \<and> unambiguous h (tabs_of s) m n}"
    and new: "namespace (modules s m) = None"
  shows "ns_step h {} s t \<and> namespace (modules t m) \<noteq> None"
proof -
  obtain bs where bs: "map fst bs = sort us" "namespace (modules t m) = Some \<lparr>ns_exports = sort us, ns_bindings = bs\<rparr>"
    "\<forall>(n, m', n') \<in> set bs. resolves_to h (tabs_of s) (m, n) (Resolved m' n')" and st: "ns_step h {m} s t"
    using inv by (auto simp: ns_inv_def)
  then have "good_ns h (tabs_of s) m \<lparr>ns_exports = sort us, ns_bindings = bs\<rparr>"
    using us by (simp add: good_ns_def)
  then show ?thesis using st bs(2) new unfolding ns_step_def by (metis insertE not_Some_eq)
qed

lemma wpa_ModuleNamespaceCreate:
  assumes g: "module_graph h (tabs_of s) D" "m \<in> D" "enough_fuel (tabs_of s) D fuel"
    and rec: "namespace_ok h D (tabs_of s) k rec" and un: "unnamed D s \<le> k" "namespace (modules s m) = None"
    and us: "set us = {n. exported h (tabs_of s) m n \<and> unambiguous h (tabs_of s) m n}"
  shows "wpa (ModuleNamespaceCreate h fuel rec m us) (\<lambda>_ t. ns_step h {} s t \<and> namespace (modules t m) \<noteq> None)
    (\<lambda>e u. same_core s u \<and> same_envs s u \<and> hook_throws h e) (\<lambda>msg _. msg = bad_state) s"
  unfolding ModuleNamespaceCreate_def Let_def wpa_sq NewModuleNamespace_def wpa_upd_module
proof (rule wpa_for_list [where I = "\<lambda>ds _ _. ns_inv h s m (sort us) ds"])
  show "ns_inv h s m (sort us) [] (upd s m (\<lambda>r. r\<lparr>namespace := Some \<lparr>ns_exports = sort us, ns_bindings = []\<rparr>\<rparr>))"
    by (rule new_ns_inv [OF un(2)])
next
  fix ds n rs and c :: unit and t
  assume n: "sort us = ds @ n # rs" and inv: "ns_inv h s m (sort us) ds t"
  have "n \<in> set (sort us)" unfolding n by simp
  then have "unambiguous h (tabs_of s) m n" using us by simp
  from ns_body [OF g rec un this inv]
  show "wpa (ModuleNamespaceCreate_binding h fuel rec m n)
    (\<lambda>_. ns_inv h s m (sort us) (ds @ [n])) (\<lambda>e u. same_core s u \<and> same_envs s u \<and> hook_throws h e) (\<lambda>msg _. msg = bad_state) t" .
next
  fix t assume "ns_inv h s m (sort us) (sort us) t"
  then show "ns_step h {} s t \<and> namespace (modules t m) \<noteq> None" by (rule ns_inv_complete [OF _ us un(2)])
qed

lemma wpa_unambiguous_names:
  assumes g: "module_graph h (tabs_of s) D" "m \<in> D" "enough_fuel (tabs_of s) D fuel"
  shows "wpa (unambiguous_names h fuel m ns)
    (\<lambda>us t. t = s \<and> set us = {n \<in> set ns. unambiguous h (tabs_of s) m n})
    (\<lambda>e t. t = s \<and> hook_throws h e) A s"
  unfolding unambiguous_names_def
proof (rule wpa_for_list [where I = "\<lambda>ds _ us t. t = s \<and> set us = {n \<in> set ds. unambiguous h (tabs_of s) m n}"])
  fix ds n rs us t assume inv: "t = s \<and> set us = {n \<in> set ds. unambiguous h (tabs_of s) m n}"
  have "IsResolvedBinding r \<longleftrightarrow> unambiguous h (tabs_of s) m n" if "resolves_to h (tabs_of s) (m, n) r" for r
  proof (cases r)
    case (Resolved m' n')
    then show ?thesis using that by (auto simp: IsResolvedBinding_def unambiguous_def)
  qed (use that in \<open>auto simp: IsResolvedBinding_def unambiguous_def dest: resolves_to_unique\<close>)
  then show "wpa (bnd (resolveExport h fuel m n) (\<lambda>resolution.
              if IsResolvedBinding resolution then ret (us @ [n]) else ret us))
     (\<lambda>us t. t = s \<and> set us = {n' \<in> set (ds @ [n]). unambiguous h (tabs_of s) m n'}) (\<lambda>e t. t = s \<and> hook_throws h e) A t"
    unfolding wpa_bnd using inv by (intro wpa_resolveExport [OF g]) (auto simp: wpa_simps)
qed simp_all

lemma GetModuleNamespace_ok:
  assumes g: "module_graph h T D" "enough_fuel T D fuel"
  shows "namespace_ok h D T k (GetModuleNamespace h fuel k)"
proof (induction k)
  case 0
  show ?case by (simp add: namespace_ok_def)
next
  case (Suc k)
  show ?case
    unfolding namespace_ok_def
  proof (intro allI impI)
    fix m and s :: "'a mstate" assume T: "tabs_of s = T" and m: "m \<in> D" and un: "unnamed D s < Suc k"
    have g': "module_graph h (tabs_of s) D" "enough_fuel (tabs_of s) D fuel" "card D < fuel"
      using g T pairs_fuel by simp_all
    let ?E = "\<lambda>e u. same_core s u \<and> same_envs s u \<and> hook_throws h e"
    let ?A = "\<lambda>msg _. msg = bad_state"
    let ?Q = "\<lambda>_ t. ns_step h {} s t \<and> namespace (modules t m) \<noteq> None"
    show "wpa (GetModuleNamespace h fuel (Suc k) m) ?Q ?E ?A s"
    proof (cases "namespace (modules s m)")
      case (Some ns)
      then show ?thesis by (simp add: wpa_simps)
    next
      case None
      have "wpa (ModuleNamespaceCreate h fuel (GetModuleNamespace h fuel k) m us) ?Q ?E ?A s"
        if "set us = {n. exported h (tabs_of s) m n \<and> unambiguous h (tabs_of s) m n}" for us
        by (rule wpa_ModuleNamespaceCreate [OF g'(1) m g'(2) _ _ None that]) (use Suc.IH T un in auto)
      then have "wpa (unambiguous_names h fuel m ns) (\<lambda>us. wpa (ModuleNamespaceCreate h fuel (GetModuleNamespace h fuel k) m us) ?Q ?E ?A) ?E ?A s"
        if "set ns = {n. exported h (tabs_of s) m n}" for ns
        by (intro wpa_mono [OF wpa_unambiguous_names [OF g'(1) m g'(2)]]) (use that in auto)
      then have "wpa (getExportedNames h fuel m)
          (\<lambda>ns. wpa (unambiguous_names h fuel m ns) (\<lambda>us. wpa (ModuleNamespaceCreate h fuel (GetModuleNamespace h fuel k) m us) ?Q ?E ?A) ?E ?A) ?E ?A s"
        by (intro wpa_mono [OF wp_wpa [OF wp_getExportedNames [OF g'(1) m g'(3)]]]) auto
      then show ?thesis using None by (simp add: wpa_simps)
    qed
  qed
qed

lemma unnamed_le: "finite D \<Longrightarrow> unnamed D s \<le> card D"
  unfolding unnamed_def by (rule card_mono) auto

lemma wpa_GetModuleNamespace:
  assumes g: "module_graph h (tabs_of s) D" "m \<in> D" "enough_fuel (tabs_of s) D fuel" and t: "same_core s t"
  shows "wpa (GetModuleNamespace h fuel fuel m) (\<lambda>_ u. ns_step h {} t u \<and> namespace (modules u m) \<noteq> None)
    (\<lambda>e u. same_core t u \<and> same_envs t u \<and> hook_throws h e) (\<lambda>msg _. msg = bad_state) t"
proof -
  have "unnamed D t < fuel" using unnamed_le [of D t] pairs_fuel(2) [OF g(1,3)] g(1) by (simp add: module_graph_def)
  then show ?thesis using GetModuleNamespace_ok [OF g(1,3), of fuel] tabs_of_core [OF t] g(2)
    unfolding namespace_ok_def by blast
qed

section \<open>Environments\<close>

text \<open>The binding an import entry of module \<open>m\<close> gets.\<close>

definition import_binding :: "'w mhost \<Rightarrow> tabs \<Rightarrow> mid \<Rightarrow> import_entry \<Rightarrow> ebinding \<Rightarrow> bool" where
  "import_binding h T m imp b = (\<exists>i. HostResolveImportedModule h m (imp_moduleRequest imp) = Inr i
     \<and> (if imp_importName imp = ''*'' then b = NamespaceBinding (imp_localName imp) i
        else \<exists>m' n'. resolves_to h T (i, imp_importName imp) (Resolved m' n') \<and> b = ImportBinding (imp_localName imp) m' n'))"

text \<open>What the parser gives: line numbers are positive.\<close>

definition lines_ok :: "tabs \<Rightarrow> mid \<Rightarrow> bool" where
  "lines_ok T m = ((\<forall>e \<in> set (t_indirects T m). 0 < lineNumber e) \<and> (\<forall>imp \<in> set (t_imports T m). 0 < imp_lineNumber imp))"

definition same_env_dom :: "'w mstate \<Rightarrow> 'w mstate \<Rightarrow> bool" where
  "same_env_dom s t = (\<forall>x. (environment (modules t x) = None) = (environment (modules s x) = None))"

definition env_inv :: "'w mhost \<Rightarrow> 'w mstate \<Rightarrow> mid \<Rightarrow> import_entry list \<Rightarrow> 'w mstate \<Rightarrow> bool" where
  "env_inv h s m ds t = (same_core s t \<and> (\<forall>x. x \<noteq> m \<longrightarrow> environment (modules t x) = environment (modules s x))
     \<and> (\<exists>bs0 bs. environment (modules s m) = Some bs0 \<and> environment (modules t m) = Some (bs0 @ bs)
          \<and> list_all2 (import_binding h (tabs_of s) m) ds bs))"

lemma env_inv_dom: "env_inv h s m ds t \<Longrightarrow> same_core s t \<and> same_env_dom s t"
  unfolding env_inv_def same_env_dom_def by (metis option.distinct(1))

lemma env_inv_ns:
  assumes "env_inv h s m ds t" "same_core t u" "same_envs t u"
  shows "env_inv h s m ds u"
  using assms same_core_trans [of s t u] by (auto simp: env_inv_def same_envs_def)

lemma env_inv_add:
  assumes "env_inv h s m ds t" "import_binding h (tabs_of s) m imp b"
  shows "env_inv h s m (ds @ [imp]) (upd t m (\<lambda>r. r\<lparr>environment := map_option (\<lambda>bs. bs @ [b]) (environment r)\<rparr>))"
proof -
  obtain bs0 bs where bs: "environment (modules s m) = Some bs0" "environment (modules t m) = Some (bs0 @ bs)"
    "list_all2 (import_binding h (tabs_of s) m) ds bs" and t: "same_core s t"
    "\<forall>x. x \<noteq> m \<longrightarrow> environment (modules t x) = environment (modules s x)"
    using assms(1) by (auto simp: env_inv_def)
  have "same_core t (upd t m (\<lambda>r. r\<lparr>environment := map_option (\<lambda>bs. bs @ [b]) (environment r)\<rparr>))"
    by (rule same_core_upd) (simp add: tables_def)
  moreover have "list_all2 (import_binding h (tabs_of s) m) (ds @ [imp]) (bs @ [b])"
    using bs(3) assms(2) by (simp add: list_all2_appendI)
  ultimately show ?thesis using bs(1,2) t same_core_trans
    unfolding env_inv_def by (auto intro!: exI [of _ "bs @ [b]"])
qed

lemma wpa_ThrowResolutionError:
  assumes "st t m = LINKING" "kind = ''import'' \<or> kind = ''indirectExport''" "0 < line"
    and "\<And>c. E (SyntaxErr c) t"
  shows "wpa (ThrowResolutionError m r kind n line col) Q E A t"
  using assms by (auto simp: ThrowResolutionError_def wpa_simps Let_def)

lemma wpa_hook:
  assumes "\<And>e. HostResolveImportedModule h m q = Inl e \<Longrightarrow> E e t"
    and "\<And>r. HostResolveImportedModule h m q = Inr r \<Longrightarrow> st t r < mn \<Longrightarrow> E (InternalErr ''JSMSG_BAD_MODULE_STATUS'') t"
    and "\<And>r. HostResolveImportedModule h m q = Inr r \<Longrightarrow> mn \<le> st t r \<Longrightarrow> Q r t"
  shows "wpa (CallModuleResolveHook h m q mn) Q E A t"
  using assms by (auto simp: CallModuleResolveHook_def wpa_simps split: sum.splits)

lemma env_body:
  assumes g: "module_graph h (tabs_of s) D" "m \<in> D" "enough_fuel (tabs_of s) D fuel"
    and m: "st s m = LINKING" "lines_ok (tabs_of s) m" "imp \<in> set (t_imports (tabs_of s) m)"
    and inv: "env_inv h s m ds t"
  shows "wpa (InitializeEnvironment_import h fuel m m imp)
     (\<lambda>_. env_inv h s m (ds @ [imp])) (\<lambda>e u. same_core s u \<and> same_env_dom s u) (\<lambda>msg _. msg = bad_state) t"
    (is "wpa _ ?Q ?E ?A t")
proof -
  have core: "same_core s t" "same_env_dom s t" using env_inv_dom [OF inv] by simp_all
  have tm: "st t m = LINKING" using core(1) m(1) by (simp add: same_core_def)
  have line: "0 < imp_lineNumber imp" using m(2,3) by (simp add: lines_ok_def)
  have in_D: "i \<in> D" if "HostResolveImportedModule h m (imp_moduleRequest imp) = Inr i" for i
    using g(1,2) m(3) that by (force simp: module_graph_def requests_def)
  have ns: "wpa (GetModuleNamespace h fuel fuel i) (\<lambda>_ u. env_inv h s m ds u) ?E ?A t" if "i \<in> D" for i
    by (rule wpa_mono [OF wpa_GetModuleNamespace [OF g(1) that g(3) core(1)]])
      (use env_inv_ns [OF inv] env_inv_dom [OF env_inv_ns [OF inv]] in \<open>auto simp: ns_step_def\<close>)
  have add: "env_inv h s m (ds @ [imp]) (upd u m (\<lambda>r. r\<lparr>environment := map_option (\<lambda>bs. bs @ [b]) (environment r)\<rparr>))"
    if "import_binding h (tabs_of s) m imp b" "env_inv h s m ds u" for b u
    using env_inv_add [OF that(2,1)] .
  have ensure: "env_inv h s m ds (upd u i (\<lambda>r. r\<lparr>env_namespace := True\<rparr>))" if "env_inv h s m ds u" for i u
    by (rule env_inv_ns [OF that]) (auto simp: same_envs_def tables_def intro: same_core_upd)
  have star: "wpa (sq (GetModuleNamespace h fuel fuel i) (add_binding m (NamespaceBinding (imp_localName imp) i))) ?Q ?E ?A t"
    if "HostResolveImportedModule h m (imp_moduleRequest imp) = Inr i" "imp_importName imp = ''*''" for i
    unfolding wpa_sq add_binding_def wpa_upd_module
    by (rule wpa_mono [OF ns [OF in_D [OF that(1)]]]) (use add that in \<open>auto simp: import_binding_def\<close>)
  have named: "wpa (sq (if \<not> IsResolvedBinding r
                 then ThrowResolutionError m r ''import'' (imp_importName imp) (imp_lineNumber imp) (imp_columnNumber imp)
                 else ret ())
            (if bindingName r = ''*namespace*'' then
               sq (GetModuleNamespace h fuel fuel (res_module r))
              (sq (EnsureModuleEnvironmentNamespace (res_module r))
                  (add_binding m (ImportBinding (imp_localName imp) (res_module r) (bindingName r))))
             else add_binding m (ImportBinding (imp_localName imp) (res_module r) (bindingName r)))) ?Q ?E ?A t"
    if i: "HostResolveImportedModule h m (imp_moduleRequest imp) = Inr i" and nm: "imp_importName imp \<noteq> ''*''"
      and r: "resolves_to h (tabs_of s) (i, imp_importName imp) r" for i r
  proof (cases "IsResolvedBinding r")
    case False
    then show ?thesis using core by (simp add: wpa_simps wpa_ThrowResolutionError [OF tm _ line])
  next
    case True
    then obtain m' n' where r': "r = Resolved m' n'" by (cases r) (auto simp: IsResolvedBinding_def)
    have b: "import_binding h (tabs_of s) m imp (ImportBinding (imp_localName imp) m' n')"
      using i nm r r' by (auto simp: import_binding_def)
    have "provides h (tabs_of s) (i, imp_importName imp) (m', n')" using r r' by (simp add: resolves_to_def)
    then have "m' \<in> D" using provides_closed [OF _ g(1)] in_D [OF i] by fastforce
    then have "wpa (GetModuleNamespace h fuel fuel m') (\<lambda>_ u. ?Q () (upd (upd u m' (\<lambda>r. r\<lparr>env_namespace := True\<rparr>)) m
       (\<lambda>r. r\<lparr>environment := map_option (\<lambda>bs. bs @ [ImportBinding (imp_localName imp) m' n']) (environment r)\<rparr>))) ?E ?A t"
      by (intro wpa_mono [OF ns]) (use add [OF b ensure] in auto)
    then show ?thesis using True add [OF b inv]
      by (auto simp: wpa_simps r' add_binding_def EnsureModuleEnvironmentNamespace_def)
  qed
  show ?thesis
    unfolding InitializeEnvironment_import_def wpa_bnd
  proof (rule wpa_hook)
    fix i assume i: "HostResolveImportedModule h m (imp_moduleRequest imp) = Inr i" "LINKING \<le> st t i"
    show "wpa (if imp_importName imp = ''*'' then
             sq (GetModuleNamespace h fuel fuel i)
                (add_binding m (NamespaceBinding (imp_localName imp) i))
           else
             bnd (resolveExport h fuel i (imp_importName imp)) (\<lambda>resolution.
             sq (if \<not> IsResolvedBinding resolution
                 then ThrowResolutionError m resolution ''import'' (imp_importName imp) (imp_lineNumber imp) (imp_columnNumber imp)
                 else ret ())
            (if bindingName resolution = ''*namespace*'' then
               sq (GetModuleNamespace h fuel fuel (res_module resolution))
              (sq (EnsureModuleEnvironmentNamespace (res_module resolution))
                  (add_binding m (ImportBinding (imp_localName imp) (res_module resolution) (bindingName resolution))))
             else add_binding m (ImportBinding (imp_localName imp) (res_module resolution) (bindingName resolution))))) ?Q ?E ?A t"
    proof (cases "imp_importName imp = ''*''")
      case True
      then show ?thesis using star [OF i(1)] by simp
    next
      case False
      then show ?thesis unfolding if_not_P [OF False] wpa_bnd
        by (intro wpa_resolveExport [OF g(1) in_D [OF i(1)] g(3) core(1)]) (use named [OF i(1)] core in auto)
    qed
  qed (use core in auto)
qed

lemma wpa_in_world:
  assumes "\<And>w. Q () (s\<lparr>world := w\<rparr>)" "\<And>e w. E e (s\<lparr>world := w\<rparr>)"
  shows "wpa (in_world f) Q E A s"
  using assms by (auto simp: wpa_def in_world_def split: prod.splits option.splits)

lemma env_inv_world: "env_inv h s m ds t \<Longrightarrow> env_inv h s m ds (t\<lparr>world := w\<rparr>)"
  by (simp add: env_inv_def same_core_def same_dfs_def)

lemma wpa_indirect:
  assumes g: "module_graph h (tabs_of s) D" "m \<in> D" "enough_fuel (tabs_of s) D fuel"
    and m: "st s m = LINKING" "lines_ok (tabs_of s) m" "e \<in> set (t_indirects (tabs_of s) m)"
    and Q: "unambiguous h (tabs_of s) m (exportName e) \<Longrightarrow> Q () s" and E: "\<And>x. E x s"
  shows "wpa (InitializeEnvironment_indirect h fuel m e) Q E A s"
proof -
  have line: "0 < lineNumber e" using m(2,3) by (simp add: lines_ok_def)
  have un: "unambiguous h (tabs_of s) m (exportName e)" if "resolves_to h (tabs_of s) (m, exportName e) r" "IsResolvedBinding r" for r
    using that by (cases r) (auto simp: IsResolvedBinding_def unambiguous_def)
  show ?thesis
    unfolding InitializeEnvironment_indirect_def wpa_bnd
    by (intro wpa_resolveExport [OF g]) (use un Q E in \<open>auto simp: wpa_simps wpa_ThrowResolutionError [OF m(1) _ line]\<close>)
qed

lemma wpa_InitializeEnvironment:
  assumes g: "module_graph h (tabs_of s) D" "m \<in> D" "enough_fuel (tabs_of s) D fuel"
    and m: "st s m = LINKING" "lines_ok (tabs_of s) m" "environment (modules s m) \<noteq> None"
  shows "wpa (InitializeEnvironment h fuel m)
     (\<lambda>_ t. env_inv h s m (t_imports (tabs_of s) m) t \<and> (\<forall>e \<in> set (t_indirects (tabs_of s) m). unambiguous h (tabs_of s) m (exportName e)))
     (\<lambda>e u. same_core s u \<and> same_env_dom s u) (\<lambda>msg _. msg = bad_state) s" (is "wpa _ ?Q ?E ?A s")
proof -
  let ?un = "\<lambda>es. \<forall>e \<in> set es. unambiguous h (tabs_of s) m (exportName e)"
  have env0: "env_inv h s m [] s" using m(3) by (auto simp: env_inv_def)
  have imps: "wpa (for_list (t_imports (tabs_of s) m) (\<lambda>imp _. InitializeEnvironment_import h fuel m m imp) ())
     (\<lambda>_. wpa (InstantiateModuleFunctionDeclarations h m) (\<lambda>_. env_inv h s m (t_imports (tabs_of s) m)) ?E ?A) ?E ?A s"
  proof (rule wpa_for_list [where I = "\<lambda>ds _ _. env_inv h s m ds"])
    fix t assume inv: "env_inv h s m (t_imports (tabs_of s) m) t"
    show "wpa (InstantiateModuleFunctionDeclarations h m) (\<lambda>_. env_inv h s m (t_imports (tabs_of s) m)) ?E ?A t"
      unfolding InstantiateModuleFunctionDeclarations_def
      by (rule wpa_in_world) (use env_inv_world [OF inv] env_inv_dom in blast)+
  qed (use env0 env_body [OF g m(1,2)] in auto)
  have "wpa (for_list (t_indirects (tabs_of s) m) (\<lambda>e _. InitializeEnvironment_indirect h fuel m e) ())
     (\<lambda>_ t. t = s \<and> ?un (t_indirects (tabs_of s) m)) ?E ?A s"
    by (rule wpa_for_list [where I = "\<lambda>ds _ _ t. t = s \<and> ?un ds"])
      (auto intro!: wpa_indirect [OF g m(1,2)] simp: same_env_dom_def)
  then have "wpa (for_list (t_indirects (tabs_of s) m) (\<lambda>e _. InitializeEnvironment_indirect h fuel m e) ())
     (\<lambda>_. wpa (bnd (GetModuleEnvironment m) (\<lambda>env.
        sq (for_list (t_imports (tabs_of s) m) (\<lambda>imp _. InitializeEnvironment_import h fuel m env imp) ())
       (InstantiateModuleFunctionDeclarations h m))) ?Q ?E ?A) ?E ?A s"
  proof (rule wpa_mono)
    fix a t assume t: "t = s \<and> ?un (t_indirects (tabs_of s) m)"
    have "wpa (for_list (t_imports (tabs_of s) m) (\<lambda>imp _. InitializeEnvironment_import h fuel m m imp) ())
       (\<lambda>_. wpa (InstantiateModuleFunctionDeclarations h m) ?Q ?E ?A) ?E ?A s"
      by (rule wpa_mono [OF imps]) (use t in \<open>auto elim: wpa_mono\<close>)
    then show "wpa (bnd (GetModuleEnvironment m) (\<lambda>env.
        sq (for_list (t_imports (tabs_of s) m) (\<lambda>imp _. InitializeEnvironment_import h fuel m env imp) ())
       (InstantiateModuleFunctionDeclarations h m))) ?Q ?E ?A t"
      using t m(1,3) by (simp add: GetModuleEnvironment_def wpa_simps)
  qed auto
  then show ?thesis
    by (simp add: InitializeEnvironment_def wpa_simps modules_tabs)
qed

end
