(* ===== verification/ModuleLink.thy ===== *)
theory ModuleLink
  imports ModuleNamespace
begin

text \<open>
  Linking and evaluation as a whole: the walk's invariant on \<open>ModuleInstantiate\<close> and
  \<open>ModuleEvaluate\<close>, through their exception handlers.
\<close>

section \<open>The two walks\<close>

definition link_domain :: "'w mhost \<Rightarrow> tabs \<Rightarrow> mid set \<Rightarrow> nat \<Rightarrow> mid set" where
  "link_domain h T D fuel = (if module_graph h T D \<and> enough_fuel T D fuel \<and> (\<forall>m \<in> D. lines_ok T m) then D else {})"

definition has_envs :: "mid set \<Rightarrow> 'w mstate \<Rightarrow> bool" where
  "has_envs D s = (\<forall>m \<in> D. environment (modules s m) \<noteq> None)"

lemma has_envs_dom: "has_envs D s \<Longrightarrow> same_env_dom s t \<Longrightarrow> has_envs D t"
  by (auto simp: has_envs_def same_env_dom_def)

lemma same_rest_tabs: "same_rest s t \<Longrightarrow> tabs_of t = tabs_of s"
  by (simp add: same_rest_def tabs_of_def fun_eq_iff)

lemma link_domainD:
  assumes "m \<in> link_domain h T D fuel"
  shows "module_graph h T D" "enough_fuel T D fuel" "lines_ok T m" "m \<in> D" "link_domain h T D fuel = D"
  using assms by (auto simp: link_domain_def split: if_splits)

lemma link_action:
  assumes "tabs_of s = T \<and> has_envs (link_domain h T D fuel) s" "m \<in> link_domain h T D fuel" "st s m = LINKING"
  shows "wpa (InitializeEnvironment h fuel m)
    (\<lambda>_ t. same_core s t \<and> tabs_of t = T \<and> has_envs (link_domain h T D fuel) t)
    (\<lambda>e t. same_core s t \<and> tabs_of t = T \<and> has_envs (link_domain h T D fuel) t) (\<lambda>msg _. msg = bad_state) s"
proof -
  note d = link_domainD [OF assms(2)]
  have T: "tabs_of s = T" "has_envs D s" using assms(1) d(5) by simp_all
  have env: "environment (modules s m) \<noteq> None" using T(2) d(4) by (simp add: has_envs_def)
  have "wpa (InitializeEnvironment h fuel m)
     (\<lambda>_ t. env_inv h s m (t_imports (tabs_of s) m) t \<and> (\<forall>e \<in> set (t_indirects (tabs_of s) m). unambiguous h (tabs_of s) m (exportName e)))
     (\<lambda>e u. same_core s u \<and> same_env_dom s u) (\<lambda>msg _. msg = bad_state) s"
    by (rule wpa_InitializeEnvironment [OF _ d(4) _ assms(3) _ env]) (use d T in simp_all)
  moreover have "same_core s u \<and> tabs_of u = T \<and> has_envs (link_domain h T D fuel) u" if "same_core s u \<and> same_env_dom s u" for u
    using that T(1) d(5) has_envs_dom [OF T(2)] tabs_of_core [of s u] by simp
  moreover note env_inv_dom
  ultimately show ?thesis
    by (elim wpa_mono) (blast intro: env_inv_dom)+
qed

lemma mstatus_le: "(a \<le> b) = (status_code a \<le> status_code b)" "((a :: mstatus) < b) = (status_code a < status_code b)"
  by (simp_all add: mstatus_order)

interpretation lk: module_walk h "linking h fuel" "link_domain h T D fuel" T
    "\<lambda>s. tabs_of s = T \<and> has_envs (link_domain h T D fuel) s" "\<lambda>msg. msg = bad_state" for h fuel T D
proof unfold_locales
  fix s t :: "'a mstate" and m
  assume "tabs_of s = T \<and> has_envs (link_domain h T D fuel) s" "same_rest s t"
  then show "tabs_of t = T \<and> has_envs (link_domain h T D fuel) t"
    using same_rest_tabs by (fastforce simp: has_envs_def same_rest_def)
next
  fix s :: "'a mstate" and m
  assume "tabs_of s = T \<and> has_envs (link_domain h T D fuel) s" "m \<in> link_domain h T D fuel"
    "st s m = w_working (linking h fuel)"
  then show "wpa (w_action (linking h fuel) m)
      (\<lambda>_ t. same_core s t \<and> tabs_of t = T \<and> has_envs (link_domain h T D fuel) t)
      (\<lambda>e t. same_core s t \<and> tabs_of t = T \<and> has_envs (link_domain h T D fuel) t) (\<lambda>msg _. msg = bad_state) s"
    using link_action [of s T h D fuel m] by (simp add: linking_def)
next
  fix m q r assume "m \<in> link_domain h T D fuel" "q \<in> set (t_requests T m)" "HostResolveImportedModule h m q = Inr r"
  then show "r \<in> link_domain h T D fuel" using link_domainD [of m h T D fuel] by (auto simp: module_graph_def requests_def)
next
  show "finite (link_domain h T D fuel)" by (auto simp: link_domain_def module_graph_def)
next
  fix s :: "'a mstate" and m i assume "st s m \<noteq> w_start (linking h fuel)" "st s m \<notin> insert (w_working (linking h fuel)) (w_dones (linking h fuel))"
  then show "\<exists>e. w_early (linking h fuel) m i s = (Throw e, s)"
    by (simp add: linking_def bnd_get_module run_simps)
qed (auto simp: linking_def mstatus_le tabs_of_def bnd_get_module run_simps)

definition eval_domain :: "'w mhost \<Rightarrow> tabs \<Rightarrow> mid set \<Rightarrow> mid set" where
  "eval_domain h T D = (if module_graph h T D then D else {})"

lemma ExecuteModule_core: "wpa (ExecuteModule h m) (\<lambda>_ t. same_core s t) (\<lambda>e t. same_core s t) A s"
  unfolding ExecuteModule_def by (rule wpa_in_world) (simp_all add: same_core_def same_dfs_def)

interpretation ev: module_walk h "evaluating h" "eval_domain h T D" T "\<lambda>s. tabs_of s = T" "\<lambda>msg. False" for h T D
proof unfold_locales
  fix m q r assume "m \<in> eval_domain h T D" "q \<in> set (t_requests T m)" "HostResolveImportedModule h m q = Inr r"
  then show "r \<in> eval_domain h T D" by (auto simp: eval_domain_def module_graph_def requests_def split: if_splits)
next
  show "finite (eval_domain h T D)" by (auto simp: eval_domain_def module_graph_def)
next
  fix s :: "'a mstate" and m assume "tabs_of s = T"
  note T = this
  show "wpa (w_action (evaluating h) m) (\<lambda>_ t. same_core s t \<and> tabs_of t = T) (\<lambda>e t. same_core s t \<and> tabs_of t = T) (\<lambda>msg _. False) s"
    unfolding evaluating_def walk.simps
    by (rule wpa_mono [OF ExecuteModule_core [where A = "\<lambda>_ _. False"]]) (simp_all add: tabs_of_core T)
next
  fix s t :: "'a mstate" assume "tabs_of s = T" "same_rest s t"
  then show "tabs_of t = T" using same_rest_tabs [of s t] by simp
next
  fix s :: "'a mstate" and m i
  assume "st s m \<noteq> w_start (evaluating h)" "st s m \<notin> insert (w_working (evaluating h)) (w_dones (evaluating h))"
    "w_min (evaluating h) \<le> st s m"
  then show "\<exists>e. w_early (evaluating h) m i s = (Throw e, s)"
    by (cases "st s m") (auto simp: evaluating_def mstatus_le bnd_get_module GetModuleEvaluationError_def run_simps)
qed (auto simp: evaluating_def mstatus_le tabs_of_def bnd_get_module run_simps)

section \<open>ModuleInstantiate\<close>

text \<open>No walk is under way; and what is linked is numbered and has only linked dependencies.\<close>

definition quiet :: "'w mstate \<Rightarrow> bool" where
  "quiet s = (\<forall>m. st s m \<noteq> LINKING \<and> st s m \<noteq> EVALUATING)"

definition linked_ok :: "'w mhost \<Rightarrow> 'w mstate \<Rightarrow> bool" where
  "linked_ok h s = (\<forall>m. LINKED \<le> st s m \<longrightarrow> numbered s m
     \<and> (\<forall>q \<in> set (requestedModules (modules s m)). \<forall>r. HostResolveImportedModule h m q = Inr r \<longrightarrow> LINKED \<le> st s r))"

text \<open>What is evaluated has only evaluated dependencies.\<close>

definition evaluated_ok :: "'w mhost \<Rightarrow> 'w mstate \<Rightarrow> bool" where
  "evaluated_ok h s = (\<forall>m. st s m = EVALUATED \<longrightarrow> numbered s m
     \<and> (\<forall>q \<in> set (requestedModules (modules s m)). \<forall>r. HostResolveImportedModule h m q = Inr r \<longrightarrow> st s r = EVALUATED))"

text \<open>The invariant of the module loader between its operations.\<close>

definition loader_ok :: "'w mhost \<Rightarrow> 'w mstate \<Rightarrow> bool" where
  "loader_ok h s = (quiet s \<and> linked_ok h s \<and> evaluated_ok h s)"

definition linked_some :: "mid set \<Rightarrow> 'w mstate \<Rightarrow> 'w mstate \<Rightarrow> bool" where
  "linked_some D s t = (\<forall>x. st t x = st s x \<or> x \<in> D \<and> st s x = UNLINKED \<and> st t x = LINKED)"

definition reset :: "mid set \<Rightarrow> 'w mstate \<Rightarrow> 'w mstate" where
  "reset C s = s\<lparr>modules := (\<lambda>x. if x \<in> C
     then modules s x\<lparr>status := UNLINKED, dfsIndex := None, dfsAncestorIndex := None\<rparr> else modules s x)\<rparr>"

lemma reset_simps [simp]: "reset {} s = s" "stk (reset C s) = stk s"
  "modules (reset C s) x = (if x \<in> C
     then modules s x\<lparr>status := UNLINKED, dfsIndex := None, dfsAncestorIndex := None\<rparr> else modules s x)"
  by (simp_all add: reset_def)

lemma HandleModuleInstantiationFailure_reset:
  assumes "st s x = LINKING" "modules t x = modules s x" "t = reset C s"
  shows "HandleModuleInstantiationFailure x t = (Ret (), reset (insert x C) s)"
proof -
  have "upd (upd (upd t x (\<lambda>r. r\<lparr>status := UNLINKED\<rparr>)) x (\<lambda>r. r\<lparr>dfsIndex := None\<rparr>)) x (\<lambda>r. r\<lparr>dfsAncestorIndex := None\<rparr>)
      = reset (insert x C) s"
    using assms by (simp add: upd_def reset_def fun_eq_iff)
  then show ?thesis using assms(1,2)
    by (simp add: HandleModuleInstantiationFailure_def ModuleSetStatus_def run_simps mstatus_le)
qed

lemma reset_stack:
  assumes "distinct xs" "\<forall>x \<in> set xs. st s x = LINKING"
  shows "wpa (for_list xs (\<lambda>x _. bnd (get_module x) (\<lambda>xm. whenJ (status xm = LINKING) (HandleModuleInstantiationFailure x))) ())
    (\<lambda>_ t. t = reset (set xs) s) E A s"
proof (rule wpa_for_list [where I = "\<lambda>ds _ _ t. t = reset (set ds) s"])
  fix ds x rs and c :: unit and t assume xs: "xs = ds @ x # rs" and t: "t = reset (set ds) s"
  have x: "st s x = LINKING" "x \<notin> set ds" using xs assms by auto
  then have m: "modules t x = modules s x" using t by simp
  show "wpa (bnd (get_module x) (\<lambda>xm. whenJ (status xm = LINKING) (HandleModuleInstantiationFailure x)))
      (\<lambda>_ t. t = reset (set (ds @ [x])) s) E A t"
    using x(1) m HandleModuleInstantiationFailure_reset [OF x(1) m t] by (simp add: wpa_def bnd_get_module whenJ_def)
qed simp_all

lemma linking_simps [simp]:
  "w_start (linking h fuel) = UNLINKED" "w_working (linking h fuel) = LINKING" "w_finished (linking h fuel) = LINKED"
  "w_dones (linking h fuel) = {LINKED, EVALUATED, EVALUATED_ERROR}" "w_min (linking h fuel) = UNLINKED"
  by (simp_all add: linking_def)

lemma quiet_done: "st s x \<noteq> LINKING \<Longrightarrow> st s x \<noteq> EVALUATING \<Longrightarrow> (LINKED \<le> st s x) = (st s x \<in> {LINKED, EVALUATED, EVALUATED_ERROR})"
  by (cases "st s x") (auto simp: mstatus_le)

lemma unlinked_least: "(UNLINKED :: mstatus) \<le> a"
  by (simp add: mstatus_le)

lemma link_base:
  assumes "quiet s" "linked_ok h s" "stk s = []" "tabs_of s = T" "has_envs (link_domain h T D fuel) s"
  shows "lk.base h fuel T D s"
proof -
  have "st s r \<in> {LINKED, EVALUATED, EVALUATED_ERROR}"
    if d: "st s m \<in> {LINKED, EVALUATED, EVALUATED_ERROR}" "r \<in> module_deps h T m" for m r
  proof -
    obtain q where q: "q \<in> set (requestedModules (modules s m))" "HostResolveImportedModule h m q = Inr r"
      using d(2) assms(4) by (auto simp: module_deps_def modules_tabs)
    have "LINKED \<le> st s m" using d(1) by (auto simp: mstatus_le)
    then have "LINKED \<le> st s r" using assms(2) q unfolding linked_ok_def by blast
    then show ?thesis using assms(1) quiet_done [of s r] by (simp add: quiet_def)
  qed
  moreover have "numbered s m" if "st s m \<in> {LINKED, EVALUATED, EVALUATED_ERROR}" for m
    using that assms(2) unfolding linked_ok_def by (auto simp: mstatus_le)
  ultimately show ?thesis using assms unfolding lk.base_def by (auto simp: quiet_def)
qed

lemma base_linked_ok:
  assumes "lk.base h fuel T D s" "\<And>x. st s x \<noteq> EVALUATING"
    and "\<And>x. st t x = (if st s x = LINKING then UNLINKED else st s x)"
    and "\<And>x. st s x \<noteq> LINKING \<Longrightarrow> numbered t x = numbered s x" "tabs_of t = T"
  shows "linked_ok h t" "quiet t"
proof -
  show q: "quiet t" using assms(2,3) by (simp add: quiet_def)
  show "linked_ok h t"
    unfolding linked_ok_def
  proof (intro allI impI)
    fix m assume "LINKED \<le> st t m"
    then have m: "st s m \<in> {LINKED, EVALUATED, EVALUATED_ERROR}"
      using assms(2,3) by (cases "st s m") (auto simp: mstatus_le split: if_splits)
    have "numbered s m" using m assms(1) by (auto simp: lk.base_def)
    then have "numbered t m" using m assms(4) [of m] by auto
    moreover have "LINKED \<le> st t r" if "q \<in> set (requestedModules (modules t m))" "HostResolveImportedModule h m q = Inr r" for q r
    proof -
      have "r \<in> module_deps h T m" using that assms(5) by (auto simp: module_deps_def modules_tabs)
      then have "st s r \<in> {LINKED, EVALUATED, EVALUATED_ERROR}" using assms(1) m unfolding lk.base_def by auto
      then show ?thesis using assms(3) by (auto simp: mstatus_le)
    qed
    ultimately show "numbered t m \<and> (\<forall>q \<in> set (requestedModules (modules t m)). \<forall>r.
        HostResolveImportedModule h m q = Inr r \<longrightarrow> LINKED \<le> st t r)" by blast
  qed
qed

lemma link_walk:
  assumes g: "module_graph h (tabs_of s) D" "m \<in> D" "enough_fuel (tabs_of s) D fuel" "\<forall>m \<in> D. lines_ok (tabs_of s) m"
    and s: "has_envs D s" "quiet s" "linked_ok h s" "stk s = []"
  shows "wpa (InnerModuleLinking h fuel fuel m 0) (\<lambda>j. lk.post h fuel (tabs_of s) D m s 0 j)
    (\<lambda>_. lk.err h fuel (tabs_of s) D m s) (\<lambda>msg _. msg = bad_state) s"
proof -
  have dom: "link_domain h (tabs_of s) D fuel = D" using g by (simp add: link_domain_def)
  have b: "lk.base h fuel (tabs_of s) D s" by (rule link_base) (use s dom in simp_all)
  have "lk.fresh h fuel (tabs_of s) D s \<le> card D"
    unfolding lk.fresh_def unfolding dom by (rule card_mono) (use g(1) in \<open>auto simp: module_graph_def\<close>)
  then have "lk.fresh h fuel (tabs_of s) D s < fuel" using pairs_fuel(2) [OF g(1,3)] by simp
  then show ?thesis
    using lk.visit_correct [of h fuel "tabs_of s" D fuel] b g(2) s(4) dom unlinked_least
    unfolding lk.visit_ok_def InnerModuleLinking_is_walk by (simp add: lk.srt_def)
qed

lemma root_popped:
  assumes "lk.post h fuel T D m s 0 j t" "stk s = []"
  shows "stk t = [] \<and> st t m \<in> {LINKED, EVALUATED, EVALUATED_ERROR}"
proof -
  obtain seg where seg: "stk t = seg" "seg \<noteq> [] \<longrightarrow> m \<in> set seg \<and> anc t m < ix t m \<and> ix t m = 0"
    and b: "lk.base h fuel T D t" "lk.srt t j" "st t m \<in> {LINKING, LINKED, EVALUATED, EVALUATED_ERROR}"
    using assms by (auto simp: lk.post_def)
  have "seg = []" using seg b(2) by (force simp: lk.srt_def)
  then show ?thesis using seg(1) b(1,3) by (auto simp: lk.base_def)
qed

text \<open>What the two ways out of the walk leave.\<close>

lemma link_frame:
  assumes "lk.frame h fuel T D s t" "quiet s" "link_domain h T D fuel = D"
  shows "st t x \<noteq> EVALUATING" "st t x \<noteq> LINKING \<Longrightarrow> st t x = st s x \<or> x \<in> D \<and> st s x = UNLINKED \<and> st t x = LINKED"
    "st t x = LINKING \<Longrightarrow> st s x = UNLINKED"
proof -
  note f = lk.frame_at [OF assms(1), of x, unfolded assms(3) linking_simps]
  have f1: "st t x = st s x \<or> st s x = UNLINKED \<and> st t x \<in> {LINKING, LINKED}" using f by blast
  have f2: "x \<notin> D \<Longrightarrow> st t x = st s x" using f by blast
  have q: "st s x \<noteq> LINKING" "st s x \<noteq> EVALUATING" using assms(2) by (simp_all add: quiet_def)
  show "st t x \<noteq> EVALUATING" using f1 q by auto
  show "st t x = LINKING \<Longrightarrow> st s x = UNLINKED" using f1 q by auto
  show "st t x \<noteq> LINKING \<Longrightarrow> st t x = st s x \<or> x \<in> D \<and> st s x = UNLINKED \<and> st t x = LINKED"
    using f1 f2 by auto
qed

definition link_state :: "'w mhost \<Rightarrow> mid set \<Rightarrow> 'w mstate \<Rightarrow> 'w mstate \<Rightarrow> bool" where
  "link_state h D s t = (loader_ok h t \<and> linked_some D s t)"

lemma evaluated_ok_mono:
  assumes "evaluated_ok h s" "tabs_of t = tabs_of s"
    and "\<And>x. st t x = EVALUATED \<longleftrightarrow> st s x = EVALUATED" "\<And>x. st s x = EVALUATED \<Longrightarrow> numbered s x \<Longrightarrow> numbered t x"
  shows "evaluated_ok h t"
  using assms by (simp add: evaluated_ok_def modules_tabs)

lemma frame_numbered: "lk.frame h fuel T D s t \<Longrightarrow> st s x \<noteq> UNLINKED \<Longrightarrow> numbered s x \<Longrightarrow> numbered t x"
  using lk.frameD(1) [of h fuel T D s t x] by (simp add: same_dfs_def numbered_def)

lemma link_returned:
  assumes p: "lk.post h fuel (tabs_of s) D m s 0 j t" and s: "quiet s" "stk s = []" "evaluated_ok h s"
    and dom: "link_domain h (tabs_of s) D fuel = D"
  shows "LINKED \<le> st t m \<and> st t m \<in> {LINKED, EVALUATED, EVALUATED_ERROR} \<and> stk t = [] \<and> link_state h D s t"
proof -
  have b: "lk.base h fuel (tabs_of s) D t" "lk.frame h fuel (tabs_of s) D s t" using p by (simp_all add: lk.post_def)
  note rp = root_popped [OF p s(2)]
  have nl: "st t x \<noteq> LINKING" for x using b(1) rp by (simp add: lk.base_def)
  have "tabs_of t = tabs_of s" using b(1) by (simp add: lk.base_def)
  moreover from this have "linked_ok h t" "quiet t"
    using base_linked_ok [OF b(1), of t] link_frame(1) [OF b(2) s(1) dom] nl by auto
  moreover have some: "linked_some D s t" using link_frame(2) [OF b(2) s(1) dom nl] by (simp add: linked_some_def)
  moreover have "st t x = EVALUATED \<longleftrightarrow> st s x = EVALUATED" for x
    using some by (auto simp: linked_some_def dest: spec [of _ x])
  then have "evaluated_ok h t"
    by (rule evaluated_ok_mono [OF s(3) \<open>tabs_of t = tabs_of s\<close>]) (use frame_numbered [OF b(2)] in auto)
  ultimately show ?thesis using rp by (auto simp: link_state_def loader_ok_def mstatus_le)
qed

lemma link_threw:
  assumes e: "lk.err h fuel (tabs_of s) D m s t" and s: "quiet s" "evaluated_ok h s"
    and dom: "link_domain h (tabs_of s) D fuel = D"
  shows "link_state h D s (reset (set (stk t)) t)"
proof -
  have b: "lk.base h fuel (tabs_of s) D t" "lk.frame h fuel (tabs_of s) D s t" using e by (simp_all add: lk.err_def)
  have work: "st t x = LINKING \<longleftrightarrow> x \<in> set (stk t)" for x using b(1) by (simp add: lk.base_def)
  have "tabs_of (reset (set (stk t)) t) = tabs_of s"
  proof -
    have "tabs_of t = tabs_of s" using b(1) by (simp add: lk.base_def)
    then show ?thesis by (simp add: tabs_of_def tables_def fun_eq_iff)
  qed
  moreover from this have "linked_ok h (reset (set (stk t)) t)" "quiet (reset (set (stk t)) t)"
    using base_linked_ok [OF b(1), of "reset (set (stk t)) t"] link_frame(1) [OF b(2) s(1) dom] work by (auto simp: numbered_def)
  moreover have some: "linked_some D s (reset (set (stk t)) t)"
    using link_frame(2,3) [OF b(2) s(1) dom] work by (auto simp: linked_some_def)
  moreover have "st (reset (set (stk t)) t) x = EVALUATED \<longleftrightarrow> st s x = EVALUATED" for x
    using some by (auto simp: linked_some_def dest: spec [of _ x])
  then have "evaluated_ok h (reset (set (stk t)) t)"
    by (rule evaluated_ok_mono [OF s(2) \<open>tabs_of (reset (set (stk t)) t) = tabs_of s\<close>])
      (use frame_numbered [OF b(2)] link_frame(3) [OF b(2) s(1) dom] work in \<open>auto simp: numbered_def\<close>)
  ultimately show ?thesis by (simp add: link_state_def loader_ok_def)
qed

lemma wpa_ModuleInstantiate_failed:
  assumes e: "lk.err h fuel (tabs_of s) D m s t" and s: "quiet s" "evaluated_ok h s" and dom: "link_domain h (tabs_of s) D fuel = D"
  shows "wpa (ModuleInstantiate_failed m error) Q (\<lambda>_. link_state h D s) A t"
proof -
  note bad = link_threw [OF e s dom]
  have b: "lk.base h fuel (tabs_of s) D t" using e by (simp add: lk.err_def)
  have "distinct (stk t)" "\<forall>x \<in> set (stk t). st t x = LINKING" using b by (simp_all add: lk.base_def)
  note r = reset_stack [OF this]
  have "st (reset (set (stk t)) t) m \<noteq> LINKING" using bad by (simp add: link_state_def loader_ok_def quiet_def)
  then show ?thesis using bad by (auto simp: ModuleInstantiate_failed_def wpa_simps intro!: wpa_mono [OF r])
qed


section \<open>ModuleEvaluate\<close>

lemma evaluating_simps [simp]:
  "w_start (evaluating h) = LINKED" "w_working (evaluating h) = EVALUATING" "w_finished (evaluating h) = EVALUATED"
  "w_dones (evaluating h) = {EVALUATED}" "w_min (evaluating h) = LINKED"
  by (simp_all add: evaluating_def)

text \<open>What evaluation changes: linked modules become evaluated, or fail with the error.\<close>

definition evaluated_some :: "mid set \<Rightarrow> 'w mstate \<Rightarrow> 'w mstate \<Rightarrow> bool" where
  "evaluated_some D s t = (\<forall>x. st t x = st s x \<or> x \<in> D \<and> st s x = LINKED \<and> st t x = EVALUATED)"

definition failed_some :: "mid set \<Rightarrow> exn \<Rightarrow> 'w mstate \<Rightarrow> 'w mstate \<Rightarrow> bool" where
  "failed_some D e s t = (\<forall>x. st t x = st s x \<or> x \<in> D \<and> st s x = LINKED \<and>
     (st t x = EVALUATED \<or> st t x = EVALUATED_ERROR \<and> evaluationError (modules t x) = Some e))"

definition fail :: "exn \<Rightarrow> mid set \<Rightarrow> 'w mstate \<Rightarrow> 'w mstate" where
  "fail e C s = s\<lparr>modules := (\<lambda>x. if x \<in> C
     then modules s x\<lparr>status := EVALUATED_ERROR, evaluationError := Some e\<rparr> else modules s x)\<rparr>"

lemma fail_simps [simp]: "fail e {} s = s" "stk (fail e C s) = stk s"
  "modules (fail e C s) x = (if x \<in> C
     then modules s x\<lparr>status := EVALUATED_ERROR, evaluationError := Some e\<rparr> else modules s x)"
  by (simp_all add: fail_def)

lemma RecordModuleEvaluationError_fail:
  assumes "st s x = EVALUATING" "modules t x = modules s x" "t = fail e C s"
  shows "RecordModuleEvaluationError x e t = (Ret (), fail e (insert x C) s)"
proof -
  have "upd (upd t x (\<lambda>r. r\<lparr>status := EVALUATED_ERROR\<rparr>)) x (\<lambda>r. r\<lparr>evaluationError := Some e\<rparr>) = fail e (insert x C) s"
    using assms by (simp add: upd_def fail_def fun_eq_iff)
  then show ?thesis using assms(1,2)
    by (simp add: RecordModuleEvaluationError_def ModuleSetStatus_def run_simps mstatus_le)
qed

lemma fail_stack:
  assumes "distinct xs" "\<forall>x \<in> set xs. st s x = EVALUATING"
  shows "wpa (for_list xs (\<lambda>x _. bnd (get_module x) (\<lambda>xm.
           sq (asrt (status xm = EVALUATING) ''Bad module status after failed evaluation'')
              (RecordModuleEvaluationError x e))) ())
    (\<lambda>_ t. t = fail e (set xs) s) E A s"
proof (rule wpa_for_list [where I = "\<lambda>ds _ _ t. t = fail e (set ds) s"])
  fix ds x rs and c :: unit and t assume xs: "xs = ds @ x # rs" and t: "t = fail e (set ds) s"
  have x: "st s x = EVALUATING" "x \<notin> set ds" using xs assms by auto
  then have m: "modules t x = modules s x" using t by simp
  show "wpa (bnd (get_module x) (\<lambda>xm.
           sq (asrt (status xm = EVALUATING) ''Bad module status after failed evaluation'')
              (RecordModuleEvaluationError x e)))
      (\<lambda>_ t. t = fail e (set (ds @ [x])) s) E A t"
  proof -
    have "wpa (RecordModuleEvaluationError x e) (\<lambda>_ u. u = fail e (set (ds @ [x])) s) E A t"
      unfolding wpa_def RecordModuleEvaluationError_fail [OF x(1) m t] by simp
    then show ?thesis using x(1) m by (simp add: wpa_bnd wpa_get_module wpa_sq wpa_asrt)
  qed
qed simp_all

lemma eval_base:
  assumes "quiet s" "evaluated_ok h s" "stk s = []" "tabs_of s = T"
  shows "ev.base h T s"
proof -
  have "st s r = EVALUATED" if d: "st s m = EVALUATED" "r \<in> module_deps h T m" for m r
  proof -
    obtain q where "q \<in> set (requestedModules (modules s m))" "HostResolveImportedModule h m q = Inr r"
      using d(2) assms(4) by (auto simp: module_deps_def modules_tabs)
    then show ?thesis using d(1) assms(2) unfolding evaluated_ok_def by blast
  qed
  moreover have "st s m = EVALUATED \<Longrightarrow> numbered s m" for m using assms(2) unfolding evaluated_ok_def by blast
  ultimately show ?thesis using assms(1,3,4) unfolding ev.base_def by (auto simp: quiet_def)
qed

lemma eval_frame:
  assumes "ev.frame h T D s t" "quiet s" "eval_domain h T D = D"
  shows "st t x \<noteq> LINKING" "st t x \<noteq> EVALUATING \<Longrightarrow> st t x = st s x \<or> x \<in> D \<and> st s x = LINKED \<and> st t x = EVALUATED"
    "st t x = EVALUATING \<Longrightarrow> st s x = LINKED \<and> x \<in> D" "st t x = st s x \<Longrightarrow> same_dfs s t x"
    "LINKED \<le> st t x \<longleftrightarrow> LINKED \<le> st s x"
proof -
  note f = ev.frame_at [OF assms(1), of x, unfolded assms(3) evaluating_simps]
  have f1: "st t x = st s x \<or> st s x = LINKED \<and> st t x \<in> {EVALUATING, EVALUATED}" using f by blast
  have f2: "x \<notin> D \<Longrightarrow> st t x = st s x" using f by blast
  have q: "st s x \<noteq> LINKING" "st s x \<noteq> EVALUATING" using assms(2) by (simp_all add: quiet_def)
  show "st t x \<noteq> LINKING" using f1 q by auto
  show "st t x = EVALUATING \<Longrightarrow> st s x = LINKED \<and> x \<in> D" using f1 f2 q by auto
  show "st t x \<noteq> EVALUATING \<Longrightarrow> st t x = st s x \<or> x \<in> D \<and> st s x = LINKED \<and> st t x = EVALUATED"
    using f1 f2 by auto
  show "st t x = st s x \<Longrightarrow> same_dfs s t x" using f by auto
  show "LINKED \<le> st t x \<longleftrightarrow> LINKED \<le> st s x" using f1 by (auto simp: mstatus_le)
qed

text \<open>Evaluation keeps what linking established.\<close>

lemma eval_linked_ok:
  assumes b: "ev.base h (tabs_of s) t" "ev.frame h (tabs_of s) D s t" and s: "quiet s" "linked_ok h s"
    and dom: "eval_domain h (tabs_of s) D = D"
    and u: "tabs_of u = tabs_of s" "\<And>x. LINKED \<le> st u x \<longleftrightarrow> LINKED \<le> st t x" "\<And>x. numbered u x = numbered t x"
  shows "linked_ok h u"
proof -
  have "numbered t x" if x: "LINKED \<le> st t x" for x
  proof (cases "st t x = EVALUATING \<or> st t x = EVALUATED")
    case True
    then show ?thesis using b(1) by (auto simp: ev.base_def)
  next
    case False
    then have "st t x = st s x" using eval_frame(2) [OF b(2) s(1) dom, of x] by auto
    then show ?thesis using x s(2) eval_frame(4) [OF b(2) s(1) dom, of x]
      by (simp add: linked_ok_def numbered_def same_dfs_def)
  qed
  then show ?thesis using s(2) u eval_frame(5) [OF b(2) s(1) dom] by (simp add: linked_ok_def modules_tabs)
qed

lemma eval_evaluated_ok:
  assumes b: "ev.base h (tabs_of s) t"
    and u: "tabs_of u = tabs_of s" "\<And>x. st u x = EVALUATED \<longleftrightarrow> st t x = EVALUATED" "\<And>x. numbered u x = numbered t x"
  shows "evaluated_ok h u"
proof -
  have "numbered t x" if "st t x = EVALUATED" for x using b that by (simp add: ev.base_def)
  moreover have "st t r = EVALUATED" if d: "st t x = EVALUATED" "q \<in> set (t_requests (tabs_of s) x)"
    "HostResolveImportedModule h x q = Inr r" for x q r
  proof -
    have "r \<in> module_deps h (tabs_of s) x" using d by (auto simp: module_deps_def)
    then show ?thesis using b d(1) by (auto simp: ev.base_def)
  qed
  ultimately show ?thesis using u by (auto simp: evaluated_ok_def modules_tabs)
qed

lemma eval_walk:
  assumes g: "module_graph h (tabs_of s) D" "m \<in> D" "card D < fuel" "LINKED \<le> st s m"
    and s: "quiet s" "evaluated_ok h s" "stk s = []"
  shows "wpa (InnerModuleEvaluation h fuel m 0) (\<lambda>j. ev.post h (tabs_of s) D m s 0 j)
    (\<lambda>_. ev.err h (tabs_of s) D m s) (\<lambda>msg _. False) s"
proof -
  have dom: "eval_domain h (tabs_of s) D = D" using g by (simp add: eval_domain_def)
  have b: "ev.base h (tabs_of s) s" by (rule eval_base) (use s in simp_all)
  have "ev.fresh h (tabs_of s) D s \<le> card D"
    unfolding ev.fresh_def unfolding dom by (rule card_mono) (use g(1) in \<open>auto simp: module_graph_def\<close>)
  then have "ev.fresh h (tabs_of s) D s < fuel" using g(3) by simp
  then show ?thesis
    using ev.visit_correct [of h "tabs_of s" D fuel] b g(2,4) s(3) dom
    unfolding ev.visit_ok_def InnerModuleEvaluation_is_walk by (simp add: ev.srt_def)
qed

definition eval_state :: "'w mhost \<Rightarrow> mid set \<Rightarrow> 'w mstate \<Rightarrow> 'w mstate \<Rightarrow> bool" where
  "eval_state h D s t = (loader_ok h t \<and> evaluated_some D s t)"

lemma eval_returned:
  assumes p: "ev.post h (tabs_of s) D m s 0 j t" and s: "loader_ok h s" "stk s = []"
    and dom: "eval_domain h (tabs_of s) D = D"
  shows "st t m = EVALUATED \<and> stk t = [] \<and> loader_ok h t \<and> evaluated_some D s t"
proof -
  have q: "quiet s" "linked_ok h s" using s(1) by (simp_all add: loader_ok_def)
  obtain seg where seg: "stk t = seg" "seg \<noteq> [] \<longrightarrow> m \<in> set seg \<and> anc t m < ix t m \<and> ix t m = 0"
    and b: "ev.base h (tabs_of s) t" "ev.srt t j" "st t m \<in> {EVALUATING, EVALUATED}" "ev.frame h (tabs_of s) D s t"
    using p s(2) by (auto simp: ev.post_def)
  have nil: "stk t = []" using seg b(2) by (force simp: ev.srt_def)
  then have ne: "st t x \<noteq> EVALUATING" for x using b(1) by (simp add: ev.base_def)
  have T: "tabs_of t = tabs_of s" using b(1) by (simp add: ev.base_def)
  have "quiet t" using ne eval_frame(1) [OF b(4) q(1) dom] by (simp add: quiet_def)
  moreover have "linked_ok h t" by (rule eval_linked_ok [OF b(1,4) q dom T]) auto
  moreover have "evaluated_ok h t" by (rule eval_evaluated_ok [OF b(1) T]) auto
  moreover have "evaluated_some D s t" using eval_frame(2) [OF b(4) q(1) dom] ne by (simp add: evaluated_some_def)
  ultimately show ?thesis using nil ne b(3) by (auto simp: loader_ok_def)
qed

lemma eval_threw:
  assumes e: "ev.err h (tabs_of s) D m s t" and s: "loader_ok h s"
    and dom: "eval_domain h (tabs_of s) D = D"
  shows "loader_ok h (fail e (set (stk t)) t) \<and> failed_some D e s (fail e (set (stk t)) t)"
proof -
  let ?u = "fail e (set (stk t)) t"
  have q: "quiet s" "linked_ok h s" using s by (simp_all add: loader_ok_def)
  have b: "ev.base h (tabs_of s) t" "ev.frame h (tabs_of s) D s t" using e by (simp_all add: ev.err_def)
  have work: "st t x = EVALUATING \<longleftrightarrow> x \<in> set (stk t)" for x using b(1) by (simp add: ev.base_def)
  have "tabs_of t = tabs_of s" using b(1) by (simp add: ev.base_def)
  then have T: "tabs_of ?u = tabs_of s" by (simp add: tabs_of_def tables_def fun_eq_iff)
  have stu: "st ?u x = (if st t x = EVALUATING then EVALUATED_ERROR else st t x)" for x using work by simp
  have num: "numbered ?u x = numbered t x" for x by (simp add: numbered_def)
  have "linked_ok h ?u" by (rule eval_linked_ok [OF b q dom T _ num]) (simp only: stu, simp add: mstatus_le)
  moreover have "evaluated_ok h ?u" by (rule eval_evaluated_ok [OF b(1) T _ num]) (simp only: stu, simp)
  moreover have "quiet ?u" using eval_frame(1) [OF b(2) q(1) dom] by (auto simp: quiet_def stu work)
  moreover have "failed_some D e s ?u"
    unfolding failed_some_def
  proof
    fix x
    show "st ?u x = st s x \<or> x \<in> D \<and> st s x = LINKED \<and>
        (st ?u x = EVALUATED \<or> st ?u x = EVALUATED_ERROR \<and> evaluationError (modules ?u x) = Some e)"
      using eval_frame(2,3) [OF b(2) q(1) dom, of x] work [of x] by auto
  qed
  ultimately show ?thesis by (simp add: loader_ok_def)
qed

lemma wpa_ModuleEvaluate_failed:
  assumes e: "ev.err h (tabs_of s) D m s t" and s: "loader_ok h s" "stk s = []" "st s m \<in> {LINKED, EVALUATED_ERROR}"
    and dom: "eval_domain h (tabs_of s) D = D"
  shows "wpa (ModuleEvaluate_failed m error) Q
    (\<lambda>x t. loader_ok h t \<and> failed_some D x s t \<and> st t m = EVALUATED_ERROR) A t"
proof -
  note bad = eval_threw [OF e s(1) dom, of error]
  have q: "quiet s" using s(1) by (simp add: loader_ok_def)
  have b: "ev.base h (tabs_of s) t" "ev.frame h (tabs_of s) D s t" "st s m = LINKED \<longrightarrow> m \<in> set (stk t)"
    using e by (simp_all add: ev.err_def)
  have "distinct (stk t)" "\<forall>x \<in> set (stk t). st t x = EVALUATING" using b(1) by (simp_all add: ev.base_def)
  note r = fail_stack [OF this]
  have m: "m \<in> set (stk t) \<or> st t m = EVALUATED_ERROR"
  proof (cases "st s m = LINKED")
    case False
    then have "st s m = EVALUATED_ERROR" "st t m \<noteq> EVALUATING" using s(3) eval_frame(3) [OF b(2) q dom, of m] by auto
    then show ?thesis using eval_frame(2) [OF b(2) q dom, of m] by auto
  qed (use b(3) in simp)
  define u where "u = fail error (set (stk t)) t"
  have mu: "st u m = EVALUATED_ERROR" using m by (auto simp: u_def)
  have "stk u = stk t" by (simp add: u_def)
  then have "wpa (whenJ (stk t = []) (RecordModuleEvaluationError m error)) (\<lambda>_. wpa (bnd (get_module m) (\<lambda>mr.
     sq (asrt (status mr = EVALUATED_ERROR) ''Bad module status after failed evaluation'')
        (throw error))) Q (\<lambda>x t. loader_ok h t \<and> failed_some D x s t \<and> st t m = EVALUATED_ERROR) A)
       (\<lambda>x t. loader_ok h t \<and> failed_some D x s t \<and> st t m = EVALUATED_ERROR) A u"
    using mu bad [folded u_def] by (simp add: wpa_simps RecordModuleEvaluationError_def)
  then show ?thesis
    unfolding ModuleEvaluate_failed_def wpa_bnd wpa_gets wpa_sq by (intro wpa_mono [OF r]) (auto simp: u_def)
qed

text \<open>
  C4: evaluation. \<open>ModuleEvaluate\<close> on a linked module ends (if the modules' bodies do) without
  failing an assertion. When it returns, the module and all it requests are evaluated; when it
  throws, the module is in the error state, and every module whose evaluation had begun and not
  been completed records the thrown error. No module is left in the middle of evaluation.
\<close>

theorem ModuleEvaluate_correct:
  assumes g: "module_graph h (tabs_of s) D" "m \<in> D" "card D < fuel" and s: "loader_ok h s"
    and m: "LINKED \<le> st s m"
  shows "wpa (ModuleEvaluate h fuel m)
    (\<lambda>_ t. st t m = EVALUATED \<and> stk t = [] \<and> loader_ok h t \<and> evaluated_some D s t)
    (\<lambda>e t. st t m = EVALUATED_ERROR \<and> loader_ok h t \<and> failed_some D e s t)
    (\<lambda>_ _. False) s" (is "wpa _ ?Q ?E ?A s")
proof -
  define s0 where "s0 = s\<lparr>stk := []\<rparr>"
  have T: "tabs_of s0 = tabs_of s" by (simp add: s0_def tabs_of_def)
  have dom: "eval_domain h (tabs_of s0) D = D" using g T by (simp add: eval_domain_def)
  have ok: "loader_ok h s0" "stk s0 = []"
    using s by (simp_all add: s0_def loader_ok_def quiet_def linked_ok_def evaluated_ok_def numbered_def)
  have s0: "quiet s0" "evaluated_ok h s0" using ok by (simp_all add: loader_ok_def)
  have some: "evaluated_some D s0 = evaluated_some D s" "failed_some D e s0 = failed_some D e s" for e
    by (simp_all add: evaluated_some_def failed_some_def s0_def fun_eq_iff)
  have q: "st s m \<in> {LINKED, EVALUATED, EVALUATED_ERROR}"
    using m s quiet_done [of s m] by (simp add: loader_ok_def quiet_def)
  have "wpa (InnerModuleEvaluation h fuel m 0) (\<lambda>j. ev.post h (tabs_of s0) D m s0 0 j)
      (\<lambda>_. ev.err h (tabs_of s0) D m s0) ?A s0"
    by (rule eval_walk) (use g m T s0 ok in \<open>simp_all add: s0_def\<close>)
  moreover have "st s m \<in> {LINKED, EVALUATED_ERROR}" if "InnerModuleEvaluation h fuel m 0 s0 = (Throw e, t)" for e t
  proof (rule ccontr)
    assume "\<not> ?thesis"
    then have "st s0 m = EVALUATED" using q by (auto simp: s0_def)
    then show False using that by (cases fuel) (auto simp: bnd_get_module run_simps)
  qed
  ultimately have "wpa (InnerModuleEvaluation h fuel m 0) (\<lambda>j. ev.post h (tabs_of s0) D m s0 0 j)
      (\<lambda>_ t. ev.err h (tabs_of s0) D m s0 t \<and> st s m \<in> {LINKED, EVALUATED_ERROR}) ?A s0"
    by (auto simp: wpa_def split: prod.splits res.splits)
  then have "wpa (bnd (InnerModuleEvaluation h fuel m 0) (\<lambda>_. ret ())) (\<lambda>_. wpa (ModuleEvaluate_returns m) ?Q ?E ?A)
      (\<lambda>_ t. ev.err h (tabs_of s0) D m s0 t \<and> st s0 m \<in> {LINKED, EVALUATED_ERROR}) ?A s0"
    unfolding wpa_bnd
    by (rule wpa_mono) (use eval_returned [OF _ ok dom] some in \<open>auto simp: wpa_simps ModuleEvaluate_returns_def s0_def\<close>)
  then have "wpa (try_catch (bnd (InnerModuleEvaluation h fuel m 0) (\<lambda>_. ret ())) (ModuleEvaluate_failed m))
      (\<lambda>_. wpa (ModuleEvaluate_returns m) ?Q ?E ?A) ?E ?A s0"
    unfolding wpa_try_catch
    by (rule wpa_mono) (auto intro!: wpa_mono [OF wpa_ModuleEvaluate_failed [OF _ ok _ dom]] simp: some)
  then show ?thesis using q by (simp add: ModuleEvaluate_def wpa_simps s0_def)
qed

end
