(* ===== verification/ModuleOrder.thy ===== *)
theory ModuleOrder
  imports ModuleLink
begin

text \<open>
  The order of evaluation: a returned \<open>ModuleEvaluate\<close> has run the bodies of the modules in the
  depth-first post-order of the requests, each exactly once.
\<close>

section \<open>The reference order\<close>

text \<open>\<open>eval_order\<close> visits \<open>m\<close> unless it has been (\<open>V\<close>) and gives the modules in the order they finish.\<close>

fun eval_order :: "'w mhost \<Rightarrow> tabs \<Rightarrow> nat \<Rightarrow> mid \<Rightarrow> (mid \<Rightarrow> bool) \<Rightarrow> (mid \<Rightarrow> bool) \<times> mid list" where
  "eval_order h T 0 m V = (V, [])"
| "eval_order h T (Suc d) m V =
     (if V m then (V, [])
      else
        let (V', order) = fold (\<lambda>q (V, order). case HostResolveImportedModule h m q of
                Inl _ \<Rightarrow> (V, order)
              | Inr r \<Rightarrow> (let (V', order') = eval_order h T d r V in (V', order @ order')))
            (t_requests T m) (V(m := True), [])
        in (V', order @ [m]))"

primrec run_bodies :: "'w mhost \<Rightarrow> mid list \<Rightarrow> 'w \<Rightarrow> 'w" where
  "run_bodies h [] w = w"
| "run_bodies h (m # ms) w = run_bodies h ms (snd (run_module h m w))"

lemma run_bodies_append: "run_bodies h (xs @ ys) w = run_bodies h ys (run_bodies h xs w)"
  by (induction xs arbitrary: w) auto

text \<open>Each module that becomes visited is in the order, once.\<close>

definition order_ok :: "(mid \<Rightarrow> bool) \<Rightarrow> (mid \<Rightarrow> bool) \<times> mid list \<Rightarrow> bool" where
  "order_ok V c = (distinct (snd c) \<and> (\<forall>x. V x \<longrightarrow> fst c x) \<and> set (snd c) = {x. fst c x \<and> \<not> V x})"

lemma order_ok_append:
  assumes "order_ok V (V1, xs)" "order_ok V1 (V2, ys)"
  shows "order_ok V (V2, xs @ ys)"
  using assms by (auto simp: order_ok_def)

lemma eval_order_ok: "order_ok V (eval_order h T d m V)"
proof (induction d arbitrary: m V)
  case 0
  show ?case by (simp add: order_ok_def)
next
  case (Suc d)
  define f where "f = (\<lambda>q (V, order). case HostResolveImportedModule h m q of
      Inl _ \<Rightarrow> (V, order) | Inr r \<Rightarrow> (let (V', order') = eval_order h T d r V in (V', order @ order')))"
  have step: "order_ok V' (f q c)" if "order_ok V' c" for V' q c
    using that Suc.IH [of "fst c"] order_ok_append [of V' "fst c" "snd c"]
    by (cases c) (simp add: f_def case_prod_beta Let_def split: sum.split)
  have fold: "order_ok V' (fold f qs c)" if "order_ok V' c" for V' qs c
    using that by (induction qs arbitrary: c) (simp_all add: step)
  define c where "c = fold f (t_requests T m) (V(m := True), [])"
  have ok: "order_ok (V(m := True)) c" unfolding c_def by (rule fold) (simp add: order_ok_def)
  have mono: "V x \<or> x = m \<Longrightarrow> fst c x" for x using ok by (auto simp: order_ok_def)
  have "set (snd c) = {x. fst c x \<and> \<not> V x \<and> x \<noteq> m}" using ok by (auto simp: order_ok_def)
  then have "order_ok V (fst c, snd c @ [m])" if "\<not> V m"
    using that mono ok by (auto simp: order_ok_def)
  then show ?case by (simp add: order_ok_def f_def [symmetric] c_def [symmetric] case_prod_beta)
qed

text \<open>One request: the step of the fold of \<open>eval_order\<close>.\<close>

definition order_step :: "'w mhost \<Rightarrow> tabs \<Rightarrow> nat \<Rightarrow> mid \<Rightarrow> string \<Rightarrow> (mid \<Rightarrow> bool) \<times> mid list \<Rightarrow> (mid \<Rightarrow> bool) \<times> mid list" where
  "order_step h T d m q = (\<lambda>(V, order). case HostResolveImportedModule h m q of
      Inl _ \<Rightarrow> (V, order)
    | Inr r \<Rightarrow> (let (V', order') = eval_order h T d r V in (V', order @ order')))"

lemma eval_order_Suc: "eval_order h T (Suc d) m V =
    (if V m then (V, [])
     else let c = fold (order_step h T d m) (t_requests T m) (V(m := True), []) in (fst c, snd c @ [m]))"
  by (simp add: order_step_def [abs_def] case_prod_beta Let_def)

declare eval_order.simps(2) [simp del]

section \<open>Evaluation follows it\<close>

definition visited :: "'w mstate \<Rightarrow> mid \<Rightarrow> bool" where
  "visited s = (\<lambda>x. st s x \<noteq> LINKED)"

definition stack_visited :: "'w mstate \<Rightarrow> bool" where
  "stack_visited s = (\<forall>x \<in> set (stk s). visited s x)"

definition ordered :: "'w mhost \<Rightarrow> 'w mstate \<Rightarrow> (mid \<Rightarrow> bool) \<times> mid list \<Rightarrow> 'w mstate \<Rightarrow> bool" where
  "ordered h s c t = (tabs_of t = tabs_of s \<and> stack_visited t \<and> visited t = fst c \<and> world t = run_bodies h (snd c) (world s))"

lemma wlp_get_module [wlp_simps]: "wlp (get_module m) Q = (\<lambda>s. Q (modules s m) s)"
  by (simp add: get_module_def wlp_simps)

lemma wlp_upd_module [wlp_simps]: "wlp (upd_module m f) Q = (\<lambda>s. Q () (upd s m f))"
  by (simp add: upd_module_def upd_def wlp_simps)

lemma wlp_resolve: "wlp (CallModuleResolveHook h m q mn) Q s = (\<forall>r. HostResolveImportedModule h m q = Inr r \<longrightarrow> mn \<le> st s r \<longrightarrow> Q r s)"
  by (auto simp: CallModuleResolveHook_def wlp_simps split: sum.split)

text \<open>A change of a record that keeps what the order looks at.\<close>

definition same_view :: "'w mstate \<Rightarrow> 'w mstate \<Rightarrow> bool" where
  "same_view s t = (tabs_of t = tabs_of s \<and> visited t = visited s \<and> world t = world s \<and> set (stk t) \<subseteq> set (stk s))"

lemma ordered_view: "ordered h s c t \<Longrightarrow> same_view t u \<Longrightarrow> ordered h s c u"
  by (auto simp: ordered_def same_view_def stack_visited_def)

lemma same_view_trans: "same_view s t \<Longrightarrow> same_view t u \<Longrightarrow> same_view s u"
  by (auto simp: same_view_def)

lemma same_view_upd: "(\<And>r. tables (f r) = tables r) \<Longrightarrow> (status (f (modules s m)) = LINKED) = (st s m = LINKED) \<Longrightarrow> same_view s (upd s m f)"
  by (simp add: same_view_def tabs_of_def visited_def fun_eq_iff)

lemma wlp_pop_component:
  assumes "stack_visited s"
  shows "wlp (pop_component n m EVALUATED) (\<lambda>_ t. same_view s t) s"
  using assms
proof (induction n arbitrary: s)
  case 0
  show ?case by (simp add: pop_component.simps wlp_simps)
next
  case (Suc n)
  show ?case
  proof (cases "stk s = []")
    case True
    then show ?thesis by (simp add: pop_component.simps wlp_simps)
  next
    case False
    define t where "t = upd (s\<lparr>stk := butlast (stk s)\<rparr>) (last (stk s)) (\<lambda>r. r\<lparr>status := EVALUATED\<rparr>)"
    have "visited s (last (stk s))" using Suc.prems False by (simp add: stack_visited_def)
    then have v: "same_view s t" using in_set_butlastD
      by (fastforce simp: t_def same_view_def tabs_of_def tables_def visited_def fun_eq_iff)
    then have "stack_visited t" using Suc.prems by (auto simp: same_view_def stack_visited_def)
    from Suc.IH [OF this] have "wlp (pop_component n m EVALUATED) (\<lambda>_ u. same_view s u) t"
      by (rule wlp_mono) (rule same_view_trans [OF v])
    then show ?thesis using False v
      by (auto simp: pop_component.simps wlp_simps ModuleSetStatus_def t_def [symmetric])
  qed
qed

lemma ordered_step:
  assumes "ordered h s c t" "HostResolveImportedModule h m q = Inr r"
    and "ordered h t (eval_order h (tabs_of t) d r (visited t)) u"
  shows "ordered h s (order_step h (tabs_of s) d m q c) u"
  using assms by (simp add: ordered_def order_step_def run_bodies_append case_prod_beta Let_def)

lemma join_view: "wlp (join_ancestor m r) (\<lambda>_ u. same_view t u) t"
  by (simp add: join_ancestor_def wlp_simps same_view_upd tables_def)

lemma wlp_walk_join:
  assumes "ordered h s c t"
  shows "wlp (walk_join (evaluating h) m r j) (\<lambda>_. ordered h s c) t"
proof -
  have "wlp (join_ancestor m r) (\<lambda>_. ordered h s c) t"
    by (rule wlp_mono [OF join_view]) (rule ordered_view [OF assms])
  then show ?thesis using assms by (simp add: walk_join_def wlp_simps)
qed

lemma wlp_ExecuteModule: "wlp (ExecuteModule h m) (\<lambda>_ t. t = s\<lparr>world := snd (run_module h m (world s))\<rparr>) s"
  by (auto simp: wlp_def ExecuteModule_def in_world_def split: prod.splits option.splits)

lemma wlp_walk_close:
  assumes "ordered h s c t"
  shows "wlp (walk_close (evaluating h) m j) (\<lambda>_. ordered h s (fst c, snd c @ [m])) t"
proof -
  have "ordered h s (fst c, snd c @ [m]) (t\<lparr>world := snd (run_module h m (world t))\<rparr>)"
  proof -
    have "visited (t\<lparr>world := w\<rparr>) = visited t" "tabs_of (t\<lparr>world := w\<rparr>) = tabs_of t"
      "stack_visited (t\<lparr>world := w\<rparr>) = stack_visited t" for w
      by (simp_all add: stack_visited_def visited_def tabs_of_def)
    then show ?thesis using assms by (simp add: ordered_def run_bodies_append)
  qed
  note o = this
  have "stack_visited (t\<lparr>world := snd (run_module h m (world t))\<rparr>)" using o unfolding ordered_def by blast
  note pop = wlp_mono [OF wlp_pop_component [OF this] ordered_view [OF o]]
  have act: "w_action (evaluating h) m = ExecuteModule h m" by (simp add: evaluating_def)
  show ?thesis
    unfolding walk_close_def wlp_sq act
    by (rule wlp_mono [OF wlp_ExecuteModule]) (use pop o in \<open>auto simp: walk_pop_def wlp_simps\<close>)
qed

lemma wlp_visit:
  assumes "stack_visited s"
  shows "wlp (visit h (evaluating h) d m i) (\<lambda>_. ordered h s (eval_order h (tabs_of s) d m (visited s))) s"
  using assms
proof (induction d arbitrary: m i s)
  case 0
  show ?case by (simp add: wlp_simps)
next
  case (Suc d)
  show ?case
  proof (cases "st s m = LINKED")
    case False
    have "ordered h s (visited s, []) s" using Suc.prems by (simp add: ordered_def)
    then show ?thesis using False
      by (cases "st s m") (auto simp: eval_order_Suc visited_def evaluating_def wlp_simps GetModuleEvaluationError_def)
  next
    case True
    let ?T = "tabs_of s"
    let ?e = "ev.enter h m i s"
    let ?c = "((visited s)(m := True), [])"
    have start: "ordered h s ?c ?e"
      using Suc.prems by (auto simp: ordered_def ev.enter_def tabs_of_def tables_def stack_visited_def visited_def fun_eq_iff)
    have "wlp (for_list (t_requests ?T m) (walk_edge h (evaluating h) (visit h (evaluating h) d) m) (i + 1))
       (\<lambda>_. ordered h s (fold (order_step h ?T d m) (t_requests ?T m) ?c)) ?e"
    proof (rule wlp_for_list [where I = "\<lambda>ds _ _. ordered h s (fold (order_step h ?T d m) ds ?c)"])
      fix ds q rs j t assume o: "ordered h s (fold (order_step h ?T d m) ds ?c) t"
      have sv: "stack_visited t" using o by (simp add: ordered_def)
      have "wlp (visit h (evaluating h) d r j)
          (\<lambda>j. wlp (walk_join (evaluating h) m r j) (\<lambda>_. ordered h s (order_step h ?T d m q (fold (order_step h ?T d m) ds ?c)))) t"
        if "HostResolveImportedModule h m q = Inr r" for r
        by (rule wlp_mono [OF Suc.IH [OF sv]]) (rule wlp_walk_join [OF ordered_step [OF o that]])
      then show "wlp (walk_edge h (evaluating h) (visit h (evaluating h) d) m q j)
          (\<lambda>_. ordered h s (fold (order_step h ?T d m) (ds @ [q]) ?c)) t"
        by (simp add: walk_edge_def wlp_simps wlp_resolve)
    qed (use start in simp_all)
    then have "wlp (bnd (for_list (t_requests ?T m) (walk_edge h (evaluating h) (visit h (evaluating h) d) m) (i + 1)) (walk_close (evaluating h) m))
       (\<lambda>_. ordered h s (eval_order h ?T (Suc d) m (visited s))) ?e"
      unfolding wlp_bnd using True
      by (elim wlp_mono) (use wlp_walk_close in \<open>fastforce simp: eval_order_Suc Let_def visited_def\<close>)
    then show ?thesis using ev.enter_run [of s m h d i] True by (simp add: wlp_def modules_tabs)
  qed
qed

text \<open>
  C5: order of evaluation. When \<open>ModuleEvaluate\<close> returns, the world is the one that the bodies
  leave when run one after the other in depth-first post-order (a module after what it
  requests, cycles broken at the module entered first), and the modules run are exactly those
  that became evaluated, each once.
\<close>

theorem ModuleEvaluate_order:
  assumes g: "module_graph h (tabs_of s) D" "m \<in> D" "card D < fuel" and s: "loader_ok h s" "LINKED \<le> st s m"
    and r: "ModuleEvaluate h fuel m s = (Ret (), t)"
  shows "let order = snd (eval_order h (tabs_of s) fuel m (\<lambda>x. st s x \<noteq> LINKED)) in
    world t = run_bodies h order (world s) \<and> distinct order \<and> set order = {x. st s x = LINKED \<and> st t x = EVALUATED}"
proof -
  let ?c = "eval_order h (tabs_of s) fuel m (\<lambda>x. st s x \<noteq> LINKED)"
  define s0 where "s0 = s\<lparr>stk := []\<rparr>"
  have T: "tabs_of s0 = tabs_of s" "visited s0 = (\<lambda>x. st s x \<noteq> LINKED)" "world s0 = world s" "st s0 m = st s m"
    by (simp_all add: s0_def tabs_of_def visited_def)
  have "wlp (InnerModuleEvaluation h fuel m 0) (\<lambda>_. ordered h s0 ?c) s0"
  proof -
    have "stack_visited s0" by (simp add: stack_visited_def s0_def)
    from wlp_visit [OF this, of h fuel m 0] show ?thesis by (simp only: InnerModuleEvaluation_is_walk T)
  qed
  then have "wlp (bnd (InnerModuleEvaluation h fuel m 0) (\<lambda>_. ret ())) (\<lambda>_. ordered h s0 ?c) s0"
    by (simp add: wlp_simps)
  then have "wlp (try_catch (bnd (InnerModuleEvaluation h fuel m 0) (\<lambda>_. ret ())) (ModuleEvaluate_failed m)) (\<lambda>_. ordered h s0 ?c) s0"
    by (rule wlp_try_catch) (simp add: ModuleEvaluate_failed_def wlp_simps)
  then have "wlp (try_catch (bnd (InnerModuleEvaluation h fuel m 0) (\<lambda>_. ret ())) (ModuleEvaluate_failed m))
      (\<lambda>_. wlp (ModuleEvaluate_returns m) (\<lambda>_. ordered h s0 ?c)) s0"
    by (rule wlp_mono) (simp add: ModuleEvaluate_returns_def wlp_simps)
  then have "wlp (ModuleEvaluate h fuel m) (\<lambda>_. ordered h s0 ?c) s"
    by (simp add: ModuleEvaluate_def wlp_simps s0_def)
  then have o: "ordered h s0 ?c t" using r by (rule wlpD)
  have ok: "order_ok (\<lambda>x. st s x \<noteq> LINKED) ?c" by (rule eval_order_ok)
  have "evaluated_some D s t"
    using ModuleEvaluate_correct [OF g s] r by (simp add: wpa_def)
  then have some: "st t x = EVALUATED \<or> st t x = st s x" if "st t x \<noteq> st s x \<or> x = x" for x
    unfolding evaluated_some_def by blast
  have ev: "fst ?c x \<and> st s x = LINKED \<longleftrightarrow> st s x = LINKED \<and> st t x = EVALUATED" for x
  proof -
    have "fst ?c x = (st t x \<noteq> LINKED)" using o by (simp add: ordered_def visited_def fun_eq_iff)
    then show ?thesis using some [of x] by auto
  qed
  have "set (snd ?c) = {x. st s x = LINKED \<and> st t x = EVALUATED}" using ok ev by (auto simp: order_ok_def)
  then show ?thesis using o T ok by (simp add: ordered_def order_ok_def Let_def)
qed

end
