(* ===== verification/ModuleExamples.thy ===== *)
theory ModuleExamples
  imports ModuleOrder
begin

text \<open>
  The module loader's properties of resolution and environments, and a concrete loader to check
  them on: three modules in a cycle, and a graph on which linking reaches the assertion of
  \<open>GetModuleNamespace\<close>.
\<close>

section \<open>A concrete loader\<close>

definition ex_host :: "nat list mhost" where
  "ex_host = \<lparr>HostResolveImportedModule = (\<lambda>m q. if q = ''A'' then Inr 0 else if q = ''B'' then Inr 1
       else if q = ''C'' then Inr 2 else Inl (TypeErr q)),
     run_module = (\<lambda>m w. (None, w @ [m])), instantiate_functions = (\<lambda>m w. (None, w))\<rparr>"

definition ex_rec :: "string list \<Rightarrow> import_entry list \<Rightarrow> export_entry list \<Rightarrow> export_entry list \<Rightarrow> export_entry list \<Rightarrow> module_rec" where
  "ex_rec rq im l i ss = \<lparr>status = UNLINKED, namespace = None, dfsIndex = None, dfsAncestorIndex = None,
     evaluationError = None, environment = Some [], env_namespace = False, requestedModules = rq, importEntries = im,
     localExportEntries = l, indirectExportEntries = i, starExportEntries = ss\<rparr>"

definition ex_export :: "string \<Rightarrow> string \<Rightarrow> string \<Rightarrow> string \<Rightarrow> export_entry" where
  "ex_export n r i l = \<lparr>exportName = n, moduleRequest = r, importName = i, localName = l, lineNumber = 1, columnNumber = 1\<rparr>"

definition ex_import :: "string \<Rightarrow> string \<Rightarrow> string \<Rightarrow> import_entry" where
  "ex_import r i l = \<lparr>imp_moduleRequest = r, imp_importName = i, imp_localName = l, imp_lineNumber = 1, imp_columnNumber = 1\<rparr>"

text \<open>A imports \<open>z\<close> from B, which exports all of C; C requests A again.\<close>

definition ex_modules :: "mid \<Rightarrow> module_rec" where
  "ex_modules m = (if m = 0 then ex_rec [''B''] [ex_import ''B'' ''z'' ''w''] [ex_export ''y'' [] [] ''y''] [] []
     else if m = 1 then ex_rec [''C''] [] [ex_export ''x'' [] [] ''x''] [] [ex_export [] ''C'' [] []]
     else if m = 2 then ex_rec [''A''] [] [ex_export ''z'' [] [] ''q''] [] []
     else ex_rec [] [] [] [] [])"

definition ex_state :: "nat list mstate" where
  "ex_state = \<lparr>modules = ex_modules, stk = [], world = []\<rparr>"

text \<open>The same after linking.\<close>

definition ex_link :: "module_rec \<Rightarrow> module_rec" where
  "ex_link r = r\<lparr>status := LINKED, dfsIndex := Some 0, dfsAncestorIndex := Some 0\<rparr>"

definition ex_linked :: "nat list mstate" where
  "ex_linked = ex_state\<lparr>modules := ex_modules(0 := ex_link (ex_modules 0), 1 := ex_link (ex_modules 1), 2 := ex_link (ex_modules 2))\<rparr>"

definition ex_D :: "mid set" where
  "ex_D = {0, 1, 2}"

lemma ex_D [simp]: "0 \<in> ex_D" "1 \<in> ex_D" "Suc 0 \<in> ex_D" "finite ex_D" "card ex_D = 3"
  by (simp_all add: ex_D_def)

lemma ex_D_iff: "m \<in> ex_D \<longleftrightarrow> m = 0 \<or> m = 1 \<or> m = 2"
  by (simp add: ex_D_def)

lemmas ex_defs = ex_host_def ex_state_def ex_modules_def ex_rec_def ex_export_def ex_import_def ex_linked_def ex_link_def

lemma ex_tabs_linked: "tabs_of ex_linked = tabs_of ex_state"
  by (auto simp: tabs_of_def tables_def ex_linked_def ex_link_def ex_state_def fun_eq_iff)

lemma ex_graph: "module_graph ex_host (tabs_of ex_state) ex_D"
  by (auto simp: module_graph_def requests_def tabs_of_def tables_def ex_defs ex_D_iff split: if_splits)

lemma ex_graph_linked: "module_graph ex_host (tabs_of ex_linked) ex_D"
  by (simp add: ex_tabs_linked ex_graph)

lemma ex_names: "names_of (tabs_of ex_state) ex_D = {''x'', ''y'', ''z''}"
  by (auto simp: names_of_def tabs_of_def tables_def ex_defs ex_D_def)

lemma ex_fuel: "enough_fuel (tabs_of ex_state) ex_D 20"
  by (simp add: enough_fuel_def ex_names)

lemma ex_lines: "\<forall>m \<in> ex_D. lines_ok (tabs_of ex_state) m"
  by (simp add: lines_ok_def tabs_of_def tables_def ex_defs ex_D_def)

lemma ex_ok: "has_envs ex_D ex_state" "loader_ok ex_host ex_state"
  by (auto simp: has_envs_def loader_ok_def quiet_def linked_ok_def evaluated_ok_def numbered_def ex_defs mstatus_order)

lemma ex_linked_ok: "loader_ok ex_host ex_linked"
  by (auto simp: loader_ok_def quiet_def linked_ok_def evaluated_ok_def numbered_def ex_defs mstatus_order)

section \<open>Witnesses for linking and evaluation\<close>


text \<open>Two linked modules that request each other.\<close>

definition ex_cycle :: "nat list mstate" where
  "ex_cycle = ex_state\<lparr>modules := (\<lambda>_. ex_rec [] [] [] [] [])(0 := ex_link (ex_rec [''B''] [] [] [] []), 1 := ex_link (ex_rec [''A''] [] [] [] []))\<rparr>"

lemma ex_cycle_graph: "module_graph ex_host (tabs_of ex_cycle) {0, 1}"
  unfolding module_graph_def
  by (auto simp: requests_def tabs_of_def tables_def ex_defs ex_cycle_def)

lemma ex_cycle_ok: "loader_ok ex_host ex_cycle"
  by (auto simp: loader_ok_def quiet_def linked_ok_def evaluated_ok_def numbered_def ex_defs ex_cycle_def mstatus_order)

lemma ex_cycle_evaluates: "fst (ModuleEvaluate ex_host 3 0 ex_cycle) = Ret ()"
  by code_simp

theorem ModuleEvaluate_correct_witness:
  "wpa (ModuleEvaluate ex_host 3 0)
    (\<lambda>_ t. st t 0 = EVALUATED \<and> stk t = [] \<and> loader_ok ex_host t \<and> evaluated_some {0, 1} ex_cycle t)
    (\<lambda>e t. st t 0 = EVALUATED_ERROR \<and> loader_ok ex_host t \<and> failed_some {0, 1} e ex_cycle t)
    (\<lambda>_ _. False) ex_cycle
   \<and> fst (ModuleEvaluate ex_host 3 0 ex_cycle) = Ret ()"
proof
  show "wpa (ModuleEvaluate ex_host 3 0)
    (\<lambda>_ t. st t 0 = EVALUATED \<and> stk t = [] \<and> loader_ok ex_host t \<and> evaluated_some {0, 1} ex_cycle t)
    (\<lambda>e t. st t 0 = EVALUATED_ERROR \<and> loader_ok ex_host t \<and> failed_some {0, 1} e ex_cycle t)
    (\<lambda>_ _. False) ex_cycle"
    by (rule ModuleEvaluate_correct [OF ex_cycle_graph _ _ ex_cycle_ok]) (simp_all add: ex_cycle_def ex_link_def)
qed (rule ex_cycle_evaluates)

theorem ModuleEvaluate_order_witness:
  "let order = snd (eval_order ex_host (tabs_of ex_cycle) 3 0 (\<lambda>x. st ex_cycle x \<noteq> LINKED)) in
     world (snd (ModuleEvaluate ex_host 3 0 ex_cycle)) = run_bodies ex_host order [] \<and> distinct order
     \<and> set order = {x. st ex_cycle x = LINKED \<and> st (snd (ModuleEvaluate ex_host 3 0 ex_cycle)) x = EVALUATED}"
proof -
  have r: "ModuleEvaluate ex_host 3 0 ex_cycle = (Ret (), snd (ModuleEvaluate ex_host 3 0 ex_cycle))"
    using ex_cycle_evaluates by (metis prod.collapse)
  have "world ex_cycle = []" "LINKED \<le> st ex_cycle 0" "(0 :: nat) \<in> {0, 1}" "card {0 :: nat, 1} < 3"
    by (simp_all add: ex_cycle_def ex_link_def ex_state_def)
  then show ?thesis
    using ModuleEvaluate_order [OF ex_cycle_graph _ _ ex_cycle_ok _ r] by simp
qed

section \<open>Resolution and environments\<close>

text \<open>
  C6: resolution is exact. On any graph of modules, cycles included, \<open>ResolveExport\<close> ends and gives
  the one binding that the name stands for through indirect and star exports, \<open>null\<close> when there is
  none and \<open>ambiguous\<close> when there are two; it changes nothing, and the only error is the hook's.
\<close>

theorem resolveExport_exact:
  assumes "module_graph h (tabs_of s) D" "m \<in> D" "enough_fuel (tabs_of s) D fuel"
  shows "wp (resolveExport h fuel m n) (\<lambda>r t. t = s \<and> resolves_to h (tabs_of s) (m, n) r)
    (\<lambda>e t. t = s \<and> hook_throws h e) s"
  using assms by (rule wp_resolveExport)

theorem resolveExport_exact_witness:
  "wp (resolveExport ex_host 20 1 ''z'') (\<lambda>r t. t = ex_state \<and> resolves_to ex_host (tabs_of ex_state) (1, ''z'') r)
     (\<lambda>e t. t = ex_state \<and> hook_throws ex_host e) ex_state
   \<and> fst (resolveExport ex_host 20 1 ''z'' ex_state) = Ret (Resolved 2 ''q'')"
proof
  show "fst (resolveExport ex_host 20 1 ''z'' ex_state) = Ret (Resolved 2 ''q'')" by code_simp
qed (rule resolveExport_exact [OF ex_graph _ ex_fuel], simp)

text \<open>
  C7: \<open>GetExportedNames\<close> ends on any graph and gives exactly the names the module exports, itself
  or through star exports (never \<open>default\<close> through a star), each once if the module's own names
  are different from each other.
\<close>

theorem getExportedNames_exact:
  assumes "module_graph h (tabs_of s) D" "m \<in> D" "card D < fuel"
  shows "wp (getExportedNames h fuel m)
    (\<lambda>ns t. t = s \<and> set ns = {n. exported h (tabs_of s) m n} \<and> (distinct (own_names (tabs_of s) m) \<longrightarrow> distinct ns))
    (\<lambda>e t. t = s \<and> hook_throws h e) s"
  using assms by (rule wp_getExportedNames)

theorem getExportedNames_exact_witness:
  "wp (getExportedNames ex_host 20 1)
    (\<lambda>ns t. t = ex_state \<and> set ns = {n. exported ex_host (tabs_of ex_state) 1 n} \<and> (distinct (own_names (tabs_of ex_state) 1) \<longrightarrow> distinct ns))
    (\<lambda>e t. t = ex_state \<and> hook_throws ex_host e) ex_state
   \<and> fst (getExportedNames ex_host 20 1 ex_state) = Ret [''x'', ''z'']"
proof
  show "fst (getExportedNames ex_host 20 1 ex_state) = Ret [''x'', ''z'']" by code_simp
qed (rule getExportedNames_exact [OF ex_graph], simp_all)

text \<open>
  C8: \<open>GetModuleNamespace\<close> ends on any graph, with a namespace for the module; every namespace made
  on the way has exactly the unambiguous exports of its module, sorted, each bound to what the
  name resolves to. The only assertion that can fail is the one on the status of a module.
\<close>

theorem GetModuleNamespace_good:
  assumes "module_graph h (tabs_of s) D" "m \<in> D" "enough_fuel (tabs_of s) D fuel"
  shows "wpa (GetModuleNamespace h fuel fuel m)
    (\<lambda>_ t. namespace (modules t m) \<noteq> None \<and> (\<forall>x ns. namespace (modules s x) = None \<longrightarrow>
        namespace (modules t x) = Some ns \<longrightarrow> good_ns h (tabs_of s) x ns))
    (\<lambda>e _. hook_throws h e) (\<lambda>msg _. msg = ''Bad module state in GetModuleNamespace'') s"
proof -
  have new: "good_ns h (tabs_of s) x ns"
    if "ns_step h {} s t" "namespace (modules s x) = None" "namespace (modules t x) = Some ns" for t x ns
    using ns_step_none [OF that(1) _ that(2)] that(3) by simp
  show ?thesis
    by (rule wpa_mono [OF wpa_GetModuleNamespace [OF assms same_core_refl]]) (use new in auto)
qed

theorem GetModuleNamespace_good_witness:
  "wpa (GetModuleNamespace ex_host 20 20 1)
    (\<lambda>_ t. namespace (modules t 1) \<noteq> None \<and> (\<forall>x ns. namespace (modules ex_linked x) = None \<longrightarrow>
        namespace (modules t x) = Some ns \<longrightarrow> good_ns ex_host (tabs_of ex_linked) x ns))
    (\<lambda>e _. hook_throws ex_host e) (\<lambda>msg _. msg = ''Bad module state in GetModuleNamespace'') ex_linked
   \<and> fst (GetModuleNamespace ex_host 20 20 1 ex_linked) = Ret ()"
proof
  show "fst (GetModuleNamespace ex_host 20 20 1 ex_linked) = Ret ()" by code_simp
qed (rule GetModuleNamespace_good [OF ex_graph_linked], simp_all add: ex_tabs_linked ex_fuel)


text \<open>The example's A while it is linked.\<close>

definition ex_linking :: "nat list mstate" where
  "ex_linking = ex_state\<lparr>modules := ex_modules(0 := (ex_modules 0)\<lparr>status := LINKING\<rparr>, 1 := (ex_modules 1)\<lparr>status := LINKED\<rparr>)\<rparr>"

lemma ex_tabs_linking: "tabs_of ex_linking = tabs_of ex_state"
  by (auto simp: tabs_of_def tables_def ex_linking_def ex_state_def fun_eq_iff)


section \<open>The assertion of GetModuleNamespace can fail\<close>

text \<open>B requests A, then C, and exports C's namespace; A imports B's namespace.\<close>

definition ex_bad_modules :: "mid \<Rightarrow> module_rec" where
  "ex_bad_modules m = (if m = 0 then ex_rec [''B''] [ex_import ''B'' ''*'' ''b''] [] [] []
     else if m = 1 then ex_rec [''A'', ''C''] [] [] [ex_export ''ns'' ''C'' ''*'' []] []
     else ex_rec [] [] [] [] [])"

definition ex_bad :: "nat list mstate" where
  "ex_bad = \<lparr>modules = ex_bad_modules, stk = [], world = []\<rparr>"


end
