(* ===== verification/JSHost.thy ===== *)
theory JSHost
  imports JSValues
begin

text \<open>
  The engine that self-hosted functions run on: the object operations and intrinsics that they
  call are fields of a record, over an unknown world (heap, realms, user code behind proxies,
  getters and callbacks); what the language defines on top of them is defined here, with the
  abstract operations of Utilities.js.
\<close>

section \<open>The engine\<close>

text \<open>
  \<open>intrinsic\<close> calls an intrinsic function implemented natively, by name; \<open>has_class\<close> is the
  family of \<open>IsX\<close> and \<open>GuardToX\<close> tests on the class of an object.
\<close>

record 'w host =
  get_prop :: "val \<Rightarrow> key \<Rightarrow> ('w, exn, val) prog"
  set_prop :: "val \<Rightarrow> key \<Rightarrow> val \<Rightarrow> ('w, exn, unit) prog"
  has_prop :: "val \<Rightarrow> key \<Rightarrow> ('w, exn, bool) prog"
  del_prop :: "val \<Rightarrow> key \<Rightarrow> ('w, exn, unit) prog"
  define_data :: "val \<Rightarrow> key \<Rightarrow> val \<Rightarrow> ('w, exn, unit) prog"
  call_fn :: "val \<Rightarrow> val \<Rightarrow> val list \<Rightarrow> ('w, exn, val) prog"
  construct_fn :: "val \<Rightarrow> val list \<Rightarrow> ('w, exn, val) prog"
  callable :: "'w \<Rightarrow> val \<Rightarrow> bool"
  constructible :: "'w \<Rightarrow> val \<Rightarrow> bool"
  has_class :: "'w \<Rightarrow> string \<Rightarrow> val \<Rightarrow> bool"
  is_array :: "val \<Rightarrow> ('w, exn, bool) prog"
  wrap_prim :: "val \<Rightarrow> ('w, exn, val) prog"
  to_number_of :: "val \<Rightarrow> ('w, exn, num) prog"
  to_string_of :: "val \<Rightarrow> ('w, exn, jstr) prog"
  new_array :: "int \<Rightarrow> ('w, exn, val) prog"
  new_object :: "('w, exn, val) prog"
  get_slot :: "val \<Rightarrow> nat \<Rightarrow> ('w, exn, val) prog"
  set_slot :: "val \<Rightarrow> nat \<Rightarrow> val \<Rightarrow> ('w, exn, unit) prog"
  builtin :: "string \<Rightarrow> val"
  intrinsic :: "string \<Rightarrow> val list \<Rightarrow> ('w, exn, val) prog"

type_synonym ('w, 'a) jprog = "('w, exn, 'a) prog"

text \<open>\<open>arguments[i]\<close>, and a parameter, are \<open>undefined\<close> past the end.\<close>

definition arg :: "val list \<Rightarrow> nat \<Rightarrow> val" where
  "arg args i = (if i < length args then args ! i else Undef)"

lemma arg_Cons [simp]: "arg (v # vs) 0 = v" "arg (v # vs) (Suc i) = arg vs i" "arg [] i = Undef"
  by (simp_all add: arg_def)

lemma arg_Cons_numeral [simp]: "arg (v # vs) (numeral n) = arg vs (numeral n - 1)"
  by (simp add: arg_def nth_Cons')

abbreviation pstr :: "string \<Rightarrow> key" where
  "pstr s \<equiv> PStr (js s)"

abbreviation vstr :: "string \<Rightarrow> val" where
  "vstr s \<equiv> Str (js s)"

text \<open>The well-known symbols.\<close>

definition std_iterator :: key where "std_iterator = PSym 0"
definition std_species :: key where "std_species = PSym 1"
definition std_isConcatSpreadable :: key where "std_isConcatSpreadable = PSym 2"
definition std_match :: key where "std_match = PSym 3"
definition std_matchAll :: key where "std_matchAll = PSym 4"
definition std_replace :: key where "std_replace = PSym 5"
definition std_search :: key where "std_search = PSym 6"
definition std_split :: key where "std_split = PSym 7"

definition MAX_NUMERIC_INDEX :: int where
  "MAX_NUMERIC_INDEX = 2 ^ 53 - 1"

section \<open>Operations of the language\<close>

text \<open>\<open>V[P]\<close>, \<open>V[P] = x\<close> (strict code), \<open>P in O\<close>, \<open>delete O[P]\<close>.\<close>

definition Get :: "'w host \<Rightarrow> val \<Rightarrow> key \<Rightarrow> ('w, val) jprog" where
  "Get H v p = (if is_nullish v then throw (TypeErr ''JSMSG_UNEXPECTED_TYPE'') else get_prop H v p)"

definition Put :: "'w host \<Rightarrow> val \<Rightarrow> key \<Rightarrow> val \<Rightarrow> ('w, unit) jprog" where
  "Put H v p x = (if is_nullish v then throw (TypeErr ''JSMSG_UNEXPECTED_TYPE'') else set_prop H v p x)"

definition IsCallable :: "'w host \<Rightarrow> val \<Rightarrow> ('w, bool) jprog" where
  "IsCallable H v = gets (\<lambda>w. IsObject v \<and> callable H w v)"

definition IsConstructor :: "'w host \<Rightarrow> val \<Rightarrow> ('w, bool) jprog" where
  "IsConstructor H v = gets (\<lambda>w. IsObject v \<and> constructible H w v)"

definition HasClass :: "'w host \<Rightarrow> string \<Rightarrow> val \<Rightarrow> ('w, bool) jprog" where
  "HasClass H c v = gets (\<lambda>w. IsObject v \<and> has_class H w c v)"

text \<open>A call \<open>f.call(T, ...)\<close>, \<open>new f(...)\<close> of what may not be a function.\<close>

definition Call :: "'w host \<Rightarrow> val \<Rightarrow> val \<Rightarrow> val list \<Rightarrow> ('w, val) jprog" where
  "Call H f T args = bnd (IsCallable H f) (\<lambda>c.
     if c then call_fn H f T args else throw (TypeErr ''JSMSG_NOT_FUNCTION''))"

definition New :: "'w host \<Rightarrow> val \<Rightarrow> val list \<Rightarrow> ('w, val) jprog" where
  "New H f args = bnd (IsConstructor H f) (\<lambda>c.
     if c then construct_fn H f args else throw (TypeErr ''JSMSG_NOT_CONSTRUCTOR''))"

definition IsArray :: "'w host \<Rightarrow> val \<Rightarrow> ('w, bool) jprog" where
  "IsArray H v = (if IsObject v then is_array H v else ret False)"

text \<open>\<open>ToObject\<close>; unary plus; \<open>ToString\<close>. The parsing and printing of numbers is the engine's.\<close>

fun ToObject :: "'w host \<Rightarrow> val \<Rightarrow> ('w, val) jprog" where
  "ToObject H Undef = throw (TypeErr ''JSMSG_CANT_CONVERT_TO'')"
| "ToObject H Null = throw (TypeErr ''JSMSG_CANT_CONVERT_TO'')"
| "ToObject H (Obj n) = ret (Obj n)"
| "ToObject H v = wrap_prim H v"

fun ToNumber :: "'w host \<Rightarrow> val \<Rightarrow> ('w, num) jprog" where
  "ToNumber H Undef = ret NaN"
| "ToNumber H Null = ret (nint 0)"
| "ToNumber H (Bool b) = ret (nint (if b then 1 else 0))"
| "ToNumber H (Num n) = ret n"
| "ToNumber H (Sym s) = throw (TypeErr ''JSMSG_SYMBOL_TO_NUMBER'')"
| "ToNumber H (BigInt i) = throw (TypeErr ''JSMSG_BIGINT_TO_NUMBER'')"
| "ToNumber H v = to_number_of H v"

fun ToString :: "'w host \<Rightarrow> val \<Rightarrow> ('w, jstr) jprog" where
  "ToString H Undef = ret (js ''undefined'')"
| "ToString H Null = ret (js ''null'')"
| "ToString H (Bool b) = ret (js (if b then ''true'' else ''false''))"
| "ToString H (Str s) = ret s"
| "ToString H (Sym s) = throw (TypeErr ''JSMSG_SYMBOL_TO_STRING'')"
| "ToString H v = to_string_of H v"

text \<open>The longest string; the operator \<open>+\<close> on strings fails on a result that is too long.\<close>

definition MAX_STRING_LENGTH :: int where
  "MAX_STRING_LENGTH = 2 ^ 30 - 2"

definition StrCat :: "jstr \<Rightarrow> jstr \<Rightarrow> ('w, jstr) jprog" where
  "StrCat s t = (if MAX_STRING_LENGTH < int (length s + length t) then throw (InternalErr ''JSMSG_ALLOC_OVERFLOW'')
     else ret (s @ t))"

definition ToInteger :: "'w host \<Rightarrow> val \<Rightarrow> ('w, inum) jprog" where
  "ToInteger H v = bnd (ToNumber H v) (\<lambda>n. ret (num_to_integer n))"

definition ToLength :: "'w host \<Rightarrow> val \<Rightarrow> ('w, int) jprog" where
  "ToLength H v = bnd (ToNumber H v) (\<lambda>n. ret (num_to_length n))"

text \<open>\<open>ToLength(O.length)\<close>\<close>

definition LengthOf :: "'w host \<Rightarrow> val \<Rightarrow> ('w, int) jprog" where
  "LengthOf H ob = bnd (Get H ob (pstr ''length'')) (ToLength H)"

text \<open>An object literal, an array literal.\<close>

primrec define_all :: "'w host \<Rightarrow> val \<Rightarrow> (key \<times> val) list \<Rightarrow> ('w, unit) jprog" where
  "define_all H ob [] = ret ()"
| "define_all H ob (kv # kvs) = sq (define_data H ob (fst kv) (snd kv)) (define_all H ob kvs)"

definition ObjectLiteral :: "'w host \<Rightarrow> (key \<times> val) list \<Rightarrow> ('w, val) jprog" where
  "ObjectLiteral H kvs = bnd (new_object H) (\<lambda>ob. sq (define_all H ob kvs) (ret ob))"

definition ArrayLiteral :: "'w host \<Rightarrow> val list \<Rightarrow> ('w, val) jprog" where
  "ArrayLiteral H vs = bnd (new_array H 0) (\<lambda>A.
     sq (define_all H A (zip (map (\<lambda>i. PIdx (int i)) [0..<length vs]) vs)) (ret A))"

text \<open>
  A loop \<open>for (; k < n; k++)\<close> whose body may \<open>return\<close> a value of the function, with what comes
  after the loop; and one that only runs for its effects.
\<close>

definition loop_ret :: "int \<Rightarrow> int \<Rightarrow> (int \<Rightarrow> ('s, 'e, 'r option) prog) \<Rightarrow> ('s, 'e, 'r) prog \<Rightarrow> ('s, 'e, 'r) prog" where
  "loop_ret k n body after =
     bnd (for_up k n (\<lambda>k _. bnd (body k) (\<lambda>x. ret (case x of None \<Rightarrow> Inl () | Some r \<Rightarrow> Inr r))) ())
       (\<lambda>x. case x of Inl _ \<Rightarrow> after | Inr r \<Rightarrow> ret r)"

definition loop_ret_down :: "int \<Rightarrow> int \<Rightarrow> (int \<Rightarrow> ('s, 'e, 'r option) prog) \<Rightarrow> ('s, 'e, 'r) prog \<Rightarrow> ('s, 'e, 'r) prog" where
  "loop_ret_down k lo body after =
     bnd (for_down k lo (\<lambda>k _. bnd (body k) (\<lambda>x. ret (case x of None \<Rightarrow> Inl () | Some r \<Rightarrow> Inr r))) ())
       (\<lambda>x. case x of Inl _ \<Rightarrow> after | Inr r \<Rightarrow> ret r)"

definition for_acc_down :: "int \<Rightarrow> int \<Rightarrow> (int \<Rightarrow> 'c \<Rightarrow> ('s, 'e, 'c) prog) \<Rightarrow> 'c \<Rightarrow> ('s, 'e, 'c) prog" where
  "for_acc_down k lo body c =
     bnd (for_down k lo (\<lambda>k c. bnd (body k c) (\<lambda>c. ret (Inl c))) c) (\<lambda>x. case x of Inl c \<Rightarrow> ret c | Inr c \<Rightarrow> ret c)"

text \<open>An integer variable that starts at an integer or an infinity: a loop up to \<open>len\<close> runs as if
  it started at \<open>len\<close> when it starts at infinity.\<close>

fun start_at :: "int \<Rightarrow> inum \<Rightarrow> int" where
  "start_at len (IFin i) = i"
| "start_at len IPInf = len"
| "start_at len INInf = - 1"

text \<open>A native function that gives an integer.\<close>

definition int_value :: "val \<Rightarrow> int option" where
  "int_value v = (case v of
      Num n \<Rightarrow> (case num_to_integer n of IFin i \<Rightarrow> if n = nint i then Some i else None | _ \<Rightarrow> None)
    | _ \<Rightarrow> None)"

lemma int_value_vint [simp]: "int_value (vint i) = Some i" "int_value (Num (Fin 0)) = Some 0"
  by (simp_all add: int_value_def rat_trunc_def)

definition IntOf :: "('w, val) jprog \<Rightarrow> ('w, int) jprog" where
  "IntOf m = bnd m (\<lambda>v. case int_value v of
      Some i \<Rightarrow> ret i
    | None \<Rightarrow> sq (asrt False ''a native function gives an integer'') (ret 0))"

definition NativeInt :: "'w host \<Rightarrow> string \<Rightarrow> val list \<Rightarrow> ('w, int) jprog" where
  "NativeInt H name args = IntOf (intrinsic H name args)"

text \<open>A native function that gives a string.\<close>

definition StrOf :: "('w, val) jprog \<Rightarrow> ('w, jstr) jprog" where
  "StrOf m = bnd m (\<lambda>v. case v of
      Str s \<Rightarrow> ret s
    | _ \<Rightarrow> sq (asrt False ''a native function gives a string'') (ret []))"

text \<open>Elements at indices, as \<open>SPREAD\<close> reads them.\<close>

primrec get_all :: "'w host \<Rightarrow> val \<Rightarrow> int list \<Rightarrow> ('w, val list) jprog" where
  "get_all H ob [] = ret []"
| "get_all H ob (k # ks) = bnd (Get H ob (PIdx k)) (\<lambda>v. bnd (get_all H ob ks) (\<lambda>vs. ret (v # vs)))"

definition SPREAD :: "'w host \<Rightarrow> val \<Rightarrow> int \<Rightarrow> ('w, val list) jprog" where
  "SPREAD H ob n = get_all H ob [0..n - 1]"

section \<open>The iteration protocol\<close>

text \<open>
  \<open>for (var x of allowContentIter(iterable)) body\<close>, from the call that gives the iterator on: when
  the body throws, the iterator is closed and the body's exception goes on.
\<close>

definition ForOfClose :: "'w host \<Rightarrow> val \<Rightarrow> exn \<Rightarrow> ('w, 'a) jprog" where
  "ForOfClose H it e =
     sq (try_catch (bnd (Get H it (pstr ''return'')) (\<lambda>r.
            if is_nullish r then ret Undef else Call H r it [])) (\<lambda>_. ret Undef))
        (throw e)"

definition ForOf :: "'w host \<Rightarrow> nat \<Rightarrow> ('w, val) jprog \<Rightarrow> (val \<Rightarrow> 'c \<Rightarrow> ('w, 'c) jprog) \<Rightarrow> 'c \<Rightarrow> ('w, 'c) jprog" where
  "ForOf H fuel getIterator body c =
     bnd getIterator (\<lambda>it.
     if \<not> IsObject it then throw (TypeErr ''JSMSG_GET_ITER_RETURNED_PRIMITIVE'')
     else
       bnd (Get H it (pstr ''next'')) (\<lambda>next.
       loop_fuel fuel (\<lambda>c.
         bnd (Call H next it []) (\<lambda>result.
         if \<not> IsObject result then throw (TypeErr ''JSMSG_ITER_METHOD_RETURNED_PRIMITIVE'')
         else
           bnd (Get H result (pstr ''done'')) (\<lambda>d.
           if truthy d then ret (Inr c)
           else
             bnd (Get H result (pstr ''value'')) (\<lambda>v.
             bnd (try_catch (body v c) (ForOfClose H it)) (\<lambda>c. ret (Inl c)))))) c))"

section \<open>Utilities.js\<close>

definition ToBoolean :: "val \<Rightarrow> bool" where
  "ToBoolean v = truthy v"

definition SameValueZero :: "val \<Rightarrow> val \<Rightarrow> bool" where
  "SameValueZero x y = (strict_eq x y \<or> (\<not> strict_eq x x \<and> \<not> strict_eq y y))"

definition IsPropertyKey :: "val \<Rightarrow> bool" where
  "IsPropertyKey argument = (case argument of Str _ \<Rightarrow> True | Sym _ \<Rightarrow> True | _ \<Rightarrow> False)"

definition GetMethod :: "'w host \<Rightarrow> val \<Rightarrow> key \<Rightarrow> ('w, val) jprog" where
  "GetMethod H V P =
     bnd (Get H V P) (\<lambda>func.
     if is_nullish func then ret Undef
     else bnd (IsCallable H func) (\<lambda>c.
       if \<not> c then throw (TypeErr ''JSMSG_NOT_FUNCTION'') else ret func))"

text \<open>The cache of constructors gives what the engine gives, so it is not kept apart.\<close>

definition GetBuiltinConstructor :: "'w host \<Rightarrow> string \<Rightarrow> ('w, val) jprog" where
  "GetBuiltinConstructor H builtinName =
     sq (asrt (truthy (builtin H builtinName)) ''No builtin with that name found'') (ret (builtin H builtinName))"

definition GetBuiltinPrototype :: "'w host \<Rightarrow> string \<Rightarrow> ('w, val) jprog" where
  "GetBuiltinPrototype H builtinName =
     bnd (GetBuiltinConstructor H builtinName) (\<lambda>c. Get H c (pstr ''prototype''))"

definition SpeciesConstructor :: "'w host \<Rightarrow> val \<Rightarrow> val \<Rightarrow> ('w, val) jprog" where
  "SpeciesConstructor H obj defaultConstructor =
     sq (asrt (IsObject obj) ''not passed an object'')
    (bnd (Get H obj (pstr ''constructor'')) (\<lambda>ctor.
     if ctor = Undef then ret defaultConstructor
     else if \<not> IsObject ctor then throw (TypeErr ''JSMSG_OBJECT_REQUIRED'')
     else
       bnd (Get H ctor std_species) (\<lambda>s.
       if is_nullish s then ret defaultConstructor
       else bnd (IsConstructor H s) (\<lambda>c.
         if c then ret s else throw (TypeErr ''JSMSG_NOT_CONSTRUCTOR'')))))"

text \<open>
  \<open>CopyDataProperties\<close>: the native part has either copied everything (\<open>None\<close>) or gives the keys
  that are left to copy. \<open>hasOwn\<close> and \<open>propertyIsEnumerable\<close> are intrinsics.
\<close>

fun key_val :: "key \<Rightarrow> val" where
  "key_val (PIdx i) = vint i"
| "key_val (PStr s) = Str s"
| "key_val (PSym n) = Sym n"

definition CopyDataProperties_key :: "'w host \<Rightarrow> val \<Rightarrow> val \<Rightarrow> val option \<Rightarrow> key \<Rightarrow> ('w, unit) jprog" where
  "CopyDataProperties_key H target frm excludedItems p =
     bnd (case excludedItems of
            None \<Rightarrow> ret False
          | Some ex \<Rightarrow> bnd (intrinsic H ''hasOwn'' [key_val p, ex]) (\<lambda>b. ret (truthy b))) (\<lambda>excluded.
     if excluded then ret ()
     else
       bnd (intrinsic H ''std_Object_propertyIsEnumerable'' [frm, key_val p]) (\<lambda>e.
       if truthy e then bnd (Get H frm p) (define_data H target p) else ret ()))"

definition CopyDataProperties :: "'w host \<Rightarrow> (val \<Rightarrow> val \<Rightarrow> val \<Rightarrow> ('w, key list option) jprog) \<Rightarrow> val \<Rightarrow> val \<Rightarrow> val \<Rightarrow> ('w, unit) jprog" where
  "CopyDataProperties H CopyDataPropertiesOrGetOwnKeys target source excludedItems =
     sq (asrt (IsObject target) ''target is an object'')
    (sq (asrt (IsObject excludedItems) ''excludedItems is an object'')
    (if is_nullish source then ret ()
     else
       bnd (ToObject H source) (\<lambda>frm.
       bnd (CopyDataPropertiesOrGetOwnKeys target frm excludedItems) (\<lambda>keys.
       case keys of
         None \<Rightarrow> ret ()
       | Some ks \<Rightarrow> for_list ks (\<lambda>p _. CopyDataProperties_key H target frm (Some excludedItems) p) ()))))"

definition CopyDataPropertiesUnfiltered :: "'w host \<Rightarrow> (val \<Rightarrow> val \<Rightarrow> val \<Rightarrow> ('w, key list option) jprog) \<Rightarrow> val \<Rightarrow> val \<Rightarrow> ('w, unit) jprog" where
  "CopyDataPropertiesUnfiltered H CopyDataPropertiesOrGetOwnKeys target source =
     sq (asrt (IsObject target) ''target is an object'')
    (if is_nullish source then ret ()
     else
       bnd (ToObject H source) (\<lambda>frm.
       bnd (CopyDataPropertiesOrGetOwnKeys target frm Null) (\<lambda>keys.
       case keys of
         None \<Rightarrow> ret ()
       | Some ks \<Rightarrow> for_list ks (\<lambda>p _. CopyDataProperties_key H target frm None p) ())))"

text \<open>\<open>GetTypeError\<close> and its like give the error that throwing makes.\<close>

definition GetTypeError :: "string \<Rightarrow> ('w, exn) jprog" where
  "GetTypeError msg = try_catch (sq (throw (TypeErr msg)) (ret (TypeErr msg))) ret"

definition GetInternalError :: "string \<Rightarrow> ('w, exn) jprog" where
  "GetInternalError msg = try_catch (sq (throw (InternalErr msg)) (ret (InternalErr msg))) ret"

section \<open>Lemmas on the loops\<close>

lemma loop_ret_none:
  assumes "\<And>k. lo \<le> k \<Longrightarrow> k < n \<Longrightarrow> body k s = (Ret None, s)"
  shows "loop_ret lo n body after s = after s"
proof -
  have "for_up k n (\<lambda>k _. bnd (body k) (\<lambda>x. ret (case x of None \<Rightarrow> Inl () | Some r \<Rightarrow> Inr r))) () s = (Ret (Inl ()), s)"
    if "lo \<le> k" for k
    using that
  proof (induction "nat (n - k)" arbitrary: k rule: less_induct)
    case less
    then show ?case by (cases "k < n") (simp_all add: for_up_step for_up_done assms run_simps)
  qed
  from this [of lo] show ?thesis by (simp add: loop_ret_def run_simps)
qed

lemma loop_ret_step:
  "k < n \<Longrightarrow> loop_ret k n body after =
     bnd (body k) (\<lambda>x. case x of None \<Rightarrow> loop_ret (k + 1) n body after | Some r \<Rightarrow> ret r)"
  by (auto simp: loop_ret_def for_up_step bnd_assoc fun_eq_iff bnd_def ret_def split: prod.splits res.splits option.splits)

lemma loop_ret_done: "n \<le> k \<Longrightarrow> loop_ret k n body after = after"
  by (simp add: loop_ret_def for_up_done)

lemma loop_ret_down_step:
  "lo \<le> k \<Longrightarrow> loop_ret_down k lo body after =
     bnd (body k) (\<lambda>x. case x of None \<Rightarrow> loop_ret_down (k - 1) lo body after | Some r \<Rightarrow> ret r)"
  by (auto simp: loop_ret_down_def for_down_step bnd_assoc fun_eq_iff bnd_def ret_def split: prod.splits res.splits option.splits)

lemma loop_ret_down_done: "k < lo \<Longrightarrow> loop_ret_down k lo body after = after"
  by (simp add: loop_ret_down_def for_down_done)

lemma loop_ret_found:
  assumes "lo \<le> j" "j < n" "\<And>k. lo \<le> k \<Longrightarrow> k < j \<Longrightarrow> body k s = (Ret None, s)" "body j s = (Ret (Some r), t)"
  shows "loop_ret lo n body after s = (Ret r, t)"
proof -
  have "loop_ret k n body after s = (Ret r, t)" if "lo \<le> k" "k \<le> j" for k
    using that
  proof (induction "nat (j - k)" arbitrary: k rule: less_induct)
    case less
    then show ?case
      by (cases "k = j") (use assms in \<open>simp_all add: loop_ret_step run_simps\<close>)
  qed
  from this [of lo] assms(1) show ?thesis by simp
qed

lemma loop_ret_down_none:
  assumes "\<And>k. lo \<le> k \<Longrightarrow> k \<le> hi \<Longrightarrow> body k s = (Ret None, s)"
  shows "loop_ret_down hi lo body after s = after s"
proof -
  have "loop_ret_down k lo body after s = after s" if "k \<le> hi" for k
    using that
  proof (induction "nat (k - lo + 1)" arbitrary: k rule: less_induct)
    case less
    then show ?case
      by (cases "lo \<le> k") (use assms in \<open>simp_all add: loop_ret_down_step loop_ret_down_done run_simps\<close>)
  qed
  then show ?thesis by simp
qed

lemma loop_ret_down_found:
  assumes "lo \<le> j" "j \<le> hi" "\<And>k. j < k \<Longrightarrow> k \<le> hi \<Longrightarrow> body k s = (Ret None, s)" "body j s = (Ret (Some r), t)"
  shows "loop_ret_down hi lo body after s = (Ret r, t)"
proof -
  have "loop_ret_down k lo body after s = (Ret r, t)" if "j \<le> k" "k \<le> hi" for k
    using that
  proof (induction "nat (k - j)" arbitrary: k rule: less_induct)
    case less
    then show ?case
      by (cases "k = j") (use assms in \<open>simp_all add: loop_ret_down_step run_simps\<close>)
  qed
  from this [of hi] assms(2) show ?thesis by simp
qed

text \<open>A search with a body that changes nothing finds the first index with the property.\<close>

lemma find_upto: "lo \<le> n \<Longrightarrow> find P [lo..n] = (if P lo then Some lo else find P [lo + 1..n])"
  by (simp add: upto_rec1)

lemma loop_ret_find:
  assumes "\<And>k. lo \<le> k \<Longrightarrow> k < n \<Longrightarrow> body k s = (Ret (if P k then Some (g k) else None), s)"
  shows "loop_ret lo n body after s = (case find P [lo..n - 1] of Some k \<Rightarrow> (Ret (g k), s) | None \<Rightarrow> after s)"
proof -
  have "loop_ret k n body after s = (case find P [k..n - 1] of Some k \<Rightarrow> (Ret (g k), s) | None \<Rightarrow> after s)" if "lo \<le> k" for k
    using that
  proof (induction "nat (n - k)" arbitrary: k rule: less_induct)
    case less
    then show ?case
      by (cases "k < n") (auto simp: loop_ret_step loop_ret_done run_simps assms find_upto)
  qed
  then show ?thesis by simp
qed

lemma find_const: "(case find P xs of Some _ \<Rightarrow> a | None \<Rightarrow> b) = (if \<exists>x \<in> set xs. P x then a else b)"
  by (induction xs) auto

lemma loop_ret_down_find:
  assumes "\<And>k. lo \<le> k \<Longrightarrow> k \<le> hi \<Longrightarrow> body k s = (Ret (if P k then Some (g k) else None), s)"
  shows "loop_ret_down hi lo body after s = (case find P (rev [lo..hi]) of Some k \<Rightarrow> (Ret (g k), s) | None \<Rightarrow> after s)"
proof -
  have "loop_ret_down k lo body after s = (case find P (rev [lo..k]) of Some k \<Rightarrow> (Ret (g k), s) | None \<Rightarrow> after s)" if "k \<le> hi" for k
    using that
  proof (induction "nat (k - lo + 1)" arbitrary: k rule: less_induct)
    case less
    then show ?case
      by (cases "lo \<le> k") (auto simp: loop_ret_down_step loop_ret_down_done run_simps assms upto_rec2)
  qed
  then show ?thesis by simp
qed

text \<open>\<open>SameValueZero\<close> is an equivalence, and differs from \<open>===\<close> only on NaN.\<close>

lemma SameValueZero_refl [simp]: "SameValueZero x x"
  by (simp add: SameValueZero_def)

lemma SameValueZero_strict: "x \<noteq> Num NaN \<Longrightarrow> SameValueZero x y = strict_eq x y"
  by (auto simp: SameValueZero_def strict_eq_refl)

section \<open>Programs that respect a relation between the states\<close>

definition evolves :: "('w \<Rightarrow> 'w \<Rightarrow> bool) \<Rightarrow> ('w, 'a) jprog \<Rightarrow> bool" where
  "evolves R m = (\<forall>w r w'. m w = (r, w') \<longrightarrow> R w w')"

lemma evolvesD: "evolves R m \<Longrightarrow> m w = (r, w') \<Longrightarrow> R w w'"
  by (auto simp: evolves_def)

lemma evolves_basic [intro]:
  assumes "reflp R"
  shows "evolves R (ret a)" "evolves R (throw e)" "evolves R (gets f)" "evolves R (asrt b msg)"
  using assms by (auto simp: evolves_def ret_def throw_def gets_def asrt_def reflp_def split: if_splits)

lemma evolves_bnd:
  assumes "transp R" "evolves R m" "\<And>a. evolves R (f a)"
  shows "evolves R (bnd m f)"
  using assms unfolding evolves_def bnd_def transp_def
  by (fastforce split: prod.splits res.splits)

lemma evolves_sq: "transp R \<Longrightarrow> evolves R m \<Longrightarrow> evolves R n \<Longrightarrow> evolves R (sq m n)"
  unfolding sq_def by (rule evolves_bnd)

lemma evolves_mono: "evolves R m \<Longrightarrow> (\<And>w w'. R w w' \<Longrightarrow> S w w') \<Longrightarrow> evolves S m"
  by (auto simp: evolves_def)

lemma evolves_try_catch:
  assumes "transp R" "evolves R m" "\<And>e. evolves R (h e)"
  shows "evolves R (try_catch m h)"
  using assms unfolding evolves_def try_catch_def transp_def
  by (fastforce split: prod.splits res.splits)

lemma evolves_no_fuel: "reflp R \<Longrightarrow> evolves R no_fuel"
  by (auto simp: evolves_def no_fuel_def reflp_def)

lemma evolves_loop_fuel:
  assumes "reflp R" "transp R" "\<And>c. evolves R (body c)"
  shows "evolves R (loop_fuel fuel body c)"
proof (induction fuel arbitrary: c)
  case 0
  then show ?case using evolves_no_fuel [OF assms(1)] by simp
next
  case (Suc fuel)
  have "evolves R (case x of Inl c' \<Rightarrow> loop_fuel fuel body c' | Inr r \<Rightarrow> ret r)" for x
    using Suc evolves_basic(1) [OF assms(1)] by (cases x) simp_all
  then show ?case by (simp add: evolves_bnd [OF assms(2,3)])
qed

end
