(* ===== verification/ArrayBuiltins.thy ===== *)
theory ArrayBuiltins
  imports JSHost SortMergeTop
begin

text \<open>
  The array methods of Array.js, over any engine: searching, iteration with callbacks, reduction,
  \<open>copyWithin\<close>, \<open>fill\<close>, array iterators, \<open>Array.from\<close>, species, \<open>concat\<close>, \<open>flat\<close>, and \<open>sort\<close> on
  top of \<open>MergeSort\<close>.
\<close>

section \<open>Searching\<close>

text \<open>The bodies of the loops: one index is looked at.\<close>

definition index_probe :: "'w host \<Rightarrow> val \<Rightarrow> val \<Rightarrow> int \<Rightarrow> ('w, val option) jprog" where
  "index_probe H ob searchElement k =
     bnd (has_prop H ob (PIdx k)) (\<lambda>present.
     if present then bnd (Get H ob (PIdx k)) (\<lambda>v. ret (if strict_eq v searchElement then Some (vint k) else None))
     else ret None)"

definition includes_probe :: "'w host \<Rightarrow> val \<Rightarrow> val \<Rightarrow> int \<Rightarrow> ('w, val option) jprog" where
  "includes_probe H ob searchElement k =
     bnd (Get H ob (PIdx k)) (\<lambda>v. ret (if SameValueZero searchElement v then Some (Bool True) else None))"

definition ArrayIndexOf :: "'w host \<Rightarrow> val \<Rightarrow> val list \<Rightarrow> ('w, val) jprog" where
  "ArrayIndexOf H this args =
     bnd (ToObject H this) (\<lambda>ob.
     bnd (LengthOf H ob) (\<lambda>len.
     if len = 0 then ret (vint (- 1))
     else
       bnd (if 1 < length args then ToInteger H (arg args 1) else ret (IFin 0)) (\<lambda>n.
       if IFin len \<le> n then ret (vint (- 1))
       else
         let k = (if IFin 0 \<le> n then n else let k = iplus len n in if k < IFin 0 then IFin 0 else k) in
         loop_ret (start_at len k) len
           (index_probe H ob (arg args 0))
           (ret (vint (- 1))))))"

definition ArrayLastIndexOf :: "'w host \<Rightarrow> val \<Rightarrow> val list \<Rightarrow> ('w, val) jprog" where
  "ArrayLastIndexOf H this args =
     bnd (ToObject H this) (\<lambda>ob.
     bnd (LengthOf H ob) (\<lambda>len.
     if len = 0 then ret (vint (- 1))
     else
       bnd (if 1 < length args then ToInteger H (arg args 1) else ret (IFin (len - 1))) (\<lambda>n.
       let k = (if IFin (len - 1) < n then IFin (len - 1) else if n < IFin 0 then iplus len n else n) in
       loop_ret_down (start_at len k) 0
         (index_probe H ob (arg args 0))
         (ret (vint (- 1))))))"

definition ArrayIncludes :: "'w host \<Rightarrow> val \<Rightarrow> val list \<Rightarrow> ('w, val) jprog" where
  "ArrayIncludes H this args =
     bnd (ToObject H this) (\<lambda>ob.
     bnd (LengthOf H ob) (\<lambda>len.
     if len = 0 then ret (Bool False)
     else
       bnd (ToInteger H (if arg args 1 = Undef then vint 0 else arg args 1)) (\<lambda>n.
       let k = (if IFin 0 \<le> n then n else let k = iplus len n in if k < IFin 0 then IFin 0 else k) in
       loop_ret (start_at len k) len
         (includes_probe H ob (arg args 0))
         (ret (Bool False)))))"

section \<open>Callbacks\<close>

text \<open>The two checks that every method with a callback starts with.\<close>

definition CheckCallback :: "'w host \<Rightarrow> val list \<Rightarrow> ('w, unit) jprog" where
  "CheckCallback H args =
     (if args = [] then throw (TypeErr ''JSMSG_MISSING_FUN_ARG'')
      else bnd (IsCallable H (arg args 0)) (\<lambda>c. if \<not> c then throw (TypeErr ''JSMSG_NOT_FUNCTION'') else ret ()))"

text \<open>The bodies of the loops.\<close>

definition every_probe :: "'w host \<Rightarrow> val \<Rightarrow> val \<Rightarrow> val \<Rightarrow> int \<Rightarrow> ('w, val option) jprog" where
  "every_probe H f T ob k =
     bnd (has_prop H ob (PIdx k)) (\<lambda>present.
     if present then
       bnd (Get H ob (PIdx k)) (\<lambda>v.
       bnd (Call H f T [v, vint k, ob]) (\<lambda>r. ret (if \<not> truthy r then Some (Bool False) else None)))
     else ret None)"

definition some_probe :: "'w host \<Rightarrow> val \<Rightarrow> val \<Rightarrow> val \<Rightarrow> int \<Rightarrow> ('w, val option) jprog" where
  "some_probe H f T ob k =
     bnd (has_prop H ob (PIdx k)) (\<lambda>present.
     if present then
       bnd (Get H ob (PIdx k)) (\<lambda>v.
       bnd (Call H f T [v, vint k, ob]) (\<lambda>r. ret (if truthy r then Some (Bool True) else None)))
     else ret None)"

definition forEach_step :: "'w host \<Rightarrow> val \<Rightarrow> val \<Rightarrow> val \<Rightarrow> int \<Rightarrow> ('w, unit) jprog" where
  "forEach_step H f T ob k =
     bnd (has_prop H ob (PIdx k)) (\<lambda>present.
     if present then bnd (Get H ob (PIdx k)) (\<lambda>v. sq (Call H f T [v, vint k, ob]) (ret ()))
     else ret ())"

definition find_probe :: "'w host \<Rightarrow> val \<Rightarrow> val \<Rightarrow> val \<Rightarrow> int \<Rightarrow> ('w, val option) jprog" where
  "find_probe H f T ob k =
     bnd (Get H ob (PIdx k)) (\<lambda>kValue.
     bnd (Call H f T [kValue, vint k, ob]) (\<lambda>r. ret (if truthy r then Some kValue else None)))"

definition findIndex_probe :: "'w host \<Rightarrow> val \<Rightarrow> val \<Rightarrow> val \<Rightarrow> int \<Rightarrow> ('w, val option) jprog" where
  "findIndex_probe H f T ob k =
     bnd (Get H ob (PIdx k)) (\<lambda>v.
     bnd (Call H f T [v, vint k, ob]) (\<lambda>r. ret (if truthy r then Some (vint k) else None)))"

definition ArrayEvery :: "'w host \<Rightarrow> val \<Rightarrow> val list \<Rightarrow> ('w, val) jprog" where
  "ArrayEvery H this args =
     bnd (ToObject H this) (\<lambda>ob.
     bnd (LengthOf H ob) (\<lambda>len.
     sq (CheckCallback H args)
    (let T = arg args 1 in
     loop_ret 0 len
       (every_probe H (arg args 0) T ob)
       (ret (Bool True)))))"

definition ArraySome :: "'w host \<Rightarrow> val \<Rightarrow> val list \<Rightarrow> ('w, val) jprog" where
  "ArraySome H this args =
     bnd (ToObject H this) (\<lambda>ob.
     bnd (LengthOf H ob) (\<lambda>len.
     sq (CheckCallback H args)
    (let T = arg args 1 in
     loop_ret 0 len
       (some_probe H (arg args 0) T ob)
       (ret (Bool False)))))"

definition ArrayForEach :: "'w host \<Rightarrow> val \<Rightarrow> val list \<Rightarrow> ('w, val) jprog" where
  "ArrayForEach H this args =
     bnd (ToObject H this) (\<lambda>ob.
     bnd (LengthOf H ob) (\<lambda>len.
     sq (CheckCallback H args)
    (let T = arg args 1 in
     sq (for_each 0 len
       (forEach_step H (arg args 0) T ob))
       (ret Undef))))"

definition ArrayFind :: "'w host \<Rightarrow> val \<Rightarrow> val list \<Rightarrow> ('w, val) jprog" where
  "ArrayFind H this args =
     bnd (ToObject H this) (\<lambda>ob.
     bnd (LengthOf H ob) (\<lambda>len.
     sq (CheckCallback H args)
    (let T = arg args 1 in
     loop_ret 0 len
       (find_probe H (arg args 0) T ob)
       (ret Undef))))"

definition ArrayFindIndex :: "'w host \<Rightarrow> val \<Rightarrow> val list \<Rightarrow> ('w, val) jprog" where
  "ArrayFindIndex H this args =
     bnd (ToObject H this) (\<lambda>ob.
     bnd (LengthOf H ob) (\<lambda>len.
     sq (CheckCallback H args)
    (let T = arg args 1 in
     loop_ret 0 len
       (findIndex_probe H (arg args 0) T ob)
       (ret (vint (- 1))))))"

section \<open>Reduction\<close>

definition reduce_step :: "'w host \<Rightarrow> val \<Rightarrow> val \<Rightarrow> int \<Rightarrow> val \<Rightarrow> ('w, val) jprog" where
  "reduce_step H f ob k accumulator =
     bnd (has_prop H ob (PIdx k)) (\<lambda>present.
     if present then bnd (Get H ob (PIdx k)) (\<lambda>v. Call H f Undef [accumulator, v, vint k, ob])
     else ret accumulator)"

definition first_present :: "'w host \<Rightarrow> val \<Rightarrow> int \<Rightarrow> ('w, int option) jprog" where
  "first_present H ob k = bnd (has_prop H ob (PIdx k)) (\<lambda>present. ret (if present then Some k else None))"

definition ArrayReduce :: "'w host \<Rightarrow> val \<Rightarrow> val list \<Rightarrow> ('w, val) jprog" where
  "ArrayReduce H this args =
     bnd (ToObject H this) (\<lambda>ob.
     bnd (LengthOf H ob) (\<lambda>len.
     sq (CheckCallback H args)
    (bnd (if 1 < length args then ret (arg args 1, 0)
          else if len = 0 then throw (TypeErr ''JSMSG_EMPTY_ARRAY_REDUCE'')
          else
            bnd (loop_ret 0 len (first_present H ob) (throw (TypeErr ''JSMSG_EMPTY_ARRAY_REDUCE''))) (\<lambda>k.
            bnd (Get H ob (PIdx k)) (\<lambda>v. ret (v, k + 1))))
       (\<lambda>(accumulator, k). for_acc k len (reduce_step H (arg args 0) ob) accumulator))))"

definition ArrayReduceRight :: "'w host \<Rightarrow> val \<Rightarrow> val list \<Rightarrow> ('w, val) jprog" where
  "ArrayReduceRight H this args =
     bnd (ToObject H this) (\<lambda>ob.
     bnd (LengthOf H ob) (\<lambda>len.
     sq (CheckCallback H args)
    (bnd (if 1 < length args then ret (arg args 1, len - 1)
          else if len = 0 then throw (TypeErr ''JSMSG_EMPTY_ARRAY_REDUCE'')
          else
            bnd (loop_ret_down (len - 1) 0 (first_present H ob) (throw (TypeErr ''JSMSG_EMPTY_ARRAY_REDUCE''))) (\<lambda>k.
            bnd (Get H ob (PIdx k)) (\<lambda>v. ret (v, k - 1))))
       (\<lambda>(accumulator, k). for_acc_down k 0 (reduce_step H (arg args 0) ob) accumulator))))"

section \<open>Copying within an array, filling\<close>

text \<open>\<open>relative < 0 ? std_Math_max(len + relative, 0) : std_Math_min(relative, len)\<close>\<close>

definition clamp_index :: "int \<Rightarrow> inum \<Rightarrow> int" where
  "clamp_index len relative =
     start_at len (if relative < IFin 0 then max (iplus len relative) (IFin 0) else min relative (IFin len))"

text \<open>The two loops of \<open>copyWithin\<close>: \<open>step\<close> is the direction.\<close>

definition copy_one :: "'w host \<Rightarrow> val \<Rightarrow> int \<Rightarrow> int \<Rightarrow> ('w, unit) jprog" where
  "copy_one H ob frm to =
     bnd (has_prop H ob (PIdx frm)) (\<lambda>present.
     if present then bnd (Get H ob (PIdx frm)) (Put H ob (PIdx to)) else del_prop H ob (PIdx to))"

primrec copy_run :: "'w host \<Rightarrow> val \<Rightarrow> int \<Rightarrow> nat \<Rightarrow> int \<Rightarrow> int \<Rightarrow> ('w, unit) jprog" where
  "copy_run H ob step 0 frm to = ret ()"
| "copy_run H ob step (Suc n) frm to = sq (copy_one H ob frm to) (copy_run H ob step n (frm + step) (to + step))"

definition ArrayCopyWithin :: "'w host \<Rightarrow> val \<Rightarrow> val list \<Rightarrow> ('w, val) jprog" where
  "ArrayCopyWithin H this args =
     bnd (ToObject H this) (\<lambda>ob.
     bnd (LengthOf H ob) (\<lambda>len.
     bnd (ToInteger H (arg args 0)) (\<lambda>relativeTarget.
     let to = clamp_index len relativeTarget in
     bnd (ToInteger H (arg args 1)) (\<lambda>relativeStart.
     let frm = clamp_index len relativeStart in
     bnd (if arg args 2 = Undef then ret (IFin len) else ToInteger H (arg args 2)) (\<lambda>relativeEnd.
     let final = clamp_index len relativeEnd;
         cnt = min (final - frm) (len - to) in
     sq (if frm < to \<and> to < frm + cnt
         then copy_run H ob (- 1) (nat cnt) (frm + cnt - 1) (to + cnt - 1)
         else copy_run H ob 1 (nat cnt) frm to)
        (ret ob))))))"

definition ArrayFill :: "'w host \<Rightarrow> val \<Rightarrow> val list \<Rightarrow> ('w, val) jprog" where
  "ArrayFill H this args =
     bnd (ToObject H this) (\<lambda>ob.
     bnd (LengthOf H ob) (\<lambda>len.
     bnd (ToInteger H (if arg args 1 = Undef then vint 0 else arg args 1)) (\<lambda>relativeStart.
     let k = clamp_index len relativeStart in
     bnd (if arg args 2 = Undef then ret (IFin len) else ToInteger H (arg args 2)) (\<lambda>relativeEnd.
     let final = clamp_index len relativeEnd in
     sq (for_each k final (\<lambda>k. Put H ob (PIdx k) (arg args 0)))
        (ret ob)))))"

section \<open>Sorting\<close>

definition sparse_of :: "'w host \<Rightarrow> val \<Rightarrow> ('w, exn, val) sparseI" where
  "sparse_of H ob = \<lparr>has_at = (\<lambda>i. has_prop H ob (PIdx i)), get_at = (\<lambda>i. Get H ob (PIdx i)),
     set_at = (\<lambda>i. Put H ob (PIdx i)), del_at = (\<lambda>i. del_prop H ob (PIdx i))\<rparr>"

text \<open>The function that \<open>ArraySort\<close> makes of the caller's: \<open>undefined\<close> goes last.\<close>

definition SortCompare :: "'w host \<Rightarrow> val \<Rightarrow> val \<Rightarrow> val \<Rightarrow> ('w, num) jprog" where
  "SortCompare H comparefn x y =
     (if x = Undef then ret (if y = Undef then nint 0 else nint 1)
      else if y = Undef then ret (nint (- 1))
      else
        bnd (Call H comparefn Undef [x, y]) (\<lambda>r.
        bnd (ToNumber H r) (\<lambda>v. ret (if \<not> num_eq v v then nint 0 else v))))"

text \<open>\<open>ArrayNativeSort\<close> is native; it gives \<open>false\<close> when it has not sorted.\<close>

definition ArraySort :: "'w host \<Rightarrow> val \<Rightarrow> val list \<Rightarrow> ('w, val) jprog" where
  "ArraySort H this args =
     (let comparefn = arg args 0 in
      sq (if comparefn \<noteq> Undef
          then bnd (IsCallable H comparefn) (\<lambda>c. if \<not> c then throw (TypeErr ''JSMSG_BAD_SORT_ARG'') else ret ())
          else ret ())
     (bnd (ToObject H this) (\<lambda>ob.
      bnd (intrinsic H ''ArrayNativeSort'' [ob, comparefn]) (\<lambda>sorted.
      if truthy sorted then ret ob
      else
        bnd (LengthOf H ob) (\<lambda>len.
        if len \<le> 1 then ret ob
        else sq (MergeSort Undef (sparse_of H ob) len (SortCompare H comparefn)) (ret ob))))))"

section \<open>New arrays\<close>

definition ArraySpeciesCreate :: "'w host \<Rightarrow> val \<Rightarrow> int \<Rightarrow> ('w, val) jprog" where
  "ArraySpeciesCreate H originalArray len =
     sq (asrt (0 \<le> len) ''length should be a non-negative number'')
    (bnd (IsArray H originalArray) (\<lambda>a.
     if \<not> a then new_array H len
     else
       bnd (Get H originalArray (pstr ''constructor'')) (\<lambda>C.
       bnd (IsConstructor H C) (\<lambda>c.
       bnd (HasClass H ''CrossRealmArrayConstructor'' C) (\<lambda>cross.
       if c \<and> cross then new_array H len
       else
         bnd (if IsObject C then
                bnd (Get H C std_species) (\<lambda>C.
                bnd (GetBuiltinConstructor H ''Array'') (\<lambda>ctor.
                ret (if C = ctor \<or> C = Null then Undef else C)))
              else ret C) (\<lambda>C.
         if C = Undef then new_array H len
         else
           bnd (IsConstructor H C) (\<lambda>c.
           if \<not> c then throw (TypeErr ''JSMSG_NOT_CONSTRUCTOR'') else New H C [vint len])))))))"

definition map_step :: "'w host \<Rightarrow> val \<Rightarrow> val \<Rightarrow> val \<Rightarrow> val \<Rightarrow> int \<Rightarrow> ('w, unit) jprog" where
  "map_step H f T ob A k =
     bnd (has_prop H ob (PIdx k)) (\<lambda>present.
     if present then
       bnd (Get H ob (PIdx k)) (\<lambda>v.
       bnd (Call H f T [v, vint k, ob]) (define_data H A (PIdx k)))
     else ret ())"

definition filter_step :: "'w host \<Rightarrow> val \<Rightarrow> val \<Rightarrow> val \<Rightarrow> val \<Rightarrow> int \<Rightarrow> int \<Rightarrow> ('w, int) jprog" where
  "filter_step H f T ob A k to =
     bnd (has_prop H ob (PIdx k)) (\<lambda>present.
     if present then
       bnd (Get H ob (PIdx k)) (\<lambda>kValue.
       bnd (Call H f T [kValue, vint k, ob]) (\<lambda>selected.
       if truthy selected then sq (define_data H A (PIdx to) kValue) (ret (to + 1)) else ret to))
     else ret to)"

definition ArrayMap :: "'w host \<Rightarrow> val \<Rightarrow> val list \<Rightarrow> ('w, val) jprog" where
  "ArrayMap H this args =
     bnd (ToObject H this) (\<lambda>ob.
     bnd (LengthOf H ob) (\<lambda>len.
     sq (CheckCallback H args)
    (let T = arg args 1 in
     bnd (ArraySpeciesCreate H ob len) (\<lambda>A.
     sq (for_each 0 len
       (map_step H (arg args 0) T ob A))
       (ret A)))))"

definition ArrayFilter :: "'w host \<Rightarrow> val \<Rightarrow> val list \<Rightarrow> ('w, val) jprog" where
  "ArrayFilter H this args =
     bnd (ToObject H this) (\<lambda>ob.
     bnd (LengthOf H ob) (\<lambda>len.
     sq (CheckCallback H args)
    (let T = arg args 1 in
     bnd (ArraySpeciesCreate H ob 0) (\<lambda>A.
     bnd (for_acc 0 len
       (filter_step H (arg args 0) T ob A) 0)
       (\<lambda>_. ret A)))))"

definition IsConcatSpreadable :: "'w host \<Rightarrow> val \<Rightarrow> ('w, bool) jprog" where
  "IsConcatSpreadable H ob =
     (if \<not> IsObject ob then ret False
      else
        bnd (Get H ob std_isConcatSpreadable) (\<lambda>spreadable.
        if spreadable \<noteq> Undef then ret (ToBoolean spreadable) else IsArray H ob))"

text \<open>One round of the loop of \<open>concat\<close>, with \<open>n\<close> the length so far.\<close>

definition concat_one :: "'w host \<Rightarrow> val \<Rightarrow> val \<Rightarrow> int \<Rightarrow> ('w, int) jprog" where
  "concat_one H A E n =
     bnd (IsConcatSpreadable H E) (\<lambda>sp.
     if sp then
       bnd (LengthOf H E) (\<lambda>len.
       if MAX_NUMERIC_INDEX < n + len then throw (TypeErr ''JSMSG_TOO_LONG_ARRAY'')
       else
         bnd (HasClass H ''PackedArray'' A) (\<lambda>pa.
         bnd (HasClass H ''PackedArray'' E) (\<lambda>pe.
         if pa \<and> pe then
           for_acc 0 len (\<lambda>k n. bnd (Get H E (PIdx k)) (\<lambda>v. sq (define_data H A (PIdx n) v) (ret (n + 1)))) n
         else
           for_acc 0 len (\<lambda>k n.
             bnd (has_prop H E (PIdx k)) (\<lambda>present.
             sq (if present then bnd (Get H E (PIdx k)) (define_data H A (PIdx n)) else ret ())
                (ret (n + 1)))) n)))
     else if MAX_NUMERIC_INDEX \<le> n then throw (TypeErr ''JSMSG_TOO_LONG_ARRAY'')
     else sq (define_data H A (PIdx n) E) (ret (n + 1)))"

definition ArrayConcat :: "'w host \<Rightarrow> val \<Rightarrow> val list \<Rightarrow> ('w, val) jprog" where
  "ArrayConcat H this args =
     bnd (ToObject H this) (\<lambda>ob.
     bnd (ArraySpeciesCreate H ob 0) (\<lambda>A.
     bnd (for_list (ob # args) (concat_one H A) 0) (\<lambda>n.
     sq (Put H A (pstr ''length'') (vint n)) (ret A))))"

text \<open>
  \<open>FlattenIntoArray\<close>: the mapper, if there is one, comes with its \<open>this\<close>, as the assertion on
  the number of arguments says. The recursion is as deep as the arrays are nested: fuel.
\<close>

fun FlattenIntoArray ::
    "'w host \<Rightarrow> nat \<Rightarrow> val \<Rightarrow> val \<Rightarrow> int \<Rightarrow> int \<Rightarrow> inum \<Rightarrow> (val \<times> val) option \<Rightarrow> ('w, int) jprog" where
  "FlattenIntoArray H 0 target source sourceLen start depth mapper = no_fuel"
| "FlattenIntoArray H (Suc fuel) target source sourceLen start depth mapper =
     for_acc 0 sourceLen
       (\<lambda>sourceIndex targetIndex.
          bnd (has_prop H source (PIdx sourceIndex)) (\<lambda>present.
          if \<not> present then ret targetIndex
          else
            bnd (Get H source (PIdx sourceIndex)) (\<lambda>element.
            bnd (case mapper of
                   None \<Rightarrow> ret element
                 | Some (f, T) \<Rightarrow> Call H f T [element, vint sourceIndex, source]) (\<lambda>element.
            bnd (if IFin 0 < depth then IsArray H element else ret False) (\<lambda>shouldFlatten.
            if shouldFlatten then
              bnd (LengthOf H element) (\<lambda>elementLen.
              FlattenIntoArray H fuel target element elementLen targetIndex (iplus (- 1) depth) None)
            else if MAX_NUMERIC_INDEX \<le> targetIndex then throw (TypeErr ''JSMSG_TOO_LONG_ARRAY'')
            else sq (define_data H target (PIdx targetIndex) element) (ret (targetIndex + 1)))))))
       start"

definition ArrayFlatMap :: "'w host \<Rightarrow> nat \<Rightarrow> val \<Rightarrow> val list \<Rightarrow> ('w, val) jprog" where
  "ArrayFlatMap H fuel this args =
     bnd (ToObject H this) (\<lambda>ob.
     bnd (LengthOf H ob) (\<lambda>sourceLen.
     bnd (IsCallable H (arg args 0)) (\<lambda>c.
     if \<not> c then throw (TypeErr ''JSMSG_NOT_FUNCTION'')
     else
       bnd (ArraySpeciesCreate H ob 0) (\<lambda>A.
       bnd (FlattenIntoArray H fuel A ob sourceLen 0 (IFin 1) (Some (arg args 0, arg args 1))) (\<lambda>_. ret A)))))"

definition ArrayFlat :: "'w host \<Rightarrow> nat \<Rightarrow> val \<Rightarrow> val list \<Rightarrow> ('w, val) jprog" where
  "ArrayFlat H fuel this args =
     bnd (ToObject H this) (\<lambda>ob.
     bnd (LengthOf H ob) (\<lambda>sourceLen.
     bnd (if 0 < length args \<and> arg args 0 \<noteq> Undef then ToInteger H (arg args 0) else ret (IFin 1)) (\<lambda>depthNum.
     bnd (ArraySpeciesCreate H ob 0) (\<lambda>A.
     bnd (FlattenIntoArray H fuel A ob sourceLen 0 depthNum None) (\<lambda>_. ret A)))))"

section \<open>Array.from\<close>

text \<open>The wrapper object is known by what its iterator method does.\<close>

definition MakeIteratorWrapper :: "'w host \<Rightarrow> val \<Rightarrow> val \<Rightarrow> ('w, ('w, val) jprog) jprog" where
  "MakeIteratorWrapper H items iterMethod =
     bnd (IsCallable H iterMethod) (\<lambda>c.
     sq (asrt c ''method argument is a function'') (ret (Call H iterMethod items [])))"

definition ArrayFrom :: "'w host \<Rightarrow> nat \<Rightarrow> val \<Rightarrow> val list \<Rightarrow> ('w, val) jprog" where
  "ArrayFrom H fuel C args =
     (let items = arg args 0; mapfn = arg args 1; T = arg args 2; mapping = (mapfn \<noteq> Undef) in
      bnd (IsCallable H mapfn) (\<lambda>c.
      if mapping \<and> \<not> c then throw (TypeErr ''JSMSG_NOT_FUNCTION'')
      else
        bnd (Get H items std_iterator) (\<lambda>usingIterator.
        if \<not> is_nullish usingIterator then
          bnd (IsCallable H usingIterator) (\<lambda>c.
          if \<not> c then throw (TypeErr ''JSMSG_NOT_ITERABLE'')
          else
            bnd (IsConstructor H C) (\<lambda>cc.
            bnd (if cc then New H C [] else ArrayLiteral H []) (\<lambda>A.
            bnd (MakeIteratorWrapper H items usingIterator) (\<lambda>iterator.
            bnd (ForOf H fuel iterator
                   (\<lambda>nextValue k.
                      bnd (if mapping then Call H mapfn T [nextValue, vint k] else ret nextValue) (\<lambda>mappedValue.
                      sq (define_data H A (PIdx k) mappedValue) (ret (k + 1)))) 0) (\<lambda>k.
            sq (Put H A (pstr ''length'') (vint k)) (ret A))))))
        else
          bnd (ToObject H items) (\<lambda>arrayLike.
          bnd (LengthOf H arrayLike) (\<lambda>len.
          bnd (IsConstructor H C) (\<lambda>cc.
          bnd (if cc then New H C [vint len] else new_array H len) (\<lambda>A.
          sq (for_each 0 len (\<lambda>k.
                bnd (Get H items (PIdx k)) (\<lambda>kValue.
                bnd (if mapping then Call H mapfn T [kValue, vint k] else ret kValue) (define_data H A (PIdx k)))))
         (sq (Put H A (pstr ''length'') (vint len)) (ret A)))))))))"

section \<open>Strings of arrays\<close>

definition ArrayToString :: "'w host \<Rightarrow> val \<Rightarrow> ('w, val) jprog" where
  "ArrayToString H this =
     bnd (ToObject H this) (\<lambda>array.
     bnd (Get H array (pstr ''join'')) (\<lambda>func.
     bnd (IsCallable H func) (\<lambda>c.
     if \<not> c then intrinsic H ''std_Object_toString'' [array] else Call H func array [])))"

text \<open>An element's part of \<open>toLocaleString\<close>.\<close>

definition locale_part :: "'w host \<Rightarrow> val list \<Rightarrow> val \<Rightarrow> ('w, jstr) jprog" where
  "locale_part H args v =
     (if is_nullish v then ret []
      else
        bnd (Get H v (pstr ''toLocaleString'')) (\<lambda>f.
        bnd (Call H f v [arg args 0, arg args 1]) (ToString H)))"

definition ArrayToLocaleString :: "'w host \<Rightarrow> val \<Rightarrow> val list \<Rightarrow> ('w, val) jprog" where
  "ArrayToLocaleString H this args =
     sq (asrt (IsObject this) ''|this| should be an object'')
    (bnd (LengthOf H this) (\<lambda>len.
     if len = 0 then ret (Str [])
     else
       bnd (Get H this (PIdx 0)) (\<lambda>firstElement.
       bnd (locale_part H args firstElement) (\<lambda>R.
       bnd (for_acc 1 len (\<lambda>k R.
              bnd (Get H this (PIdx k)) (\<lambda>nextElement.
              bnd (StrCat R (js '','')) (\<lambda>S. bnd (locale_part H args nextElement) (StrCat S)))) R) (\<lambda>R. ret (Str R))))))"

section \<open>Array iterators\<close>

definition ITERATOR_SLOT_TARGET :: nat where "ITERATOR_SLOT_TARGET = 0"
definition ITERATOR_SLOT_NEXT_INDEX :: nat where "ITERATOR_SLOT_NEXT_INDEX = 1"
definition ITERATOR_SLOT_ITEM_KIND :: nat where "ITERATOR_SLOT_ITEM_KIND = 2"
definition ITEM_KIND_KEY :: val where "ITEM_KIND_KEY = vint 0"
definition ITEM_KIND_VALUE :: val where "ITEM_KIND_VALUE = vint 1"
definition ITEM_KIND_KEY_AND_VALUE :: val where "ITEM_KIND_KEY_AND_VALUE = vint 2"

definition CreateArrayIterator :: "'w host \<Rightarrow> val \<Rightarrow> val \<Rightarrow> ('w, val) jprog" where
  "CreateArrayIterator H ob kind =
     bnd (ToObject H ob) (\<lambda>iteratedObject.
     bnd (intrinsic H ''NewArrayIterator'' []) (\<lambda>iterator.
     sq (set_slot H iterator ITERATOR_SLOT_TARGET iteratedObject)
    (sq (set_slot H iterator ITERATOR_SLOT_NEXT_INDEX (vint 0))
    (sq (set_slot H iterator ITERATOR_SLOT_ITEM_KIND kind)
        (ret iterator)))))"

text \<open>The length of what is iterated: that of a typed array, or \<open>ToLength(a.length)\<close>.\<close>

definition iterated_length :: "'w host \<Rightarrow> val \<Rightarrow> ('w, int) jprog" where
  "iterated_length H a =
     bnd (HasClass H ''PossiblyWrappedTypedArray'' a) (\<lambda>ta.
     if ta then
       bnd (bnd (intrinsic H ''PossiblyWrappedTypedArrayLength'' [a]) (ToLength H)) (\<lambda>len.
       if len = 0 then
         bnd (HasClass H ''DetachedBuffer'' a) (\<lambda>d.
         if d then throw (TypeErr ''JSMSG_TYPED_ARRAY_DETACHED'') else ret len)
       else ret len)
     else LengthOf H a)"

text \<open>\<open>{ value, done }\<close>: an object literal, then the assignments.\<close>

definition IterResult :: "'w host \<Rightarrow> ('w, val) jprog" where
  "IterResult H = ObjectLiteral H [(pstr ''value'', Undef), (pstr ''done'', Bool False)]"

definition ArrayIteratorNext :: "'w host \<Rightarrow> val \<Rightarrow> ('w, val) jprog" where
  "ArrayIteratorNext H this =
     bnd (HasClass H ''ArrayIterator'' this) (\<lambda>ok.
     if \<not> ok then intrinsic H ''CallArrayIteratorMethodIfWrapped'' [this, vstr ''ArrayIteratorNext'']
     else
       bnd (get_slot H this ITERATOR_SLOT_TARGET) (\<lambda>a.
       bnd (IterResult H) (\<lambda>result.
       if a = Null then sq (Put H result (pstr ''done'') (Bool True)) (ret result)
       else
         bnd (bnd (get_slot H this ITERATOR_SLOT_NEXT_INDEX) (ToNumber H)) (\<lambda>index.
         bnd (get_slot H this ITERATOR_SLOT_ITEM_KIND) (\<lambda>itemKind.
         bnd (iterated_length H a) (\<lambda>len.
         if num_le (nint len) index then
           sq (set_slot H this ITERATOR_SLOT_TARGET Null)
          (sq (Put H result (pstr ''done'') (Bool True)) (ret result))
         else
           let i = start_at len (num_to_integer index) in
           sq (set_slot H this ITERATOR_SLOT_NEXT_INDEX (vint (i + 1)))
          (if itemKind = ITEM_KIND_VALUE then
             bnd (Get H a (PIdx i)) (\<lambda>v. sq (Put H result (pstr ''value'') v) (ret result))
           else if itemKind = ITEM_KIND_KEY_AND_VALUE then
             bnd (Get H a (PIdx i)) (\<lambda>v.
             bnd (ArrayLiteral H [vint i, v]) (\<lambda>pair.
             sq (Put H result (pstr ''value'') pair) (ret result)))
           else
             sq (asrt (itemKind = ITEM_KIND_KEY) ''itemKind'')
            (sq (Put H result (pstr ''value'') (vint i)) (ret result)))))))))"

text \<open>\<open>$ArrayValues\<close>, \<open>ArrayEntries\<close>, \<open>ArrayKeys\<close>.\<close>

definition ArrayValues :: "'w host \<Rightarrow> val \<Rightarrow> ('w, val) jprog" where
  "ArrayValues H this = CreateArrayIterator H this ITEM_KIND_VALUE"

definition ArrayEntries :: "'w host \<Rightarrow> val \<Rightarrow> ('w, val) jprog" where
  "ArrayEntries H this = CreateArrayIterator H this ITEM_KIND_KEY_AND_VALUE"

definition ArrayKeys :: "'w host \<Rightarrow> val \<Rightarrow> ('w, val) jprog" where
  "ArrayKeys H this = CreateArrayIterator H this ITEM_KIND_KEY"

lemma clamp_index_bounds: "0 \<le> len \<Longrightarrow> 0 \<le> clamp_index len n \<and> clamp_index len n \<le> len"
  by (cases n) (auto simp: clamp_index_def)

end
