(* ===== verification/StringBuiltins.thy ===== *)
theory StringBuiltins
  imports ArrayBuiltins
begin

text \<open>
  The string methods of String.js, over any engine: the methods that dispatch on a pattern,
  padding, repetition, substrings, replacement with a function, code points and the string
  iterator, \<open>String.raw\<close> and the HTML methods.
\<close>

section \<open>Strings of the language\<close>

text \<open>The native part of every substring: the range must be inside the string.\<close>

definition SubstringKernel :: "jstr \<Rightarrow> int \<Rightarrow> int \<Rightarrow> ('w, jstr) jprog" where
  "SubstringKernel s begin' len =
     sq (asrt (0 \<le> begin' \<and> 0 \<le> len \<and> begin' + len \<le> int (length s)) ''SubstringKernel range'')
        (ret (take (nat len) (drop (nat begin') s)))"

text \<open>\<open>std_String_indexOf\<close>: the least match at or after the position, which is clamped.\<close>

definition matches_at :: "jstr \<Rightarrow> jstr \<Rightarrow> nat \<Rightarrow> bool" where
  "matches_at s p i = (take (length p) (drop i s) = p)"

definition std_String_indexOf :: "jstr \<Rightarrow> jstr \<Rightarrow> int \<Rightarrow> int" where
  "std_String_indexOf s p position =
     (case find (matches_at s p) [nat (min (max position 0) (int (length s)))..<Suc (length s)] of
        Some i \<Rightarrow> int i
      | None \<Rightarrow> - 1)"

definition std_String_charCodeAt :: "jstr \<Rightarrow> int \<Rightarrow> int" where
  "std_String_charCodeAt s i = (if 0 \<le> i \<and> i < int (length s) then uint (s ! nat i) else 0)"

text \<open>\<open>std_String_fromCodePoint\<close>: one code unit, or a surrogate pair.\<close>

definition std_String_fromCodePoint :: "int \<Rightarrow> jstr" where
  "std_String_fromCodePoint c =
     (if c < 65536 then [word_of_int c]
      else [word_of_int (55296 + (c - 65536) div 1024), word_of_int (56320 + (c - 65536) mod 1024)])"

section \<open>Helpers\<close>

definition ThrowIncompatibleMethod :: "'w host \<Rightarrow> string \<Rightarrow> val \<Rightarrow> ('w, unit) jprog" where
  "ThrowIncompatibleMethod H name thisv =
     bnd (ToString H thisv) (\<lambda>_. throw (TypeErr ''JSMSG_INCOMPATIBLE_PROTO''))"

text \<open>Step 1 and 2 of every method.\<close>

definition ThisString :: "'w host \<Rightarrow> string \<Rightarrow> val \<Rightarrow> ('w, jstr) jprog" where
  "ThisString H name this =
     sq (if is_nullish this then ThrowIncompatibleMethod H name this else ret ()) (ToString H this)"

definition StringProtoHasNo :: "'w host \<Rightarrow> key \<Rightarrow> ('w, bool) jprog" where
  "StringProtoHasNo H p =
     bnd (GetBuiltinPrototype H ''Object'') (\<lambda>ObjectProto.
     bnd (GetBuiltinPrototype H ''String'') (\<lambda>StringProto.
     bnd (intrinsic H ''ObjectHasPrototype'' [StringProto, ObjectProto]) (\<lambda>b.
     if \<not> truthy b then ret False
     else bnd (has_prop H StringProto p) (\<lambda>there. ret (\<not> there)))))"

definition StringProtoHasNoMatch :: "'w host \<Rightarrow> ('w, bool) jprog" where
  "StringProtoHasNoMatch H = StringProtoHasNo H std_match"

definition StringProtoHasNoReplace :: "'w host \<Rightarrow> ('w, bool) jprog" where
  "StringProtoHasNoReplace H = StringProtoHasNo H std_replace"

definition StringProtoHasNoSearch :: "'w host \<Rightarrow> ('w, bool) jprog" where
  "StringProtoHasNoSearch H = StringProtoHasNo H std_search"

definition StringProtoHasNoSplit :: "'w host \<Rightarrow> ('w, bool) jprog" where
  "StringProtoHasNoSplit H = StringProtoHasNo H std_split"

text \<open>The regular expression prototype is as it was: \<open>exec\<close> and the method are the built-in ones.\<close>

definition RegExpMethodOptimizable :: "'w host \<Rightarrow> key \<Rightarrow> string \<Rightarrow> ('w, bool) jprog" where
  "RegExpMethodOptimizable H p name =
     bnd (GetBuiltinPrototype H ''RegExp'') (\<lambda>RegExpProto.
     bnd (intrinsic H ''RegExpPrototypeOptimizable'' [RegExpProto]) (\<lambda>b.
     if \<not> truthy b then ret False
     else
       bnd (Get H RegExpProto (pstr ''exec'')) (\<lambda>exec.
       if \<not> strict_eq exec (builtin H ''RegExp_prototype_Exec'') then ret False
       else bnd (Get H RegExpProto p) (\<lambda>m. ret (strict_eq m (builtin H name))))))"

definition IsStringMatchOptimizable :: "'w host \<Rightarrow> ('w, bool) jprog" where
  "IsStringMatchOptimizable H = RegExpMethodOptimizable H std_match ''RegExpMatch''"

definition IsStringSearchOptimizable :: "'w host \<Rightarrow> ('w, bool) jprog" where
  "IsStringSearchOptimizable H = RegExpMethodOptimizable H std_search ''RegExpSearch''"

fun is_string :: "val \<Rightarrow> bool" where
  "is_string (Str _) = True"
| "is_string _ = False"

text \<open>
  The dispatch on the pattern: the result of its own method, if it has one. A string pattern
  has none as long as \<open>String.prototype\<close> has none.
\<close>

definition try_method :: "'w host \<Rightarrow> val \<Rightarrow> key \<Rightarrow> val list \<Rightarrow> ('w, val option) jprog" where
  "try_method H pattern p args =
     bnd (GetMethod H pattern p) (\<lambda>m.
     if m \<noteq> Undef then bnd (Call H m pattern args) (\<lambda>r. ret (Some r)) else ret None)"

definition dispatch :: "'w host \<Rightarrow> val \<Rightarrow> key \<Rightarrow> ('w, bool) jprog \<Rightarrow> val list \<Rightarrow> ('w, val option) jprog" where
  "dispatch H pattern p hasNo args =
     bnd (if is_string pattern then hasNo else ret False) (\<lambda>skip.
     if \<not> skip \<and> \<not> is_nullish pattern then try_method H pattern p args else ret None)"

section \<open>Methods with a pattern\<close>

definition String_match :: "'w host \<Rightarrow> val \<Rightarrow> val list \<Rightarrow> ('w, val) jprog" where
  "String_match H this args =
     (let regexp = arg args 0; isPatternString = is_string regexp in
      sq (if is_nullish this then ThrowIncompatibleMethod H ''match'' this else ret ())
     (bnd (dispatch H regexp std_match (StringProtoHasNoMatch H) [this]) (\<lambda>r. case r of
        Some v \<Rightarrow> ret v
      | None \<Rightarrow>
          bnd (ToString H this) (\<lambda>S.
          bnd (if isPatternString then IsStringMatchOptimizable H else ret False) (\<lambda>opt.
          bnd (if opt then intrinsic H ''FlatStringMatch'' [Str S, regexp] else ret Undef) (\<lambda>flatResult.
          if flatResult \<noteq> Undef then ret flatResult
          else
            bnd (intrinsic H ''RegExpCreate'' [regexp]) (\<lambda>rx.
            bnd (IsStringMatchOptimizable H) (\<lambda>opt.
            if opt then intrinsic H ''RegExpMatcher'' [rx, Str S, vint 0]
            else bnd (GetMethod H rx std_match) (\<lambda>m. Call H m rx [Str S])))))))))"

text \<open>The check of the flags of a regular expression, of \<open>matchAll\<close> and \<open>replaceAll\<close>.\<close>

definition CheckGlobal :: "'w host \<Rightarrow> val \<Rightarrow> ('w, unit) jprog" where
  "CheckGlobal H regexp =
     bnd (intrinsic H ''IsRegExp'' [regexp]) (\<lambda>isRe.
     if \<not> truthy isRe then ret ()
     else
       bnd (Get H regexp (pstr ''flags'')) (\<lambda>flags.
       if is_nullish flags then throw (TypeErr ''JSMSG_FLAGS_UNDEFINED_OR_NULL'')
       else
         bnd (ToString H flags) (\<lambda>f.
         if std_String_indexOf f (js ''g'') 0 = - 1 then throw (TypeErr ''JSMSG_REQUIRES_GLOBAL_REGEXP'') else ret ())))"

definition String_matchAll :: "'w host \<Rightarrow> val \<Rightarrow> val list \<Rightarrow> ('w, val) jprog" where
  "String_matchAll H this args =
     (let regexp = arg args 0 in
      sq (if is_nullish this then ThrowIncompatibleMethod H ''matchAll'' this else ret ())
     (bnd (if is_nullish regexp then ret None
           else sq (CheckGlobal H regexp) (try_method H regexp std_matchAll [this])) (\<lambda>r. case r of
        Some v \<Rightarrow> ret v
      | None \<Rightarrow>
          bnd (ToString H this) (\<lambda>string.
          bnd (intrinsic H ''RegExpCreate'' [regexp, vstr ''g'']) (\<lambda>rx.
          bnd (GetMethod H rx std_matchAll) (\<lambda>m. Call H m rx [Str string]))))))"

definition String_search :: "'w host \<Rightarrow> val \<Rightarrow> val list \<Rightarrow> ('w, val) jprog" where
  "String_search H this args =
     (let regexp = arg args 0; isPatternString = is_string regexp in
      sq (if is_nullish this then ThrowIncompatibleMethod H ''search'' this else ret ())
     (bnd (dispatch H regexp std_search (StringProtoHasNoSearch H) [this]) (\<lambda>r. case r of
        Some v \<Rightarrow> ret v
      | None \<Rightarrow>
          bnd (ToString H this) (\<lambda>string.
          bnd (if isPatternString then IsStringSearchOptimizable H else ret False) (\<lambda>opt.
          bnd (if opt then intrinsic H ''FlatStringSearch'' [Str string, regexp] else ret (vint (- 2))) (\<lambda>flatResult.
          if \<not> strict_eq flatResult (vint (- 2)) then ret flatResult
          else
            bnd (intrinsic H ''RegExpCreate'' [regexp]) (\<lambda>rx.
            bnd (GetMethod H rx std_search) (\<lambda>m. Call H m rx [Str string]))))))))"

text \<open>\<open>limit >>> 0\<close>\<close>

fun to_uint32 :: "num \<Rightarrow> int" where
  "to_uint32 n = (case num_to_integer n of IFin i \<Rightarrow> i mod 2 ^ 32 | _ \<Rightarrow> 0)"

definition String_split :: "'w host \<Rightarrow> val \<Rightarrow> val list \<Rightarrow> ('w, val) jprog" where
  "String_split H this args =
     (let separator = arg args 0; limit = arg args 1 in
      sq (if is_nullish this then ThrowIncompatibleMethod H ''split'' this else ret ())
     (bnd (if is_string this then StringProtoHasNoSplit H else ret False) (\<lambda>hasNo.
      if hasNo \<and> is_string separator \<and> limit = Undef then intrinsic H ''StringSplitString'' [this, separator]
      else
        bnd (dispatch H separator std_split (StringProtoHasNoSplit H) [this, limit]) (\<lambda>r. case r of
          Some v \<Rightarrow> ret v
        | None \<Rightarrow>
            bnd (ToString H this) (\<lambda>S.
            if limit \<noteq> Undef then
              bnd (ToNumber H limit) (\<lambda>n.
              let bound = to_uint32 n in
              bnd (ToString H separator) (\<lambda>R.
              if bound = 0 then ArrayLiteral H []
              else if separator = Undef then ArrayLiteral H [Str S]
              else intrinsic H ''StringSplitStringLimit'' [Str S, Str R, vint bound]))
            else
              bnd (ToString H separator) (\<lambda>R.
              if separator = Undef then ArrayLiteral H [Str S]
              else intrinsic H ''StringSplitString'' [Str S, Str R]))))))"

section \<open>Substrings\<close>

text \<open>
  \<open>Substring\<close>. Its assertions read \<open>from | 0 === from\<close>, which the language parses as
  \<open>from | (0 === from)\<close>: they hold of zero and of what is not zero as an int32.
\<close>

definition Substring :: "jstr \<Rightarrow> int \<Rightarrow> int \<Rightarrow> ('w, jstr) jprog" where
  "Substring s frm len =
     sq (asrt (frm = 0 \<or> to_int32 frm \<noteq> 0) ''coercing |from| into int32 should not change the value'')
    (sq (asrt (len = 0 \<or> to_int32 len \<noteq> 0) ''coercing |length| into int32 should not change the value'')
        (SubstringKernel s (to_int32 frm) (to_int32 len)))"

text \<open>\<open>x | 0\<close> of what may be an infinity.\<close>

fun inum_int32 :: "inum \<Rightarrow> int" where
  "inum_int32 (IFin i) = to_int32 i"
| "inum_int32 _ = 0"

definition String_substring :: "'w host \<Rightarrow> val \<Rightarrow> val list \<Rightarrow> ('w, jstr) jprog" where
  "String_substring H this args =
     bnd (ThisString H ''substring'' this) (\<lambda>str.
     let len = int (length str) in
     bnd (ToInteger H (arg args 0)) (\<lambda>intStart.
     bnd (if arg args 1 = Undef then ret (IFin len) else ToInteger H (arg args 1)) (\<lambda>intEnd.
     let finalStart = start_at len (min (max intStart (IFin 0)) (IFin len));
         finalEnd = start_at len (min (max intEnd (IFin 0)) (IFin len));
         (frm, to) = (if finalStart < finalEnd then (finalStart, finalEnd) else (finalEnd, finalStart)) in
     SubstringKernel str (to_int32 frm) (to_int32 (to - frm)))))"

definition String_substr :: "'w host \<Rightarrow> val \<Rightarrow> val list \<Rightarrow> ('w, jstr) jprog" where
  "String_substr H this args =
     bnd (ThisString H ''substr'' this) (\<lambda>str.
     bnd (ToInteger H (arg args 0)) (\<lambda>intStart.
     let size = int (length str) in
     bnd (if arg args 1 = Undef then ret (IFin size) else ToInteger H (arg args 1)) (\<lambda>end'.
     let intStart = (if intStart < IFin 0 then max (iplus size intStart) (IFin 0) else intStart);
         resultLength = min (max end' (IFin 0)) (iminus size intStart) in
     if resultLength \<le> IFin 0 then ret []
     else SubstringKernel str (inum_int32 intStart) (inum_int32 resultLength))))"

definition String_slice :: "'w host \<Rightarrow> val \<Rightarrow> val list \<Rightarrow> ('w, jstr) jprog" where
  "String_slice H this args =
     bnd (ThisString H ''slice'' this) (\<lambda>str.
     let len = int (length str) in
     bnd (ToInteger H (arg args 0)) (\<lambda>intStart.
     bnd (if arg args 1 = Undef then ret (IFin len) else ToInteger H (arg args 1)) (\<lambda>intEnd.
     let frm = clamp_index len intStart;
         to = clamp_index len intEnd;
         span = max (to - frm) 0 in
     SubstringKernel str (to_int32 frm) (to_int32 span))))"

section \<open>Concatenation, repetition, padding\<close>

definition String_concat :: "'w host \<Rightarrow> val \<Rightarrow> val list \<Rightarrow> ('w, jstr) jprog" where
  "String_concat H this args =
     bnd (ThisString H ''concat'' this) (\<lambda>str.
     if args = [] then ret str
     else if length args = 1 then bnd (ToString H (arg args 0)) (StrCat str)
     else if length args = 2 then
       bnd (ToString H (arg args 0)) (\<lambda>a. bnd (StrCat str a) (\<lambda>sa.
       bnd (ToString H (arg args 1)) (StrCat sa)))
     else for_list args (\<lambda>v result. bnd (ToString H v) (StrCat result)) str)"

text \<open>The loop of \<open>repeat\<close>: \<open>n\<close> is halved in every round.\<close>

function repeat_loop :: "int \<Rightarrow> jstr \<Rightarrow> jstr \<Rightarrow> ('w, jstr) jprog" where
  "repeat_loop n S T =
     bnd (if odd n then StrCat T S else ret T) (\<lambda>T.
     if 0 < n div 2 then bnd (StrCat S S) (\<lambda>S. repeat_loop (n div 2) S T) else ret T)"
  by pat_completeness auto
termination
  by (relation "measure (\<lambda>(n, S, T). nat n)") auto

declare repeat_loop.simps [simp del]

definition String_repeat :: "'w host \<Rightarrow> val \<Rightarrow> val list \<Rightarrow> ('w, jstr) jprog" where
  "String_repeat H this args =
     bnd (ThisString H ''repeat'' this) (\<lambda>S.
     bnd (ToInteger H (arg args 0)) (\<lambda>n.
     if n < IFin 0 then throw (RangeErr ''JSMSG_NEGATIVE_REPETITION_COUNT'')
     else case n of
       IFin i \<Rightarrow>
         if \<not> i * int (length S) \<le> MAX_STRING_LENGTH then throw (RangeErr ''JSMSG_RESULTING_STRING_TOO_LARGE'')
         else repeat_loop (i mod (MAX_STRING_LENGTH + 2)) S []
     | _ \<Rightarrow> throw (RangeErr ''JSMSG_RESULTING_STRING_TOO_LARGE'')))"

definition String_pad :: "'w host \<Rightarrow> val \<Rightarrow> val \<Rightarrow> val \<Rightarrow> bool \<Rightarrow> ('w, jstr) jprog" where
  "String_pad H this maxLength fillString padEnd =
     bnd (ThisString H (if padEnd then ''padEnd'' else ''padStart'') this) (\<lambda>str.
     bnd (ToLength H maxLength) (\<lambda>intMaxLength.
     let strLen = int (length str) in
     if intMaxLength \<le> strLen then ret str
     else
       sq (asrt (fillString \<noteq> Undef) ''never called when fillString is undefined'')
      (bnd (ToString H fillString) (\<lambda>filler.
       if filler = [] then ret str
       else if MAX_STRING_LENGTH < intMaxLength then throw (RangeErr ''JSMSG_RESULTING_STRING_TOO_LARGE'')
       else
         let fillLen = intMaxLength - strLen in
         bnd (String_repeat H (Str filler) [vint (to_int32 (fillLen div int (length filler)))]) (\<lambda>truncatedStringFiller.
         bnd (Substring filler 0 (fillLen mod int (length filler))) (\<lambda>rest.
         bnd (StrCat truncatedStringFiller rest) (\<lambda>truncatedStringFiller.
         if padEnd then StrCat str truncatedStringFiller else StrCat truncatedStringFiller str)))))))"

definition String_pad_start :: "'w host \<Rightarrow> val \<Rightarrow> val list \<Rightarrow> ('w, jstr) jprog" where
  "String_pad_start H this args =
     String_pad H this (arg args 0) (if arg args 1 = Undef then vstr '' '' else arg args 1) False"

definition String_pad_end :: "'w host \<Rightarrow> val \<Rightarrow> val list \<Rightarrow> ('w, jstr) jprog" where
  "String_pad_end H this args =
     String_pad H this (arg args 0) (if arg args 1 = Undef then vstr '' '' else arg args 1) True"

section \<open>Replacement\<close>

text \<open>\<open>replace\<close> with a function: the first match, and what is before and after it.\<close>

definition replace_first :: "'w host \<Rightarrow> val \<Rightarrow> jstr \<Rightarrow> jstr \<Rightarrow> ('w, jstr) jprog" where
  "replace_first H replaceValue string searchString =
     (let pos = std_String_indexOf string searchString 0 in
      if pos = - 1 then ret string
      else
        bnd (bnd (Call H replaceValue Undef [Str searchString, vint pos, Str string]) (ToString H)) (\<lambda>replStr.
        let tailPos = pos + int (length searchString) in
        bnd (if pos = 0 then ret [] else Substring string 0 pos) (\<lambda>newString.
        bnd (StrCat newString replStr) (\<lambda>newString.
        let stringLength = int (length string) in
        if tailPos < stringLength
        then bnd (Substring string tailPos (stringLength - tailPos)) (StrCat newString)
        else ret newString))))"

definition String_replace :: "'w host \<Rightarrow> val \<Rightarrow> val list \<Rightarrow> ('w, val) jprog" where
  "String_replace H this args =
     (let searchValue = arg args 0; replaceValue = arg args 1 in
      sq (if is_nullish this then ThrowIncompatibleMethod H ''replace'' this else ret ())
     (bnd (dispatch H searchValue std_replace (StringProtoHasNoReplace H) [this, replaceValue]) (\<lambda>r. case r of
        Some v \<Rightarrow> ret v
      | None \<Rightarrow>
          bnd (ToString H this) (\<lambda>string.
          bnd (ToString H searchValue) (\<lambda>searchString.
          if is_string replaceValue then intrinsic H ''StringReplaceString'' [Str string, Str searchString, replaceValue]
          else
            bnd (IsCallable H replaceValue) (\<lambda>c.
            if \<not> c then
              bnd (ToString H replaceValue) (\<lambda>rv. intrinsic H ''StringReplaceString'' [Str string, Str searchString, Str rv])
            else bnd (replace_first H replaceValue string searchString) (\<lambda>s. ret (Str s))))))))"

text \<open>One round of the loop of \<open>replaceAll\<close>; the variables are the position, the end of the last
  match and the result so far.\<close>

definition replace_round :: "'w host \<Rightarrow> val \<Rightarrow> jstr \<Rightarrow> jstr \<Rightarrow> int \<times> int \<times> jstr \<Rightarrow> ('w, (int \<times> int \<times> jstr) + (int \<times> jstr)) jprog" where
  "replace_round H replaceValue string searchString = (\<lambda>(position, endOfLastMatch, result).
     let nextPosition = std_String_indexOf string searchString position;
         searchLength = int (length searchString) in
     if nextPosition < position then ret (Inr (endOfLastMatch, result))
     else
       bnd (bnd (Call H replaceValue Undef [Str searchString, vint nextPosition, Str string]) (ToString H)) (\<lambda>replacement.
       bnd (Substring string endOfLastMatch (nextPosition - endOfLastMatch)) (\<lambda>stringSlice.
       bnd (StrCat stringSlice replacement) (\<lambda>piece.
       bnd (StrCat result piece) (\<lambda>result.
       ret (Inl (nextPosition + max 1 searchLength, nextPosition + searchLength, result)))))))"

definition replace_all_fn :: "'w host \<Rightarrow> nat \<Rightarrow> val \<Rightarrow> jstr \<Rightarrow> jstr \<Rightarrow> ('w, jstr) jprog" where
  "replace_all_fn H fuel replaceValue string searchString =
     bnd (loop_fuel fuel (replace_round H replaceValue string searchString) (0, 0, [])) (\<lambda>(endOfLastMatch, result).
     if endOfLastMatch < int (length string)
     then bnd (Substring string endOfLastMatch (int (length string) - endOfLastMatch)) (StrCat result)
     else ret result)"

definition String_replaceAll :: "'w host \<Rightarrow> nat \<Rightarrow> val \<Rightarrow> val list \<Rightarrow> ('w, val) jprog" where
  "String_replaceAll H fuel this args =
     (let searchValue = arg args 0; replaceValue = arg args 1 in
      sq (if is_nullish this then ThrowIncompatibleMethod H ''replaceAll'' this else ret ())
     (bnd (if is_nullish searchValue then ret None
           else sq (CheckGlobal H searchValue) (try_method H searchValue std_replace [this, replaceValue])) (\<lambda>r. case r of
        Some v \<Rightarrow> ret v
      | None \<Rightarrow>
          bnd (ToString H this) (\<lambda>string.
          bnd (ToString H searchValue) (\<lambda>searchString.
          bnd (IsCallable H replaceValue) (\<lambda>c.
          if \<not> c then
            bnd (ToString H replaceValue) (\<lambda>rv. intrinsic H ''StringReplaceAllString'' [Str string, Str searchString, Str rv])
          else bnd (replace_all_fn H fuel replaceValue string searchString) (\<lambda>s. ret (Str s))))))))"

section \<open>Code points and the string iterator\<close>

definition String_codePointAt :: "'w host \<Rightarrow> val \<Rightarrow> val list \<Rightarrow> ('w, val) jprog" where
  "String_codePointAt H this args =
     bnd (ThisString H ''codePointAt'' this) (\<lambda>S.
     bnd (ToInteger H (arg args 0)) (\<lambda>position.
     let size = int (length S) in
     if position < IFin 0 \<or> IFin size \<le> position then ret Undef
     else
       let position = start_at size position;
           first = std_String_charCodeAt S position in
       if first < 55296 \<or> 56319 < first \<or> position + 1 = size then ret (vint first)
       else
         let second = std_String_charCodeAt S (position + 1) in
         if second < 56320 \<or> 57343 < second then ret (vint first)
         else ret (vint ((first - 55296) * 1024 + (second - 56320) + 65536))))"

definition String_iterator :: "'w host \<Rightarrow> val \<Rightarrow> ('w, val) jprog" where
  "String_iterator H this =
     sq (if is_nullish this then bnd (ToString H this) (\<lambda>_. throw (TypeErr ''JSMSG_INCOMPATIBLE_PROTO2'')) else ret ())
    (bnd (ToString H this) (\<lambda>S.
     bnd (intrinsic H ''NewStringIterator'' []) (\<lambda>iterator.
     sq (set_slot H iterator ITERATOR_SLOT_TARGET (Str S))
    (sq (set_slot H iterator ITERATOR_SLOT_NEXT_INDEX (vint 0))
        (ret iterator)))))"

text \<open>The code point at an index, and how many code units it takes.\<close>

definition next_code_point :: "jstr \<Rightarrow> int \<Rightarrow> int \<times> int" where
  "next_code_point S index =
     (let first = std_String_charCodeAt S index in
      if 55296 \<le> first \<and> first \<le> 56319 \<and> index + 1 < int (length S) then
        let second = std_String_charCodeAt S (index + 1) in
        if 56320 \<le> second \<and> second \<le> 57343
        then ((first - 55296) * 1024 + (second - 56320) + 65536, 2)
        else (first, 1)
      else (first, 1))"

definition StringIteratorNext :: "'w host \<Rightarrow> val \<Rightarrow> ('w, val) jprog" where
  "StringIteratorNext H this =
     bnd (HasClass H ''StringIterator'' this) (\<lambda>ok.
     if \<not> ok then intrinsic H ''CallStringIteratorMethodIfWrapped'' [this, vstr ''StringIteratorNext'']
     else
       bnd (bnd (get_slot H this ITERATOR_SLOT_TARGET) (ToString H)) (\<lambda>S.
       bnd (bnd (get_slot H this ITERATOR_SLOT_NEXT_INDEX) (ToNumber H)) (\<lambda>indexNum.
       let index = start_at 0 (num_to_integer indexNum); size = int (length S) in
       bnd (IterResult H) (\<lambda>result.
       if size \<le> index then sq (Put H result (pstr ''done'') (Bool True)) (ret result)
       else
         let (first, charCount) = next_code_point S index in
         sq (set_slot H this ITERATOR_SLOT_NEXT_INDEX (vint (index + charCount)))
        (sq (Put H result (pstr ''value'') (Str (std_String_fromCodePoint (first mod 2 ^ 21))))
            (ret result))))))"

section \<open>String.raw, locale comparison\<close>

definition String_static_raw :: "'w host \<Rightarrow> val list \<Rightarrow> ('w, jstr) jprog" where
  "String_static_raw H args =
     bnd (ToObject H (arg args 0)) (\<lambda>cooked.
     bnd (bnd (Get H cooked (pstr ''raw'')) (ToObject H)) (\<lambda>raw.
     bnd (LengthOf H raw) (\<lambda>literalSegments.
     if literalSegments = 0 then ret []
     else if literalSegments = 1 then bnd (Get H raw (PIdx 0)) (ToString H)
     else
       bnd (bnd (Get H raw (PIdx 0)) (ToString H)) (\<lambda>resultString.
       for_acc 1 literalSegments (\<lambda>nextIndex resultString.
         bnd (if nextIndex < int (length args)
              then bnd (ToString H (arg args (nat nextIndex))) (StrCat resultString)
              else ret resultString) (\<lambda>resultString.
         bnd (bnd (Get H raw (PIdx nextIndex)) (ToString H)) (StrCat resultString))) resultString))))"

text \<open>The cache of the default collator is an object of the realm.\<close>

definition String_localeCompare :: "'w host \<Rightarrow> val \<Rightarrow> val list \<Rightarrow> ('w, val) jprog" where
  "String_localeCompare H this args =
     bnd (ThisString H ''localeCompare'' this) (\<lambda>S.
     bnd (ToString H (arg args 0)) (\<lambda>That.
     let locales = arg args 1; options = arg args 2; collatorCache = builtin H ''collatorCache'' in
     bnd (if locales = Undef \<and> options = Undef then
            bnd (bnd (Get H collatorCache (pstr ''runtimeDefaultLocale'')) (\<lambda>l. intrinsic H ''IsRuntimeDefaultLocale'' [l])) (\<lambda>fresh.
            sq (if \<not> truthy fresh then
                  sq (bnd (intrinsic H ''intl_Collator'' [locales, options]) (Put H collatorCache (pstr ''collator'')))
                     (bnd (intrinsic H ''RuntimeDefaultLocale'' []) (Put H collatorCache (pstr ''runtimeDefaultLocale'')))
                else ret ())
               (Get H collatorCache (pstr ''collator'')))
          else intrinsic H ''intl_Collator'' [locales, options]) (\<lambda>collator.
     intrinsic H ''intl_CompareStrings'' [collator, Str S, Str That])))"

section \<open>HTML methods\<close>

text \<open>\<open>"<tag>" + ToString(this) + "</tag>"\<close>\<close>

definition html_wrap :: "'w host \<Rightarrow> string \<Rightarrow> string \<Rightarrow> val \<Rightarrow> ('w, jstr) jprog" where
  "html_wrap H name tag this =
     bnd (ThisString H name this) (\<lambda>s.
     bnd (StrCat (js (''<'' @ tag @ ''>'')) s) (\<lambda>s. StrCat s (js (''</'' @ tag @ ''>''))))"

definition String_big :: "'w host \<Rightarrow> val \<Rightarrow> ('w, jstr) jprog" where
  "String_big H this = html_wrap H ''big'' ''big'' this"

definition String_blink :: "'w host \<Rightarrow> val \<Rightarrow> ('w, jstr) jprog" where
  "String_blink H this = html_wrap H ''blink'' ''blink'' this"

definition String_bold :: "'w host \<Rightarrow> val \<Rightarrow> ('w, jstr) jprog" where
  "String_bold H this = html_wrap H ''bold'' ''b'' this"

definition String_fixed :: "'w host \<Rightarrow> val \<Rightarrow> ('w, jstr) jprog" where
  "String_fixed H this = html_wrap H ''fixed'' ''tt'' this"

definition String_italics :: "'w host \<Rightarrow> val \<Rightarrow> ('w, jstr) jprog" where
  "String_italics H this = html_wrap H ''italics'' ''i'' this"

definition String_small :: "'w host \<Rightarrow> val \<Rightarrow> ('w, jstr) jprog" where
  "String_small H this = html_wrap H ''small'' ''small'' this"

definition String_strike :: "'w host \<Rightarrow> val \<Rightarrow> ('w, jstr) jprog" where
  "String_strike H this = html_wrap H ''strike'' ''strike'' this"

definition String_sub :: "'w host \<Rightarrow> val \<Rightarrow> ('w, jstr) jprog" where
  "String_sub H this = html_wrap H ''sub'' ''sub'' this"

definition String_sup :: "'w host \<Rightarrow> val \<Rightarrow> ('w, jstr) jprog" where
  "String_sup H this = html_wrap H ''sup'' ''sup'' this"

definition EscapeAttributeValue :: "'w host \<Rightarrow> val \<Rightarrow> ('w, jstr) jprog" where
  "EscapeAttributeValue H v =
     bnd (ToString H v) (\<lambda>inputStr.
     bnd (intrinsic H ''StringReplaceAllString'' [Str inputStr, Str [34], vstr ''&quot;'']) (ToString H))"

text \<open>\<open>'<tag attr="' + EscapeAttributeValue(v) + '">' + S + "</tag>"\<close>; 34 is the double quote.\<close>

definition html_attr :: "'w host \<Rightarrow> string \<Rightarrow> string \<Rightarrow> string \<Rightarrow> val \<Rightarrow> val list \<Rightarrow> ('w, jstr) jprog" where
  "html_attr H name open' tag this args =
     bnd (ThisString H name this) (\<lambda>S.
     bnd (EscapeAttributeValue H (arg args 0)) (\<lambda>v.
     bnd (StrCat (js open' @ [34]) v) (\<lambda>s.
     bnd (StrCat s ([34] @ js ''>'')) (\<lambda>s.
     bnd (StrCat s S) (\<lambda>s. StrCat s (js (''</'' @ tag @ ''>'')))))))"

definition String_anchor :: "'w host \<Rightarrow> val \<Rightarrow> val list \<Rightarrow> ('w, jstr) jprog" where
  "String_anchor H this args = html_attr H ''anchor'' ''<a name='' ''a'' this args"

definition String_fontcolor :: "'w host \<Rightarrow> val \<Rightarrow> val list \<Rightarrow> ('w, jstr) jprog" where
  "String_fontcolor H this args = html_attr H ''fontcolor'' ''<font color='' ''font'' this args"

definition String_fontsize :: "'w host \<Rightarrow> val \<Rightarrow> val list \<Rightarrow> ('w, jstr) jprog" where
  "String_fontsize H this args = html_attr H ''fontsize'' ''<font size='' ''font'' this args"

definition String_link :: "'w host \<Rightarrow> val \<Rightarrow> val list \<Rightarrow> ('w, jstr) jprog" where
  "String_link H this args = html_attr H ''link'' ''<a href='' ''a'' this args"

end
