(* ===== verification/StringProps.thy ===== *)
theory StringProps
  imports StringBuiltins
begin

text \<open>
  What the string methods do, on any engine: the substring family stays inside the string, \<open>repeat\<close>
  and the padding methods build what they promise within the length limit, \<open>concat\<close> is one loop.
\<close>

lemma ThisString_Str [simp]: "ThisString H name (Str s) = ret s"
  by (simp add: ThisString_def is_nullish_def)

lemma ToInteger_Num [simp]: "ToInteger H (Num n) = ret (num_to_integer n)"
  by (simp add: ToInteger_def)

definition js_string :: "jstr \<Rightarrow> bool" where
  "js_string s = (int (length s) \<le> MAX_STRING_LENGTH)"

lemma js_string_int32: "js_string s \<Longrightarrow> 0 \<le> i \<Longrightarrow> i \<le> int (length s) \<Longrightarrow> to_int32 i = i"
  by (rule to_int32_small) (simp_all add: js_string_def MAX_STRING_LENGTH_def)

text \<open>The part of a string from one index to another.\<close>

definition part :: "jstr \<Rightarrow> int \<Rightarrow> int \<Rightarrow> jstr" where
  "part s lo hi = take (nat (hi - lo)) (drop (nat lo) s)"

lemma SubstringKernel_part:
  assumes "js_string s" "0 \<le> lo" "lo \<le> hi" "hi \<le> int (length s)"
  shows "SubstringKernel s (to_int32 lo) (to_int32 (hi - lo)) = ret (part s lo hi)"
  using assms js_string_int32 [of s lo] js_string_int32 [of s "hi - lo"]
  by (simp add: SubstringKernel_def part_def fun_eq_iff run_simps)

section \<open>substring, slice, substr\<close>

text \<open>An index clamped to the string.\<close>

definition clamp0 :: "int \<Rightarrow> inum \<Rightarrow> int" where
  "clamp0 len n = (case n of IFin i \<Rightarrow> min (max i 0) len | IPInf \<Rightarrow> len | INInf \<Rightarrow> 0)"

lemma clamp0_start: "0 \<le> len \<Longrightarrow> start_at len (min (max n (IFin 0)) (IFin len)) = clamp0 len n"
  by (cases n) (auto simp: clamp0_def)

lemma clamp0_bounds: "0 \<le> len \<Longrightarrow> 0 \<le> clamp0 len n \<and> clamp0 len n \<le> len"
  by (cases n) (auto simp: clamp0_def)

text \<open>
  C22: \<open>substring\<close> with Number arguments returns the part between the two indices, each clamped to
  the string, in either order; the native kernel is always called inside the string.
\<close>

theorem String_substring_exact:
  assumes "js_string s"
  shows "let len = int (length s); i = clamp0 len (num_to_integer m); j = clamp0 len (num_to_integer n) in
    String_substring H (Str s) [Num m, Num n] w = (Ret (part s (min i j) (max i j)), w)"
proof -
  let ?c = "\<lambda>n. clamp0 (int (length s)) (num_to_integer n)"
  have b: "0 \<le> ?c n" "?c n \<le> int (length s)" for n using clamp0_bounds by simp_all
  show ?thesis
    using b [of m] b [of n]
    by (cases "?c m < ?c n")
      (simp_all add: String_substring_def Let_def clamp0_start run_simps SubstringKernel_part [OF assms] del: inum_min_max)
qed


text \<open>
  C24: \<open>substr\<close> returns at most the wanted number of code units from the start, which counts from
  the end when it is negative; no argument, infinite or not, leads outside the string.
\<close>

theorem String_substr_exact:
  assumes "js_string s"
  shows "let len = int (length s);
             i = (case num_to_integer m of IFin i \<Rightarrow> if i < 0 then max (len + i) 0 else min i len | IPInf \<Rightarrow> len | INInf \<Rightarrow> 0);
             k = (case num_to_integer n of IFin l \<Rightarrow> max 0 (min l (len - i)) | IPInf \<Rightarrow> len - i | INInf \<Rightarrow> 0) in
    String_substr H (Str s) [Num m, Num n] w = (Ret (part s i (i + k)), w)"
proof -
  have k: "SubstringKernel s (to_int32 i) (to_int32 n) = ret (part s i (i + n))" if "0 \<le> i" "0 \<le> n" "i + n \<le> int (length s)" for i n
    using SubstringKernel_part [OF assms, of i "i + n"] that by simp
  show ?thesis
    by (cases "num_to_integer m"; cases "num_to_integer n")
      (auto simp: String_substr_def Let_def run_simps min_def max_def k part_def)
qed

section \<open>concat\<close>

lemma for_list_eta:
  "for_list [] body = ret" "for_list (x # xs) body = (\<lambda>c. bnd (body x c) (for_list xs body))"
  by (rule ext, simp)+

text \<open>
  C25: the special cases of \<open>concat\<close> for up to two arguments agree with the loop over all
  arguments, on any engine: the same conversions in the same order, the same result, the same
  exceptions.
\<close>

theorem String_concat_loop:
  "String_concat H this args =
     bnd (ThisString H ''concat'' this) (for_list args (\<lambda>v result. bnd (ToString H v) (StrCat result)))"
proof -
  consider "args = []" | a where "args = [a]" | a b where "args = [a, b]" | a b c ds where "args = a # b # c # ds"
    by (metis list.exhaust)
  then show ?thesis
    by cases (simp_all add: String_concat_def bnd_assoc for_list_eta)
qed

section \<open>repeat\<close>

lemma StrCat_ok: "int (length s + length t) \<le> MAX_STRING_LENGTH \<Longrightarrow> StrCat s t = ret (s @ t)"
  by (simp add: StrCat_def)

definition times :: "nat \<Rightarrow> jstr \<Rightarrow> jstr" where
  "times n s = concat (replicate n s)"

lemma times_simps [simp]: "times 0 s = []" "times (Suc n) s = s @ times n s" "length (times n s) = n * length s" "times n [] = []"
  by (simp_all add: times_def sum_list_replicate length_concat)

lemma times_add: "times (m + n) s = times m s @ times n s"
  by (induction m) simp_all

lemma times_double: "times n (s @ s) = times (2 * n) s"
  by (induction n) simp_all

lemma times_commute: "times n s @ s = s @ times n s"
  by (induction n) simp_all

lemma repeat_loop_times:
  "int n * int (length S) + int (length T) \<le> MAX_STRING_LENGTH \<Longrightarrow>
   repeat_loop (int n) S T = ret (T @ times n S)"
proof (induction n arbitrary: S T rule: less_induct)
  case (less n)
  define T' where "T' = (if odd n then T @ S else T)"
  have n: "n = 2 * (n div 2) + (if odd n then 1 else 0)" by simp
  have len: "int n * int (length S) + int (length T) = int (n div 2) * int (length (S @ S)) + int (length T')"
    by (subst n) (simp add: T'_def algebra_simps)
  have cat: "(if odd (int n) then StrCat T S else ret T) = ret T'"
  proof (cases "odd n")
    case True
    then have "1 * int (length S) \<le> int n * int (length S)" by (intro mult_right_mono) (auto elim: oddE)
    with less.prems True show ?thesis by (simp add: T'_def StrCat_ok)
  qed (simp add: T'_def)
  have half: "int n div 2 = int (n div 2)" by (simp add: zdiv_int)
  have pos: "0 < int (n div 2) \<longleftrightarrow> n div 2 \<noteq> 0" by (simp only: of_nat_0_less_iff neq0_conv)
  have result: "T @ times n S = T' @ times (n div 2) (S @ S)"
    by (subst n) (simp add: T'_def times_double times_add times_commute)
  show ?case
  proof (cases "n div 2 = 0")
    case True
    with result show ?thesis by (subst repeat_loop.simps) (simp only: half pos cat, simp)
  next
    case False
    have "1 * int (length (S @ S)) \<le> int (n div 2) * int (length (S @ S))" using False by (intro mult_right_mono) simp_all
    then have SS: "StrCat S S = ret (S @ S)" using less.prems len by (intro StrCat_ok) simp
    note less.IH [of "n div 2" "S @ S" T']
    then show ?thesis using False less.prems len
      by (subst repeat_loop.simps) (simp only: half pos cat, simp add: result SS)
  qed
qed

text \<open>
  C26: \<open>repeat\<close> gives the string \<open>n\<close> times by repeated doubling, and no string on the way is longer
  than the limit; a negative or infinite count and a result over the limit are RangeErrors.
\<close>

theorem String_repeat_exact:
  assumes "js_string s"
  shows "String_repeat H (Str s) [Num n] w =
    (case num_to_integer n of
       IFin i \<Rightarrow> if i < 0 then (Throw (RangeErr ''JSMSG_NEGATIVE_REPETITION_COUNT''), w)
         else if MAX_STRING_LENGTH < i * int (length s) then (Throw (RangeErr ''JSMSG_RESULTING_STRING_TOO_LARGE''), w)
         else (Ret (times (nat i) s), w)
     | IPInf \<Rightarrow> (Throw (RangeErr ''JSMSG_RESULTING_STRING_TOO_LARGE''), w)
     | INInf \<Rightarrow> (Throw (RangeErr ''JSMSG_NEGATIVE_REPETITION_COUNT''), w))"
proof -
  have loop: "repeat_loop (i mod (MAX_STRING_LENGTH + 2)) s [] = ret (times (nat i) s)"
    if i: "0 \<le> i" "i * int (length s) \<le> MAX_STRING_LENGTH" for i
  proof (cases "s = []")
    case True
    have "0 \<le> i mod (MAX_STRING_LENGTH + 2)" by (simp add: MAX_STRING_LENGTH_def)
    then show ?thesis using repeat_loop_times [of "nat (i mod (MAX_STRING_LENGTH + 2))" s "[]"] True
      by (simp add: MAX_STRING_LENGTH_def)
  next
    case False
    then have "i \<le> i * int (length s)" using i(1) by (cases s) (simp_all add: mult_le_cancel_left1)
    then have "i mod (MAX_STRING_LENGTH + 2) = i" using i by (intro mod_pos_pos_trivial) simp_all
    then show ?thesis using repeat_loop_times [of "nat i" s "[]"] i by simp
  qed
  show ?thesis
    by (cases "num_to_integer n") (auto simp: String_repeat_def run_simps loop)
qed

end
