(* ===== verification/JSEngine.thy ===== *)
theory JSEngine
  imports ArrayBuiltins
begin

text \<open>
  A concrete engine: a heap of ordinary objects and arrays with data properties and prototypes,
  and functions whose code is a table. It provides the interface of \<open>ArrayBuiltins\<close>, and the
  array objects of it satisfy the interface that the sort relies on.
\<close>

section \<open>The heap\<close>

record jobj =
  props :: "key \<Rightarrow> val option"
  proto :: "nat option"
  arr_len :: "int option"
  slots :: "nat \<Rightarrow> val"
  class_name :: string

record eng =
  heap :: "jobj list"

text \<open>The code of the functions, by the object that each is.\<close>

type_synonym code_table = "nat \<Rightarrow> (val \<Rightarrow> val list \<Rightarrow> (eng, exn, val) prog) option"

definition obj_at :: "eng \<Rightarrow> nat \<Rightarrow> jobj" where
  "obj_at w a = heap w ! a"

definition upd_obj :: "nat \<Rightarrow> (jobj \<Rightarrow> jobj) \<Rightarrow> eng \<Rightarrow> eng" where
  "upd_obj a f w = w\<lparr>heap := (heap w)[a := f (heap w ! a)]\<rparr>"

definition own_prop :: "jobj \<Rightarrow> key \<Rightarrow> val option" where
  "own_prop r k = (case arr_len r of
      Some n \<Rightarrow> if k = pstr ''length'' then Some (vint n) else props r k
    | None \<Rightarrow> props r k)"

text \<open>The walk along the prototypes; a chain is never longer than the heap.\<close>

fun lookup :: "nat \<Rightarrow> jobj list \<Rightarrow> nat \<Rightarrow> key \<Rightarrow> val option" where
  "lookup 0 h a k = None"
| "lookup (Suc n) h a k =
     (if a < length h then
        (case own_prop (h ! a) k of
           Some v \<Rightarrow> Some v
         | None \<Rightarrow> (case proto (h ! a) of None \<Rightarrow> None | Some p \<Rightarrow> lookup n h p k))
      else None)"

section \<open>Its operations\<close>

fun eng_get :: "val \<Rightarrow> key \<Rightarrow> (eng, val) jprog" where
  "eng_get (Obj a) k = gets (\<lambda>w. case lookup (length (heap w)) (heap w) a k of Some v \<Rightarrow> v | None \<Rightarrow> Undef)"
| "eng_get (Str s) (PIdx i) = ret (if 0 \<le> i \<and> i < int (length s) then Str [s ! nat i] else Undef)"
| "eng_get (Str s) k = ret (if k = pstr ''length'' then vint (int (length s)) else Undef)"
| "eng_get v k = ret Undef"

fun put_own :: "key \<Rightarrow> val \<Rightarrow> jobj \<Rightarrow> jobj" where
  "put_own (PIdx i) v r = r\<lparr>props := (props r)(PIdx i \<mapsto> v),
     arr_len := (case arr_len r of Some n \<Rightarrow> Some (max n (i + 1)) | None \<Rightarrow> None)\<rparr>"
| "put_own k v r =
     (case (arr_len r, k = pstr ''length'', v) of
        (Some n, True, Num (Fin m)) \<Rightarrow>
          r\<lparr>props := (\<lambda>k. case k of PIdx i \<Rightarrow> if i < floor m then props r k else None | _ \<Rightarrow> props r k),
            arr_len := Some (floor m)\<rparr>
      | _ \<Rightarrow> r\<lparr>props := (props r)(k \<mapsto> v)\<rparr>)"

fun eng_put :: "val \<Rightarrow> key \<Rightarrow> val \<Rightarrow> (eng, unit) jprog" where
  "eng_put (Obj a) k v = modify (upd_obj a (put_own k v))"
| "eng_put _ k v = throw (TypeErr ''JSMSG_READ_ONLY'')"

fun eng_has :: "val \<Rightarrow> key \<Rightarrow> (eng, bool) jprog" where
  "eng_has (Obj a) k = gets (\<lambda>w. lookup (length (heap w)) (heap w) a k \<noteq> None)"
| "eng_has _ k = throw (TypeErr ''JSMSG_IN_NOT_OBJECT'')"

fun eng_del :: "val \<Rightarrow> key \<Rightarrow> (eng, unit) jprog" where
  "eng_del (Obj a) k = modify (upd_obj a (\<lambda>r. r\<lparr>props := (props r)(k := None)\<rparr>))"
| "eng_del _ k = ret ()"

definition eng_new :: "jobj \<Rightarrow> (eng, val) jprog" where
  "eng_new r = bnd (gets (\<lambda>w. length (heap w))) (\<lambda>a. sq (modify (\<lambda>w. w\<lparr>heap := heap w @ [r]\<rparr>)) (ret (Obj a)))"

text \<open>The objects every heap starts with: the prototypes and the \<open>Array\<close> constructor.\<close>

definition object_proto :: nat where "object_proto = 0"
definition array_proto :: nat where "array_proto = 1"
definition array_ctor :: nat where "array_ctor = 2"

definition plain_obj :: jobj where
  "plain_obj = \<lparr>props = (\<lambda>_. None), proto = Some object_proto, arr_len = None, slots = (\<lambda>_. Undef), class_name = ''Object''\<rparr>"

definition array_obj :: "val option list \<Rightarrow> jobj" where
  "array_obj xs = plain_obj\<lparr>props := (\<lambda>k. case k of PIdx i \<Rightarrow> if 0 \<le> i \<and> i < int (length xs) then xs ! nat i else None | _ \<Rightarrow> None),
     proto := Some array_proto, arr_len := Some (int (length xs)), class_name := ''Array''\<rparr>"

definition max_array_len :: int where
  "max_array_len = 2 ^ 32 - 1"

definition eng_new_array :: "int \<Rightarrow> (eng, val) jprog" where
  "eng_new_array n =
     (if n < 0 \<or> max_array_len < n then throw (RangeErr ''JSMSG_BAD_ARRAY_LENGTH'')
      else eng_new (array_obj (replicate (nat n) None)))"

fun obj_test :: "(jobj \<Rightarrow> bool) \<Rightarrow> eng \<Rightarrow> val \<Rightarrow> bool" where
  "obj_test P w (Obj a) = (a < length (heap w) \<and> P (heap w ! a))"
| "obj_test P w _ = False"

fun code_of :: "code_table \<Rightarrow> val \<Rightarrow> (val \<Rightarrow> val list \<Rightarrow> (eng, exn, val) prog) option" where
  "code_of code (Obj f) = code f"
| "code_of code _ = None"

definition eng_call :: "code_table \<Rightarrow> val \<Rightarrow> val \<Rightarrow> val list \<Rightarrow> (eng, val) jprog" where
  "eng_call code f T args = (case code_of code f of
      Some c \<Rightarrow> c T args
    | None \<Rightarrow> throw (TypeErr ''JSMSG_NOT_FUNCTION''))"

fun eng_construct :: "val \<Rightarrow> val list \<Rightarrow> (eng, val) jprog" where
  "eng_construct (Obj f) args = (case arg args 0 of
      Num n \<Rightarrow> eng_new_array (num_to_length n)
    | _ \<Rightarrow> eng_new_array 0)"
| "eng_construct _ args = throw (TypeErr ''JSMSG_NOT_CONSTRUCTOR'')"

fun eng_get_slot :: "val \<Rightarrow> nat \<Rightarrow> (eng, val) jprog" where
  "eng_get_slot (Obj a) i = gets (\<lambda>w. slots (heap w ! a) i)"
| "eng_get_slot _ i = ret Undef"

fun eng_set_slot :: "val \<Rightarrow> nat \<Rightarrow> val \<Rightarrow> (eng, unit) jprog" where
  "eng_set_slot (Obj a) i v = modify (upd_obj a (\<lambda>r. r\<lparr>slots := (slots r)(i := v)\<rparr>))"
| "eng_set_slot _ i v = ret ()"

text \<open>The intrinsics of this engine: no native sort, array iterators as objects of their class.\<close>

definition eng_intrinsic :: "string \<Rightarrow> val list \<Rightarrow> (eng, val) jprog" where
  "eng_intrinsic name args =
     (if name = ''ArrayNativeSort'' then ret (Bool False)
      else if name = ''NewArrayIterator'' then eng_new (plain_obj\<lparr>class_name := ''ArrayIterator''\<rparr>)
      else if name = ''NewStringIterator'' then eng_new (plain_obj\<lparr>class_name := ''StringIterator''\<rparr>)
      else throw (TypeErr name))"

text \<open>Numbers are not parsed or printed here: conversions of strings give NaN, of numbers ''0''.\<close>

definition engine :: "code_table \<Rightarrow> eng host" where
  "engine code = \<lparr>get_prop = eng_get, set_prop = eng_put, has_prop = eng_has, del_prop = eng_del,
     define_data = eng_put, call_fn = eng_call code, construct_fn = eng_construct,
     callable = (\<lambda>w v. code_of code v \<noteq> None), constructible = (\<lambda>w v. v = Obj array_ctor),
     has_class = (\<lambda>w c v. obj_test (\<lambda>r. class_name r = c) w v),
     is_array = (\<lambda>v. gets (\<lambda>w. obj_test (\<lambda>r. arr_len r \<noteq> None) w v)),
     wrap_prim = (\<lambda>v. eng_new plain_obj), to_number_of = (\<lambda>v. ret NaN), to_string_of = (\<lambda>v. ret (js ''0'')),
     new_array = eng_new_array, new_object = eng_new plain_obj,
     get_slot = eng_get_slot, set_slot = eng_set_slot,
     builtin = (\<lambda>name. if name = ''Array'' then Obj array_ctor else Obj object_proto),
     intrinsic = eng_intrinsic\<rparr>"

section \<open>Arrays of the heap\<close>

text \<open>A prototype chain that ends, has no indexed properties and does not come back to \<open>a\<close>.\<close>

fun clean_chain :: "nat \<Rightarrow> jobj list \<Rightarrow> nat \<Rightarrow> nat option \<Rightarrow> bool" where
  "clean_chain n h a None = True"
| "clean_chain 0 h a (Some p) = False"
| "clean_chain (Suc n) h a (Some p) =
     (p < length h \<and> p \<noteq> a \<and> (\<forall>i. props (h ! p) (PIdx i) = None) \<and> clean_chain n h a (proto (h ! p)))"

text \<open>An array object with elements only below its length, and such a chain above it.\<close>

definition plain_array :: "eng \<Rightarrow> nat \<Rightarrow> bool" where
  "plain_array w a = (a < length (heap w)
     \<and> (case arr_len (heap w ! a) of
          None \<Rightarrow> False
        | Some n \<Rightarrow> 0 \<le> n \<and> n \<le> max_array_len \<and> (\<forall>i. props (heap w ! a) (PIdx i) \<noteq> None \<longrightarrow> 0 \<le> i \<and> i < n))
     \<and> clean_chain (length (heap w) - 1) (heap w) a (proto (heap w ! a)))"

definition array_len :: "eng \<Rightarrow> nat \<Rightarrow> nat" where
  "array_len w a = nat (the (arr_len (heap w ! a)))"

definition elems_of :: "eng \<Rightarrow> nat \<Rightarrow> val option list" where
  "elems_of w a = map (\<lambda>i. props (heap w ! a) (PIdx (int i))) [0..<array_len w a]"

definition set_elems :: "val option list \<Rightarrow> jobj \<Rightarrow> jobj" where
  "set_elems xs r = r\<lparr>props := (\<lambda>k. case k of
      PIdx i \<Rightarrow> if 0 \<le> i \<and> i < int (length xs) then xs ! nat i else props r k
    | _ \<Rightarrow> props r k)\<rparr>"

definition put_elems :: "nat \<Rightarrow> val option list \<Rightarrow> eng \<Rightarrow> eng" where
  "put_elems a xs = upd_obj a (set_elems xs)"

text \<open>What the interfaces see: nothing where \<open>a\<close> is not a plain array.\<close>

definition arr_view :: "nat \<Rightarrow> eng \<Rightarrow> val option list" where
  "arr_view a w = (if plain_array w a then elems_of w a else [])"

definition fit :: "nat \<Rightarrow> 'a option list \<Rightarrow> 'a option list" where
  "fit n xs = take n (xs @ replicate n None)"

definition arr_upd :: "nat \<Rightarrow> val option list \<Rightarrow> eng \<Rightarrow> eng" where
  "arr_upd a xs w = (if plain_array w a then put_elems a (fit (array_len w a) xs) w else w)"

lemma engine_simps [simp]:
  "get_prop (engine code) = eng_get" "set_prop (engine code) = eng_put" "has_prop (engine code) = eng_has"
  "del_prop (engine code) = eng_del" "define_data (engine code) = eng_put" "call_fn (engine code) = eng_call code"
  "construct_fn (engine code) = eng_construct" "callable (engine code) = (\<lambda>w v. code_of code v \<noteq> None)"
  "constructible (engine code) = (\<lambda>w v. v = Obj array_ctor)"
  "has_class (engine code) = (\<lambda>w c v. obj_test (\<lambda>r. class_name r = c) w v)"
  "is_array (engine code) = (\<lambda>v. gets (\<lambda>w. obj_test (\<lambda>r. arr_len r \<noteq> None) w v))"
  "wrap_prim (engine code) = (\<lambda>v. eng_new plain_obj)" "to_number_of (engine code) = (\<lambda>v. ret NaN)"
  "to_string_of (engine code) = (\<lambda>v. ret (js ''0''))"
  "new_array (engine code) = eng_new_array" "new_object (engine code) = eng_new plain_obj"
  "get_slot (engine code) = eng_get_slot" "set_slot (engine code) = eng_set_slot"
  "builtin (engine code) = (\<lambda>name. if name = ''Array'' then Obj array_ctor else Obj object_proto)"
  "intrinsic (engine code) = eng_intrinsic"
  by (simp_all add: engine_def)

lemma length_elems [simp]: "length (elems_of w a) = array_len w a"
  by (simp add: elems_of_def)

lemma nth_elems: "i < array_len w a \<Longrightarrow> elems_of w a ! i = props (heap w ! a) (PIdx (int i))"
  by (simp add: elems_of_def)

lemma clean_lookup:
  "clean_chain n h a (Some p) \<Longrightarrow> n \<le> m \<Longrightarrow> lookup m h p (PIdx i) = None"
proof (induction n arbitrary: m p)
  case (Suc n)
  then obtain m' where m: "m = Suc m'" by (cases m) auto
  have own: "own_prop (h ! p) (PIdx i) = None" using Suc.prems by (simp add: own_prop_def split: option.split)
  show ?case
  proof (cases "proto (h ! p)")
    case None
    with own show ?thesis by (simp add: m)
  next
    case (Some q)
    with Suc.prems have "clean_chain n h a (Some q)" by simp
    with own Some Suc.IH [of q m'] Suc.prems(2) show ?thesis by (simp add: m)
  qed
qed simp

lemma plain_array_lookup:
  assumes "plain_array w a"
  shows "lookup (length (heap w)) (heap w) a (PIdx i) = props (heap w ! a) (PIdx i)"
proof -
  obtain n where n: "length (heap w) = Suc n" "a < length (heap w)"
    using assms by (cases "length (heap w)") (auto simp: plain_array_def)
  have own: "own_prop (heap w ! a) (PIdx i) = props (heap w ! a) (PIdx i)"
    by (simp add: own_prop_def split: option.split)
  have "lookup n (heap w) p (PIdx i) = None" if "proto (heap w ! a) = Some p" for p
    using clean_lookup [of n "heap w" a p n i] assms that n by (simp add: plain_array_def)
  then show ?thesis using n own by (auto split: option.splits)
qed

lemma plain_array_length:
  assumes "plain_array w a"
  shows "LengthOf (engine code) (Obj a) w = (Ret (int (array_len w a)), w)"
proof -
  obtain n k where n: "length (heap w) = Suc k" "a < length (heap w)" "arr_len (heap w ! a) = Some n" "0 \<le> n" "n \<le> max_array_len"
    using assms by (cases "length (heap w)") (auto simp: plain_array_def split: option.splits)
  then have "num_to_length (nint n) = n"
    by (intro num_to_length_nint) (simp_all add: max_array_len_def max_safe_def)
  with n show ?thesis
    by (simp add: LengthOf_def Get_def is_nullish_def ToLength_def own_prop_def array_len_def run_simps)
qed

section \<open>Array objects as sparse arrays\<close>

lemma clean_chain_upd [simp]: "clean_chain n (h[a := r]) a p = clean_chain n h a p"
  by (induction n h a p rule: clean_chain.induct) auto

lemma plain_arrayD:
  assumes "plain_array w a"
  obtains n where "a < length (heap w)" "arr_len (heap w ! a) = Some n" "0 \<le> n" "n \<le> max_array_len"
    "array_len w a = nat n" "\<And>i. props (heap w ! a) (PIdx i) \<noteq> None \<Longrightarrow> 0 \<le> i \<and> i < n"
  using assms by (auto simp: plain_array_def array_len_def split: option.splits)

lemma set_elems_simps [simp]:
  "arr_len (set_elems xs r) = arr_len r" "proto (set_elems xs r) = proto r"
  "props (set_elems xs r) (PIdx i) = (if 0 \<le> i \<and> i < int (length xs) then xs ! nat i else props r (PIdx i))"
  by (simp_all add: set_elems_def)

lemma heap_put_elems [simp]: "heap (put_elems a xs w) = (heap w)[a := set_elems xs (heap w ! a)]"
  by (simp add: put_elems_def upd_obj_def)

lemma plain_put_elems:
  assumes "plain_array w a" "length xs = array_len w a"
  shows "plain_array (put_elems a xs w) a"
  using assms by (auto simp: plain_array_def array_len_def split: option.splits if_splits)

lemma elems_put_elems:
  assumes "plain_array w a" "length xs = array_len w a"
  shows "elems_of (put_elems a xs w) a = xs"
proof (rule nth_equalityI)
  show "length (elems_of (put_elems a xs w) a) = length xs"
    using assms by (simp add: array_len_def plain_array_def)
next
  fix i assume "i < length (elems_of (put_elems a xs w) a)"
  moreover have "array_len (put_elems a xs w) a = array_len w a"
    using assms(1) by (simp add: array_len_def plain_array_def)
  ultimately show "elems_of (put_elems a xs w) a ! i = xs ! i"
    using assms by (simp add: nth_elems plain_array_def)
qed

lemma fit_simps [simp]: "length (fit n xs) = n" "length xs = n \<Longrightarrow> fit n xs = xs"
  by (simp_all add: fit_def)

lemma set_elems_twice: "length xs = length ys \<Longrightarrow> set_elems ys (set_elems xs r) = set_elems ys r"
  by (simp add: set_elems_def fun_eq_iff split: key.split)

lemma set_elems_id:
  assumes "array_len w a = n"
  shows "set_elems (elems_of w a) (heap w ! a) = heap w ! a"
proof -
  have "props (set_elems (elems_of w a) (heap w ! a)) = props (heap w ! a)"
    by (auto simp: fun_eq_iff set_elems_def nth_elems nat_less_iff split: key.split)
  then show ?thesis by (simp add: set_elems_def)
qed

lemma put_own_elems:
  assumes "plain_array w a" "0 \<le> i" "i < int (array_len w a)"
  shows "put_own (PIdx i) x (heap w ! a) = set_elems ((elems_of w a)[nat i := Some x]) (heap w ! a)"
proof -
  obtain n where n: "arr_len (heap w ! a) = Some n" "array_len w a = nat n" "0 \<le> n" by (rule plain_arrayD [OF assms(1)])
  have "(props (heap w ! a))(PIdx i \<mapsto> x) = props (set_elems ((elems_of w a)[nat i := Some x]) (heap w ! a))"
    using assms(2,3) by (auto simp: fun_eq_iff set_elems_def nth_list_update nth_elems nat_less_iff split: key.split)
  moreover have "max n (i + 1) = n" using n assms(3) by simp
  ultimately show ?thesis using n by (simp add: set_elems_def)
qed

lemma del_own_elems:
  assumes "plain_array w a" "0 \<le> i" "i < int (array_len w a)"
  shows "(heap w ! a)\<lparr>props := (props (heap w ! a))(PIdx i := None)\<rparr> = set_elems ((elems_of w a)[nat i := None]) (heap w ! a)"
proof -
  have "(props (heap w ! a))(PIdx i := None) = props (set_elems ((elems_of w a)[nat i := None]) (heap w ! a))"
    using assms(2,3) by (auto simp: fun_eq_iff set_elems_def nth_list_update nth_elems nat_less_iff split: key.split)
  then show ?thesis by (simp add: set_elems_def)
qed

lemma arr_viewD: "0 \<le> i \<Longrightarrow> i < int (length (arr_view a w)) \<Longrightarrow>
   plain_array w a \<and> arr_view a w = elems_of w a \<and> i < int (array_len w a)"
  by (auto simp: arr_view_def split: if_splits)

lemma sparse_of_simps [simp]:
  "has_at (sparse_of H ob) i = has_prop H ob (PIdx i)" "get_at (sparse_of H ob) i = Get H ob (PIdx i)"
  "set_at (sparse_of H ob) i = Put H ob (PIdx i)" "del_at (sparse_of H ob) i = del_prop H ob (PIdx i)"
  by (simp_all add: sparse_of_def)

lemma eng_Get [simp]: "Get H (Obj a) k = get_prop H (Obj a) k" "Put H (Obj a) k v = set_prop H (Obj a) k v"
  by (simp_all add: Get_def Put_def is_nullish_def)

interpretation arr: sparse_array "sparse_of (engine code) (Obj a)" "arr_view a" "arr_upd a" for code a
proof
  fix i :: int and s :: eng and x :: val and xs ys :: "val option list"
  assume i: "0 \<le> i" "i < int (length (arr_view a s))"
  note v = arr_viewD [OF i]
  then have look: "lookup (length (heap s)) (heap s) a (PIdx i) = arr_view a s ! nat i"
    using i by (simp add: plain_array_lookup nth_elems nat_less_iff)
  show "has_at (sparse_of (engine code) (Obj a)) i s = (Ret (arr_view a s ! nat i \<noteq> None), s)"
    by (simp add: run_simps look)
  show "arr_view a s ! nat i = Some x \<Longrightarrow> get_at (sparse_of (engine code) (Obj a)) i s = (Ret x, s)"
    by (simp add: run_simps look)
  show "set_at (sparse_of (engine code) (Obj a)) i x s = (Ret (), arr_upd a ((arr_view a s)[nat i := Some x]) s)"
    using v i by (simp add: run_simps arr_upd_def put_elems_def upd_obj_def put_own_elems [symmetric])
  show "del_at (sparse_of (engine code) (Obj a)) i s = (Ret (), arr_upd a ((arr_view a s)[nat i := None]) s)"
    using v i by (simp add: run_simps arr_upd_def put_elems_def upd_obj_def del_own_elems [symmetric])
next
  fix s :: eng and xs ys :: "val option list"
  show "length xs = length (arr_view a s) \<Longrightarrow> arr_view a (arr_upd a xs s) = xs"
    by (auto simp: arr_view_def arr_upd_def plain_put_elems elems_put_elems split: if_splits)
  show "arr_upd a (arr_view a s) s = s"
    by (simp add: arr_view_def arr_upd_def put_elems_def upd_obj_def set_elems_id [OF refl])
  show "arr_upd a ys (arr_upd a xs s) = arr_upd a ys s" 
  proof (cases "plain_array s a")
    case True
    let ?n = "array_len s a"
    have "plain_array (put_elems a (fit ?n xs) s) a" "array_len (put_elems a (fit ?n xs) s) a = ?n" "a < length (heap s)"
      using True plain_put_elems [OF True, of "fit ?n xs"] by (simp_all add: array_len_def plain_array_def)
    then show ?thesis using True by (simp add: arr_upd_def put_elems_def upd_obj_def set_elems_twice)
  qed (simp add: arr_upd_def)
qed

declare eng_get.simps(1) [simp del] eng_put.simps(1) [simp del] eng_has.simps(1) [simp del] eng_del.simps(1) [simp del]

end
