(* ===== verification/ArrayProps.thy ===== *)
theory ArrayProps
  imports JSEngine
begin

text \<open>
  What the array methods do on the arrays of an engine: the sort, the searches, \<open>copyWithin\<close>,
  \<open>fill\<close>, reductions; and what holds of them on any engine.
\<close>

lemma arr_view_plain: "plain_array w a \<Longrightarrow> arr_view a w = elems_of w a"
  by (simp add: arr_view_def)

lemma arr_upd_plain: "plain_array w a \<Longrightarrow> length xs = array_len w a \<Longrightarrow> arr_upd a xs w = put_elems a xs w"
  by (simp add: arr_upd_def)

lemma length_sort_holes [simp]: "length (sort_holes c xs) = length xs"
  using length_present [of xs] by (simp add: sort_holes_def)

lemma sort_holes_short: "length xs \<le> 1 \<Longrightarrow> sort_holes c xs = xs"
  by (cases xs; cases "hd xs") (auto simp: sort_holes_def Sorting_Algorithms.sort_def)

lemma put_elems_same: "plain_array w a \<Longrightarrow> put_elems a (elems_of w a) w = w"
  using arr.upd_view [of a w] by (simp add: arr_view_plain arr_upd_plain)

section \<open>sort\<close>

text \<open>
  C11: \<open>Array.prototype.sort\<close> with a comparison function. When the function (as \<open>ArraySort\<close> calls
  it, with \<open>undefined\<close> last) has the signs of a linear preorder on the elements, the sort returns the array with
  its elements sorted by it, equal ones in their order, and the holes at the end; nothing else
  changes.
\<close>

theorem ArraySort_sorts:
  assumes a: "plain_array w a" and f: "code f \<noteq> None"
    and cmp: "comparefn_for c valid (SortCompare (engine code) (Obj f))"
    and val: "list_all valid (present (elems_of w a))"
  shows "ArraySort (engine code) (Obj a) [Obj f] w =
    (Ret (Obj a), put_elems a (sort_holes c (elems_of w a)) w)"
proof -
  have call: "IsCallable (engine code) (Obj f) w = (Ret True, w)" using f by (simp add: IsCallable_def run_simps)
  have nat: "eng_intrinsic ''ArrayNativeSort'' [Obj a, Obj f] w = (Ret (Bool False), w)"
    by (simp add: eng_intrinsic_def run_simps)
  note len = plain_array_length [OF a, of code]
  have ms: "MergeSort Undef (sparse_of (engine code) (Obj a)) (int (array_len w a)) (SortCompare (engine code) (Obj f)) w
      = (Ret (), put_elems a (sort_holes c (elems_of w a)) w)"
    using arr.MergeSort_correct [OF cmp, where u = Undef and s = w and a = a] a
    by (simp add: arr_view_plain arr_upd_plain val)
  have short: "put_elems a (sort_holes c (elems_of w a)) w = w" if "array_len w a \<le> 1"
    using that a by (simp add: sort_holes_short put_elems_same)
  show ?thesis
    using short by (simp add: ArraySort_def Let_def run_simps call nat len ms)
qed

section \<open>Searches\<close>

text \<open>The element at an index, if there is one.\<close>

definition elem_at :: "eng \<Rightarrow> nat \<Rightarrow> int \<Rightarrow> val option" where
  "elem_at w a k = (if 0 \<le> k \<and> k < int (array_len w a) then elems_of w a ! nat k else None)"

lemma props_elem_at:
  assumes "plain_array w a"
  shows "props (heap w ! a) (PIdx k) = elem_at w a k"
proof -
  obtain n where n: "array_len w a = nat n" "0 \<le> n" "\<And>i. props (heap w ! a) (PIdx i) \<noteq> None \<Longrightarrow> 0 \<le> i \<and> i < n"
    by (rule plain_arrayD [OF assms]) blast
  show ?thesis
    using n(1,2) n(3) [of k] by (cases "props (heap w ! a) (PIdx k)") (auto simp: elem_at_def nth_elems nat_less_iff)
qed

lemma plain_has: "plain_array w a \<Longrightarrow> eng_has (Obj a) (PIdx k) w = (Ret (elem_at w a k \<noteq> None), w)"
  by (simp add: eng_has.simps run_simps plain_array_lookup props_elem_at)

lemma plain_get: "plain_array w a \<Longrightarrow>
    eng_get (Obj a) (PIdx k) w = (Ret (case elem_at w a k of Some v \<Rightarrow> v | None \<Rightarrow> Undef), w)"
  by (simp add: eng_get.simps run_simps plain_array_lookup props_elem_at)

lemmas plain_simps = plain_has plain_get plain_array_length run_simps

text \<open>Where \<open>indexOf\<close> starts, and the search that it is: the first index with the element.\<close>

definition from_index :: "int \<Rightarrow> inum \<Rightarrow> int" where
  "from_index len n = (case n of IFin i \<Rightarrow> if 0 \<le> i then i else max 0 (len + i) | IPInf \<Rightarrow> len | INInf \<Rightarrow> 0)"

definition first_where :: "(val option \<Rightarrow> bool) \<Rightarrow> eng \<Rightarrow> nat \<Rightarrow> int list \<Rightarrow> int" where
  "first_where P w a ks = (case find (\<lambda>k. P (elem_at w a k)) ks of Some k \<Rightarrow> k | None \<Rightarrow> - 1)"

definition holds :: "(val \<Rightarrow> bool) \<Rightarrow> val option \<Rightarrow> bool" where
  "holds P v = (case v of Some x \<Rightarrow> P x | None \<Rightarrow> False)"

lemma index_probe_plain: "plain_array w a \<Longrightarrow> index_probe (engine code) (Obj a) x k w =
    (Ret (if holds (\<lambda>v. strict_eq v x) (elem_at w a k) then Some (vint k) else None), w)"
  by (auto simp: index_probe_def plain_simps holds_def split: option.split)

text \<open>
  C12: \<open>indexOf\<close> gives the first index, from the starting index on (relative to the end when it
  is negative, clamped to the array), at which there is an element \<open>===\<close> to the searched one,
  and -1 when there is none; holes never match, and nothing changes.
\<close>

theorem ArrayIndexOf_exact:
  assumes a: "plain_array w a"
  shows "ArrayIndexOf (engine code) (Obj a) [x, Num n] w = (Ret (vint (first_where (holds (\<lambda>v. strict_eq v x)) w a
    [from_index (int (array_len w a)) (num_to_integer n)..int (array_len w a) - 1])), w)"
proof -
  let ?len = "int (array_len w a)"
  have loop: "loop_ret k ?len (index_probe (engine code) (Obj a) x) (ret (Num (Fin (- 1)))) w
     = (Ret (vint (first_where (holds (\<lambda>v. strict_eq v x)) w a [k..?len - 1])), w)" for k
    by (subst loop_ret_find [where P = "\<lambda>k. holds (\<lambda>v. strict_eq v x) (elem_at w a k)" and g = vint])
      (simp_all add: index_probe_plain a first_where_def run_simps split: option.split)
  show ?thesis
    by (cases "num_to_integer n")
      (auto simp: ArrayIndexOf_def ToInteger_def plain_simps a loop from_index_def max_def first_where_def Let_def split: if_splits)
qed

definition back_from :: "int \<Rightarrow> inum \<Rightarrow> int" where
  "back_from len n = (case n of IFin i \<Rightarrow> if 0 \<le> i then min i (len - 1) else len + i | IPInf \<Rightarrow> len - 1 | INInf \<Rightarrow> - 1)"

text \<open>
  \<open>lastIndexOf\<close> is the same search from the end: it gives the last such index at or before
  the starting index, which counts from the end when it is negative.
\<close>

theorem ArrayLastIndexOf_exact:
  assumes a: "plain_array w a"
  shows "ArrayLastIndexOf (engine code) (Obj a) [x, Num n] w = (Ret (vint (first_where (holds (\<lambda>v. strict_eq v x)) w a
    (rev [0..back_from (int (array_len w a)) (num_to_integer n)]))), w)"
proof -
  let ?len = "int (array_len w a)"
  have loop: "loop_ret_down k 0 (index_probe (engine code) (Obj a) x) (ret (Num (Fin (- 1)))) w
     = (Ret (vint (first_where (holds (\<lambda>v. strict_eq v x)) w a (rev [0..k]))), w)" for k
    by (subst loop_ret_down_find [where P = "\<lambda>k. holds (\<lambda>v. strict_eq v x) (elem_at w a k)" and g = vint])
      (simp_all add: index_probe_plain a first_where_def run_simps split: option.split)
  show ?thesis
    by (cases "num_to_integer n")
      (auto simp: ArrayLastIndexOf_def ToInteger_def plain_simps a loop back_from_def min_def first_where_def Let_def split: if_splits)
qed

text \<open>
  \<open>includes\<close> is true exactly when some index from the starting index on has the searched
  value up to \<open>SameValueZero\<close> (so NaN is found); a hole counts as \<open>undefined\<close>.
\<close>

theorem ArrayIncludes_exact:
  assumes a: "plain_array w a"
  shows "ArrayIncludes (engine code) (Obj a) [x, Num n] w = (Ret (Bool
    (\<exists>k \<in> {from_index (int (array_len w a)) (num_to_integer n)..<int (array_len w a)}.
       SameValueZero x (case elem_at w a k of Some v \<Rightarrow> v | None \<Rightarrow> Undef))), w)"
proof -
  let ?len = "int (array_len w a)"
  let ?P = "\<lambda>k. SameValueZero x (case elem_at w a k of Some v \<Rightarrow> v | None \<Rightarrow> Undef)"
  have probe: "includes_probe (engine code) (Obj a) x k w = (Ret (if ?P k then Some (Bool True) else None), w)" for k
    by (auto simp: includes_probe_def plain_simps a split: option.split)
  have loop: "loop_ret k ?len (includes_probe (engine code) (Obj a) x) (ret (Bool False)) w
     = (Ret (Bool (\<exists>k \<in> {k..<?len}. ?P k)), w)" for k
    by (subst loop_ret_find [where P = ?P and g = "\<lambda>_. Bool True"])
      (simp_all only: probe find_const run_simps, auto simp: ret_def)
  show ?thesis
    by (cases "num_to_integer n")
      (auto simp: ArrayIncludes_def ToInteger_def plain_simps a loop from_index_def max_def Let_def split: if_splits)
qed

section \<open>fill and copyWithin\<close>

lemma put_elems_twice:
  assumes "plain_array w a" "length xs = array_len w a" "length ys = array_len w a"
  shows "put_elems a ys (put_elems a xs w) = put_elems a ys w"
proof -
  have "a < length (heap w)" using assms(1) by (simp add: plain_array_def)
  then show ?thesis using assms by (simp add: put_elems_def upd_obj_def set_elems_twice)
qed

lemma array_len_put [simp]: "plain_array w a \<Longrightarrow> array_len (put_elems a xs w) a = array_len w a"
  by (simp add: array_len_def plain_array_def)

lemma plain_put:
  assumes "plain_array w a" "0 \<le> k" "k < int (array_len w a)"
  shows "eng_put (Obj a) (PIdx k) x w = (Ret (), put_elems a ((elems_of w a)[nat k := Some x]) w)"
  using arr.set [where i = k and a = a and s = w and x = x] assms by (simp add: arr_view_plain arr_upd_plain)

lemma plain_del:
  assumes "plain_array w a" "0 \<le> k" "k < int (array_len w a)"
  shows "eng_del (Obj a) (PIdx k) w = (Ret (), put_elems a ((elems_of w a)[nat k := None]) w)"
  using arr.del [where i = k and a = a and s = w] assms by (simp add: arr_view_plain arr_upd_plain)

text \<open>A list with the elements at \<open>[lo, hi)\<close> replaced.\<close>

definition fill_range :: "int \<Rightarrow> int \<Rightarrow> 'a \<Rightarrow> 'a list \<Rightarrow> 'a list" where
  "fill_range lo hi x xs = map (\<lambda>i. if lo \<le> int i \<and> int i < hi then x else xs ! i) [0..<length xs]"

lemma length_fill_range [simp]: "length (fill_range lo hi x xs) = length xs"
  by (simp add: fill_range_def)

lemma fill_range_step:
  "0 \<le> lo \<Longrightarrow> lo < hi \<Longrightarrow> fill_range (lo + 1) hi x (xs[nat lo := x]) = fill_range lo hi x xs"
  by (auto simp: fill_range_def nth_list_update intro!: nth_equalityI)

lemma fill_range_empty: "hi \<le> lo \<Longrightarrow> fill_range lo hi x xs = xs"
  by (rule nth_equalityI) (auto simp: fill_range_def)

lemma fill_range_loop:
  "plain_array w a \<Longrightarrow> 0 \<le> k \<Longrightarrow> n \<le> int (array_len w a) \<Longrightarrow>
   for_each k n (\<lambda>k. Put (engine code) (Obj a) (PIdx k) x) w
   = (Ret (), put_elems a (fill_range k n (Some x) (elems_of w a)) w)"
proof (induction "nat (n - k)" arbitrary: k w rule: less_induct)
  case less
  show ?case
  proof (cases "k < n")
    case False
    with less.prems show ?thesis by (simp add: for_each_done run_simps fill_range_empty put_elems_same)
  next
    case True
    let ?w = "put_elems a ((elems_of w a)[nat k := Some x]) w"
    have p: "plain_array ?w a" "elems_of ?w a = (elems_of w a)[nat k := Some x]"
      using less.prems by (simp_all add: plain_put_elems elems_put_elems)
    have "for_each (k + 1) n (\<lambda>k. Put (engine code) (Obj a) (PIdx k) x) ?w
        = (Ret (), put_elems a (fill_range (k + 1) n (Some x) (elems_of ?w a)) ?w)"
      using less.hyps [of "k + 1" ?w] less.prems True p(1) by simp
    then show ?thesis
      using less.prems True by (simp add: for_each_step run_simps plain_put p(2) put_elems_twice fill_range_step)
  qed
qed


text \<open>
  The specification of \<open>copyWithin\<close>: the elements (holes too) at \<open>to ..\<close> are those that were at
  \<open>from ..\<close> before.
\<close>

definition copied :: "int \<Rightarrow> int \<Rightarrow> int \<Rightarrow> 'a list \<Rightarrow> 'a list" where
  "copied frm to n xs = map (\<lambda>i. if to \<le> int i \<and> int i < to + n then xs ! nat (int i - to + frm) else xs ! i) [0..<length xs]"

lemma length_copied [simp]: "length (copied frm to n xs) = length xs"
  by (simp add: copied_def)

lemma copied_zero: "n \<le> 0 \<Longrightarrow> copied frm to n xs = xs"
  by (rule nth_equalityI) (auto simp: copied_def)

text \<open>Copying upwards is right when the target does not lie inside the part still to be read.\<close>

lemma copied_up:
  assumes "0 \<le> frm" "0 \<le> to" "\<not> (frm < to \<and> to < frm + (n + 1))" "frm + (n + 1) \<le> int (length xs)" "to + (n + 1) \<le> int (length xs)" "0 \<le> n"
  shows "copied (frm + 1) (to + 1) n (xs[nat to := xs ! nat frm]) = copied frm to (n + 1) xs"
  using assms
  by (intro nth_equalityI) (auto simp: copied_def nth_list_update nat_eq_iff intro!: arg_cong [where f = "(!) xs"])

lemma copied_down:
  assumes "0 \<le> frm" "frm < to" "to + (n + 1) \<le> int (length xs)" "0 \<le> n"
  shows "copied frm to n (xs[nat (to + n) := xs ! nat (frm + n)]) = copied frm to (n + 1) xs"
  using assms
  by (intro nth_equalityI) (auto simp: copied_def nth_list_update nat_eq_iff intro!: arg_cong [where f = "(!) xs"])

lemma copy_one_plain:
  assumes a: "plain_array w a" and "0 \<le> frm" "frm < int (array_len w a)" "0 \<le> to" "to < int (array_len w a)"
  shows "copy_one (engine code) (Obj a) frm to w = (Ret (), put_elems a ((elems_of w a)[nat to := elems_of w a ! nat frm]) w)"
proof -
  have "elem_at w a frm = elems_of w a ! nat frm" using assms by (simp add: elem_at_def)
  then show ?thesis
    using assms by (cases "elems_of w a ! nat frm") (auto simp: copy_one_def plain_simps plain_put plain_del)
qed

lemma copy_run_up:
  "plain_array w a \<Longrightarrow> 0 \<le> frm \<Longrightarrow> 0 \<le> to \<Longrightarrow> \<not> (frm < to \<and> to < frm + int n) \<Longrightarrow>
   frm + int n \<le> int (array_len w a) \<Longrightarrow> to + int n \<le> int (array_len w a) \<Longrightarrow>
   copy_run (engine code) (Obj a) 1 n frm to w = (Ret (), put_elems a (copied frm to (int n) (elems_of w a)) w)"
proof (induction n arbitrary: frm to w)
  case 0
  then show ?case by (simp add: run_simps copied_zero put_elems_same)
next
  case (Suc n)
  let ?xs = "(elems_of w a)[nat to := elems_of w a ! nat frm]"
  let ?w = "put_elems a ?xs w"
  have p: "plain_array ?w a" "elems_of ?w a = ?xs" "array_len ?w a = array_len w a"
    using Suc.prems(1) by (simp_all add: plain_put_elems elems_put_elems)
  have "copy_run (engine code) (Obj a) 1 n (frm + 1) (to + 1) ?w
      = (Ret (), put_elems a (copied (frm + 1) (to + 1) (int n) (elems_of ?w a)) ?w)"
    by (rule Suc.IH) (use Suc.prems p in auto)
  moreover have "copied (frm + 1) (to + 1) (int n) ?xs = copied frm to (int n + 1) (elems_of w a)"
    by (rule copied_up) (use Suc.prems in auto)
  ultimately show ?case
    using Suc.prems p by (simp add: run_simps copy_one_plain put_elems_twice add.commute)
qed

lemma copy_run_down:
  "plain_array w a \<Longrightarrow> 0 \<le> frm \<Longrightarrow> frm < to \<Longrightarrow> to + int n \<le> int (array_len w a) \<Longrightarrow>
   copy_run (engine code) (Obj a) (- 1) n (frm + int n - 1) (to + int n - 1) w
   = (Ret (), put_elems a (copied frm to (int n) (elems_of w a)) w)"
proof (induction n arbitrary: w)
  case 0
  then show ?case by (simp add: run_simps copied_zero put_elems_same)
next
  case (Suc n)
  let ?xs = "(elems_of w a)[nat (to + int n) := elems_of w a ! nat (frm + int n)]"
  let ?w = "put_elems a ?xs w"
  have p: "plain_array ?w a" "elems_of ?w a = ?xs" "array_len ?w a = array_len w a"
    using Suc.prems(1) by (simp_all add: plain_put_elems elems_put_elems)
  have "copy_run (engine code) (Obj a) (- 1) n (frm + int n - 1) (to + int n - 1) ?w
      = (Ret (), put_elems a (copied frm to (int n) (elems_of ?w a)) ?w)"
    by (rule Suc.IH) (use Suc.prems p in auto)
  moreover have "copied frm to (int n) ?xs = copied frm to (int n + 1) (elems_of w a)"
    by (rule copied_down) (use Suc.prems in auto)
  ultimately show ?case
    using Suc.prems p by (simp add: run_simps copy_one_plain put_elems_twice algebra_simps)
qed

text \<open>
  C16: \<open>copyWithin\<close> with Number bounds moves the elements and the holes as if through a copy of
  the array, also when source and target overlap: the loop's direction is right in every case.
  It never reads or writes outside the array.
\<close>

theorem ArrayCopyWithin_exact:
  assumes a: "plain_array w a"
  shows "let len = int (array_len w a); to = clamp_index len (num_to_integer t);
             frm = clamp_index len (num_to_integer m); final = clamp_index len (num_to_integer n) in
    ArrayCopyWithin (engine code) (Obj a) [Num t, Num m, Num n] w =
      (Ret (Obj a), put_elems a (copied frm to (min (final - frm) (len - to)) (elems_of w a)) w)"
proof -
  let ?len = "int (array_len w a)"
  let ?c = "\<lambda>n. clamp_index ?len (num_to_integer n)"
  let ?n = "min (?c n - ?c m) (?len - ?c t)"
  have b: "0 \<le> ?c x" "?c x \<le> ?len" for x using clamp_index_bounds by simp_all
  have z: "copied (?c m) (?c t) (int (nat ?n)) (elems_of w a) = copied (?c m) (?c t) ?n (elems_of w a)"
  proof (cases "0 \<le> ?n")
    case False
    then have "int (nat ?n) \<le> 0" "?n \<le> 0" by auto
    then show ?thesis by (simp only: copied_zero)
  qed simp
  have up: "copy_run (engine code) (Obj a) 1 (nat ?n) (?c m) (?c t) w
      = (Ret (), put_elems a (copied (?c m) (?c t) ?n (elems_of w a)) w)"
    if "\<not> (?c m < ?c t \<and> ?c t < ?c m + ?n)"
    unfolding z [symmetric] by (rule copy_run_up [OF a]) (use that b [of m] b [of t] b [of n] in auto)
  have down: "copy_run (engine code) (Obj a) (- 1) (nat ?n) (?c m + ?n - 1) (?c t + ?n - 1) w
      = (Ret (), put_elems a (copied (?c m) (?c t) ?n (elems_of w a)) w)"
    if "?c m < ?c t" "?c t < ?c m + ?n"
  proof -
    have n: "int (nat ?n) = ?n" using that b [of t] by simp
    have "?c t + ?n \<le> ?len" by simp
    then show ?thesis using copy_run_down [OF a b(1) that(1), of "nat ?n" code, unfolded n] by blast
  qed
  show ?thesis
    unfolding Let_def
    by (cases "?c m < ?c t \<and> ?c t < ?c m + ?n")
      (use b [of t] in \<open>simp_all add: ArrayCopyWithin_def ToInteger_def plain_array_length [OF a] run_simps Let_def up [simplified] down [simplified]\<close>)
qed

section \<open>some and every\<close>

text \<open>
  C17: on any engine, \<open>some\<close> is the negation of \<open>every\<close> with the negated function: same calls,
  same order, same exceptions, same effects, whatever the object is and whatever its getters
  and the function do.
\<close>

theorem ArraySome_every:
  assumes "\<And>w. callable H w f = callable H w g" "IsObject f" "IsObject g"
    and "\<And>T xs. call_fn H g T xs = bnd (call_fn H f T xs) (\<lambda>r. ret (Bool (\<not> truthy r)))"
  shows "ArraySome H this (f # rest) =
    bnd (ArrayEvery H this (g # rest)) (\<lambda>r. ret (Bool (\<not> truthy r)))"
proof -
  have c: "IsCallable H g = IsCallable H f" using assms(1-3) by (simp add: IsCallable_def)
  then have call: "Call H g T xs = bnd (Call H f T xs) (\<lambda>r. ret (Bool (\<not> truthy r)))" for T xs
    by (auto simp: Call_def assms(4) fun_eq_iff bnd_def throw_def split: prod.splits res.splits)
  have probe: "every_probe H g T ob k = bnd (some_probe H f T ob k) (\<lambda>x. ret (map_option (\<lambda>_. Bool False) x))" for T ob k
    by (auto simp: every_probe_def some_probe_def call fun_eq_iff bnd_def ret_def split: prod.splits res.splits)
  have loop: "loop_ret k n (some_probe H f T ob) (ret (Bool False))
     = bnd (loop_ret k n (every_probe H g T ob) (ret (Bool True))) (\<lambda>r. ret (Bool (\<not> truthy r)))" for k n T ob
  proof (induction "nat (n - k)" arbitrary: k rule: less_induct)
    case less
    show ?case
    proof (cases "k < n")
      case True
      have some: "x = Bool True" if "some_probe H f T ob k s = (Ret (Some x), t)" for x s t
        using that by (auto simp: some_probe_def bnd_def ret_def split: prod.splits res.splits if_splits)
      show ?thesis
        apply (simp only: loop_ret_step [OF True] probe bnd_assoc ret_bnd)
        apply (rule ext, rule bnd_cong_run)
        subgoal for s a t using less.hyps [of "k + 1"] True some [of s "the a" t] by (cases a) simp_all
        done
    qed (simp add: loop_ret_done)
  qed
  show ?thesis
    by (simp add: ArraySome_def ArrayEvery_def CheckCallback_def c bnd_assoc bnd_sq sq_bnd loop Let_def)
qed

end
