(* ===== verification/ArrayCallbacks.thy ===== *)
theory ArrayCallbacks
  imports ArrayProps
begin

text \<open>
  The array methods with callbacks on arrays of the engine, for callbacks that compute a value
  and change nothing: \<open>reduce\<close> and \<open>reduceRight\<close> are folds over the elements present, \<open>filter\<close>
  and \<open>map\<close> make a new array and leave every other object alone.
\<close>

section \<open>Callbacks\<close>

definition computes :: "code_table \<Rightarrow> nat \<Rightarrow> (val \<Rightarrow> val list \<Rightarrow> val) \<Rightarrow> bool" where
  "computes code f g = (\<exists>c. code f = Some c \<and> (\<forall>T args s. c T args s = (Ret (g T args), s)))"

lemma Call_computes: "computes code f g \<Longrightarrow> Call (engine code) (Obj f) T args s = (Ret (g T args), s)"
  by (auto simp: computes_def Call_def IsCallable_def eng_call_def run_simps)

lemma CheckCallback_computes: "computes code f g \<Longrightarrow> CheckCallback (engine code) (Obj f # args) s = (Ret (), s)"
  by (auto simp: computes_def CheckCallback_def IsCallable_def run_simps)

text \<open>The elements present at some indices, with their indices.\<close>

definition entries :: "eng \<Rightarrow> nat \<Rightarrow> int list \<Rightarrow> (int \<times> val) list" where
  "entries w a ks = concat (map (\<lambda>k. case elem_at w a k of Some v \<Rightarrow> [(k, v)] | None \<Rightarrow> []) ks)"

lemma entries_simps [simp]:
  "entries w a [] = []"
  "entries w a (k # ks) = (case elem_at w a k of Some v \<Rightarrow> (k, v) # entries w a ks | None \<Rightarrow> entries w a ks)"
  "entries w a (ks @ ks2) = entries w a ks @ entries w a ks2"
  by (simp_all add: entries_def split: option.split)

section \<open>reduce and reduceRight\<close>

lemma reduce_step_plain:
  "plain_array w a \<Longrightarrow> computes code f g \<Longrightarrow> reduce_step (engine code) (Obj f) (Obj a) k acc w =
    (Ret (case elem_at w a k of Some v \<Rightarrow> g Undef [acc, v, vint k, Obj a] | None \<Rightarrow> acc), w)"
  by (auto simp: reduce_step_def plain_simps Call_computes split: option.split)

definition reduce_fold :: "(val \<Rightarrow> val list \<Rightarrow> val) \<Rightarrow> nat \<Rightarrow> val \<Rightarrow> (int \<times> val) list \<Rightarrow> val" where
  "reduce_fold g a = foldl (\<lambda>acc (k, v). g Undef [acc, v, vint k, Obj a])"

lemma reduce_loop:
  assumes "plain_array w a" "computes code f g"
  shows "for_acc k n (reduce_step (engine code) (Obj f) (Obj a)) acc w = (Ret (reduce_fold g a acc (entries w a [k..n - 1])), w)"
proof (induction "nat (n - k)" arbitrary: k acc rule: less_induct)
  case less
  note step = reduce_step_plain [OF assms]
  show ?case
    by (cases "k < n")
      (simp_all add: for_acc_step for_acc_done run_simps less step reduce_fold_def upto_rec1 split: option.split)
qed

lemma for_acc_down_step: "lo \<le> k \<Longrightarrow> for_acc_down k lo body c = bnd (body k c) (for_acc_down (k - 1) lo body)"
  by (rule ext, simp add: for_acc_down_def for_down_step bnd_assoc, rule bnd_cong_run, simp add: for_acc_down_def)

lemma for_acc_down_done: "k < lo \<Longrightarrow> for_acc_down k lo body c = ret c"
  by (simp add: for_acc_down_def for_down_done)

lemma reduce_loop_down:
  assumes "plain_array w a" "computes code f g"
  shows "for_acc_down k 0 (reduce_step (engine code) (Obj f) (Obj a)) acc w
    = (Ret (reduce_fold g a acc (entries w a (rev [0..k]))), w)"
proof (induction "nat (k + 1)" arbitrary: k acc rule: less_induct)
  case less
  note step = reduce_step_plain [OF assms]
  show ?case
    by (cases "0 \<le> k")
      (simp_all add: for_acc_down_step for_acc_down_done run_simps less step reduce_fold_def upto_rec2 split: option.split)
qed

lemma entries_find:
  "find (\<lambda>k. elem_at w a k \<noteq> None) [lo..n] = Some k \<Longrightarrow>
   entries w a [lo..n] = (k, the (elem_at w a k)) # entries w a [k + 1..n]"
proof (induction "nat (n - lo + 1)" arbitrary: lo rule: less_induct)
  case less
  then have "lo \<le> n" by (cases "lo \<le> n") simp_all
  with less show ?case by (cases "elem_at w a lo") (auto simp: upto_rec1 split: if_splits)
qed

lemma entries_find_rev:
  "find (\<lambda>k. elem_at w a k \<noteq> None) (rev [0..n]) = Some k \<Longrightarrow>
   entries w a (rev [0..n]) = (k, the (elem_at w a k)) # entries w a (rev [0..k - 1])"
proof (induction "nat (n + 1)" arbitrary: n rule: less_induct)
  case less
  then have "0 \<le> n" by (cases "0 \<le> n") simp_all
  with less show ?case by (cases "elem_at w a n") (auto simp: upto_rec2 split: if_splits)
qed

lemma entries_find_None: "find (\<lambda>k. elem_at w a k \<noteq> None) ks = None \<Longrightarrow> entries w a ks = []"
  by (induction ks) (auto split: if_splits)

lemma first_present_plain: "plain_array w a \<Longrightarrow> first_present (engine code) (Obj a) k w
    = (Ret (if elem_at w a k \<noteq> None then Some k else None), w)"
  by (simp add: first_present_def plain_simps)

text \<open>What a reduction gives: the fold from the initial value, or from the first element; a
  TypeError when there is neither.\<close>

definition reduction :: "(val \<Rightarrow> val list \<Rightarrow> val) \<Rightarrow> nat \<Rightarrow> val list \<Rightarrow> (int \<times> val) list \<Rightarrow> (exn, val) res" where
  "reduction g a init kvs = (case init of
      v # _ \<Rightarrow> Ret (reduce_fold g a v kvs)
    | [] \<Rightarrow> (case kvs of
        (k, v) # kvs' \<Rightarrow> Ret (reduce_fold g a v kvs')
      | [] \<Rightarrow> Throw (TypeErr ''JSMSG_EMPTY_ARRAY_REDUCE'')))"

text \<open>
  C18: \<open>reduce\<close> is the left fold of the function over the elements present (holes are skipped),
  from the initial value or from the first element; without an initial value it throws a
  TypeError on an array of holes or an empty one.
\<close>

theorem ArrayReduce_fold:
  assumes a: "plain_array w a" and f: "computes code f g"
  shows "ArrayReduce (engine code) (Obj a) (Obj f # init) w =
    (reduction g a init (entries w a [0..int (array_len w a) - 1]), w)"
proof -
  let ?len = "int (array_len w a)"
  note simps = ArrayReduce_def plain_simps a CheckCallback_computes [OF f] reduce_loop [OF a f] reduction_def
  show ?thesis
  proof (cases init)
    case (Cons v vs)
    then show ?thesis by (simp add: simps)
  next
    case Nil
    have find: "loop_ret 0 ?len (first_present (engine code) (Obj a)) e w
       = (case find (\<lambda>k. elem_at w a k \<noteq> None) [0..?len - 1] of Some k \<Rightarrow> (Ret k, w) | None \<Rightarrow> e w)" for e
      by (rule loop_ret_find [where g = "\<lambda>k. k"]) (rule first_present_plain [OF a])
    show ?thesis
    proof (cases "find (\<lambda>k. elem_at w a k \<noteq> None) [0..?len - 1]")
      case None
      then show ?thesis using Nil entries_find_None [OF None] by (simp add: simps find)
    next
      case (Some k)
      moreover obtain v where "elem_at w a k = Some v" using Some by (auto simp: find_Some_iff)
      moreover have "array_len w a \<noteq> 0" using Some by (cases "array_len w a") simp_all
      ultimately show ?thesis using Nil entries_find [OF Some] by (simp add: simps find)
    qed
  qed
qed

text \<open>
  \<open>reduceRight\<close> is the same fold over the elements in reverse order.
\<close>

theorem ArrayReduceRight_fold:
  assumes a: "plain_array w a" and f: "computes code f g"
  shows "ArrayReduceRight (engine code) (Obj a) (Obj f # init) w =
    (reduction g a init (rev (entries w a [0..int (array_len w a) - 1])), w)"
proof -
  let ?len = "int (array_len w a)"
  have rev: "entries w a (rev ks) = rev (entries w a ks)" for ks
    by (induction ks) (auto split: option.split)
  note simps = ArrayReduceRight_def plain_simps a CheckCallback_computes [OF f] reduce_loop_down [OF a f] reduction_def rev [symmetric]
  show ?thesis
  proof (cases init)
    case (Cons v vs)
    then show ?thesis by (simp add: simps)
  next
    case Nil
    have find: "loop_ret_down (?len - 1) 0 (first_present (engine code) (Obj a)) e w
       = (case find (\<lambda>k. elem_at w a k \<noteq> None) (rev [0..?len - 1]) of Some k \<Rightarrow> (Ret k, w) | None \<Rightarrow> e w)" for e
      by (rule loop_ret_down_find [where g = "\<lambda>k. k"]) (rule first_present_plain [OF a])
    show ?thesis
    proof (cases "find (\<lambda>k. elem_at w a k \<noteq> None) (rev [0..?len - 1])")
      case None
      then show ?thesis using Nil entries_find_None [OF None] by (simp add: simps find)
    next
      case (Some k)
      moreover obtain v where "elem_at w a k = Some v" using Some by (auto simp: find_Some_iff)
      moreover have "array_len w a \<noteq> 0" using Some by (cases "array_len w a") simp_all
      ultimately show ?thesis using Nil entries_find_rev [OF Some] by (simp add: simps find)
    qed
  qed
qed

section \<open>filter and map\<close>

text \<open>The heap with one more object.\<close>

definition add_obj :: "jobj \<Rightarrow> eng \<Rightarrow> eng" where
  "add_obj r w = w\<lparr>heap := heap w @ [r]\<rparr>"

lemma add_obj_simps [simp]: "heap (add_obj r w) = heap w @ [r]"
  by (simp add: add_obj_def)

lemma clean_chain_append: "clean_chain n h a p \<Longrightarrow> clean_chain (Suc n) (h @ [r]) a p"
proof (induction n h a p rule: clean_chain.induct)
  case (3 n h a p)
  then have "clean_chain (Suc n) (h @ [r]) a (proto (h ! p))" by simp
  with 3(2) show ?case by (simp add: nth_append)
qed simp_all

lemma plain_add_obj:
  assumes "plain_array w a"
  shows "plain_array (add_obj r w) a" "elem_at (add_obj r w) a = elem_at w a" "array_len (add_obj r w) a = array_len w a"
proof -
  have a: "a < length (heap w)" and c: "clean_chain (length (heap w) - 1) (heap w) a (proto (heap w ! a))"
    using assms by (simp_all add: plain_array_def)
  have "clean_chain (length (heap w)) (heap w @ [r]) a (proto (heap w ! a))"
    using clean_chain_append [OF c, of r] a by (cases "length (heap w)") simp_all
  then show "plain_array (add_obj r w) a"
    using assms a by (auto simp: plain_array_def nth_append split: option.splits)
  show l: "array_len (add_obj r w) a = array_len w a" using a by (simp add: array_len_def nth_append)
  show "elem_at (add_obj r w) a = elem_at w a"
    using a l by (auto simp: fun_eq_iff elem_at_def nth_elems nth_append nat_less_iff)
qed

text \<open>
  The realm is as the engine makes it: the array's constructor is \<open>Array\<close>, whose species is
  itself. Then a new array is made at the end of the heap.
\<close>

definition std_realm :: "code_table \<Rightarrow> eng \<Rightarrow> nat \<Rightarrow> bool" where
  "std_realm code w a = (eng_get (Obj a) (pstr ''constructor'') w = (Ret (Obj array_ctor), w)
     \<and> eng_get (Obj array_ctor) std_species w = (Ret (Obj array_ctor), w)
     \<and> class_name (heap w ! array_ctor) \<noteq> ''CrossRealmArrayConstructor'')"

lemma ArraySpeciesCreate_std:
  assumes a: "plain_array w a" and r: "std_realm code w a" and n: "0 \<le> n" "n \<le> max_array_len"
  shows "ArraySpeciesCreate (engine code) (Obj a) n w =
    (Ret (Obj (length (heap w))), add_obj (array_obj (replicate (nat n) None)) w)"
proof -
  have arr: "arr_len (heap w ! a) \<noteq> None" "a < length (heap w)" by (rule plain_arrayD [OF a], simp)+
  have new: "eng_new_array n w = (Ret (Obj (length (heap w))), add_obj (array_obj (replicate (nat n) None)) w)"
    using n by (simp add: eng_new_array_def eng_new_def run_simps add_obj_def)
  have IA: "IsArray (engine code) (Obj a) w = (Ret True, w)" using arr by (simp add: IsArray_def run_simps)
  have IC: "IsConstructor (engine code) (Obj array_ctor) w = (Ret True, w)" by (simp add: IsConstructor_def run_simps)
  have HC: "HasClass (engine code) ''CrossRealmArrayConstructor'' (Obj array_ctor) w = (Ret False, w)"
    using r by (simp add: HasClass_def run_simps std_realm_def)
  have GB: "GetBuiltinConstructor (engine code) ''Array'' w = (Ret (Obj array_ctor), w)"
    by (simp add: GetBuiltinConstructor_def run_simps)
  show ?thesis
    using r n(1) by (simp add: ArraySpeciesCreate_def run_simps std_realm_def IA IC HC GB new)
qed

lemma put_array_obj_end:
  "put_own (PIdx (int (length ys))) v (array_obj (map Some ys)) = array_obj (map Some ys @ [Some v])"
  by (auto simp: array_obj_def plain_obj_def fun_eq_iff nth_append nat_less_iff split: key.split)

lemma eng_put_last: "eng_put (Obj (length (heap w))) k v (add_obj r w) = (Ret (), add_obj (put_own k v r) w)"
  by (simp add: eng_put.simps run_simps upd_obj_def add_obj_def nth_append)

text \<open>The elements that a predicate selects.\<close>

definition selected :: "(val \<Rightarrow> val list \<Rightarrow> val) \<Rightarrow> val \<Rightarrow> nat \<Rightarrow> (int \<times> val) list \<Rightarrow> val list" where
  "selected g T a kvs = map snd (filter (\<lambda>(k, v). truthy (g T [v, vint k, Obj a])) kvs)"

lemma filter_loop:
  assumes a: "plain_array w a" and f: "computes code f g"
  shows "for_acc k n (filter_step (engine code) (Obj f) T (Obj a) (Obj (length (heap w)))) (int (length ys)) (add_obj (array_obj (map Some ys)) w)
    = (Ret (int (length (ys @ selected g T a (entries w a [k..n - 1])))),
       add_obj (array_obj (map Some (ys @ selected g T a (entries w a [k..n - 1])))) w)"
proof (induction "nat (n - k)" arbitrary: k ys rule: less_induct)
  case less
  let ?b = "length (heap w)" and ?w = "add_obj (array_obj (map Some ys)) w"
  let ?ys = "ys @ selected g T a (entries w a [k])"
  have step: "filter_step (engine code) (Obj f) T (Obj a) (Obj ?b) k (int (length ys)) ?w
      = (Ret (int (length ?ys)), add_obj (array_obj (map Some ?ys)) w)"
    by (cases "elem_at w a k")
      (auto simp: filter_step_def plain_simps plain_add_obj [OF a] Call_computes [OF f] selected_def eng_put_last put_array_obj_end simp del: put_own.simps)
  show ?case
  proof (cases "k < n")
    case True
    then have e: "entries w a [k..n - 1] = entries w a [k] @ entries w a [k + 1..n - 1]"
      by (simp add: upto_rec1 split: option.split)
    show ?thesis
      using less.hyps [of "k + 1" ?ys] True step
      by (simp add: for_acc_step run_simps e) (simp add: selected_def)
  qed (simp add: for_acc_done run_simps selected_def)
qed

text \<open>
  C20: \<open>filter\<close> returns a new array with exactly the elements for which the function gives a true
  value, in their order and without holes; the array and every other object are unchanged.
\<close>

theorem ArrayFilter_exact:
  assumes a: "plain_array w a" and f: "computes code f g" and r: "std_realm code w a"
  shows "ArrayFilter (engine code) (Obj a) (Obj f # args) w =
    (Ret (Obj (length (heap w))),
     add_obj (array_obj (map Some (selected g (arg args 0) a (entries w a [0..int (array_len w a) - 1])))) w)"
  using filter_loop [OF a f, of 0 "int (array_len w a)" "arg args 0" "[]"]
  by (simp add: ArrayFilter_def plain_simps a CheckCallback_computes [OF f] Let_def
      ArraySpeciesCreate_std [OF a r] max_array_len_def)

definition map_elems :: "(val \<Rightarrow> val list \<Rightarrow> val) \<Rightarrow> val \<Rightarrow> nat \<Rightarrow> val option list \<Rightarrow> val option list" where
  "map_elems g T a xs = map (\<lambda>i. map_option (\<lambda>v. g T [v, vint (int i), Obj a]) (xs ! i)) [0..<length xs]"

lemma put_array_obj_at:
  assumes "0 \<le> k" "k < int (length xs)"
  shows "put_own (PIdx k) v (array_obj xs) = array_obj (xs[nat k := Some v])"
proof -
  have "max (int (length xs)) (k + 1) = int (length xs)" using assms by simp
  then show ?thesis
    using assms by (auto simp: array_obj_def plain_obj_def fun_eq_iff nth_list_update nat_less_iff split: key.split)
qed

lemma map_elems_loop:
  assumes a: "plain_array w a" and f: "computes code f g" and n: "n = int (array_len w a)"
  shows "0 \<le> k \<Longrightarrow> k \<le> n \<Longrightarrow> length ys = array_len w a \<Longrightarrow>
    take (nat k) ys = take (nat k) (map_elems g T a (elems_of w a)) \<Longrightarrow> (\<forall>i \<ge> nat k. i < length ys \<longrightarrow> ys ! i = None) \<Longrightarrow>
    for_each k n (map_step (engine code) (Obj f) T (Obj a) (Obj (length (heap w)))) (add_obj (array_obj ys) w)
    = (Ret (), add_obj (array_obj (map_elems g T a (elems_of w a))) w)"
proof (induction "nat (n - k)" arbitrary: k ys rule: less_induct)
  case less
  let ?zs = "map_elems g T a (elems_of w a)"
  have len: "length ?zs = array_len w a" by (simp add: map_elems_def)
  show ?case
  proof (cases "k < n")
    case False
    then have "ys = ?zs" using less.prems n len by simp
    with False show ?thesis by (simp add: for_each_done run_simps)
  next
    case True
    let ?ys = "ys[nat k := ?zs ! nat k]"
    have k: "nat k < length ys" "nat (k + 1) = Suc (nat k)" using True less.prems n by auto
    have e: "elem_at w a k = elems_of w a ! nat k" using True less.prems n by (simp add: elem_at_def)
    have z: "?zs ! nat k = map_option (\<lambda>v. g T [v, vint k, Obj a]) (elem_at w a k)"
      using k(1) less.prems(1,3) e by (simp add: map_elems_def)
    have step: "map_step (engine code) (Obj f) T (Obj a) (Obj (length (heap w))) k (add_obj (array_obj ys) w)
        = (Ret (), add_obj (array_obj ?ys) w)"
    proof (cases "elem_at w a k")
      case None
      then have "?ys = ys" using z less.prems(5) k(1) by (metis list_update_id option.map(1) order_refl)
      with None show ?thesis by (simp add: map_step_def plain_simps plain_add_obj [OF a])
    next
      case (Some v)
      have "0 \<le> k" "k < int (length ys)" using k(1) less.prems(1) by auto
      with Some z show ?thesis
        by (simp add: map_step_def plain_simps plain_add_obj [OF a] Call_computes [OF f] eng_put_last put_array_obj_at del: put_own.simps)
    qed
    have "for_each (k + 1) n (map_step (engine code) (Obj f) T (Obj a) (Obj (length (heap w)))) (add_obj (array_obj ?ys) w)
        = (Ret (), add_obj (array_obj ?zs) w)"
    proof (rule less.hyps)
      show "take (nat (k + 1)) ?ys = take (nat (k + 1)) ?zs"
        using k less.prems(3,4) len by (simp add: take_Suc_conv_app_nth)
    qed (use True less.prems k in auto)
    with step True show ?thesis by (simp add: for_each_step run_simps)
  qed
qed

text \<open>
  C21: \<open>map\<close> returns a new array of the same length with the function applied to every element
  present, holes where the array has holes; the array and every other object are unchanged.
\<close>

theorem ArrayMap_exact:
  assumes a: "plain_array w a" and f: "computes code f g" and r: "std_realm code w a"
  shows "ArrayMap (engine code) (Obj a) (Obj f # args) w =
    (Ret (Obj (length (heap w))), add_obj (array_obj (map_elems g (arg args 0) a (elems_of w a))) w)"
proof -
  have n: "int (array_len w a) \<le> max_array_len" by (rule plain_arrayD [OF a]) simp
  show ?thesis
    using map_elems_loop [OF a f refl, of 0 "replicate (array_len w a) None" "arg args 0"]
    by (simp add: ArrayMap_def plain_simps a CheckCallback_computes [OF f] Let_def
        ArraySpeciesCreate_std [OF a r _ n])
qed

end
