(* ===== verification/ArrayExamples.thy ===== *)
theory ArrayExamples
  imports ArrayCallbacks "HOL-Library.Product_Lexorder"
begin

text \<open>
  A small realm of the engine: the prototypes, the \<open>Array\<close> constructor and one array with a
  hole, with functions to call; the properties of the array methods at work on it.
\<close>

section \<open>The realm\<close>

definition ex_proto :: jobj where
  "ex_proto = plain_obj\<lparr>proto := None\<rparr>"

definition ex_array_proto :: jobj where
  "ex_array_proto = plain_obj\<lparr>props := [pstr ''constructor'' \<mapsto> Obj array_ctor]\<rparr>"

definition ex_array_ctor :: jobj where
  "ex_array_ctor = plain_obj\<lparr>props := [std_species \<mapsto> Obj array_ctor]\<rparr>"

definition ex_realm :: "val option list \<Rightarrow> eng" where
  "ex_realm xs = \<lparr>heap = [ex_proto, ex_array_proto, ex_array_ctor, array_obj xs]\<rparr>"

lemma ex_plain: "int (length xs) \<le> max_array_len \<Longrightarrow> plain_array (ex_realm xs) 3"
  by (simp add: plain_array_def ex_realm_def array_obj_def ex_proto_def ex_array_proto_def plain_obj_def
      array_proto_def object_proto_def numeral_3_eq_3 js_def)

lemma ex_len: "array_len (ex_realm xs) 3 = length xs"
  by (simp add: array_len_def ex_realm_def array_obj_def)

lemma ex_elems: "elems_of (ex_realm xs) 3 = xs"
  by (rule nth_equalityI) (simp_all add: ex_len nth_elems, simp add: ex_realm_def array_obj_def)

lemma ex_std: "std_realm code (ex_realm xs) 3"
  by (simp add: std_realm_def ex_realm_def eng_get.simps run_simps own_prop_def array_obj_def ex_proto_def
      ex_array_proto_def ex_array_ctor_def plain_obj_def array_proto_def array_ctor_def object_proto_def
      numeral_3_eq_3 numeral_2_eq_2 js_def std_species_def)

text \<open>Functions: the difference of two Numbers, their sum, a test for a positive Number.\<close>

fun rat_of :: "val \<Rightarrow> rat" where
  "rat_of (Num (Fin r)) = r"
| "rat_of _ = 0"

definition ex_sub :: "val \<Rightarrow> val list \<Rightarrow> val" where
  "ex_sub T args = Num (Fin (rat_of (arg args 0) - rat_of (arg args 1)))"

definition ex_sum :: "val \<Rightarrow> val list \<Rightarrow> val" where
  "ex_sum T args = Num (Fin (rat_of (arg args 0) + rat_of (arg args 1)))"

definition ex_pos :: "val \<Rightarrow> val list \<Rightarrow> val" where
  "ex_pos T args = Bool (0 < rat_of (arg args 0))"

definition ex_neg :: "val \<Rightarrow> val list \<Rightarrow> val" where
  "ex_neg T args = Bool (\<not> 0 < rat_of (arg args 0))"

definition ex_code :: code_table where
  "ex_code f = (if f = 10 then Some (\<lambda>T args. ret (ex_sub T args))
     else if f = 11 then Some (\<lambda>T args. ret (ex_sum T args))
     else if f = 12 then Some (\<lambda>T args. ret (ex_pos T args))
     else if f = 13 then Some (\<lambda>T args. ret (ex_neg T args))
     else None)"

lemma ex_computes: "computes ex_code 10 ex_sub" "computes ex_code 11 ex_sum" "computes ex_code 12 ex_pos"
  by (simp_all add: computes_def ex_code_def run_simps)

section \<open>Witnesses\<close>

definition ex_valid :: "val \<Rightarrow> bool" where
  "ex_valid v = (v = Undef \<or> (\<exists>r. v = Num (Fin r)))"

definition ex_order :: "val comparator" where
  "ex_order = key (\<lambda>v. (v = Undef, rat_of v)) default"

lemma ex_comparefn: "comparefn_for ex_order ex_valid (SortCompare (engine ex_code) (Obj 10))"
  by (auto simp: comparefn_for_def SortCompare_def ex_valid_def ex_order_def Call_computes [OF ex_computes(1)] run_simps
      ex_sub_def less_prod_def num_gt_def num_le_def num_eq_def)

definition ex_xs :: "val option list" where
  "ex_xs = [Some (vint 3), None, Some (vint 1), Some (vint (- 2))]"

lemma ex_xs_plain: "plain_array (ex_realm ex_xs) 3"
  by (rule ex_plain) (simp add: ex_xs_def max_array_len_def)

lemmas ex_xs_simps = ex_len ex_elems

lemma ex_xs_valid: "list_all ex_valid (present (elems_of (ex_realm ex_xs) 3))"
  unfolding ex_elems by (auto simp: ex_xs_def ex_valid_def)

theorem ArraySort_sorts_witness:
  "ArraySort (engine ex_code) (Obj 3) [Obj 10] (ex_realm ex_xs)
   = (Ret (Obj 3), put_elems 3 (sort_holes ex_order (elems_of (ex_realm ex_xs) 3)) (ex_realm ex_xs))"
  by (rule ArraySort_sorts [OF ex_xs_plain _ ex_comparefn ex_xs_valid]) (simp add: ex_code_def)

theorem ArrayIndexOf_exact_witness:
  "ArrayIndexOf (engine ex_code) (Obj 3) [vint 1, vint (- 3)] (ex_realm ex_xs) = (Ret (vint 2), ex_realm ex_xs)"
  using ArrayIndexOf_exact [OF ex_xs_plain, of ex_code "vint 1" "nint (- 3)"]
  by (simp add: ex_xs_simps from_index_def first_where_def holds_def elem_at_def ex_xs_def upto_rec1 num_eq_def rat_trunc_def)

theorem ArrayLastIndexOf_exact_witness:
  "ArrayLastIndexOf (engine ex_code) (Obj 3) [vint 3, Num PInf] (ex_realm ex_xs) = (Ret (vint 0), ex_realm ex_xs)"
  using ArrayLastIndexOf_exact [OF ex_xs_plain, of ex_code "vint 3" PInf]
  by (simp add: ex_xs_simps back_from_def first_where_def holds_def elem_at_def ex_xs_def upto_rec1 num_eq_def)

theorem ArrayIncludes_exact_witness:
  "ArrayIncludes (engine ex_code) (Obj 3) [Undef, vint 1] (ex_realm ex_xs) = (Ret (Bool True), ex_realm ex_xs)"
proof -
  have "\<exists>k \<in> {1..<4 :: int}. SameValueZero Undef (case elem_at (ex_realm ex_xs) 3 k of Some v \<Rightarrow> v | None \<Rightarrow> Undef)"
    by (rule bexI [of _ 1]) (simp_all add: elem_at_def ex_xs_simps ex_xs_def SameValueZero_def)
  then show ?thesis
    using ArrayIncludes_exact [OF ex_xs_plain, of ex_code Undef "nint 1"]
    by (simp add: ex_xs_simps from_index_def rat_trunc_def ex_xs_def)
qed


theorem ArrayCopyWithin_exact_witness:
  "ArrayCopyWithin (engine ex_code) (Obj 3) [vint 1, vint 0, vint 3] (ex_realm ex_xs)
   = (Ret (Obj 3), put_elems 3 [Some (vint 3), Some (vint 3), None, Some (vint 1)] (ex_realm ex_xs))"
  using ArrayCopyWithin_exact [OF ex_xs_plain, where code = ex_code and t = "nint 1" and m = "nint 0" and n = "nint 3"]
  by (simp add: ex_xs_simps clamp_index_def rat_trunc_def copied_def ex_xs_def upt_rec Let_def)

theorem ArraySome_every_witness:
  "ArraySome (engine ex_code) (Obj 3) [Obj 12] = bnd (ArrayEvery (engine ex_code) (Obj 3) [Obj 13]) (\<lambda>r. ret (Bool (\<not> truthy r)))"
  by (rule ArraySome_every) (auto simp: ex_code_def eng_call_def ex_pos_def ex_neg_def)

theorem ArrayReduce_fold_witness:
  "ArrayReduce (engine ex_code) (Obj 3) [Obj 11] (ex_realm ex_xs) = (Ret (vint 2), ex_realm ex_xs)"
  using ArrayReduce_fold [OF ex_xs_plain ex_computes(2), of "[]"]
  by (simp add: ex_xs_simps reduction_def reduce_fold_def elem_at_def ex_xs_def upto_rec1 ex_sum_def)

theorem ArrayReduceRight_fold_witness:
  "ArrayReduceRight (engine ex_code) (Obj 3) [Obj 10] (ex_realm ex_xs) = (Ret (vint (- 6)), ex_realm ex_xs)"
  using ArrayReduceRight_fold [OF ex_xs_plain ex_computes(1), of "[]"]
  by (simp add: ex_xs_simps reduction_def reduce_fold_def elem_at_def ex_xs_def upto_rec1 ex_sub_def)

theorem ArrayFilter_exact_witness:
  "ArrayFilter (engine ex_code) (Obj 3) [Obj 12] (ex_realm ex_xs)
   = (Ret (Obj 4), add_obj (array_obj [Some (vint 3), Some (vint 1)]) (ex_realm ex_xs))"
  using ArrayFilter_exact [OF ex_xs_plain ex_computes(3) ex_std, of "[]"]
  by (simp add: ex_xs_simps selected_def elem_at_def ex_xs_def upto_rec1 ex_pos_def) (simp add: ex_realm_def)

theorem ArrayMap_exact_witness:
  "ArrayMap (engine ex_code) (Obj 3) [Obj 12] (ex_realm ex_xs)
   = (Ret (Obj 4), add_obj (array_obj [Some (Bool True), None, Some (Bool True), Some (Bool False)]) (ex_realm ex_xs))"
  using ArrayMap_exact [OF ex_xs_plain ex_computes(3) ex_std, of "[]"]
  by (simp add: ex_xs_simps map_elems_def ex_xs_def upt_rec ex_pos_def) (simp add: ex_realm_def)

end
