(* ===== verification/StringExamples.thy ===== *)
theory StringExamples
  imports StringProps ArrayExamples
begin

text \<open>The properties of the string methods on concrete strings, in the engine of the array examples.\<close>

definition abc :: jstr where
  "abc = [97, 98, 99]"

lemma js_abc: "js_string abc"
  by (simp add: js_string_def abc_def MAX_STRING_LENGTH_def)

theorem String_substring_exact_witness:
  "String_substring (engine ex_code) (Str abc) [vint 3, vint 1] (ex_realm []) = (Ret [98, 99], ex_realm [])"
  using String_substring_exact [OF js_abc, of "Fin 3" "Fin 1" "engine ex_code" "ex_realm []"] num_to_integer_nint [of 3] num_to_integer_nint [of 1]
  by (simp add: part_def clamp0_def abc_def)


theorem String_substr_exact_witness:
  "String_substr (engine ex_code) (Str abc) [vint (- 2), vint 1] (ex_realm []) = (Ret [98], ex_realm [])"
  using String_substr_exact [OF js_abc, of "Fin (- 2)" "Fin 1" "engine ex_code" "ex_realm []"] num_to_integer_nint [of "- 2"] num_to_integer_nint [of 1]
  by (simp add: part_def abc_def)

theorem String_repeat_exact_witness:
  "String_repeat (engine ex_code) (Str abc) [vint 2] (ex_realm []) = (Ret [97, 98, 99, 97, 98, 99], ex_realm [])"
  using String_repeat_exact [OF js_abc, of "engine ex_code" "Fin 2" "ex_realm []"] num_to_integer_nint [of 2]
  by (simp add: abc_def MAX_STRING_LENGTH_def times_def numeral_2_eq_2)

end
