(* ===== verification/TypedArrayBuiltins.thy ===== *)
theory TypedArrayBuiltins
  imports ArrayBuiltins
begin

text \<open>
  TypedArray.js over any engine: the validation and creation of typed arrays, the methods of
  \<open>%TypedArray%.prototype\<close> and \<open>%TypedArray%\<close> (the sort is in \<open>TypedSort\<close>), and the
  \<open>slice\<close> methods of the array buffers. A method of a wrapped typed array goes to the native
  \<open>CallTypedArrayMethodIfWrapped\<close>, with the arguments and the name.
\<close>

section \<open>Layout\<close>

definition JS_TYPEDARRAYLAYOUT_BUFFER_SLOT :: nat where "JS_TYPEDARRAYLAYOUT_BUFFER_SLOT = 0"
definition JS_ARRAYBUFFER_FLAGS_SLOT :: nat where "JS_ARRAYBUFFER_FLAGS_SLOT = 3"
definition JS_ARRAYBUFFER_DETACHED_FLAG :: int where "JS_ARRAYBUFFER_DETACHED_FLAG = 8"
definition TYPEDARRAY_KIND_BIGINT64 :: int where "TYPEDARRAY_KIND_BIGINT64 = 9"
definition TYPEDARRAY_KIND_BIGUINT64 :: int where "TYPEDARRAY_KIND_BIGUINT64 = 10"

definition TypedArrayLength_of :: "'w host \<Rightarrow> val \<Rightarrow> ('w, int) jprog" where
  "TypedArrayLength_of H ob = NativeInt H ''TypedArrayLength'' [ob]"

text \<open>The operators \<open>| 0\<close> and \<open><<\<close> on integers.\<close>

definition js_shift_left :: "int \<Rightarrow> int \<Rightarrow> int" where
  "js_shift_left i n = to_int32 (to_int32 i * 2 ^ nat (n mod 32))"

section \<open>Buffers\<close>

definition ViewedArrayBufferIfReified :: "'w host \<Rightarrow> val \<Rightarrow> ('w, val) jprog" where
  "ViewedArrayBufferIfReified H tarray =
     bnd (HasClass H ''TypedArray'' tarray) (\<lambda>t.
     sq (asrt t ''non-typed array asked for its buffer'')
    (bnd (get_slot H tarray JS_TYPEDARRAYLAYOUT_BUFFER_SLOT) (\<lambda>buf.
     bnd (HasClass H ''ArrayBuffer'' buf) (\<lambda>ab.
     bnd (HasClass H ''SharedArrayBuffer'' buf) (\<lambda>sab.
     sq (asrt (buf = Null \<or> IsObject buf \<and> (ab \<or> sab)) ''unexpected value in buffer slot'')
        (ret buf))))))"

definition IsDetachedBuffer :: "'w host \<Rightarrow> val \<Rightarrow> ('w, bool) jprog" where
  "IsDetachedBuffer H buffer =
     (if buffer = Null then ret False
      else
        bnd (HasClass H ''ArrayBuffer'' buffer) (\<lambda>ab.
        bnd (HasClass H ''SharedArrayBuffer'' buffer) (\<lambda>sab.
        sq (asrt (ab \<or> sab) ''non-ArrayBuffer passed to IsDetachedBuffer'')
       (if \<not> ab then ret False
        else
          bnd (IntOf (get_slot H buffer JS_ARRAYBUFFER_FLAGS_SLOT)) (\<lambda>flags.
          ret (and flags JS_ARRAYBUFFER_DETACHED_FLAG \<noteq> 0))))))"

definition GetAttachedArrayBuffer :: "'w host \<Rightarrow> val \<Rightarrow> ('w, val) jprog" where
  "GetAttachedArrayBuffer H tarray =
     bnd (ViewedArrayBufferIfReified H tarray) (\<lambda>buffer.
     bnd (IsDetachedBuffer H buffer) (\<lambda>d.
     if d then throw (TypeErr ''JSMSG_TYPED_ARRAY_DETACHED'') else ret buffer))"

text \<open>The methods that \<open>CallTypedArrayMethodIfWrapped\<close> calls in the other compartment.\<close>

definition TypedArrayLengthMethod :: "'w host \<Rightarrow> val \<Rightarrow> ('w, int) jprog" where
  "TypedArrayLengthMethod H this = TypedArrayLength_of H this"

definition TypedArrayByteOffsetMethod :: "'w host \<Rightarrow> val \<Rightarrow> ('w, int) jprog" where
  "TypedArrayByteOffsetMethod H this = NativeInt H ''TypedArrayByteOffset'' [this]"

definition GetAttachedArrayBufferMethod :: "'w host \<Rightarrow> val \<Rightarrow> ('w, val) jprog" where
  "GetAttachedArrayBufferMethod H this = GetAttachedArrayBuffer H this"

definition IsDetachedBufferThis :: "'w host \<Rightarrow> val \<Rightarrow> ('w, bool) jprog" where
  "IsDetachedBufferThis H this = IsDetachedBuffer H this"

definition IsTypedArrayEnsuringArrayBuffer :: "'w host \<Rightarrow> val \<Rightarrow> ('w, bool) jprog" where
  "IsTypedArrayEnsuringArrayBuffer H v =
     bnd (HasClass H ''TypedArray'' v) (\<lambda>t.
     if t then sq (GetAttachedArrayBuffer H v) (ret True)
     else sq (intrinsic H ''CallTypedArrayMethodIfWrapped'' [v, vstr ''GetAttachedArrayBufferMethod'']) (ret False))"

text \<open>The length of what was found to be a typed array or a wrapper of one.\<close>

definition PossiblyWrappedLength :: "'w host \<Rightarrow> bool \<Rightarrow> val \<Rightarrow> ('w, int) jprog" where
  "PossiblyWrappedLength H isTypedArray ob =
     (if isTypedArray then TypedArrayLength_of H ob
      else NativeInt H ''CallTypedArrayMethodIfWrapped'' [ob, vstr ''TypedArrayLengthMethod''])"

section \<open>Creation\<close>

definition TypedArraySpeciesConstructor :: "'w host \<Rightarrow> val \<Rightarrow> ('w, val) jprog" where
  "TypedArraySpeciesConstructor H obj =
     sq (asrt (IsObject obj) ''not passed an object'')
    (bnd (Get H obj (pstr ''constructor'')) (\<lambda>ctor.
     if ctor = Undef then intrinsic H ''_ConstructorForTypedArray'' [obj]
     else if \<not> IsObject ctor then throw (TypeErr ''JSMSG_OBJECT_REQUIRED'')
     else
       bnd (Get H ctor std_species) (\<lambda>s.
       if is_nullish s then intrinsic H ''_ConstructorForTypedArray'' [obj]
       else bnd (IsConstructor H s) (\<lambda>c.
         if c then ret s else throw (TypeErr ''JSMSG_NOT_CONSTRUCTOR'')))))"

definition ValidateTypedArray :: "'w host \<Rightarrow> val \<Rightarrow> ('w, bool) jprog" where
  "ValidateTypedArray H obj =
     bnd (HasClass H ''TypedArray'' obj) (\<lambda>t.
     if t then sq (GetAttachedArrayBuffer H obj) (ret True)
     else
       bnd (HasClass H ''PossiblyWrappedTypedArray'' obj) (\<lambda>p.
       if p then
         bnd (HasClass H ''DetachedBuffer'' obj) (\<lambda>d.
         if d then throw (TypeErr ''JSMSG_TYPED_ARRAY_DETACHED'') else ret False)
       else throw (TypeErr ''JSMSG_NON_TYPED_ARRAY_RETURNED'')))"

definition TypedArrayCreateWithLength :: "'w host \<Rightarrow> val \<Rightarrow> int \<Rightarrow> ('w, val) jprog" where
  "TypedArrayCreateWithLength H C len =
     bnd (New H C [vint len]) (\<lambda>newTypedArray.
     bnd (ValidateTypedArray H newTypedArray) (\<lambda>isTypedArray.
     bnd (PossiblyWrappedLength H isTypedArray newTypedArray) (\<lambda>n.
     if n < len then throw (TypeErr ''JSMSG_SHORT_TYPED_ARRAY_RETURNED'') else ret newTypedArray)))"

definition TypedArrayCreateWithBuffer :: "'w host \<Rightarrow> val \<Rightarrow> val \<Rightarrow> int \<Rightarrow> int \<Rightarrow> ('w, val) jprog" where
  "TypedArrayCreateWithBuffer H C buffer byteOffset len =
     bnd (New H C [buffer, vint byteOffset, vint len]) (\<lambda>newTypedArray.
     sq (ValidateTypedArray H newTypedArray) (ret newTypedArray))"

definition TypedArraySpeciesCreateWithLength :: "'w host \<Rightarrow> val \<Rightarrow> int \<Rightarrow> ('w, val) jprog" where
  "TypedArraySpeciesCreateWithLength H exemplar len =
     bnd (TypedArraySpeciesConstructor H exemplar) (\<lambda>C. TypedArrayCreateWithLength H C len)"

definition TypedArraySpeciesCreateWithBuffer :: "'w host \<Rightarrow> val \<Rightarrow> val \<Rightarrow> int \<Rightarrow> int \<Rightarrow> ('w, val) jprog" where
  "TypedArraySpeciesCreateWithBuffer H exemplar buffer byteOffset len =
     bnd (TypedArraySpeciesConstructor H exemplar) (\<lambda>C. TypedArrayCreateWithBuffer H C buffer byteOffset len)"

section \<open>Methods with a callback\<close>

text \<open>What all of them start with.\<close>

definition CallbackPrologue :: "'w host \<Rightarrow> val \<Rightarrow> val list \<Rightarrow> ('w, int) jprog" where
  "CallbackPrologue H ob args =
     bnd (IsTypedArrayEnsuringArrayBuffer H ob) (\<lambda>isTypedArray.
     bnd (PossiblyWrappedLength H isTypedArray ob) (\<lambda>len.
     sq (CheckCallback H args) (ret len)))"

text \<open>A test of every element: the loop returns when the test has the given outcome.\<close>

definition test_elem :: "'w host \<Rightarrow> bool \<Rightarrow> val \<Rightarrow> val \<Rightarrow> val \<Rightarrow> int \<Rightarrow> ('w, val option) jprog" where
  "test_elem H outcome f T ob k =
     bnd (Get H ob (PIdx k)) (\<lambda>kValue.
     bnd (Call H f T [kValue, vint k, ob]) (\<lambda>testResult.
     ret (if truthy testResult = outcome then Some (Bool outcome) else None)))"

definition TypedArrayEvery :: "'w host \<Rightarrow> val \<Rightarrow> val list \<Rightarrow> ('w, val) jprog" where
  "TypedArrayEvery H ob args =
     bnd (CallbackPrologue H ob args) (\<lambda>len.
     loop_ret 0 len (test_elem H False (arg args 0) (arg args 1) ob) (ret (Bool True)))"

definition TypedArraySome :: "'w host \<Rightarrow> val \<Rightarrow> val list \<Rightarrow> ('w, val) jprog" where
  "TypedArraySome H ob args =
     bnd (CallbackPrologue H ob args) (\<lambda>len.
     loop_ret 0 len (test_elem H True (arg args 0) (arg args 1) ob) (ret (Bool False)))"

definition TypedArrayFind :: "'w host \<Rightarrow> val \<Rightarrow> val list \<Rightarrow> ('w, val) jprog" where
  "TypedArrayFind H ob args =
     bnd (CallbackPrologue H ob args) (\<lambda>len.
     loop_ret 0 len (find_probe H (arg args 0) (arg args 1) ob) (ret Undef))"

definition TypedArrayFindIndex :: "'w host \<Rightarrow> val \<Rightarrow> val list \<Rightarrow> ('w, val) jprog" where
  "TypedArrayFindIndex H ob args =
     bnd (CallbackPrologue H ob args) (\<lambda>len.
     loop_ret 0 len (findIndex_probe H (arg args 0) (arg args 1) ob) (ret (vint (- 1))))"

definition TypedArrayForEach :: "'w host \<Rightarrow> val \<Rightarrow> val list \<Rightarrow> ('w, val) jprog" where
  "TypedArrayForEach H ob args =
     bnd (CallbackPrologue H ob args) (\<lambda>len.
     sq (for_each 0 len (\<lambda>k.
           bnd (Get H ob (PIdx k)) (\<lambda>v.
           sq (Call H (arg args 0) (arg args 1) [v, vint k, ob]) (ret ()))))
        (ret Undef))"

text \<open>The kept values are an internal list; the new array is made when their number is known.\<close>

definition keep_elem :: "'w host \<Rightarrow> val \<Rightarrow> val \<Rightarrow> val \<Rightarrow> int \<Rightarrow> val list \<Rightarrow> ('w, val list) jprog" where
  "keep_elem H f T ob k kept =
     bnd (Get H ob (PIdx k)) (\<lambda>kValue.
     bnd (Call H f T [kValue, vint k, ob]) (\<lambda>selected.
     ret (if ToBoolean selected then kept @ [kValue] else kept)))"

definition TypedArrayFilter :: "'w host \<Rightarrow> val \<Rightarrow> val list \<Rightarrow> ('w, val) jprog" where
  "TypedArrayFilter H ob args =
     bnd (CallbackPrologue H ob args) (\<lambda>len.
     bnd (for_acc 0 len (keep_elem H (arg args 0) (arg args 1) ob) []) (\<lambda>kept.
     bnd (TypedArraySpeciesCreateWithLength H ob (int (length kept))) (\<lambda>A.
     sq (for_each 0 (int (length kept)) (\<lambda>n. Put H A (PIdx n) (kept ! nat n)))
        (ret A))))"

definition TypedArrayMap :: "'w host \<Rightarrow> val \<Rightarrow> val list \<Rightarrow> ('w, val) jprog" where
  "TypedArrayMap H ob args =
     bnd (CallbackPrologue H ob args) (\<lambda>len.
     bnd (TypedArraySpeciesCreateWithLength H ob len) (\<lambda>A.
     sq (for_each 0 len (\<lambda>k.
           bnd (Get H ob (PIdx k)) (\<lambda>v.
           bnd (Call H (arg args 0) (arg args 1) [v, vint k, ob]) (Put H A (PIdx k)))))
        (ret A)))"

definition reduce_elem :: "'w host \<Rightarrow> val \<Rightarrow> val \<Rightarrow> int \<Rightarrow> val \<Rightarrow> ('w, val) jprog" where
  "reduce_elem H f ob k accumulator =
     bnd (Get H ob (PIdx k)) (\<lambda>v. Call H f Undef [accumulator, v, vint k, ob])"

definition TypedArrayReduce :: "'w host \<Rightarrow> val \<Rightarrow> val list \<Rightarrow> ('w, val) jprog" where
  "TypedArrayReduce H ob args =
     bnd (CallbackPrologue H ob args) (\<lambda>len.
     if len = 0 \<and> length args = 1 then throw (TypeErr ''JSMSG_EMPTY_ARRAY_REDUCE'')
     else if length args > 1 then for_acc 0 len (reduce_elem H (arg args 0) ob) (arg args 1)
     else bnd (Get H ob (PIdx 0)) (for_acc 1 len (reduce_elem H (arg args 0) ob)))"

definition TypedArrayReduceRight :: "'w host \<Rightarrow> val \<Rightarrow> val list \<Rightarrow> ('w, val) jprog" where
  "TypedArrayReduceRight H ob args =
     bnd (CallbackPrologue H ob args) (\<lambda>len.
     if len = 0 \<and> length args = 1 then throw (TypeErr ''JSMSG_EMPTY_ARRAY_REDUCE'')
     else if length args > 1 then for_acc_down (len - 1) 0 (reduce_elem H (arg args 0) ob) (arg args 1)
     else bnd (Get H ob (PIdx (len - 1))) (for_acc_down (len - 2) 0 (reduce_elem H (arg args 0) ob)))"

section \<open>Methods of one typed array\<close>

text \<open>A method that is not generic: a wrapped array goes to the other compartment.\<close>

definition UnlessWrapped :: "'w host \<Rightarrow> val \<Rightarrow> string \<Rightarrow> val list \<Rightarrow> ('w, val) jprog \<Rightarrow> ('w, val) jprog" where
  "UnlessWrapped H this name args body =
     bnd (HasClass H ''TypedArray'' this) (\<lambda>t.
     if \<not> t then intrinsic H ''CallTypedArrayMethodIfWrapped'' (this # args @ [vstr name]) else body)"

text \<open>A relative end: the length when it is \<open>undefined\<close>.\<close>

definition RelativeEnd :: "'w host \<Rightarrow> int \<Rightarrow> val \<Rightarrow> ('w, inum) jprog" where
  "RelativeEnd H len end' = (if end' = Undef then ret (IFin len) else ToInteger H end')"

definition default_zero :: "val \<Rightarrow> val" where
  "default_zero v = (if v = Undef then vint 0 else v)"

definition int32_range :: "int \<Rightarrow> bool" where
  "int32_range i = (- 0x7FFFFFFF - 1 \<le> i \<and> i \<le> 0x7FFFFFFF)"

definition TypedArrayCopyWithin :: "'w host \<Rightarrow> val \<Rightarrow> val list \<Rightarrow> ('w, val) jprog" where
  "TypedArrayCopyWithin H obj args = UnlessWrapped H obj ''TypedArrayCopyWithin'' [arg args 0, arg args 1, arg args 2]
    (sq (GetAttachedArrayBuffer H obj)
    (bnd (TypedArrayLength_of H obj) (\<lambda>len.
     sq (asrt (0 \<le> len \<and> len \<le> 0x7FFFFFFF) ''assumed by some of the math below, see also the other assertions'')
    (bnd (ToInteger H (arg args 0)) (\<lambda>relativeTarget.
     let to = clamp_index len relativeTarget in
     bnd (ToInteger H (arg args 1)) (\<lambda>relativeStart.
     let frm = clamp_index len relativeStart in
     bnd (RelativeEnd H len (arg args 2)) (\<lambda>relativeEnd.
     let final = clamp_index len relativeEnd;
         cnt = min (final - frm) (len - to) in
     sq (asrt (0 \<le> to \<and> to \<le> 0x7FFFFFFF) ''typed array |to| index assumed int32_t'')
    (sq (asrt (0 \<le> frm \<and> frm \<le> 0x7FFFFFFF) ''typed array |from| index assumed int32_t'')
    (sq (asrt (int32_range cnt) ''typed array element count assumed int32_t'')
    (sq (if 0 < cnt
         then sq (intrinsic H ''MoveTypedArrayElements'' [obj, vint (to_int32 to), vint (to_int32 frm), vint (to_int32 cnt)]) (ret ())
         else ret ())
        (ret obj)))))))))))"

definition IsBigIntKind :: "int \<Rightarrow> bool" where
  "IsBigIntKind kind = (kind = TYPEDARRAY_KIND_BIGINT64 \<or> kind = TYPEDARRAY_KIND_BIGUINT64)"

text \<open>The buffer again after user code has run: inline storage may have got one since.\<close>

definition CheckStillAttached :: "'w host \<Rightarrow> val \<Rightarrow> val \<Rightarrow> ('w, unit) jprog" where
  "CheckStillAttached H ob buffer =
     bnd (if buffer = Null then ViewedArrayBufferIfReified H ob else ret buffer) (\<lambda>buffer.
     bnd (IsDetachedBuffer H buffer) (\<lambda>d.
     if d then throw (TypeErr ''JSMSG_TYPED_ARRAY_DETACHED'') else ret ()))"

definition TypedArrayFill :: "'w host \<Rightarrow> val \<Rightarrow> val list \<Rightarrow> ('w, val) jprog" where
  "TypedArrayFill H ob args = UnlessWrapped H ob ''TypedArrayFill'' [arg args 0, default_zero (arg args 1), arg args 2]
    (bnd (GetAttachedArrayBuffer H ob) (\<lambda>buffer.
     bnd (TypedArrayLength_of H ob) (\<lambda>len.
     bnd (NativeInt H ''GetTypedArrayKind'' [ob]) (\<lambda>kind.
     bnd (if IsBigIntKind kind then intrinsic H ''ToBigInt'' [arg args 0]
          else bnd (ToNumber H (arg args 0)) (\<lambda>n. ret (Num n))) (\<lambda>v.
     bnd (ToInteger H (default_zero (arg args 1))) (\<lambda>relativeStart.
     let k = clamp_index len relativeStart in
     bnd (RelativeEnd H len (arg args 2)) (\<lambda>relativeEnd.
     let final = clamp_index len relativeEnd in
     sq (CheckStillAttached H ob buffer)
    (sq (for_each k final (\<lambda>k. Put H ob (PIdx k) v))
        (ret ob)))))))))"

text \<open>The loop bodies of the searches.\<close>

definition search_elem :: "'w host \<Rightarrow> val \<Rightarrow> val \<Rightarrow> int \<Rightarrow> ('w, val option) jprog" where
  "search_elem H ob searchElement k =
     bnd (Get H ob (PIdx k)) (\<lambda>v. ret (if strict_eq v searchElement then Some (vint k) else None))"

definition TypedArrayIndexOf :: "'w host \<Rightarrow> val \<Rightarrow> val list \<Rightarrow> ('w, val) jprog" where
  "TypedArrayIndexOf H ob args = UnlessWrapped H ob ''TypedArrayIndexOf'' [arg args 0, default_zero (arg args 1)]
    (sq (GetAttachedArrayBuffer H ob)
    (bnd (TypedArrayLength_of H ob) (\<lambda>len.
     if len = 0 then ret (vint (- 1))
     else
       bnd (ToInteger H (default_zero (arg args 1))) (\<lambda>n.
       if IFin len \<le> n then ret (vint (- 1))
       else
         let k = start_at len (if IFin 0 \<le> n then n else max (iplus len n) (IFin 0)) in
         loop_ret k len (search_elem H ob (arg args 0)) (ret (vint (- 1)))))))"

definition TypedArrayLastIndexOf :: "'w host \<Rightarrow> val \<Rightarrow> val list \<Rightarrow> ('w, val) jprog" where
  "TypedArrayLastIndexOf H ob args =
     UnlessWrapped H ob ''TypedArrayLastIndexOf'' (if length args > 1 then [arg args 0, arg args 1] else [arg args 0])
    (sq (GetAttachedArrayBuffer H ob)
    (bnd (TypedArrayLength_of H ob) (\<lambda>len.
     if len = 0 then ret (vint (- 1))
     else
       bnd (if length args > 1 then ToInteger H (arg args 1) else ret (IFin (len - 1))) (\<lambda>n.
       let k = start_at len (if IFin 0 \<le> n then min n (IFin (len - 1)) else iplus len n) in
       loop_ret_down k 0 (search_elem H ob (arg args 0)) (ret (vint (- 1)))))))"

definition TypedArrayIncludes :: "'w host \<Rightarrow> val \<Rightarrow> val list \<Rightarrow> ('w, val) jprog" where
  "TypedArrayIncludes H ob args = UnlessWrapped H ob ''TypedArrayIncludes'' [arg args 0, default_zero (arg args 1)]
    (sq (GetAttachedArrayBuffer H ob)
    (bnd (TypedArrayLength_of H ob) (\<lambda>len.
     if len = 0 then ret (Bool False)
     else
       bnd (ToInteger H (default_zero (arg args 1))) (\<lambda>n.
       let k = start_at len (if IFin 0 \<le> n then n else max (iplus len n) (IFin 0)) in
       loop_ret k len (includes_probe H ob (arg args 0)) (ret (Bool False))))))"

definition TypedArrayJoin :: "'w host \<Rightarrow> val \<Rightarrow> val list \<Rightarrow> ('w, val) jprog" where
  "TypedArrayJoin H ob args = UnlessWrapped H ob ''TypedArrayJoin'' [arg args 0]
    (sq (GetAttachedArrayBuffer H ob)
    (bnd (TypedArrayLength_of H ob) (\<lambda>len.
     bnd (if arg args 0 = Undef then ret (js '','') else ToString H (arg args 0)) (\<lambda>sep.
     if len = 0 then ret (Str [])
     else
       bnd (Get H ob (PIdx 0)) (\<lambda>element0.
       bnd (ToString H element0) (\<lambda>R.
       bnd (for_acc 1 len (\<lambda>k R.
              bnd (StrCat R sep) (\<lambda>S.
              bnd (Get H ob (PIdx k)) (\<lambda>element.
              bnd (ToString H element) (StrCat S)))) R) (\<lambda>R. ret (Str R))))))))"

definition swap_elems :: "'w host \<Rightarrow> val \<Rightarrow> int \<Rightarrow> int \<Rightarrow> ('w, unit) jprog" where
  "swap_elems H ob len lower =
     (let upper = len - lower - 1 in
      bnd (Get H ob (PIdx lower)) (\<lambda>lowerValue.
      bnd (Get H ob (PIdx upper)) (\<lambda>upperValue.
      sq (Put H ob (PIdx lower) upperValue) (Put H ob (PIdx upper) lowerValue))))"

definition TypedArrayReverse :: "'w host \<Rightarrow> val \<Rightarrow> ('w, val) jprog" where
  "TypedArrayReverse H ob = UnlessWrapped H ob ''TypedArrayReverse'' []
    (sq (GetAttachedArrayBuffer H ob)
    (bnd (TypedArrayLength_of H ob) (\<lambda>len.
     sq (for_each 0 (len div 2) (swap_elems H ob len)) (ret ob))))"

definition TypedArraySlice :: "'w host \<Rightarrow> val \<Rightarrow> val list \<Rightarrow> ('w, val) jprog" where
  "TypedArraySlice H ob args = UnlessWrapped H ob ''TypedArraySlice'' [arg args 0, arg args 1]
    (bnd (GetAttachedArrayBuffer H ob) (\<lambda>buffer.
     bnd (TypedArrayLength_of H ob) (\<lambda>len.
     bnd (ToInteger H (arg args 0)) (\<lambda>relativeStart.
     let k = clamp_index len relativeStart in
     bnd (RelativeEnd H len (arg args 1)) (\<lambda>relativeEnd.
     let final = clamp_index len relativeEnd;
         cnt = max (final - k) 0 in
     bnd (TypedArraySpeciesCreateWithLength H ob cnt) (\<lambda>A.
     sq (if 0 < cnt then
           sq (CheckStillAttached H ob buffer)
          (bnd (intrinsic H ''TypedArrayBitwiseSlice'' [ob, A, vint (to_int32 k), vint (to_int32 cnt)]) (\<lambda>sliced.
           if \<not> truthy sliced
           then for_each k final (\<lambda>j. bnd (Get H ob (PIdx j)) (Put H A (PIdx (j - k))))
           else ret ()))
         else ret ())
        (ret A)))))))"

definition TypedArraySubarray :: "'w host \<Rightarrow> val \<Rightarrow> val list \<Rightarrow> ('w, val) jprog" where
  "TypedArraySubarray H obj args = UnlessWrapped H obj ''TypedArraySubarray'' [arg args 0, arg args 1]
    (bnd (ViewedArrayBufferIfReified H obj) (\<lambda>buffer.
     bnd (if buffer = Null then intrinsic H ''TypedArrayBuffer'' [obj] else ret buffer) (\<lambda>buffer.
     bnd (TypedArrayLength_of H obj) (\<lambda>srcLength.
     bnd (NativeInt H ''TypedArrayByteOffset'' [obj]) (\<lambda>srcByteOffset.
     bnd (ToInteger H (arg args 0)) (\<lambda>relativeBegin.
     let beginIndex = clamp_index srcLength relativeBegin in
     bnd (RelativeEnd H srcLength (arg args 1)) (\<lambda>relativeEnd.
     let endIndex = clamp_index srcLength relativeEnd;
         newLength = max (endIndex - beginIndex) 0 in
     bnd (NativeInt H ''TypedArrayElementShift'' [obj]) (\<lambda>elementShift.
     let beginByteOffset = srcByteOffset + js_shift_left beginIndex elementShift in
     TypedArraySpeciesCreateWithBuffer H obj buffer beginByteOffset newLength))))))))"

definition TypedArrayToLocaleString :: "'w host \<Rightarrow> val \<Rightarrow> val list \<Rightarrow> ('w, val) jprog" where
  "TypedArrayToLocaleString H array args =
     bnd (IsTypedArrayEnsuringArrayBuffer H array) (\<lambda>isTypedArray.
     bnd (PossiblyWrappedLength H isTypedArray array) (\<lambda>len.
     if len = 0 then ret (Str [])
     else
       let part = (\<lambda>v.
         bnd (Get H v (pstr ''toLocaleString'')) (\<lambda>f.
         bnd (Call H f v [arg args 0, arg args 1]) (ToString H))) in
       bnd (Get H array (PIdx 0)) (\<lambda>firstElement.
       bnd (part firstElement) (\<lambda>R.
       bnd (for_acc 1 len (\<lambda>k R.
              bnd (StrCat R (js '','')) (\<lambda>S.
              bnd (Get H array (PIdx k)) (\<lambda>nextElement.
              bnd (part nextElement) (StrCat S)))) R) (\<lambda>R. ret (Str R))))))"

text \<open>The iterators.\<close>

definition TypedArrayEntries :: "'w host \<Rightarrow> val \<Rightarrow> ('w, val) jprog" where
  "TypedArrayEntries H ob = sq (IsTypedArrayEnsuringArrayBuffer H ob) (CreateArrayIterator H ob ITEM_KIND_KEY_AND_VALUE)"

definition TypedArrayKeys :: "'w host \<Rightarrow> val \<Rightarrow> ('w, val) jprog" where
  "TypedArrayKeys H ob = sq (IsTypedArrayEnsuringArrayBuffer H ob) (CreateArrayIterator H ob ITEM_KIND_KEY)"

definition TypedArrayValues :: "'w host \<Rightarrow> val \<Rightarrow> ('w, val) jprog" where
  "TypedArrayValues H ob = sq (IsTypedArrayEnsuringArrayBuffer H ob) (CreateArrayIterator H ob ITEM_KIND_VALUE)"

section \<open>TypedArray.from, TypedArray.of\<close>

text \<open>\<open>IterableToList\<close> runs a user's iterator, which may never end: the number of rounds is bounded.\<close>

definition IterableToList :: "'w host \<Rightarrow> nat \<Rightarrow> val \<Rightarrow> val \<Rightarrow> ('w, val) jprog" where
  "IterableToList H fuel items method =
     bnd (IsCallable H method) (\<lambda>c.
     sq (asrt c ''method argument is a function'')
    (bnd (Call H method items []) (\<lambda>iterator.
     if \<not> IsObject iterator then throw (TypeErr ''JSMSG_GET_ITER_RETURNED_PRIMITIVE'')
     else
       bnd (Get H iterator (pstr ''next'')) (\<lambda>nextMethod.
       bnd (ArrayLiteral H []) (\<lambda>values.
       loop_fuel fuel (\<lambda>i.
         bnd (Call H nextMethod iterator []) (\<lambda>next.
         if \<not> IsObject next then throw (TypeErr ''JSMSG_ITER_METHOD_RETURNED_PRIMITIVE'')
         else
           bnd (Get H next (pstr ''done'')) (\<lambda>d.
           if truthy d then ret (Inr values)
           else
             bnd (Get H next (pstr ''value'')) (\<lambda>v.
             sq (define_data H values (PIdx i) v) (ret (Inl (i + 1))))))) 0)))))"

text \<open>The elements of an array-like object, mapped if there is a function, become those of the target.\<close>

definition fill_from :: "'w host \<Rightarrow> val \<Rightarrow> val \<Rightarrow> val \<Rightarrow> val \<Rightarrow> int \<Rightarrow> ('w, unit) jprog" where
  "fill_from H targetObj source mapfn T len =
     for_each 0 len (\<lambda>k.
       bnd (Get H source (PIdx k)) (\<lambda>kValue.
       bnd (if mapfn \<noteq> Undef then Call H mapfn T [kValue, vint k] else ret kValue) (Put H targetObj (PIdx k))))"

text \<open>The two paths for a source whose iteration cannot be observed; \<open>None\<close> when neither is taken.\<close>

definition from_fast :: "'w host \<Rightarrow> val \<Rightarrow> val \<Rightarrow> val \<Rightarrow> ('w, val option) jprog" where
  "from_fast H C source usingIterator =
     bnd (HasClass H ''TypedArray'' source) (\<lambda>ta.
     bnd (if usingIterator = builtin H ''$TypedArrayValues'' \<and> ta
          then bnd (intrinsic H ''ArrayIteratorPrototypeOptimizable'' []) (\<lambda>b. ret (truthy b)) else ret False) (\<lambda>typed.
     if typed then
       sq (GetAttachedArrayBuffer H source)
      (bnd (TypedArrayLength_of H source) (\<lambda>len.
       bnd (New H C [vint len]) (\<lambda>targetObj.
       sq (for_each 0 len (\<lambda>k. bnd (Get H source (PIdx k)) (Put H targetObj (PIdx k))))
          (ret (Some targetObj)))))
     else
       bnd (HasClass H ''PackedArray'' source) (\<lambda>pa.
       bnd (if usingIterator = builtin H ''$ArrayValues'' \<and> pa
            then bnd (intrinsic H ''ArrayIteratorPrototypeOptimizable'' []) (\<lambda>b. ret (truthy b)) else ret False) (\<lambda>packed.
       if packed then
         bnd (Get H source (pstr ''length'')) (\<lambda>len.
         bnd (New H C [len]) (\<lambda>targetObj.
         sq (intrinsic H ''TypedArrayInitFromPackedArray'' [targetObj, source]) (ret (Some targetObj))))
       else ret None))))"

definition TypedArrayStaticFrom :: "'w host \<Rightarrow> nat \<Rightarrow> val \<Rightarrow> val list \<Rightarrow> ('w, val) jprog" where
  "TypedArrayStaticFrom H fuel C args =
     (let source = arg args 0; mapfn = arg args 1; T = arg args 2; mapping = (mapfn \<noteq> Undef) in
      bnd (IsConstructor H C) (\<lambda>c.
      if \<not> c then throw (TypeErr ''JSMSG_NOT_CONSTRUCTOR'')
      else
        bnd (IsCallable H mapfn) (\<lambda>mc.
        if mapping \<and> \<not> mc then throw (TypeErr ''JSMSG_NOT_FUNCTION'')
        else
          bnd (Get H source std_iterator) (\<lambda>usingIterator.
          if \<not> is_nullish usingIterator then
            bnd (IsCallable H usingIterator) (\<lambda>ic.
            if \<not> ic then throw (TypeErr ''JSMSG_NOT_ITERABLE'')
            else
              bnd (HasClass H ''TypedArrayConstructor'' C) (\<lambda>tc.
              bnd (if \<not> mapping \<and> tc \<and> IsObject source then from_fast H C source usingIterator else ret None) (\<lambda>fast.
              case fast of
                Some targetObj \<Rightarrow> ret targetObj
              | None \<Rightarrow>
                  bnd (IterableToList H fuel source usingIterator) (\<lambda>values.
                  bnd (LengthOf H values) (\<lambda>len.
                  bnd (TypedArrayCreateWithLength H C len) (\<lambda>targetObj.
                  sq (fill_from H targetObj values mapfn T len) (ret targetObj)))))))
          else
            bnd (ToObject H source) (\<lambda>arrayLike.
            bnd (LengthOf H arrayLike) (\<lambda>len.
            bnd (TypedArrayCreateWithLength H C len) (\<lambda>targetObj.
            sq (fill_from H targetObj arrayLike mapfn T len) (ret targetObj))))))))"

definition TypedArrayStaticOf :: "'w host \<Rightarrow> val \<Rightarrow> val list \<Rightarrow> ('w, val) jprog" where
  "TypedArrayStaticOf H C items =
     bnd (IsConstructor H C) (\<lambda>c.
     if \<not> c then throw (TypeErr ''JSMSG_NOT_CONSTRUCTOR'')
     else
       bnd (TypedArrayCreateWithLength H C (int (length items))) (\<lambda>newObj.
       sq (for_each 0 (int (length items)) (\<lambda>k. Put H newObj (PIdx k) (items ! nat k)))
          (ret newObj)))"

text \<open>\<open>$TypedArraySpecies\<close>, \<open>$ArrayBufferSpecies\<close>, \<open>$SharedArrayBufferSpecies\<close>.\<close>

definition TypedArraySpecies :: "val \<Rightarrow> ('w, val) jprog" where "TypedArraySpecies this = ret this"
definition ArrayBufferSpecies :: "val \<Rightarrow> ('w, val) jprog" where "ArrayBufferSpecies this = ret this"
definition SharedArrayBufferSpecies :: "val \<Rightarrow> ('w, val) jprog" where "SharedArrayBufferSpecies this = ret this"

section \<open>Slices of buffers\<close>

text \<open>
  The new buffer comes from a constructor of the user's: it is checked to be a buffer
  (\<open>isWrapped\<close> tells which kind) and attached.
\<close>

definition ValidateNewBuffer :: "'w host \<Rightarrow> val \<Rightarrow> ('w, bool) jprog" where
  "ValidateNewBuffer H new =
     bnd (HasClass H ''ArrayBuffer'' new) (\<lambda>ab.
     if ab then
       bnd (IsDetachedBuffer H new) (\<lambda>d.
       if d then throw (TypeErr ''JSMSG_TYPED_ARRAY_DETACHED'') else ret False)
     else
       bnd (HasClass H ''WrappedArrayBuffer'' new) (\<lambda>wrapped.
       if \<not> wrapped then throw (TypeErr ''JSMSG_NON_ARRAY_BUFFER_RETURNED'')
       else
         bnd (intrinsic H ''CallArrayBufferMethodIfWrapped'' [new, vstr ''IsDetachedBufferThis'']) (\<lambda>d.
         if truthy d then throw (TypeErr ''JSMSG_TYPED_ARRAY_DETACHED'') else ret True)))"

definition ArrayBufferSlice :: "'w host \<Rightarrow> val \<Rightarrow> val list \<Rightarrow> ('w, val) jprog" where
  "ArrayBufferSlice H ob args =
     bnd (HasClass H ''ArrayBuffer'' ob) (\<lambda>ab.
     if \<not> ab then intrinsic H ''CallArrayBufferMethodIfWrapped'' [ob, arg args 0, arg args 1, vstr ''ArrayBufferSlice'']
     else
       bnd (IsDetachedBuffer H ob) (\<lambda>d.
       if d then throw (TypeErr ''JSMSG_TYPED_ARRAY_DETACHED'')
       else
         bnd (NativeInt H ''ArrayBufferByteLength'' [ob]) (\<lambda>len.
         bnd (ToInteger H (arg args 0)) (\<lambda>relativeStart.
         let first = clamp_index len relativeStart in
         bnd (RelativeEnd H len (arg args 1)) (\<lambda>relativeEnd.
         let final = clamp_index len relativeEnd;
             newLen = max (final - first) 0 in
         bnd (GetBuiltinConstructor H ''ArrayBuffer'') (\<lambda>default.
         bnd (SpeciesConstructor H ob default) (\<lambda>ctor.
         bnd (New H ctor [vint newLen]) (\<lambda>newBuffer.
         bnd (ValidateNewBuffer H newBuffer) (\<lambda>isWrapped.
         if newBuffer = ob then throw (TypeErr ''JSMSG_SAME_ARRAY_BUFFER_RETURNED'')
         else
           bnd (NativeInt H ''PossiblyWrappedArrayBufferByteLength'' [newBuffer]) (\<lambda>actualLen.
           if actualLen < newLen then throw (TypeErr ''JSMSG_SHORT_ARRAY_BUFFER_RETURNED'')
           else
             bnd (IsDetachedBuffer H ob) (\<lambda>d.
             if d then throw (TypeErr ''JSMSG_TYPED_ARRAY_DETACHED'')
             else
               sq (intrinsic H ''ArrayBufferCopyData''
                     [newBuffer, vint 0, ob, vint (to_int32 first), vint (to_int32 newLen), Bool isWrapped])
                  (ret newBuffer))))))))))))"

definition SharedArrayBufferSlice :: "'w host \<Rightarrow> val \<Rightarrow> val list \<Rightarrow> ('w, val) jprog" where
  "SharedArrayBufferSlice H ob args =
     bnd (HasClass H ''SharedArrayBuffer'' ob) (\<lambda>sab.
     if \<not> sab then intrinsic H ''CallSharedArrayBufferMethodIfWrapped'' [ob, arg args 0, arg args 1, vstr ''SharedArrayBufferSlice'']
     else
       bnd (NativeInt H ''SharedArrayBufferByteLength'' [ob]) (\<lambda>len.
       bnd (ToInteger H (arg args 0)) (\<lambda>relativeStart.
       let first = clamp_index len relativeStart in
       bnd (RelativeEnd H len (arg args 1)) (\<lambda>relativeEnd.
       let final = clamp_index len relativeEnd;
           newLen = max (final - first) 0 in
       bnd (GetBuiltinConstructor H ''SharedArrayBuffer'') (\<lambda>default.
       bnd (SpeciesConstructor H ob default) (\<lambda>ctor.
       bnd (New H ctor [vint newLen]) (\<lambda>newObj.
       bnd (HasClass H ''SharedArrayBuffer'' newObj) (\<lambda>shared.
       bnd (if shared then ret False
            else bnd (HasClass H ''WrappedSharedArrayBuffer'' newObj) (\<lambda>wrapped.
              if \<not> wrapped then throw (TypeErr ''JSMSG_NON_SHARED_ARRAY_BUFFER_RETURNED'') else ret True)) (\<lambda>isWrapped.
       bnd (if newObj = ob then ret (Bool True) else intrinsic H ''SharedArrayBuffersMemorySame'' [newObj, ob]) (\<lambda>same.
       if truthy same then throw (TypeErr ''JSMSG_SAME_SHARED_ARRAY_BUFFER_RETURNED'')
       else
         bnd (NativeInt H ''PossiblyWrappedSharedArrayBufferByteLength'' [newObj]) (\<lambda>actualLen.
         if actualLen < newLen then throw (TypeErr ''JSMSG_SHORT_SHARED_ARRAY_BUFFER_RETURNED'')
         else
           sq (intrinsic H ''SharedArrayBufferCopyData''
                 [newObj, vint 0, ob, vint (to_int32 first), vint (to_int32 newLen), Bool isWrapped])
              (ret newObj))))))))))))"

end
