(* ===== verification/BufferSafety.thy ===== *)
theory BufferSafety
  imports TypedArrayBuiltins
begin

text \<open>
  Memory safety of the slices: the native copies that ArrayBuffer slices and typed array slices
  end in do not check their ranges, and between the check of a length and the copy the methods run
  code of the user (conversions of the arguments, a species constructor), which may detach a buffer
  or give back a short one, or the same one. The native function with a check of the range put in
  front of it behaves as without: the check never fails.
\<close>

section \<open>A native function with its range checked\<close>

definition guard_native :: "'w host \<Rightarrow> string \<Rightarrow> (val list \<Rightarrow> 'w \<Rightarrow> bool) \<Rightarrow> 'w host" where
  "guard_native H name ok = H\<lparr>intrinsic := (\<lambda>n args.
     if n = name then bnd (gets (ok args)) (\<lambda>b. sq (asrt b ''range of a native copy'') (intrinsic H n args))
     else intrinsic H n args)\<rparr>"

lemma guard_fields [simp]:
  "get_prop (guard_native H n ok) = get_prop H" "set_prop (guard_native H n ok) = set_prop H"
  "call_fn (guard_native H n ok) = call_fn H" "construct_fn (guard_native H n ok) = construct_fn H"
  "callable (guard_native H n ok) = callable H" "constructible (guard_native H n ok) = constructible H"
  "has_class (guard_native H n ok) = has_class H" "get_slot (guard_native H n ok) = get_slot H"
  "to_number_of (guard_native H n ok) = to_number_of H" "builtin (guard_native H n ok) = builtin H"
  "m \<noteq> n \<Longrightarrow> intrinsic (guard_native H n ok) m args = intrinsic H m args"
  by (simp_all add: guard_native_def)

lemma guard_run: "ok args w \<Longrightarrow> intrinsic (guard_native H n ok) n args w = intrinsic H n args w"
  by (simp add: guard_native_def run_simps)

lemma guard_language [simp]:
  "Get (guard_native H n ok) = Get H" "Put (guard_native H n ok) = Put H"
  "IsCallable (guard_native H n ok) = IsCallable H" "IsConstructor (guard_native H n ok) = IsConstructor H"
  "HasClass (guard_native H n ok) = HasClass H"
  "GetBuiltinConstructor (guard_native H n ok) = GetBuiltinConstructor H"
  unfolding Get_def [abs_def] Put_def [abs_def] IsCallable_def [abs_def] IsConstructor_def [abs_def] HasClass_def [abs_def]
    GetBuiltinConstructor_def [abs_def] guard_fields by (rule refl)+

lemma guard_compound [simp]:
  "New (guard_native H n ok) = New H" "Call (guard_native H n ok) = Call H"
  "SpeciesConstructor (guard_native H n ok) = SpeciesConstructor H"
  "IsDetachedBuffer (guard_native H n ok) = IsDetachedBuffer H"
  unfolding New_def [abs_def] Call_def [abs_def] SpeciesConstructor_def [abs_def] IsDetachedBuffer_def [abs_def]
    guard_language guard_fields by (rule refl)+

lemma guard_ToNumber [simp]: "ToNumber (guard_native H n ok) v = ToNumber H v"
  by (cases v) simp_all

lemma guard_ToInteger [simp]: "ToInteger (guard_native H n ok) = ToInteger H" "RelativeEnd (guard_native H n ok) = RelativeEnd H"
  unfolding ToInteger_def [abs_def] RelativeEnd_def [abs_def] guard_ToNumber by (rule refl)+

lemma guard_NativeInt [simp]: "m \<noteq> n \<Longrightarrow> NativeInt (guard_native H n ok) m = NativeInt H m"
  by (simp add: fun_eq_iff NativeInt_def)

lemma guard_typed [simp]:
  "ViewedArrayBufferIfReified (guard_native H n ok) = ViewedArrayBufferIfReified H"
  "GetAttachedArrayBuffer (guard_native H n ok) = GetAttachedArrayBuffer H"
  "CheckStillAttached (guard_native H n ok) = CheckStillAttached H"
  "ValidateTypedArray (guard_native H n ok) = ValidateTypedArray H"
  unfolding CheckStillAttached_def [abs_def] ValidateTypedArray_def [abs_def] GetAttachedArrayBuffer_def [abs_def]
    ViewedArrayBufferIfReified_def [abs_def] guard_language guard_compound guard_fields by (rule refl)+

lemma guard_TypedArrayLength [simp]: "n \<noteq> ''TypedArrayLength'' \<Longrightarrow> TypedArrayLength_of (guard_native H n ok) = TypedArrayLength_of H"
  by (simp add: fun_eq_iff TypedArrayLength_of_def)

lemma guard_SpeciesCreate [simp]:
  assumes "n \<noteq> ''TypedArrayLength''" "n \<noteq> ''_ConstructorForTypedArray''" "n \<noteq> ''CallTypedArrayMethodIfWrapped''"
  shows "TypedArraySpeciesCreateWithLength (guard_native H n ok) = TypedArraySpeciesCreateWithLength H"
  using assms
  by (simp add: fun_eq_iff TypedArraySpeciesCreateWithLength_def TypedArraySpeciesConstructor_def
      TypedArrayCreateWithLength_def PossiblyWrappedLength_def cong: if_cong)

lemma guard_ValidateNewBuffer [simp]:
  "n \<noteq> ''CallArrayBufferMethodIfWrapped'' \<Longrightarrow> ValidateNewBuffer (guard_native H n ok) = ValidateNewBuffer H"
  by (simp add: fun_eq_iff ValidateNewBuffer_def cong: if_cong)

text \<open>Two programs run alike from a state when they do so in every branch.\<close>

lemma if_cong_run: "(b \<Longrightarrow> m s = m' s) \<Longrightarrow> (\<not> b \<Longrightarrow> n s = n' s) \<Longrightarrow> (if b then m else n) s = (if b then m' else n') s"
  by simp

lemma sq_left_run: "m s = m' s \<Longrightarrow> sq m n s = sq m' n s"
  by (simp add: sq_def bnd_def)

lemma sq_right_run: "(\<And>t. m s = (Ret (), t) \<Longrightarrow> n t = n' t) \<Longrightarrow> sq m n s = sq m n' s"
  unfolding sq_def by (rule bnd_cong_run) simp

lemma sq_guard_run: "ok args w \<Longrightarrow> sq (intrinsic (guard_native H n ok) n args) m w = sq (intrinsic H n args) m w"
  by (simp add: sq_def bnd_def guard_run)

lemma bnd_guard_run: "ok args w \<Longrightarrow> bnd (intrinsic (guard_native H n ok) n args) f w = bnd (intrinsic H n args) f w"
  by (simp add: bnd_def guard_run)

lemma NativeInt_run: "intrinsic H name args w = (Ret (vint i), w) \<Longrightarrow> NativeInt H name args w = (Ret i, w)"
  by (simp add: NativeInt_def IntOf_def run_simps)

section \<open>Engines with array buffers\<close>

definition attached :: "('w \<Rightarrow> val \<Rightarrow> int) \<Rightarrow> 'w \<Rightarrow> val \<Rightarrow> bool" where
  "attached flags w b = (and (flags w b) JS_ARRAYBUFFER_DETACHED_FLAG = 0)"

text \<open>What can become of the buffers: an array buffer stays one, detached ones stay so, the length of one that is
  attached has not changed.\<close>

definition buffers_kept :: "'w host \<Rightarrow> ('w \<Rightarrow> val \<Rightarrow> int) \<Rightarrow> ('w \<Rightarrow> val \<Rightarrow> int) \<Rightarrow> 'w \<Rightarrow> 'w \<Rightarrow> bool" where
  "buffers_kept H flags blen w w' = (\<forall>b. IsObject b \<and> has_class H w ''ArrayBuffer'' b \<longrightarrow>
     has_class H w' ''ArrayBuffer'' b \<and> (attached flags w' b \<longrightarrow> attached flags w b \<and> blen w' b = blen w b))"

lemma buffers_kept_preorder: "reflp (buffers_kept H flags blen)" "transp (buffers_kept H flags blen)"
  by (auto simp: buffers_kept_def reflp_def transp_def)

text \<open>
  The documented behaviour: the natives that read a length or the flags do so without effect; the
  length of an array buffer is at most \<open>MaxBufferByteLength\<close>, that is \<open>INT32_MAX\<close>; properties, conversions,
  constructors and calls into another compartment keep the buffers in the sense above.
\<close>

definition copy_ok :: "('w \<Rightarrow> val \<Rightarrow> int) \<Rightarrow> ('w \<Rightarrow> val \<Rightarrow> int) \<Rightarrow> val list \<Rightarrow> 'w \<Rightarrow> bool" where
  "copy_ok flags blen args w = (case args of
      [to, toIndex, frm, first, n, wrapped] \<Rightarrow>
        (case (int_value toIndex, int_value first, int_value n) of
           (Some a, Some i, Some k) \<Rightarrow>
             to \<noteq> frm \<and> attached flags w frm \<and> (wrapped = Bool False \<longrightarrow> attached flags w to)
             \<and> 0 \<le> a \<and> 0 \<le> i \<and> 0 \<le> k \<and> a + k \<le> blen w to \<and> i + k \<le> blen w frm
         | _ \<Rightarrow> False)
    | _ \<Rightarrow> False)"

locale buffer_host =
  fixes H :: "'w host" and flags :: "'w \<Rightarrow> val \<Rightarrow> int" and blen :: "'w \<Rightarrow> val \<Rightarrow> int"
  assumes byte_length: "IsObject b \<Longrightarrow> has_class H w ''ArrayBuffer'' b \<Longrightarrow>
      intrinsic H ''ArrayBufferByteLength'' [b] w = (Ret (vint (blen w b)), w)"
    and wrapped_length: "intrinsic H ''PossiblyWrappedArrayBufferByteLength'' [b] w = (Ret (vint (blen w b)), w)"
    and length_range: "IsObject b \<Longrightarrow> has_class H w ''ArrayBuffer'' b \<Longrightarrow> 0 \<le> blen w b \<and> blen w b < 2 ^ 31"
    and flags_slot: "IsObject b \<Longrightarrow> has_class H w ''ArrayBuffer'' b \<Longrightarrow>
      get_slot H b JS_ARRAYBUFFER_FLAGS_SLOT w = (Ret (vint (flags w b)), w)"
    and get_keeps: "evolves (buffers_kept H flags blen) (get_prop H v k)"
    and construct_keeps: "evolves (buffers_kept H flags blen) (construct_fn H c args)"
    and number_keeps: "evolves (buffers_kept H flags blen) (to_number_of H v)"
    and wrapper_keeps: "evolves (buffers_kept H flags blen) (intrinsic H ''CallArrayBufferMethodIfWrapped'' args)"

begin

lemmas kept_refl = buffers_kept_preorder(1) [of H flags blen]
lemmas kept_trans = buffers_kept_preorder(2) [of H flags blen]

lemma kept_step:
  "buffers_kept H flags blen w s \<Longrightarrow> evolves (buffers_kept H flags blen) m \<Longrightarrow> m s = (r, s') \<Longrightarrow> buffers_kept H flags blen w s'"
  using kept_trans evolvesD by (metis transpD)

lemma GetBuiltinConstructor_keeps: "evolves (buffers_kept H flags blen) (GetBuiltinConstructor H name)"
  unfolding GetBuiltinConstructor_def by (intro evolves_sq evolves_basic kept_refl kept_trans)

lemma ToInteger_keeps: "evolves (buffers_kept H flags blen) (ToInteger H v)"
  unfolding ToInteger_def
  by (intro evolves_bnd kept_trans evolves_basic kept_refl; cases v) (simp_all add: evolves_basic kept_refl number_keeps)

lemma RelativeEnd_keeps: "evolves (buffers_kept H flags blen) (RelativeEnd H len v)"
  by (simp add: RelativeEnd_def ToInteger_keeps evolves_basic kept_refl)

lemma Get_keeps: "evolves (buffers_kept H flags blen) (Get H v k)"
  by (simp add: Get_def get_keeps evolves_basic kept_refl)

lemma New_keeps: "evolves (buffers_kept H flags blen) (New H c args)"
  by (auto simp: New_def IsConstructor_def construct_keeps intro!: evolves_bnd evolves_basic kept_refl kept_trans)

lemma SpeciesConstructor_keeps: "evolves (buffers_kept H flags blen) (SpeciesConstructor H ob c)"
  by (auto simp: SpeciesConstructor_def IsConstructor_def
      intro!: evolves_bnd evolves_sq evolves_basic kept_refl kept_trans Get_keeps)

lemma IsDetachedBuffer_run:
  "IsObject b \<Longrightarrow> has_class H w ''ArrayBuffer'' b \<Longrightarrow> IsDetachedBuffer H b w = (Ret (\<not> attached flags w b), w)"
  by (auto simp: IsDetachedBuffer_def HasClass_def run_simps IntOf_def flags_slot attached_def)

lemma ValidateNewBuffer_returns:
  assumes "ValidateNewBuffer H nb w = (Ret isWrapped, w')"
  shows "buffers_kept H flags blen w w' \<and> (\<not> isWrapped \<longrightarrow> attached flags w' nb)"
proof (cases "IsObject nb \<and> has_class H w ''ArrayBuffer'' nb")
  case True
  then have "ValidateNewBuffer H nb w =
      (if attached flags w nb then (Ret False, w) else (Throw (TypeErr ''JSMSG_TYPED_ARRAY_DETACHED''), w))"
    by (simp add: ValidateNewBuffer_def HasClass_def run_simps IsDetachedBuffer_run)
  with assms show ?thesis using kept_refl by (auto simp: reflp_def split: if_splits)
next
  case False
  then have "ValidateNewBuffer H nb w = (if IsObject nb \<and> has_class H w ''WrappedArrayBuffer'' nb
      then bnd (intrinsic H ''CallArrayBufferMethodIfWrapped'' [nb, vstr ''IsDetachedBufferThis''])
        (\<lambda>d. if truthy d then throw (TypeErr ''JSMSG_TYPED_ARRAY_DETACHED'') else ret True) w
      else (Throw (TypeErr ''JSMSG_NON_ARRAY_BUFFER_RETURNED''), w))"
    by (auto simp: ValidateNewBuffer_def HasClass_def run_simps)
  with assms evolvesD [OF wrapper_keeps] show ?thesis
    by (auto simp: bnd_def ret_def throw_def split: if_splits prod.splits res.splits)
qed

lemma length_small: "IsObject ob \<Longrightarrow> has_class H w ''ArrayBuffer'' ob \<Longrightarrow>
    0 \<le> i \<Longrightarrow> i \<le> blen w ob \<Longrightarrow> to_int32 i = i"
  using length_range [of ob w] by (intro to_int32_small) simp_all

theorem ArrayBufferSlice_guarded:
  "ArrayBufferSlice (guard_native H ''ArrayBufferCopyData'' (copy_ok flags blen)) ob args w = ArrayBufferSlice H ob args w"
proof (cases "IsObject ob \<and> has_class H w ''ArrayBuffer'' ob")
  case True
  let ?R = "buffers_kept H flags blen" and ?c = "clamp_index (blen w ob)"
  have b: "0 \<le> ?c n" "?c n \<le> blen w ob" for n using clamp_index_bounds length_range [of ob w] True by simp_all
  have small: "to_int32 i = i" if "0 \<le> i" "i \<le> blen w ob" for i using length_small True that by blast
  have len: "NativeInt H ''ArrayBufferByteLength'' [ob] w = (Ret (blen w ob), w)"
    using True by (intro NativeInt_run byte_length) simp_all
  have copy: "sq (intrinsic (guard_native H ''ArrayBufferCopyData'' (copy_ok flags blen)) ''ArrayBufferCopyData''
        [nb, vint 0, ob, vint (to_int32 (?c m)), vint (to_int32 (max (?c n - ?c m) 0)), Bool isWrapped]) (ret nb) t
      = sq (intrinsic H ''ArrayBufferCopyData''
        [nb, vint 0, ob, vint (to_int32 (?c m)), vint (to_int32 (max (?c n - ?c m) 0)), Bool isWrapped]) (ret nb) t"
    if "?R w t" "attached flags t ob" "nb \<noteq> ob" "max (?c n - ?c m) 0 \<le> blen t nb" "\<not> isWrapped \<longrightarrow> attached flags t nb"
    for nb m n isWrapped t
  proof -
    have "blen t ob = blen w ob" using that(1,2) True by (auto simp: buffers_kept_def)
    with that b [of m] b [of n] show ?thesis
      by (intro sq_guard_run) (simp add: copy_ok_def small split: if_splits)
  qed
  show ?thesis
    using True
    apply (simp add: ArrayBufferSlice_def HasClass_def IsDetachedBuffer_run run_simps len Let_def cong: if_cong)
    apply (intro impI bnd_cong_run if_cong_run refl)
    subgoal premises p for a t aa ta ab tb ac tc ad td ae te af tf ag tg
    proof -
      have "?R w td"
        using kept_step [OF kept_step [OF kept_step [OF kept_step [OF evolvesD [OF ToInteger_keeps p(3)]
          RelativeEnd_keeps p(4)] GetBuiltinConstructor_keeps p(5)] SpeciesConstructor_keeps p(6)] New_keeps p(7)] .
      with ValidateNewBuffer_returns [OF p(8)] have e: "?R w te" "\<not> ae \<longrightarrow> attached flags te ad"
        using transpD [OF kept_trans] by blast+
      have f: "tf = te" "af = blen te ad"
        using p(10) NativeInt_run [OF wrapped_length, of ad te] by (auto simp: prod_eq_iff)
      have "has_class H te ''ArrayBuffer'' ob" using e(1) p(1) by (auto simp: buffers_kept_def)
      then have g: "tg = te" "attached flags te ob"
        using p(1,12,13) IsDetachedBuffer_run [of ob te] f by auto
      have "max (?c aa - ?c a) 0 \<le> blen te ad" using p(11) unfolding f by linarith
      from copy [OF e(1) g(2) p(9) this e(2)] show ?thesis by (simp add: g(1))
    qed
    done
next
  case False
  then show ?thesis by (simp add: ArrayBufferSlice_def HasClass_def run_simps)
qed

end

section \<open>Engines with typed arrays\<close>

text \<open>A typed array whose buffer is not detached: it has none yet, a shared one, or an attached one.\<close>

definition usable :: "'w host \<Rightarrow> ('w \<Rightarrow> val \<Rightarrow> int) \<Rightarrow> ('w \<Rightarrow> val \<Rightarrow> val) \<Rightarrow> 'w \<Rightarrow> val \<Rightarrow> bool" where
  "usable H flags tbuf w a = (let b = tbuf w a in
     b = Null \<or> \<not> has_class H w ''ArrayBuffer'' b \<or> attached flags w b)"

definition typed_kept ::
    "'w host \<Rightarrow> ('w \<Rightarrow> val \<Rightarrow> int) \<Rightarrow> ('w \<Rightarrow> val \<Rightarrow> val) \<Rightarrow> ('w \<Rightarrow> val \<Rightarrow> int) \<Rightarrow> 'w \<Rightarrow> 'w \<Rightarrow> bool" where
  "typed_kept H flags tbuf tlen w w' = (\<forall>a. IsObject a \<and> has_class H w ''TypedArray'' a \<longrightarrow>
     has_class H w' ''TypedArray'' a \<and> (tbuf w a \<noteq> Null \<longrightarrow> tbuf w' a = tbuf w a) \<and>
     (usable H flags tbuf w' a \<longrightarrow> usable H flags tbuf w a \<and> tlen w' a = tlen w a))"

lemma typed_kept_preorder: "reflp (typed_kept H flags tbuf tlen)" "transp (typed_kept H flags tbuf tlen)"
  by (auto simp: typed_kept_def reflp_def transp_def)

text \<open>
  What the native copies need: \<open>TypedArrayBitwiseSlice\<close> an attached source, and ranges inside both
  arrays; \<open>MoveTypedArrayElements\<close>, which tests the buffer itself, ranges inside an array that is attached.
\<close>

definition slice_ok ::
    "'w host \<Rightarrow> ('w \<Rightarrow> val \<Rightarrow> int) \<Rightarrow> ('w \<Rightarrow> val \<Rightarrow> val) \<Rightarrow> ('w \<Rightarrow> val \<Rightarrow> int) \<Rightarrow> val list \<Rightarrow> 'w \<Rightarrow> bool" where
  "slice_ok H flags tbuf tlen args w = (case args of
      [src, target, k, n] \<Rightarrow>
        (case (int_value k, int_value n) of
           (Some i, Some c) \<Rightarrow> usable H flags tbuf w src \<and> 0 \<le> i \<and> 0 < c \<and> i + c \<le> tlen w src
             \<and> (IsObject target \<and> has_class H w ''TypedArray'' target \<longrightarrow> usable H flags tbuf w target \<and> c \<le> tlen w target)
         | _ \<Rightarrow> False)
    | _ \<Rightarrow> False)"

definition move_ok ::
    "'w host \<Rightarrow> ('w \<Rightarrow> val \<Rightarrow> int) \<Rightarrow> ('w \<Rightarrow> val \<Rightarrow> val) \<Rightarrow> ('w \<Rightarrow> val \<Rightarrow> int) \<Rightarrow> val list \<Rightarrow> 'w \<Rightarrow> bool" where
  "move_ok H flags tbuf tlen args w = (case args of
      [a, to, frm, n] \<Rightarrow>
        (case (int_value to, int_value frm, int_value n) of
           (Some t, Some f, Some c) \<Rightarrow> 0 \<le> t \<and> 0 \<le> f \<and> 0 < c
             \<and> (usable H flags tbuf w a \<longrightarrow> t + c \<le> tlen w a \<and> f + c \<le> tlen w a)
         | _ \<Rightarrow> False)
    | _ \<Rightarrow> False)"

locale typed_host =
  fixes H :: "'w host" and flags :: "'w \<Rightarrow> val \<Rightarrow> int" and tbuf :: "'w \<Rightarrow> val \<Rightarrow> val" and tlen :: "'w \<Rightarrow> val \<Rightarrow> int"
  assumes array_length: "IsObject a \<Longrightarrow> has_class H w ''TypedArray'' a \<Longrightarrow>
      intrinsic H ''TypedArrayLength'' [a] w = (Ret (vint (tlen w a)), w)"
    and array_range: "IsObject a \<Longrightarrow> has_class H w ''TypedArray'' a \<Longrightarrow> 0 \<le> tlen w a \<and> tlen w a < 2 ^ 31"
    and buffer_slot: "IsObject a \<Longrightarrow> has_class H w ''TypedArray'' a \<Longrightarrow>
      get_slot H a JS_TYPEDARRAYLAYOUT_BUFFER_SLOT w = (Ret (tbuf w a), w)"
    and buffer_class: "IsObject a \<Longrightarrow> has_class H w ''TypedArray'' a \<Longrightarrow>
      tbuf w a = Null \<or> IsObject (tbuf w a) \<and> (has_class H w ''ArrayBuffer'' (tbuf w a) \<or> has_class H w ''SharedArrayBuffer'' (tbuf w a))"
    and buffer_flags: "IsObject b \<Longrightarrow> has_class H w ''ArrayBuffer'' b \<Longrightarrow>
      get_slot H b JS_ARRAYBUFFER_FLAGS_SLOT w = (Ret (vint (flags w b)), w)"
    and get_keeps: "evolves (typed_kept H flags tbuf tlen) (get_prop H v k)"
    and construct_keeps: "evolves (typed_kept H flags tbuf tlen) (construct_fn H c args)"
    and number_keeps: "evolves (typed_kept H flags tbuf tlen) (to_number_of H v)"
    and default_keeps: "evolves (typed_kept H flags tbuf tlen) (intrinsic H ''_ConstructorForTypedArray'' args)"
    and wrapper_keeps: "evolves (typed_kept H flags tbuf tlen) (intrinsic H ''CallTypedArrayMethodIfWrapped'' args)"
    and wrapper_class: "intrinsic H ''CallTypedArrayMethodIfWrapped'' (a # args) w = (r, w') \<Longrightarrow>
      has_class H w' ''TypedArray'' a = has_class H w ''TypedArray'' a"
begin

lemmas kept_refl = typed_kept_preorder(1) [of H flags tbuf tlen]
lemmas kept_trans = typed_kept_preorder(2) [of H flags tbuf tlen]

lemma kept_step:
  "typed_kept H flags tbuf tlen w s \<Longrightarrow> evolves (typed_kept H flags tbuf tlen) m \<Longrightarrow> m s = (r, s') \<Longrightarrow> typed_kept H flags tbuf tlen w s'"
  using kept_trans evolvesD by (metis transpD)

lemma ToInteger_keeps: "evolves (typed_kept H flags tbuf tlen) (ToInteger H v)"
  unfolding ToInteger_def
  by (intro evolves_bnd kept_trans evolves_basic kept_refl; cases v) (simp_all add: evolves_basic kept_refl number_keeps)

lemma RelativeEnd_keeps: "evolves (typed_kept H flags tbuf tlen) (RelativeEnd H len v)"
  by (simp add: RelativeEnd_def ToInteger_keeps evolves_basic kept_refl)

lemma Get_keeps: "evolves (typed_kept H flags tbuf tlen) (Get H v k)"
  by (simp add: Get_def get_keeps evolves_basic kept_refl)

lemma New_keeps: "evolves (typed_kept H flags tbuf tlen) (New H c args)"
  by (auto simp: New_def IsConstructor_def construct_keeps intro!: evolves_bnd evolves_basic kept_refl kept_trans)

lemma TypedArraySpeciesConstructor_keeps: "evolves (typed_kept H flags tbuf tlen) (TypedArraySpeciesConstructor H ob)"
  by (auto simp: TypedArraySpeciesConstructor_def IsConstructor_def default_keeps
      intro!: evolves_bnd evolves_sq evolves_basic kept_refl kept_trans Get_keeps)

lemma ViewedArrayBufferIfReified_run:
  "IsObject a \<Longrightarrow> has_class H w ''TypedArray'' a \<Longrightarrow> ViewedArrayBufferIfReified H a w = (Ret (tbuf w a), w)"
  using buffer_class [of a w] by (auto simp: ViewedArrayBufferIfReified_def HasClass_def run_simps buffer_slot)

lemma IsDetachedBuffer_run:
  assumes "IsObject a" "has_class H w ''TypedArray'' a"
  shows "IsDetachedBuffer H (tbuf w a) w = (Ret (\<not> usable H flags tbuf w a), w)"
  using buffer_class [OF assms]
  by (auto simp: IsDetachedBuffer_def HasClass_def run_simps IntOf_def buffer_flags attached_def usable_def Let_def)

lemma GetAttachedArrayBuffer_run:
  assumes "IsObject a" "has_class H w ''TypedArray'' a"
  shows "GetAttachedArrayBuffer H a w =
    (if usable H flags tbuf w a then (Ret (tbuf w a), w) else (Throw (TypeErr ''JSMSG_TYPED_ARRAY_DETACHED''), w))"
  by (simp add: GetAttachedArrayBuffer_def ViewedArrayBufferIfReified_run [OF assms] IsDetachedBuffer_run [OF assms] run_simps)

lemma TypedArrayLength_run:
  "IsObject a \<Longrightarrow> has_class H w ''TypedArray'' a \<Longrightarrow> TypedArrayLength_of H a w = (Ret (tlen w a), w)"
  unfolding TypedArrayLength_of_def by (intro NativeInt_run array_length)

lemma CheckStillAttached_run:
  assumes "IsObject a" "has_class H t ''TypedArray'' a" "b \<noteq> Null \<longrightarrow> tbuf t a = b"
  shows "CheckStillAttached H a b t =
    (if usable H flags tbuf t a then (Ret (), t) else (Throw (TypeErr ''JSMSG_TYPED_ARRAY_DETACHED''), t))"
  using assms(3)
  by (cases "b = Null")
    (auto simp: CheckStillAttached_def run_simps ViewedArrayBufferIfReified_run [OF assms(1,2)] IsDetachedBuffer_run [OF assms(1,2)])

text \<open>An array that the conversions of the arguments of \<open>fill\<close> leave detached.\<close>

lemma TypedArrayFill_detaching:
  assumes a: "IsObject a" "has_class H w ''TypedArray'' a" "usable H flags tbuf w a"
    and "intrinsic H ''GetTypedArrayKind'' [a] w = (Ret (vint kind), w)" "\<not> IsBigIntKind kind"
    and conv: "ToNumber H v w = (Ret x, t)" "ToInteger H (default_zero s) t = (Ret i, t')" "RelativeEnd H (tlen w a) e t' = (Ret j, u)"
    and "\<not> usable H flags tbuf u a"
  shows "TypedArrayFill H a [v, s, e] w = (Throw (TypeErr ''JSMSG_TYPED_ARRAY_DETACHED''), u)"
proof -
  have "evolves (typed_kept H flags tbuf tlen) (ToNumber H v)"
    by (cases v) (simp_all add: evolves_basic kept_refl number_keeps)
  from kept_step [OF kept_step [OF evolvesD [OF this conv(1)] ToInteger_keeps conv(2)] RelativeEnd_keeps conv(3)]
  have "has_class H u ''TypedArray'' a" "tbuf w a \<noteq> Null \<longrightarrow> tbuf u a = tbuf w a"
    using a by (auto simp: typed_kept_def)
  with assms show ?thesis
    by (simp add: TypedArrayFill_def UnlessWrapped_def HasClass_def run_simps GetAttachedArrayBuffer_run TypedArrayLength_run
        NativeInt_run Let_def CheckStillAttached_run)
qed

lemma TypedArrayCreateWithLength_returns:
  assumes "TypedArrayCreateWithLength H C n w = (Ret A, w')"
  shows "typed_kept H flags tbuf tlen w w'"
    and "IsObject A \<and> has_class H w' ''TypedArray'' A \<longrightarrow> usable H flags tbuf w' A \<and> n \<le> tlen w' A"
proof -
  obtain s where new: "New H C [vint n] w = (Ret A, s)" and
      rest: "bnd (ValidateTypedArray H A) (\<lambda>ta. bnd (PossiblyWrappedLength H ta A) (\<lambda>k.
        if k < n then throw (TypeErr ''JSMSG_SHORT_TYPED_ARRAY_RETURNED'') else ret A)) s = (Ret A, w')"
    using assms unfolding TypedArrayCreateWithLength_def
    by (auto simp: bnd_def [of "New H C [vint n]"] split: prod.splits res.splits)
       (auto simp: bnd_def ret_def throw_def split: prod.splits res.splits if_splits)
  have k: "typed_kept H flags tbuf tlen w s" using evolvesD [OF New_keeps new] .
  have "typed_kept H flags tbuf tlen s w' \<and>
      (IsObject A \<and> has_class H w' ''TypedArray'' A \<longrightarrow> usable H flags tbuf w' A \<and> n \<le> tlen w' A)"
  proof (cases "IsObject A \<and> has_class H s ''TypedArray'' A")
    case True
    then have "ValidateTypedArray H A s = (if usable H flags tbuf s A then (Ret True, s)
        else (Throw (TypeErr ''JSMSG_TYPED_ARRAY_DETACHED''), s))"
      by (simp add: ValidateTypedArray_def HasClass_def run_simps GetAttachedArrayBuffer_run)
    with rest True kept_refl show ?thesis
      by (auto simp: PossiblyWrappedLength_def run_simps TypedArrayLength_run reflp_def split: if_splits)
  next
    case False
    then have v: "ValidateTypedArray H A s = (if IsObject A \<and> has_class H s ''PossiblyWrappedTypedArray'' A
        then if has_class H s ''DetachedBuffer'' A then (Throw (TypeErr ''JSMSG_TYPED_ARRAY_DETACHED''), s) else (Ret False, s)
        else (Throw (TypeErr ''JSMSG_NON_TYPED_ARRAY_RETURNED''), s))"
      by (auto simp: ValidateTypedArray_def HasClass_def run_simps)
    obtain r where "intrinsic H ''CallTypedArrayMethodIfWrapped'' [A, vstr ''TypedArrayLengthMethod''] s = (r, w')" "IsObject A"
      using rest v by (auto simp: PossiblyWrappedLength_def NativeInt_def IntOf_def run_simps
          bnd_def ret_def throw_def sq_def asrt_def split: prod.splits res.splits if_splits option.splits)
    with False evolvesD [OF wrapper_keeps] wrapper_class show ?thesis by blast
  qed
  with k show "typed_kept H flags tbuf tlen w w'"
    and "IsObject A \<and> has_class H w' ''TypedArray'' A \<longrightarrow> usable H flags tbuf w' A \<and> n \<le> tlen w' A"
    using transpD [OF kept_trans] by blast+
qed

theorem TypedArraySlice_guarded:
  "TypedArraySlice (guard_native H ''TypedArrayBitwiseSlice'' (slice_ok H flags tbuf tlen)) ob args w = TypedArraySlice H ob args w"
proof (cases "IsObject ob \<and> has_class H w ''TypedArray'' ob")
  case True
  let ?R = "typed_kept H flags tbuf tlen" and ?c = "clamp_index (tlen w ob)"
  let ?G = "guard_native H ''TypedArrayBitwiseSlice'' (slice_ok H flags tbuf tlen)"
  have b: "0 \<le> ?c n" "?c n \<le> tlen w ob" for n using clamp_index_bounds array_range [of ob w] True by simp_all
  have small: "to_int32 i = i" if "0 \<le> i" "i \<le> tlen w ob" for i
    using array_range [of ob w] True that by (intro to_int32_small) auto
  show ?thesis
  proof (cases "usable H flags tbuf w ob")
    case False
    with True show ?thesis
      by (simp add: TypedArraySlice_def UnlessWrapped_def HasClass_def GetAttachedArrayBuffer_run run_simps)
  next
    case att: True
    then show ?thesis
      using True
      apply (simp add: TypedArraySlice_def UnlessWrapped_def HasClass_def GetAttachedArrayBuffer_run TypedArrayLength_run
        run_simps Let_def cong: if_cong)
      apply (intro bnd_cong_run sq_left_run if_cong_run sq_right_run refl bnd_guard_run)
      subgoal premises p for m t n u A v x
      proof -
        let ?n = "max (?c n - ?c m) 0"
        obtain C s where sc: "TypedArraySpeciesConstructor H ob u = (Ret C, s)"
            and cr: "TypedArrayCreateWithLength H C ?n s = (Ret A, v)"
          using p(5) unfolding TypedArraySpeciesCreateWithLength_def by (auto simp: bnd_def split: prod.splits res.splits)
        have "?R w s"
          using kept_step [OF kept_step [OF evolvesD [OF ToInteger_keeps p(3)] RelativeEnd_keeps p(4)]
            TypedArraySpeciesConstructor_keeps sc] .
        with TypedArrayCreateWithLength_returns [OF cr] have R: "?R w v" using transpD [OF kept_trans] by blast
        then have ob: "has_class H v ''TypedArray'' ob" "tbuf w ob \<noteq> Null \<longrightarrow> tbuf v ob = tbuf w ob"
          "usable H flags tbuf v ob \<longrightarrow> tlen v ob = tlen w ob"
          using True by (auto simp: typed_kept_def)
        have x: "x = v" "usable H flags tbuf v ob"
          using CheckStillAttached_run [OF _ ob(1,2)] p(7) True by (auto split: if_splits)
        have "0 < ?c n - ?c m" using p(6) by linarith
        with x ob(3) TypedArrayCreateWithLength_returns(2) [OF cr] b [of m] b [of n] show ?thesis
          by (simp add: slice_ok_def small del: of_int_diff)
      qed
      done
  qed
next
  case False
  then show ?thesis by (simp add: TypedArraySlice_def UnlessWrapped_def HasClass_def run_simps)
qed

theorem TypedArrayCopyWithin_guarded:
  "TypedArrayCopyWithin (guard_native H ''MoveTypedArrayElements'' (move_ok H flags tbuf tlen)) ob args w
     = TypedArrayCopyWithin H ob args w"
proof (cases "IsObject ob \<and> has_class H w ''TypedArray'' ob \<and> usable H flags tbuf w ob")
  case True
  let ?R = "typed_kept H flags tbuf tlen" and ?c = "clamp_index (tlen w ob)"
  have b: "0 \<le> ?c n" "?c n \<le> tlen w ob" for n using clamp_index_bounds array_range [of ob w] True by simp_all
  have small: "to_int32 i = i" if "0 \<le> i" "i \<le> tlen w ob" for i
    using array_range [of ob w] True that by (intro to_int32_small) auto
  show ?thesis
    using True
    apply (simp add: TypedArrayCopyWithin_def UnlessWrapped_def HasClass_def GetAttachedArrayBuffer_run TypedArrayLength_run
      run_simps Let_def cong: if_cong)
    apply (intro impI bnd_cong_run sq_left_run if_cong_run sq_right_run refl sq_guard_run)
    subgoal premises p for s0 t s1 f s2 e s3 s4 s5 s6
    proof -
      have s: "s0 = w" "s6 = s3" using p by (auto simp: run_simps split: if_splits)
      have "?R w s3"
        using kept_step [OF kept_step [OF evolvesD [OF ToInteger_keeps p(3)] ToInteger_keeps p(4)] RelativeEnd_keeps p(5)]
        by (simp add: s)
      then have len: "usable H flags tbuf s3 ob \<longrightarrow> tlen s3 ob = tlen w ob" using True by (auto simp: typed_kept_def)
      let ?n = "min (?c e - ?c f) (tlen w ob - ?c t)"
      have n: "0 < ?n" "?n \<le> tlen w ob" "?c t + ?n \<le> tlen w ob" "?c f + ?n \<le> tlen w ob"
        using p(9) b [of e] b [of f] b [of t] by linarith+
      have "move_ok H flags tbuf tlen [ob, vint (to_int32 (?c t)), vint (to_int32 (?c f)), vint (to_int32 ?n)] s6"
        unfolding small [OF b] small [OF less_imp_le [OF n(1)] n(2)]
        using b [of f] b [of t] n len s by (simp add: move_ok_def del: of_int_diff of_int_min)
      then show ?thesis by (rule guard_run)
    qed
    done
next
  case False
  then show ?thesis
    by (auto simp: TypedArrayCopyWithin_def UnlessWrapped_def HasClass_def GetAttachedArrayBuffer_run run_simps)
qed

end

end
