(* ===== verification/BufferEngine.thy ===== *)
theory BufferEngine
  imports BufferSafety JSEngine
begin

text \<open>
  The engine of \<open>JSEngine\<close> with array buffers and typed arrays, whose constructors may be hostile:
  before it allocates, a constructor may detach a buffer. It is an engine in the sense of the two
  interfaces of \<open>BufferSafety\<close>; with it the properties of the slices at work.
\<close>

section \<open>The objects\<close>

text \<open>A buffer has its byte length in slot 1, its flags in slot 3; a typed array its buffer in slot 0, its length in slot 1.\<close>

definition as_int :: "val \<Rightarrow> int" where
  "as_int v = (case int_value v of Some i \<Rightarrow> i | None \<Rightarrow> 0)"

fun slot_of :: "eng \<Rightarrow> val \<Rightarrow> nat \<Rightarrow> val" where
  "slot_of w (Obj a) i = slots (heap w ! a) i"
| "slot_of w _ i = Undef"

definition in_class :: "string \<Rightarrow> eng \<Rightarrow> val \<Rightarrow> bool" where
  "in_class c w v = obj_test (\<lambda>r. class_name r = c) w v"

definition int31 :: "int \<Rightarrow> int" where
  "int31 i = min (max i 0) (2 ^ 31 - 1)"

definition buf_flags :: "eng \<Rightarrow> val \<Rightarrow> int" where
  "buf_flags w b = as_int (slot_of w b 3)"

definition buf_len :: "eng \<Rightarrow> val \<Rightarrow> int" where
  "buf_len w b = int31 (as_int (slot_of w b 1))"

definition arr_buf :: "eng \<Rightarrow> val \<Rightarrow> val" where
  "arr_buf w a = (let b = slot_of w a 0 in if in_class ''ArrayBuffer'' w b then b else Null)"

definition buf_detached :: "eng \<Rightarrow> val \<Rightarrow> bool" where
  "buf_detached w b = (in_class ''ArrayBuffer'' w b \<and> \<not> attached buf_flags w b)"

definition arr_length :: "eng \<Rightarrow> val \<Rightarrow> int" where
  "arr_length w a = (if buf_detached w (arr_buf w a) then 0 else int31 (as_int (slot_of w a 1)))"

section \<open>The operations\<close>

definition detach :: "val \<Rightarrow> (eng, unit) jprog" where
  "detach b = bnd (gets (\<lambda>w. in_class ''ArrayBuffer'' w b)) (\<lambda>c.
     if c then sq (eng_set_slot b 1 (vint 0)) (eng_set_slot b 3 (vint 8)) else ret ())"

definition buffer_obj :: "int \<Rightarrow> jobj" where
  "buffer_obj n = plain_obj\<lparr>class_name := ''ArrayBuffer'', slots := (\<lambda>_. Undef)(1 := vint n, 3 := vint 0)\<rparr>"

definition typed_obj :: "int \<Rightarrow> jobj" where
  "typed_obj n = plain_obj\<lparr>class_name := ''TypedArray'', slots := (\<lambda>_. Undef)(0 := Null, 1 := vint n)\<rparr>"

text \<open>A constructor detaches what its slot 0 names and makes a buffer or a typed array; its slot 1 may change the length.\<close>

definition buf_construct :: "val \<Rightarrow> val list \<Rightarrow> (eng, val) jprog" where
  "buf_construct c args =
     bnd (gets (\<lambda>w. (in_class ''BufferConstructor'' w c, slot_of w c 0, as_int (slot_of w c 1)))) (\<lambda>(b, victim, change).
     sq (detach victim)
        (let n = as_int (arg args 0) + change in eng_new (if b then buffer_obj n else typed_obj n)))"

text \<open>The conversion of a detacher to a Number detaches the buffer in its slot 0.\<close>

definition buf_to_number :: "val \<Rightarrow> (eng, num) jprog" where
  "buf_to_number v =
     bnd (gets (\<lambda>w. (in_class ''Detacher'' w v, slot_of w v 0))) (\<lambda>(d, victim).
     if d then sq (detach victim) (ret (nint 0)) else ret NaN)"

definition buf_get_slot :: "val \<Rightarrow> nat \<Rightarrow> (eng, val) jprog" where
  "buf_get_slot v i = gets (\<lambda>w.
     if in_class ''ArrayBuffer'' w v \<and> i = 3 then vint (buf_flags w v)
     else if in_class ''TypedArray'' w v \<and> i = 0 then arr_buf w v
     else slot_of w v i)"

definition buf_intrinsic :: "string \<Rightarrow> val list \<Rightarrow> (eng, val) jprog" where
  "buf_intrinsic name args =
     (if name = ''ArrayBufferByteLength'' \<or> name = ''PossiblyWrappedArrayBufferByteLength''
      then gets (\<lambda>w. vint (buf_len w (arg args 0)))
      else if name = ''TypedArrayLength'' then gets (\<lambda>w. vint (arr_length w (arg args 0)))
      else if name = ''GetTypedArrayKind'' then ret (vint 7)
      else if name = ''_ConstructorForTypedArray'' then ret (Obj 4)
      else if name \<in> {''ArrayBufferCopyData'', ''MoveTypedArrayElements''} then ret Undef
      else if name = ''TypedArrayBitwiseSlice'' then ret (Bool True)
      else throw (TypeErr name))"

definition buf_engine :: "eng host" where
  "buf_engine = (engine (\<lambda>_. None))\<lparr>construct_fn := buf_construct, to_number_of := buf_to_number,
     constructible := (\<lambda>w v. in_class ''BufferConstructor'' w v \<or> in_class ''TypedArrayConstructor'' w v),
     has_class := (\<lambda>w c v. in_class c w v),
     get_slot := buf_get_slot, builtin := (\<lambda>name. Obj 3), intrinsic := buf_intrinsic\<rparr>"

lemma buf_engine_simps [simp]:
  "get_prop buf_engine = eng_get" "construct_fn buf_engine = buf_construct" "get_slot buf_engine = buf_get_slot"
  "has_class buf_engine = (\<lambda>w c v. in_class c w v)" "intrinsic buf_engine = buf_intrinsic"
  "to_number_of buf_engine = buf_to_number" "builtin buf_engine = (\<lambda>name. Obj 3)"
  "constructible buf_engine = (\<lambda>w v. in_class ''BufferConstructor'' w v \<or> in_class ''TypedArrayConstructor'' w v)"
  by (simp_all add: buf_engine_def)

section \<open>The laws\<close>

lemma int_value_numeral [simp]: "int_value (Num (Fin (numeral k))) = Some (numeral k)" "int_value (Num (Fin 1)) = Some 1"
  by (simp_all add: int_value_def rat_trunc_def)

lemma int31_range: "0 \<le> int31 i" "int31 i < 2147483648"
  by (simp_all add: int31_def)

text \<open>What the operations can do to the heap: objects are added, buffers are detached.\<close>

definition heap_grows :: "eng \<Rightarrow> eng \<Rightarrow> bool" where
  "heap_grows w w' = (length (heap w) \<le> length (heap w') \<and> (\<forall>a < length (heap w).
     class_name (heap w' ! a) = class_name (heap w ! a)
     \<and> (slots (heap w' ! a) = slots (heap w ! a)
        \<or> class_name (heap w ! a) = ''ArrayBuffer'' \<and> as_int (slots (heap w' ! a) 3) = 8)))"

lemma heap_grows_preorder: "reflp heap_grows" "transp heap_grows"
proof -
  show "reflp heap_grows" by (simp add: reflp_def heap_grows_def)
  show "transp heap_grows"
  proof (rule transpI)
    fix u v w assume uv: "heap_grows u v" and vw: "heap_grows v w"
    have len: "length (heap u) \<le> length (heap v)" "length (heap v) \<le> length (heap w)"
      using uv vw by (simp_all add: heap_grows_def)
    have "class_name (heap w ! a) = class_name (heap u ! a)
     \<and> (slots (heap w ! a) = slots (heap u ! a)
        \<or> class_name (heap u ! a) = ''ArrayBuffer'' \<and> as_int (slots (heap w ! a) 3) = 8)" if "a < length (heap u)" for a
      using uv [unfolded heap_grows_def, THEN conjunct2, rule_format, OF that]
        vw [unfolded heap_grows_def, THEN conjunct2, rule_format, OF less_le_trans [OF that len(1)]] by auto
    with len show "heap_grows u w" by (simp add: heap_grows_def)
  qed
qed

lemma obj_in_class: "in_class c w (Obj a) \<longleftrightarrow> a < length (heap w) \<and> class_name (heap w ! a) = c"
  by (simp add: in_class_def)

lemma grows_buffers: "heap_grows w w' \<Longrightarrow> buffers_kept buf_engine buf_flags buf_len w w'"
  unfolding buffers_kept_def
proof (intro allI impI)
  fix b assume "heap_grows w w'" "IsObject b \<and> has_class buf_engine w ''ArrayBuffer'' b"
  then show "has_class buf_engine w' ''ArrayBuffer'' b
      \<and> (attached buf_flags w' b \<longrightarrow> attached buf_flags w b \<and> buf_len w' b = buf_len w b)"
    by (cases b) (auto simp: obj_in_class heap_grows_def attached_def buf_flags_def buf_len_def JS_ARRAYBUFFER_DETACHED_FLAG_def)
qed

lemma grows_typed: "heap_grows w w' \<Longrightarrow> typed_kept buf_engine buf_flags arr_buf arr_length w w'"
  unfolding typed_kept_def
proof (intro allI impI)
  fix v assume g: "heap_grows w w'" and v: "IsObject v \<and> has_class buf_engine w ''TypedArray'' v"
  then obtain a where a: "v = Obj a" "a < length (heap w)" "class_name (heap w ! a) = ''TypedArray''"
    by (cases v) (auto simp: obj_in_class)
  have a': "a < length (heap w')" "class_name (heap w' ! a) = ''TypedArray''" "slots (heap w' ! a) = slots (heap w ! a)"
    using g a by (auto simp: heap_grows_def)
  have cls: "in_class ''ArrayBuffer'' w b \<Longrightarrow> in_class ''ArrayBuffer'' w' b" for b
    using g by (cases b) (auto simp: obj_in_class heap_grows_def in_class_def)
  have att: "in_class ''ArrayBuffer'' w b \<Longrightarrow> attached buf_flags w' b \<Longrightarrow> attached buf_flags w b" for b
    using grows_buffers [OF g] by (cases b) (auto simp: buffers_kept_def in_class_def)
  have notNull: "\<not> in_class c u Null" for c u by (simp add: in_class_def)
  show "has_class buf_engine w' ''TypedArray'' v \<and> (arr_buf w v \<noteq> Null \<longrightarrow> arr_buf w' v = arr_buf w v) \<and>
     (usable buf_engine buf_flags arr_buf w' v \<longrightarrow> usable buf_engine buf_flags arr_buf w v \<and> arr_length w' v = arr_length w v)"
    using a a' cls att
    by (auto simp: obj_in_class arr_buf_def usable_def Let_def arr_length_def buf_detached_def notNull)
qed

lemma grows_set_slot:
  assumes "in_class ''ArrayBuffer'' w b" "eng_set_slot b 1 x w = (r, u)" "eng_set_slot b 3 (vint 8) u = (r', w')"
  shows "heap_grows w w'"
  using assms
  by (cases b) (auto simp: in_class_def heap_grows_def upd_obj_def modify_def nth_list_update as_int_def)

lemma detach_grows: "evolves heap_grows (detach b)"
  unfolding evolves_def
proof (intro allI impI)
  fix w r w' assume m: "detach b w = (r, w')"
  show "heap_grows w w'"
  proof (cases "in_class ''ArrayBuffer'' w b")
    case True
    then obtain a where "b = Obj a" by (cases b) (auto simp: in_class_def)
    with m True grows_set_slot [OF True] show ?thesis
      by (fastforce simp: detach_def run_simps modify_def sq_def bnd_def)
  next
    case False
    with m heap_grows_preorder(1) show ?thesis by (auto simp: detach_def run_simps reflp_def)
  qed
qed

lemma eng_new_grows: "evolves heap_grows (eng_new ob)"
  by (auto simp: evolves_def eng_new_def run_simps heap_grows_def modify_def gets_def bnd_def sq_def ret_def nth_append)

lemma reads_grow: "evolves heap_grows (eng_get v k)" "evolves heap_grows (buf_construct c args)"
  "evolves heap_grows (buf_to_number v)"
proof -
  note refl = evolves_basic [OF heap_grows_preorder(1)]
  show "evolves heap_grows (eng_get v k)"
    by (cases "(v, k)" rule: eng_get.cases) (simp_all add: eng_get.simps refl)
  show "evolves heap_grows (buf_construct c args)"
    unfolding buf_construct_def
    by (auto simp: Let_def intro!: evolves_bnd evolves_sq heap_grows_preorder refl detach_grows eng_new_grows split: prod.splits)
  show "evolves heap_grows (buf_to_number v)"
    unfolding buf_to_number_def
    by (auto intro!: evolves_bnd evolves_sq heap_grows_preorder refl detach_grows split: prod.splits)
qed

lemma obj_test_IsObject: "obj_test P w v \<Longrightarrow> IsObject v"
  by (cases v) simp_all

lemmas kept_ops = evolves_basic [OF heap_grows_preorder(1), THEN evolves_mono]
  reads_grow [THEN evolves_mono]

interpretation buffers: buffer_host buf_engine buf_flags buf_len
  by unfold_locales
    (auto simp: buf_intrinsic_def buf_get_slot_def run_simps buf_len_def int31_range in_class_def JS_ARRAYBUFFER_FLAGS_SLOT_def
      intro: kept_ops grows_buffers)

interpretation typed: typed_host buf_engine buf_flags arr_buf arr_length
  by unfold_locales
    (auto simp: buf_intrinsic_def buf_get_slot_def run_simps arr_length_def int31_range arr_buf_def Let_def JS_ARRAYBUFFER_FLAGS_SLOT_def
        JS_TYPEDARRAYLAYOUT_BUFFER_SLOT_def in_class_def
      intro: kept_ops grows_typed dest: obj_test_IsObject)

end
