(* ===== verification/TypedArrayProps.thy ===== *)
theory TypedArrayProps
  imports BufferEngine
begin

text \<open>
  Properties of the methods of TypedArray.js on every engine with buffers and typed arrays: the
  ranges of the native copies, the arithmetic of \<open>subarray\<close>, detachment during \<open>fill\<close>; each at
  work in the engine with hostile constructors.
\<close>

section \<open>A realm\<close>

definition object_with :: "string \<Rightarrow> (nat \<Rightarrow> val) \<Rightarrow> jobj" where
  "object_with c s = plain_obj\<lparr>proto := None, class_name := c, slots := s\<rparr>"

text \<open>Objects 3 and 4 are the constructors, 5 is a buffer of 8 bytes, 6 a typed array on it, 7 a detacher of it.\<close>

definition ex_bufs :: eng where
  "ex_bufs = \<lparr>heap = [object_with ''Object'' (\<lambda>_. Undef), object_with ''Object'' (\<lambda>_. Undef), object_with ''Object'' (\<lambda>_. Undef),
     object_with ''BufferConstructor'' (\<lambda>_. Undef), object_with ''TypedArrayConstructor'' (\<lambda>_. Undef),
     object_with ''ArrayBuffer'' ((\<lambda>_. Undef)(1 := vint 8, 3 := vint 0)),
     object_with ''TypedArray'' ((\<lambda>_. Undef)(0 := Obj 5, 1 := vint 8)),
     object_with ''Detacher'' ((\<lambda>_. Undef)(0 := Obj 5))]\<rparr>"

section \<open>Native copies\<close>







section \<open>subarray\<close>

text \<open>A typed array as its natives show it: buffer, length, byte offset, the logarithm of the size of an element.\<close>

definition views :: "'w host \<Rightarrow> 'w \<Rightarrow> val \<Rightarrow> val \<Rightarrow> int \<Rightarrow> int \<Rightarrow> nat \<Rightarrow> bool" where
  "views H w a buffer len offset shift =
     (IsObject a \<and> has_class H w ''TypedArray'' a
      \<and> get_slot H a JS_TYPEDARRAYLAYOUT_BUFFER_SLOT w = (Ret buffer, w)
      \<and> IsObject buffer \<and> (has_class H w ''ArrayBuffer'' buffer \<or> has_class H w ''SharedArrayBuffer'' buffer)
      \<and> intrinsic H ''TypedArrayLength'' [a] w = (Ret (vint len), w)
      \<and> intrinsic H ''TypedArrayByteOffset'' [a] w = (Ret (vint offset), w)
      \<and> intrinsic H ''TypedArrayElementShift'' [a] w = (Ret (vint (int shift)), w)
      \<and> 0 \<le> len \<and> 0 \<le> offset \<and> shift \<le> 3 \<and> offset + len * 2 ^ shift < 2 ^ 31)"

lemma shift_left_exact:
  assumes "0 \<le> i" "i \<le> len" "len * 2 ^ shift < 2 ^ 31" "shift \<le> 3"
  shows "js_shift_left i (int shift) = i * 2 ^ shift"
proof -
  have "i * 1 \<le> i * 2 ^ shift" using assms(1) by (intro mult_left_mono) simp_all
  moreover have "i * 2 ^ shift \<le> len * 2 ^ shift" using assms(2) by (intro mult_right_mono) simp_all
  ultimately have "i < 2 ^ 31" "i * 2 ^ shift < 2 ^ 31" "- (2 ^ 31) \<le> i" "- (2 ^ 31) \<le> i * 2 ^ shift"
    using assms(1,3) by linarith+
  then have "to_int32 i = i" "to_int32 (i * 2 ^ shift) = i * 2 ^ shift"
    by (simp_all only: to_int32_small)
  moreover have "int shift mod 32 = int shift" using assms(4) by simp
  ultimately show ?thesis by (simp add: js_shift_left_def)
qed

text \<open>The engine with byte offsets: every view starts at byte 16, the size of its elements is a parameter.\<close>

definition view_engine :: "nat \<Rightarrow> eng host" where
  "view_engine shift = buf_engine\<lparr>intrinsic := (\<lambda>name args.
     if name = ''TypedArrayByteOffset'' then ret (vint 16)
     else if name = ''TypedArrayElementShift'' then ret (vint (int shift))
     else buf_intrinsic name args)\<rparr>"

lemma view_engine_views: "views (view_engine 3) ex_bufs (Obj 6) (Obj 5) 8 16 3"
  by (simp add: views_def view_engine_def buf_intrinsic_def run_simps buf_get_slot_def JS_TYPEDARRAYLAYOUT_BUFFER_SLOT_def
      arr_buf_def arr_length_def buf_detached_def attached_def buf_flags_def JS_ARRAYBUFFER_DETACHED_FLAG_def
      ex_bufs_def object_with_def plain_obj_def in_class_def as_int_def int31_def int_value_def rat_trunc_def)

text \<open>
  C30: \<open>subarray\<close> with Number arguments asks for a view of the same buffer from the byte of the
  clamped begin index on, with the number of elements up to the clamped end: the 32-bit shift does not
  wrap, and the new view lies inside the bytes of the old one.
\<close>

theorem TypedArraySubarray_bounds:
  assumes "views H w a buffer len offset shift"
  shows "let i = clamp_index len (num_to_integer m); n = max (clamp_index len (num_to_integer e) - i) 0;
             start = offset + i * 2 ^ shift in
    TypedArraySubarray H a [Num m, Num e] w = TypedArraySpeciesCreateWithBuffer H a buffer start n w
    \<and> offset \<le> start \<and> start + n * 2 ^ shift \<le> offset + len * 2 ^ shift"
proof -
  let ?c = "\<lambda>n. clamp_index len (num_to_integer n)"
  note v = assms [unfolded views_def]
  have b: "0 \<le> ?c n" "?c n \<le> len" for n using v clamp_index_bounds by blast+
  have shift: "js_shift_left (?c n) (int shift) = ?c n * 2 ^ shift" for n
    using v b [of n] by (intro shift_left_exact) auto
  have reads: "NativeInt H ''TypedArrayByteOffset'' [a] w = (Ret offset, w)" "TypedArrayLength_of H a w = (Ret len, w)"
    "NativeInt H ''TypedArrayElementShift'' [a] w = (Ret (int shift), w)"
    unfolding TypedArrayLength_of_def using v by (auto intro!: NativeInt_run)
  have buf: "ViewedArrayBufferIfReified H a w = (Ret buffer, w)" "buffer \<noteq> Null"
    using v by (auto simp: ViewedArrayBufferIfReified_def HasClass_def run_simps)
  have "TypedArraySubarray H a [Num m, Num e] w
      = TypedArraySpeciesCreateWithBuffer H a buffer (offset + ?c m * 2 ^ shift) (max (?c e - ?c m) 0) w"
    using v by (simp add: TypedArraySubarray_def UnlessWrapped_def HasClass_def run_simps buf reads ToInteger_def
      RelativeEnd_def Let_def shift)
  moreover have "(?c m + max (?c e - ?c m) 0) * 2 ^ shift \<le> len * 2 ^ shift"
    using b [of m] b [of e] by (intro mult_right_mono) auto
  ultimately show ?thesis using b [of m] by (simp add: Let_def algebra_simps)
qed

theorem TypedArraySubarray_bounds_witness:
  "TypedArraySubarray (view_engine 3) (Obj 6) [vint 2, vint (- 1)] ex_bufs
     = TypedArraySpeciesCreateWithBuffer (view_engine 3) (Obj 6) (Obj 5) 32 5 ex_bufs"
proof -
  have "views (view_engine 3) ex_bufs (Obj 6) (Obj 5) 8 16 3" by (simp add: view_engine_views)
  from TypedArraySubarray_bounds [OF this, of "nint 2" "nint (- 1)"] show ?thesis
    by (simp add: Let_def clamp_index_def rat_trunc_def ceiling_minus)
qed

section \<open>fill\<close>

text \<open>
  C31: when the conversions of the arguments of \<open>fill\<close> have left the array detached, \<open>fill\<close> throws a
  TypeError, and no element is written: the state is the one after the conversions.
\<close>

theorem TypedArrayFill_detached:
  assumes "typed_host H flags tbuf tlen" "IsObject a" "has_class H w ''TypedArray'' a" "usable H flags tbuf w a"
    and "intrinsic H ''GetTypedArrayKind'' [a] w = (Ret (vint kind), w)" "\<not> IsBigIntKind kind"
    and "ToNumber H v w = (Ret x, t)" "ToInteger H (default_zero s) t = (Ret i, t')" "RelativeEnd H (tlen w a) e t' = (Ret j, u)"
    and "\<not> usable H flags tbuf u a"
  shows "TypedArrayFill H a [v, s, e] w = (Throw (TypeErr ''JSMSG_TYPED_ARRAY_DETACHED''), u)"
  using typed_host.TypedArrayFill_detaching [OF assms(1-5) assms(6-10)] .

theorem TypedArrayFill_detached_witness:
  "fst (TypedArrayFill buf_engine (Obj 6) [vint 2, Obj 7, Undef] ex_bufs) = Throw (TypeErr ''JSMSG_TYPED_ARRAY_DETACHED'')"
proof -
  let ?u = "snd (buf_to_number (Obj 7) ex_bufs)" and ?len = "arr_length ex_bufs (Obj 6)"
  have "fst (buf_to_number (Obj 7) ex_bufs) = Ret (nint 0)" by code_simp
  then have conv: "ToInteger buf_engine (default_zero (Obj 7)) ex_bufs = (Ret (IFin 0), ?u)"
    by (cases "buf_to_number (Obj 7) ex_bufs") (simp add: ToInteger_def default_zero_def run_simps rat_trunc_def)
  have "TypedArrayFill buf_engine (Obj 6) [vint 2, Obj 7, Undef] ex_bufs = (Throw (TypeErr ''JSMSG_TYPED_ARRAY_DETACHED''), ?u)"
  proof (rule TypedArrayFill_detached [OF typed.typed_host_axioms _ _ _ _ _ _ conv])
    show "IsObject (Obj 6)" "has_class buf_engine ex_bufs ''TypedArray'' (Obj 6)"
        "usable buf_engine buf_flags arr_buf ex_bufs (Obj 6)" "\<not> IsBigIntKind 7"
        "\<not> usable buf_engine buf_flags arr_buf ?u (Obj 6)"
      by code_simp+
    show "intrinsic buf_engine ''GetTypedArrayKind'' [Obj 6] ex_bufs = (Ret (vint 7), ex_bufs)"
      by (simp add: buf_intrinsic_def run_simps)
    show "ToNumber buf_engine (vint 2) ex_bufs = (Ret (nint 2), ex_bufs)" by (simp add: run_simps)
    show "RelativeEnd buf_engine ?len Undef ?u = (Ret (IFin ?len), ?u)" by (simp add: RelativeEnd_def run_simps)
  qed
  then show ?thesis by simp
qed


end
