(* ===== verification/IteratorHelpers.thy ===== *)
theory IteratorHelpers
  imports JSHost
begin

text \<open>
  Iterator.js and Generator.js: iterator records, the lazy iterator helpers (\<open>map\<close>, \<open>filter\<close>,
  \<open>take\<close>, \<open>drop\<close>, \<open>asIndexedPairs\<close>, \<open>flatMap\<close>), the eager ones, and the wrappers of
  \<open>Iterator.from\<close>. The bodies of the lazy helpers are generator functions: a suspended one is a
  frame (the \<open>yield\<close> that it waits at and its locals), and resuming a frame runs to the next
  \<open>yield\<close> or the end.
\<close>

section \<open>Iterator records\<close>

record iter_rec =
  rec_iterator :: val
  rec_nextMethod :: val

text \<open>\<open>args\<close> is empty in a call without a value.\<close>

definition IteratorNext :: "'w host \<Rightarrow> iter_rec \<Rightarrow> val list \<Rightarrow> ('w, val) jprog" where
  "IteratorNext H r args =
     bnd (Call H (rec_nextMethod r) (rec_iterator r) args) (\<lambda>result.
     if \<not> IsObject result then throw (TypeErr ''JSMSG_OBJECT_REQUIRED'') else ret result)"

definition IteratorClose :: "'w host \<Rightarrow> iter_rec \<Rightarrow> ('w, unit) jprog" where
  "IteratorClose H r =
     bnd (Get H (rec_iterator r) (pstr ''return'')) (\<lambda>returnMethod.
     if \<not> is_nullish returnMethod then
       bnd (Call H returnMethod (rec_iterator r) []) (\<lambda>result.
       if \<not> IsObject result then throw (TypeErr ''JSMSG_OBJECT_REQUIRED'') else ret ())
     else ret ())"

definition GetIteratorDirect :: "'w host \<Rightarrow> val \<Rightarrow> ('w, iter_rec) jprog" where
  "GetIteratorDirect H obj =
     (if \<not> IsObject obj then throw (TypeErr ''JSMSG_OBJECT_REQUIRED'')
      else
        bnd (Get H obj (pstr ''next'')) (\<lambda>nextMethod.
        bnd (IsCallable H nextMethod) (\<lambda>c.
        if \<not> c then throw (TypeErr ''JSMSG_NOT_FUNCTION'')
        else ret \<lparr>rec_iterator = obj, rec_nextMethod = nextMethod\<rparr>)))"

text \<open>\<open>None\<close> is the \<open>false\<close> of an iterator that is at its end.\<close>

definition IteratorStep :: "'w host \<Rightarrow> iter_rec \<Rightarrow> val list \<Rightarrow> ('w, val option) jprog" where
  "IteratorStep H r args =
     bnd (Call H (rec_nextMethod r) (rec_iterator r) args) (\<lambda>result.
     if \<not> IsObject result then throw (TypeErr ''JSMSG_OBJECT_REQUIRED'')
     else
       bnd (Get H result (pstr ''done'')) (\<lambda>d. ret (if truthy d then None else Some result)))"

section \<open>The generators of the lazy helpers\<close>

text \<open>Which function, with its locals: the records, the callbacks, what \<open>take\<close> and \<open>drop\<close> have left.\<close>

datatype gen_body =
    MapGen (source: iter_rec) val
  | FilterGen (source: iter_rec) val
  | TakeGen (source: iter_rec) inum
  | DropGen (source: iter_rec) inum
  | PairsGen (source: iter_rec) int
  | FlatMapGen (source: iter_rec) val

text \<open>
  Before the first statement; at the first \<open>yield\<close>; at the \<open>yield\<close> of the loop; at the \<open>yield\<close> inside
  the inner loop of \<open>flatMap\<close>, over the inner iterator.
\<close>

datatype frame = AtEntry gen_body | AtStart gen_body | AtYield gen_body | AtInner gen_body iter_rec

datatype resume_kind = RNext val | RThrow exn | RReturn val

text \<open>
  A value is yielded; the function returns a value; the function returns because it was resumed to
  do so, with the object it was given.
\<close>

datatype outcome = Yielded val frame | Finished val | Completed val

text \<open>\<open>try { m } finally { if (needClose) IteratorClose(iterated) }\<close> while \<open>needClose\<close> is set.\<close>

definition closing :: "'w host \<Rightarrow> iter_rec \<Rightarrow> ('w, 'a) jprog \<Rightarrow> ('w, 'a) jprog" where
  "closing H r m = try_catch m (\<lambda>e. sq (IteratorClose H r) (throw e))"

text \<open>The loops, from their heads on; the last argument is the local \<open>lastValue\<close>.\<close>

definition map_loop :: "'w host \<Rightarrow> iter_rec \<Rightarrow> val \<Rightarrow> val \<Rightarrow> ('w, outcome) jprog" where
  "map_loop H r mapper lastValue =
     bnd (IteratorStep H r [lastValue]) (\<lambda>next. case next of
       None \<Rightarrow> ret (Finished Undef)
     | Some result \<Rightarrow>
         bnd (Get H result (pstr ''value'')) (\<lambda>v.
         bnd (closing H r (Call H mapper Undef [v])) (\<lambda>mapped.
         ret (Yielded mapped (AtYield (MapGen r mapper))))))"

definition filter_loop :: "'w host \<Rightarrow> nat \<Rightarrow> iter_rec \<Rightarrow> val \<Rightarrow> val \<Rightarrow> ('w, outcome) jprog" where
  "filter_loop H fuel r filterer lastValue =
     loop_fuel fuel (\<lambda>_.
       bnd (IteratorStep H r [lastValue]) (\<lambda>next. case next of
         None \<Rightarrow> ret (Inr (Finished Undef))
       | Some result \<Rightarrow>
           bnd (Get H result (pstr ''value'')) (\<lambda>v.
           bnd (closing H r (Call H filterer Undef [v])) (\<lambda>selected.
           ret (if truthy selected then Inr (Yielded v (AtYield (FilterGen r filterer))) else Inl ()))))) ()"

definition take_loop :: "'w host \<Rightarrow> iter_rec \<Rightarrow> inum \<Rightarrow> val \<Rightarrow> ('w, outcome) jprog" where
  "take_loop H r remaining lastValue =
     (if IFin 0 < remaining then
        bnd (IteratorStep H r [lastValue]) (\<lambda>next. case next of
          None \<Rightarrow> ret (Finished Undef)
        | Some result \<Rightarrow>
            bnd (Get H result (pstr ''value'')) (\<lambda>v. ret (Yielded v (AtYield (TakeGen r remaining)))))
      else sq (IteratorClose H r) (ret (Finished Undef)))"

text \<open>\<open>drop\<close> after its first loop.\<close>

definition drop_loop :: "'w host \<Rightarrow> iter_rec \<Rightarrow> val \<Rightarrow> ('w, outcome) jprog" where
  "drop_loop H r lastValue =
     bnd (IteratorStep H r [lastValue]) (\<lambda>next. case next of
       None \<Rightarrow> ret (Finished Undef)
     | Some result \<Rightarrow>
         bnd (Get H result (pstr ''value'')) (\<lambda>v. ret (Yielded v (AtYield (DropGen r (IFin 0))))))"

fun inum_pred :: "inum \<Rightarrow> inum" where
  "inum_pred (IFin i) = IFin (i - 1)"
| "inum_pred n = n"

text \<open>The first loop; \<open>False\<close> when the source has ended.\<close>

definition drop_skip :: "'w host \<Rightarrow> nat \<Rightarrow> iter_rec \<Rightarrow> inum \<Rightarrow> ('w, bool) jprog" where
  "drop_skip H fuel r remaining =
     loop_fuel fuel (\<lambda>remaining.
       if IFin 0 < remaining then
         bnd (IteratorStep H r []) (\<lambda>next. ret (if next = None then Inr False else Inl (inum_pred remaining)))
       else ret (Inr True)) remaining"

definition pairs_loop :: "'w host \<Rightarrow> iter_rec \<Rightarrow> int \<Rightarrow> val \<Rightarrow> ('w, outcome) jprog" where
  "pairs_loop H r index lastValue =
     bnd (IteratorStep H r [lastValue]) (\<lambda>next. case next of
       None \<Rightarrow> ret (Finished Undef)
     | Some result \<Rightarrow>
         bnd (Get H result (pstr ''value'')) (\<lambda>v.
         bnd (closing H r (ArrayLiteral H [vint index, v])) (\<lambda>pair.
         ret (Yielded pair (AtYield (PairsGen r index))))))"

text \<open>The \<open>for ... of\<close> of \<open>flatMap\<close>: the iterator of what the mapper gives, a step of it, its two ways to close.\<close>

definition open_inner :: "'w host \<Rightarrow> val \<Rightarrow> ('w, iter_rec) jprog" where
  "open_inner H mapped =
     bnd (Get H mapped std_iterator) (\<lambda>method.
     bnd (Call H method mapped []) (\<lambda>it.
     if \<not> IsObject it then throw (TypeErr ''JSMSG_GET_ITER_RETURNED_PRIMITIVE'')
     else bnd (Get H it (pstr ''next'')) (\<lambda>next. ret \<lparr>rec_iterator = it, rec_nextMethod = next\<rparr>)))"

definition inner_step :: "'w host \<Rightarrow> iter_rec \<Rightarrow> ('w, val option) jprog" where
  "inner_step H inner =
     bnd (Call H (rec_nextMethod inner) (rec_iterator inner) []) (\<lambda>result.
     if \<not> IsObject result then throw (TypeErr ''JSMSG_ITER_METHOD_RETURNED_PRIMITIVE'')
     else
       bnd (Get H result (pstr ''done'')) (\<lambda>d.
       if truthy d then ret None else bnd (Get H result (pstr ''value'')) (\<lambda>v. ret (Some v))))"

definition inner_return :: "'w host \<Rightarrow> iter_rec \<Rightarrow> ('w, unit) jprog" where
  "inner_return H inner =
     bnd (Get H (rec_iterator inner) (pstr ''return'')) (\<lambda>r.
     if is_nullish r then ret ()
     else
       bnd (Call H r (rec_iterator inner) []) (\<lambda>result.
       if \<not> IsObject result then throw (TypeErr ''JSMSG_ITER_METHOD_RETURNED_PRIMITIVE'') else ret ()))"

definition flat_loop :: "'w host \<Rightarrow> nat \<Rightarrow> iter_rec \<Rightarrow> val \<Rightarrow> ('w, outcome) jprog" where
  "flat_loop H fuel r mapper =
     loop_fuel fuel (\<lambda>_.
       bnd (IteratorStep H r []) (\<lambda>next. case next of
         None \<Rightarrow> ret (Inr (Finished Undef))
       | Some result \<Rightarrow>
           bnd (Get H result (pstr ''value'')) (\<lambda>v.
           bnd (closing H r (
                  bnd (Call H mapper Undef [v]) (\<lambda>mapped.
                  bnd (open_inner H mapped) (\<lambda>inner.
                  bnd (inner_step H inner) (\<lambda>x. ret (inner, x)))))) (\<lambda>(inner, x).
           ret (case x of
                  Some innerValue \<Rightarrow> Inr (Yielded innerValue (AtInner (FlatMapGen r mapper) inner))
                | None \<Rightarrow> Inl ()))))) ()"

text \<open>From the first \<open>yield\<close> on, and from the \<open>yield\<close> in the loop on, with the value sent to it.\<close>

fun from_start :: "'w host \<Rightarrow> nat \<Rightarrow> gen_body \<Rightarrow> ('w, outcome) jprog" where
  "from_start H fuel (MapGen r f) = map_loop H r f Undef"
| "from_start H fuel (FilterGen r f) = filter_loop H fuel r f Undef"
| "from_start H fuel (TakeGen r n) = take_loop H r n Undef"
| "from_start H fuel (DropGen r n) =
     bnd (drop_skip H fuel r n) (\<lambda>more. if more then drop_loop H r Undef else ret (Finished Undef))"
| "from_start H fuel (PairsGen r i) = pairs_loop H r i Undef"
| "from_start H fuel (FlatMapGen r f) = flat_loop H fuel r f"

fun from_yield :: "'w host \<Rightarrow> nat \<Rightarrow> gen_body \<Rightarrow> val \<Rightarrow> ('w, outcome) jprog" where
  "from_yield H fuel (MapGen r f) x = map_loop H r f x"
| "from_yield H fuel (FilterGen r f) x = filter_loop H fuel r f x"
| "from_yield H fuel (TakeGen r n) x = take_loop H r (inum_pred n) x"
| "from_yield H fuel (DropGen r n) x = drop_loop H r x"
| "from_yield H fuel (PairsGen r i) x = pairs_loop H r (i + 1) x"
| "from_yield H fuel (FlatMapGen r f) x = flat_loop H fuel r f"

text \<open>After the \<open>yield\<close> in the inner loop of \<open>flatMap\<close>.\<close>

definition from_inner :: "'w host \<Rightarrow> nat \<Rightarrow> gen_body \<Rightarrow> iter_rec \<Rightarrow> ('w, outcome) jprog" where
  "from_inner H fuel b inner =
     bnd (closing H (source b) (inner_step H inner)) (\<lambda>x. case x of
       Some innerValue \<Rightarrow> ret (Yielded innerValue (AtInner b inner))
     | None \<Rightarrow> from_yield H fuel b Undef)"

text \<open>
  Resuming a frame. A \<open>throw\<close> or \<open>return\<close> at a \<open>yield\<close> runs the \<open>finally\<close> block, in which \<open>needClose\<close>
  is set at every \<open>yield\<close>; it first leaves the inner loop.
\<close>

fun gen_resume :: "'w host \<Rightarrow> nat \<Rightarrow> frame \<Rightarrow> resume_kind \<Rightarrow> ('w, outcome) jprog" where
  "gen_resume H fuel (AtEntry b) (RNext x) = ret (Yielded Undef (AtStart b))"
| "gen_resume H fuel (AtEntry b) (RThrow e) = throw e"
| "gen_resume H fuel (AtEntry b) (RReturn v) = ret (Completed v)"
| "gen_resume H fuel (AtStart b) (RNext x) = from_start H fuel b"
| "gen_resume H fuel (AtYield b) (RNext x) = from_yield H fuel b x"
| "gen_resume H fuel (AtInner b inner) (RNext x) = from_inner H fuel b inner"
| "gen_resume H fuel (AtInner b inner) (RThrow e) =
     sq (try_catch (inner_return H inner) (\<lambda>_. ret ())) (sq (IteratorClose H (source b)) (throw e))"
| "gen_resume H fuel (AtInner b inner) (RReturn v) =
     sq (closing H (source b) (inner_return H inner)) (sq (IteratorClose H (source b)) (ret (Completed v)))"
| "gen_resume H fuel (AtStart b) (RThrow e) = sq (IteratorClose H (source b)) (throw e)"
| "gen_resume H fuel (AtYield b) (RThrow e) = sq (IteratorClose H (source b)) (throw e)"
| "gen_resume H fuel (AtStart b) (RReturn v) = sq (IteratorClose H (source b)) (ret (Completed v))"
| "gen_resume H fuel (AtYield b) (RReturn v) = sq (IteratorClose H (source b)) (ret (Completed v))"

section \<open>Generator objects\<close>

text \<open>
  A generator object is closed, running or suspended at a frame. Where the engine keeps that, and
  what a wrapper of \<open>Iterator.from\<close> iterates over, are further fields of the engine; \<open>resumeGenerator\<close>
  is its bytecode that runs a suspended one.
\<close>

datatype gen = Closed | Running | Suspended frame

record 'w ghost = "'w host" +
  get_gen :: "val \<Rightarrow> ('w, exn, gen) prog"
  set_gen :: "val \<Rightarrow> gen \<Rightarrow> ('w, exn, unit) prog"
  new_gen :: "gen \<Rightarrow> ('w, exn, val) prog"
  get_iterated :: "val \<Rightarrow> ('w, exn, iter_rec) prog"
  set_iterated :: "val \<Rightarrow> iter_rec \<Rightarrow> ('w, exn, unit) prog"

abbreviation base :: "'w ghost \<Rightarrow> 'w host" where
  "base \<equiv> host.truncate"

definition iter_result :: "'w ghost \<Rightarrow> val \<Rightarrow> bool \<Rightarrow> ('w, val) jprog" where
  "iter_result H v d = ObjectLiteral (base H) [(pstr ''value'', v), (pstr ''done'', Bool d)]"

definition resumeGenerator :: "'w ghost \<Rightarrow> nat \<Rightarrow> val \<Rightarrow> resume_kind \<Rightarrow> ('w, val) jprog" where
  "resumeGenerator H fuel g kind =
     bnd (get_gen H g) (\<lambda>st. case st of
       Suspended f \<Rightarrow>
         sq (set_gen H g Running)
        (bnd (gen_resume (base H) fuel f kind) (\<lambda>out. case out of
           Yielded v f' \<Rightarrow> sq (set_gen H g (Suspended f')) (iter_result H v False)
         | Finished v \<Rightarrow> sq (set_gen H g Closed) (iter_result H v True)
         | Completed rval \<Rightarrow> sq (set_gen H g Closed) (ret rval)))
     | _ \<Rightarrow> sq (asrt False ''resuming a generator that is not suspended'') (ret Undef))"

text \<open>What the three methods have in common; \<open>whenClosed\<close> is what they do on a closed generator.\<close>

definition GeneratorMethod ::
    "'w ghost \<Rightarrow> nat \<Rightarrow> string \<Rightarrow> val \<Rightarrow> val \<Rightarrow> ('w, val) jprog \<Rightarrow> ('w, resume_kind) jprog \<Rightarrow> ('w, val) jprog" where
  "GeneratorMethod H fuel name this v whenClosed kind =
     bnd (HasClass (base H) ''Generator'' this) (\<lambda>g.
     if \<not> g then intrinsic H ''CallGeneratorMethodIfWrapped'' [this, v, vstr name]
     else
       bnd (get_gen H this) (\<lambda>st. case st of
         Closed \<Rightarrow> whenClosed
       | Running \<Rightarrow> throw (TypeErr ''JSMSG_NESTING_GENERATOR'')
       | Suspended _ \<Rightarrow>
           try_catch (bnd kind (resumeGenerator H fuel this)) (\<lambda>e.
             bnd (get_gen H this) (\<lambda>st.
             sq (if st \<noteq> Closed then set_gen H this Closed else ret ()) (throw e)))))"

definition GeneratorNext :: "'w ghost \<Rightarrow> nat \<Rightarrow> val \<Rightarrow> val \<Rightarrow> ('w, val) jprog" where
  "GeneratorNext H fuel this v =
     GeneratorMethod H fuel ''GeneratorNext'' this v (iter_result H Undef True) (ret (RNext v))"

text \<open>The value given to \<open>throw\<close> becomes the exception.\<close>

definition GeneratorThrow :: "'w ghost \<Rightarrow> nat \<Rightarrow> val \<Rightarrow> val \<Rightarrow> ('w, val) jprog" where
  "GeneratorThrow H fuel this v =
     GeneratorMethod H fuel ''GeneratorThrow'' this v (throw (Thrown v)) (ret (RThrow (Thrown v)))"

definition GeneratorReturn :: "'w ghost \<Rightarrow> nat \<Rightarrow> val \<Rightarrow> val \<Rightarrow> ('w, val) jprog" where
  "GeneratorReturn H fuel this v =
     GeneratorMethod H fuel ''GeneratorReturn'' this v (iter_result H v True)
       (bnd (iter_result H v True) (\<lambda>rval. ret (RReturn rval)))"

text \<open>\<open>InterpretGeneratorResume\<close> differs from \<open>resumeGenerator\<close> in that it is not compiled.\<close>

definition InterpretGeneratorResume :: "'w ghost \<Rightarrow> nat \<Rightarrow> val \<Rightarrow> resume_kind \<Rightarrow> ('w, val) jprog" where
  "InterpretGeneratorResume H fuel g kind = resumeGenerator H fuel g kind"

section \<open>The lazy helpers\<close>

definition ITERATED_SLOT :: nat where "ITERATED_SLOT = 0"
definition ITERATOR_HELPER_GENERATOR_SLOT :: nat where "ITERATOR_HELPER_GENERATOR_SLOT = 0"

text \<open>The end of every prelude: a helper object with the generator, which has run to its first \<open>yield\<close>.\<close>

definition MakeHelper :: "'w ghost \<Rightarrow> nat \<Rightarrow> gen_body \<Rightarrow> ('w, val) jprog" where
  "MakeHelper H fuel b =
     bnd (intrinsic H ''NewIteratorHelper'' []) (\<lambda>iteratorHelper.
     bnd (new_gen H (Suspended (AtEntry b))) (\<lambda>generator.
     sq (GeneratorNext H fuel generator Undef)
    (sq (set_slot H iteratorHelper ITERATOR_HELPER_GENERATOR_SLOT generator)
        (ret iteratorHelper))))"

definition CheckFunction :: "'w ghost \<Rightarrow> val \<Rightarrow> ('w, unit) jprog" where
  "CheckFunction H f =
     bnd (IsCallable (base H) f) (\<lambda>c. if \<not> c then throw (TypeErr ''JSMSG_NOT_FUNCTION'') else ret ())"

definition IteratorMap :: "'w ghost \<Rightarrow> nat \<Rightarrow> val \<Rightarrow> val \<Rightarrow> ('w, val) jprog" where
  "IteratorMap H fuel this mapper =
     bnd (GetIteratorDirect (base H) this) (\<lambda>iterated.
     sq (CheckFunction H mapper) (MakeHelper H fuel (MapGen iterated mapper)))"

definition IteratorFilter :: "'w ghost \<Rightarrow> nat \<Rightarrow> val \<Rightarrow> val \<Rightarrow> ('w, val) jprog" where
  "IteratorFilter H fuel this filterer =
     bnd (GetIteratorDirect (base H) this) (\<lambda>iterated.
     sq (CheckFunction H filterer) (MakeHelper H fuel (FilterGen iterated filterer)))"

definition IteratorTake :: "'w ghost \<Rightarrow> nat \<Rightarrow> val \<Rightarrow> val \<Rightarrow> ('w, val) jprog" where
  "IteratorTake H fuel this limit =
     bnd (GetIteratorDirect (base H) this) (\<lambda>iterated.
     bnd (ToInteger (base H) limit) (\<lambda>remaining.
     if remaining < IFin 0 then throw (RangeErr ''JSMSG_NEGATIVE_LIMIT'')
     else MakeHelper H fuel (TakeGen iterated remaining)))"

definition IteratorDrop :: "'w ghost \<Rightarrow> nat \<Rightarrow> val \<Rightarrow> val \<Rightarrow> ('w, val) jprog" where
  "IteratorDrop H fuel this limit =
     bnd (GetIteratorDirect (base H) this) (\<lambda>iterated.
     bnd (ToInteger (base H) limit) (\<lambda>remaining.
     if remaining < IFin 0 then throw (RangeErr ''JSMSG_NEGATIVE_LIMIT'')
     else MakeHelper H fuel (DropGen iterated remaining)))"

definition IteratorAsIndexedPairs :: "'w ghost \<Rightarrow> nat \<Rightarrow> val \<Rightarrow> ('w, val) jprog" where
  "IteratorAsIndexedPairs H fuel this =
     bnd (GetIteratorDirect (base H) this) (\<lambda>iterated. MakeHelper H fuel (PairsGen iterated 0))"

definition IteratorFlatMap :: "'w ghost \<Rightarrow> nat \<Rightarrow> val \<Rightarrow> val \<Rightarrow> ('w, val) jprog" where
  "IteratorFlatMap H fuel this mapper =
     bnd (GetIteratorDirect (base H) this) (\<lambda>iterated.
     sq (CheckFunction H mapper) (MakeHelper H fuel (FlatMapGen iterated mapper)))"

text \<open>The methods of a helper object go to its generator.\<close>

definition HelperMethod ::
    "'w ghost \<Rightarrow> string \<Rightarrow> ('w ghost \<Rightarrow> nat \<Rightarrow> val \<Rightarrow> val \<Rightarrow> ('w, val) jprog) \<Rightarrow> nat \<Rightarrow> val \<Rightarrow> val \<Rightarrow> ('w, val) jprog" where
  "HelperMethod H name method fuel this v =
     bnd (HasClass (base H) ''IteratorHelper'' this) (\<lambda>ok.
     if \<not> ok then intrinsic H ''CallIteratorHelperMethodIfWrapped'' [this, v, vstr name]
     else bnd (get_slot H this ITERATOR_HELPER_GENERATOR_SLOT) (\<lambda>generator. method H fuel generator v))"

definition IteratorHelperNext :: "'w ghost \<Rightarrow> nat \<Rightarrow> val \<Rightarrow> val \<Rightarrow> ('w, val) jprog" where
  "IteratorHelperNext H = HelperMethod H ''IteratorHelperNext'' GeneratorNext"

definition IteratorHelperReturn :: "'w ghost \<Rightarrow> nat \<Rightarrow> val \<Rightarrow> val \<Rightarrow> ('w, val) jprog" where
  "IteratorHelperReturn H = HelperMethod H ''IteratorHelperReturn'' GeneratorReturn"

definition IteratorHelperThrow :: "'w ghost \<Rightarrow> nat \<Rightarrow> val \<Rightarrow> val \<Rightarrow> ('w, val) jprog" where
  "IteratorHelperThrow H = HelperMethod H ''IteratorHelperThrow'' GeneratorThrow"

section \<open>Iterator.from\<close>

definition IteratorFrom :: "'w ghost \<Rightarrow> val \<Rightarrow> ('w, val) jprog" where
  "IteratorFrom H ob =
     bnd (Get (base H) ob std_iterator) (\<lambda>usingIterator.
     bnd (if \<not> is_nullish usingIterator then
            bnd (Call (base H) usingIterator ob []) (\<lambda>iterator.
            bnd (GetIteratorDirect (base H) iterator) (\<lambda>r.
            bnd (GetBuiltinConstructor (base H) ''Iterator'') (\<lambda>c.
            bnd (intrinsic H ''instanceof'' [rec_iterator r, c]) (\<lambda>isIterator.
            ret (r, truthy isIterator)))))
          else bnd (GetIteratorDirect (base H) ob) (\<lambda>r. ret (r, False))) (\<lambda>(r, isIterator).
     if isIterator then ret (rec_iterator r)
     else
       bnd (intrinsic H ''NewWrapForValidIterator'' []) (\<lambda>wrapper.
       sq (set_iterated H wrapper r) (ret wrapper))))"

text \<open>The methods of a wrapper; \<open>args\<close> are the arguments, of which \<open>next\<close> passes on whether there is one.\<close>

definition WrapForValidIteratorNext :: "'w ghost \<Rightarrow> val \<Rightarrow> val list \<Rightarrow> ('w, val) jprog" where
  "WrapForValidIteratorNext H this args =
     bnd (HasClass (base H) ''WrapForValidIterator'' this) (\<lambda>ok.
     if \<not> ok then
       intrinsic H ''CallWrapForValidIteratorMethodIfWrapped''
         (if args = [] then [this, vstr ''WrapForValidIteratorNext''] else [this, arg args 0, vstr ''WrapForValidIteratorNext''])
     else
       bnd (get_iterated H this) (\<lambda>iterated.
       IteratorNext (base H) iterated (if args = [] then [] else [arg args 0])))"

definition WrapForValidIteratorReturn :: "'w ghost \<Rightarrow> val \<Rightarrow> val list \<Rightarrow> ('w, val) jprog" where
  "WrapForValidIteratorReturn H this args =
     bnd (HasClass (base H) ''WrapForValidIterator'' this) (\<lambda>ok.
     if \<not> ok then
       intrinsic H ''CallWrapForValidIteratorMethodIfWrapped'' [this, arg args 0, vstr ''WrapForValidIteratorReturn'']
     else
       bnd (get_iterated H this) (\<lambda>iterated.
       sq (IteratorClose (base H) iterated)
          (ObjectLiteral (base H) [(pstr ''done'', Bool True), (pstr ''value'', arg args 0)])))"

definition WrapForValidIteratorThrow :: "'w ghost \<Rightarrow> val \<Rightarrow> val list \<Rightarrow> ('w, val) jprog" where
  "WrapForValidIteratorThrow H this args =
     bnd (HasClass (base H) ''WrapForValidIterator'' this) (\<lambda>ok.
     if \<not> ok then
       intrinsic H ''CallWrapForValidIteratorMethodIfWrapped'' [this, arg args 0, vstr ''WrapForValidIteratorThrow'']
     else
       bnd (get_iterated H this) (\<lambda>iterated.
       bnd (Get (base H) (rec_iterator iterated) (pstr ''throw'')) (\<lambda>throwMethod.
       if is_nullish throwMethod then throw (Thrown (arg args 0))
       else Call (base H) throwMethod (rec_iterator iterated) [arg args 0])))"

section \<open>The eager helpers\<close>

text \<open>
  \<open>GetIteratorDirectWrapper\<close>: an iterator object whose \<open>next\<close> and \<open>return\<close> call those of \<open>obj\<close> with one
  argument. It is only used in \<open>for ... of\<close>, which calls them without an argument, so the one they
  pass on is \<open>undefined\<close>; it is known by its record.
\<close>

definition GetIteratorDirectWrapper :: "'w host \<Rightarrow> val \<Rightarrow> ('w, iter_rec) jprog" where
  "GetIteratorDirectWrapper H obj = GetIteratorDirect H obj"

definition wrapper_next :: "'w host \<Rightarrow> iter_rec \<Rightarrow> ('w, val) jprog" where
  "wrapper_next H r = Call H (rec_nextMethod r) (rec_iterator r) [Undef]"

definition wrapper_return :: "'w host \<Rightarrow> iter_rec \<Rightarrow> ('w, val) jprog" where
  "wrapper_return H r =
     bnd (Get H (rec_iterator r) (pstr ''return'')) (\<lambda>returnMethod.
     if \<not> is_nullish returnMethod then Call H returnMethod (rec_iterator r) [Undef]
     else ObjectLiteral H [(pstr ''done'', Bool True), (pstr ''value'', Undef)])"

text \<open>
  \<open>for (const value of allowContentIter(iterated)) body\<close>: the body goes on with \<open>Inl\<close> or returns with
  \<open>Inr\<close>; when it returns or throws, the iterator is closed, and an exception of the body prevails.
\<close>

definition for_wrapper ::
    "'w host \<Rightarrow> nat \<Rightarrow> iter_rec \<Rightarrow> (val \<Rightarrow> 'c \<Rightarrow> ('w, 'c + 'r) jprog) \<Rightarrow> 'c \<Rightarrow> ('w, 'c + 'r) jprog" where
  "for_wrapper H fuel r body c =
     loop_fuel fuel (\<lambda>c.
       bnd (wrapper_next H r) (\<lambda>result.
       if \<not> IsObject result then throw (TypeErr ''JSMSG_ITER_METHOD_RETURNED_PRIMITIVE'')
       else
         bnd (Get H result (pstr ''done'')) (\<lambda>d.
         if truthy d then ret (Inr (Inl c))
         else
           bnd (Get H result (pstr ''value'')) (\<lambda>v.
           bnd (try_catch (body v c) (\<lambda>e.
                  sq (try_catch (bnd (wrapper_return H r) (\<lambda>_. ret ())) (\<lambda>_. ret ())) (throw e))) (\<lambda>x. case x of
             Inl c \<Rightarrow> ret (Inl c)
           | Inr y \<Rightarrow>
               bnd (wrapper_return H r) (\<lambda>closed.
               if \<not> IsObject closed then throw (TypeErr ''JSMSG_ITER_METHOD_RETURNED_PRIMITIVE'')
               else ret (Inr (Inr y)))))))) c"

definition EagerPrelude :: "'w host \<Rightarrow> val \<Rightarrow> val \<Rightarrow> ('w, iter_rec) jprog" where
  "EagerPrelude H this fn =
     bnd (GetIteratorDirectWrapper H this) (\<lambda>iterated.
     bnd (IsCallable H fn) (\<lambda>c.
     if \<not> c then throw (TypeErr ''JSMSG_NOT_FUNCTION'') else ret iterated))"

definition IteratorReduce :: "'w host \<Rightarrow> nat \<Rightarrow> val \<Rightarrow> val list \<Rightarrow> ('w, val) jprog" where
  "IteratorReduce H fuel this args =
     bnd (EagerPrelude H this (arg args 0)) (\<lambda>iterated.
     bnd (if length args = 1 then
            bnd (wrapper_next H iterated) (\<lambda>next.
            if \<not> IsObject next then throw (TypeErr ''JSMSG_OBJECT_REQUIRED'')
            else
              bnd (Get H next (pstr ''done'')) (\<lambda>d.
              if truthy d then throw (TypeErr ''JSMSG_EMPTY_ITERATOR_REDUCE'')
              else Get H next (pstr ''value'')))
          else ret (arg args 1)) (\<lambda>accumulator.
     bnd (for_wrapper H fuel iterated
            (\<lambda>v accumulator. bnd (Call H (arg args 0) Undef [accumulator, v]) (\<lambda>a. ret (Inl a))) accumulator)
         (\<lambda>x. case x of Inl a \<Rightarrow> ret a | Inr a \<Rightarrow> ret a)))"

text \<open>\<open>[...allowContentIter(iterated)]\<close>, where \<open>iterated[std_iterator]()\<close> is \<open>this\<close>.\<close>

definition IteratorToArray :: "'w host \<Rightarrow> nat \<Rightarrow> val \<Rightarrow> ('w, val) jprog" where
  "IteratorToArray H fuel this =
     bnd (ArrayLiteral H []) (\<lambda>A.
     if \<not> IsObject this then throw (TypeErr ''JSMSG_GET_ITER_RETURNED_PRIMITIVE'')
     else
       bnd (Get H this (pstr ''next'')) (\<lambda>next.
       loop_fuel fuel (\<lambda>i.
         bnd (inner_step H \<lparr>rec_iterator = this, rec_nextMethod = next\<rparr>) (\<lambda>x. case x of
           None \<Rightarrow> ret (Inr A)
         | Some v \<Rightarrow> sq (define_data H A (PIdx i) v) (ret (Inl (i + 1))))) 0))"

definition IteratorForEach :: "'w host \<Rightarrow> nat \<Rightarrow> val \<Rightarrow> val \<Rightarrow> ('w, val) jprog" where
  "IteratorForEach H fuel this fn =
     bnd (EagerPrelude H this fn) (\<lambda>iterated.
     bnd (for_wrapper H fuel iterated (\<lambda>v _. bnd (Call H fn Undef [v]) (\<lambda>_. ret (Inl ()))) ())
         (\<lambda>x. case x of Inl _ \<Rightarrow> ret Undef | Inr y \<Rightarrow> ret y))"

text \<open>\<open>some\<close>, \<open>every\<close> and \<open>find\<close> return from the loop when \<open>stop\<close> says so.\<close>

definition search_wrapper ::
    "'w host \<Rightarrow> nat \<Rightarrow> val \<Rightarrow> val \<Rightarrow> (val \<Rightarrow> val \<Rightarrow> val option) \<Rightarrow> val \<Rightarrow> ('w, val) jprog" where
  "search_wrapper H fuel this fn stop after =
     bnd (EagerPrelude H this fn) (\<lambda>iterated.
     bnd (for_wrapper H fuel iterated (\<lambda>v _.
            bnd (Call H fn Undef [v]) (\<lambda>x. ret (case stop v x of Some y \<Rightarrow> Inr y | None \<Rightarrow> Inl ()))) ())
         (\<lambda>x. case x of Inl _ \<Rightarrow> ret after | Inr y \<Rightarrow> ret y))"

definition IteratorSome :: "'w host \<Rightarrow> nat \<Rightarrow> val \<Rightarrow> val \<Rightarrow> ('w, val) jprog" where
  "IteratorSome H fuel this fn =
     search_wrapper H fuel this fn (\<lambda>v x. if truthy x then Some (Bool True) else None) (Bool False)"

definition IteratorEvery :: "'w host \<Rightarrow> nat \<Rightarrow> val \<Rightarrow> val \<Rightarrow> ('w, val) jprog" where
  "IteratorEvery H fuel this fn =
     search_wrapper H fuel this fn (\<lambda>v x. if \<not> truthy x then Some (Bool False) else None) (Bool True)"

definition IteratorFind :: "'w host \<Rightarrow> nat \<Rightarrow> val \<Rightarrow> val \<Rightarrow> ('w, val) jprog" where
  "IteratorFind H fuel this fn =
     search_wrapper H fuel this fn (\<lambda>v x. if truthy x then Some v else None) Undef"

definition IteratorIdentity :: "val \<Rightarrow> ('w, val) jprog" where
  "IteratorIdentity this = ret this"

end
