(* ===== verification/IteratorProps.thy ===== *)
theory IteratorProps
  imports IteratorHelpers JSEngine
begin

text \<open>
  What the lazy helpers do with a source: drained, they give the lists that their names promise,
  each value drawn when it is asked for; how they close the source; what a generator object goes
  through.
\<close>

section \<open>Sources\<close>

text \<open>
  From one state to another the source yields the values, whatever is sent to it, and reading a
  value from a result has no effect; in a state it is at its end.
\<close>

inductive yields :: "'w host \<Rightarrow> iter_rec \<Rightarrow> 'w \<Rightarrow> val list \<Rightarrow> 'w \<Rightarrow> bool" for H r where
  none: "yields H r w [] w"
| one: "(\<And>args. IteratorStep H r args w = (Ret (Some result), w1)) \<Longrightarrow> Get H result (pstr ''value'') w1 = (Ret v, w1) \<Longrightarrow>
    yields H r w1 vs w2 \<Longrightarrow> yields H r w (v # vs) w2"

inductive_cases yields_Cons: "yields H r w (v # vs) w'"
inductive_cases yields_Nil: "yields H r w [] w'"

definition at_end :: "'w host \<Rightarrow> iter_rec \<Rightarrow> 'w \<Rightarrow> 'w \<Rightarrow> bool" where
  "at_end H r w w' = (\<forall>args. IteratorStep H r args w = (Ret None, w'))"

text \<open>A callback that computes a function and changes nothing.\<close>

definition pure_fn :: "'w host \<Rightarrow> val \<Rightarrow> (val \<Rightarrow> val) \<Rightarrow> bool" where
  "pure_fn H f g = (\<forall>v w. Call H f Undef [v] w = (Ret (g v), w))"

text \<open>All values of a suspended helper, at most \<open>n\<close> resumptions.\<close>

fun drain :: "'w host \<Rightarrow> nat \<Rightarrow> nat \<Rightarrow> frame \<Rightarrow> ('w, val list) jprog" where
  "drain H fuel 0 f = no_fuel"
| "drain H fuel (Suc n) f =
     bnd (gen_resume H fuel f (RNext Undef)) (\<lambda>out. case out of
       Yielded v f' \<Rightarrow> bnd (drain H fuel n f') (\<lambda>vs. ret (v # vs))
     | Finished v \<Rightarrow> ret []
     | Completed v \<Rightarrow> ret [])"

lemma closing_run: "m w = (Ret a, w') \<Longrightarrow> closing H r m w = (Ret a, w')"
  by (simp add: closing_def run_simps)

lemma pure_fnD: "pure_fn H f g \<Longrightarrow> Call H f Undef [v] w = (Ret (g v), w)"
  by (simp add: pure_fn_def)

section \<open>map, filter, drop\<close>

lemma map_drain:
  assumes "pure_fn H f g" "yields H r w xs w1" "at_end H r w1 w2" "length xs < n"
  shows "drain H fuel n (AtYield (MapGen r f)) w = (Ret (map g xs), w2)"
  using assms(2,4,3)
proof (induction arbitrary: n rule: yields.induct)
  case (none w)
  then show ?case
    by (cases n) (simp_all add: map_loop_def run_simps at_end_def)
next
  case (one w result w1 v vs w2)
  then obtain n' where n: "n = Suc n'" "length vs < n'" by (cases n) auto
  with one.IH [OF n(2) one.prems(2)] show ?case
    by (simp add: map_loop_def one.hyps run_simps closing_run [OF pure_fnD [OF assms(1)]])
qed

lemma filter_loop_run:
  assumes "pure_fn H f g" "yields H r w xs w1" "at_end H r w1 w2" "length xs < fuel"
  shows "(case find (\<lambda>v. truthy (g v)) xs of
       None \<Rightarrow> filter_loop H fuel r f x w = (Ret (Finished Undef), w2)
     | Some v \<Rightarrow> \<exists>u. filter_loop H fuel r f x w = (Ret (Yielded v (AtYield (FilterGen r f))), u)
         \<and> yields H r u (tl (dropWhile (\<lambda>v. \<not> truthy (g v)) xs)) w1)"
  using assms(2,4,3)
proof (induction arbitrary: fuel rule: yields.induct)
  case (none w)
  then show ?case
    by (cases fuel) (simp_all add: filter_loop_def run_simps at_end_def)
next
  case (one w result w1 v vs w2)
  then obtain n' where n: "fuel = Suc n'" "length vs < n'" by (cases fuel) auto
  from one.IH [OF n(2) one.prems(2)] one.hyps(2,3) n(1) show ?case
    by (auto simp: filter_loop_def one.hyps(1) run_simps closing_run [OF pure_fnD [OF assms(1)]] split: option.splits)
qed

lemma filter_find: "filter P xs = (case find P xs of None \<Rightarrow> [] | Some v \<Rightarrow> v # filter P (tl (dropWhile (\<lambda>v. \<not> P v) xs)))"
  by (induction xs) (auto split: option.split)

lemma filter_drain:
  assumes f: "pure_fn H f g" and e: "at_end H r w1 w2"
  shows "yields H r w xs w1 \<Longrightarrow> length xs < n \<Longrightarrow> length xs < fuel \<Longrightarrow>
    drain H fuel n (AtYield (FilterGen r f)) w = (Ret (filter (\<lambda>v. truthy (g v)) xs), w2)"
proof (induction n arbitrary: w xs)
  case (Suc n)
  let ?P = "\<lambda>v. truthy (g v)"
  note run = filter_loop_run [OF f Suc.prems(1) e Suc.prems(3), of Undef]
  show ?case
  proof (cases "find ?P xs")
    case None
    with run show ?thesis by (subst filter_find) (simp add: run_simps)
  next
    case (Some v)
    let ?ys = "tl (dropWhile (\<lambda>v. \<not> ?P v) xs)"
    have "dropWhile (\<lambda>v. \<not> ?P v) xs \<noteq> []" using Some by (auto simp: find_Some_iff)
    then have "length ?ys < length xs"
      by (metis length_dropWhile_le length_tl less_le_trans diff_less length_greater_0_conv zero_less_one)
    moreover from run Some obtain u where "filter_loop H fuel r f Undef w = (Ret (Yielded v (AtYield (FilterGen r f))), u)"
      "yields H r u ?ys w1" by auto
    ultimately show ?thesis using Suc.IH [of u ?ys] Suc.prems Some by (subst filter_find) (simp add: run_simps)
  qed
qed simp

lemma drop_drain:
  assumes "yields H r w xs w1" "at_end H r w1 w2" "length xs < n"
  shows "drain H fuel n (AtYield (DropGen r m)) w = (Ret xs, w2)"
  using assms(1,3,2)
proof (induction arbitrary: n m rule: yields.induct)
  case (none w)
  then show ?case by (cases n) (simp_all add: drop_loop_def run_simps at_end_def)
next
  case (one w result w1 v vs w2)
  then obtain n' where n: "n = Suc n'" "length vs < n'" by (cases n) auto
  with one.IH [OF n(2) one.prems(2)] show ?case
    by (simp add: drop_loop_def one.hyps run_simps)
qed

lemma drop_skip_run:
  assumes "yields H r w xs w1" "at_end H r w1 w2" "length xs < fuel"
  shows "if k \<le> length xs then \<exists>u. drop_skip H fuel r (IFin (int k)) w = (Ret True, u) \<and> yields H r u (drop k xs) w1
    else drop_skip H fuel r (IFin (int k)) w = (Ret False, w2)"
  using assms(1,3,2)
proof (induction arbitrary: fuel k rule: yields.induct)
  case (none w)
  then show ?case
    by (cases fuel) (auto simp: drop_skip_def run_simps at_end_def intro: yields.none)
next
  case (one w result w1 v vs w2)
  then obtain n' where n: "fuel = Suc n'" "length vs < n'" by (cases fuel) auto
  show ?case
  proof (cases k)
    case 0
    have "yields H r w (v # vs) w2" by (rule yields.one) (fact one.hyps)+
    with 0 n(1) show ?thesis by (simp add: drop_skip_def run_simps)
  next
    case (Suc k')
    with one.IH [OF n(2) one.prems(2), of k'] n(1) show ?thesis
      by (simp add: drop_skip_def one.hyps(1) run_simps split: if_splits)
  qed
qed

lemma start_drop:
  assumes "yields H r w xs w1" "at_end H r w1 w2" "length xs < fuel" "length xs < n"
  shows "drain H fuel n (AtStart (DropGen r (IFin (int k)))) w = (Ret (drop k xs), w2)"
proof (cases "k \<le> length xs")
  case True
  then obtain u where u: "drop_skip H fuel r (IFin (int k)) w = (Ret True, u)" "yields H r u (drop k xs) w1"
    using drop_skip_run [OF assms(1-3), of k] by auto
  obtain n' where n: "n = Suc n'" using assms(4) by (cases n) auto
  have "drain H fuel n (AtYield (DropGen r (IFin 0))) u = (Ret (drop k xs), w2)"
    using drop_drain [OF u(2) assms(2)] assms(4) by simp
  with u(1) n show ?thesis by (simp add: run_simps)
next
  case False
  with drop_skip_run [OF assms(1-3), of k] assms(4) show ?thesis by (cases n) (simp_all add: run_simps)
qed

lemma start_yield:
  "drain H fuel n (AtStart (MapGen r f)) = drain H fuel n (AtYield (MapGen r f))"
  "drain H fuel n (AtStart (FilterGen r f)) = drain H fuel n (AtYield (FilterGen r f))"
  by (cases n, simp_all)+

text \<open>
  C32: drained, the lazy helpers refine the functions on lists: over a source that yields \<open>xs\<close> and
  ends, \<open>map\<close>, \<open>filter\<close> and \<open>drop\<close> give the values of \<open>map\<close>, \<open>filter\<close> and \<open>drop\<close> on \<open>xs\<close>, draw the
  source to its end and do not close it.
\<close>

theorem lazy_helpers_lists:
  assumes "pure_fn H f g" "yields H r w xs w1" "at_end H r w1 w2" "length xs < n" "length xs < fuel"
  shows "drain H fuel n (AtStart (MapGen r f)) w = (Ret (map g xs), w2)
    \<and> drain H fuel n (AtStart (FilterGen r f)) w = (Ret (filter (\<lambda>v. truthy (g v)) xs), w2)
    \<and> drain H fuel n (AtStart (DropGen r (IFin (int k)))) w = (Ret (drop k xs), w2)"
  using map_drain [OF assms(1-4)] filter_drain [OF assms(1,3,2,4,5)] start_drop [OF assms(2,3,5,4)] by (simp add: start_yield)

section \<open>take\<close>

lemma take_drain:
  assumes "yields H r w xs w1" "length xs < n"
    and "IteratorClose H r w1 = (Ret (), w2)"
  shows "drain H fuel n (AtYield (TakeGen r (IFin (int (Suc (length xs)))))) w = (Ret xs, w2)"
  using assms
proof (induction arbitrary: n rule: yields.induct)
  case (none w)
  then show ?case by (cases n) (simp_all add: take_loop_def run_simps)
next
  case (one w result w1 v vs w2')
  then obtain n' where n: "n = Suc n'" "length vs < n'" by (cases n) auto
  with one.IH [OF n(2) one.prems(2)] show ?case
    by (simp add: take_loop_def one.hyps run_simps algebra_simps)
qed

lemma take_drain_short:
  assumes "yields H r w xs w1" "length xs < n" "at_end H r w1 w2" "length xs < k"
  shows "drain H fuel n (AtYield (TakeGen r (IFin (int (Suc k))))) w = (Ret xs, w2)"
  using assms
proof (induction arbitrary: n k rule: yields.induct)
  case (none w)
  then show ?case by (cases n) (simp_all add: take_loop_def run_simps at_end_def)
next
  case (one w result w1 v vs w2')
  then obtain n' where n: "n = Suc n'" "length vs < n'" by (cases n) auto
  obtain k' where k: "k = Suc k'" "length vs < k'" using one.prems(3) by (cases k) auto
  from one.IH [OF n(2) one.prems(2) k(2)] show ?case
    by (simp add: take_loop_def one.hyps run_simps n k algebra_simps)
qed

text \<open>
  C33: \<open>take(n)\<close> draws exactly \<open>n\<close> values from a source that has them, not one more, and closes the
  source once after the last; a source that ends before that is not closed.
\<close>

theorem take_exact:
  assumes "yields H r w xs w1" "length xs < n" "IteratorClose H r w1 = (Ret (), w2)"
  shows "drain H fuel n (AtStart (TakeGen r (IFin (int (length xs))))) w = (Ret xs, w2)
    \<and> (at_end H r w1 w3 \<and> length xs < k \<longrightarrow> drain H fuel n (AtStart (TakeGen r (IFin (int k)))) w = (Ret xs, w3))"
proof -
  have "drain H fuel n (AtStart (TakeGen r (IFin (int m)))) = drain H fuel n (AtYield (TakeGen r (IFin (int (Suc m)))))" for m
    by (cases n) simp_all
  then show ?thesis using take_drain [OF assms] take_drain_short [OF assms(1,2)] by simp
qed

section \<open>Closing\<close>

text \<open>
  C34: when the mapper of \<open>map\<close> throws and the \<open>return\<close> of the source throws as well, the exception
  that comes out is that of \<open>return\<close>; the exception of the mapper is lost.
\<close>

theorem IteratorMap_close_error_wins:
  assumes "IteratorStep H r [x] w = (Ret (Some result), w1)" "Get H result (pstr ''value'') w1 = (Ret v, w2)"
    and "Call H f Undef [v] w2 = (Throw e, w3)" "IteratorClose H r w3 = (Throw e', w4)"
  shows "gen_resume H fuel (AtYield (MapGen r f)) (RNext x) w = (Throw e', w4)"
  using assms by (simp add: map_loop_def closing_def run_simps)

section \<open>Generator objects\<close>

text \<open>What code of the user cannot do: end the run of a generator that is running, open one that is closed.\<close>

definition gens_kept :: "('w \<Rightarrow> val \<Rightarrow> gen) \<Rightarrow> 'w \<Rightarrow> 'w \<Rightarrow> bool" where
  "gens_kept gst w w' = (\<forall>g. (gst w g = Running \<longrightarrow> gst w' g = Running) \<and> (gst w g = Closed \<longrightarrow> gst w' g = Closed))"

lemma gens_kept_preorder: "reflp (gens_kept gst)" "transp (gens_kept gst)"
  by (auto simp: gens_kept_def reflp_def transp_def)

locale gen_store =
  fixes H :: "'w ghost" and gst :: "'w \<Rightarrow> val \<Rightarrow> gen"
  assumes get: "get_gen H g w = (Ret (gst w g), w)"
    and set: "\<exists>w'. set_gen H g st w = (Ret (), w') \<and> gst w' = (gst w)(g := st)"
    and literals: "evolves (\<lambda>w w'. gst w' = gst w) (ObjectLiteral (base H) kvs)"
      "evolves (\<lambda>w w'. gst w' = gst w) (ArrayLiteral (base H) vs)"
    and get_keeps: "evolves (gens_kept gst) (get_prop H v k)"
    and call_keeps: "evolves (gens_kept gst) (call_fn H f T args)"
begin

lemmas kept_refl = gens_kept_preorder(1) [of gst]
lemmas kept_trans = gens_kept_preorder(2) [of gst]
lemmas kept_basic = evolves_basic [OF kept_refl]

lemma base_fields [simp]: "get_prop (base H) = get_prop H" "call_fn (base H) = call_fn H" "callable (base H) = callable H"
  by (simp_all add: host.truncate_def)

lemma literal_keeps: "evolves (gens_kept gst) (ArrayLiteral (base H) vs)"
  by (rule evolves_mono [OF literals(2)]) (auto simp: gens_kept_def)

lemma Get_keeps: "evolves (gens_kept gst) (Get (base H) v k)"
  by (simp add: Get_def get_keeps kept_basic)

lemma Call_keeps: "evolves (gens_kept gst) (Call (base H) f T args)"
  by (auto simp: Call_def IsCallable_def call_keeps intro!: evolves_bnd kept_trans kept_basic)

lemmas keeps_intros = evolves_bnd [OF kept_trans] evolves_sq [OF kept_trans] evolves_try_catch [OF kept_trans]
  evolves_loop_fuel [OF kept_refl kept_trans] kept_basic Get_keeps Call_keeps literal_keeps

lemma IteratorStep_keeps: "evolves (gens_kept gst) (IteratorStep (base H) r args)"
  by (auto simp: IteratorStep_def intro!: keeps_intros)

lemma IteratorClose_keeps: "evolves (gens_kept gst) (IteratorClose (base H) r)"
  by (auto simp: IteratorClose_def intro!: keeps_intros)

lemma inner_keeps:
  "evolves (gens_kept gst) (open_inner (base H) v)" "evolves (gens_kept gst) (inner_step (base H) r)"
  "evolves (gens_kept gst) (inner_return (base H) r)"
  by (auto simp: open_inner_def inner_step_def inner_return_def intro!: keeps_intros)

lemma closing_keeps: "evolves (gens_kept gst) m \<Longrightarrow> evolves (gens_kept gst) (closing (base H) r m)"
  by (auto simp: closing_def intro!: keeps_intros IteratorClose_keeps)

lemmas step_intros = keeps_intros IteratorStep_keeps IteratorClose_keeps inner_keeps closing_keeps

lemma loops_keep:
  "evolves (gens_kept gst) (map_loop (base H) r f x)" "evolves (gens_kept gst) (filter_loop (base H) fuel r f x)"
  "evolves (gens_kept gst) (take_loop (base H) r n x)" "evolves (gens_kept gst) (drop_loop (base H) r x)"
  "evolves (gens_kept gst) (drop_skip (base H) fuel r n)" "evolves (gens_kept gst) (pairs_loop (base H) r i x)"
  "evolves (gens_kept gst) (flat_loop (base H) fuel r f)"
  by (auto simp: map_loop_def filter_loop_def take_loop_def drop_loop_def drop_skip_def pairs_loop_def flat_loop_def
      intro!: step_intros split: option.split prod.split)

lemma from_keeps: "evolves (gens_kept gst) (from_start (base H) fuel b)" "evolves (gens_kept gst) (from_yield (base H) fuel b x)"
  by (cases b; auto intro!: step_intros loops_keep)+

lemma gen_resume_keeps: "evolves (gens_kept gst) (gen_resume (base H) fuel f k)"
  by (cases f; cases k) (auto simp: from_inner_def intro!: step_intros from_keeps split: option.split)

text \<open>Setting one generator, and the literals, leave the others as they are.\<close>

definition others_kept :: "val \<Rightarrow> 'w \<Rightarrow> 'w \<Rightarrow> bool" where
  "others_kept g w w' = (\<forall>g'. g' \<noteq> g \<longrightarrow> (gst w g' = Running \<longrightarrow> gst w' g' = Running) \<and> (gst w g' = Closed \<longrightarrow> gst w' g' = Closed))"

lemma get_run: "get_gen H g w = (r, w') \<Longrightarrow> r = Ret (gst w g) \<and> w' = w"
  using get by auto

lemma set_run: "set_gen H g st w = (r, w') \<Longrightarrow> r = Ret () \<and> gst w' = (gst w)(g := st)"
  using set [of g st w] by auto

lemma iter_result_run: "iter_result H v d w = (r, w') \<Longrightarrow> gst w' = gst w"
  using literals(1) by (auto simp: iter_result_def evolves_def)

lemma resumeGenerator_run:
  assumes "resumeGenerator H fuel g kind w = (r, w')" "gst w g = Suspended f"
  shows "others_kept g w w'" "r = Ret x \<Longrightarrow> gst w' g \<noteq> Running"
proof -
  obtain w1 where w1: "set_gen H g Running w = (Ret (), w1)" "gst w1 = (gst w)(g := Running)"
    using set [of g Running w] by auto
  obtain out w2 where w2: "gen_resume (base H) fuel f kind w1 = (out, w2)" by (meson surj_pair)
  with gen_resume_keeps have k: "gens_kept gst w1 w2" by (blast dest: evolvesD)
  have run: "resumeGenerator H fuel g kind w = bnd (\<lambda>_. (out, w2)) (\<lambda>out. case out of
           Yielded v f' \<Rightarrow> sq (set_gen H g (Suspended f')) (iter_result H v False)
         | Finished v \<Rightarrow> sq (set_gen H g Closed) (iter_result H v True)
         | Completed rval \<Rightarrow> sq (set_gen H g Closed) (ret rval)) w"
    using get [of g w] w1(1) w2 assms(2)
    by (simp add: resumeGenerator_def bnd_def sq_def split: res.split outcome.split)
  have "others_kept g w w' \<and> (\<forall>x. r = Ret x \<longrightarrow> gst w' g \<noteq> Running)"
    using assms(1) k w1(2) unfolding run others_kept_def gens_kept_def
    by (cases out)
      (auto simp: bnd_def sq_def ret_def split: outcome.splits prod.splits res.splits dest!: set_run iter_result_run)
  then show "others_kept g w w'" "r = Ret x \<Longrightarrow> gst w' g \<noteq> Running" by auto
qed

lemma others_keptD: "others_kept g w w' \<Longrightarrow> gst w g = Suspended f \<Longrightarrow> gens_kept gst w w'"
  by (auto simp: others_kept_def gens_kept_def) (metis gen.distinct)+

text \<open>A method whose \<open>kind\<close> at most makes an object.\<close>

lemma GeneratorMethod_run:
  assumes m: "GeneratorMethod H fuel name g v wc kind w = (r, w')" and cls: "IsObject g" "has_class H w ''Generator'' g"
    and wc: "evolves (\<lambda>w w'. gst w' = gst w) wc" and kind: "evolves (\<lambda>w w'. gst w' = gst w) kind"
  shows "gens_kept gst w w'
    \<and> (case gst w g of
         Running \<Rightarrow> r = Throw (TypeErr ''JSMSG_NESTING_GENERATOR'') \<and> w' = w
       | Closed \<Rightarrow> gst w' g = Closed
       | Suspended f \<Rightarrow> (\<forall>x. r = Ret x \<longrightarrow> gst w' g \<noteq> Running) \<and> (\<forall>e. r = Throw e \<longrightarrow> gst w' g = Closed))"
proof -
  have enter: "HasClass (base H) ''Generator'' g w = (Ret True, w)"
    using cls by (simp add: HasClass_def gets_def host.truncate_def)
  show ?thesis
  proof (cases "gst w g")
    case Closed
    with m enter get [of g w] have "wc w = (r, w')" by (simp add: GeneratorMethod_def run_simps)
    with wc Closed show ?thesis by (auto simp: evolves_def gens_kept_def)
  next
    case Running
    with m enter get [of g w] show ?thesis
      by (auto simp: GeneratorMethod_def run_simps gens_kept_def)
  next
    case (Suspended f)
    define body where "body = bnd kind (resumeGenerator H fuel g)"
    obtain r1 w1 where b: "body w = (r1, w1)" by (meson surj_pair)
    have "others_kept g w w1 \<and> (\<forall>x. r1 = Ret x \<longrightarrow> gst w1 g \<noteq> Running)"
    proof (cases "kind w")
      case (Pair k u)
      with kind have u: "gst u = gst w" by (auto simp: evolves_def)
      show ?thesis
      proof (cases k)
        case (Ret x)
        with b Pair have "resumeGenerator H fuel g x u = (r1, w1)" by (simp add: body_def run_simps)
        with resumeGenerator_run [of fuel g x u r1 w1 f] u Suspended show ?thesis by (auto simp: others_kept_def)
      qed (use b Pair u in \<open>auto simp: body_def bnd_def others_kept_def\<close>)
    qed
    moreover have "(r, w') = try_catch body (\<lambda>e. bnd (get_gen H g) (\<lambda>st.
        sq (if st \<noteq> Closed then set_gen H g Closed else ret ()) (throw e))) w"
      using m enter get [of g w] Suspended by (simp add: GeneratorMethod_def body_def run_simps)
    ultimately have "others_kept g w w' \<and> (\<forall>x. r = Ret x \<longrightarrow> gst w' g \<noteq> Running) \<and> (\<forall>e. r = Throw e \<longrightarrow> gst w' g = Closed)"
      using b get [of g w1] set [of g Closed w1]
      by (cases r1) (auto simp: try_catch_def bnd_def sq_def ret_def throw_def others_kept_def split: if_splits)
    with Suspended show ?thesis by (auto intro: others_keptD)
  qed
qed

lemma literal_exact: "evolves (\<lambda>w w'. gst w' = gst w) (iter_result H v d)"
  by (simp add: iter_result_def literals(1))

lemma generator_methods:
  assumes "m \<in> {GeneratorNext, GeneratorThrow, GeneratorReturn}"
    and "m H fuel g v w = (r, w')" "IsObject g" "has_class H w ''Generator'' g"
  shows "gens_kept gst w w'
    \<and> (case gst w g of
         Running \<Rightarrow> r = Throw (TypeErr ''JSMSG_NESTING_GENERATOR'') \<and> w' = w
       | Closed \<Rightarrow> gst w' g = Closed
       | Suspended f \<Rightarrow> (\<forall>x. r = Ret x \<longrightarrow> gst w' g \<noteq> Running) \<and> (\<forall>e. r = Throw e \<longrightarrow> gst w' g = Closed))"
proof -
  have const: "reflp (\<lambda>w w'. gst w' = gst w)" "transp (\<lambda>w w'. gst w' = gst w)"
    by (simp_all add: reflp_def transp_def)
  note basic = evolves_basic [OF const(1)]
  note run = GeneratorMethod_run [OF _ assms(3,4)]
  from assms(1) consider "m = GeneratorNext" | "m = GeneratorThrow" | "m = GeneratorReturn" by auto
  then show ?thesis
  proof cases
    case 1
    show ?thesis by (rule run [OF assms(2) [unfolded 1 GeneratorNext_def] literal_exact basic(1)])
  next
    case 2
    show ?thesis by (rule run [OF assms(2) [unfolded 2 GeneratorThrow_def] basic(2,1)])
  next
    case 3
    show ?thesis
      by (rule run [OF assms(2) [unfolded 3 GeneratorReturn_def] literal_exact evolves_bnd [OF const(2) literal_exact basic(1)]])
  qed
qed

end

text \<open>
  C35: what a generator object goes through. Whatever the callbacks and the source do in between, also when they
  call the methods of the same generator: a running generator rejects every method with a TypeError and stays as it
  is, a closed one stays closed, and one that was suspended is not left running when a method returns and is closed
  when it throws; no other generator that was running or closed changes.
\<close>

theorem generator_lifecycle:
  assumes "gen_store H gst" "m \<in> {GeneratorNext, GeneratorThrow, GeneratorReturn}"
    and "m H fuel g v w = (r, w')" "IsObject g" "has_class H w ''Generator'' g"
  shows "gens_kept gst w w'
    \<and> (case gst w g of
         Running \<Rightarrow> r = Throw (TypeErr ''JSMSG_NESTING_GENERATOR'') \<and> w' = w
       | Closed \<Rightarrow> gst w' g = Closed
       | Suspended f \<Rightarrow> (\<forall>x. r = Ret x \<longrightarrow> gst w' g \<noteq> Running) \<and> (\<forall>e. r = Throw e \<longrightarrow> gst w' g = Closed))"
  by (rule gen_store.generator_methods [OF assms])

end
