(* ===== verification/GenEngine.thy ===== *)
theory GenEngine
  imports IteratorProps
begin

text \<open>
  The engine of \<open>JSEngine\<close> with generator objects: a function is code of that engine or a script
  of calls of generator methods, so that callbacks can resume generators, also the one that is
  running them. It provides the interface \<open>gen_store\<close>; the examples of the properties of the
  iterator helpers run on it.
\<close>

section \<open>Lifting an engine\<close>

type_synonym world = "eng \<times> (val \<Rightarrow> gen) \<times> (val \<Rightarrow> iter_rec)"

abbreviation gens :: "world \<Rightarrow> val \<Rightarrow> gen" where
  "gens w \<equiv> fst (snd w)"

definition lift_prog :: "(eng, 'a) jprog \<Rightarrow> (world, 'a) jprog" where
  "lift_prog m = (\<lambda>(w, g). case m w of (r, w') \<Rightarrow> (r, (w', g)))"

lemma lift_prog_run [simp]: "m (fst w) = (r, u) \<Longrightarrow> lift_prog m w = (r, (u, snd w))"
  by (cases w) (simp add: lift_prog_def)

lemma lift_prog_gens: "evolves (\<lambda>w w'. gens w' = gens w) (lift_prog m)"
  by (auto simp: evolves_def lift_prog_def split: prod.splits)

section \<open>Functions\<close>

datatype gen_method = MNext | MThrow | MReturn

text \<open>A script calls methods on generators with values and returns what the last one does.\<close>

datatype fn_code =
    EngCode "val \<Rightarrow> val list \<Rightarrow> (eng, exn, val) prog"
  | Script "(gen_method \<times> val \<times> val) list"

fun run_method :: "world ghost \<Rightarrow> gen_method \<Rightarrow> val \<Rightarrow> val \<Rightarrow> (world, val) jprog" where
  "run_method G MNext g v = GeneratorNext G 100 g v"
| "run_method G MThrow g v = GeneratorThrow G 100 g v"
| "run_method G MReturn g v = GeneratorReturn G 100 g v"

fun run_script :: "world ghost \<Rightarrow> (gen_method \<times> val \<times> val) list \<Rightarrow> val \<Rightarrow> (world, val) jprog" where
  "run_script G [] v = ret v"
| "run_script G ((m, g, x) # acts) v = bnd (run_method G m g x) (run_script G acts)"

definition run_code :: "world ghost \<Rightarrow> fn_code \<Rightarrow> val \<Rightarrow> val list \<Rightarrow> (world, val) jprog" where
  "run_code G c T args = (case c of EngCode p \<Rightarrow> lift_prog (p T args) | Script acts \<Rightarrow> run_script G acts Undef)"

fun fn_of :: "(nat \<Rightarrow> fn_code option) \<Rightarrow> val \<Rightarrow> fn_code option" where
  "fn_of code (Obj a) = code a"
| "fn_of code _ = None"

section \<open>The engine\<close>

abbreviation plain_engine :: "eng host" where
  "plain_engine \<equiv> engine (\<lambda>_. None)"

text \<open>Everything but the calls, which are an argument.\<close>

definition gen_host :: "(nat \<Rightarrow> fn_code option) \<Rightarrow> (val \<Rightarrow> val \<Rightarrow> val list \<Rightarrow> (world, exn, val) prog) \<Rightarrow> world ghost" where
  "gen_host code call = \<lparr>get_prop = (\<lambda>v k. lift_prog (eng_get v k)), set_prop = (\<lambda>v k x. lift_prog (eng_put v k x)),
     has_prop = (\<lambda>v k. lift_prog (eng_has v k)), del_prop = (\<lambda>v k. lift_prog (eng_del v k)),
     define_data = (\<lambda>v k x. lift_prog (eng_put v k x)), call_fn = call,
     construct_fn = (\<lambda>f args. lift_prog (eng_construct f args)),
     callable = (\<lambda>w v. fn_of code v \<noteq> None), constructible = (\<lambda>w v. v = Obj array_ctor),
     has_class = (\<lambda>w c v. has_class plain_engine (fst w) c v), is_array = (\<lambda>v. lift_prog (is_array plain_engine v)),
     wrap_prim = (\<lambda>v. lift_prog (eng_new plain_obj)), to_number_of = (\<lambda>v. ret NaN), to_string_of = (\<lambda>v. ret (js ''0'')),
     new_array = (\<lambda>n. lift_prog (eng_new_array n)), new_object = lift_prog (eng_new plain_obj),
     get_slot = (\<lambda>v i. lift_prog (eng_get_slot v i)), set_slot = (\<lambda>v i x. lift_prog (eng_set_slot v i x)),
     builtin = builtin plain_engine, intrinsic = (\<lambda>name args. lift_prog (eng_intrinsic name args)),
     get_gen = (\<lambda>g. gets (\<lambda>w. gens w g)),
     set_gen = (\<lambda>g st. modify (\<lambda>(w, gs, it). (w, gs(g := st), it))),
     new_gen = (\<lambda>st. bnd (lift_prog (eng_new (plain_obj\<lparr>class_name := ''Generator''\<rparr>))) (\<lambda>g.
        sq (modify (\<lambda>(w, gs, it). (w, gs(g := st), it))) (ret g))),
     get_iterated = (\<lambda>v. gets (\<lambda>w. snd (snd w) v)),
     set_iterated = (\<lambda>v r. modify (\<lambda>(w, gs, it). (w, gs, it(v := r))))\<rparr>"

text \<open>Scripts nest at most \<open>n\<close> deep.\<close>

fun gen_engine :: "(nat \<Rightarrow> fn_code option) \<Rightarrow> nat \<Rightarrow> world ghost" where
  "gen_engine code 0 = gen_host code (\<lambda>f T args. throw (InternalErr ''JSMSG_OVER_RECURSED''))"
| "gen_engine code (Suc n) = gen_host code (\<lambda>f T args. case fn_of code f of
     Some c \<Rightarrow> run_code (gen_engine code n) c T args
   | None \<Rightarrow> throw (TypeErr ''JSMSG_NOT_FUNCTION''))"

section \<open>Its generators\<close>

lemma gen_host_store:
  assumes "\<And>f T args. evolves (gens_kept gens) (call f T args)"
  shows "gen_store (gen_host code call) gens"
proof
  let ?H = "gen_host code call"
  have tr: "transp (\<lambda>w w' :: world. gens w' = gens w)" by (simp add: transp_def)
  have rf: "reflp (\<lambda>w w' :: world. gens w' = gens w)" by (simp add: reflp_def)
  have defs: "evolves (\<lambda>w w'. gens w' = gens w) (define_all (base ?H) ob kvs)" for ob kvs
    by (induction kvs) (auto simp: gen_host_def host.truncate_def intro!: evolves_sq [OF tr] evolves_basic [OF rf] lift_prog_gens)
  note intros = evolves_bnd [OF tr] evolves_sq [OF tr] evolves_basic [OF rf] lift_prog_gens defs
  show "evolves (\<lambda>w w'. gens w' = gens w) (ObjectLiteral (base ?H) kvs)" for kvs
    using defs by (auto simp: ObjectLiteral_def gen_host_def host.truncate_def intro!: intros)
  show "evolves (\<lambda>w w'. gens w' = gens w) (ArrayLiteral (base ?H) vs)" for vs
    using defs by (auto simp: ArrayLiteral_def gen_host_def host.truncate_def intro!: intros)
  show "evolves (gens_kept gens) (get_prop ?H v k)" for v k
    using evolves_mono [OF lift_prog_gens [of "eng_get v k"], of "gens_kept gens"] by (simp add: gen_host_def gens_kept_def)
qed (auto simp: gen_host_def gets_def modify_def assms split: prod.split)

lemma gen_host_intrinsic: "evolves (gens_kept gens) (intrinsic (gen_host code call) name args)"
  using evolves_mono [OF lift_prog_gens [of "eng_intrinsic name args"], of "gens_kept gens"]
  by (simp add: gen_host_def gens_kept_def)

lemma run_method_keeps:
  assumes "gen_store G gens" "\<And>name args. evolves (gens_kept gens) (intrinsic G name args)"
  shows "evolves (gens_kept gens) (run_method G m g v)"
proof -
  obtain f where f: "run_method G m g v = f G 100 g v" "f \<in> {GeneratorNext, GeneratorThrow, GeneratorReturn}"
    by (cases m) auto
  have "gens_kept gens w w'" if run: "f G 100 g v w = (r, w')" for w r w'
  proof (cases "IsObject g \<and> has_class G w ''Generator'' g")
    case True
    with gen_store.generator_methods [OF assms(1) f(2) run] show ?thesis by simp
  next
    case False
    then have no: "HasClass (base G) ''Generator'' g w = (Ret False, w)"
      by (auto simp: HasClass_def gets_def host.truncate_def)
    have "\<exists>name. f G 100 g v w = intrinsic G ''CallGeneratorMethodIfWrapped'' [g, v, vstr name] w"
      using f(2) by (auto simp: GeneratorNext_def GeneratorThrow_def GeneratorReturn_def GeneratorMethod_def bnd_run_bool no)
    with run assms(2) show ?thesis by (metis evolvesD)
  qed
  then show ?thesis by (simp add: evolves_def f(1))
qed

lemma run_code_keeps:
  assumes "gen_store G gens" "\<And>name args. evolves (gens_kept gens) (intrinsic G name args)"
  shows "evolves (gens_kept gens) (run_code G c T args)"
proof -
  note kept = gens_kept_preorder [of gens]
  have "evolves (gens_kept gens) (run_script G acts v)" for acts v
    by (induction acts arbitrary: v)
      (auto split: prod.split intro!: evolves_bnd [OF kept(2)] evolves_basic [OF kept(1)] run_method_keeps assms)
  moreover have "evolves (gens_kept gens) (lift_prog p)" for p :: "(eng, val) jprog"
    by (rule evolves_mono [OF lift_prog_gens]) (simp add: gens_kept_def)
  ultimately show ?thesis by (simp add: run_code_def split: fn_code.split)
qed

lemma gen_engine_store:
  "gen_store (gen_engine code n) gens \<and> (\<forall>name args. evolves (gens_kept gens) (intrinsic (gen_engine code n) name args))"
proof (induction n)
  case 0
  then show ?case
    by (simp add: gen_host_store gen_host_intrinsic evolves_basic [OF gens_kept_preorder(1)])
next
  case (Suc n)
  then show ?case
    by (auto intro!: gen_host_store gen_host_intrinsic run_code_keeps evolves_basic [OF gens_kept_preorder(1)] split: option.split)
qed

interpretation generators: gen_store "gen_engine code n" gens for code n
  using gen_engine_store by blast

end
