(* ===== verification/IteratorExamples.thy ===== *)
theory IteratorExamples
  imports GenEngine
begin

text \<open>
  A source with three values in the engine of \<open>GenEngine\<close>, and a generator whose callback calls it
  while it runs: the properties of the iterator helpers on them.
\<close>

section \<open>A source\<close>

text \<open>
  Object 2 is the iterator, its slot 0 counts; objects 3 to 5 are results with the values 5, 0, 7, and 6 is the
  result at the end; 7 is the generator object of the last example.
\<close>

definition ex_result :: "int \<Rightarrow> bool \<Rightarrow> jobj" where
  "ex_result v d = plain_obj\<lparr>props := [pstr ''value'' \<mapsto> vint v, pstr ''done'' \<mapsto> Bool d]\<rparr>"

definition ex_iter :: "val \<Rightarrow> int \<Rightarrow> jobj" where
  "ex_iter r k = plain_obj\<lparr>props := [pstr ''return'' \<mapsto> r], slots := (\<lambda>_. Undef)(0 := vint k)\<rparr>"

definition ex_source :: "val \<Rightarrow> int \<Rightarrow> eng" where
  "ex_source r k = \<lparr>heap = [plain_obj\<lparr>proto := None\<rparr>, plain_obj, ex_iter r k, ex_result 5 False, ex_result 0 False, ex_result 7 False,
     ex_result 0 True, plain_obj\<lparr>class_name := ''Generator''\<rparr>]\<rparr>"

definition ex_world :: "val \<Rightarrow> int \<Rightarrow> gen \<Rightarrow> world" where
  "ex_world r k st = (ex_source r k, (\<lambda>_. Closed)(Obj 7 := st), (\<lambda>_. \<lparr>rec_iterator = Undef, rec_nextMethod = Undef\<rparr>))"

text \<open>Functions: \<open>next\<close>, a test for a positive Number, two that throw, one that resumes the generator.\<close>

definition ex_next :: "val \<Rightarrow> val list \<Rightarrow> (eng, val) jprog" where
  "ex_next T args = bnd (eng_get_slot T 0) (\<lambda>k.
     if k = vint 0 then sq (eng_set_slot T 0 (vint 1)) (ret (Obj 3))
     else if k = vint 1 then sq (eng_set_slot T 0 (vint 2)) (ret (Obj 4))
     else if k = vint 2 then sq (eng_set_slot T 0 (vint 3)) (ret (Obj 5))
     else ret (Obj 6))"

definition ex_positive :: "val \<Rightarrow> val" where
  "ex_positive v = Bool (case v of Num (Fin r) \<Rightarrow> 0 < r | _ \<Rightarrow> False)"

definition ex_fns :: "nat \<Rightarrow> fn_code option" where
  "ex_fns = [10 \<mapsto> EngCode ex_next, 11 \<mapsto> EngCode (\<lambda>T args. ret (ex_positive (arg args 0))),
     12 \<mapsto> EngCode (\<lambda>T args. throw (Thrown (vint 1))), 13 \<mapsto> EngCode (\<lambda>T args. throw (Thrown (vint 2))),
     14 \<mapsto> Script [(MNext, Obj 7, Undef)]]"

definition ex_gen :: "world ghost" where
  "ex_gen = gen_engine ex_fns 3"

abbreviation ex_host :: "world host" where
  "ex_host \<equiv> base ex_gen"

definition ex_rec :: iter_rec where
  "ex_rec = \<lparr>rec_iterator = Obj 2, rec_nextMethod = Obj 10\<rparr>"

lemma ex_gen_eq: "ex_gen = gen_host ex_fns (\<lambda>f T args. case fn_of ex_fns f of
     Some c \<Rightarrow> run_code (gen_engine ex_fns (Suc (Suc 0))) c T args
   | None \<Rightarrow> throw (TypeErr ''JSMSG_NOT_FUNCTION''))"
  by (simp add: ex_gen_def numeral_3_eq_3)

lemma ex_gen_ops [simp]:
  "get_prop ex_host v k = lift_prog (eng_get v k)"
  "call_fn ex_host (Obj f) T args = (case ex_fns f of
     Some c \<Rightarrow> run_code (gen_engine ex_fns (Suc (Suc 0))) c T args
   | None \<Rightarrow> throw (TypeErr ''JSMSG_NOT_FUNCTION''))"
  "callable ex_host w v = (fn_of ex_fns v \<noteq> None)"
  by (simp_all add: ex_gen_eq gen_host_def host.truncate_def)

declare eng_Get [simp del]

lemma ex_get: "Get ex_host (Obj a) k (ex_world r i st) =
   (Ret (case lookup 8 (heap (ex_source r i)) a k of Some v \<Rightarrow> v | None \<Rightarrow> Undef), ex_world r i st)"
proof -
  have "length (heap (ex_source r i)) = 8" by (simp add: ex_source_def)
  then show ?thesis by (simp add: Get_def is_nullish_def eng_get.simps lift_prog_def ex_world_def run_simps)
qed

lemma ex_call: "ex_fns f = Some c \<Longrightarrow> Call ex_host (Obj f) T args w = run_code (gen_engine ex_fns (Suc (Suc 0))) c T args w"
  by (simp add: Call_def IsCallable_def run_simps)

lemma ex_next_run:
  "ex_next (Obj 2) args (ex_source r 0) = (Ret (Obj 3), ex_source r 1)"
  "ex_next (Obj 2) args (ex_source r 1) = (Ret (Obj 4), ex_source r 2)"
  "ex_next (Obj 2) args (ex_source r 2) = (Ret (Obj 5), ex_source r 3)"
  "ex_next (Obj 2) args (ex_source r 3) = (Ret (Obj 6), ex_source r 3)"
  by (simp_all add: ex_next_def run_simps ex_source_def ex_iter_def upd_obj_def)

lemma ex_results:
  "Get ex_host (Obj 3) (pstr ''done'') (ex_world r k st) = (Ret (Bool False), ex_world r k st)"
  "Get ex_host (Obj 4) (pstr ''done'') (ex_world r k st) = (Ret (Bool False), ex_world r k st)"
  "Get ex_host (Obj 5) (pstr ''done'') (ex_world r k st) = (Ret (Bool False), ex_world r k st)"
  "Get ex_host (Obj 6) (pstr ''done'') (ex_world r k st) = (Ret (Bool True), ex_world r k st)"
  "Get ex_host (Obj 3) (pstr ''value'') (ex_world r k st) = (Ret (vint 5), ex_world r k st)"
  "Get ex_host (Obj 4) (pstr ''value'') (ex_world r k st) = (Ret (vint 0), ex_world r k st)"
  "Get ex_host (Obj 5) (pstr ''value'') (ex_world r k st) = (Ret (vint 7), ex_world r k st)"
  "Get ex_host (Obj 2) (pstr ''return'') (ex_world r k st) = (Ret r, ex_world r k st)"
  unfolding ex_get
  by (simp_all add: ex_source_def ex_result_def ex_iter_def own_prop_def plain_obj_def js_def eval_nat_numeral)

lemma ex_step:
  "IteratorStep ex_host ex_rec args (ex_world r 0 st) = (Ret (Some (Obj 3)), ex_world r 1 st)"
  "IteratorStep ex_host ex_rec args (ex_world r 1 st) = (Ret (Some (Obj 4)), ex_world r 2 st)"
  "IteratorStep ex_host ex_rec args (ex_world r 2 st) = (Ret (Some (Obj 5)), ex_world r 3 st)"
  "IteratorStep ex_host ex_rec args (ex_world r 3 st) = (Ret None, ex_world r 3 st)"
proof -
  have call: "Call ex_host (Obj 10) (Obj 2) args (ex_world r k st) = (Ret v, ex_world r k' st)"
    if "ex_next (Obj 2) args (ex_source r k) = (Ret v, ex_source r k')" for v k k'
    using that by (simp add: ex_call ex_fns_def run_code_def lift_prog_def ex_world_def)
  show "IteratorStep ex_host ex_rec args (ex_world r 0 st) = (Ret (Some (Obj 3)), ex_world r 1 st)"
    "IteratorStep ex_host ex_rec args (ex_world r 1 st) = (Ret (Some (Obj 4)), ex_world r 2 st)"
    "IteratorStep ex_host ex_rec args (ex_world r 2 st) = (Ret (Some (Obj 5)), ex_world r 3 st)"
    "IteratorStep ex_host ex_rec args (ex_world r 3 st) = (Ret None, ex_world r 3 st)"
    by (simp_all add: IteratorStep_def ex_rec_def run_simps ex_results call [OF ex_next_run(1)] call [OF ex_next_run(2)]
        call [OF ex_next_run(3)] call [OF ex_next_run(4)])
qed

lemma ex_yields: "yields ex_host ex_rec (ex_world r 0 st) [vint 5, vint 0, vint 7] (ex_world r 3 st)"
  by (rule yields.one [OF ex_step(1) ex_results(5) yields.one [OF ex_step(2) ex_results(6)
      yields.one [OF ex_step(3) ex_results(7) yields.none]]])

lemma ex_at_end: "at_end ex_host ex_rec (ex_world r 3 st) (ex_world r 3 st)"
  by (simp add: at_end_def ex_step)

lemma ex_pure: "pure_fn ex_host (Obj 11) ex_positive"
  by (simp add: pure_fn_def ex_call ex_fns_def run_code_def lift_prog_def run_simps split: prod.split)

section \<open>The helpers on it\<close>

theorem lazy_helpers_lists_witness:
  "drain ex_host 4 4 (AtStart (MapGen ex_rec (Obj 11))) (ex_world Undef 0 Closed)
      = (Ret [Bool True, Bool False, Bool True], ex_world Undef 3 Closed)
    \<and> drain ex_host 4 4 (AtStart (FilterGen ex_rec (Obj 11))) (ex_world Undef 0 Closed)
      = (Ret [vint 5, vint 7], ex_world Undef 3 Closed)
    \<and> drain ex_host 4 4 (AtStart (DropGen ex_rec (IFin (int 2)))) (ex_world Undef 0 Closed)
      = (Ret [vint 7], ex_world Undef 3 Closed)"
  using lazy_helpers_lists [OF ex_pure ex_yields ex_at_end, of 4 4 Undef Closed 2] by (simp add: ex_positive_def)

theorem take_exact_witness:
  "drain ex_host 4 4 (AtStart (TakeGen ex_rec (IFin (int 3)))) (ex_world Undef 0 Closed)
      = (Ret [vint 5, vint 0, vint 7], ex_world Undef 3 Closed)
    \<and> drain ex_host 4 4 (AtStart (TakeGen ex_rec (IFin (int 9)))) (ex_world Undef 0 Closed)
      = (Ret [vint 5, vint 0, vint 7], ex_world Undef 3 Closed)"
proof -
  have "IteratorClose ex_host ex_rec (ex_world Undef 3 Closed) = (Ret (), ex_world Undef 3 Closed)"
    by (simp add: IteratorClose_def ex_rec_def ex_results run_simps is_nullish_def)
  from take_exact [OF ex_yields _ this, of 4 4 "ex_world Undef 3 Closed" 9] ex_at_end show ?thesis by simp
qed

text \<open>The mapper throws 1, \<open>return\<close> throws 2.\<close>

theorem IteratorMap_close_error_wins_witness:
  "gen_resume ex_host 1 (AtYield (MapGen ex_rec (Obj 12))) (RNext Undef) (ex_world (Obj 13) 0 Closed)
    = (Throw (Thrown (vint 2)), ex_world (Obj 13) 1 Closed)"
proof -
  have throws: "Call ex_host (Obj 12) Undef [vint 5] w = (Throw (Thrown (vint 1)), w)"
    "Call ex_host (Obj 13) T [] w = (Throw (Thrown (vint 2)), w)" for w T
    by (simp_all add: ex_call ex_fns_def run_code_def lift_prog_def run_simps split: prod.split)
  have "IteratorClose ex_host ex_rec (ex_world (Obj 13) 1 Closed) = (Throw (Thrown (vint 2)), ex_world (Obj 13) 1 Closed)"
    by (simp add: IteratorClose_def ex_rec_def ex_results run_simps throws is_nullish_def)
  from IteratorMap_close_error_wins [OF ex_step(1) ex_results(5) throws(1) this] show ?thesis .
qed

text \<open>The callback of the generator resumes it: the inner call throws, and the generator ends closed.\<close>

definition ex_frame :: frame where
  "ex_frame = AtStart (MapGen ex_rec (Obj 14))"

lemma ex_nested: "fst (GeneratorNext ex_gen 1 (Obj 7) Undef (ex_world Undef 0 (Suspended ex_frame))) = Throw (TypeErr ''JSMSG_NESTING_GENERATOR'')"
  by code_simp

theorem generator_lifecycle_witness:
  "\<exists>w'. GeneratorNext ex_gen 1 (Obj 7) Undef (ex_world Undef 0 (Suspended ex_frame))
      = (Throw (TypeErr ''JSMSG_NESTING_GENERATOR''), w') \<and> gens w' (Obj 7) = Closed"
proof -
  obtain w' where w': "GeneratorNext ex_gen 1 (Obj 7) Undef (ex_world Undef 0 (Suspended ex_frame))
      = (Throw (TypeErr ''JSMSG_NESTING_GENERATOR''), w')"
    using ex_nested by (cases "GeneratorNext ex_gen 1 (Obj 7) Undef (ex_world Undef 0 (Suspended ex_frame))") simp
  have "has_class ex_gen (ex_world Undef 0 (Suspended ex_frame)) ''Generator'' (Obj 7)"
    by (simp add: ex_gen_eq gen_host_def ex_world_def ex_source_def)
  from generator_lifecycle [where m = GeneratorNext, OF generators.gen_store_axioms [of ex_fns 3, folded ex_gen_def] _ w' _ this] w'
  show ?thesis by (simp add: ex_world_def)
qed

end
