(* ===== verification/RegExpBuiltins.thy ===== *)
theory RegExpBuiltins
  imports StringBuiltins
begin

unbundle bit_operations_syntax

text \<open>
  RegExp.js without the replacement: the accessors, \<open>exec\<close> and \<open>test\<close>, \<open>@@match\<close>, \<open>@@search\<close>,
  \<open>@@split\<close>, \<open>@@matchAll\<close> and its iterator. Matching itself is native: \<open>RegExpMatcher\<close> gives a match
  object or \<open>null\<close>, \<open>RegExpSearcher\<close> a position and an end packed into an integer, \<open>RegExpTester\<close> an end.
\<close>

section \<open>Regular expression objects\<close>

definition REGEXP_SOURCE_SLOT :: nat where "REGEXP_SOURCE_SLOT = 1"
definition REGEXP_FLAGS_SLOT :: nat where "REGEXP_FLAGS_SLOT = 2"
definition REGEXP_GLOBAL_FLAG :: int where "REGEXP_GLOBAL_FLAG = 2"
definition REGEXP_STICKY_FLAG :: int where "REGEXP_STICKY_FLAG = 8"
definition REGEXP_UNICODE_FLAG :: int where "REGEXP_UNICODE_FLAG = 16"

definition has_flag :: "int \<Rightarrow> int \<Rightarrow> bool" where
  "has_flag flags f = (flags AND f \<noteq> 0)"

definition IsRegExpObject :: "'w host \<Rightarrow> val \<Rightarrow> ('w, bool) jprog" where
  "IsRegExpObject H v = HasClass H ''RegExp'' v"

definition RegExpFlags :: "'w host \<Rightarrow> val \<Rightarrow> ('w, int) jprog" where
  "RegExpFlags H rx = IntOf (get_slot H rx REGEXP_FLAGS_SLOT)"

definition RegExpSource :: "'w host \<Rightarrow> val \<Rightarrow> ('w, jstr) jprog" where
  "RegExpSource H rx = StrOf (get_slot H rx REGEXP_SOURCE_SLOT)"

text \<open>The native matchers; \<open>result.index\<close> and \<open>result[0]\<close> of a native match object.\<close>

definition RegExpMatcher :: "'w host \<Rightarrow> val \<Rightarrow> jstr \<Rightarrow> int \<Rightarrow> ('w, val) jprog" where
  "RegExpMatcher H rx S lastIndex = intrinsic H ''RegExpMatcher'' [rx, Str S, vint lastIndex]"

definition RegExpSearcher :: "'w host \<Rightarrow> val \<Rightarrow> jstr \<Rightarrow> int \<Rightarrow> ('w, int) jprog" where
  "RegExpSearcher H rx S lastIndex = NativeInt H ''RegExpSearcher'' [rx, Str S, vint lastIndex]"

definition match_index :: "'w host \<Rightarrow> val \<Rightarrow> ('w, int) jprog" where
  "match_index H result = IntOf (Get H result (pstr ''index''))"

definition match_str :: "'w host \<Rightarrow> val \<Rightarrow> ('w, jstr) jprog" where
  "match_str H result = StrOf (Get H result (PIdx 0))"

definition get_lastIndex :: "'w host \<Rightarrow> val \<Rightarrow> ('w, int) jprog" where
  "get_lastIndex H rx = bnd (Get H rx (pstr ''lastIndex'')) (ToLength H)"

definition set_lastIndex :: "'w host \<Rightarrow> val \<Rightarrow> int \<Rightarrow> ('w, unit) jprog" where
  "set_lastIndex H rx i = Put H rx (pstr ''lastIndex'') (vint i)"

definition RequireObject :: "val \<Rightarrow> ('w, unit) jprog" where
  "RequireObject v = (if \<not> IsObject v then throw (TypeErr ''JSMSG_OBJECT_REQUIRED'') else ret ())"

section \<open>Accessors\<close>

definition add_flag :: "'w host \<Rightarrow> val \<Rightarrow> string \<Rightarrow> string \<Rightarrow> jstr \<Rightarrow> ('w, jstr) jprog" where
  "add_flag H R name c result =
     bnd (Get H R (pstr name)) (\<lambda>v. ret (if truthy v then result @ js c else result))"

definition RegExpFlagsGetter :: "'w host \<Rightarrow> val \<Rightarrow> ('w, jstr) jprog" where
  "RegExpFlagsGetter H R =
     sq (RequireObject R)
    (bnd (add_flag H R ''global'' ''g'' []) (\<lambda>result.
     bnd (add_flag H R ''ignoreCase'' ''i'' result) (\<lambda>result.
     bnd (add_flag H R ''multiline'' ''m'' result) (\<lambda>result.
     bnd (add_flag H R ''dotAll'' ''s'' result) (\<lambda>result.
     bnd (add_flag H R ''unicode'' ''u'' result) (\<lambda>result.
     add_flag H R ''sticky'' ''y'' result))))))"

definition RegExpToString :: "'w host \<Rightarrow> val \<Rightarrow> ('w, jstr) jprog" where
  "RegExpToString H R =
     sq (RequireObject R)
    (bnd (bnd (Get H R (pstr ''source'')) (ToString H)) (\<lambda>pattern.
     bnd (bnd (Get H R (pstr ''flags'')) (ToString H)) (\<lambda>flags.
     bnd (StrCat (js ''/'') pattern) (\<lambda>s. bnd (StrCat s (js ''/'')) (\<lambda>s. StrCat s flags)))))"

definition RegExpSpecies :: "val \<Rightarrow> ('w, val) jprog" where
  "RegExpSpecies this = ret this"

text \<open>The index after the code point at \<open>index\<close>.\<close>

definition advance_index :: "jstr \<Rightarrow> int \<Rightarrow> int" where
  "advance_index S index =
     (if int (length S) \<le> index + 1 then index + 1
      else
        let first = std_String_charCodeAt S index in
        if first < 55296 \<or> 56319 < first then index + 1
        else
          let second = std_String_charCodeAt S (index + 1) in
          if second < 56320 \<or> 57343 < second then index + 1 else index + 2)"

definition AdvanceStringIndex :: "jstr \<Rightarrow> int \<Rightarrow> ('w, int) jprog" where
  "AdvanceStringIndex S index =
     sq (asrt (0 \<le> index \<and> index \<le> MAX_NUMERIC_INDEX) ''Expected integer as 2nd argument'') (ret (advance_index S index))"

definition next_index :: "bool \<Rightarrow> jstr \<Rightarrow> int \<Rightarrow> ('w, int) jprog" where
  "next_index fullUnicode S lastIndex = (if fullUnicode then AdvanceStringIndex S lastIndex else ret (lastIndex + 1))"

section \<open>exec and test\<close>

text \<open>A regular expression of another compartment: the engine calls \<open>CallRegExpBuiltinExec\<close> on what is wrapped.\<close>

definition UnwrapAndCallRegExpBuiltinExec :: "'w host \<Rightarrow> val \<Rightarrow> jstr \<Rightarrow> bool \<Rightarrow> ('w, val) jprog" where
  "UnwrapAndCallRegExpBuiltinExec H R S forTest =
     intrinsic H ''CallRegExpMethodIfWrapped'' [R, Str S, Bool forTest, vstr ''CallRegExpBuiltinExec'']"

definition RegExpBuiltinExec :: "'w host \<Rightarrow> val \<Rightarrow> jstr \<Rightarrow> bool \<Rightarrow> ('w, val) jprog" where
  "RegExpBuiltinExec H R S forTest =
     bnd (IsRegExpObject H R) (\<lambda>is.
     if \<not> is then UnwrapAndCallRegExpBuiltinExec H R S forTest
     else
       bnd (get_lastIndex H R) (\<lambda>lastIndex.
       bnd (RegExpFlags H R) (\<lambda>flags.
       let globalOrSticky = has_flag flags (REGEXP_GLOBAL_FLAG OR REGEXP_STICKY_FLAG);
           update = (\<lambda>i. if globalOrSticky then set_lastIndex H R i else ret ()) in
       if globalOrSticky \<and> int (length S) < lastIndex then
         sq (set_lastIndex H R 0) (ret (if forTest then Bool False else Null))
       else
         let lastIndex = (if globalOrSticky then lastIndex else 0) in
         if forTest then
           bnd (NativeInt H ''RegExpTester'' [R, Str S, vint lastIndex]) (\<lambda>endIndex.
           if endIndex = - 1 then sq (update 0) (ret (Bool False))
           else sq (update endIndex) (ret (Bool True)))
         else
           bnd (RegExpMatcher H R S lastIndex) (\<lambda>result.
           if result = Null then sq (update 0) (ret result)
           else if globalOrSticky then
             bnd (match_index H result) (\<lambda>i. bnd (match_str H result) (\<lambda>m.
             sq (set_lastIndex H R (i + int (length m))) (ret result)))
           else ret result))))"

definition CallRegExpBuiltinExec :: "'w host \<Rightarrow> val \<Rightarrow> jstr \<Rightarrow> bool \<Rightarrow> ('w, val) jprog" where
  "CallRegExpBuiltinExec H this S forTest = RegExpBuiltinExec H this S forTest"

definition RegExp_prototype_Exec :: "'w host \<Rightarrow> val \<Rightarrow> val \<Rightarrow> ('w, val) jprog" where
  "RegExp_prototype_Exec H R string =
     bnd (IsRegExpObject H R) (\<lambda>is.
     if \<not> is then intrinsic H ''CallRegExpMethodIfWrapped'' [R, string, vstr ''RegExp_prototype_Exec'']
     else bnd (ToString H string) (\<lambda>S. RegExpBuiltinExec H R S False))"

text \<open>\<open>typeof result\<close> is \<open>object\<close> for \<open>null\<close> and for the objects that are not callable.\<close>

definition typeof_object :: "'w host \<Rightarrow> val \<Rightarrow> ('w, bool) jprog" where
  "typeof_object H v = bnd (IsCallable H v) (\<lambda>c. ret (v = Null \<or> IsObject v \<and> \<not> c))"

definition RegExpExec :: "'w host \<Rightarrow> val \<Rightarrow> jstr \<Rightarrow> bool \<Rightarrow> ('w, val) jprog" where
  "RegExpExec H R S forTest =
     bnd (Get H R (pstr ''exec'')) (\<lambda>exec.
     bnd (IsCallable H exec) (\<lambda>c.
     if strict_eq exec (builtin H ''RegExp_prototype_Exec'') \<or> \<not> c then RegExpBuiltinExec H R S forTest
     else
       bnd (Call H exec R [Str S]) (\<lambda>result.
       bnd (typeof_object H result) (\<lambda>ok.
       if \<not> ok then throw (TypeErr ''JSMSG_EXEC_NOT_OBJORNULL'')
       else ret (if forTest then Bool (result \<noteq> Null) else result)))))"

definition RegExpTest :: "'w host \<Rightarrow> val \<Rightarrow> val \<Rightarrow> ('w, val) jprog" where
  "RegExpTest H R string =
     sq (RequireObject R) (bnd (ToString H string) (\<lambda>S. RegExpExec H R S True))"

text \<open>Nothing that the optimised paths skip can be observed.\<close>

definition IsRegExpMethodOptimizable :: "'w host \<Rightarrow> val \<Rightarrow> ('w, bool) jprog" where
  "IsRegExpMethodOptimizable H rx =
     bnd (IsRegExpObject H rx) (\<lambda>is.
     if \<not> is then ret False
     else
       bnd (GetBuiltinPrototype H ''RegExp'') (\<lambda>RegExpProto.
       bnd (intrinsic H ''RegExpPrototypeOptimizable'' [RegExpProto]) (\<lambda>b.
       if \<not> truthy b then ret False
       else
         bnd (intrinsic H ''RegExpInstanceOptimizable'' [rx, RegExpProto]) (\<lambda>b.
         if \<not> truthy b then ret False
         else
           bnd (Get H RegExpProto (pstr ''exec'')) (\<lambda>exec.
           ret (strict_eq exec (builtin H ''RegExp_prototype_Exec'')))))))"

section \<open>@@match\<close>

definition match_slow_round :: "'w host \<Rightarrow> val \<Rightarrow> jstr \<Rightarrow> bool \<Rightarrow> val \<Rightarrow> int \<Rightarrow> ('w, int + val) jprog" where
  "match_slow_round H rx S fullUnicode A n =
     bnd (RegExpExec H rx S False) (\<lambda>result.
     if result = Null then ret (Inr (if n = 0 then Null else A))
     else
       bnd (bnd (Get H result (PIdx 0)) (ToString H)) (\<lambda>matchStr.
       sq (define_data H A (PIdx n) (Str matchStr))
      (sq (if matchStr = [] then
             bnd (get_lastIndex H rx) (\<lambda>lastIndex.
             bnd (next_index fullUnicode S lastIndex) (set_lastIndex H rx))
           else ret ())
          (ret (Inl (n + 1))))))"

definition RegExpMatchSlowPath :: "'w host \<Rightarrow> nat \<Rightarrow> val \<Rightarrow> jstr \<Rightarrow> ('w, val) jprog" where
  "RegExpMatchSlowPath H fuel rx S =
     bnd (Get H rx (pstr ''global'')) (\<lambda>global.
     if \<not> truthy global then RegExpExec H rx S False
     else
       bnd (Get H rx (pstr ''unicode'')) (\<lambda>fullUnicode.
       sq (set_lastIndex H rx 0)
      (bnd (ArrayLiteral H []) (\<lambda>A.
       loop_fuel fuel (match_slow_round H rx S (truthy fullUnicode) A) 0))))"

text \<open>The variables of the loop are \<open>lastIndex\<close> and \<open>n\<close>.\<close>

definition match_opt_round :: "'w host \<Rightarrow> val \<Rightarrow> jstr \<Rightarrow> bool \<Rightarrow> val \<Rightarrow> int \<times> int \<Rightarrow> ('w, (int \<times> int) + val) jprog" where
  "match_opt_round H rx S fullUnicode A = (\<lambda>(lastIndex, n).
     bnd (RegExpMatcher H rx S lastIndex) (\<lambda>result.
     if result = Null then ret (Inr (if n = 0 then Null else A))
     else
       bnd (match_index H result) (\<lambda>i.
       bnd (match_str H result) (\<lambda>matchStr.
       let lastIndex = i + int (length matchStr) in
       sq (define_data H A (PIdx n) (Str matchStr))
          (if matchStr = [] then
             bnd (next_index fullUnicode S lastIndex) (\<lambda>lastIndex.
             ret (if int (length S) < lastIndex then Inr A else Inl (lastIndex, n + 1)))
           else ret (Inl (lastIndex, n + 1)))))))"

definition RegExpGlobalMatchOpt :: "'w host \<Rightarrow> nat \<Rightarrow> val \<Rightarrow> jstr \<Rightarrow> bool \<Rightarrow> ('w, val) jprog" where
  "RegExpGlobalMatchOpt H fuel rx S fullUnicode =
     sq (set_lastIndex H rx 0)
    (bnd (ArrayLiteral H []) (\<lambda>A. loop_fuel fuel (match_opt_round H rx S fullUnicode A) (0, 0)))"

definition RegExpMatch :: "'w host \<Rightarrow> nat \<Rightarrow> val \<Rightarrow> val \<Rightarrow> ('w, val) jprog" where
  "RegExpMatch H fuel rx string =
     sq (RequireObject rx)
    (bnd (ToString H string) (\<lambda>S.
     bnd (IsRegExpMethodOptimizable H rx) (\<lambda>opt.
     if opt then
       bnd (RegExpFlags H rx) (\<lambda>flags.
       if has_flag flags REGEXP_GLOBAL_FLAG
       then RegExpGlobalMatchOpt H fuel rx S (has_flag flags REGEXP_UNICODE_FLAG)
       else RegExpBuiltinExec H rx S False)
     else RegExpMatchSlowPath H fuel rx S)))"

section \<open>@@search\<close>

text \<open>\<open>SameValue\<close> is equality of values; the position is in the low 15 bits of what \<open>RegExpSearcher\<close> gives.\<close>

definition search_position :: "int \<Rightarrow> int" where
  "search_position result = result AND 32767"

definition search_end :: "int \<Rightarrow> int" where
  "search_end result = drop_bit 15 result AND 32767"

definition RegExpSearchSlowPath :: "'w host \<Rightarrow> val \<Rightarrow> jstr \<Rightarrow> val \<Rightarrow> ('w, val) jprog" where
  "RegExpSearchSlowPath H rx S previousLastIndex =
     bnd (RegExpExec H rx S False) (\<lambda>result.
     bnd (Get H rx (pstr ''lastIndex'')) (\<lambda>currentLastIndex.
     sq (if currentLastIndex \<noteq> previousLastIndex then Put H rx (pstr ''lastIndex'') previousLastIndex else ret ())
        (if result = Null then ret (vint (- 1)) else Get H result (pstr ''index''))))"

definition RegExpSearch :: "'w host \<Rightarrow> val \<Rightarrow> val \<Rightarrow> ('w, val) jprog" where
  "RegExpSearch H rx string =
     sq (RequireObject rx)
    (bnd (ToString H string) (\<lambda>S.
     bnd (Get H rx (pstr ''lastIndex'')) (\<lambda>previousLastIndex.
     let lastIndexIsZero = (previousLastIndex = vint 0) in
     sq (if \<not> lastIndexIsZero then set_lastIndex H rx 0 else ret ())
    (bnd (IsRegExpMethodOptimizable H rx) (\<lambda>opt.
     if opt \<and> int (length S) < 32767 then
       bnd (RegExpSearcher H rx S 0) (\<lambda>result.
       sq (if \<not> lastIndexIsZero then Put H rx (pstr ''lastIndex'') previousLastIndex
           else
             bnd (RegExpFlags H rx) (\<lambda>flags.
             if has_flag flags (REGEXP_GLOBAL_FLAG OR REGEXP_STICKY_FLAG)
             then Put H rx (pstr ''lastIndex'') previousLastIndex else ret ()))
          (ret (vint (if result = - 1 then - 1 else search_position result))))
     else RegExpSearchSlowPath H rx S previousLastIndex)))))"

section \<open>@@split\<close>

definition IsRegExpSplitOptimizable :: "'w host \<Rightarrow> val \<Rightarrow> val \<Rightarrow> ('w, bool) jprog" where
  "IsRegExpSplitOptimizable H rx C =
     bnd (IsRegExpObject H rx) (\<lambda>is.
     if \<not> is then ret False
     else
       bnd (GetBuiltinConstructor H ''RegExp'') (\<lambda>RegExpCtor.
       if C \<noteq> RegExpCtor then ret False
       else
         bnd (Get H RegExpCtor (pstr ''prototype'')) (\<lambda>RegExpProto.
         bnd (intrinsic H ''RegExpPrototypeOptimizable'' [RegExpProto]) (\<lambda>b.
         if \<not> truthy b then ret False
         else
           bnd (intrinsic H ''RegExpInstanceOptimizable'' [rx, RegExpProto]) (\<lambda>b.
           if \<not> truthy b then ret False
           else
             bnd (Get H RegExpProto (pstr ''exec'')) (\<lambda>exec.
             ret (strict_eq exec (builtin H ''RegExp_prototype_Exec''))))))))"

definition str_includes :: "jstr \<Rightarrow> string \<Rightarrow> bool" where
  "str_includes s c = (std_String_indexOf s (js c) 0 \<noteq> - 1)"

definition regexp_construct_raw_flags :: "'w host \<Rightarrow> jstr \<Rightarrow> int \<Rightarrow> ('w, val) jprog" where
  "regexp_construct_raw_flags H source flags = intrinsic H ''regexp_construct_raw_flags'' [Str source, vint flags]"

text \<open>Steps 5 to 10: the regular expression to split with, and whether it matches by code points.\<close>

definition split_matcher :: "'w host \<Rightarrow> bool \<Rightarrow> val \<Rightarrow> val \<Rightarrow> ('w, val \<times> bool) jprog" where
  "split_matcher H optimizable rx C =
     (if optimizable then
        bnd (RegExpFlags H rx) (\<lambda>flags.
        bnd (if has_flag flags REGEXP_STICKY_FLAG then
               bnd (RegExpSource H rx) (\<lambda>source. regexp_construct_raw_flags H source (flags AND NOT REGEXP_STICKY_FLAG))
             else ret rx) (\<lambda>splitter.
        ret (splitter, has_flag flags REGEXP_UNICODE_FLAG)))
      else
        bnd (bnd (Get H rx (pstr ''flags'')) (ToString H)) (\<lambda>flags.
        bnd (if str_includes flags ''y'' then ret flags else StrCat flags (js ''y'')) (\<lambda>newFlags.
        bnd (New H C [rx, Str newFlags]) (\<lambda>splitter.
        ret (splitter, str_includes flags ''u'')))))"

text \<open>
  The next match from \<open>q\<close> on: nothing when the loop ends, or the match object, the index to go on
  from and the end of the match; a match object \<open>null\<close> means that there is none at \<open>q\<close>.
\<close>

definition split_match :: "'w host \<Rightarrow> bool \<Rightarrow> val \<Rightarrow> jstr \<Rightarrow> int \<Rightarrow> ('w, (val \<times> int \<times> int) option) jprog" where
  "split_match H optimizable splitter S q =
     (if optimizable then
        bnd (RegExpMatcher H splitter S q) (\<lambda>z.
        if z = Null then ret None
        else
          bnd (match_index H z) (\<lambda>q.
          if int (length S) \<le> q then ret None
          else bnd (match_str H z) (\<lambda>m. ret (Some (z, q, q + int (length m))))))
      else
        sq (set_lastIndex H splitter q)
       (bnd (RegExpExec H splitter S False) (\<lambda>z.
        if z = Null then ret (Some (z, q, q))
        else bnd (get_lastIndex H splitter) (\<lambda>e. ret (Some (z, q, e))))))"

text \<open>The captures of a match, up to the limit; \<open>Inr\<close> when it is reached.\<close>

definition split_captures :: "'w host \<Rightarrow> val \<Rightarrow> val \<Rightarrow> int \<Rightarrow> int \<Rightarrow> ('w, int + unit) jprog" where
  "split_captures H A z bound lengthA =
     bnd (LengthOf H z) (\<lambda>n.
     for_up 1 (max (n - 1) 0 + 1) (\<lambda>i lengthA.
       bnd (Get H z (PIdx i)) (\<lambda>v.
       sq (define_data H A (PIdx lengthA) v)
          (ret (if lengthA + 1 = bound then Inr () else Inl (lengthA + 1))))) lengthA)"

text \<open>One round; the variables are \<open>p\<close>, \<open>q\<close> and \<open>lengthA\<close>; the loop ends with what is left to add, if anything.\<close>

definition split_round ::
    "'w host \<Rightarrow> bool \<Rightarrow> bool \<Rightarrow> val \<Rightarrow> jstr \<Rightarrow> val \<Rightarrow> int \<Rightarrow> int \<times> int \<times> int \<Rightarrow> ('w, (int \<times> int \<times> int) + (int \<times> int) option) jprog" where
  "split_round H optimizable unicodeMatching splitter S A bound = (\<lambda>(p, q, lengthA).
     if \<not> q < int (length S) then ret (Inr (Some (p, lengthA)))
     else
       bnd (split_match H optimizable splitter S q) (\<lambda>m. case m of
         None \<Rightarrow> ret (Inr (Some (p, lengthA)))
       | Some (z, q, e) \<Rightarrow>
           if z = Null \<or> e = p then bnd (next_index unicodeMatching S q) (\<lambda>q. ret (Inl (p, q, lengthA)))
           else
             bnd (Substring S p (q - p)) (\<lambda>piece.
             sq (define_data H A (PIdx lengthA) (Str piece))
               (if lengthA + 1 = bound then ret (Inr None)
                else
                  bnd (split_captures H A z bound (lengthA + 1)) (\<lambda>x. case x of
                    Inr _ \<Rightarrow> ret (Inr None)
                  | Inl lengthA \<Rightarrow> ret (Inl (e, e, lengthA)))))))"

definition RegExpSplit :: "'w host \<Rightarrow> nat \<Rightarrow> val \<Rightarrow> val \<Rightarrow> val \<Rightarrow> ('w, val) jprog" where
  "RegExpSplit H fuel rx string limit =
     sq (RequireObject rx)
    (bnd (ToString H string) (\<lambda>S.
     bnd (GetBuiltinConstructor H ''RegExp'') (\<lambda>RegExpCtor.
     bnd (SpeciesConstructor H rx RegExpCtor) (\<lambda>C.
     bnd (IsRegExpSplitOptimizable H rx C) (\<lambda>opt.
     let optimizable = (opt \<and> (limit = Undef \<or> (case limit of Num _ \<Rightarrow> True | _ \<Rightarrow> False))) in
     bnd (split_matcher H optimizable rx C) (\<lambda>(splitter, unicodeMatching).
     bnd (ArrayLiteral H []) (\<lambda>A.
     bnd (if limit = Undef then ret (2 ^ 32 - 1) else bnd (ToNumber H limit) (\<lambda>n. ret (to_uint32 n))) (\<lambda>bound.
     if bound = 0 then ret A
     else if S = [] then
       bnd (if optimizable then RegExpMatcher H splitter S 0 else RegExpExec H splitter S False) (\<lambda>z.
       if z \<noteq> Null then ret A else sq (define_data H A (PIdx 0) (Str S)) (ret A))
     else
       bnd (loop_fuel fuel (split_round H optimizable unicodeMatching splitter S A bound) (0, 0, 0)) (\<lambda>x. case x of
         None \<Rightarrow> ret A
       | Some (p, lengthA) \<Rightarrow>
           bnd (if int (length S) \<le> p then ret [] else Substring S p (int (length S) - p)) (\<lambda>piece.
           sq (define_data H A (PIdx lengthA) (Str piece)) (ret A)))))))))))"

section \<open>@@matchAll and its iterator\<close>

definition REGEXP_STRING_ITERATOR_REGEXP_SLOT :: nat where "REGEXP_STRING_ITERATOR_REGEXP_SLOT = 0"
definition REGEXP_STRING_ITERATOR_STRING_SLOT :: nat where "REGEXP_STRING_ITERATOR_STRING_SLOT = 1"
definition REGEXP_STRING_ITERATOR_SOURCE_SLOT :: nat where "REGEXP_STRING_ITERATOR_SOURCE_SLOT = 2"
definition REGEXP_STRING_ITERATOR_FLAGS_SLOT :: nat where "REGEXP_STRING_ITERATOR_FLAGS_SLOT = 3"
definition REGEXP_STRING_ITERATOR_LASTINDEX_SLOT :: nat where "REGEXP_STRING_ITERATOR_LASTINDEX_SLOT = 4"
definition REGEXP_STRING_ITERATOR_LASTINDEX_DONE :: int where "REGEXP_STRING_ITERATOR_LASTINDEX_DONE = - 1"
definition REGEXP_STRING_ITERATOR_LASTINDEX_SLOW :: int where "REGEXP_STRING_ITERATOR_LASTINDEX_SLOW = - 2"

definition IsRegExpMatchAllOptimizable :: "'w host \<Rightarrow> val \<Rightarrow> val \<Rightarrow> ('w, bool) jprog" where
  "IsRegExpMatchAllOptimizable H rx C =
     bnd (IsRegExpObject H rx) (\<lambda>is.
     if \<not> is then ret False
     else
       bnd (GetBuiltinConstructor H ''RegExp'') (\<lambda>RegExpCtor.
       if C \<noteq> RegExpCtor then ret False
       else
         bnd (Get H RegExpCtor (pstr ''prototype'')) (\<lambda>RegExpProto.
         bnd (intrinsic H ''RegExpPrototypeOptimizable'' [RegExpProto]) (\<lambda>b.
         if \<not> truthy b then ret False
         else bnd (intrinsic H ''RegExpInstanceOptimizable'' [rx, RegExpProto]) (\<lambda>b. ret (truthy b))))))"

text \<open>The assertions on the types of the arguments hold by their types here.\<close>

definition CreateRegExpStringIterator :: "'w host \<Rightarrow> val \<Rightarrow> jstr \<Rightarrow> jstr \<Rightarrow> int \<Rightarrow> int \<Rightarrow> ('w, val) jprog" where
  "CreateRegExpStringIterator H regexp string source flags lastIndex =
     bnd (intrinsic H ''NewRegExpStringIterator'' []) (\<lambda>iterator.
     sq (set_slot H iterator REGEXP_STRING_ITERATOR_REGEXP_SLOT regexp)
    (sq (set_slot H iterator REGEXP_STRING_ITERATOR_STRING_SLOT (Str string))
    (sq (set_slot H iterator REGEXP_STRING_ITERATOR_SOURCE_SLOT (Str source))
    (sq (set_slot H iterator REGEXP_STRING_ITERATOR_FLAGS_SLOT (vint (to_int32 flags)))
    (sq (set_slot H iterator REGEXP_STRING_ITERATOR_LASTINDEX_SLOT (vint lastIndex))
        (ret iterator))))))"

definition RegExpMatchAll :: "'w host \<Rightarrow> val \<Rightarrow> val \<Rightarrow> ('w, val) jprog" where
  "RegExpMatchAll H rx string =
     sq (RequireObject rx)
    (bnd (ToString H string) (\<lambda>str.
     bnd (GetBuiltinConstructor H ''RegExp'') (\<lambda>RegExpCtor.
     bnd (SpeciesConstructor H rx RegExpCtor) (\<lambda>C.
     bnd (IsRegExpMatchAllOptimizable H rx C) (\<lambda>opt.
     if opt then
       bnd (RegExpSource H rx) (\<lambda>source.
       bnd (RegExpFlags H rx) (\<lambda>flags.
       bnd (get_lastIndex H rx) (\<lambda>lastIndex.
       CreateRegExpStringIterator H rx str source flags lastIndex)))
     else
       bnd (bnd (Get H rx (pstr ''flags'')) (ToString H)) (\<lambda>flags.
       bnd (New H C [rx, Str flags]) (\<lambda>matcher.
       bnd (get_lastIndex H rx) (\<lambda>i.
       sq (set_lastIndex H matcher i)
          (CreateRegExpStringIterator H matcher str []
             ((if str_includes flags ''g'' then REGEXP_GLOBAL_FLAG else 0)
              OR (if str_includes flags ''u'' then REGEXP_UNICODE_FLAG else 0))
             REGEXP_STRING_ITERATOR_LASTINDEX_SLOW)))))))))"

definition IsRegExpStringIteratorNextOptimizable :: "'w host \<Rightarrow> ('w, bool) jprog" where
  "IsRegExpStringIteratorNextOptimizable H =
     bnd (GetBuiltinPrototype H ''RegExp'') (\<lambda>RegExpProto.
     bnd (intrinsic H ''RegExpPrototypeOptimizable'' [RegExpProto]) (\<lambda>b.
     if \<not> truthy b then ret False
     else
       bnd (Get H RegExpProto (pstr ''exec'')) (\<lambda>exec.
       ret (strict_eq exec (builtin H ''RegExp_prototype_Exec'')))))"

text \<open>The ends of a step: no more matches, and a match.\<close>

definition set_iterator_index :: "'w host \<Rightarrow> val \<Rightarrow> int \<Rightarrow> ('w, unit) jprog" where
  "set_iterator_index H obj i = set_slot H obj REGEXP_STRING_ITERATOR_LASTINDEX_SLOT (vint i)"

definition iterator_done :: "'w host \<Rightarrow> val \<Rightarrow> val \<Rightarrow> ('w, val) jprog" where
  "iterator_done H obj result =
     sq (set_iterator_index H obj REGEXP_STRING_ITERATOR_LASTINDEX_DONE)
    (sq (Put H result (pstr ''done'') (Bool True)) (ret result))"

definition iterator_yield :: "'w host \<Rightarrow> val \<Rightarrow> val \<Rightarrow> ('w, val) jprog" where
  "iterator_yield H result m = sq (Put H result (pstr ''value'') m) (ret result)"

text \<open>Step 9 on, with the match inlined.\<close>

definition iterator_fast :: "'w host \<Rightarrow> val \<Rightarrow> val \<Rightarrow> val \<Rightarrow> jstr \<Rightarrow> int \<Rightarrow> int \<Rightarrow> ('w, val) jprog" where
  "iterator_fast H obj result regexp string flags lastIndex =
     (let lastIndex = (if has_flag flags (REGEXP_GLOBAL_FLAG OR REGEXP_STICKY_FLAG) then lastIndex else 0) in
      bnd (if lastIndex \<le> int (length string) then RegExpMatcher H regexp string lastIndex else ret Null) (\<lambda>m.
      if m = Null then iterator_done H obj result
      else
        sq (if has_flag flags REGEXP_GLOBAL_FLAG then
              bnd (match_str H m) (\<lambda>s.
              bnd (match_index H m) (\<lambda>i.
              let lastIndex = i + int (length s) in
              bnd (if s = [] then next_index (has_flag flags REGEXP_UNICODE_FLAG) string lastIndex else ret lastIndex)
                (set_iterator_index H obj)))
            else set_iterator_index H obj REGEXP_STRING_ITERATOR_LASTINDEX_DONE)
           (iterator_yield H result m)))"

definition iterator_slow :: "'w host \<Rightarrow> val \<Rightarrow> val \<Rightarrow> val \<Rightarrow> jstr \<Rightarrow> int \<Rightarrow> ('w, val) jprog" where
  "iterator_slow H obj result regexp string flags =
     bnd (RegExpExec H regexp string False) (\<lambda>m.
     if m = Null then iterator_done H obj result
     else
       sq (if has_flag flags REGEXP_GLOBAL_FLAG then
             bnd (bnd (Get H m (PIdx 0)) (ToString H)) (\<lambda>matchStr.
             if matchStr = [] then
               bnd (get_lastIndex H regexp) (\<lambda>thisIndex.
               bnd (next_index (has_flag flags REGEXP_UNICODE_FLAG) string thisIndex) (set_lastIndex H regexp))
             else ret ())
           else set_iterator_index H obj REGEXP_STRING_ITERATOR_LASTINDEX_DONE)
          (iterator_yield H result m))"

text \<open>Whether the regular expression is still the one that the iterator was made for.\<close>

definition iterator_unchanged :: "'w host \<Rightarrow> val \<Rightarrow> jstr \<Rightarrow> int \<Rightarrow> ('w, bool) jprog" where
  "iterator_unchanged H regexp source flags =
     bnd (IsRegExpStringIteratorNextOptimizable H) (\<lambda>opt.
     if \<not> opt then ret False
     else
       bnd (RegExpSource H regexp) (\<lambda>s.
       if s \<noteq> source then ret False
       else bnd (RegExpFlags H regexp) (\<lambda>f. ret (f = flags))))"

definition RegExpStringIteratorNext :: "'w host \<Rightarrow> val \<Rightarrow> ('w, val) jprog" where
  "RegExpStringIteratorNext H this =
     bnd (HasClass H ''RegExpStringIterator'' this) (\<lambda>ok.
     if \<not> ok then intrinsic H ''CallRegExpStringIteratorMethodIfWrapped'' [this, vstr ''RegExpStringIteratorNext'']
     else
       bnd (ObjectLiteral H [(pstr ''value'', Undef), (pstr ''done'', Bool False)]) (\<lambda>result.
       bnd (IntOf (get_slot H this REGEXP_STRING_ITERATOR_LASTINDEX_SLOT)) (\<lambda>lastIndex.
       if lastIndex = REGEXP_STRING_ITERATOR_LASTINDEX_DONE then
         sq (Put H result (pstr ''done'') (Bool True)) (ret result)
       else
         bnd (get_slot H this REGEXP_STRING_ITERATOR_REGEXP_SLOT) (\<lambda>regexp.
         bnd (StrOf (get_slot H this REGEXP_STRING_ITERATOR_STRING_SLOT)) (\<lambda>string.
         bnd (IntOf (get_slot H this REGEXP_STRING_ITERATOR_FLAGS_SLOT)) (\<lambda>flags.
         if 0 \<le> lastIndex then
           bnd (IsRegExpObject H regexp) (\<lambda>is.
           sq (asrt is ''|regexp| is a RegExp object'')
          (bnd (StrOf (get_slot H this REGEXP_STRING_ITERATOR_SOURCE_SLOT)) (\<lambda>source.
           bnd (iterator_unchanged H regexp source flags) (\<lambda>same.
           if same then iterator_fast H this result regexp string flags lastIndex
           else
             bnd (regexp_construct_raw_flags H source flags) (\<lambda>regexp.
             sq (set_lastIndex H regexp lastIndex)
            (sq (set_slot H this REGEXP_STRING_ITERATOR_REGEXP_SLOT regexp)
            (sq (set_iterator_index H this REGEXP_STRING_ITERATOR_LASTINDEX_SLOW)
                (iterator_slow H this result regexp string flags))))))))
         else iterator_slow H this result regexp string flags))))))"

definition IsRegExp :: "'w host \<Rightarrow> val \<Rightarrow> ('w, bool) jprog" where
  "IsRegExp H argument =
     (if \<not> IsObject argument then ret False
      else
        bnd (Get H argument std_match) (\<lambda>matcher.
        if matcher \<noteq> Undef then ret (truthy matcher)
        else bnd (intrinsic H ''IsPossiblyWrappedRegExpObject'' [argument]) (\<lambda>b. ret (truthy b))))"

end
