(* ===== verification/RegExpReplace.thy ===== *)
theory RegExpReplace
  imports RegExpBuiltins
begin

text \<open>
  \<open>RegExp.prototype[@@replace]\<close>: the path that user code can observe, and the optimised ones. Those are
  two function templates, \<open>RegExpGlobalReplaceOpt.h.js\<close> and \<open>RegExpLocalReplaceOpt.h.js\<close>, with the
  kind of the replacement as their parameter, and \<open>RegExpGlobalReplaceShortOpt\<close>.
\<close>

section \<open>Replacements\<close>

text \<open>A string without \<open>$\<close>, a string with its first \<open>$\<close>, a function, a function that reads an object.\<close>

datatype replacer = Plain | Subst int | Functional | ElemBase val

definition RegExpGetSubstitution :: "'w host \<Rightarrow> val \<Rightarrow> jstr \<Rightarrow> int \<Rightarrow> val \<Rightarrow> int \<Rightarrow> val \<Rightarrow> ('w, jstr) jprog" where
  "RegExpGetSubstitution H captures S position replaceValue firstDollarIndex namedCaptures =
     StrOf (intrinsic H ''RegExpGetSubstitution''
       [captures, Str S, vint position, replaceValue, vint firstDollarIndex, namedCaptures])"

text \<open>The call of the function: directly for few captures, or with \<open>std_Function_apply\<close>.\<close>

definition call_replacer :: "'w host \<Rightarrow> val \<Rightarrow> val \<Rightarrow> int \<Rightarrow> int \<Rightarrow> jstr \<Rightarrow> ('w, jstr) jprog" where
  "call_replacer H replaceValue captures nCaptures position S =
     bnd (SPREAD H captures (nCaptures + 1)) (\<lambda>vs.
     bnd (Call H replaceValue Undef (vs @ [vint position, Str S])) (ToString H))"

definition apply_replacer :: "'w host \<Rightarrow> val \<Rightarrow> val \<Rightarrow> int \<Rightarrow> int \<Rightarrow> jstr \<Rightarrow> val \<Rightarrow> ('w, jstr) jprog" where
  "apply_replacer H replaceValue captures nCaptures position S namedCaptures =
     sq (define_data H captures (PIdx (nCaptures + 1)) (vint position))
    (sq (define_data H captures (PIdx (nCaptures + 2)) (Str S))
    (sq (if namedCaptures \<noteq> Undef then define_data H captures (PIdx (nCaptures + 3)) namedCaptures else ret ())
        (bnd (intrinsic H ''std_Function_apply'' [replaceValue, Undef, captures]) (ToString H))))"

definition RegExpGetFunctionalReplacement :: "'w host \<Rightarrow> val \<Rightarrow> jstr \<Rightarrow> int \<Rightarrow> val \<Rightarrow> ('w, jstr) jprog" where
  "RegExpGetFunctionalReplacement H result S position replaceValue =
     bnd (IntOf (Get H result (pstr ''length''))) (\<lambda>n.
     sq (asrt (1 \<le> n) ''RegExpMatcher does not return an empty array'')
    (let nCaptures = n - 1 in
     bnd (Get H result (pstr ''groups'')) (\<lambda>namedCaptures.
     if namedCaptures = Undef \<and> nCaptures \<le> 4 then call_replacer H replaceValue result nCaptures position S
     else
       bnd (ArrayLiteral H []) (\<lambda>captures.
       bnd (for_up 0 (nCaptures + 1) (\<lambda>n _.
              bnd (Get H result (PIdx n)) (\<lambda>v.
              sq (asrt (is_string v \<or> v = Undef) ''RegExpMatcher returns only strings and undefined'')
             (sq (define_data H captures (PIdx n) v) (ret (Inl ()))))) ()) (\<lambda>x. case x of
         Inl _ \<Rightarrow> apply_replacer H replaceValue captures nCaptures position S namedCaptures
       | Inr s \<Rightarrow> ret s)))))"

definition named_object :: "'w host \<Rightarrow> val \<Rightarrow> ('w, val) jprog" where
  "named_object H namedCaptures = (if namedCaptures \<noteq> Undef then ToObject H namedCaptures else ret Undef)"

definition RegExpGetComplexReplacement ::
    "'w host \<Rightarrow> val \<Rightarrow> jstr \<Rightarrow> jstr \<Rightarrow> int \<Rightarrow> int \<Rightarrow> val \<Rightarrow> bool \<Rightarrow> int \<Rightarrow> ('w, jstr) jprog" where
  "RegExpGetComplexReplacement H result matched S position nCaptures replaceValue functionalReplace firstDollarIndex =
     bnd (ArrayLiteral H []) (\<lambda>captures.
     sq (define_data H captures (PIdx 0) (Str matched))
    (bnd (for_up 1 (nCaptures + 1) (\<lambda>n _.
            bnd (Get H result (PIdx n)) (\<lambda>capN.
            bnd (if capN \<noteq> Undef then bnd (ToString H capN) (\<lambda>s. ret (Str s)) else ret Undef) (\<lambda>capN.
            sq (define_data H captures (PIdx n) capN) (ret (Inl ()))))) ()) (\<lambda>x. case x of
       Inr s \<Rightarrow> ret s
     | Inl _ \<Rightarrow>
         bnd (Get H result (pstr ''groups'')) (\<lambda>namedCaptures.
         if functionalReplace then
           if namedCaptures = Undef \<and> nCaptures \<le> 4 then call_replacer H replaceValue captures nCaptures position S
           else apply_replacer H replaceValue captures nCaptures position S namedCaptures
         else
           bnd (named_object H namedCaptures)
             (RegExpGetSubstitution H captures S position replaceValue firstDollarIndex)))))"

text \<open>The replacement of a native match, and what is left of the kind after it: an object that lacks a
  property is not asked again.\<close>

definition replacement_of :: "'w host \<Rightarrow> replacer \<Rightarrow> val \<Rightarrow> jstr \<Rightarrow> jstr \<Rightarrow> int \<Rightarrow> val \<Rightarrow> ('w, jstr \<times> replacer) jprog" where
  "replacement_of H k result matched S position replaceValue = (case k of
      Plain \<Rightarrow> bnd (StrOf (ret replaceValue)) (\<lambda>s. ret (s, k))
    | Subst firstDollarIndex \<Rightarrow>
        bnd (bnd (Get H result (pstr ''groups'')) (named_object H)) (\<lambda>namedCaptures.
        bnd (RegExpGetSubstitution H result S position replaceValue firstDollarIndex namedCaptures) (\<lambda>s. ret (s, k)))
    | Functional \<Rightarrow> bnd (RegExpGetFunctionalReplacement H result S position replaceValue) (\<lambda>s. ret (s, k))
    | ElemBase elemBase \<Rightarrow>
        bnd (if IsObject elemBase then intrinsic H ''GetStringDataProperty'' [elemBase, Str matched] else ret Undef) (\<lambda>prop.
        if prop \<noteq> Undef then
          sq (asrt (is_string prop) ''GetStringDataProperty should return either string or undefined'')
             (bnd (StrOf (ret prop)) (\<lambda>s. ret (s, k)))
        else bnd (RegExpGetFunctionalReplacement H result S position replaceValue) (\<lambda>s. ret (s, ElemBase Undef))))"

section \<open>Loops over the matches\<close>

text \<open>\<open>accumulatedResult += Substring(...) + replacement\<close>, and the part after the last match.\<close>

definition add_part :: "jstr \<Rightarrow> int \<Rightarrow> int \<Rightarrow> jstr \<Rightarrow> jstr \<Rightarrow> ('w, jstr) jprog" where
  "add_part S nextSourcePosition position replacement accumulatedResult =
     bnd (Substring S nextSourcePosition (position - nextSourcePosition)) (\<lambda>part.
     bnd (StrCat part replacement) (StrCat accumulatedResult))"

definition add_rest :: "jstr \<Rightarrow> int \<Rightarrow> jstr \<Rightarrow> ('w, jstr) jprog" where
  "add_rest S nextSourcePosition accumulatedResult =
     (if int (length S) \<le> nextSourcePosition then ret accumulatedResult
      else bnd (Substring S nextSourcePosition (int (length S) - nextSourcePosition)) (StrCat accumulatedResult))"

text \<open>
  The next start, or nothing when it is past the end. The variables of the loops are the regular
  expression, the kind, \<open>lastIndex\<close>, \<open>nextSourcePosition\<close> and \<open>accumulatedResult\<close>.
\<close>

definition after_match :: "bool \<Rightarrow> jstr \<Rightarrow> bool \<Rightarrow> int \<Rightarrow> ('w, int option) jprog" where
  "after_match fullUnicode S emptyMatch lastIndex =
     (if emptyMatch then
        bnd (next_index fullUnicode S lastIndex) (\<lambda>i. ret (if int (length S) < i then None else Some (to_int32 i)))
      else ret (Some lastIndex))"

definition is_code :: "replacer \<Rightarrow> bool" where
  "is_code k = (case k of Functional \<Rightarrow> True | ElemBase _ \<Rightarrow> True | _ \<Rightarrow> False)"

text \<open>The regular expression as it was, when the replacer has recompiled it.\<close>

definition same_regexp :: "'w host \<Rightarrow> replacer \<Rightarrow> val \<Rightarrow> jstr \<Rightarrow> int \<Rightarrow> ('w, val) jprog" where
  "same_regexp H k rx originalSource originalFlags =
     (if \<not> is_code k then ret rx
      else
        bnd (RegExpSource H rx) (\<lambda>s.
        bnd (if s \<noteq> originalSource then ret True else bnd (RegExpFlags H rx) (\<lambda>f. ret (f \<noteq> originalFlags))) (\<lambda>changed.
        if changed then regexp_construct_raw_flags H originalSource originalFlags else ret rx)))"

definition global_round ::
    "'w host \<Rightarrow> jstr \<Rightarrow> val \<Rightarrow> bool \<Rightarrow> jstr \<Rightarrow> int \<Rightarrow> val \<times> replacer \<times> int \<times> int \<times> jstr \<Rightarrow>
      ('w, (val \<times> replacer \<times> int \<times> int \<times> jstr) + (int \<times> jstr)) jprog" where
  "global_round H S replaceValue fullUnicode originalSource originalFlags = (\<lambda>(rx, k, lastIndex, nextSourcePosition, acc).
     bnd (RegExpMatcher H rx S lastIndex) (\<lambda>result.
     if result = Null then ret (Inr (nextSourcePosition, acc))
     else
       bnd (IntOf (Get H result (pstr ''length''))) (\<lambda>n.
       sq (asrt (1 \<le> n) ''RegExpMatcher does not return an empty array'')
      (bnd (match_str H result) (\<lambda>matched.
       let matchLength = to_int32 (int (length matched)) in
       bnd (match_index H result) (\<lambda>position.
       let position = to_int32 position; lastIndex = position + matchLength in
       bnd (replacement_of H k result matched S position replaceValue) (\<lambda>(replacement, k).
       bnd (add_part S nextSourcePosition position replacement acc) (\<lambda>acc.
       let nextSourcePosition = lastIndex in
       bnd (after_match fullUnicode S (matchLength = 0) lastIndex) (\<lambda>next. case next of
         None \<Rightarrow> ret (Inr (nextSourcePosition, acc))
       | Some lastIndex \<Rightarrow>
           bnd (same_regexp H k rx originalSource originalFlags) (\<lambda>rx.
           ret (Inl (rx, k, lastIndex, nextSourcePosition, acc))))))))))))"

definition RegExpGlobalReplace :: "'w host \<Rightarrow> nat \<Rightarrow> replacer \<Rightarrow> val \<Rightarrow> jstr \<Rightarrow> val \<Rightarrow> int \<Rightarrow> ('w, jstr) jprog" where
  "RegExpGlobalReplace H fuel k rx S replaceValue flags =
     sq (set_lastIndex H rx 0)
    (bnd (if is_code k then RegExpSource H rx else ret []) (\<lambda>originalSource.
     bnd (loop_fuel fuel (global_round H S replaceValue (has_flag flags REGEXP_UNICODE_FLAG) originalSource flags) (rx, k, 0, 0, []))
       (\<lambda>(nextSourcePosition, acc). add_rest S nextSourcePosition acc)))"

definition RegExpGlobalReplaceOpt :: "'w host \<Rightarrow> nat \<Rightarrow> val \<Rightarrow> jstr \<Rightarrow> val \<Rightarrow> int \<Rightarrow> ('w, jstr) jprog" where
  "RegExpGlobalReplaceOpt H fuel = RegExpGlobalReplace H fuel Plain"

definition RegExpGlobalReplaceOptFunc :: "'w host \<Rightarrow> nat \<Rightarrow> val \<Rightarrow> jstr \<Rightarrow> val \<Rightarrow> int \<Rightarrow> ('w, jstr) jprog" where
  "RegExpGlobalReplaceOptFunc H fuel = RegExpGlobalReplace H fuel Functional"

definition RegExpGlobalReplaceOptElemBase :: "'w host \<Rightarrow> nat \<Rightarrow> val \<Rightarrow> jstr \<Rightarrow> val \<Rightarrow> int \<Rightarrow> val \<Rightarrow> ('w, jstr) jprog" where
  "RegExpGlobalReplaceOptElemBase H fuel rx S replaceValue flags elemBase =
     RegExpGlobalReplace H fuel (ElemBase elemBase) rx S replaceValue flags"

definition RegExpGlobalReplaceOptSubst :: "'w host \<Rightarrow> nat \<Rightarrow> val \<Rightarrow> jstr \<Rightarrow> val \<Rightarrow> int \<Rightarrow> int \<Rightarrow> ('w, jstr) jprog" where
  "RegExpGlobalReplaceOptSubst H fuel rx S replaceValue flags firstDollarIndex =
     RegExpGlobalReplace H fuel (Subst firstDollarIndex) rx S replaceValue flags"

text \<open>A short string: position and end are unpacked from what \<open>RegExpSearcher\<close> gives.\<close>

definition short_round ::
    "'w host \<Rightarrow> val \<Rightarrow> jstr \<Rightarrow> jstr \<Rightarrow> bool \<Rightarrow> int \<times> int \<times> jstr \<Rightarrow> ('w, (int \<times> int \<times> jstr) + (int \<times> jstr)) jprog" where
  "short_round H rx S replaceValue fullUnicode = (\<lambda>(lastIndex, nextSourcePosition, acc).
     bnd (RegExpSearcher H rx S lastIndex) (\<lambda>result.
     if result = - 1 then ret (Inr (nextSourcePosition, acc))
     else
       let position = search_position result; lastIndex = search_end result in
       bnd (add_part S nextSourcePosition position replaceValue acc) (\<lambda>acc.
       let nextSourcePosition = lastIndex in
       if lastIndex = position then
         bnd (next_index fullUnicode S lastIndex) (\<lambda>lastIndex.
         ret (if int (length S) < lastIndex then Inr (nextSourcePosition, acc) else Inl (lastIndex, nextSourcePosition, acc)))
       else ret (Inl (lastIndex, nextSourcePosition, acc)))))"

definition RegExpGlobalReplaceShortOpt :: "'w host \<Rightarrow> nat \<Rightarrow> val \<Rightarrow> jstr \<Rightarrow> jstr \<Rightarrow> int \<Rightarrow> ('w, jstr) jprog" where
  "RegExpGlobalReplaceShortOpt H fuel rx S replaceValue flags =
     sq (set_lastIndex H rx 0)
    (bnd (loop_fuel fuel (short_round H rx S replaceValue (has_flag flags REGEXP_UNICODE_FLAG)) (0, 0, []))
       (\<lambda>(nextSourcePosition, acc). add_rest S nextSourcePosition acc))"

section \<open>One match\<close>

text \<open>The start of the match of the local template, or nothing when the string is the result.\<close>

definition local_start :: "'w host \<Rightarrow> val \<Rightarrow> jstr \<Rightarrow> ('w, (int \<times> bool) option) jprog" where
  "local_start H rx S =
     bnd (get_lastIndex H rx) (\<lambda>lastIndex.
     bnd (RegExpFlags H rx) (\<lambda>flags.
     if has_flag flags (REGEXP_GLOBAL_FLAG OR REGEXP_STICKY_FLAG) then
       if int (length S) < lastIndex then sq (set_lastIndex H rx 0) (ret None)
       else ret (Some (lastIndex, True))
     else ret (Some (0, False))))"

definition local_finish :: "jstr \<Rightarrow> int \<Rightarrow> int \<Rightarrow> jstr \<Rightarrow> ('w, jstr) jprog" where
  "local_finish S position nextSourcePosition replacement =
     bnd (bnd (Substring S 0 position) (\<lambda>part. StrCat part replacement)) (add_rest S nextSourcePosition)"

definition RegExpLocalReplace :: "'w host \<Rightarrow> replacer \<Rightarrow> val \<Rightarrow> jstr \<Rightarrow> val \<Rightarrow> ('w, jstr) jprog" where
  "RegExpLocalReplace H k rx S replaceValue =
     bnd (local_start H rx S) (\<lambda>start. case start of
       None \<Rightarrow> ret S
     | Some (lastIndex, globalOrSticky) \<Rightarrow>
         bnd (RegExpMatcher H rx S lastIndex) (\<lambda>result.
         if result = Null then sq (if globalOrSticky then set_lastIndex H rx 0 else ret ()) (ret S)
         else
           bnd (IntOf (Get H result (pstr ''length''))) (\<lambda>n.
           sq (asrt (1 \<le> n) ''RegExpMatcher does not return an empty array'')
          (bnd (match_str H result) (\<lambda>matched.
           bnd (match_index H result) (\<lambda>position.
           let nextSourcePosition = position + int (length matched) in
           sq (if globalOrSticky then set_lastIndex H rx nextSourcePosition else ret ())
          (bnd (replacement_of H k result matched S position replaceValue) (\<lambda>(replacement, _).
           local_finish S position nextSourcePosition replacement))))))))"

definition RegExpLocalReplaceOpt :: "'w host \<Rightarrow> val \<Rightarrow> jstr \<Rightarrow> val \<Rightarrow> ('w, jstr) jprog" where
  "RegExpLocalReplaceOpt H = RegExpLocalReplace H Plain"

definition RegExpLocalReplaceOptFunc :: "'w host \<Rightarrow> val \<Rightarrow> jstr \<Rightarrow> val \<Rightarrow> ('w, jstr) jprog" where
  "RegExpLocalReplaceOptFunc H = RegExpLocalReplace H Functional"

definition RegExpLocalReplaceOptSubst :: "'w host \<Rightarrow> val \<Rightarrow> jstr \<Rightarrow> val \<Rightarrow> int \<Rightarrow> ('w, jstr) jprog" where
  "RegExpLocalReplaceOptSubst H rx S replaceValue firstDollarIndex =
     RegExpLocalReplace H (Subst firstDollarIndex) rx S replaceValue"

definition RegExpLocalReplaceOptShort :: "'w host \<Rightarrow> val \<Rightarrow> jstr \<Rightarrow> jstr \<Rightarrow> ('w, jstr) jprog" where
  "RegExpLocalReplaceOptShort H rx S replaceValue =
     bnd (local_start H rx S) (\<lambda>start. case start of
       None \<Rightarrow> ret S
     | Some (lastIndex, globalOrSticky) \<Rightarrow>
         bnd (RegExpSearcher H rx S lastIndex) (\<lambda>result.
         if result = - 1 then sq (if globalOrSticky then set_lastIndex H rx 0 else ret ()) (ret S)
         else
           let position = search_position result; nextSourcePosition = search_end result in
           sq (if globalOrSticky then set_lastIndex H rx nextSourcePosition else ret ())
              (local_finish S position nextSourcePosition replaceValue)))"

section \<open>The path that can be observed\<close>

text \<open>The results are collected in an array before any replacement is made.\<close>

definition collect_round :: "'w host \<Rightarrow> val \<Rightarrow> jstr \<Rightarrow> bool \<Rightarrow> bool \<Rightarrow> val \<Rightarrow> int \<Rightarrow> ('w, int + int) jprog" where
  "collect_round H rx S global fullUnicode results nResults =
     bnd (RegExpExec H rx S False) (\<lambda>result.
     if result = Null then ret (Inr nResults)
     else
       sq (define_data H results (PIdx nResults) result)
         (if \<not> global then ret (Inr (nResults + 1))
          else
            bnd (bnd (Get H result (PIdx 0)) (ToString H)) (\<lambda>matchStr.
            sq (if matchStr = [] then
                  bnd (get_lastIndex H rx) (\<lambda>lastIndex.
                  bnd (next_index fullUnicode S lastIndex) (set_lastIndex H rx))
                else ret ())
               (ret (Inl (nResults + 1))))))"

text \<open>The conversions of the captures and of the groups that script can see.\<close>

definition touch_captures :: "'w host \<Rightarrow> val \<Rightarrow> int \<Rightarrow> ('w, unit) jprog" where
  "touch_captures H result nCaptures =
     sq (for_up 1 (nCaptures + 1) (\<lambda>n _.
           bnd (Get H result (PIdx n)) (\<lambda>capN.
           sq (if capN \<noteq> Undef then bnd (ToString H capN) (\<lambda>_. ret ()) else ret ()) (ret (Inl ())))) () :: ('w, unit + unit) jprog)
        (bnd (bnd (Get H result (pstr ''groups'')) (named_object H)) (\<lambda>_. ret ()))"

definition slow_part ::
    "'w host \<Rightarrow> jstr \<Rightarrow> val \<Rightarrow> bool \<Rightarrow> int \<Rightarrow> val \<Rightarrow> int \<Rightarrow> int \<times> jstr \<Rightarrow> ('w, (int \<times> jstr) + unit) jprog" where
  "slow_part H S replaceValue functionalReplace firstDollarIndex results i = (\<lambda>(nextSourcePosition, acc).
     bnd (Get H results (PIdx i)) (\<lambda>result.
     bnd (LengthOf H result) (\<lambda>n.
     let nCaptures = max (n - 1) 0 in
     bnd (bnd (Get H result (PIdx 0)) (ToString H)) (\<lambda>matched.
     bnd (bnd (Get H result (pstr ''index'')) (ToInteger H)) (\<lambda>index.
     let position = start_at (int (length S)) (max (min index (IFin (int (length S)))) (IFin 0)) in
     bnd (if functionalReplace \<or> firstDollarIndex \<noteq> - 1 then
            RegExpGetComplexReplacement H result matched S position nCaptures replaceValue functionalReplace firstDollarIndex
          else sq (touch_captures H result nCaptures) (StrOf (ret replaceValue))) (\<lambda>replacement.
     if nextSourcePosition \<le> position then
       bnd (add_part S nextSourcePosition position replacement acc) (\<lambda>acc.
       ret (Inl (position + int (length matched), acc)))
     else ret (Inl (nextSourcePosition, acc))))))))"

definition RegExpReplaceSlowPath :: "'w host \<Rightarrow> nat \<Rightarrow> val \<Rightarrow> jstr \<Rightarrow> val \<Rightarrow> bool \<Rightarrow> int \<Rightarrow> ('w, jstr) jprog" where
  "RegExpReplaceSlowPath H fuel rx S replaceValue functionalReplace firstDollarIndex =
     bnd (Get H rx (pstr ''global'')) (\<lambda>global.
     bnd (if truthy global then
            bnd (Get H rx (pstr ''unicode'')) (\<lambda>u. sq (set_lastIndex H rx 0) (ret (truthy u)))
          else ret False) (\<lambda>fullUnicode.
     bnd (ArrayLiteral H []) (\<lambda>results.
     bnd (loop_fuel fuel (collect_round H rx S (truthy global) fullUnicode results) 0) (\<lambda>nResults.
     bnd (for_up 0 nResults (slow_part H S replaceValue functionalReplace firstDollarIndex results) (0, [])) (\<lambda>x. case x of
       Inl (nextSourcePosition, acc) \<Rightarrow> add_rest S nextSourcePosition acc
     | Inr _ \<Rightarrow> ret [])))))"

section \<open>The method\<close>

text \<open>The optimised path for a kind of replacement.\<close>

definition replace_optimised :: "'w host \<Rightarrow> nat \<Rightarrow> val \<Rightarrow> jstr \<Rightarrow> val \<Rightarrow> bool \<Rightarrow> int \<Rightarrow> ('w, jstr) jprog" where
  "replace_optimised H fuel rx S replaceValue functionalReplace firstDollarIndex =
     bnd (RegExpFlags H rx) (\<lambda>flags.
     if has_flag flags REGEXP_GLOBAL_FLAG then
       if functionalReplace then
         bnd (if 5000 < length S then intrinsic H ''GetElemBaseForLambda'' [replaceValue] else ret Undef) (\<lambda>elemBase.
         if IsObject elemBase then RegExpGlobalReplaceOptElemBase H fuel rx S replaceValue flags elemBase
         else RegExpGlobalReplaceOptFunc H fuel rx S replaceValue flags)
       else if firstDollarIndex \<noteq> - 1 then RegExpGlobalReplaceOptSubst H fuel rx S replaceValue flags firstDollarIndex
       else if length S < 32767
       then bnd (StrOf (ret replaceValue)) (\<lambda>s. RegExpGlobalReplaceShortOpt H fuel rx S s flags)
       else RegExpGlobalReplaceOpt H fuel rx S replaceValue flags
     else if functionalReplace then RegExpLocalReplaceOptFunc H rx S replaceValue
     else if firstDollarIndex \<noteq> - 1 then RegExpLocalReplaceOptSubst H rx S replaceValue firstDollarIndex
     else if length S < 32767
     then bnd (StrOf (ret replaceValue)) (RegExpLocalReplaceOptShort H rx S)
     else RegExpLocalReplaceOpt H rx S replaceValue)"

definition RegExpReplace :: "'w host \<Rightarrow> nat \<Rightarrow> val \<Rightarrow> val \<Rightarrow> val \<Rightarrow> ('w, jstr) jprog" where
  "RegExpReplace H fuel rx string replaceValue =
     sq (RequireObject rx)
    (bnd (ToString H string) (\<lambda>S.
     bnd (IsCallable H replaceValue) (\<lambda>functionalReplace.
     bnd (if functionalReplace then ret (replaceValue, - 1)
          else
            bnd (ToString H replaceValue) (\<lambda>r.
            bnd (if 1 < length r then NativeInt H ''GetFirstDollarIndex'' [Str r] else ret (- 1)) (\<lambda>d.
            ret (Str r, d)))) (\<lambda>(replaceValue, firstDollarIndex).
     bnd (IsRegExpMethodOptimizable H rx) (\<lambda>opt.
     if opt then replace_optimised H fuel rx S replaceValue functionalReplace firstDollarIndex
     else RegExpReplaceSlowPath H fuel rx S replaceValue functionalReplace firstDollarIndex)))))"

end
