(* ===== verification/RegExpProps.thy ===== *)
theory RegExpProps
  imports RegExpReplace StringProps
begin

text \<open>
  The loops of the regular expression methods over any native matcher that keeps its contract
  (\<open>native_matcher\<close>): global replacement on short and on long strings is the same splice of
  the string along the list of its matches; the pieces of \<open>@@split\<close> and the matches between them make
  up the string again.
\<close>

section \<open>exec\<close>

text \<open>An object that \<open>exec\<close> of the user returns is rejected when it is callable, because \<open>typeof\<close> gives another name for it.\<close>

lemma RegExpExec_callable_result:
  assumes "Get H R (pstr ''exec'') w = (Ret exec, w1)" "IsObject exec" "callable H w1 exec" "exec \<noteq> builtin H ''RegExp_prototype_Exec''"
    and "call_fn H exec R [Str S] w1 = (Ret (Obj a), w2)" "callable H w2 (Obj a)"
  shows "RegExpExec H R S forTest w = (Throw (TypeErr ''JSMSG_EXEC_NOT_OBJORNULL''), w2)"
proof -
  have "strict_eq exec (builtin H ''RegExp_prototype_Exec'') = False"
    using assms(2,4) by (cases exec; cases "builtin H ''RegExp_prototype_Exec''") auto
  then show ?thesis
    using assms by (simp add: RegExpExec_def typeof_object_def IsCallable_def Call_def run_simps)
qed

section \<open>Matches of a string\<close>

text \<open>A matcher gives the start and the end of the first match from an index on.\<close>

type_synonym matcher = "int \<Rightarrow> (int \<times> int) option"

definition matcher_ok :: "int \<Rightarrow> matcher \<Rightarrow> bool" where
  "matcher_ok len m = (\<forall>i p e. 0 \<le> i \<longrightarrow> i \<le> len \<longrightarrow> m i = Some (p, e) \<longrightarrow> i \<le> p \<and> p \<le> e \<and> e \<le> len)"

lemma matcher_okD: "matcher_ok len m \<Longrightarrow> 0 \<le> i \<Longrightarrow> i \<le> len \<Longrightarrow> m i = Some (p, e) \<Longrightarrow> i \<le> p \<and> p \<le> e \<and> e \<le> len"
  unfolding matcher_ok_def by blast

text \<open>Where the search goes on after an empty match.\<close>

definition step_index :: "bool \<Rightarrow> jstr \<Rightarrow> int \<Rightarrow> int" where
  "step_index fullUnicode S i = (if fullUnicode then advance_index S i else i + 1)"

lemma step_index_less: "i < step_index u S i" "step_index u S i \<le> i + 2"
  by (auto simp: step_index_def advance_index_def Let_def)

lemma step_index_len: "i \<le> int (length S) \<Longrightarrow> step_index u S i \<le> int (length S) + 1"
  by (auto simp: step_index_def advance_index_def Let_def)

text \<open>All matches from an index on, each search starting after the last match.\<close>

function matches_from :: "matcher \<Rightarrow> (int \<Rightarrow> int) \<Rightarrow> int \<Rightarrow> int \<Rightarrow> (int \<times> int) list" where
  "matches_from m adv len i =
     (if i < 0 \<or> len < i then []
      else case m i of
        None \<Rightarrow> []
      | Some (p, e) \<Rightarrow>
          if p < i \<or> e < p \<or> adv e \<le> e then []
          else (p, e) # matches_from m adv len (if e = p then adv e else e))"
  by pat_completeness auto
termination
  by (relation "measure (\<lambda>(m, adv, len, i). nat (len + 1 - i))") auto

declare matches_from.simps [simp del]

text \<open>The string with every match replaced.\<close>

fun splice_matches :: "jstr \<Rightarrow> jstr \<Rightarrow> int \<Rightarrow> (int \<times> int) list \<Rightarrow> jstr" where
  "splice_matches S rep pos [] = part S pos (int (length S))"
| "splice_matches S rep pos ((p, e) # ms) = part S pos p @ rep @ splice_matches S rep e ms"

definition replace_all_matches :: "matcher \<Rightarrow> bool \<Rightarrow> jstr \<Rightarrow> jstr \<Rightarrow> jstr" where
  "replace_all_matches m u S rep = splice_matches S rep 0 (matches_from m (step_index u S) (int (length S)) 0)"

lemma matches_from_None: "m i = None \<Longrightarrow> matches_from m adv len i = []"
  by (simp add: matches_from.simps)

lemma matches_from_past: "len < i \<Longrightarrow> matches_from m adv len i = []"
  by (simp add: matches_from.simps)

lemma matches_from_Some:
  assumes "matcher_ok len m" "0 \<le> i" "i \<le> len" "m i = Some (p, e)"
  shows "matches_from m (step_index u S) len i = (p, e) # matches_from m (step_index u S) len (if e = p then step_index u S e else e)"
  using matcher_okD [OF assms] step_index_less(1) [of e u S] assms(2-4)
  by (subst matches_from.simps) auto

section \<open>Parts of a string\<close>

lemma part_past: "int (length S) \<le> p \<Longrightarrow> part S p q = []"
  by (simp add: part_def)

lemma part_self [simp]: "part S p p = []"
  by (simp add: part_def)

lemma to_int32_0 [simp]: "to_int32 0 = 0"
  by (simp add: to_int32_small)

lemma Substring_part:
  assumes "js_string s" "0 \<le> lo" "lo \<le> hi" "hi \<le> int (length s)"
  shows "Substring s lo (hi - lo) = ret (part s lo hi)"
  using SubstringKernel_part [OF assms] js_string_int32 [of s lo] js_string_int32 [of s "hi - lo"] assms
  by (auto simp: Substring_def asrt_def sq_def bnd_def fun_eq_iff)

lemma add_part_ret:
  assumes "js_string S" "0 \<le> p" "p \<le> q" "q \<le> int (length S)"
    and "int (length (acc @ part S p q @ rep)) \<le> MAX_STRING_LENGTH"
  shows "add_part S p q rep acc = ret (acc @ part S p q @ rep)"
  using assms(5) by (simp add: add_part_def Substring_part [OF assms(1-4)] StrCat_ok)

lemma add_rest_ret:
  assumes "js_string S" "0 \<le> p" "int (length (acc @ part S p (int (length S)))) \<le> MAX_STRING_LENGTH"
  shows "add_rest S p acc = (ret (acc @ part S p (int (length S))) :: ('w, jstr) jprog)"
proof (cases "int (length S) \<le> p")
  case True
  then show ?thesis by (simp add: add_rest_def part_past)
next
  case False
  then have "Substring S p (int (length S) - p) = (ret (part S p (int (length S))) :: ('w, jstr) jprog)"
    by (intro Substring_part assms) simp_all
  with False assms(3) show ?thesis by (simp add: add_rest_def StrCat_ok)
qed

lemma next_index_ret:
  assumes "0 \<le> i" "i \<le> int (length S)" "js_string S"
  shows "next_index u S i = ret (step_index u S i)"
  using assms by (simp add: next_index_def AdvanceStringIndex_def step_index_def asrt_def sq_def bnd_def ret_def
      js_string_def MAX_STRING_LENGTH_def MAX_NUMERIC_INDEX_def fun_eq_iff)

text \<open>The packed result of the searcher.\<close>

lemma search_unpack:
  assumes "0 \<le> p" "p < 32768" "0 \<le> e" "e < 32768"
  shows "search_position (p + 32768 * e) = p" "search_end (p + 32768 * e) = e"
proof -
  have mask: "x AND 32767 = x mod 32768" for x :: int
    using take_bit_eq_mask [of 15 x] by (simp add: take_bit_eq_mod mask_eq_exp_minus_1 and.commute)
  show "search_position (p + 32768 * e) = p" using assms by (simp add: search_position_def mask)
  show "search_end (p + 32768 * e) = e" using assms by (simp add: search_end_def mask drop_bit_eq_div)
qed

section \<open>The native matcher\<close>

text \<open>What is read from a native match object.\<close>

definition is_match :: "'w host \<Rightarrow> jstr \<Rightarrow> val \<Rightarrow> int \<Rightarrow> int \<Rightarrow> 'w \<Rightarrow> bool" where
  "is_match H S r p e w = (r \<noteq> Null \<and> Get H r (pstr ''index'') w = (Ret (vint p), w)
     \<and> Get H r (PIdx 0) w = (Ret (Str (part S p e)), w)
     \<and> (\<exists>n \<ge> 1. Get H r (pstr ''length'') w = (Ret (vint n), w)))"

abbreviation never :: "exn \<Rightarrow> 'w \<Rightarrow> bool" where
  "never \<equiv> (\<lambda>_ _. False)"

text \<open>
  The contract: in the states that are \<open>good\<close>, the matcher and the searcher of a regular
  expression agree with \<open>m\<close> on a string, and its \<open>lastIndex\<close> can be written.
\<close>

locale native_matcher =
  fixes H :: "'w host" and rx :: val and S :: jstr and m :: matcher and good :: "'w \<Rightarrow> bool"
  assumes ok: "matcher_ok (int (length S)) m"
    and matcher: "good w \<Longrightarrow> 0 \<le> i \<Longrightarrow> i \<le> int (length S) \<Longrightarrow>
      wp (RegExpMatcher H rx S i) (\<lambda>r w'. good w' \<and> (case m i of None \<Rightarrow> r = Null | Some (p, e) \<Rightarrow> is_match H S r p e w')) never w"
    and searcher: "good w \<Longrightarrow> 0 \<le> i \<Longrightarrow> i \<le> int (length S) \<Longrightarrow> length S < 32767 \<Longrightarrow>
      wp (RegExpSearcher H rx S i) (\<lambda>r w'. good w' \<and> r = (case m i of None \<Rightarrow> - 1 | Some (p, e) \<Rightarrow> p + 32768 * e)) never w"
    and writable: "good w \<Longrightarrow> wp (set_lastIndex H rx i) (\<lambda>_ w'. good w') never w"
begin

text \<open>The invariant of both loops: what is there and what is to come make up the result.\<close>

definition replacing :: "bool \<Rightarrow> jstr \<Rightarrow> int \<Rightarrow> int \<Rightarrow> jstr \<Rightarrow> bool" where
  "replacing u rep i pos acc = (0 \<le> pos \<and> pos \<le> i \<and> i \<le> int (length S)
     \<and> acc @ splice_matches S rep pos (matches_from m (step_index u S) (int (length S)) i) = replace_all_matches m u S rep)"

lemma replacing_start: "replacing u rep 0 0 []"
  by (simp add: replacing_def replace_all_matches_def)

lemma replacing_match:
  assumes "replacing u rep i pos acc" "m i = Some (p, e)"
  shows "i \<le> p" "p \<le> e" "e \<le> int (length S)" "0 \<le> pos" "pos \<le> p"
    "(acc @ part S pos p @ rep) @ splice_matches S rep e (matches_from m (step_index u S) (int (length S)) (if e = p then step_index u S e else e))
      = replace_all_matches m u S rep"
  using assms matcher_okD [OF ok _ _ assms(2)] matches_from_Some [OF ok _ _ assms(2), of u S]
  by (auto simp: replacing_def)

lemma replacing_end:
  assumes "js_string S" "int (length (replace_all_matches m u S rep)) \<le> MAX_STRING_LENGTH"
    and "0 \<le> pos" "acc @ part S pos (int (length S)) = replace_all_matches m u S rep"
  shows "add_rest S pos acc = ret (replace_all_matches m u S rep)"
  using add_rest_ret [OF assms(1,3), of acc] assms(2,4) by simp

text \<open>What a round leaves: the invariant further on, or the last part to add.\<close>

definition replaced :: "bool \<Rightarrow> jstr \<Rightarrow> int \<times> jstr \<Rightarrow> bool" where
  "replaced u rep = (\<lambda>(pos, acc). 0 \<le> pos \<and> acc @ part S pos (int (length S)) = replace_all_matches m u S rep)"

definition room :: "bool \<Rightarrow> jstr \<Rightarrow> bool" where
  "room u rep = (js_string S \<and> int (length (replace_all_matches m u S rep)) \<le> MAX_STRING_LENGTH)"

lemma replacing_none: "replacing u rep i pos acc \<Longrightarrow> m i = None \<Longrightarrow> replaced u rep (pos, acc)"
  by (simp add: replacing_def replaced_def matches_from_None)

lemma replacing_add:
  assumes "replacing u rep i pos acc" "m i = Some (p, e)" "room u rep"
  shows "add_part S pos p rep acc = ret (acc @ part S pos p @ rep)"
proof (rule add_part_ret)
  note r = replacing_match [OF assms(1,2)]
  show "js_string S" "0 \<le> pos" "pos \<le> p" "p \<le> int (length S)" using r assms(3) by (simp_all add: room_def)
  have "length (acc @ part S pos p @ rep) \<le> length (replace_all_matches m u S rep)"
    unfolding r(6) [symmetric] by simp
  with assms(3) show "int (length (acc @ part S pos p @ rep)) \<le> MAX_STRING_LENGTH" by (simp add: room_def)
qed

lemma replacing_next:
  assumes "replacing u rep i pos acc" "m i = Some (p, e)"
  shows "if e = p then (if step_index u S e \<le> int (length S) then replacing u rep (step_index u S e) e (acc @ part S pos p @ rep)
       else replaced u rep (e, acc @ part S pos p @ rep))
     else replacing u rep e e (acc @ part S pos p @ rep)"
proof -
  note r = replacing_match [OF assms]
  show ?thesis
  proof (cases "e = p")
    case True
    then show ?thesis
      using r step_index_less(1) [of p u S] matches_from_past [of "int (length S)" "step_index u S p"]
      by (auto simp: replacing_def replaced_def)
  next
    case False
    then show ?thesis using r by (simp add: replacing_def)
  qed
qed

text \<open>The searcher, unpacked.\<close>

lemma searcher_unpacked:
  assumes "good w" "0 \<le> i" "i \<le> int (length S)" "length S < 32767"
  shows "wp (RegExpSearcher H rx S i) (\<lambda>r w'. good w' \<and> (case m i of
      None \<Rightarrow> r = - 1
    | Some (p, e) \<Rightarrow> r \<noteq> - 1 \<and> search_position r = p \<and> search_end r = e)) never w"
proof (rule wp_mono [OF searcher [OF assms]])
  fix r w' assume r: "good w' \<and> r = (case m i of None \<Rightarrow> - 1 | Some (p, e) \<Rightarrow> p + 32768 * e)"
  show "good w' \<and> (case m i of None \<Rightarrow> r = - 1 | Some (p, e) \<Rightarrow> r \<noteq> - 1 \<and> search_position r = p \<and> search_end r = e)"
  proof (cases "m i")
    case (Some pe)
    then obtain p e where pe: "m i = Some (p, e)" by (cases pe) simp
    with matcher_okD [OF ok assms(2,3) pe] assms(2,4) search_unpack [of p e] r show ?thesis by simp
  qed (use r in simp)
qed simp

text \<open>The invariant on the variables of a loop, and what is left of the string.\<close>

definition keeps :: "bool \<Rightarrow> jstr \<Rightarrow> int \<times> int \<times> jstr \<Rightarrow> 'w \<Rightarrow> bool" where
  "keeps u rep c w = (replacing u rep (fst c) (fst (snd c)) (snd (snd c)) \<and> good w)"

definition remaining :: "int \<times> int \<times> jstr \<Rightarrow> nat" where
  "remaining c = nat (int (length S) + 1 - fst c)"

lemma keeps_next:
  assumes "replacing u rep i pos acc" "m i = Some (p, e)" "good w"
  shows "if e = p then (if step_index u S e \<le> int (length S)
         then keeps u rep (step_index u S e, e, acc @ part S pos p @ rep) w \<and> remaining (step_index u S e, e, acc @ part S pos p @ rep) < remaining (i, pos, acc)
         else replaced u rep (e, acc @ part S pos p @ rep))
     else keeps u rep (e, e, acc @ part S pos p @ rep) w \<and> remaining (e, e, acc @ part S pos p @ rep) < remaining (i, pos, acc)"
  using replacing_next [OF assms(1,2)] replacing_match [OF assms(1,2)] step_index_less(1) [of e u S] assms(3)
  by (auto simp: keeps_def remaining_def)

lemma short_round_wp:
  assumes "room u rep" "length S < 32767" "keeps u rep (i, pos, acc) w"
  shows "wp (short_round H rx S rep u (i, pos, acc)) (\<lambda>x w'. case x of
      Inl c' \<Rightarrow> keeps u rep c' w' \<and> remaining c' < remaining (i, pos, acc)
    | Inr r \<Rightarrow> replaced u rep r) never w"
proof -
  have inv: "replacing u rep i pos acc" "good w" using assms(3) by (simp_all add: keeps_def)
  have i: "0 \<le> i" "i \<le> int (length S)" using inv by (simp_all add: replacing_def)
  show ?thesis
  proof (cases "m i")
    case None
    with searcher_unpacked [OF inv(2) i assms(2)] replacing_none [OF inv(1) None] show ?thesis
      by (auto simp: short_round_def wp_simps elim!: wp_mono)
  next
    case (Some pe)
    then obtain p e where pe: "m i = Some (p, e)" by (cases pe) simp
    note r = replacing_match [OF inv(1) pe]
    have step: "next_index u S p = (ret (step_index u S p) :: ('w, int) jprog)"
      using assms(1) r i by (intro next_index_ret) (simp_all add: room_def)
    have search: "wp (RegExpSearcher H rx S i) (\<lambda>r w'. good w' \<and> r \<noteq> - 1 \<and> search_position r = p \<and> search_end r = e) never w"
      using searcher_unpacked [OF inv(2) i assms(2)] pe by simp
    show ?thesis
      unfolding short_round_def prod.case wp_bnd
    proof (rule wp_mono [OF search])
      fix r w' assume r: "good w' \<and> r \<noteq> - 1 \<and> search_position r = p \<and> search_end r = e"
      with keeps_next [OF inv(1) pe, of w'] show "wp (if r = - 1 then ret (Inr (pos, acc)) else
         let position = search_position r; lastIndex = search_end r in
         bnd (add_part S pos position rep acc) (\<lambda>acc.
         let nextSourcePosition = lastIndex in
         if lastIndex = position then
           bnd (next_index u S lastIndex) (\<lambda>lastIndex.
           ret (if int (length S) < lastIndex then Inr (nextSourcePosition, acc) else Inl (lastIndex, nextSourcePosition, acc)))
         else ret (Inl (lastIndex, nextSourcePosition, acc)))) (\<lambda>x w'. case x of
      Inl c' \<Rightarrow> keeps u rep c' w' \<and> remaining c' < remaining (i, pos, acc)
    | Inr r \<Rightarrow> replaced u rep r) never w'"
        by (cases "e = p") (simp_all add: replacing_add [OF inv(1) pe assms(1)] step wp_ret split: if_splits)
    qed simp
  qed
qed

lemma short_loop:
  assumes "room u rep" "length S < 32767" "good w" "length S + 1 < fuel"
  shows "wp (loop_fuel fuel (short_round H rx S rep u) (0, 0, [])) (\<lambda>r _. replaced u rep r) never w"
proof (rule wp_loop_fuel [where I = "keeps u rep" and v = "\<lambda>c _. remaining c"])
  fix c w assume "keeps u rep c w"
  then show "wp (short_round H rx S rep u c) (\<lambda>x w'. case x of
      Inl c' \<Rightarrow> keeps u rep c' w' \<and> remaining c' < remaining c | Inr r \<Rightarrow> replaced u rep r) never w"
    using short_round_wp [OF assms(1,2)] by (cases c) auto
qed (use assms replacing_start in \<open>simp_all add: keeps_def remaining_def\<close>)

text \<open>The general loop, with a string as the replacement.\<close>

lemma len_int32: "js_string S \<Longrightarrow> 0 \<le> i \<Longrightarrow> i \<le> int (length S) + 1 \<Longrightarrow> to_int32 i = i"
  by (rule to_int32_small) (simp_all add: js_string_def MAX_STRING_LENGTH_def)

lemma after_match_ret:
  assumes "js_string S" "0 \<le> p" "p \<le> int (length S)"
  shows "after_match u S b p = (ret (if b then (if int (length S) < step_index u S p then None else Some (step_index u S p)) else Some p) :: ('w, int option) jprog)"
proof -
  have "next_index u S p = (ret (step_index u S p) :: ('w, int) jprog)" by (rule next_index_ret) (use assms in auto)
  moreover have "to_int32 (step_index u S p) = step_index u S p"
    using step_index_len [OF assms(3), of u] step_index_less(1) [of p u S] assms by (intro len_int32) simp_all
  ultimately show ?thesis by (simp add: after_match_def)
qed

lemma is_match_reads:
  assumes "is_match H S r p e w" "0 \<le> p" "p \<le> e" "e \<le> int (length S)"
  shows "match_str H r w = (Ret (part S p e), w)" "match_index H r w = (Ret p, w)" "r \<noteq> Null"
    "\<exists>n. IntOf (Get H r (pstr ''length'')) w = (Ret n, w) \<and> 1 \<le> n" "int (length (part S p e)) = e - p"
  using assms by (auto simp: is_match_def match_str_def match_index_def StrOf_def IntOf_def run_simps part_def)

lemma global_round_wp:
  assumes "room u rep" "keeps u rep (i, pos, acc) w"
  shows "wp (global_round H S (Str rep) u src flags (rx, Plain, i, pos, acc)) (\<lambda>x w'. case x of
      Inl (rx', k', c') \<Rightarrow> rx' = rx \<and> k' = Plain \<and> keeps u rep c' w' \<and> remaining c' < remaining (i, pos, acc)
    | Inr r \<Rightarrow> replaced u rep r) never w"
proof -
  have inv: "replacing u rep i pos acc" "good w" using assms(2) by (simp_all add: keeps_def)
  have i: "0 \<le> i" "i \<le> int (length S)" "js_string S" using inv assms(1) by (simp_all add: replacing_def room_def)
  show ?thesis
  proof (cases "m i")
    case None
    with matcher [OF inv(2) i(1,2)] replacing_none [OF inv(1) None] show ?thesis
      by (auto simp: global_round_def wp_simps elim!: wp_mono)
  next
    case (Some pe)
    then obtain p e where pe: "m i = Some (p, e)" by (cases pe) simp
    note r = replacing_match [OF inv(1) pe]
    have int32: "to_int32 p = p" "to_int32 (e - p) = e - p" using r i by (simp_all add: len_int32)
    have find: "wp (RegExpMatcher H rx S i) (\<lambda>r w'. good w' \<and> is_match H S r p e w') never w"
      using matcher [OF inv(2) i(1,2)] pe by simp
    show ?thesis
      unfolding global_round_def prod.case wp_bnd
    proof (rule wp_mono [OF find])
      fix z w' assume z: "good w' \<and> is_match H S z p e w'"
      have p: "0 \<le> p" "p \<le> e" "e \<le> int (length S)" using r i by simp_all
      note reads = is_match_reads [OF conjunct2 [OF z] p]
      then obtain n where n: "IntOf (Get H z (pstr ''length'')) w' = (Ret n, w')" "1 \<le> n" by auto
      have rules: "wp (IntOf (Get H z (pstr ''length''))) Q never w' = Q n w'"
        "wp (match_str H z) Q' never w' = Q' (part S p e) w'" "wp (match_index H z) Q'' never w' = Q'' p w'" for Q Q' Q''
        by (rule wp_run, fact n reads)+
      show "wp (if z = Null then ret (Inr (pos, acc)) else
       bnd (IntOf (Get H z (pstr ''length''))) (\<lambda>n.
       sq (asrt (1 \<le> n) ''RegExpMatcher does not return an empty array'')
      (bnd (match_str H z) (\<lambda>matched.
       let matchLength = to_int32 (int (length matched)) in
       bnd (match_index H z) (\<lambda>position.
       let position = to_int32 position; lastIndex = position + matchLength in
       bnd (replacement_of H Plain z matched S position (Str rep)) (\<lambda>(replacement, k).
       bnd (add_part S pos position replacement acc) (\<lambda>acc.
       let nextSourcePosition = lastIndex in
       bnd (after_match u S (matchLength = 0) lastIndex) (\<lambda>next. case next of
         None \<Rightarrow> ret (Inr (nextSourcePosition, acc))
       | Some lastIndex \<Rightarrow>
           bnd (same_regexp H k rx src flags) (\<lambda>rx.
           ret (Inl (rx, k, lastIndex, nextSourcePosition, acc)))))))))))
        (\<lambda>x w'. case x of
      Inl (rx', k', c') \<Rightarrow> rx' = rx \<and> k' = Plain \<and> keeps u rep c' w' \<and> remaining c' < remaining (i, pos, acc)
    | Inr r \<Rightarrow> replaced u rep r) never w'"
        using reads(3) n(2) keeps_next [OF inv(1) pe conjunct1 [OF z]] after_match_ret [OF i(3), of e u] p
        by (auto simp: wp_simps rules reads(5) int32 Let_def replacement_of_def StrOf_def same_regexp_def is_code_def
            replacing_add [OF inv(1) pe assms(1)] split: if_splits)
    qed simp
  qed
qed

lemma global_loop:
  assumes "room u rep" "good w" "length S + 1 < fuel"
  shows "wp (loop_fuel fuel (global_round H S (Str rep) u src flags) (rx, Plain, 0, 0, [])) (\<lambda>r _. replaced u rep r) never w"
proof (rule wp_loop_fuel [where I = "\<lambda>(rx', k, c) w. rx' = rx \<and> k = Plain \<and> keeps u rep c w" and v = "\<lambda>(_, _, c) _. remaining c"])
  fix c :: "val \<times> replacer \<times> int \<times> int \<times> jstr" and w
  obtain rx' k i pos acc where c: "c = (rx', k, i, pos, acc)" by (cases c)
  assume "(case c of (rx', k, c) \<Rightarrow> \<lambda>w. rx' = rx \<and> k = Plain \<and> keeps u rep c w) w"
  then have k: "rx' = rx" "k = Plain" "keeps u rep (i, pos, acc) w" by (simp_all add: c)
  show "wp (global_round H S (Str rep) u src flags c) (\<lambda>x w'. case x of
      Inl c' \<Rightarrow> (case c' of (rx', k, c) \<Rightarrow> \<lambda>w. rx' = rx \<and> k = Plain \<and> keeps u rep c w) w'
        \<and> (case c' of (_, _, c) \<Rightarrow> \<lambda>_. remaining c) w' < (case c of (_, _, c) \<Rightarrow> \<lambda>_. remaining c) w
    | Inr r \<Rightarrow> replaced u rep r) never w"
    unfolding c k(1,2)
    by (rule wp_mono [OF global_round_wp [OF assms(1) k(3)]]) (auto split: sum.splits)
qed (use assms replacing_start in \<open>auto simp: keeps_def remaining_def\<close>)

lemma replaced_rest: "room u rep \<Longrightarrow> replaced u rep (pos, acc) \<Longrightarrow> add_rest S pos acc = ret (replace_all_matches m u S rep)"
  using replacing_end [of u rep pos acc] by (simp add: room_def replaced_def)

lemma RegExpGlobalReplaceShortOpt_wp:
  assumes "room (has_flag flags REGEXP_UNICODE_FLAG) rep" "good w" "length S < 32767" "length S + 1 < fuel"
  shows "wp (RegExpGlobalReplaceShortOpt H fuel rx S rep flags)
    (\<lambda>r _. r = replace_all_matches m (has_flag flags REGEXP_UNICODE_FLAG) S rep) never w"
  unfolding RegExpGlobalReplaceShortOpt_def wp_sq wp_bnd
  by (rule wp_mono [OF writable [OF assms(2)]])
    (auto intro!: wp_mono [OF short_loop [OF assms(1,3) _ assms(4)]] simp: replaced_rest [OF assms(1)] wp_ret)

lemma RegExpGlobalReplaceOpt_wp:
  assumes "room (has_flag flags REGEXP_UNICODE_FLAG) rep" "good w" "length S + 1 < fuel"
  shows "wp (RegExpGlobalReplaceOpt H fuel rx S (Str rep) flags)
    (\<lambda>r _. r = replace_all_matches m (has_flag flags REGEXP_UNICODE_FLAG) S rep) never w"
  unfolding RegExpGlobalReplaceOpt_def RegExpGlobalReplace_def wp_sq wp_bnd
  by (rule wp_mono [OF writable [OF assms(2)]])
    (auto intro!: wp_mono [OF global_loop [OF assms(1) _ assms(3)]] simp: replaced_rest [OF assms(1)] wp_ret is_code_def)

end


end
