(* ===== verification/RegExpSplitProps.thy ===== *)
theory RegExpSplitProps
  imports RegExpProps
begin

text \<open>
  \<open>@@split\<close> on its optimised path, over a matcher without captures: the array holds the parts of
  the string between the cuts, and with the matches in between they make up the string again.
\<close>

section \<open>Cuts\<close>

text \<open>The matches at which the string is cut: not an empty one at the end of the last.\<close>

function split_cuts :: "matcher \<Rightarrow> (int \<Rightarrow> int) \<Rightarrow> int \<Rightarrow> int \<Rightarrow> int \<Rightarrow> (int \<times> int) list" where
  "split_cuts m adv len p q =
     (if p < 0 \<or> q < p \<or> len \<le> q then []
      else case m q of
        None \<Rightarrow> []
      | Some (a, b) \<Rightarrow>
          if a < q \<or> b < a \<or> len \<le> a \<or> adv a \<le> a then []
          else if b = p then split_cuts m adv len p (adv a)
          else (a, b) # split_cuts m adv len b b)"
  by pat_completeness auto
termination
  by (relation "measure (\<lambda>(m, adv, len, p, q). 2 * nat (len - q) + (if p < q then 1 else 0))") auto

declare split_cuts.simps [simp del]

fun pieces_of :: "jstr \<Rightarrow> int \<Rightarrow> (int \<times> int) list \<Rightarrow> jstr list" where
  "pieces_of S p [] = [part S p (int (length S))]"
| "pieces_of S p ((a, b) # cuts) = part S p a # pieces_of S b cuts"

text \<open>Pieces and what is between them, in turn.\<close>

fun weave :: "jstr list \<Rightarrow> jstr list \<Rightarrow> jstr" where
  "weave (x # xs) (y # ys) = x @ y @ weave xs ys"
| "weave xs ys = concat xs"

definition split_list :: "matcher \<Rightarrow> bool \<Rightarrow> jstr \<Rightarrow> (int \<times> int) list" where
  "split_list m u S = split_cuts m (step_index u S) (int (length S)) 0 0"

text \<open>Cuts in order inside the string.\<close>

fun ordered_cuts :: "int \<Rightarrow> int \<Rightarrow> (int \<times> int) list \<Rightarrow> bool" where
  "ordered_cuts len p [] = (p \<le> len)"
| "ordered_cuts len p ((a, b) # cuts) = (p \<le> a \<and> a \<le> b \<and> ordered_cuts len b cuts)"

lemma ordered_le: "ordered_cuts len p cuts \<Longrightarrow> p \<le> len"
  by (induction len p cuts rule: ordered_cuts.induct) auto

lemma part_append:
  assumes "0 \<le> a" "a \<le> b" "b \<le> c"
  shows "part S a b @ part S b c = part S a c"
proof -
  obtain i j k where n: "a = int i" "b = int (i + j)" "c = int (i + j + k)"
    using assms by (metis nonneg_int_cases of_nat_add zle_iff_zadd)
  have len: "nat (int (i + j) - int i) = j" "nat (int (i + j + k) - int (i + j)) = k" "nat (int (i + j + k) - int i) = j + k"
    "nat (int (i + j)) = i + j" "nat (int i) = i"
    by simp_all
  show ?thesis unfolding n part_def len by (simp add: take_add add.commute)
qed

lemma weave_pieces:
  "ordered_cuts (int (length S)) p cuts \<Longrightarrow> 0 \<le> p \<Longrightarrow> weave (pieces_of S p cuts) (map (\<lambda>(a, b). part S a b) cuts) = part S p (int (length S))"
proof (induction S p cuts rule: pieces_of.induct)
  case (2 S p a b cuts)
  then have o: "p \<le> a" "a \<le> b" "b \<le> int (length S)" "0 \<le> p" by (auto dest: ordered_le)
  have "part S p a @ part S a b @ part S b (int (length S)) = part S p (int (length S))"
    using o by (simp add: part_append flip: append_assoc)
  with 2 o show ?case by simp
qed simp

lemma split_cuts_ordered:
  "matcher_ok len m \<Longrightarrow> p \<le> len \<Longrightarrow> ordered_cuts len p (split_cuts m adv len p q)"
proof (induction m adv len p q rule: split_cuts.induct)
  case (1 m adv len p q)
  show ?case
  proof (cases "p < 0 \<or> q < p \<or> len \<le> q \<or> m q = None")
    case True
    with 1(4) show ?thesis by (subst split_cuts.simps) auto
  next
    case False
    then obtain a b where ab: "m q = Some (a, b)" "0 \<le> q" "q \<le> len" "\<not> (p < 0 \<or> q < p \<or> len \<le> q)" by auto
    note r = matcher_okD [OF 1(3) ab(2,3,1)]
    have "b = p \<Longrightarrow> \<not> (a < q \<or> b < a \<or> len \<le> a \<or> adv a \<le> a) \<Longrightarrow> ordered_cuts len p (split_cuts m adv len p (adv a))"
      by (rule 1(1) [OF ab(4,1) refl _ _ 1(3,4)]) simp_all
    moreover have "b \<noteq> p \<Longrightarrow> \<not> (a < q \<or> b < a \<or> len \<le> a \<or> adv a \<le> a) \<Longrightarrow> ordered_cuts len b (split_cuts m adv len b b)"
      by (rule 1(2) [OF ab(4,1) refl _ _ 1(3)]) (use r in simp_all)
    ultimately show ?thesis using 1(4) ab r by (subst split_cuts.simps) simp
  qed
qed

lemma split_cuts_matches: "(a, b) \<in> set (split_cuts m adv len p q) \<Longrightarrow> \<exists>i. m i = Some (a, b)"
proof (induction m adv len p q rule: split_cuts.induct)
  case (1 m adv len p q)
  from 1(3) show ?case
    by (subst (asm) split_cuts.simps) (use 1(1,2) in \<open>auto split: option.splits if_splits\<close>)
qed

section \<open>The loop\<close>

text \<open>
  What \<open>@@split\<close> needs beyond the matcher: the regular expression takes the optimised path and is not
  sticky, its matches have no captures (\<open>single\<close>), and \<open>holds w A vs\<close> says that \<open>A\<close> is an array with the elements \<open>vs\<close>.
\<close>

locale split_engine = native_matcher H rx S m good
    for H :: "'w host" and rx :: val and S :: jstr and m :: matcher and good :: "'w \<Rightarrow> bool" +
  fixes holds :: "'w \<Rightarrow> val \<Rightarrow> val list \<Rightarrow> bool" and single :: "'w \<Rightarrow> val \<Rightarrow> bool" and flags :: int
  assumes regexp: "IsObject rx" "\<not> has_flag flags REGEXP_STICKY_FLAG" "good w \<Longrightarrow> RegExpFlags H rx w = (Ret flags, w)"
    and optimizable: "good w \<Longrightarrow>
      wp (bnd (bnd (GetBuiltinConstructor H ''RegExp'') (SpeciesConstructor H rx)) (IsRegExpSplitOptimizable H rx)) (\<lambda>b w'. b \<and> good w') never w"
    and new: "good w \<Longrightarrow> wp (ArrayLiteral H []) (\<lambda>A w'. good w' \<and> holds w' A []) never w"
    and push: "good w \<Longrightarrow> holds w A vs \<Longrightarrow> int (length vs) < 2 ^ 32 - 1 \<Longrightarrow>
      wp (define_data H A (PIdx (int (length vs))) v) (\<lambda>_ w'. good w' \<and> holds w' A (vs @ [v]) \<and> (\<forall>z. single w z \<longrightarrow> single w' z)) never w"
    and single_length: "single w z \<Longrightarrow> LengthOf H z w = (Ret 1, w)"
    and matcher_keeps: "good w \<Longrightarrow> holds w A vs \<Longrightarrow> 0 \<le> i \<Longrightarrow> i \<le> int (length S) \<Longrightarrow>
      wp (RegExpMatcher H rx S i) (\<lambda>r w'. holds w' A vs \<and> (r = Null \<or> single w' r)) never w"
begin

definition splitting :: "bool \<Rightarrow> val \<Rightarrow> int \<times> int \<times> int \<Rightarrow> 'w \<Rightarrow> bool" where
  "splitting u A = (\<lambda>(p, q, n) w. good w \<and> 0 \<le> p \<and> p \<le> q \<and> p \<le> int (length S)
     \<and> (\<exists>xs. holds w A (map Str xs) \<and> n = int (length xs) \<and> n \<le> p
       \<and> xs @ pieces_of S p (split_cuts m (step_index u S) (int (length S)) p q) = pieces_of S 0 (split_list m u S)))"

definition split_left :: "int \<times> int \<times> int \<Rightarrow> nat" where
  "split_left = (\<lambda>(p, q, n). 2 * nat (int (length S) - q) + (if p < q then 1 else 0))"

text \<open>What is left to add when the loop ends.\<close>

definition split_end :: "bool \<Rightarrow> val \<Rightarrow> (int \<times> int) option \<Rightarrow> 'w \<Rightarrow> bool" where
  "split_end u A x w = (\<exists>p n xs. x = Some (p, n) \<and> good w \<and> 0 \<le> p \<and> p \<le> int (length S) \<and> holds w A (map Str xs)
     \<and> n = int (length xs) \<and> n \<le> p \<and> xs @ [part S p (int (length S))] = pieces_of S 0 (split_list m u S))"

lemma split_cuts_none:
  "int (length S) \<le> q \<or> m q = None \<or> (\<exists>a b. m q = Some (a, b) \<and> int (length S) \<le> a) \<Longrightarrow> split_cuts m adv (int (length S)) p q = []"
  by (subst split_cuts.simps) auto

lemma splitting_end:
  assumes "splitting u A (p, q, n) w"
    and "int (length S) \<le> q \<or> m q = None \<or> (\<exists>a b. m q = Some (a, b) \<and> int (length S) \<le> a)"
  shows "split_end u A (Some (p, n)) w"
proof -
  from split_cuts_none [OF assms(2), of "step_index u S" p] assms(1) show ?thesis
    by (auto simp: splitting_def split_end_def)
qed

lemma split_cuts_some:
  assumes "0 \<le> p" "p \<le> q" "q < int (length S)" "m q = Some (a, b)" "a < int (length S)"
  shows "split_cuts m (step_index u S) (int (length S)) p q =
     (if b = p then split_cuts m (step_index u S) (int (length S)) p (step_index u S a)
      else (a, b) # split_cuts m (step_index u S) (int (length S)) b b)"
  using assms matcher_okD [OF ok _ _ assms(4)] step_index_less(1) [of a u S]
  by (subst split_cuts.simps) simp

text \<open>The two ways in which a match is found: at the end of the last one, and further on.\<close>

lemma splitting_skip:
  assumes "splitting u A (p, q, n) w" "good w'" "\<And>vs. holds w A vs \<Longrightarrow> holds w' A vs"
    and "m q = Some (a, p)" "q < int (length S)" "a < int (length S)"
  shows "splitting u A (p, step_index u S a, n) w' \<and> split_left (p, step_index u S a, n) < split_left (p, q, n)"
proof -
  have b: "0 \<le> p" "p \<le> q" using assms(1) by (auto simp: splitting_def)
  then have a: "q \<le> a" "a \<le> p" using matcher_okD [OF ok _ _ assms(4)] assms(5) by auto
  show ?thesis
    using assms split_cuts_some [OF b assms(5,4,6), of u] step_index_less(1) [of a u S] a b
    by (auto simp: splitting_def split_left_def)
qed

lemma splitting_cut:
  assumes "splitting u A (p, q, n) w" "good w'" "holds w' A (map Str xs @ [Str (part S p a)])"
    and "holds w A (map Str xs)" "n = int (length xs)" "n \<le> p"
    and "xs @ pieces_of S p (split_cuts m (step_index u S) (int (length S)) p q) = pieces_of S 0 (split_list m u S)"
    and "m q = Some (a, b)" "b \<noteq> p" "q < int (length S)" "a < int (length S)"
  shows "splitting u A (b, b, n + 1) w' \<and> split_left (b, b, n + 1) < split_left (p, q, n)"
proof -
  have p: "0 \<le> p" "p \<le> q" using assms(1) by (auto simp: splitting_def)
  then have a: "q \<le> a" "a \<le> b" "b \<le> int (length S)" using matcher_okD [OF ok _ _ assms(8)] assms(10) by auto
  have "(xs @ [part S p a]) @ pieces_of S b (split_cuts m (step_index u S) (int (length S)) b b) = pieces_of S 0 (split_list m u S)"
    using assms(7) split_cuts_some [OF p assms(10,8,11), of u] assms(9) by simp
  with assms(2,3,5,6,9) p a show ?thesis
    by (auto simp: splitting_def split_left_def intro!: exI [of _ "xs @ [part S p a]"])
qed

lemma split_match_wp:
  assumes "good w" "holds w A vs" "0 \<le> q" "q \<le> int (length S)"
  shows "wp (split_match H True rx S q) (\<lambda>x w'. good w' \<and> holds w' A vs \<and>
     (case x of
        None \<Rightarrow> m q = None \<or> (\<exists>a b. m q = Some (a, b) \<and> int (length S) \<le> a)
      | Some (z, a, b) \<Rightarrow> m q = Some (a, b) \<and> a < int (length S) \<and> z \<noteq> Null \<and> single w' z)) never w"
proof (cases "m q")
  case None
  with wp_conj [OF matcher [OF assms(1,3,4)] matcher_keeps [OF assms]] show ?thesis
    by (auto simp: split_match_def wp_simps elim!: wp_mono)
next
  case (Some ab)
  then obtain a b where ab: "m q = Some (a, b)" by (cases ab) simp
  note r = matcher_okD [OF ok assms(3,4) ab]
  have "wp (RegExpMatcher H rx S q) (\<lambda>z w'. good w' \<and> is_match H S z a b w' \<and> holds w' A vs \<and> single w' z) never w"
    by (rule wp_mono [OF wp_conj [OF matcher [OF assms(1,3,4)] matcher_keeps [OF assms]]]) (auto simp: ab is_match_def)
  then show ?thesis
    unfolding split_match_def if_True wp_bnd
  proof (rule wp_mono)
    fix z w' assume z: "good w' \<and> is_match H S z a b w' \<and> holds w' A vs \<and> single w' z"
    note reads = is_match_reads [OF conjunct1 [OF conjunct2 [OF z]]]
    have ab': "0 \<le> a" "a \<le> b" "b \<le> int (length S)" using r assms(3) by auto
    have rules: "wp (match_str H z) Q' never w' = Q' (part S a b) w'" "wp (match_index H z) Q'' never w' = Q'' a w'" for Q' Q''
      by (rule wp_run, fact reads(1,2) [OF ab'])+
    show "wp (if z = Null then ret None
        else bnd (match_index H z) (\<lambda>q. if int (length S) \<le> q then ret None
          else bnd (match_str H z) (\<lambda>m. ret (Some (z, q, q + int (length m)))))) (\<lambda>x w'. good w' \<and> holds w' A vs \<and>
     (case x of
        None \<Rightarrow> m q = None \<or> (\<exists>a b. m q = Some (a, b) \<and> int (length S) \<le> a)
      | Some (z, a, b) \<Rightarrow> m q = Some (a, b) \<and> a < int (length S) \<and> z \<noteq> Null \<and> single w' z)) never w'"
      using z reads(3,5) [OF ab'] ab by (simp add: rules wp_simps)
  qed simp
qed

lemma split_captures_none: "single w z \<Longrightarrow> split_captures H A z bound n w = (Ret (Inl n), w)"
  by (simp add: split_captures_def run_simps single_length for_up_done)

lemma split_round_wp:
  assumes "js_string S" "splitting u A (p, q, n) w"
  shows "wp (split_round H True u rx S A (2 ^ 32 - 1) (p, q, n)) (\<lambda>x w'. case x of
      Inl c' \<Rightarrow> splitting u A c' w' \<and> split_left c' < split_left (p, q, n)
    | Inr r \<Rightarrow> split_end u A r w') never w"
proof (cases "q < int (length S)")
  case False
  then show ?thesis using splitting_end [OF assms(2)] by (simp add: split_round_def wp_simps)
next
  case q: True
  obtain xs where xs: "holds w A (map Str xs)" "n = int (length xs)" "n \<le> p"
    "xs @ pieces_of S p (split_cuts m (step_index u S) (int (length S)) p q) = pieces_of S 0 (split_list m u S)"
    and p: "good w" "0 \<le> p" "p \<le> q"
    using assms(2) by (auto simp: splitting_def)
  have q': "0 \<le> q" "q \<le> int (length S)" using p q by simp_all
  have loop: "wp (case x of
         None \<Rightarrow> ret (Inr (Some (p, n)))
       | Some (z, q, e) \<Rightarrow>
           if z = Null \<or> e = p then bnd (next_index u S q) (\<lambda>q. ret (Inl (p, q, n)))
           else
             bnd (Substring S p (q - p)) (\<lambda>piece.
             sq (define_data H A (PIdx n) (Str piece))
               (if n + 1 = 2 ^ 32 - 1 then ret (Inr None)
                else
                  bnd (split_captures H A z (2 ^ 32 - 1) (n + 1)) (\<lambda>x. case x of
                    Inr _ \<Rightarrow> ret (Inr None)
                  | Inl lengthA \<Rightarrow> ret (Inl (e, e, lengthA)))))) (\<lambda>x w'. case x of
      Inl c' \<Rightarrow> splitting u A c' w' \<and> split_left c' < split_left (p, q, n)
    | Inr r \<Rightarrow> split_end u A r w') never w'"
    if w': "good w' \<and> holds w' A (map Str xs) \<and> (case x of
        None \<Rightarrow> m q = None \<or> (\<exists>a b. m q = Some (a, b) \<and> int (length S) \<le> a)
      | Some (z, a, b) \<Rightarrow> m q = Some (a, b) \<and> a < int (length S) \<and> z \<noteq> Null \<and> single w' z)" for x w'
  proof (cases x)
    case None
    have "splitting u A (p, q, n) w'" using assms(2) w' xs by (auto simp: splitting_def)
    from splitting_end [OF this] w' None show ?thesis by (simp add: wp_ret)
  next
    case (Some zab)
    then obtain z a b where x: "x = Some (z, a, b)" by (cases zab) simp
    with w' have ab: "m q = Some (a, b)" "a < int (length S)" "z \<noteq> Null" and len: "single w' z"
      and h: "good w'" "holds w' A (map Str xs)" by simp_all
    note r = matcher_okD [OF ok q' ab(1)]
    have split: "splitting u A (p, q, n) w'" using assms(2) h xs by (auto simp: splitting_def)
    show ?thesis
    proof (cases "b = p")
      case True
      have step: "next_index u S a = (ret (step_index u S a) :: ('w, int) jprog)"
        by (rule next_index_ret) (use r q' assms(1) in auto)
      show ?thesis using splitting_skip [OF split h(1) _ _ q ab(2)] ab(1) True by (simp add: x step wp_ret)
    next
      case False
      have sub: "Substring S p (a - p) = (ret (part S p a) :: ('w, jstr) jprog)"
        by (rule Substring_part) (use r p q' assms(1) in auto)
      have small: "int (length (map Str xs)) < 2 ^ 32 - 1" "n + 1 \<noteq> 2 ^ 32 - 1"
        using xs p q assms(1) by (simp_all add: js_string_def MAX_STRING_LENGTH_def)
      have cut: "splitting u A (b, b, n + 1) w'' \<and> split_left (b, b, n + 1) < split_left (p, q, n)"
        if "good w''" "holds w'' A (map Str xs @ [Str (part S p a)])" for w''
        by (rule splitting_cut [OF assms(2) that xs ab(1) False q ab(2)])
      have captures: "wp (split_captures H A z bd k) Q never w'' = Q (Inl k) w''" if "single w'' z" for Q w'' bd k
        by (rule wp_run, rule split_captures_none [OF that])
      show ?thesis
        using push [OF h small(1), of "Str (part S p a)"] ab(3) False small(2) len xs(2)
        by (auto simp: x sub wp_simps captures dest: cut elim!: wp_mono)
    qed
  qed
  show ?thesis
    unfolding split_round_def prod.case wp_bnd using q
    by (simp add: wp_bnd) (rule wp_mono [OF split_match_wp [OF p(1) xs(1) q']], use loop in auto)
qed

lemma split_loop:
  assumes "js_string S" "good w" "holds w A []" "2 * length S < fuel"
  shows "wp (loop_fuel fuel (split_round H True u rx S A (2 ^ 32 - 1)) (0, 0, 0)) (split_end u A) never w"
proof (rule wp_loop_fuel [where I = "splitting u A" and v = "\<lambda>c _. split_left c"])
  fix c w assume "splitting u A c w"
  then show "wp (split_round H True u rx S A (2 ^ 32 - 1) c) (\<lambda>x w'. case x of
      Inl c' \<Rightarrow> splitting u A c' w' \<and> split_left c' < split_left c | Inr r \<Rightarrow> split_end u A r w') never w"
    using split_round_wp [OF assms(1)] by (cases c) auto
qed (use assms in \<open>auto simp: splitting_def split_list_def split_left_def\<close>)

text \<open>The last part is added.\<close>

lemma split_finish:
  assumes "js_string S" "split_end u A x w"
  shows "wp (case x of
         None \<Rightarrow> ret A
       | Some (p, lengthA) \<Rightarrow>
           bnd (if int (length S) \<le> p then ret [] else Substring S p (int (length S) - p)) (\<lambda>piece.
           sq (define_data H A (PIdx lengthA) (Str piece)) (ret A)))
     (\<lambda>r w'. r = A \<and> holds w' A (map Str (pieces_of S 0 (split_list m u S)))) never w"
proof -
  obtain p n xs where x: "x = Some (p, n)" "good w" "0 \<le> p" "p \<le> int (length S)" "holds w A (map Str xs)" "n = int (length xs)" "n \<le> p"
    "xs @ [part S p (int (length S))] = pieces_of S 0 (split_list m u S)"
    using assms(2) by (auto simp: split_end_def)
  have piece: "(if int (length S) \<le> p then ret [] else Substring S p (int (length S) - p)) = (ret (part S p (int (length S))) :: ('w, jstr) jprog)"
    using Substring_part [OF assms(1) x(3,4)] by (auto simp: part_past)
  have "int (length (map Str xs)) < 2 ^ 32 - 1"
    using x assms(1) by (simp add: js_string_def MAX_STRING_LENGTH_def)
  from push [OF x(2,5) this, of "Str (part S p (int (length S)))"] show ?thesis
    unfolding x(1) x(8) [symmetric] by (auto simp: piece x(6) wp_simps elim!: wp_mono)
qed

lemma RegExpSplit_wp:
  assumes "js_string S" "S \<noteq> []" "good w" "2 * length S < fuel"
  shows "wp (RegExpSplit H fuel rx (Str S) Undef)
    (\<lambda>A w'. holds w' A (map Str (pieces_of S 0 (split_list m (has_flag flags REGEXP_UNICODE_FLAG) S)))) never w"
proof -
  let ?u = "has_flag flags REGEXP_UNICODE_FLAG"
  have matcher': "wp (split_matcher H True rx C) Q never w' = Q (rx, ?u) w'" if "good w'" for C Q w'
    by (rule wp_run) (simp add: split_matcher_def run_simps regexp(2) regexp(3) [OF that])
  have prelude: "wp (GetBuiltinConstructor H ''RegExp'') (\<lambda>c. wp (SpeciesConstructor H rx c)
      (\<lambda>C. wp (IsRegExpSplitOptimizable H rx C) (\<lambda>b w'. b \<and> good w') never) never) never w"
    using optimizable [OF assms(3)] by (simp add: wp_bnd)
  have rest: "wp (bnd (ArrayLiteral H []) (\<lambda>A.
       bnd (loop_fuel fuel (split_round H True ?u rx S A (2 ^ 32 - 1)) (0, 0, 0)) (\<lambda>x. case x of
         None \<Rightarrow> ret A
       | Some (p, lengthA) \<Rightarrow>
           bnd (if int (length S) \<le> p then ret [] else Substring S p (int (length S) - p)) (\<lambda>piece.
           sq (define_data H A (PIdx lengthA) (Str piece)) (ret A)))))
     (\<lambda>A w'. holds w' A (map Str (pieces_of S 0 (split_list m ?u S)))) never w'" if w': "good w'" for w'
    unfolding wp_bnd [of "ArrayLiteral H []"]
  proof (rule wp_mono [OF new [OF w']])
    fix A w'' assume "good w'' \<and> holds w'' A []"
    then show "wp (bnd (loop_fuel fuel (split_round H True ?u rx S A (2 ^ 32 - 1)) (0, 0, 0)) (\<lambda>x. case x of
         None \<Rightarrow> ret A
       | Some (p, lengthA) \<Rightarrow>
           bnd (if int (length S) \<le> p then ret [] else Substring S p (int (length S) - p)) (\<lambda>piece.
           sq (define_data H A (PIdx lengthA) (Str piece)) (ret A))))
     (\<lambda>A w'. holds w' A (map Str (pieces_of S 0 (split_list m ?u S)))) never w''"
      unfolding wp_bnd [of "loop_fuel _ _ _"]
      by (intro wp_mono [OF split_loop [OF assms(1) _ _ assms(4), of _ A ?u]])
        (auto intro!: wp_mono [OF split_finish [OF assms(1)]])
  qed simp
  have bound: "(2 :: int) ^ 32 - 1 = 4294967295" by simp
  show ?thesis
    unfolding RegExpSplit_def wp_sq wp_bnd [of "GetBuiltinConstructor _ _"] wp_bnd [of "SpeciesConstructor _ _ _"]
      wp_bnd [of "IsRegExpSplitOptimizable _ _ _"]
    using prelude assms(2) regexp(1)
    by (auto simp: RequireObject_def wp_ret wp_bnd [of "GetBuiltinConstructor _ _"] wp_bnd [of "SpeciesConstructor _ _ _"]
        wp_bnd [of "IsRegExpSplitOptimizable _ _ _"] wp_bnd [of "split_matcher _ _ _ _"] matcher' intro!: rest [unfolded bound] elim!: wp_mono)
qed

end


end
