(* ===== verification/RegExpEngine.thy ===== *)
theory RegExpEngine
  imports RegExpSplitProps JSEngine
begin

text \<open>
  The engine of \<open>JSEngine\<close> with regular expressions that are literal patterns: it keeps the
  contract of \<open>native_matcher\<close> and \<open>split_engine\<close> for every pattern and string. With it, the
  properties of replacement and of \<open>@@split\<close> at work.
\<close>

section \<open>A literal matcher\<close>

definition lit_match :: "jstr \<Rightarrow> jstr \<Rightarrow> matcher" where
  "lit_match pat S i = (let k = std_String_indexOf S pat i in if k = - 1 then None else Some (k, k + int (length pat)))"

lemma indexOf_range:
  assumes "std_String_indexOf s p i = k" "k \<noteq> - 1" "0 \<le> i" "i \<le> int (length s)"
  shows "i \<le> k" "k + int (length p) \<le> int (length s)" "part s k (k + int (length p)) = p"
proof -
  obtain j where j: "k = int j" "find (matches_at s p) [nat i..<Suc (length s)] = Some j"
    using assms by (auto simp: std_String_indexOf_def split: option.splits simp del: upt_Suc)
  then have m: "matches_at s p j" "j \<in> set [nat i..<Suc (length s)]"
    by (metis find_Some_iff, metis find_Some_iff nth_mem)
  then have "nat i \<le> j" "take (length p) (drop j s) = p" "j \<le> length s" by (auto simp: matches_at_def)
  moreover from this(2,3) have "length p \<le> length s - j" by (metis length_take length_drop min.cobounded1 min.commute)
  ultimately show "i \<le> k" "k + int (length p) \<le> int (length s)" "part s k (k + int (length p)) = p"
    using assms(3) j(1) by (simp_all add: part_def)
qed

lemma lit_match_ok: "matcher_ok (int (length S)) (lit_match pat S)"
proof -
  have "i \<le> p \<and> p \<le> e \<and> e \<le> int (length S)" if "0 \<le> i" "i \<le> int (length S)" "lit_match pat S i = Some (p, e)" for i p e
    using that indexOf_range [of S pat i p] by (auto simp: lit_match_def Let_def split: if_splits)
  then show ?thesis unfolding matcher_ok_def by blast
qed

section \<open>The objects\<close>

text \<open>Object 3 is the constructor, 4 its prototype, 5 \<open>exec\<close>, 6 the regular expression.\<close>

definition re_ctor :: jobj where
  "re_ctor = plain_obj\<lparr>props := [pstr ''prototype'' \<mapsto> Obj 4, std_species \<mapsto> Obj 3]\<rparr>"

definition re_proto :: jobj where
  "re_proto = plain_obj\<lparr>props := [pstr ''constructor'' \<mapsto> Obj 3, pstr ''exec'' \<mapsto> Obj 5]\<rparr>"

definition re_obj :: "jstr \<Rightarrow> int \<Rightarrow> val \<Rightarrow> jobj" where
  "re_obj pat flags v = plain_obj\<lparr>props := [pstr ''lastIndex'' \<mapsto> v], proto := Some 4, class_name := ''RegExp'',
     slots := (\<lambda>_. Undef)(1 := Str pat, 2 := vint flags)\<rparr>"

definition re_heap :: "jstr \<Rightarrow> int \<Rightarrow> val \<Rightarrow> jobj list" where
  "re_heap pat flags v = [plain_obj\<lparr>proto := None\<rparr>, plain_obj, plain_obj, re_ctor, re_proto, plain_obj, re_obj pat flags v]"

definition match_obj :: "jstr \<Rightarrow> int \<Rightarrow> int \<Rightarrow> jobj" where
  "match_obj S p e = plain_obj\<lparr>class_name := ''Match'',
     props := [pstr ''index'' \<mapsto> vint p, PIdx 0 \<mapsto> Str (part S p e), pstr ''length'' \<mapsto> vint 1]\<rparr>"

definition re_pattern :: "eng \<Rightarrow> val \<Rightarrow> jstr" where
  "re_pattern w v = (case v of Obj a \<Rightarrow> (case slots (heap w ! a) 1 of Str s \<Rightarrow> s | _ \<Rightarrow> []) | _ \<Rightarrow> [])"

definition re_args :: "val list \<Rightarrow> eng \<Rightarrow> (int \<times> int) option \<times> jstr" where
  "re_args args w = (case (arg args 1, int_value (arg args 2)) of
      (Str S, Some i) \<Rightarrow> (lit_match (re_pattern w (arg args 0)) S i, S)
    | _ \<Rightarrow> (None, []))"

definition re_intrinsic :: "string \<Rightarrow> val list \<Rightarrow> (eng, val) jprog" where
  "re_intrinsic name args =
     (if name = ''RegExpMatcher'' then
        bnd (gets (re_args args)) (\<lambda>(m, S). case m of
          None \<Rightarrow> ret Null
        | Some (p, e) \<Rightarrow> eng_new (match_obj S p e))
      else if name = ''RegExpSearcher'' then
        gets (\<lambda>w. case fst (re_args args w) of None \<Rightarrow> vint (- 1) | Some (p, e) \<Rightarrow> vint (p + 32768 * e))
      else if name = ''RegExpPrototypeOptimizable'' \<or> name = ''RegExpInstanceOptimizable'' then ret (Bool True)
      else throw (TypeErr name))"

definition re_engine :: "eng host" where
  "re_engine = (engine (\<lambda>_. None))\<lparr>constructible := (\<lambda>w v. v = Obj 3), intrinsic := re_intrinsic,
     builtin := (\<lambda>name. if name = ''RegExp'' then Obj 3 else if name = ''RegExp_prototype_Exec'' then Obj 5 else Obj 0)\<rparr>"

lemma re_engine_simps [simp]:
  "get_prop re_engine = eng_get" "set_prop re_engine = eng_put" "define_data re_engine = eng_put" "new_array re_engine = eng_new_array"
  "get_slot re_engine = eng_get_slot" "intrinsic re_engine = re_intrinsic" "constructible re_engine = (\<lambda>w v. v = Obj 3)"
  "has_class re_engine = (\<lambda>w c v. obj_test (\<lambda>r. class_name r = c) w v)"
  "builtin re_engine = (\<lambda>name. if name = ''RegExp'' then Obj 3 else if name = ''RegExp_prototype_Exec'' then Obj 5 else Obj 0)"
  by (simp_all add: re_engine_def)

text \<open>The states of a realm with the regular expression; arrays and match objects come after it.\<close>

definition re_good :: "jstr \<Rightarrow> int \<Rightarrow> eng \<Rightarrow> bool" where
  "re_good pat flags w = (\<exists>v tail. heap w = re_heap pat flags v @ tail)"

definition re_holds :: "eng \<Rightarrow> val \<Rightarrow> val list \<Rightarrow> bool" where
  "re_holds w A vs = (\<exists>a. A = Obj a \<and> 7 \<le> a \<and> a < length (heap w) \<and> class_name (heap w ! a) = ''Array''
     \<and> arr_len (heap w ! a) = Some (int (length vs))
     \<and> (\<forall>i. props (heap w ! a) (PIdx i) = (if 0 \<le> i \<and> i < int (length vs) then Some (vs ! nat i) else None)))"

definition re_single :: "eng \<Rightarrow> val \<Rightarrow> bool" where
  "re_single w z = (\<exists>a. z = Obj a \<and> a < length (heap w) \<and> class_name (heap w ! a) = ''Match''
     \<and> arr_len (heap w ! a) = None \<and> props (heap w ! a) (pstr ''length'') = Some (vint 1))"

section \<open>The laws\<close>

lemma re_len [simp]: "length (re_heap pat flags v) = 7"
  by (simp add: re_heap_def)

lemma re_goodD:
  assumes "re_good pat flags w"
  obtains v tail where "heap w = re_heap pat flags v @ tail"
  using assms by (auto simp: re_good_def)

lemma re_get:
  assumes "heap w = re_heap pat flags v @ tail"
  shows "eng_get (Obj 6) (pstr ''constructor'') w = (Ret (Obj 3), w)" "eng_get (Obj 3) std_species w = (Ret (Obj 3), w)"
    "eng_get (Obj 3) (pstr ''prototype'') w = (Ret (Obj 4), w)" "eng_get (Obj 4) (pstr ''exec'') w = (Ret (Obj 5), w)"
  by (simp_all add: eng_get.simps run_simps assms re_heap_def own_prop_def re_obj_def re_proto_def re_ctor_def plain_obj_def
      js_def std_species_def eval_nat_numeral)

lemma re_slots:
  assumes "re_good pat flags w"
  shows "eng_get_slot (Obj 6) 2 w = (Ret (vint flags), w)" "re_pattern w (Obj 6) = pat" "obj_test (\<lambda>r. class_name r = ''RegExp'') w (Obj 6)"
  using assms by (auto simp: re_good_def run_simps re_heap_def re_obj_def re_pattern_def nth_append eval_nat_numeral)

lemma own_lookup: "a < length h \<Longrightarrow> own_prop (h ! a) k = Some v \<Longrightarrow> lookup (length h) h a k = Some v"
  by (cases "length h") auto

lemma own_get: "a < length (heap w) \<Longrightarrow> own_prop (heap w ! a) k = Some v \<Longrightarrow> eng_get (Obj a) k w = (Ret v, w)"
  by (simp add: eng_get.simps run_simps own_lookup)

lemma re_write:
  assumes "re_good pat flags w"
  shows "wp (set_lastIndex re_engine (Obj 6) i) (\<lambda>_ w'. re_good pat flags w') never w"
proof -
  obtain v tail where h: "heap w = re_heap pat flags v @ tail" using assms by (rule re_goodD)
  have "put_own (pstr ''lastIndex'') (vint i) (re_obj pat flags v) = re_obj pat flags (vint i)"
    by (simp add: re_obj_def plain_obj_def)
  then have "heap (upd_obj 6 (put_own (pstr ''lastIndex'') (vint i)) w) = re_heap pat flags (vint i) @ tail"
    using h by (simp add: upd_obj_def re_heap_def eval_nat_numeral)
  then have "re_good pat flags (upd_obj 6 (put_own (pstr ''lastIndex'') (vint i)) w)" unfolding re_good_def by blast
  then show ?thesis by (simp add: set_lastIndex_def eng_put.simps wp_simps)
qed

lemma re_matcher:
  assumes "re_good pat flags w" "0 \<le> i" "i \<le> int (length S)"
  shows "wp (RegExpMatcher re_engine (Obj 6) S i) (\<lambda>r w'. (\<exists>rs. heap w' = heap w @ rs) \<and>
    (case lit_match pat S i of None \<Rightarrow> r = Null | Some (p, e) \<Rightarrow> is_match re_engine S r p e w' \<and> re_single w' r)) never w"
proof -
  have args: "re_args [Obj 6, Str S, vint i] w = (lit_match pat S i, S)"
    using re_slots(2) [OF assms(1)] by (simp add: re_args_def)
  show ?thesis
  proof (cases "lit_match pat S i")
    case None
    then show ?thesis by (simp add: RegExpMatcher_def re_intrinsic_def wp_simps args)
  next
    case (Some pe)
    then obtain p e where pe: "lit_match pat S i = Some (p, e)" by (cases pe) simp
    define w' where "w' = w\<lparr>heap := heap w @ [match_obj S p e]\<rparr>"
    have own: "own_prop (heap w' ! length (heap w)) k = props (match_obj S p e) k" for k
      by (simp add: w'_def own_prop_def match_obj_def plain_obj_def)
    have get: "props (match_obj S p e) k = Some v \<Longrightarrow> eng_get (Obj (length (heap w))) k w' = (Ret v, w')" for k v
      by (rule own_get) (simp add: w'_def, simp add: own)
    have "eng_get (Obj (length (heap w))) (pstr ''index'') w' = (Ret (vint p), w')"
      "eng_get (Obj (length (heap w))) (PIdx 0) w' = (Ret (Str (part S p e)), w')"
      "eng_get (Obj (length (heap w))) (pstr ''length'') w' = (Ret (vint 1), w')"
      by (simp_all add: get match_obj_def js_def)
    then have "is_match re_engine S (Obj (length (heap w))) p e w'" "re_single w' (Obj (length (heap w)))"
      by (auto simp: is_match_def re_single_def w'_def match_obj_def plain_obj_def intro!: exI [of _ 1])
    then show ?thesis
      by (auto simp: RegExpMatcher_def re_intrinsic_def wp_simps args pe eng_new_def w'_def)
  qed
qed

lemma holds_grow: "re_holds w A vs \<Longrightarrow> heap w' = heap w @ rs \<Longrightarrow> re_holds w' A vs"
  by (auto simp: re_holds_def nth_append)

lemma good_grow: "re_good pat flags w \<Longrightarrow> heap w' = heap w @ rs \<Longrightarrow> re_good pat flags w'"
  by (auto simp: re_good_def)

interpretation literal: native_matcher re_engine "Obj 6" S "lit_match pat S" "re_good pat flags" for S pat flags
proof
  show "matcher_ok (int (length S)) (lit_match pat S)" by (rule lit_match_ok)
  show "wp (set_lastIndex re_engine (Obj 6) i) (\<lambda>_ w'. re_good pat flags w') never w" if "re_good pat flags w" for w i
    by (rule re_write [OF that])
  fix w i assume g: "re_good pat flags w" and i: "0 \<le> i" "i \<le> int (length S)"
  show "wp (RegExpMatcher re_engine (Obj 6) S i) (\<lambda>r w'. re_good pat flags w' \<and>
      (case lit_match pat S i of None \<Rightarrow> r = Null | Some (p, e) \<Rightarrow> is_match re_engine S r p e w')) never w"
    by (rule wp_mono [OF re_matcher [OF g i]]) (auto intro: good_grow [OF g] split: option.splits)
  have "re_args [Obj 6, Str S, vint i] w = (lit_match pat S i, S)"
    using re_slots(2) [OF g] by (simp add: re_args_def)
  then show "wp (RegExpSearcher re_engine (Obj 6) S i) (\<lambda>r w'. re_good pat flags w' \<and>
      r = (case lit_match pat S i of None \<Rightarrow> - 1 | Some (p, e) \<Rightarrow> p + 32768 * e)) never w"
    using g int_value_vint(1) [of "- 1"]
    by (auto simp: RegExpSearcher_def NativeInt_def IntOf_def re_intrinsic_def wp_simps split: option.splits simp del: of_int_add of_int_mult)
qed

lemma re_push:
  assumes g: "re_good pat flags w" and h: "re_holds w A vs"
  shows "wp (define_data re_engine A (PIdx (int (length vs))) v)
    (\<lambda>_ w'. re_good pat flags w' \<and> re_holds w' A (vs @ [v]) \<and> (\<forall>z. re_single w z \<longrightarrow> re_single w' z)) never w"
proof -
  obtain l tail where tail: "heap w = re_heap pat flags l @ tail" using g by (rule re_goodD)
  obtain a where a: "A = Obj a" "7 \<le> a" "a < length (heap w)" "class_name (heap w ! a) = ''Array''" "arr_len (heap w ! a) = Some (int (length vs))"
    "\<And>i. props (heap w ! a) (PIdx i) = (if 0 \<le> i \<and> i < int (length vs) then Some (vs ! nat i) else None)"
    using h by (auto simp: re_holds_def)
  define w' where "w' = upd_obj a (put_own (PIdx (int (length vs))) v) w"
  have w': "heap w' = (heap w)[a := put_own (PIdx (int (length vs))) v (heap w ! a)]" by (simp add: w'_def upd_obj_def)
  then have "heap w' = re_heap pat flags l @ tail[a - 7 := put_own (PIdx (int (length vs))) v (heap w ! a)]"
    using a(2) by (simp add: tail list_update_append)
  then have "re_good pat flags w'" by (auto simp: re_good_def)
  moreover have "re_holds w' A (vs @ [v])"
    using a by (auto simp: re_holds_def w' nth_append nat_less_iff)
  moreover have "heap w' ! b = heap w ! b" if "class_name (heap w ! b) = ''Match''" for b
    using that a(4) by (cases "a = b") (simp_all add: w')
  then have "\<forall>z. re_single w z \<longrightarrow> re_single w' z"
    by (auto simp: re_single_def w')
  ultimately show ?thesis by (simp add: a(1) eng_put.simps wp_simps w'_def)
qed

lemma re_optimizable:
  assumes "re_good pat flags w"
  shows "wp (bnd (bnd (GetBuiltinConstructor re_engine ''RegExp'') (SpeciesConstructor re_engine (Obj 6))) (IsRegExpSplitOptimizable re_engine (Obj 6)))
    (\<lambda>b w'. b \<and> re_good pat flags w') never w"
proof -
  obtain v tail where h: "heap w = re_heap pat flags v @ tail" using assms by (rule re_goodD)
  note get = re_get [OF h]
  have ctor: "GetBuiltinConstructor re_engine ''RegExp'' w = (Ret (Obj 3), w)"
    by (simp add: GetBuiltinConstructor_def run_simps)
  have species: "SpeciesConstructor re_engine (Obj 6) (Obj 3) w = (Ret (Obj 3), w)"
    by (simp add: SpeciesConstructor_def run_simps get is_nullish_def IsConstructor_def)
  have "IsRegExpSplitOptimizable re_engine (Obj 6) (Obj 3) w = (Ret True, w)"
    using re_slots(3) [OF assms]
    by (simp add: IsRegExpSplitOptimizable_def IsRegExpObject_def HasClass_def run_simps ctor get re_intrinsic_def)
  with ctor species assms show ?thesis by (simp add: wp_def run_simps)
qed

lemma re_new:
  assumes "re_good pat flags w"
  shows "wp (ArrayLiteral re_engine []) (\<lambda>A w'. re_good pat flags w' \<and> re_holds w' A []) never w"
proof -
  obtain v tail where h: "heap w = re_heap pat flags v @ tail" using assms by (rule re_goodD)
  then show ?thesis
    by (auto simp: ArrayLiteral_def eng_new_array_def max_array_len_def eng_new_def wp_simps re_good_def re_holds_def array_obj_def)
qed

text \<open>For all flags but the sticky one.\<close>

lemma not_sticky: "\<not> has_flag (f AND 55) REGEXP_STICKY_FLAG"
  by (simp add: has_flag_def REGEXP_STICKY_FLAG_def and.assoc)

interpretation literal_split: split_engine re_engine "Obj 6" S "lit_match pat S" "re_good pat (f AND 55)" re_holds re_single "f AND 55" for S pat f
proof
  let ?flags = "f AND 55"
  let ?g = "re_good pat ?flags"
  show "IsObject (Obj 6)" "\<not> has_flag ?flags REGEXP_STICKY_FLAG" using not_sticky by simp_all
  show "RegExpFlags re_engine (Obj 6) w = (Ret ?flags, w)" if "?g w" for w
    using re_slots(1) [OF that] by (simp add: RegExpFlags_def REGEXP_FLAGS_SLOT_def IntOf_def run_simps)
  show "LengthOf re_engine z w = (Ret 1, w)" if z: "re_single w z" for w z
  proof -
    obtain a where a: "z = Obj a" "a < length (heap w)" "own_prop (heap w ! a) (pstr ''length'') = Some (vint 1)"
      using z by (auto simp: re_single_def own_prop_def)
    from own_get [OF a(2,3)] num_to_length_nint [of 1] show ?thesis
      by (simp add: LengthOf_def a(1) run_simps ToLength_def max_safe_def)
  qed
  fix w A i vs v assume g: "?g w"
  show "wp (ArrayLiteral re_engine []) (\<lambda>A w'. ?g w' \<and> re_holds w' A []) never w" by (rule re_new [OF g])
  assume h: "re_holds w A vs"
  show "wp (define_data re_engine A (PIdx (int (length vs))) v)
    (\<lambda>_ w'. ?g w' \<and> re_holds w' A (vs @ [v]) \<and> (\<forall>z. re_single w z \<longrightarrow> re_single w' z)) never w"
    by (rule re_push [OF g h])
  show "wp (RegExpMatcher re_engine (Obj 6) S i) (\<lambda>r w'. re_holds w' A vs \<and> (r = Null \<or> re_single w' r)) never w"
    if "0 \<le> i" "i \<le> int (length S)"
    by (rule wp_mono [OF re_matcher [OF g that]]) (auto intro: holds_grow [OF h] split: option.splits)
qed (rule re_optimizable)

section \<open>Examples\<close>

definition re_world :: "jstr \<Rightarrow> eng" where
  "re_world pat = \<lparr>heap = re_heap pat 2 (vint 0)\<rparr>"

lemma re_world_good: "re_good pat 2 (re_world pat)"
  by (auto simp: re_good_def re_world_def)

lemma flags_2: "\<not> has_flag 2 REGEXP_UNICODE_FLAG"
  by code_simp

lemma ex_split_engine: "split_engine re_engine (Obj 6) S (lit_match pat S) (re_good pat 2) re_holds re_single 2"
  using literal_split.split_engine_axioms [of S pat 2] by simp

text \<open>\<open>/b/g\<close> replaced in \<open>abcb\<close>, and \<open>abcb\<close> split at it.\<close>

lemma ex_replace: "replace_all_matches (lit_match [98] [97, 98, 99, 98]) False [97, 98, 99, 98] [120, 120] = [97, 120, 120, 99, 120, 120]"
  by code_simp


lemma ex_split: "pieces_of [97, 98, 99, 98] 0 (split_list (lit_match [98] [97, 98, 99, 98]) False [97, 98, 99, 98]) = [[97], [99], []]"
  by code_simp


end
