(* ===== verification/ObjectBuiltins.thy ===== *)
theory ObjectBuiltins
  imports ArrayBuiltins
begin

unbundle bit_operations_syntax

text \<open>
  Object.js, Reflect.js, Number.js and Promise.js: property descriptors as words of attributes, the
  lookups along the prototypes, argument lists, the tests of Numbers, \<open>finally\<close>.
\<close>

section \<open>Property keys\<close>

text \<open>\<open>TO_PROPERTY_KEY\<close> gives a string, a symbol or an integer.\<close>

fun val_key :: "val \<Rightarrow> key" where
  "val_key (Num n) = PIdx (case num_to_integer n of IFin i \<Rightarrow> i | _ \<Rightarrow> 0)"
| "val_key (Str s) = PStr s"
| "val_key (Sym n) = PSym n"
| "val_key _ = PStr []"

definition TO_PROPERTY_KEY :: "'w host \<Rightarrow> val \<Rightarrow> ('w, val) jprog" where
  "TO_PROPERTY_KEY H v = intrinsic H ''TO_PROPERTY_KEY'' [v]"

definition ToKey :: "'w host \<Rightarrow> val \<Rightarrow> ('w, key) jprog" where
  "ToKey H v = bnd (TO_PROPERTY_KEY H v) (\<lambda>k. ret (val_key k))"

text \<open>\<open>_DefineDataProperty\<close> on a value as the key.\<close>

definition DefineData :: "'w host \<Rightarrow> val \<Rightarrow> val \<Rightarrow> val \<Rightarrow> ('w, unit) jprog" where
  "DefineData H ob k v = bnd (ToKey H k) (\<lambda>k. define_data H ob k v)"

section \<open>Descriptors\<close>

definition ATTR_ENUMERABLE :: int where "ATTR_ENUMERABLE = 1"
definition ATTR_CONFIGURABLE :: int where "ATTR_CONFIGURABLE = 2"
definition ATTR_WRITABLE :: int where "ATTR_WRITABLE = 4"
definition ATTR_NONENUMERABLE :: int where "ATTR_NONENUMERABLE = 8"
definition ATTR_NONCONFIGURABLE :: int where "ATTR_NONCONFIGURABLE = 16"
definition ATTR_NONWRITABLE :: int where "ATTR_NONWRITABLE = 32"
definition DATA_DESCRIPTOR_KIND :: int where "DATA_DESCRIPTOR_KIND = 256"
definition ACCESSOR_DESCRIPTOR_KIND :: int where "ACCESSOR_DESCRIPTOR_KIND = 512"
definition PROP_DESC_ATTRS_AND_KIND_INDEX :: int where "PROP_DESC_ATTRS_AND_KIND_INDEX = 0"
definition PROP_DESC_VALUE_INDEX :: int where "PROP_DESC_VALUE_INDEX = 1"
definition PROP_DESC_GETTER_INDEX :: int where "PROP_DESC_GETTER_INDEX = 1"
definition PROP_DESC_SETTER_INDEX :: int where "PROP_DESC_SETTER_INDEX = 2"

definition DefineProperty :: "'w host \<Rightarrow> val \<Rightarrow> val \<Rightarrow> int \<Rightarrow> val \<Rightarrow> val \<Rightarrow> bool \<Rightarrow> ('w, val) jprog" where
  "DefineProperty H ob k attrs valueOrGetter setter strict =
     intrinsic H ''_DefineProperty'' [ob, k, vint attrs, valueOrGetter, setter, Bool strict]"

text \<open>The native part gives nothing, or an array with the attributes and what the descriptor holds.\<close>

definition GetOwnPropertyDescriptorToArray :: "'w host \<Rightarrow> val \<Rightarrow> val \<Rightarrow> ('w, val) jprog" where
  "GetOwnPropertyDescriptorToArray H ob k = intrinsic H ''GetOwnPropertyDescriptorToArray'' [ob, k]"

definition desc_attrs :: "'w host \<Rightarrow> val \<Rightarrow> ('w, int) jprog" where
  "desc_attrs H desc = IntOf (Get H desc (PIdx PROP_DESC_ATTRS_AND_KIND_INDEX))"

definition flag_val :: "int \<Rightarrow> int \<Rightarrow> val" where
  "flag_val attrs f = Bool (attrs AND f \<noteq> 0)"

definition ObjectGetOwnPropertyDescriptor :: "'w host \<Rightarrow> val \<Rightarrow> val \<Rightarrow> ('w, val) jprog" where
  "ObjectGetOwnPropertyDescriptor H ob propertyKey =
     bnd (GetOwnPropertyDescriptorToArray H ob propertyKey) (\<lambda>desc.
     if \<not> truthy desc then ret Undef
     else
       bnd (desc_attrs H desc) (\<lambda>attrs.
       if attrs AND DATA_DESCRIPTOR_KIND \<noteq> 0 then
         bnd (Get H desc (PIdx PROP_DESC_VALUE_INDEX)) (\<lambda>value.
         ObjectLiteral H [(pstr ''value'', value), (pstr ''writable'', flag_val attrs ATTR_WRITABLE),
           (pstr ''enumerable'', flag_val attrs ATTR_ENUMERABLE), (pstr ''configurable'', flag_val attrs ATTR_CONFIGURABLE)])
       else
         sq (asrt (attrs AND ACCESSOR_DESCRIPTOR_KIND \<noteq> 0) ''expected accessor property descriptor'')
        (bnd (Get H desc (PIdx PROP_DESC_GETTER_INDEX)) (\<lambda>getter.
         bnd (Get H desc (PIdx PROP_DESC_SETTER_INDEX)) (\<lambda>setter.
         ObjectLiteral H [(pstr ''get'', getter), (pstr ''set'', setter),
           (pstr ''enumerable'', flag_val attrs ATTR_ENUMERABLE), (pstr ''configurable'', flag_val attrs ATTR_CONFIGURABLE)])))))"

definition ObjectGetOwnPropertyDescriptors :: "'w host \<Rightarrow> val \<Rightarrow> ('w, val) jprog" where
  "ObjectGetOwnPropertyDescriptors H ob =
     bnd (ToObject H ob) (\<lambda>obj.
     bnd (intrinsic H ''std_Reflect_ownKeys'' [obj]) (\<lambda>keys.
     bnd (ObjectLiteral H []) (\<lambda>descriptors.
     bnd (IntOf (Get H keys (pstr ''length''))) (\<lambda>len.
     sq (for_each 0 len (\<lambda>index.
           bnd (Get H keys (PIdx index)) (\<lambda>k.
           bnd (ObjectGetOwnPropertyDescriptor H obj k) (\<lambda>desc.
           if desc \<noteq> Undef then DefineData H descriptors k desc else ret ()))))
        (ret descriptors)))))"

text \<open>\<open>ToPropertyDescriptor\<close>: a flag that may be absent, and an accessor function that may be absent.\<close>

definition read_flag :: "'w host \<Rightarrow> val \<Rightarrow> string \<Rightarrow> int \<Rightarrow> int \<Rightarrow> int \<Rightarrow> ('w, int) jprog" where
  "read_flag H attributes name yes no attrs =
     bnd (has_prop H attributes (pstr name)) (\<lambda>there.
     if there then bnd (Get H attributes (pstr name)) (\<lambda>v. ret (attrs OR (if truthy v then yes else no)))
     else ret attrs)"

definition read_value :: "'w host \<Rightarrow> val \<Rightarrow> int \<Rightarrow> ('w, int \<times> val option) jprog" where
  "read_value H attributes attrs =
     bnd (has_prop H attributes (pstr ''value'')) (\<lambda>there.
     if there then bnd (Get H attributes (pstr ''value'')) (\<lambda>v. ret (attrs OR DATA_DESCRIPTOR_KIND, Some v))
     else ret (attrs, None))"

definition read_writable :: "'w host \<Rightarrow> val \<Rightarrow> int \<Rightarrow> ('w, int) jprog" where
  "read_writable H attributes attrs =
     bnd (has_prop H attributes (pstr ''writable'')) (\<lambda>there.
     if there then
       bnd (Get H attributes (pstr ''writable'')) (\<lambda>v.
       ret ((attrs OR DATA_DESCRIPTOR_KIND) OR (if truthy v then ATTR_WRITABLE else ATTR_NONWRITABLE)))
     else ret attrs)"

definition read_accessor :: "'w host \<Rightarrow> val \<Rightarrow> string \<Rightarrow> int \<Rightarrow> ('w, int \<times> val) jprog" where
  "read_accessor H attributes name attrs =
     bnd (has_prop H attributes (pstr name)) (\<lambda>there.
     if there then
       bnd (Get H attributes (pstr name)) (\<lambda>f.
       bnd (IsCallable H f) (\<lambda>c.
       if \<not> c \<and> f \<noteq> Undef then throw (TypeErr ''JSMSG_BAD_GET_SET_FIELD'')
       else ret (attrs OR ACCESSOR_DESCRIPTOR_KIND, f)))
     else ret (attrs, Null))"

text \<open>Step 4, with the fields that are there.\<close>

definition define_with :: "'w host \<Rightarrow> val \<Rightarrow> val \<Rightarrow> bool \<Rightarrow> int \<Rightarrow> val option \<Rightarrow> val \<Rightarrow> val \<Rightarrow> ('w, val) jprog" where
  "define_with H ob propertyKey strict attrs value getter setter =
     (if attrs AND ACCESSOR_DESCRIPTOR_KIND \<noteq> 0 then
        if attrs AND DATA_DESCRIPTOR_KIND \<noteq> 0 then throw (TypeErr ''JSMSG_INVALID_DESCRIPTOR'')
        else DefineProperty H ob propertyKey attrs getter setter strict
      else case value of
        Some v \<Rightarrow>
          if strict \<and> attrs AND (ATTR_ENUMERABLE OR ATTR_CONFIGURABLE OR ATTR_WRITABLE) = (ATTR_ENUMERABLE OR ATTR_CONFIGURABLE OR ATTR_WRITABLE)
          then sq (define_data H ob (val_key propertyKey) v) (ret (Bool True))
          else DefineProperty H ob propertyKey attrs v Null strict
      | None \<Rightarrow> DefineProperty H ob propertyKey attrs Undef Undef strict)"

definition ObjectOrReflectDefineProperty :: "'w host \<Rightarrow> val \<Rightarrow> val \<Rightarrow> val \<Rightarrow> bool \<Rightarrow> ('w, val) jprog" where
  "ObjectOrReflectDefineProperty H ob propertyKey attributes strict =
     (if \<not> IsObject ob then throw (TypeErr ''JSMSG_OBJECT_REQUIRED'')
      else
        bnd (TO_PROPERTY_KEY H propertyKey) (\<lambda>propertyKey.
        if \<not> IsObject attributes then throw (TypeErr ''JSMSG_OBJECT_REQUIRED'')
        else
          bnd (read_flag H attributes ''enumerable'' ATTR_ENUMERABLE ATTR_NONENUMERABLE 0) (\<lambda>attrs.
          bnd (read_flag H attributes ''configurable'' ATTR_CONFIGURABLE ATTR_NONCONFIGURABLE attrs) (\<lambda>attrs.
          bnd (read_value H attributes attrs) (\<lambda>(attrs, value).
          bnd (read_writable H attributes attrs) (\<lambda>attrs.
          bnd (read_accessor H attributes ''get'' attrs) (\<lambda>(attrs, getter).
          bnd (read_accessor H attributes ''set'' attrs) (\<lambda>(attrs, setter).
          define_with H ob propertyKey strict attrs value getter setter))))))))"

definition ObjectDefineProperty :: "'w host \<Rightarrow> val \<Rightarrow> val \<Rightarrow> val \<Rightarrow> ('w, val) jprog" where
  "ObjectDefineProperty H ob propertyKey attributes =
     bnd (ObjectOrReflectDefineProperty H ob propertyKey attributes True) (\<lambda>r. ret (if \<not> truthy r then Null else ob))"

definition Reflect_defineProperty :: "'w host \<Rightarrow> val \<Rightarrow> val \<Rightarrow> val \<Rightarrow> ('w, val) jprog" where
  "Reflect_defineProperty H ob propertyKey attributes = ObjectOrReflectDefineProperty H ob propertyKey attributes False"

definition Reflect_getOwnPropertyDescriptor :: "'w host \<Rightarrow> val \<Rightarrow> val \<Rightarrow> ('w, val) jprog" where
  "Reflect_getOwnPropertyDescriptor H target propertyKey =
     (if \<not> IsObject target then throw (TypeErr ''JSMSG_OBJECT_REQUIRED'') else ObjectGetOwnPropertyDescriptor H target propertyKey)"

section \<open>The rest of Object.js\<close>

definition ObjectGetPrototypeOf :: "'w host \<Rightarrow> val \<Rightarrow> ('w, val) jprog" where
  "ObjectGetPrototypeOf H ob = bnd (ToObject H ob) (\<lambda>ob. intrinsic H ''std_Reflect_getPrototypeOf'' [ob])"

definition ObjectIsExtensible :: "'w host \<Rightarrow> val \<Rightarrow> ('w, val) jprog" where
  "ObjectIsExtensible H ob = (if IsObject ob then intrinsic H ''std_Reflect_isExtensible'' [ob] else ret (Bool False))"

definition Object_toLocaleString :: "'w host \<Rightarrow> val \<Rightarrow> ('w, val) jprog" where
  "Object_toLocaleString H this = bnd (Get H this (pstr ''toString'')) (\<lambda>f. Call H f this [])"

definition Object_valueOf :: "'w host \<Rightarrow> val \<Rightarrow> ('w, val) jprog" where
  "Object_valueOf H this = ToObject H this"

definition Object_hasOwnProperty :: "'w host \<Rightarrow> val \<Rightarrow> val \<Rightarrow> ('w, val) jprog" where
  "Object_hasOwnProperty H this V = intrinsic H ''hasOwn'' [V, this]"

definition ObjectProtoGetter :: "'w host \<Rightarrow> val \<Rightarrow> ('w, val) jprog" where
  "ObjectProtoGetter H this = bnd (ToObject H this) (\<lambda>ob. intrinsic H ''std_Reflect_getPrototypeOf'' [ob])"

definition ObjectProtoSetter :: "'w host \<Rightarrow> val \<Rightarrow> val \<Rightarrow> ('w, val) jprog" where
  "ObjectProtoSetter H this p = intrinsic H ''std_Object_setProto'' [this, p]"

definition ACCESSOR_ATTRS :: int where
  "ACCESSOR_ATTRS = ACCESSOR_DESCRIPTOR_KIND OR ATTR_ENUMERABLE OR ATTR_CONFIGURABLE"

definition ObjectDefineSetter :: "'w host \<Rightarrow> val \<Rightarrow> val \<Rightarrow> val \<Rightarrow> ('w, val) jprog" where
  "ObjectDefineSetter H this name setter =
     bnd (ToObject H this) (\<lambda>object.
     bnd (IsCallable H setter) (\<lambda>c.
     if \<not> c then throw (TypeErr ''JSMSG_BAD_GETTER_OR_SETTER'')
     else bnd (TO_PROPERTY_KEY H name) (\<lambda>k. sq (DefineProperty H object k ACCESSOR_ATTRS Null setter True) (ret Undef))))"

definition ObjectDefineGetter :: "'w host \<Rightarrow> val \<Rightarrow> val \<Rightarrow> val \<Rightarrow> ('w, val) jprog" where
  "ObjectDefineGetter H this name getter =
     bnd (ToObject H this) (\<lambda>object.
     bnd (IsCallable H getter) (\<lambda>c.
     if \<not> c then throw (TypeErr ''JSMSG_BAD_GETTER_OR_SETTER'')
     else bnd (TO_PROPERTY_KEY H name) (\<lambda>k. sq (DefineProperty H object k ACCESSOR_ATTRS getter Null True) (ret Undef))))"

text \<open>The walk along the prototypes may not end when proxies are among them.\<close>

definition lookup_step :: "'w host \<Rightarrow> val \<Rightarrow> int \<Rightarrow> val \<Rightarrow> ('w, val + val) jprog" where
  "lookup_step H k field object =
     bnd (GetOwnPropertyDescriptorToArray H object k) (\<lambda>desc.
     if truthy desc then
       bnd (desc_attrs H desc) (\<lambda>attrs.
       if attrs AND ACCESSOR_DESCRIPTOR_KIND \<noteq> 0 then bnd (Get H desc (PIdx field)) (\<lambda>f. ret (Inr f))
       else ret (Inr Undef))
     else
       bnd (intrinsic H ''std_Reflect_getPrototypeOf'' [object]) (\<lambda>object.
       ret (if object \<noteq> Null then Inl object else Inr Undef)))"

definition ObjectLookupSetter :: "'w host \<Rightarrow> nat \<Rightarrow> val \<Rightarrow> val \<Rightarrow> ('w, val) jprog" where
  "ObjectLookupSetter H fuel this name =
     bnd (ToObject H this) (\<lambda>object. bnd (TO_PROPERTY_KEY H name) (\<lambda>k.
     loop_fuel fuel (lookup_step H k PROP_DESC_SETTER_INDEX) object))"

definition ObjectLookupGetter :: "'w host \<Rightarrow> nat \<Rightarrow> val \<Rightarrow> val \<Rightarrow> ('w, val) jprog" where
  "ObjectLookupGetter H fuel this name =
     bnd (ToObject H this) (\<lambda>object. bnd (TO_PROPERTY_KEY H name) (\<lambda>k.
     loop_fuel fuel (lookup_step H k PROP_DESC_GETTER_INDEX) object))"

text \<open>The iterator of an object, as \<open>allowContentIter\<close> gets it.\<close>

definition ContentIter :: "'w host \<Rightarrow> val \<Rightarrow> ('w, val) jprog" where
  "ContentIter H iterable = bnd (Get H iterable std_iterator) (\<lambda>f. Call H f iterable [])"

definition ObjectFromEntries :: "'w host \<Rightarrow> nat \<Rightarrow> val \<Rightarrow> ('w, val) jprog" where
  "ObjectFromEntries H fuel iter =
     bnd (ObjectLiteral H []) (\<lambda>obj.
     sq (ForOf H fuel (ContentIter H iter) (\<lambda>pair _.
           if \<not> IsObject pair then throw (TypeErr ''JSMSG_INVALID_MAP_ITERABLE'')
           else
             bnd (Get H pair (PIdx 0)) (\<lambda>k. bnd (Get H pair (PIdx 1)) (\<lambda>v. DefineData H obj k v))) ())
        (ret obj))"

section \<open>The rest of Reflect.js\<close>

definition MAX_ARGS_LENGTH :: int where "MAX_ARGS_LENGTH = 500000"

definition CreateListFromArrayLikeForArgs :: "'w host \<Rightarrow> val \<Rightarrow> ('w, val) jprog" where
  "CreateListFromArrayLikeForArgs H obj =
     sq (asrt (IsObject obj) ''object must be passed to CreateListFromArrayLikeForArgs'')
    (bnd (LengthOf H obj) (\<lambda>len.
     if MAX_ARGS_LENGTH < len then throw (RangeErr ''JSMSG_TOO_MANY_ARGUMENTS'')
     else
       bnd (new_array H len) (\<lambda>list.
       sq (for_each 0 len (\<lambda>i. bnd (Get H obj (PIdx i)) (define_data H list (PIdx i)))) (ret list))))"

definition Reflect_apply :: "'w host \<Rightarrow> val \<Rightarrow> val \<Rightarrow> val \<Rightarrow> ('w, val) jprog" where
  "Reflect_apply H target thisArgument argumentsList =
     bnd (IsCallable H target) (\<lambda>c.
     if \<not> c then throw (TypeErr ''JSMSG_NOT_FUNCTION'')
     else if \<not> IsObject argumentsList then throw (TypeErr ''JSMSG_OBJECT_REQUIRED_ARG'')
     else intrinsic H ''std_Function_apply'' [target, thisArgument, argumentsList])"

text \<open>\<open>constructContentFunction\<close> takes the constructor, \<open>new.target\<close> and the arguments.\<close>

definition constructContentFunction :: "'w host \<Rightarrow> val \<Rightarrow> val \<Rightarrow> val list \<Rightarrow> ('w, val) jprog" where
  "constructContentFunction H target newTarget args = intrinsic H ''constructContentFunction'' (target # newTarget # args)"

definition Reflect_construct :: "'w host \<Rightarrow> val list \<Rightarrow> ('w, val) jprog" where
  "Reflect_construct H arguments =
     (let target = arg arguments 0; argumentsList = arg arguments 1 in
      bnd (IsConstructor H target) (\<lambda>c.
      if \<not> c then throw (TypeErr ''JSMSG_NOT_CONSTRUCTOR'')
      else
        bnd (if 2 < length arguments then
               bnd (IsConstructor H (arg arguments 2)) (\<lambda>c.
               if \<not> c then throw (TypeErr ''JSMSG_NOT_CONSTRUCTOR'') else ret (arg arguments 2))
             else ret target) (\<lambda>newTarget.
        if \<not> IsObject argumentsList then throw (TypeErr ''JSMSG_OBJECT_REQUIRED_ARG'')
        else
          bnd (intrinsic H ''IsPackedArray'' [argumentsList]) (\<lambda>packed.
          bnd (if truthy packed then bnd (IntOf (Get H argumentsList (pstr ''length''))) (\<lambda>n. ret (n \<le> MAX_ARGS_LENGTH)) else ret False) (\<lambda>short.
          bnd (if short then ret argumentsList else CreateListFromArrayLikeForArgs H argumentsList) (\<lambda>args.
          bnd (IntOf (Get H args (pstr ''length''))) (\<lambda>n.
          if n \<le> 12 then bnd (SPREAD H args n) (constructContentFunction H target newTarget)
          else intrinsic H ''_ConstructFunction'' [target, newTarget, args])))))))"

definition Reflect_has :: "'w host \<Rightarrow> val \<Rightarrow> val \<Rightarrow> ('w, bool) jprog" where
  "Reflect_has H target propertyKey =
     (if \<not> IsObject target then throw (TypeErr ''JSMSG_OBJECT_REQUIRED_ARG'')
      else bnd (ToKey H propertyKey) (has_prop H target))"

definition Reflect_get :: "'w host \<Rightarrow> val list \<Rightarrow> ('w, val) jprog" where
  "Reflect_get H arguments =
     (let target = arg arguments 0; propertyKey = arg arguments 1 in
      if \<not> IsObject target then throw (TypeErr ''JSMSG_OBJECT_REQUIRED_ARG'')
      else if 2 < length arguments then intrinsic H ''getPropertySuper'' [target, propertyKey, arg arguments 2]
      else bnd (ToKey H propertyKey) (Get H target))"

section \<open>Number.js\<close>

text \<open>\<open>x - x\<close>, and \<open>std_Math_floor(std_Math_abs(x))\<close> of a Number.\<close>

fun num_self_minus :: "num \<Rightarrow> num" where
  "num_self_minus (Fin r) = Fin 0"
| "num_self_minus NZero = Fin 0"
| "num_self_minus _ = NaN"

fun num_abs :: "num \<Rightarrow> num" where
  "num_abs (Fin r) = Fin \<bar>r\<bar>"
| "num_abs NZero = Fin 0"
| "num_abs NInf = PInf"
| "num_abs n = n"

fun num_floor :: "num \<Rightarrow> num" where
  "num_floor (Fin r) = nint (floor r)"
| "num_floor n = n"

text \<open>\<open>x - y\<close> for an \<open>x\<close> that is not negative and its floor.\<close>

fun num_minus :: "num \<Rightarrow> num \<Rightarrow> num" where
  "num_minus (Fin r) (Fin s) = Fin (r - s)"
| "num_minus _ _ = NaN"

definition Number_isFinite :: "val \<Rightarrow> bool" where
  "Number_isFinite v = (case v of Num n \<Rightarrow> num_eq (num_self_minus n) (Fin 0) | _ \<Rightarrow> False)"

definition Number_isNaN :: "val \<Rightarrow> bool" where
  "Number_isNaN v = (case v of Num n \<Rightarrow> \<not> num_eq n n | _ \<Rightarrow> False)"

definition Number_isInteger :: "val \<Rightarrow> bool" where
  "Number_isInteger v = (case v of
      Num n \<Rightarrow>
        if num_eq n (nint (- (2 ^ 31))) then True
        else
          let absNumber = num_abs n; integer = num_floor absNumber in
          if \<not> num_eq (num_minus absNumber integer) (Fin 0) then False else True
    | _ \<Rightarrow> False)"

definition Number_isSafeInteger :: "val \<Rightarrow> bool" where
  "Number_isSafeInteger v = (case v of
      Num n \<Rightarrow>
        if num_eq n (nint (- (2 ^ 31))) then True
        else
          let absNumber = num_abs n; integer = num_floor absNumber in
          if \<not> num_eq (num_minus absNumber integer) (Fin 0) then False
          else if num_le integer (nint (2 ^ 53 - 1)) then True else False
    | _ \<Rightarrow> False)"

definition Global_isNaN :: "'w host \<Rightarrow> val \<Rightarrow> ('w, bool) jprog" where
  "Global_isNaN H v = bnd (ToNumber H v) (\<lambda>n. ret (Number_isNaN (Num n)))"

definition Global_isFinite :: "'w host \<Rightarrow> val \<Rightarrow> ('w, bool) jprog" where
  "Global_isFinite H v = bnd (ToNumber H v) (\<lambda>n. ret (Number_isFinite (Num n)))"

section \<open>Promise.js\<close>

text \<open>
  The functions that \<open>finally\<close> makes are closures: the engine makes function objects for them
  (\<open>lambda\<close>), and calls \<open>run_closure\<close> when they are called. What they run depends on the variables they close over.
\<close>

datatype closure =
    ThenFinally (on_finally: val) (ctor: val)
  | CatchFinally (on_finally: val) (ctor: val)
  | ReturnValue val
  | ThrowReason val

definition run_closure :: "'w host \<Rightarrow> (closure \<Rightarrow> ('w, val) jprog) \<Rightarrow> closure \<Rightarrow> val \<Rightarrow> ('w, val) jprog" where
  "run_closure H lambda c x = (case c of
      ThenFinally onFinally C \<Rightarrow>
        bnd (Call H onFinally Undef []) (\<lambda>result.
        bnd (intrinsic H ''PromiseResolve'' [C, result]) (\<lambda>promise.
        bnd (Get H promise (pstr ''then'')) (\<lambda>f.
        bnd (lambda (ReturnValue x)) (\<lambda>g. Call H f promise [g]))))
    | CatchFinally onFinally C \<Rightarrow>
        bnd (Call H onFinally Undef []) (\<lambda>result.
        bnd (intrinsic H ''PromiseResolve'' [C, result]) (\<lambda>promise.
        bnd (Get H promise (pstr ''then'')) (\<lambda>f.
        bnd (lambda (ThrowReason x)) (\<lambda>g. Call H f promise [g]))))
    | ReturnValue value \<Rightarrow> ret value
    | ThrowReason reason \<Rightarrow> throw (Thrown reason))"

definition Promise_finally :: "'w host \<Rightarrow> (closure \<Rightarrow> ('w, val) jprog) \<Rightarrow> val \<Rightarrow> val \<Rightarrow> ('w, val) jprog" where
  "Promise_finally H lambda promise onFinally =
     (if \<not> IsObject promise then throw (TypeErr ''JSMSG_INCOMPATIBLE_PROTO'')
      else
        bnd (GetBuiltinConstructor H ''Promise'') (\<lambda>ctor.
        bnd (SpeciesConstructor H promise ctor) (\<lambda>C.
        bnd (IsConstructor H C) (\<lambda>ok.
        sq (asrt ok ''SpeciesConstructor returns a constructor function'')
       (bnd (IsCallable H onFinally) (\<lambda>c.
        bnd (if \<not> c then ret (onFinally, onFinally)
             else
               bnd (lambda (ThenFinally onFinally C)) (\<lambda>t.
               bnd (lambda (CatchFinally onFinally C)) (\<lambda>r. ret (t, r)))) (\<lambda>(thenFinally, catchFinally).
        bnd (Get H promise (pstr ''then'')) (\<lambda>f. Call H f promise [thenFinally, catchFinally]))))))))"

end
