(* ===== verification/ObjectProps.thy ===== *)
theory ObjectProps
  imports ObjectBuiltins BufferSafety
begin

unbundle bit_operations_syntax

text \<open>
  The attribute words of Object.js: what \<open>ToPropertyDescriptor\<close> collects, field by field, is a word that the native
  \<open>_DefineProperty\<close> accepts. The tests of Number.js agree with the numbers they speak about.
\<close>

section \<open>Well-formed attribute words\<close>

text \<open>No flag with its negation, not both kinds, a writable flag only in a data descriptor, no other bit.\<close>

definition attrs_ok :: "int \<Rightarrow> bool" where
  "attrs_ok a \<longleftrightarrow>
     \<not> (a AND ATTR_ENUMERABLE \<noteq> 0 \<and> a AND ATTR_NONENUMERABLE \<noteq> 0)
   \<and> \<not> (a AND ATTR_CONFIGURABLE \<noteq> 0 \<and> a AND ATTR_NONCONFIGURABLE \<noteq> 0)
   \<and> \<not> (a AND ATTR_WRITABLE \<noteq> 0 \<and> a AND ATTR_NONWRITABLE \<noteq> 0)
   \<and> \<not> (a AND DATA_DESCRIPTOR_KIND \<noteq> 0 \<and> a AND ACCESSOR_DESCRIPTOR_KIND \<noteq> 0)
   \<and> (a AND (ATTR_WRITABLE OR ATTR_NONWRITABLE) \<noteq> 0 \<longrightarrow> a AND DATA_DESCRIPTOR_KIND \<noteq> 0)
   \<and> 0 \<le> a \<and> a AND 831 = a"

text \<open>What goes with the word: functions or nothing in an accessor descriptor; \<open>null\<close> marks that there is a value.\<close>

definition desc_ok :: "'w host \<Rightarrow> val list \<Rightarrow> 'w \<Rightarrow> bool" where
  "desc_ok H args w = (case args of
      [ob, k, attributes, valueOrGetter, setter, strict] \<Rightarrow>
        IsObject ob \<and> (\<exists>b. strict = Bool b) \<and>
        (case int_value attributes of
           Some a \<Rightarrow> attrs_ok a \<and>
             (if a AND ACCESSOR_DESCRIPTOR_KIND \<noteq> 0 then valueOrGetter \<noteq> Null \<or> setter \<noteq> Null
              else (setter = Null \<and> a AND DATA_DESCRIPTOR_KIND \<noteq> 0) \<or> (setter = Undef \<and> valueOrGetter = Undef))
         | None \<Rightarrow> False)
    | _ \<Rightarrow> False)"

text \<open>The words that come about, as one from each field; each field adds one of few words.\<close>

lemmas attr_defs = ATTR_ENUMERABLE_def ATTR_NONENUMERABLE_def ATTR_CONFIGURABLE_def ATTR_NONCONFIGURABLE_def
  ATTR_WRITABLE_def ATTR_NONWRITABLE_def DATA_DESCRIPTOR_KIND_def ACCESSOR_DESCRIPTOR_KIND_def

definition words :: "int list" where
  "words = concat (map (\<lambda>e. concat (map (\<lambda>c. map (\<lambda>v. (e OR c) OR v) [0, 256]) [0, 2, 16])) [0, 1, 8])"

definition words_writable :: "int list" where
  "words_writable = concat (map (\<lambda>a. [a, (a OR 256) OR 4, (a OR 256) OR 32]) words)"

definition words_all :: "int list" where
  "words_all = concat (map (\<lambda>a. [a, a OR 512]) words_writable)"

lemma words_all_ok: "\<forall>a\<in>set words_all. (a AND 512 \<noteq> 0 \<longrightarrow> a AND 256 = 0) \<longrightarrow> attrs_ok a"
  unfolding list_all_iff [symmetric] by code_simp

lemma words_accessor: "\<forall>a\<in>set words_writable. a AND 512 = 0"
  unfolding list_all_iff [symmetric] by code_simp

lemma words_accessor_twice: "\<forall>a\<in>set words_all. a OR 512 \<in> set words_all"
proof
  fix a assume "a \<in> set words_all"
  then obtain b where "b \<in> set words_writable" "a = b \<or> a = b OR 512" by (auto simp: words_all_def)
  moreover have "(b OR 512) OR 512 = b OR 512" by (simp add: or.assoc)
  ultimately show "a OR 512 \<in> set words_all" by (auto simp: words_all_def)
qed

lemma or_keeps: "(a::int) AND c \<noteq> 0 \<Longrightarrow> (a OR b) AND c \<noteq> 0"
  by (simp add: bit.conj_disj_distrib2 or_eq_0_iff)

section \<open>Field by field\<close>

lemma read_flag_wlp: "wlp (read_flag H attributes name yes no a) (\<lambda>r _. r = a \<or> r = a OR yes \<or> r = a OR no) w"
  unfolding read_flag_def by (auto intro!: wlp_any simp: wlp_ret)

lemma read_value_wlp:
  "wlp (read_value H attributes a) (\<lambda>(r, v) _. (v = None \<and> r = a) \<or> (v \<noteq> None \<and> r = a OR DATA_DESCRIPTOR_KIND)) w"
  unfolding read_value_def by (auto intro!: wlp_any simp: wlp_ret)

lemma read_writable_wlp: "wlp (read_writable H attributes a)
   (\<lambda>r _. r = a \<or> r = (a OR DATA_DESCRIPTOR_KIND) OR ATTR_WRITABLE \<or> r = (a OR DATA_DESCRIPTOR_KIND) OR ATTR_NONWRITABLE) w"
  unfolding read_writable_def by (auto intro!: wlp_any simp: wlp_ret)

lemma read_accessor_wlp: "wlp (read_accessor H attributes name a)
   (\<lambda>(r, f) _. (f = Null \<and> r = a) \<or> (f \<noteq> Null \<and> r = a OR ACCESSOR_DESCRIPTOR_KIND)) w"
  unfolding read_accessor_def IsCallable_def by (rule wlp_any) (auto intro!: wlp_any simp: wlp_simps cong: if_cong simp: wlp_def gets_run)

section \<open>What reaches the native function\<close>

lemma guard_definitions [simp]:
  "has_prop (guard_native H n ok) = has_prop H" "define_data (guard_native H n ok) = define_data H"
  by (simp_all add: guard_native_def)

lemma guard_readers [simp]:
  "n \<noteq> ''TO_PROPERTY_KEY'' \<Longrightarrow> TO_PROPERTY_KEY (guard_native H n ok) = TO_PROPERTY_KEY H"
  "read_flag (guard_native H n ok) = read_flag H" "read_value (guard_native H n ok) = read_value H"
  "read_writable (guard_native H n ok) = read_writable H" "read_accessor (guard_native H n ok) = read_accessor H"
  by (simp_all add: fun_eq_iff TO_PROPERTY_KEY_def read_flag_def read_value_def read_writable_def read_accessor_def cong: if_cong)

lemma DefineProperty_guarded:
  "desc_ok H [ob, k, vint a, x, y, Bool b] w \<Longrightarrow>
   DefineProperty (guard_native H ''_DefineProperty'' (desc_ok H)) ob k a x y b w = DefineProperty H ob k a x y b w"
  unfolding DefineProperty_def by (rule guard_run)

text \<open>The last step, for a word and fields that belong together.\<close>

lemma define_with_guarded:
  assumes "IsObject ob" and a: "a \<in> set words_all"
    and v: "value \<noteq> None \<longrightarrow> a AND DATA_DESCRIPTOR_KIND \<noteq> 0"
    and f: "a AND ACCESSOR_DESCRIPTOR_KIND \<noteq> 0 \<longrightarrow> getter \<noteq> Null \<or> setter \<noteq> Null"
  shows "define_with (guard_native H ''_DefineProperty'' (desc_ok H)) ob k strict a value getter setter w
       = define_with H ob k strict a value getter setter w"
proof -
  have "attrs_ok a" if "a AND ACCESSOR_DESCRIPTOR_KIND \<noteq> 0 \<longrightarrow> a AND DATA_DESCRIPTOR_KIND = 0"
    using words_all_ok a that by (simp add: attr_defs)
  with assms show ?thesis
    unfolding define_with_def
    by (auto intro!: DefineProperty_guarded simp: desc_ok_def split: option.splits)
qed

lemma words_step:
  "e \<in> {0, 0 OR ATTR_ENUMERABLE, 0 OR ATTR_NONENUMERABLE} \<Longrightarrow>
   c \<in> {e, e OR ATTR_CONFIGURABLE, e OR ATTR_NONCONFIGURABLE} \<Longrightarrow>
   v \<in> {c, c OR DATA_DESCRIPTOR_KIND} \<Longrightarrow> v \<in> set words"
  unfolding words_def attr_defs set_concat set_map list.set by auto

lemma words_writable_step:
  "v \<in> set words \<Longrightarrow> r \<in> {v, (v OR DATA_DESCRIPTOR_KIND) OR ATTR_WRITABLE, (v OR DATA_DESCRIPTOR_KIND) OR ATTR_NONWRITABLE} \<Longrightarrow>
   r \<in> set words_writable"
  unfolding words_writable_def attr_defs set_concat set_map list.set by auto

lemma words_all_step:
  "g = r \<or> g = r OR ACCESSOR_DESCRIPTOR_KIND \<Longrightarrow> s = g \<or> s = g OR ACCESSOR_DESCRIPTOR_KIND \<Longrightarrow>
   r \<in> set words_writable \<Longrightarrow> s \<in> set words_all"
  using words_accessor_twice unfolding words_all_def attr_defs by auto

text \<open>C38: Whatever the object with the fields is and however its properties answer, the attribute word and the fields that
  \<open>ObjectOrReflectDefineProperty\<close> gives to the native \<open>_DefineProperty\<close> form a descriptor: no flag together with its negation, not
  both kinds, a writable flag only in a data descriptor, a value exactly as its marker says. Checking all that before the native
  call changes nothing.\<close>

theorem ObjectOrReflectDefineProperty_type:
  "ObjectOrReflectDefineProperty (guard_native H ''_DefineProperty'' (desc_ok H)) ob k attributes strict w
     = ObjectOrReflectDefineProperty H ob k attributes strict w"
proof (cases "IsObject ob")
  case True
  show ?thesis
    unfolding ObjectOrReflectDefineProperty_def
    apply (simp add: True cong: if_cong)
    apply (rule bnd_cong_run, rule if_cong_run, rule refl)
    apply (rule bnd_cong_run, clarsimp?)+
    subgoal premises p for k' s1 e s2 c s3 v vo s4 r s5 g getter s6 a setter s7
    proof (rule define_with_guarded [OF True])
      have r: "r \<in> set words_writable"
        using wlpD [OF read_flag_wlp p(3)] wlpD [OF read_flag_wlp p(4)] wlpD [OF read_value_wlp p(5)] wlpD [OF read_writable_wlp p(6)]
        by (intro words_writable_step [of v] words_step [of e c v]) (simp_all, blast)
      note g = wlpD [OF read_accessor_wlp p(7)] wlpD [OF read_accessor_wlp p(8)]
      show "a \<in> set words_all" using g by (intro words_all_step [of g r a]) (use r in blast)+
      show "vo \<noteq> None \<longrightarrow> a AND DATA_DESCRIPTOR_KIND \<noteq> 0"
        using wlpD [OF read_value_wlp p(5)] wlpD [OF read_writable_wlp p(6)] g
        by (auto simp: or_keeps bit.conj_disj_distrib2 or_eq_0_iff attr_defs)
      show "a AND ACCESSOR_DESCRIPTOR_KIND \<noteq> 0 \<longrightarrow> getter \<noteq> Null \<or> setter \<noteq> Null"
        using words_accessor r g by (auto simp: attr_defs)
    qed
    done
qed (simp add: ObjectOrReflectDefineProperty_def)

end
