(* ===== verification/FunctionBuiltins.thy ===== *)
theory FunctionBuiltins
  imports ObjectBuiltins JSEngine
begin

text \<open>
  Function.js: bound functions. The functions that \<open>bind\<close> makes are closures with paths for few bound and few call
  arguments; arrays that do not leave them are lists here, updated by index. All of them call the target with the bound
  arguments before the others.
\<close>

section \<open>Calls with a list of arguments\<close>

text \<open>\<open>SPREAD(args, n)\<close> of a local array; \<open>FUN_APPLY\<close> with the arguments of a function, or with such an array.\<close>

definition SPREAD_list :: "val list \<Rightarrow> nat \<Rightarrow> val list" where
  "SPREAD_list args n = map (\<lambda>i. args ! i) [0..<n]"

definition FUN_APPLY :: "'w host \<Rightarrow> val \<Rightarrow> val \<Rightarrow> val list \<Rightarrow> ('w, val) jprog" where
  "FUN_APPLY H f T args = Call H f T args"

definition ConstructFunction :: "'w host \<Rightarrow> val \<Rightarrow> val \<Rightarrow> val list \<Rightarrow> ('w, val) jprog" where
  "ConstructFunction H f newTarget args = intrinsic H ''_ConstructFunction'' (f # newTarget # args)"

definition bind_mapArguments :: "val list \<Rightarrow> val list" where
  "bind_mapArguments arguments =
     (let len = length arguments; args = replicate len Undef in
      fold (\<lambda>i args. args[i := arguments ! i]) [0..<len] args)"

definition bind_applyFunctionN :: "'w host \<Rightarrow> val \<Rightarrow> val \<Rightarrow> val list \<Rightarrow> ('w, val) jprog" where
  "bind_applyFunctionN H f thisArg args =
     (if length args = 0 then Call H f thisArg []
      else if length args \<le> 9 then Call H f thisArg (SPREAD_list args (length args))
      else FUN_APPLY H f thisArg args)"

definition bind_constructFunctionN :: "'w host \<Rightarrow> val \<Rightarrow> val \<Rightarrow> val list \<Rightarrow> ('w, val) jprog" where
  "bind_constructFunctionN H f newTarget args =
     (if 1 \<le> length args \<and> length args \<le> 12 then constructContentFunction H f newTarget (SPREAD_list args (length args))
      else
        sq (asrt (length args \<noteq> 0) ''bound function construction without args should be handled by caller'')
           (ConstructFunction H f newTarget args))"

section \<open>The bound functions\<close>

datatype bound_function =
    Bound0 (target: val) (bound_this: val)
  | Bound1 (target: val) (bound_this: val) (bound1: val)
  | Bound2 (target: val) (bound_this: val) (bound1: val) (bound2: val)
  | BoundN (target: val) (bound_this: val) (bound_args: "val list")

text \<open>The functions that put the bound arguments before those of the call.\<close>

definition combiner1 :: "val \<Rightarrow> val list \<Rightarrow> val list" where
  "combiner1 b1 arguments =
     (let callArgsCount = length arguments; args = replicate (1 + callArgsCount) Undef; args = args[0 := b1] in
      fold (\<lambda>i args. args[i + 1 := arguments ! i]) [0..<callArgsCount] args)"

definition combiner2 :: "val \<Rightarrow> val \<Rightarrow> val list \<Rightarrow> val list" where
  "combiner2 b1 b2 arguments =
     (let callArgsCount = length arguments; args = replicate (2 + callArgsCount) Undef; args = args[0 := b1]; args = args[1 := b2] in
      fold (\<lambda>i args. args[i + 2 := arguments ! i]) [0..<callArgsCount] args)"

definition combinerN :: "val list \<Rightarrow> val list \<Rightarrow> val list" where
  "combinerN boundArgs arguments =
     (let boundArgsCount = length boundArgs; callArgsCount = length arguments;
          args = replicate (boundArgsCount + callArgsCount) Undef;
          args = fold (\<lambda>i args. args[i := boundArgs ! i]) [0..<boundArgsCount] args in
      fold (\<lambda>i args. args[i + boundArgsCount := arguments ! i]) [0..<callArgsCount] args)"

text \<open>\<open>newTarget\<close> in a bound function: \<open>undefined\<close> in a call, the target where the bound function is itself constructed.\<close>

definition new_target_of :: "val \<Rightarrow> val \<Rightarrow> val option \<Rightarrow> val" where
  "new_target_of f bound newTarget = (case newTarget of
      None \<Rightarrow> Undef
    | Some nt \<Rightarrow> if nt = bound then f else nt)"

definition bound0 :: "'w host \<Rightarrow> val \<Rightarrow> val \<Rightarrow> val \<Rightarrow> val option \<Rightarrow> val list \<Rightarrow> ('w, val) jprog" where
  "bound0 H f thisArg bound nt arguments =
     (let newTarget = new_target_of f bound nt in
      if nt \<noteq> None then
        if length arguments = 0 then constructContentFunction H f newTarget []
        else if length arguments \<le> 5 then constructContentFunction H f newTarget (SPREAD_list arguments (length arguments))
        else bind_constructFunctionN H f newTarget (bind_mapArguments arguments)
      else
        if length arguments = 0 then Call H f thisArg []
        else if length arguments \<le> 5 then Call H f thisArg (SPREAD_list arguments (length arguments))
        else FUN_APPLY H f thisArg arguments)"

text \<open>The end of the three others, with the combined arguments.\<close>

definition finish_bound :: "'w host \<Rightarrow> val \<Rightarrow> val \<Rightarrow> val \<Rightarrow> val list \<Rightarrow> ('w, val) jprog" where
  "finish_bound H f thisArg newTarget args =
     (if newTarget = Undef then bind_applyFunctionN H f thisArg args else bind_constructFunctionN H f newTarget args)"

definition bound1_call :: "'w host \<Rightarrow> val \<Rightarrow> val \<Rightarrow> val \<Rightarrow> val \<Rightarrow> val option \<Rightarrow> val list \<Rightarrow> ('w, val) jprog" where
  "bound1_call H f thisArg b1 bound nt arguments =
     (let newTarget = new_target_of f bound nt in
      if nt \<noteq> None \<and> length arguments = 0 then constructContentFunction H f newTarget [b1]
      else if nt \<noteq> None \<and> length arguments \<le> 5 then
        constructContentFunction H f newTarget (b1 # SPREAD_list arguments (length arguments))
      else if nt = None \<and> length arguments = 0 then Call H f thisArg [b1]
      else if nt = None \<and> length arguments \<le> 5 then Call H f thisArg (b1 # SPREAD_list arguments (length arguments))
      else finish_bound H f thisArg newTarget (combiner1 b1 arguments))"

definition bound2_call :: "'w host \<Rightarrow> val \<Rightarrow> val \<Rightarrow> val \<Rightarrow> val \<Rightarrow> val \<Rightarrow> val option \<Rightarrow> val list \<Rightarrow> ('w, val) jprog" where
  "bound2_call H f thisArg b1 b2 bound nt arguments =
     (let newTarget = new_target_of f bound nt in
      if nt \<noteq> None \<and> length arguments = 0 then constructContentFunction H f newTarget [b1, b2]
      else if nt \<noteq> None \<and> length arguments \<le> 5 then
        constructContentFunction H f newTarget (b1 # b2 # SPREAD_list arguments (length arguments))
      else if nt = None \<and> length arguments = 0 then Call H f thisArg [b1, b2]
      else if nt = None \<and> length arguments \<le> 5 then Call H f thisArg (b1 # b2 # SPREAD_list arguments (length arguments))
      else finish_bound H f thisArg newTarget (combiner2 b1 b2 arguments))"

definition boundN_call :: "'w host \<Rightarrow> val \<Rightarrow> val \<Rightarrow> val list \<Rightarrow> val \<Rightarrow> val option \<Rightarrow> val list \<Rightarrow> ('w, val) jprog" where
  "boundN_call H f thisArg boundArgs bound nt arguments =
     (let newTarget = new_target_of f bound nt in
      if length arguments = 0 then finish_bound H f thisArg newTarget boundArgs
      else finish_bound H f thisArg newTarget (combinerN boundArgs arguments))"

text \<open>A call of the function object \<open>bound\<close>, or its construction with a \<open>new.target\<close>.\<close>

definition run_bound :: "'w host \<Rightarrow> bound_function \<Rightarrow> val \<Rightarrow> val option \<Rightarrow> val list \<Rightarrow> ('w, val) jprog" where
  "run_bound H b bound nt arguments = (case b of
      Bound0 f thisArg \<Rightarrow> bound0 H f thisArg bound nt arguments
    | Bound1 f thisArg b1 \<Rightarrow> bound1_call H f thisArg b1 bound nt arguments
    | Bound2 f thisArg b1 b2 \<Rightarrow> bound2_call H f thisArg b1 b2 bound nt arguments
    | BoundN f thisArg boundArgs \<Rightarrow> boundN_call H f thisArg boundArgs bound nt arguments)"

section \<open>bind\<close>

definition bind_bindFunctionN :: "val \<Rightarrow> val \<Rightarrow> val list \<Rightarrow> ('w, bound_function) jprog" where
  "bind_bindFunctionN f thisArg boundArgs =
     sq (asrt (2 < length boundArgs) ''Fast paths should be used for few-bound-args cases.'') (ret (BoundN f thisArg boundArgs))"

definition bind_closure :: "val \<Rightarrow> val \<Rightarrow> val list \<Rightarrow> ('w, bound_function) jprog" where
  "bind_closure f thisArg boundArgs =
     (let argCount = length boundArgs in
      if argCount = 0 then ret (Bound0 f thisArg)
      else if argCount = 1 then ret (Bound1 f thisArg (boundArgs ! 0))
      else if argCount = 2 then ret (Bound2 f thisArg (boundArgs ! 0) (boundArgs ! 1))
      else bind_bindFunctionN f thisArg boundArgs)"

text \<open>The engine makes a function object for the closure (\<open>lambda\<close>).\<close>

definition FunctionBind :: "'w host \<Rightarrow> (bound_function \<Rightarrow> ('w, val) jprog) \<Rightarrow> val \<Rightarrow> val \<Rightarrow> val list \<Rightarrow> ('w, val) jprog" where
  "FunctionBind H lambda this thisArg boundArgs =
     bnd (IsCallable H this) (\<lambda>c.
     if \<not> c then throw (TypeErr ''JSMSG_INCOMPATIBLE_PROTO'')
     else
       bnd (bind_closure this thisArg boundArgs) (\<lambda>b.
       bnd (lambda b) (\<lambda>F.
       sq (intrinsic H ''_FinishBoundFunctionInit'' [F, this, vint (int (length boundArgs))]) (ret F))))"

section \<open>Bound functions call their target\<close>

lemma SPREAD_list_all [simp]: "SPREAD_list args (length args) = args"
  by (simp add: SPREAD_list_def map_nth)

text \<open>The copying loops: the elements from \<open>k\<close> on become those of the list.\<close>

lemma fold_copy:
  "m \<le> length ys \<Longrightarrow> k + m \<le> length xs \<Longrightarrow>
   fold (\<lambda>i args. args[i + k := ys ! i]) [0..<m] xs = take k xs @ take m ys @ drop (k + m) xs"
proof (induction m)
  case (Suc m)
  then show ?case
    by (simp add: list_update_append take_Suc_conv_app_nth upd_conv_take_nth_drop Cons_nth_drop_Suc [symmetric])
qed simp

lemma combine_all:
  "bind_mapArguments args = args" "combiner1 b1 args = b1 # args" "combiner2 b1 b2 args = b1 # b2 # args"
  "combinerN bs args = bs @ args"
  using fold_copy [of "length args" args 0 "replicate (length args) Undef"]
    fold_copy [of "length args" args 1 "(replicate (1 + length args) Undef)[0 := b1]"]
    fold_copy [of "length args" args 2 "(replicate (2 + length args) Undef)[0 := b1, 1 := b2]"]
    fold_copy [of "length bs" bs 0 "replicate (length bs + length args) Undef"]
    fold_copy [of "length args" args "length bs" "bs @ replicate (length args) Undef"]
  by (simp_all add: bind_mapArguments_def combiner1_def combiner2_def combinerN_def Let_def numeral_2_eq_2)

text \<open>The two ways to construct a function from native code do the same.\<close>

definition construct_agree :: "'w host \<Rightarrow> bool" where
  "construct_agree H \<longleftrightarrow> (\<forall>f nt args. ConstructFunction H f nt args = constructContentFunction H f nt args)"

lemma apply_constructN:
  "bind_applyFunctionN H f thisArg args = Call H f thisArg args"
  "construct_agree H \<Longrightarrow> args \<noteq> [] \<Longrightarrow> bind_constructFunctionN H f nt args = constructContentFunction H f nt args"
  by (simp_all add: bind_applyFunctionN_def bind_constructFunctionN_def construct_agree_def FUN_APPLY_def asrt_def sq_def bnd_def
      fun_eq_iff)

lemma long_not_empty: "\<not> length xs \<le> 5 \<Longrightarrow> xs \<noteq> []"
  by auto

lemma run_bound_call:
  assumes "f \<noteq> Undef" "construct_agree H"
  shows "bound0 H f T self None args = Call H f T args"
    "bound1_call H f T b1 self None args = Call H f T (b1 # args)"
    "bound2_call H f T b1 b2 self None args = Call H f T (b1 # b2 # args)"
    "boundN_call H f T bs self None args = Call H f T (bs @ args)"
  by (simp_all add: bound0_def bound1_call_def bound2_call_def boundN_call_def finish_bound_def new_target_of_def FUN_APPLY_def
      combine_all apply_constructN)

lemma run_bound_construct:
  assumes "f \<noteq> Undef" "nt \<noteq> Undef" "construct_agree H"
  shows "bound0 H f T self (Some nt) args = constructContentFunction H f (if nt = self then f else nt) args"
    "bound1_call H f T b1 self (Some nt) args = constructContentFunction H f (if nt = self then f else nt) (b1 # args)"
    "bound2_call H f T b1 b2 self (Some nt) args = constructContentFunction H f (if nt = self then f else nt) (b1 # b2 # args)"
    "bs \<noteq> [] \<Longrightarrow> boundN_call H f T bs self (Some nt) args = constructContentFunction H f (if nt = self then f else nt) (bs @ args)"
  using assms
  by (simp_all add: bound0_def bound1_call_def bound2_call_def boundN_call_def finish_bound_def new_target_of_def
      combine_all apply_constructN long_not_empty)

text \<open>C39: Where native construction from an array of arguments does what construction from the arguments does: \<open>bind\<close> makes a
  closure, and whichever of its four forms it has and however many arguments come, a call of it is the call of the target with the
  bound \<open>this\<close> and the bound arguments before those of the call; a construction of it is the construction of the target with the
  same arguments, where the target takes the place of the bound function as \<open>new.target\<close>.\<close>

theorem FunctionBind_equiv:
  assumes "construct_agree H" "f \<noteq> Undef"
  shows "\<exists>b. (\<forall>w :: 'w. bind_closure f T boundArgs w = (Ret b, w))
     \<and> (\<forall>self args. run_bound H b self None args = Call H f T (boundArgs @ args))
     \<and> (\<forall>self nt args. nt \<noteq> Undef \<longrightarrow>
          run_bound H b self (Some nt) args = constructContentFunction H f (if nt = self then f else nt) (boundArgs @ args))"
proof -
  note run = run_bound_call [OF assms(2,1)] run_bound_construct [OF assms(2) _ assms(1)]
  consider "boundArgs = []" | b1 where "boundArgs = [b1]" | b1 b2 where "boundArgs = [b1, b2]"
    | b1 b2 b3 bs where "boundArgs = b1 # b2 # b3 # bs"
    by (metis list.exhaust)
  then show ?thesis
    by cases (auto simp: bind_closure_def bind_bindFunctionN_def run_bound_def run run_simps)
qed

text \<open>An engine whose functions are constructed by \<open>eng_construct\<close>, whatever the way.\<close>

definition construct_engine :: "code_table \<Rightarrow> eng host" where
  "construct_engine code = (engine code)\<lparr>intrinsic := (\<lambda>name args.
     if name = ''_ConstructFunction'' \<or> name = ''constructContentFunction'' then eng_construct (arg args 0) (drop 2 args)
     else eng_intrinsic name args)\<rparr>"

lemma construct_engine_agree: "construct_agree (construct_engine code)"
  by (simp add: construct_agree_def ConstructFunction_def constructContentFunction_def construct_engine_def)

theorem FunctionBind_equiv_witness:
  "\<exists>b. (\<forall>w :: eng. bind_closure (Obj 2) Null [vint 1, vint 2, vint 3] w = (Ret b, w))
     \<and> (\<forall>self args. run_bound (construct_engine (\<lambda>_. None)) b self None args
          = Call (construct_engine (\<lambda>_. None)) (Obj 2) Null ([vint 1, vint 2, vint 3] @ args))
     \<and> (\<forall>self nt args. nt \<noteq> Undef \<longrightarrow> run_bound (construct_engine (\<lambda>_. None)) b self (Some nt) args
          = constructContentFunction (construct_engine (\<lambda>_. None)) (Obj 2) (if nt = self then Obj 2 else nt) ([vint 1, vint 2, vint 3] @ args))"
  by (rule FunctionBind_equiv) (simp_all add: construct_engine_agree)

end
