(* ===== verification/Collections.thy ===== *)
theory Collections
  imports ObjectBuiltins
begin

text \<open>
  Map.js, Set.js, WeakMap.js and WeakSet.js: what the constructors do with an iterable, \<open>forEach\<close>, and the \<open>next\<close> of the iterators.
  The tables and the place of an iterator in its table are native; an iterator leaves the entry that it comes to in an array, the
  result, which there is one of for all maps and one for all sets.
\<close>

section \<open>The results\<close>

text \<open>
  \<open>iteratorTemp.mapIterationResultPair\<close> and \<open>setIteratorTemp.setIterationResult\<close>, which are \<open>null\<close> before their first use;
  \<open>_GetNextMapEntryForIterator\<close> and \<open>_GetNextSetEntryForIterator\<close> write the next entry to them or say that there is none.
\<close>

record 'w collections = "'w host" +
  map_pair :: "('w, exn, (val \<times> val) option) prog"
  set_map_pair :: "(val \<times> val) option \<Rightarrow> ('w, exn, unit) prog"
  GetNextMapEntryForIterator :: "val \<Rightarrow> ('w, exn, bool) prog"
  set_result :: "('w, exn, val option) prog"
  set_set_result :: "val option \<Rightarrow> ('w, exn, unit) prog"
  GetNextSetEntryForIterator :: "val \<Rightarrow> ('w, exn, bool) prog"

abbreviation host_of :: "'w collections \<Rightarrow> 'w host" where
  "host_of \<equiv> host.truncate"

text \<open>\<open>_CreateMapIterationResultPair\<close> and \<open>_CreateSetIterationResult\<close> give arrays of \<open>null\<close>.\<close>

definition ensure_map_pair :: "'w collections \<Rightarrow> ('w, unit) jprog" where
  "ensure_map_pair H = bnd (map_pair H) (\<lambda>p. if p = None then set_map_pair H (Some (Null, Null)) else ret ())"

definition ensure_set_result :: "'w collections \<Rightarrow> ('w, unit) jprog" where
  "ensure_set_result H = bnd (set_result H) (\<lambda>p. if p = None then set_set_result H (Some Null) else ret ())"

definition the_map_pair :: "'w collections \<Rightarrow> ('w, val \<times> val) jprog" where
  "the_map_pair H = bnd (map_pair H) (\<lambda>p. ret (case p of Some kv \<Rightarrow> kv | None \<Rightarrow> (Undef, Undef)))"

definition the_set_result :: "'w collections \<Rightarrow> ('w, val) jprog" where
  "the_set_result H = bnd (set_result H) (\<lambda>p. ret (case p of Some v \<Rightarrow> v | None \<Rightarrow> Undef))"

section \<open>Constructors\<close>

text \<open>The body that \<open>Map\<close> and \<open>WeakMap\<close> share, and the one of \<open>Set\<close> and \<open>WeakSet\<close>.\<close>

definition add_entry :: "'w host \<Rightarrow> val \<Rightarrow> val \<Rightarrow> val \<Rightarrow> ('w, unit) jprog" where
  "add_entry H adder mapob nextItem =
     (if \<not> IsObject nextItem then throw (TypeErr ''JSMSG_INVALID_MAP_ITERABLE'')
      else
        bnd (Get H nextItem (PIdx 0)) (\<lambda>k. bnd (Get H nextItem (PIdx 1)) (\<lambda>v.
        bnd (Call H adder mapob [k, v]) (\<lambda>_. ret ()))))"

definition MapConstructorInit :: "'w host \<Rightarrow> nat \<Rightarrow> val \<Rightarrow> val \<Rightarrow> ('w, unit) jprog" where
  "MapConstructorInit H fuel mapob iterable =
     bnd (Get H mapob (pstr ''set'')) (\<lambda>adder.
     bnd (IsCallable H adder) (\<lambda>c.
     if \<not> c then throw (TypeErr ''JSMSG_NOT_FUNCTION'')
     else ForOf H fuel (ContentIter H iterable) (\<lambda>nextItem _. add_entry H adder mapob nextItem) ()))"

definition WeakMapConstructorInit :: "'w host \<Rightarrow> nat \<Rightarrow> val \<Rightarrow> val \<Rightarrow> ('w, unit) jprog" where
  "WeakMapConstructorInit H fuel mapob iterable =
     bnd (Get H mapob (pstr ''set'')) (\<lambda>adder.
     bnd (IsCallable H adder) (\<lambda>c.
     if \<not> c then throw (TypeErr ''JSMSG_NOT_FUNCTION'')
     else ForOf H fuel (ContentIter H iterable) (\<lambda>nextItem _. add_entry H adder mapob nextItem) ()))"

definition SetConstructorInit :: "'w host \<Rightarrow> nat \<Rightarrow> val \<Rightarrow> val \<Rightarrow> ('w, unit) jprog" where
  "SetConstructorInit H fuel setob iterable =
     bnd (Get H setob (pstr ''add'')) (\<lambda>adder.
     bnd (IsCallable H adder) (\<lambda>c.
     if \<not> c then throw (TypeErr ''JSMSG_NOT_FUNCTION'')
     else ForOf H fuel (ContentIter H iterable) (\<lambda>nextValue _. bnd (Call H adder setob [nextValue]) (\<lambda>_. ret ())) ()))"

definition WeakSetConstructorInit :: "'w host \<Rightarrow> nat \<Rightarrow> val \<Rightarrow> val \<Rightarrow> ('w, unit) jprog" where
  "WeakSetConstructorInit H fuel setob iterable =
     bnd (Get H setob (pstr ''add'')) (\<lambda>adder.
     bnd (IsCallable H adder) (\<lambda>c.
     if \<not> c then throw (TypeErr ''JSMSG_NOT_FUNCTION'')
     else ForOf H fuel (ContentIter H iterable) (\<lambda>nextValue _. bnd (Call H adder setob [nextValue]) (\<lambda>_. ret ())) ()))"

section \<open>forEach\<close>

text \<open>A step takes the entry out of the result before the callback can run another iterator.\<close>

definition map_each_step :: "'w collections \<Rightarrow> val \<Rightarrow> val \<Rightarrow> val \<Rightarrow> val \<Rightarrow> unit \<Rightarrow> ('w, unit + unit) jprog" where
  "map_each_step H entries callbackfn thisArg M _ =
     bnd (GetNextMapEntryForIterator H entries) (\<lambda>fin.
     if fin then ret (Inr ())
     else
       bnd (the_map_pair H) (\<lambda>(k, v).
       sq (set_map_pair H (Some (Null, v)))
      (sq (set_map_pair H (Some (Null, Null)))
      (bnd (Call (host_of H) callbackfn thisArg [v, k, M]) (\<lambda>_. ret (Inl ()))))))"

definition MapForEach :: "'w collections \<Rightarrow> nat \<Rightarrow> val \<Rightarrow> val \<Rightarrow> val \<Rightarrow> ('w, val) jprog" where
  "MapForEach H fuel this callbackfn thisArg =
     bnd (HasClass (host_of H) ''Map'' this) (\<lambda>ok.
     if \<not> ok then intrinsic H ''CallMapMethodIfWrapped'' [this, callbackfn, thisArg, vstr ''MapForEach'']
     else
       bnd (IsCallable (host_of H) callbackfn) (\<lambda>c.
       if \<not> c then throw (TypeErr ''JSMSG_NOT_FUNCTION'')
       else
         bnd (intrinsic H ''std_Map_entries'' [this]) (\<lambda>entries.
         sq (ensure_map_pair H)
        (sq (loop_fuel fuel (map_each_step H entries callbackfn thisArg this) ()) (ret Undef)))))"

definition set_each_step :: "'w collections \<Rightarrow> val \<Rightarrow> val \<Rightarrow> val \<Rightarrow> val \<Rightarrow> unit \<Rightarrow> ('w, unit + unit) jprog" where
  "set_each_step H values callbackfn thisArg S _ =
     bnd (GetNextSetEntryForIterator H values) (\<lambda>fin.
     if fin then ret (Inr ())
     else
       bnd (the_set_result H) (\<lambda>v.
       sq (set_set_result H (Some Null))
      (bnd (Call (host_of H) callbackfn thisArg [v, v, S]) (\<lambda>_. ret (Inl ())))))"

definition SetForEach :: "'w collections \<Rightarrow> nat \<Rightarrow> val \<Rightarrow> val \<Rightarrow> val \<Rightarrow> ('w, val) jprog" where
  "SetForEach H fuel this callbackfn thisArg =
     bnd (HasClass (host_of H) ''Set'' this) (\<lambda>ok.
     if \<not> ok then intrinsic H ''CallSetMethodIfWrapped'' [this, callbackfn, thisArg, vstr ''SetForEach'']
     else
       bnd (IsCallable (host_of H) callbackfn) (\<lambda>c.
       if \<not> c then throw (TypeErr ''JSMSG_NOT_FUNCTION'')
       else
         bnd (intrinsic H ''std_Set_values'' [this]) (\<lambda>values.
         sq (ensure_set_result H)
        (sq (loop_fuel fuel (set_each_step H values callbackfn thisArg this) ()) (ret Undef)))))"

section \<open>The iterators\<close>

definition map_item :: "'w host \<Rightarrow> val \<Rightarrow> val \<times> val \<Rightarrow> ('w, val) jprog" where
  "map_item H itemKind kv =
     (if itemKind = ITEM_KIND_KEY then ret (fst kv)
      else if itemKind = ITEM_KIND_VALUE then ret (snd kv)
      else sq (asrt (itemKind = ITEM_KIND_KEY_AND_VALUE) ''itemKind'') (ArrayLiteral H [fst kv, snd kv]))"

definition MapIteratorNext :: "'w collections \<Rightarrow> val \<Rightarrow> ('w, val) jprog" where
  "MapIteratorNext H this =
     bnd (HasClass (host_of H) ''MapIterator'' this) (\<lambda>ok.
     if \<not> ok then intrinsic H ''CallMapIteratorMethodIfWrapped'' [this, vstr ''MapIteratorNext'']
     else
       sq (ensure_map_pair H)
      (bnd (ObjectLiteral (host_of H) [(pstr ''value'', Undef), (pstr ''done'', Bool True)]) (\<lambda>retVal.
       bnd (GetNextMapEntryForIterator H this) (\<lambda>fin.
       sq (whenJ (\<not> fin)
            (bnd (get_slot H this ITERATOR_SLOT_ITEM_KIND) (\<lambda>itemKind.
             bnd (the_map_pair H) (\<lambda>kv.
             bnd (map_item (host_of H) itemKind kv) (\<lambda>result.
             sq (set_map_pair H (Some (Null, snd kv)))
            (sq (set_map_pair H (Some (Null, Null)))
            (sq (Put (host_of H) retVal (pstr ''value'') result)
                (Put (host_of H) retVal (pstr ''done'') (Bool False)))))))))
          (ret retVal)))))"

definition set_item :: "'w host \<Rightarrow> val \<Rightarrow> val \<Rightarrow> ('w, val) jprog" where
  "set_item H itemKind v =
     (if itemKind = ITEM_KIND_VALUE then ret v
      else sq (asrt (itemKind = ITEM_KIND_KEY_AND_VALUE) ''itemKind'') (ArrayLiteral H [v, v]))"

definition SetIteratorNext :: "'w collections \<Rightarrow> val \<Rightarrow> ('w, val) jprog" where
  "SetIteratorNext H this =
     bnd (HasClass (host_of H) ''SetIterator'' this) (\<lambda>ok.
     if \<not> ok then intrinsic H ''CallSetIteratorMethodIfWrapped'' [this, vstr ''SetIteratorNext'']
     else
       sq (ensure_set_result H)
      (bnd (ObjectLiteral (host_of H) [(pstr ''value'', Undef), (pstr ''done'', Bool True)]) (\<lambda>retVal.
       bnd (GetNextSetEntryForIterator H this) (\<lambda>fin.
       sq (whenJ (\<not> fin)
            (bnd (get_slot H this ITERATOR_SLOT_ITEM_KIND) (\<lambda>itemKind.
             bnd (the_set_result H) (\<lambda>v.
             bnd (set_item (host_of H) itemKind v) (\<lambda>result.
             sq (set_set_result H (Some Null))
            (sq (Put (host_of H) retVal (pstr ''value'') result)
                (Put (host_of H) retVal (pstr ''done'') (Bool False))))))))
          (ret retVal)))))"

text \<open>\<open>get Map[Symbol.species]\<close> and \<open>get Set[Symbol.species]\<close>.\<close>

definition MapSpecies :: "val \<Rightarrow> val" where "MapSpecies this = this"
definition SetSpecies :: "val \<Rightarrow> val" where "SetSpecies this = this"

end
