(* ===== verification/CollectionsProps.thy ===== *)
theory CollectionsProps
  imports Collections JSEngine
begin

text \<open>
  \<open>forEach\<close> of a map whose callback may change the map, and run other iterators on the same result: it goes through the entries by their
  place, those added meanwhile too, and leaves out those deleted meanwhile.
\<close>

section \<open>The native tables\<close>

text \<open>
  A table is the list of its entries in the order they were added, an entry that is deleted leaves an empty place. The entry an
  iterator comes to next is the first one from its place on.
\<close>

type_synonym entries = "(val \<times> val) option list"

definition next_entry :: "'a option list \<Rightarrow> nat \<Rightarrow> nat option" where
  "next_entry es n = find (\<lambda>i. es ! i \<noteq> None) [n..<length es]"

lemma next_entry_None: "next_entry es n = None \<longleftrightarrow> (\<forall>i. n \<le> i \<and> i < length es \<longrightarrow> es ! i = None)"
  by (auto simp: next_entry_def find_None_iff)

lemma next_entry_Some:
  "next_entry es n = Some i \<longleftrightarrow> n \<le> i \<and> i < length es \<and> es ! i \<noteq> None \<and> (\<forall>j. n \<le> j \<and> j < i \<longrightarrow> es ! j = None)"
proof
  assume "next_entry es n = Some i"
  then obtain m where m: "m < length [n..<length es]" "es ! ([n..<length es] ! m) \<noteq> None" "i = [n..<length es] ! m"
    and before: "\<forall>j<m. \<not> es ! ([n..<length es] ! j) \<noteq> None"
    unfolding next_entry_def find_Some_iff by blast
  have "es ! j = None" if "n \<le> j" "j < n + m" for j
    using before [rule_format, of "j - n"] that m(1) by auto
  with m show "n \<le> i \<and> i < length es \<and> es ! i \<noteq> None \<and> (\<forall>j. n \<le> j \<and> j < i \<longrightarrow> es ! j = None)" by auto
next
  assume i: "n \<le> i \<and> i < length es \<and> es ! i \<noteq> None \<and> (\<forall>j. n \<le> j \<and> j < i \<longrightarrow> es ! j = None)"
  then have "\<exists>m. m < length [n..<length es] \<and> es ! ([n..<length es] ! m) \<noteq> None \<and> i = [n..<length es] ! m
      \<and> (\<forall>j<m. \<not> es ! ([n..<length es] ! j) \<noteq> None)"
    by (intro exI [of _ "i - n"]) auto
  then show "next_entry es n = Some i" unfolding next_entry_def find_Some_iff .
qed

text \<open>
  What the natives promise: \<open>pair\<close> is the result of maps in a state, \<open>place\<close> the map and the place of an iterator, \<open>hidden\<close> says which
  iterators no code of the user has; \<open>ours\<close> is what the engine itself changes and code of the user cannot see.
\<close>

locale map_tables =
  fixes H :: "'w collections" and tables :: "'w \<Rightarrow> val \<Rightarrow> entries" and pair :: "'w \<Rightarrow> (val \<times> val) option"
    and place :: "'w \<Rightarrow> val \<Rightarrow> (val \<times> nat) option" and hidden :: "'w \<Rightarrow> val \<Rightarrow> bool" and ours :: "'w \<Rightarrow> 'w \<Rightarrow> bool"
  assumes ours_preorder: "reflp ours" "transp ours"
    and ours_tables: "ours w w' \<Longrightarrow> tables w' M = tables w M"
    and ours_hidden: "ours w w' \<Longrightarrow> hidden w it \<Longrightarrow> hidden w' it"
    and pair_get: "map_pair H w = (Ret (pair w), w)"
    and pair_set: "wp (set_map_pair H p) (\<lambda>_ w'. ours w w' \<and> place w' = place w \<and> pair w' = p) (\<lambda>_ _. False) w"
    and new_iterator: "IsObject M \<Longrightarrow> has_class H w ''Map'' M \<Longrightarrow>
      wp (intrinsic H ''std_Map_entries'' [M]) (\<lambda>it w'. ours w w' \<and> hidden w' it \<and> place w' it = Some (M, 0)) (\<lambda>_ _. False) w"
    and next_none: "place w it = Some (M, n) \<Longrightarrow> pair w \<noteq> None \<Longrightarrow> next_entry (tables w M) n = None \<Longrightarrow>
      wp (GetNextMapEntryForIterator H it) (\<lambda>fin w'. ours w w' \<and> fin) (\<lambda>_ _. False) w"
    and next_some: "place w it = Some (M, n) \<Longrightarrow> pair w \<noteq> None \<Longrightarrow> next_entry (tables w M) n = Some i \<Longrightarrow>
      wp (GetNextMapEntryForIterator H it)
        (\<lambda>fin w'. ours w w' \<and> \<not> fin \<and> pair w' = tables w M ! i \<and> place w' it = Some (M, Suc i)) (\<lambda>_ _. False) w"

text \<open>What code of the user leaves alone: iterators that it does not have, that there is a result, the places of the entries.\<close>

definition user_step :: "('w \<Rightarrow> val \<Rightarrow> entries) \<Rightarrow> ('w \<Rightarrow> (val \<times> val) option) \<Rightarrow> ('w \<Rightarrow> val \<Rightarrow> (val \<times> nat) option) \<Rightarrow>
    ('w \<Rightarrow> val \<Rightarrow> bool) \<Rightarrow> 'w \<Rightarrow> 'w \<Rightarrow> bool" where
  "user_step tables pair place hidden w w' \<longleftrightarrow>
     (\<forall>it. hidden w it \<longrightarrow> hidden w' it \<and> place w' it = place w it) \<and> (pair w \<noteq> None \<longrightarrow> pair w' \<noteq> None)
   \<and> (\<forall>M. length (tables w M) \<le> length (tables w' M))"

context map_tables
begin

lemma ours_trans: "ours w v \<Longrightarrow> ours v u \<Longrightarrow> ours w u"
  using ours_preorder(2) by (rule transpD)

lemma ensure_pair: "hidden w it \<Longrightarrow>
  wp (ensure_map_pair H) (\<lambda>_ w'. ours w w' \<and> hidden w' it \<and> place w' = place w \<and> pair w' \<noteq> None) (\<lambda>_ _. False) w"
proof (cases "pair w = None")
  case False
  then show "hidden w it \<Longrightarrow> ?thesis"
    unfolding ensure_map_pair_def wp_bnd wp_run [OF pair_get] if_not_P [OF False] wp_ret
    using reflpD [OF ours_preorder(1)] False by blast
next
  case True
  assume "hidden w it"
  then show ?thesis
    unfolding ensure_map_pair_def wp_bnd wp_run [OF pair_get] if_P [OF True]
    using wp_mono [OF pair_set] ours_hidden by (smt (verit) option.distinct(1))
qed

text \<open>The invariant of a visit, an index into the table, holds at the next entry.\<close>

lemma skip_places:
  assumes "\<And>p. I p \<Longrightarrow> p < n \<Longrightarrow> es p = None \<Longrightarrow> I (Suc p)" "I p" "p \<le> i" "i \<le> n" "\<forall>j. p \<le> j \<and> j < i \<longrightarrow> es j = None"
  shows "I i"
  using assms(3,4,5)
proof (induction i rule: dec_induct)
  case base
  show ?case by (rule assms(2))
next
  case (step m)
  then show ?case using assms(1) [of m] by simp
qed

text \<open>One round, for an invariant of the places that have been visited.\<close>

lemma each_step:
  assumes stable: "\<And>p w w'. I p w \<Longrightarrow> ours w w' \<Longrightarrow> I p w'"
    and skip: "\<And>p w. I p w \<Longrightarrow> p < length (tables w M) \<Longrightarrow> tables w M ! p = None \<Longrightarrow> I (Suc p) w"
    and visit: "\<And>p k v w. I p w \<Longrightarrow> p < length (tables w M) \<Longrightarrow> tables w M ! p = Some (k, v) \<Longrightarrow>
      wp (Call (host_of H) f T [v, k, M]) (\<lambda>_ w'. I (Suc p) w' \<and> user_step tables pair place hidden w w') E w"
    and now: "hidden w it" "place w it = Some (M, p)" "pair w \<noteq> None" "I p w" "p \<le> length (tables w M)"
  shows "wp (map_each_step H it f T M c)
    (\<lambda>x w'. case x of
        Inl _ \<Rightarrow> \<exists>q. hidden w' it \<and> place w' it = Some (M, q) \<and> pair w' \<noteq> None \<and> I q w' \<and> q \<le> length (tables w' M) \<and> p < q
      | Inr _ \<Rightarrow> I (length (tables w' M)) w') E w"
proof (cases "next_entry (tables w M) p")
  case None
  then have "I (length (tables w M)) w"
    using skip_places [of "\<lambda>p. I p w" "length (tables w M)" "\<lambda>i. tables w M ! i" p "length (tables w M)"] skip now(4,5)
    by (auto simp: next_entry_None)
  then have "I (length (tables w' M)) w'" if "ours w w'" for w' using stable that ours_tables by metis
  then show ?thesis
    unfolding map_each_step_def wp_bnd by (intro wp_mono [OF next_none [OF now(2,3) None]]) (simp_all add: wp_ret)
next
  case (Some i)
  then obtain k v where kv: "tables w M ! i = Some (k, v)" and i: "p \<le> i" "i < length (tables w M)"
    by (auto simp: next_entry_Some)
  have I: "I i w"
    using skip_places [of "\<lambda>p. I p w" "length (tables w M)" "\<lambda>i. tables w M ! i" p i] skip now(4) Some i
    by (auto simp: next_entry_Some)
  let ?Q = "\<lambda>x w'. case x of
        Inl (_ :: unit) \<Rightarrow> \<exists>q. hidden w' it \<and> place w' it = Some (M, q) \<and> pair w' \<noteq> None \<and> I q w' \<and> q \<le> length (tables w' M) \<and> p < q
      | Inr (_ :: unit) \<Rightarrow> I (length (tables w' M)) w'"
  let ?call = "bnd (Call (host_of H) f T [v, k, M]) (\<lambda>_. ret (Inl ()))"
  have call: "wp ?call ?Q E u" if u: "ours w u" "place u it = Some (M, Suc i)" "pair u \<noteq> None" for u
  proof -
    have same: "tables u M = tables w M" "hidden u it" "I i u" using u now stable I ours_tables ours_hidden by metis+
    then have "wp (Call (host_of H) f T [v, k, M]) (\<lambda>_ w'. I (Suc i) w' \<and> user_step tables pair place hidden u w') E u"
      using visit [of i u k v] kv i by simp
    then show ?thesis unfolding wp_bnd wp_ret
    proof (rule wp_mono)
      fix x w'
      assume w': "I (Suc i) w' \<and> user_step tables pair place hidden u w'"
      then have "hidden w' it" "place w' it = Some (M, Suc i)" "pair w' \<noteq> None" "length (tables u M) \<le> length (tables w' M)"
        using same(2) u unfolding user_step_def by metis+
      with w' i same(1) show "?Q (Inl ()) w'" by (simp add: exI [of _ "Suc i"])
    qed
  qed
  have clear2: "wp (sq (set_map_pair H (Some (Null, Null))) ?call) ?Q E u" if u: "ours w u" "place u it = Some (M, Suc i)" for u
    unfolding wp_sq by (rule wp_mono [OF pair_set]) (use u in \<open>auto intro!: call intro: ours_trans\<close>)
  have clear: "wp (sq (set_map_pair H (Some (Null, v))) (sq (set_map_pair H (Some (Null, Null))) ?call)) ?Q E u"
    if u: "ours w u" "place u it = Some (M, Suc i)" for u
    unfolding wp_sq [of "set_map_pair H (Some (Null, v))"]
    by (rule wp_mono [OF pair_set]) (use u in \<open>auto intro!: clear2 intro: ours_trans\<close>)
  show ?thesis
    unfolding map_each_step_def wp_bnd [of "GetNextMapEntryForIterator H it"]
    by (rule wp_mono [OF next_some [OF now(2,3) Some]])
      (auto simp: kv the_map_pair_def wp_bnd wp_run [OF pair_get] wp_ret intro: clear [unfolded wp_bnd])
qed

lemma each_loop:
  assumes stable: "\<And>p w w'. I p w \<Longrightarrow> ours w w' \<Longrightarrow> I p w'"
    and skip: "\<And>p w. I p w \<Longrightarrow> p < length (tables w M) \<Longrightarrow> tables w M ! p = None \<Longrightarrow> I (Suc p) w"
    and visit: "\<And>p k v w. I p w \<Longrightarrow> p < length (tables w M) \<Longrightarrow> tables w M ! p = Some (k, v) \<Longrightarrow>
      wp (Call (host_of H) f T [v, k, M]) (\<lambda>_ w'. I (Suc p) w' \<and> user_step tables pair place hidden w w') E w"
    and bound: "\<And>p w. I p w \<Longrightarrow> length (tables w M) \<le> N" "N < fuel"
    and now: "hidden w it" "place w it = Some (M, 0)" "pair w \<noteq> None" "I 0 w"
  shows "wp (loop_fuel fuel (map_each_step H it f T M) ()) (\<lambda>_ w'. I (length (tables w' M)) w') E w"
proof (rule wp_loop_fuel [where v = "\<lambda>_ w. N - snd (the (place w it))"
      and I = "\<lambda>_ w. \<exists>q. hidden w it \<and> place w it = Some (M, q) \<and> pair w \<noteq> None \<and> I q w \<and> q \<le> length (tables w M)"])
  fix c s
  assume "\<exists>q. hidden s it \<and> place s it = Some (M, q) \<and> pair s \<noteq> None \<and> I q s \<and> q \<le> length (tables s M)"
  then obtain q where q: "hidden s it" "place s it = Some (M, q)" "pair s \<noteq> None" "I q s" "q \<le> length (tables s M)" by blast
  have less: "N - r < N - q" if "q < r" "r \<le> length (tables u M)" "I r u" for r u
    using that bound(1) [of r u] by linarith
  show "wp (map_each_step H it f T M c)
      (\<lambda>x s'. case x of
          Inl c' \<Rightarrow> (\<exists>q. hidden s' it \<and> place s' it = Some (M, q) \<and> pair s' \<noteq> None \<and> I q s' \<and> q \<le> length (tables s' M))
            \<and> N - snd (the (place s' it)) < N - snd (the (place s it))
        | Inr _ \<Rightarrow> I (length (tables s' M)) s') E s"
    by (rule wp_mono, rule each_step [where I = I and p = q])
      (erule (1) stable | erule (2) skip | erule (2) visit | rule q | use q(2) less in \<open>fastforce split: sum.splits simp del: not_None_eq\<close>)+
qed (use now bound in \<open>auto simp del: not_None_eq\<close>)

end

text \<open>C40: Under what the natives promise of the tables: let \<open>I p\<close> hold where the places of the map below \<open>p\<close> have been visited, hold on over an
  empty place, and over a call of the callback for the entry in place \<open>p\<close>, whatever that call does to the map (entries added,
  deleted, other iterations of maps). Then \<open>forEach\<close> returns \<open>undefined\<close> with \<open>I\<close> for all places of the map as it is in the end: each entry
  is visited at most once, in order, with its own key and value, and none is left out; an exception of the callback ends it.\<close>

theorem MapForEach_visits:
  assumes "map_tables H tables pair place hidden ours"
    and "IsObject M" "has_class H w ''Map'' M" "IsObject f" "callable H w f" "I 0 w" "N < fuel"
    and stable: "\<And>p w w'. I p w \<Longrightarrow> ours w w' \<Longrightarrow> I p w'"
    and skip: "\<And>p w. I p w \<Longrightarrow> p < length (tables w M) \<Longrightarrow> tables w M ! p = None \<Longrightarrow> I (Suc p) w"
    and visit: "\<And>p k v w. I p w \<Longrightarrow> p < length (tables w M) \<Longrightarrow> tables w M ! p = Some (k, v) \<Longrightarrow>
      wp (Call (host_of H) f T [v, k, M]) (\<lambda>_ w'. I (Suc p) w' \<and> user_step tables pair place hidden w w') E w"
    and bound: "\<And>p w. I p w \<Longrightarrow> length (tables w M) \<le> N"
  shows "wp (MapForEach H fuel M f T) (\<lambda>r w'. r = Undef \<and> I (length (tables w' M)) w') E w"
proof -
  note m = map_tables.ensure_pair [OF assms(1)] map_tables.each_loop [OF assms(1), where I = I]
  have loop: "wp (sq (loop_fuel fuel (map_each_step H it f T M) ()) (ret Undef)) (\<lambda>r w'. r = Undef \<and> I (length (tables w' M)) w') E u"
    if "hidden u it" "place u it = Some (M, 0)" "pair u \<noteq> None" "I 0 u" for it u
    unfolding wp_sq wp_ret
    by (rule wp_mono, rule m(2)) (erule (1) stable | erule (2) skip | erule (2) visit | erule bound | rule assms(7) that | simp)+
  have ready: "wp (sq (ensure_map_pair H) (sq (loop_fuel fuel (map_each_step H it f T M) ()) (ret Undef)))
      (\<lambda>r w'. r = Undef \<and> I (length (tables w' M)) w') E u"
    if u: "hidden u it" "place u it = Some (M, 0)" "I 0 u" for it u
    unfolding wp_sq [of "ensure_map_pair H"]
    by (rule wp_mono [OF m(1) [OF u(1)]]) (use u stable in \<open>auto intro!: loop\<close>)
  have "callable (host_of H) w f" "has_class (host_of H) w ''Map'' M" using assms by (simp_all add: host.truncate_def)
  with assms(2,4) show ?thesis
    unfolding MapForEach_def HasClass_def IsCallable_def
    by (simp add: wp_bnd wp_gets) (auto intro!: wp_mono [OF map_tables.new_iterator [OF assms(1-3)]] ready intro: stable assms(6))
qed

end
