(* ===== verification/CollectionsEngine.thy ===== *)
theory CollectionsEngine
  imports CollectionsProps
begin

text \<open>
  The engine of \<open>JSEngine\<close> with maps: tables, the places of iterators, the result, and callbacks that change the map that they are
  called on. It provides the interface of the tables, and \<open>forEach\<close> runs on it in the example.
\<close>

record map_store =
  store_tables :: "val \<Rightarrow> entries"
  store_places :: "val \<Rightarrow> (val \<times> nat) option"
  store_pair :: "(val \<times> val) option"
  store_calls :: "(val \<times> val) list"

type_synonym map_world = "eng \<times> map_store"

definition on_eng :: "(eng, 'a) jprog \<Rightarrow> (map_world, 'a) jprog" where
  "on_eng m = (\<lambda>(w, t). case m w of (r, w') \<Rightarrow> (r, (w', t)))"

definition on_store :: "(map_store \<Rightarrow> map_store) \<Rightarrow> (map_world, unit) jprog" where
  "on_store f = modify (\<lambda>(w, t). (w, f t))"

text \<open>A callback is a script of changes to the map, chosen by the entry that it is called with; the calls are kept.\<close>

datatype map_op = SetEntry val val | DeleteEntry val

fun run_op :: "map_op \<Rightarrow> entries \<Rightarrow> entries" where
  "run_op (SetEntry k v) es =
     (if k \<in> fst ` set (List.map_filter id es) then map (map_option (\<lambda>(k', v'). (k', if k' = k then v else v'))) es
      else es @ [Some (k, v)])"
| "run_op (DeleteEntry k) es = map (\<lambda>e. case e of Some (k', v) \<Rightarrow> if k' = k then None else Some (k', v) | None \<Rightarrow> None) es"

definition run_ops :: "map_op list \<Rightarrow> val \<Rightarrow> map_store \<Rightarrow> map_store" where
  "run_ops acts M t = t\<lparr>store_tables := (store_tables t)(M := fold run_op acts (store_tables t M))\<rparr>"

fun map_code :: "(nat \<Rightarrow> (val \<Rightarrow> map_op list) option) \<Rightarrow> val \<Rightarrow> (val \<Rightarrow> map_op list) option" where
  "map_code code (Obj f) = code f"
| "map_code code _ = None"

definition map_call :: "(nat \<Rightarrow> (val \<Rightarrow> map_op list) option) \<Rightarrow> val \<Rightarrow> val \<Rightarrow> val list \<Rightarrow> (map_world, val) jprog" where
  "map_call code f T args = (case map_code code f of
      Some acts \<Rightarrow>
        sq (on_store (\<lambda>t. run_ops (acts (arg args 1)) (arg args 2) (t\<lparr>store_calls := store_calls t @ [(arg args 1, arg args 0)]\<rparr>)))
           (ret Undef)
    | None \<Rightarrow> throw (TypeErr ''JSMSG_NOT_FUNCTION''))"

definition new_map_iterator :: "val \<Rightarrow> (map_world, val) jprog" where
  "new_map_iterator M =
     bnd (on_eng (eng_new (plain_obj\<lparr>class_name := ''MapIterator''\<rparr>))) (\<lambda>it.
     sq (on_store (\<lambda>t. t\<lparr>store_places := (store_places t)(it \<mapsto> (M, 0))\<rparr>)) (ret it))"

definition next_map_place :: "val \<Rightarrow> (map_world, bool) jprog" where
  "next_map_place it =
     bnd (gets snd) (\<lambda>t. case store_places t it of
       None \<Rightarrow> ret True
     | Some (M, n) \<Rightarrow> (case next_entry (store_tables t M) n of
         None \<Rightarrow> ret True
       | Some i \<Rightarrow>
           sq (on_store (\<lambda>t. t\<lparr>store_places := (store_places t)(it \<mapsto> (M, Suc i)), store_pair := store_tables t M ! i\<rparr>)) (ret False)))"

definition map_engine :: "(nat \<Rightarrow> (val \<Rightarrow> map_op list) option) \<Rightarrow> map_world collections" where
  "map_engine code = (let E = engine (\<lambda>_. None) in
     \<lparr>get_prop = (\<lambda>v k. on_eng (get_prop E v k)), set_prop = (\<lambda>v k x. on_eng (set_prop E v k x)),
      has_prop = (\<lambda>v k. on_eng (has_prop E v k)), del_prop = (\<lambda>v k. on_eng (del_prop E v k)),
      define_data = (\<lambda>v k x. on_eng (define_data E v k x)), call_fn = map_call code,
      construct_fn = (\<lambda>f args. on_eng (construct_fn E f args)),
      callable = (\<lambda>w v. map_code code v \<noteq> None), constructible = (\<lambda>w v. v = Obj array_ctor),
      has_class = (\<lambda>w c v. has_class E (fst w) c v), is_array = (\<lambda>v. on_eng (is_array E v)),
      wrap_prim = (\<lambda>v. on_eng (wrap_prim E v)), to_number_of = (\<lambda>v. ret NaN), to_string_of = (\<lambda>v. ret (js ''0'')),
      new_array = (\<lambda>n. on_eng (new_array E n)), new_object = on_eng (new_object E),
      get_slot = (\<lambda>v i. on_eng (get_slot E v i)), set_slot = (\<lambda>v i x. on_eng (set_slot E v i x)),
      builtin = builtin E,
      intrinsic = (\<lambda>name args. if name = ''std_Map_entries'' then new_map_iterator (arg args 0) else on_eng (intrinsic E name args)),
      map_pair = gets (\<lambda>w. store_pair (snd w)), set_map_pair = (\<lambda>p. on_store (\<lambda>t. t\<lparr>store_pair := p\<rparr>)),
      GetNextMapEntryForIterator = next_map_place,
      set_result = gets (\<lambda>w. None), set_set_result = (\<lambda>p. ret ()), GetNextSetEntryForIterator = (\<lambda>it. ret True)\<rparr>)"

text \<open>Only the engine changes the objects in the example: new ones come after those that there are.\<close>

definition map_ours :: "map_world \<Rightarrow> map_world \<Rightarrow> bool" where
  "map_ours w w' \<longleftrightarrow> take (length (heap (fst w))) (heap (fst w')) = heap (fst w)
     \<and> store_tables (snd w') = store_tables (snd w) \<and> store_calls (snd w') = store_calls (snd w)
     \<and> (\<forall>it. store_places (snd w) it \<noteq> None \<longrightarrow> store_places (snd w') it \<noteq> None)"

lemma map_ours_preorder: "reflp map_ours" "transp map_ours"
proof (auto simp: map_ours_def reflp_def transp_def simp del: not_None_eq)
  fix a b c :: "jobj list"
  assume "take (length a) b = a" "take (length b) c = b"
  then show "take (length a) c = a" by (metis min.absorb1 min.commute take_take linear take_all)
qed

interpretation maps: map_tables "map_engine code" "\<lambda>w. store_tables (snd w)" "\<lambda>w. store_pair (snd w)"
    "\<lambda>w. store_places (snd w)" "\<lambda>w it. store_places (snd w) it \<noteq> None" map_ours for code
proof
  show "map_pair (map_engine code) w = (Ret (store_pair (snd w)), w)" for w
    by (simp add: map_engine_def Let_def gets_run)
  show "wp (set_map_pair (map_engine code) p)
      (\<lambda>_ w'. map_ours w w' \<and> store_places (snd w') = store_places (snd w) \<and> store_pair (snd w') = p) (\<lambda>_ _. False) w" for p w
    by (cases w) (simp add: map_engine_def Let_def on_store_def wp_modify map_ours_def)
  show "wp (intrinsic (map_engine code) ''std_Map_entries'' [M])
      (\<lambda>it w'. map_ours w w' \<and> store_places (snd w') it \<noteq> None \<and> store_places (snd w') it = Some (M, 0)) (\<lambda>_ _. False) w" for M w
    by (cases w) (simp add: map_engine_def Let_def new_map_iterator_def on_eng_def on_store_def eng_new_def wp_def bnd_def sq_def gets_def modify_def ret_def map_ours_def)
qed (auto simp: map_engine_def Let_def next_map_place_def on_store_def wp_simps map_ours_def split: prod.splits
    intro: map_ours_preorder)

section \<open>An example\<close>

text \<open>A map with two entries; called for the first one, the callback deletes the second and adds a third.\<close>

definition ex_map_world :: map_world where
  "ex_map_world = (\<lparr>heap = [plain_obj\<lparr>proto := None\<rparr>, plain_obj\<lparr>class_name := ''Map''\<rparr>]\<rparr>,
     \<lparr>store_tables = (\<lambda>_. [])(Obj 1 := [Some (vint 1, vint 10), Some (vint 2, vint 20)]), store_places = (\<lambda>_. None),
      store_pair = None, store_calls = []\<rparr>)"

definition ex_map_code :: "nat \<Rightarrow> (val \<Rightarrow> map_op list) option" where
  "ex_map_code = [5 \<mapsto> (\<lambda>k. if k = vint 1 then [DeleteEntry (vint 2), SetEntry (vint 3) (vint 30)] else [])]"

definition ex_map_inv :: "nat \<Rightarrow> map_world \<Rightarrow> bool" where
  "ex_map_inv p w \<longleftrightarrow>
     (if p = 0 then store_tables (snd w) (Obj 1) = [Some (vint 1, vint 10), Some (vint 2, vint 20)] \<and> store_calls (snd w) = []
      else store_tables (snd w) (Obj 1) = [Some (vint 1, vint 10), None, Some (vint 3, vint 30)]
        \<and> store_calls (snd w) = (if p < 3 then [(vint 1, vint 10)] else [(vint 1, vint 10), (vint 3, vint 30)]))"

lemma ex_map_call:
  "wp (Call (host_of (map_engine ex_map_code)) (Obj 5) Undef [v, k, M]) Q E w =
     Q Undef (fst w, run_ops (if k = vint 1 then [DeleteEntry (vint 2), SetEntry (vint 3) (vint 30)] else []) M
       ((snd w)\<lparr>store_calls := store_calls (snd w) @ [(k, v)]\<rparr>))"
  by (cases w) (simp add: Call_def IsCallable_def wp_simps map_engine_def Let_def host.truncate_def map_call_def ex_map_code_def
      on_store_def arg_def)

lemma run_op_length: "length es \<le> length (fold run_op acts es)"
proof (induction acts arbitrary: es)
  case (Cons a acts)
  have "length es \<le> length (run_op a es)" by (cases a) auto
  with Cons show ?case by (simp add: order_trans)
qed simp

lemma ex_map_places: "ex_map_inv p w \<Longrightarrow> p < length (store_tables (snd w) (Obj 1)) \<Longrightarrow> p = 0 \<or> p = 1 \<or> p = 2"
  by (cases "p = 0") (auto simp: ex_map_inv_def)

lemma ex_map_visit:
  assumes "ex_map_inv p w" "p < length (store_tables (snd w) (Obj 1))" "store_tables (snd w) (Obj 1) ! p = Some (k, v)"
  shows "wp (Call (host_of (map_engine ex_map_code)) (Obj 5) Undef [v, k, Obj 1])
    (\<lambda>_ w'. ex_map_inv (Suc p) w' \<and> user_step (\<lambda>w. store_tables (snd w)) (\<lambda>w. store_pair (snd w)) (\<lambda>w. store_places (snd w))
       (\<lambda>w it. store_places (snd w) it \<noteq> None) w w') (\<lambda>_ _. False) w"
proof -
  have "ex_map_inv (Suc p) (fst w, run_ops (if k = vint 1 then [DeleteEntry (vint 2), SetEntry (vint 3) (vint 30)] else []) (Obj 1)
       ((snd w)\<lparr>store_calls := store_calls (snd w) @ [(k, v)]\<rparr>))"
  proof (cases "p = 0")
    case True
    then show ?thesis using assms by (auto simp: ex_map_inv_def run_ops_def List.map_filter_def)
  next
    case False
    then have "p = 1 \<or> p = 2" using assms(1,2) by (auto simp: ex_map_inv_def)
    then show ?thesis using assms False by (auto simp: ex_map_inv_def run_ops_def)
  qed
  then show ?thesis
    unfolding ex_map_call user_step_def by (auto simp: run_ops_def run_op_length)
qed

theorem MapForEach_visits_witness:
  "wp (MapForEach (map_engine ex_map_code) 4 (Obj 1) (Obj 5) Undef)
     (\<lambda>r w'. r = Undef \<and> store_calls (snd w') = [(vint 1, vint 10), (vint 3, vint 30)]) (\<lambda>_ _. False) ex_map_world"
proof (rule wp_mono [OF MapForEach_visits [OF maps.map_tables_axioms, where I = ex_map_inv and N = 3]])
  show "has_class (map_engine ex_map_code) ex_map_world ''Map'' (Obj 1)" "callable (map_engine ex_map_code) ex_map_world (Obj 5)"
    by (simp_all add: map_engine_def Let_def ex_map_world_def ex_map_code_def)
  show "ex_map_inv 0 ex_map_world" by (simp add: ex_map_inv_def ex_map_world_def)
  show "ex_map_inv p w'" if "ex_map_inv p w" "map_ours w w'" for p w w'
    using that unfolding ex_map_inv_def map_ours_def by metis
  show "ex_map_inv (Suc p) w" if "ex_map_inv p w" "p < length (store_tables (snd w) (Obj 1))"
    "store_tables (snd w) (Obj 1) ! p = None" for p w
    using ex_map_places [OF that(1,2)] that by (elim disjE) (simp_all add: ex_map_inv_def)
  show "length (store_tables (snd w) (Obj 1)) \<le> 3" if "ex_map_inv p w" for p w
    using that by (simp add: ex_map_inv_def split: if_splits)
  show "wp (Call (host_of (map_engine ex_map_code)) (Obj 5) Undef [v, k, Obj 1])
    (\<lambda>_ w'. ex_map_inv (Suc p) w' \<and> user_step (\<lambda>w. store_tables (snd w)) (\<lambda>w. store_pair (snd w)) (\<lambda>w. store_places (snd w))
       (\<lambda>w it. store_places (snd w) it \<noteq> None) w w') (\<lambda>_ _. False) w"
    if "ex_map_inv p w" "p < length (store_tables (snd w) (Obj 1))" "store_tables (snd w) (Obj 1) ! p = Some (k, v)" for p k v w
    using that by (rule ex_map_visit)
  show "r = Undef \<and> store_calls (snd w') = [(vint 1, vint 10), (vint 3, vint 30)]"
    if "r = Undef \<and> ex_map_inv (length (store_tables (snd w') (Obj 1))) w'" for r w'
    using that by (auto simp: ex_map_inv_def split: if_splits)
qed simp_all

end
