(* ===== verification/AsyncIteration.thy ===== *)
theory AsyncIteration
  imports IteratorHelpers
begin

text \<open>
  AsyncIteration.js and AsyncFunction.js: the lazy and the eager helpers of async iterators. An \<open>await\<close> is an effect: whatever runs
  until the promise is settled, it gives the value or throws. A call of an async function gives a promise; what the function does after
  its first \<open>await\<close> is up to the engine. Frames and outcomes of generators are those of \<open>IteratorHelpers\<close>.
\<close>

section \<open>Promises\<close>

record 'w async_host = "'w host" +
  await :: "val \<Rightarrow> ('w, exn, val) prog"
  async_call :: "('w, exn, val) prog \<Rightarrow> ('w, exn, val) prog"

abbreviation host_part :: "'w async_host \<Rightarrow> 'w host" where
  "host_part \<equiv> host.truncate"

definition std_asyncIterator :: key where
  "std_asyncIterator = PSym 8"

definition AsyncIteratorIdentity :: "val \<Rightarrow> ('w, val) jprog" where
  "AsyncIteratorIdentity this = ret this"

text \<open>What the engine calls to go on with an async function or an async generator.\<close>

definition resume_async :: "'w async_host \<Rightarrow> string \<Rightarrow> val \<Rightarrow> val \<Rightarrow> string \<Rightarrow> ('w, val) jprog" where
  "resume_async H cls this v kind =
     bnd (HasClass (host_part H) cls this) (\<lambda>ok.
     sq (asrt ok ''ThisArgument must be a generator object'') (intrinsic H ''resumeGenerator'' [this, v, vstr kind]))"

definition AsyncFunctionNext :: "'w async_host \<Rightarrow> val \<Rightarrow> val \<Rightarrow> ('w, val) jprog" where
  "AsyncFunctionNext H this v = resume_async H ''AsyncFunctionGenerator'' this v ''next''"

definition AsyncFunctionThrow :: "'w async_host \<Rightarrow> val \<Rightarrow> val \<Rightarrow> ('w, val) jprog" where
  "AsyncFunctionThrow H this v = resume_async H ''AsyncFunctionGenerator'' this v ''throw''"

definition AsyncGeneratorNext :: "'w async_host \<Rightarrow> val \<Rightarrow> val \<Rightarrow> ('w, val) jprog" where
  "AsyncGeneratorNext H this v = resume_async H ''AsyncGenerator'' this v ''next''"

definition AsyncGeneratorThrow :: "'w async_host \<Rightarrow> val \<Rightarrow> val \<Rightarrow> ('w, val) jprog" where
  "AsyncGeneratorThrow H this v = resume_async H ''AsyncGenerator'' this v ''throw''"

definition AsyncGeneratorReturn :: "'w async_host \<Rightarrow> val \<Rightarrow> val \<Rightarrow> ('w, val) jprog" where
  "AsyncGeneratorReturn H this v = resume_async H ''AsyncGenerator'' this v ''return''"

section \<open>Steps and closing\<close>

text \<open>\<open>await IteratorNext(iterated, ...)\<close> and the test of \<open>done\<close>; what has been awaited is not tested.\<close>

definition AsyncStep :: "'w async_host \<Rightarrow> iter_rec \<Rightarrow> val list \<Rightarrow> ('w, val option) jprog" where
  "AsyncStep H r args =
     bnd (IteratorNext (host_part H) r args) (\<lambda>p.
     bnd (await H p) (\<lambda>next.
     bnd (Get (host_part H) next (pstr ''done'')) (\<lambda>d. ret (if truthy d then None else Some next))))"

definition AsyncIteratorClose_body :: "'w async_host \<Rightarrow> iter_rec \<Rightarrow> val \<Rightarrow> ('w, val) jprog" where
  "AsyncIteratorClose_body H r v =
     bnd (Get (host_part H) (rec_iterator r) (pstr ''return'')) (\<lambda>returnMethod.
     if \<not> is_nullish returnMethod then
       bnd (Call (host_part H) returnMethod (rec_iterator r) []) (\<lambda>p.
       bnd (await H p) (\<lambda>result.
       if \<not> IsObject result then throw (TypeErr ''JSMSG_OBJECT_REQUIRED'') else ret v))
     else ret v)"

definition AsyncIteratorClose :: "'w async_host \<Rightarrow> iter_rec \<Rightarrow> val \<Rightarrow> ('w, val) jprog" where
  "AsyncIteratorClose H r v = async_call H (AsyncIteratorClose_body H r v)"

text \<open>\<open>try { m } finally { if (needClose) AsyncIteratorClose(iterated) }\<close> while \<open>needClose\<close> is set: the promise is dropped.\<close>

definition async_closing :: "'w async_host \<Rightarrow> iter_rec \<Rightarrow> ('w, 'a) jprog \<Rightarrow> ('w, 'a) jprog" where
  "async_closing H r m = try_catch m (\<lambda>e. bnd (AsyncIteratorClose H r Undef) (\<lambda>_. throw e))"

text \<open>\<open>yield v\<close> in an async generator awaits \<open>v\<close>.\<close>

definition deliver :: "'w async_host \<Rightarrow> val \<Rightarrow> frame \<Rightarrow> ('w, outcome) jprog" where
  "deliver H v f = bnd (await H v) (\<lambda>v. ret (Yielded v f))"

section \<open>The generators of the lazy helpers\<close>

definition async_map_loop :: "'w async_host \<Rightarrow> iter_rec \<Rightarrow> val \<Rightarrow> val \<Rightarrow> ('w, outcome) jprog" where
  "async_map_loop H r mapper lastValue =
     bnd (AsyncStep H r [lastValue]) (\<lambda>next. case next of
       None \<Rightarrow> ret (Finished Undef)
     | Some result \<Rightarrow>
         bnd (Get (host_part H) result (pstr ''value'')) (\<lambda>v.
         async_closing H r (
           bnd (Call (host_part H) mapper Undef [v]) (\<lambda>mapped. deliver H mapped (AtYield (MapGen r mapper))))))"

definition async_filter_loop :: "'w async_host \<Rightarrow> nat \<Rightarrow> iter_rec \<Rightarrow> val \<Rightarrow> val \<Rightarrow> ('w, outcome) jprog" where
  "async_filter_loop H fuel r filterer lastValue =
     loop_fuel fuel (\<lambda>_.
       bnd (AsyncStep H r [lastValue]) (\<lambda>next. case next of
         None \<Rightarrow> ret (Inr (Finished Undef))
       | Some result \<Rightarrow>
           bnd (Get (host_part H) result (pstr ''value'')) (\<lambda>v.
           async_closing H r (
             bnd (Call (host_part H) filterer Undef [v]) (\<lambda>p.
             bnd (await H p) (\<lambda>selected.
             if truthy selected then bnd (deliver H v (AtYield (FilterGen r filterer))) (\<lambda>out. ret (Inr out))
             else ret (Inl ()))))))) ()"

definition async_take_loop :: "'w async_host \<Rightarrow> iter_rec \<Rightarrow> inum \<Rightarrow> val \<Rightarrow> ('w, outcome) jprog" where
  "async_take_loop H r remaining lastValue =
     (if IFin 0 < remaining then
        bnd (AsyncStep H r [lastValue]) (\<lambda>next. case next of
          None \<Rightarrow> bnd (await H Undef) (\<lambda>v. ret (Finished v))
        | Some result \<Rightarrow>
            bnd (Get (host_part H) result (pstr ''value'')) (\<lambda>v.
            async_closing H r (deliver H v (AtYield (TakeGen r remaining)))))
      else bnd (AsyncIteratorClose H r Undef) (\<lambda>p. bnd (await H p) (\<lambda>v. ret (Finished v))))"

definition async_drop_loop :: "'w async_host \<Rightarrow> iter_rec \<Rightarrow> val \<Rightarrow> ('w, outcome) jprog" where
  "async_drop_loop H r lastValue =
     bnd (AsyncStep H r [lastValue]) (\<lambda>next. case next of
       None \<Rightarrow> ret (Finished Undef)
     | Some result \<Rightarrow>
         bnd (Get (host_part H) result (pstr ''value'')) (\<lambda>v.
         async_closing H r (deliver H v (AtYield (DropGen r (IFin 0))))))"

definition async_drop_skip :: "'w async_host \<Rightarrow> nat \<Rightarrow> iter_rec \<Rightarrow> inum \<Rightarrow> ('w, bool) jprog" where
  "async_drop_skip H fuel r remaining =
     loop_fuel fuel (\<lambda>remaining.
       if IFin 0 < remaining then
         bnd (AsyncStep H r []) (\<lambda>next. ret (if next = None then Inr False else Inl (inum_pred remaining)))
       else ret (Inr True)) remaining"

definition async_pairs_loop :: "'w async_host \<Rightarrow> iter_rec \<Rightarrow> int \<Rightarrow> val \<Rightarrow> ('w, outcome) jprog" where
  "async_pairs_loop H r index lastValue =
     bnd (AsyncStep H r [lastValue]) (\<lambda>next. case next of
       None \<Rightarrow> ret (Finished Undef)
     | Some result \<Rightarrow>
         bnd (Get (host_part H) result (pstr ''value'')) (\<lambda>v.
         async_closing H r (
           bnd (ArrayLiteral (host_part H) [vint index, v]) (\<lambda>pair. deliver H pair (AtYield (PairsGen r index))))))"

text \<open>\<open>for await (const innerValue of allowContentIter(mapped))\<close>: an async iterator, or one made from an iterator.\<close>

definition open_async :: "'w async_host \<Rightarrow> val \<Rightarrow> ('w, iter_rec) jprog" where
  "open_async H mapped =
     bnd (Get (host_part H) mapped std_asyncIterator) (\<lambda>method.
     bnd (if is_nullish method then
            bnd (open_inner (host_part H) mapped) (\<lambda>r.
            intrinsic H ''CreateAsyncFromSyncIterator'' [rec_iterator r, rec_nextMethod r])
          else
            bnd (Call (host_part H) method mapped []) (\<lambda>it.
            if \<not> IsObject it then throw (TypeErr ''JSMSG_GET_ITER_RETURNED_PRIMITIVE'') else ret it)) (\<lambda>it.
     bnd (Get (host_part H) it (pstr ''next'')) (\<lambda>next. ret \<lparr>rec_iterator = it, rec_nextMethod = next\<rparr>)))"

definition async_inner_step :: "'w async_host \<Rightarrow> iter_rec \<Rightarrow> ('w, val option) jprog" where
  "async_inner_step H inner =
     bnd (Call (host_part H) (rec_nextMethod inner) (rec_iterator inner) []) (\<lambda>p.
     bnd (await H p) (\<lambda>result.
     if \<not> IsObject result then throw (TypeErr ''JSMSG_ITER_METHOD_RETURNED_PRIMITIVE'')
     else
       bnd (Get (host_part H) result (pstr ''done'')) (\<lambda>d.
       if truthy d then ret None else bnd (Get (host_part H) result (pstr ''value'')) (\<lambda>v. ret (Some v)))))"

definition async_inner_return :: "'w async_host \<Rightarrow> iter_rec \<Rightarrow> ('w, unit) jprog" where
  "async_inner_return H inner =
     bnd (Get (host_part H) (rec_iterator inner) (pstr ''return'')) (\<lambda>r.
     if is_nullish r then ret ()
     else
       bnd (Call (host_part H) r (rec_iterator inner) []) (\<lambda>p.
       bnd (await H p) (\<lambda>result.
       if \<not> IsObject result then throw (TypeErr ''JSMSG_ITER_METHOD_RETURNED_PRIMITIVE'') else ret ())))"

text \<open>The body of the inner loop throws: the exception prevails over one of the inner iterator's \<open>return\<close>.\<close>

definition inner_guard :: "'w async_host \<Rightarrow> iter_rec \<Rightarrow> ('w, 'a) jprog \<Rightarrow> ('w, 'a) jprog" where
  "inner_guard H inner m =
     try_catch m (\<lambda>e. sq (try_catch (async_inner_return H inner) (\<lambda>_. ret ())) (throw e))"

text \<open>A step of the inner loop: a value is yielded, or the loop is over.\<close>

definition inner_round :: "'w async_host \<Rightarrow> gen_body \<Rightarrow> iter_rec \<Rightarrow> ('w, outcome option) jprog" where
  "inner_round H b inner =
     bnd (async_inner_step H inner) (\<lambda>x. case x of
       None \<Rightarrow> ret None
     | Some innerValue \<Rightarrow> bnd (inner_guard H inner (deliver H innerValue (AtInner b inner))) (\<lambda>out. ret (Some out)))"

definition async_flat_loop :: "'w async_host \<Rightarrow> nat \<Rightarrow> iter_rec \<Rightarrow> val \<Rightarrow> ('w, outcome) jprog" where
  "async_flat_loop H fuel r mapper =
     loop_fuel fuel (\<lambda>_.
       bnd (AsyncStep H r []) (\<lambda>next. case next of
         None \<Rightarrow> ret (Inr (Finished Undef))
       | Some result \<Rightarrow>
           bnd (Get (host_part H) result (pstr ''value'')) (\<lambda>v.
           bnd (async_closing H r (
                  bnd (Call (host_part H) mapper Undef [v]) (\<lambda>p.
                  bnd (await H p) (\<lambda>mapped.
                  bnd (open_async H mapped) (inner_round H (FlatMapGen r mapper)))))) (\<lambda>x.
           ret (case x of Some out \<Rightarrow> Inr out | None \<Rightarrow> Inl ()))))) ()"

fun async_from_start :: "'w async_host \<Rightarrow> nat \<Rightarrow> gen_body \<Rightarrow> ('w, outcome) jprog" where
  "async_from_start H fuel (MapGen r f) = async_map_loop H r f Undef"
| "async_from_start H fuel (FilterGen r f) = async_filter_loop H fuel r f Undef"
| "async_from_start H fuel (TakeGen r n) = async_take_loop H r n Undef"
| "async_from_start H fuel (DropGen r n) =
     bnd (async_drop_skip H fuel r n) (\<lambda>more. if more then async_drop_loop H r Undef else ret (Finished Undef))"
| "async_from_start H fuel (PairsGen r i) = async_pairs_loop H r i Undef"
| "async_from_start H fuel (FlatMapGen r f) = async_flat_loop H fuel r f"

fun async_from_yield :: "'w async_host \<Rightarrow> nat \<Rightarrow> gen_body \<Rightarrow> val \<Rightarrow> ('w, outcome) jprog" where
  "async_from_yield H fuel (MapGen r f) x = async_map_loop H r f x"
| "async_from_yield H fuel (FilterGen r f) x = async_filter_loop H fuel r f x"
| "async_from_yield H fuel (TakeGen r n) x = async_take_loop H r (inum_pred n) x"
| "async_from_yield H fuel (DropGen r n) x = async_drop_loop H r x"
| "async_from_yield H fuel (PairsGen r i) x = async_pairs_loop H r (i + 1) x"
| "async_from_yield H fuel (FlatMapGen r f) x = async_flat_loop H fuel r f"

text \<open>
  What a generator does from a place where it is suspended until it yields, returns or throws. A \<open>return\<close> sent to it awaits its value
  first, and becomes a \<open>throw\<close> when that fails.
\<close>

fun async_resume :: "'w async_host \<Rightarrow> nat \<Rightarrow> frame \<Rightarrow> resume_kind \<Rightarrow> ('w, outcome) jprog" where
  "async_resume H fuel (AtEntry b) (RNext x) = async_closing H (source b) (deliver H Undef (AtStart b))"
| "async_resume H fuel (AtEntry b) (RThrow e) = throw e"
| "async_resume H fuel (AtEntry b) (RReturn v) = bnd (await H v) (\<lambda>v. ret (Completed v))"
| "async_resume H fuel (AtStart b) (RNext x) = async_from_start H fuel b"
| "async_resume H fuel (AtYield b) (RNext x) = async_from_yield H fuel b x"
| "async_resume H fuel (AtInner b inner) (RNext x) =
     bnd (async_closing H (source b) (inner_round H b inner)) (\<lambda>x. case x of
       Some out \<Rightarrow> ret out
     | None \<Rightarrow> async_from_yield H fuel b Undef)"
| "async_resume H fuel (AtStart b) (RThrow e) = async_closing H (source b) (throw e)"
| "async_resume H fuel (AtYield b) (RThrow e) = async_closing H (source b) (throw e)"
| "async_resume H fuel (AtInner b inner) (RThrow e) = async_closing H (source b) (inner_guard H inner (throw e))"
| "async_resume H fuel (AtStart b) (RReturn v) =
     bnd (async_closing H (source b) (await H v)) (\<lambda>v. bnd (AsyncIteratorClose H (source b) Undef) (\<lambda>_. ret (Completed v)))"
| "async_resume H fuel (AtYield b) (RReturn v) =
     bnd (async_closing H (source b) (await H v)) (\<lambda>v. bnd (AsyncIteratorClose H (source b) Undef) (\<lambda>_. ret (Completed v)))"
| "async_resume H fuel (AtInner b inner) (RReturn v) =
     bnd (async_closing H (source b) (
            bnd (inner_guard H inner (await H v)) (\<lambda>v. sq (async_inner_return H inner) (ret v)))) (\<lambda>v.
     bnd (AsyncIteratorClose H (source b) Undef) (\<lambda>_. ret (Completed v)))"

section \<open>The lazy helpers\<close>

definition ASYNC_ITERATOR_HELPER_GENERATOR_SLOT :: nat where "ASYNC_ITERATOR_HELPER_GENERATOR_SLOT = 0"

text \<open>Async generator objects and the queues of requests to them are native (\<open>new_generator\<close> makes one for a body).\<close>

definition MakeAsyncHelper :: "'w async_host \<Rightarrow> (frame \<Rightarrow> ('w, val) jprog) \<Rightarrow> gen_body \<Rightarrow> ('w, val) jprog" where
  "MakeAsyncHelper H new_generator b =
     bnd (intrinsic H ''NewAsyncIteratorHelper'' []) (\<lambda>iteratorHelper.
     bnd (new_generator (AtEntry b)) (\<lambda>generator.
     sq (intrinsic H ''IntrinsicAsyncGeneratorNext'' [generator])
    (sq (set_slot H iteratorHelper ASYNC_ITERATOR_HELPER_GENERATOR_SLOT generator) (ret iteratorHelper))))"

definition CheckAsyncFunction :: "'w async_host \<Rightarrow> val \<Rightarrow> ('w, unit) jprog" where
  "CheckAsyncFunction H f =
     bnd (IsCallable (host_part H) f) (\<lambda>c. if \<not> c then throw (TypeErr ''JSMSG_NOT_FUNCTION'') else ret ())"

definition CheckLimit :: "'w async_host \<Rightarrow> val \<Rightarrow> ('w, inum) jprog" where
  "CheckLimit H limit =
     bnd (ToInteger (host_part H) limit) (\<lambda>remaining.
     if remaining < IFin 0 then throw (RangeErr ''JSMSG_NEGATIVE_LIMIT'') else ret remaining)"

definition AsyncIteratorMap :: "'w async_host \<Rightarrow> (frame \<Rightarrow> ('w, val) jprog) \<Rightarrow> val \<Rightarrow> val \<Rightarrow> ('w, val) jprog" where
  "AsyncIteratorMap H new_generator this mapper =
     bnd (GetIteratorDirect (host_part H) this) (\<lambda>iterated.
     sq (CheckAsyncFunction H mapper) (MakeAsyncHelper H new_generator (MapGen iterated mapper)))"

definition AsyncIteratorFilter :: "'w async_host \<Rightarrow> (frame \<Rightarrow> ('w, val) jprog) \<Rightarrow> val \<Rightarrow> val \<Rightarrow> ('w, val) jprog" where
  "AsyncIteratorFilter H new_generator this filterer =
     bnd (GetIteratorDirect (host_part H) this) (\<lambda>iterated.
     sq (CheckAsyncFunction H filterer) (MakeAsyncHelper H new_generator (FilterGen iterated filterer)))"

definition AsyncIteratorTake :: "'w async_host \<Rightarrow> (frame \<Rightarrow> ('w, val) jprog) \<Rightarrow> val \<Rightarrow> val \<Rightarrow> ('w, val) jprog" where
  "AsyncIteratorTake H new_generator this limit =
     bnd (GetIteratorDirect (host_part H) this) (\<lambda>iterated.
     bnd (CheckLimit H limit) (\<lambda>remaining. MakeAsyncHelper H new_generator (TakeGen iterated remaining)))"

definition AsyncIteratorDrop :: "'w async_host \<Rightarrow> (frame \<Rightarrow> ('w, val) jprog) \<Rightarrow> val \<Rightarrow> val \<Rightarrow> ('w, val) jprog" where
  "AsyncIteratorDrop H new_generator this limit =
     bnd (GetIteratorDirect (host_part H) this) (\<lambda>iterated.
     bnd (CheckLimit H limit) (\<lambda>remaining. MakeAsyncHelper H new_generator (DropGen iterated remaining)))"

definition AsyncIteratorAsIndexedPairs :: "'w async_host \<Rightarrow> (frame \<Rightarrow> ('w, val) jprog) \<Rightarrow> val \<Rightarrow> ('w, val) jprog" where
  "AsyncIteratorAsIndexedPairs H new_generator this =
     bnd (GetIteratorDirect (host_part H) this) (\<lambda>iterated. MakeAsyncHelper H new_generator (PairsGen iterated 0))"

definition AsyncIteratorFlatMap :: "'w async_host \<Rightarrow> (frame \<Rightarrow> ('w, val) jprog) \<Rightarrow> val \<Rightarrow> val \<Rightarrow> ('w, val) jprog" where
  "AsyncIteratorFlatMap H new_generator this mapper =
     bnd (GetIteratorDirect (host_part H) this) (\<lambda>iterated.
     sq (CheckAsyncFunction H mapper) (MakeAsyncHelper H new_generator (FlatMapGen iterated mapper)))"

definition AsyncHelperMethod :: "'w async_host \<Rightarrow> string \<Rightarrow> string \<Rightarrow> val \<Rightarrow> val \<Rightarrow> ('w, val) jprog" where
  "AsyncHelperMethod H name request this v =
     bnd (HasClass (host_part H) ''AsyncIteratorHelper'' this) (\<lambda>ok.
     if \<not> ok then intrinsic H ''CallAsyncIteratorHelperMethodIfWrapped'' [this, v, vstr name]
     else bnd (get_slot H this ASYNC_ITERATOR_HELPER_GENERATOR_SLOT) (\<lambda>generator. intrinsic H request [generator, v]))"

definition AsyncIteratorHelperNext :: "'w async_host \<Rightarrow> val \<Rightarrow> val \<Rightarrow> ('w, val) jprog" where
  "AsyncIteratorHelperNext H = AsyncHelperMethod H ''AsyncIteratorHelperNext'' ''IntrinsicAsyncGeneratorNext''"

definition AsyncIteratorHelperReturn :: "'w async_host \<Rightarrow> val \<Rightarrow> val \<Rightarrow> ('w, val) jprog" where
  "AsyncIteratorHelperReturn H = AsyncHelperMethod H ''AsyncIteratorHelperReturn'' ''IntrinsicAsyncGeneratorReturn''"

definition AsyncIteratorHelperThrow :: "'w async_host \<Rightarrow> val \<Rightarrow> val \<Rightarrow> ('w, val) jprog" where
  "AsyncIteratorHelperThrow H = AsyncHelperMethod H ''AsyncIteratorHelperThrow'' ''IntrinsicAsyncGeneratorThrow''"

section \<open>The eager helpers\<close>

text \<open>
  \<open>GetAsyncIteratorDirectWrapper\<close> gives an async iterator whose \<open>next\<close> and \<open>return\<close> call those of \<open>obj\<close>; as with the
  wrapper of \<open>IteratorHelpers\<close>, it is known by its record, and the value that the loops pass on is \<open>undefined\<close>. Its \<open>return\<close> is an async
  function.
\<close>

definition GetAsyncIteratorDirectWrapper :: "'w async_host \<Rightarrow> val \<Rightarrow> ('w, iter_rec) jprog" where
  "GetAsyncIteratorDirectWrapper H obj = GetIteratorDirect (host_part H) obj"

definition async_wrapper_next :: "'w async_host \<Rightarrow> iter_rec \<Rightarrow> ('w, val) jprog" where
  "async_wrapper_next H r = bnd (Call (host_part H) (rec_nextMethod r) (rec_iterator r) [Undef]) (await H)"

definition async_wrapper_return :: "'w async_host \<Rightarrow> iter_rec \<Rightarrow> ('w, val) jprog" where
  "async_wrapper_return H r =
     bnd (async_call H (
       bnd (Get (host_part H) (rec_iterator r) (pstr ''return'')) (\<lambda>returnMethod.
       if \<not> is_nullish returnMethod then Call (host_part H) returnMethod (rec_iterator r) [Undef]
       else ObjectLiteral (host_part H) [(pstr ''done'', Bool True), (pstr ''value'', Undef)]))) (await H)"

text \<open>\<open>for await (const value of allowContentIter(iterated)) body\<close>; the body goes on with \<open>Inl\<close> or returns with \<open>Inr\<close>.\<close>

definition for_await ::
    "'w async_host \<Rightarrow> nat \<Rightarrow> iter_rec \<Rightarrow> (val \<Rightarrow> 'c \<Rightarrow> ('w, 'c + 'r) jprog) \<Rightarrow> 'c \<Rightarrow> ('w, 'c + 'r) jprog" where
  "for_await H fuel r body c =
     loop_fuel fuel (\<lambda>c.
       bnd (async_wrapper_next H r) (\<lambda>result.
       if \<not> IsObject result then throw (TypeErr ''JSMSG_ITER_METHOD_RETURNED_PRIMITIVE'')
       else
         bnd (Get (host_part H) result (pstr ''done'')) (\<lambda>d.
         if truthy d then ret (Inr (Inl c))
         else
           bnd (Get (host_part H) result (pstr ''value'')) (\<lambda>v.
           bnd (try_catch (body v c) (\<lambda>e.
                  sq (try_catch (bnd (async_wrapper_return H r) (\<lambda>_. ret ())) (\<lambda>_. ret ())) (throw e))) (\<lambda>x. case x of
             Inl c \<Rightarrow> ret (Inl c)
           | Inr y \<Rightarrow>
               bnd (async_wrapper_return H r) (\<lambda>closed.
               if \<not> IsObject closed then throw (TypeErr ''JSMSG_ITER_METHOD_RETURNED_PRIMITIVE'')
               else ret (Inr (Inr y)))))))) c"

definition AsyncEagerPrelude :: "'w async_host \<Rightarrow> val \<Rightarrow> val \<Rightarrow> ('w, iter_rec) jprog" where
  "AsyncEagerPrelude H this fn =
     bnd (GetAsyncIteratorDirectWrapper H this) (\<lambda>iterated. sq (CheckAsyncFunction H fn) (ret iterated))"

text \<open>A call of a callback whose promise is awaited.\<close>

definition CallAwait :: "'w async_host \<Rightarrow> val \<Rightarrow> val list \<Rightarrow> ('w, val) jprog" where
  "CallAwait H fn args = bnd (Call (host_part H) fn Undef args) (await H)"

definition AsyncIteratorReduce :: "'w async_host \<Rightarrow> nat \<Rightarrow> val \<Rightarrow> val list \<Rightarrow> ('w, val) jprog" where
  "AsyncIteratorReduce H fuel this args = async_call H (
     bnd (AsyncEagerPrelude H this (arg args 0)) (\<lambda>iterated.
     bnd (if length args = 1 then
            bnd (async_wrapper_next H iterated) (\<lambda>next.
            if \<not> IsObject next then throw (TypeErr ''JSMSG_OBJECT_REQUIRED'')
            else
              bnd (Get (host_part H) next (pstr ''done'')) (\<lambda>d.
              if truthy d then throw (TypeErr ''JSMSG_EMPTY_ITERATOR_REDUCE'')
              else Get (host_part H) next (pstr ''value'')))
          else ret (arg args 1)) (\<lambda>accumulator.
     bnd (for_await H fuel iterated
            (\<lambda>v accumulator. bnd (CallAwait H (arg args 0) [accumulator, v]) (\<lambda>a. ret (Inl a))) accumulator)
         (\<lambda>x. case x of Inl a \<Rightarrow> ret a | Inr a \<Rightarrow> ret a))))"

text \<open>The iterator of \<open>{[std_asyncIterator]: () => this}\<close> is \<open>this\<close>, so the loop calls its \<open>next\<close> itself.\<close>

definition AsyncIteratorToArray :: "'w async_host \<Rightarrow> nat \<Rightarrow> val \<Rightarrow> ('w, val) jprog" where
  "AsyncIteratorToArray H fuel this = async_call H (
     bnd (ArrayLiteral (host_part H) []) (\<lambda>items.
     if \<not> IsObject this then throw (TypeErr ''JSMSG_GET_ITER_RETURNED_PRIMITIVE'')
     else
       bnd (Get (host_part H) this (pstr ''next'')) (\<lambda>next.
       loop_fuel fuel (\<lambda>index.
         bnd (async_inner_step H \<lparr>rec_iterator = this, rec_nextMethod = next\<rparr>) (\<lambda>x. case x of
           None \<Rightarrow> ret (Inr items)
         | Some v \<Rightarrow> sq (define_data H items (PIdx index) v) (ret (Inl (index + 1))))) 0)))"

definition AsyncIteratorForEach :: "'w async_host \<Rightarrow> nat \<Rightarrow> val \<Rightarrow> val \<Rightarrow> ('w, val) jprog" where
  "AsyncIteratorForEach H fuel this fn = async_call H (
     bnd (AsyncEagerPrelude H this fn) (\<lambda>iterated.
     bnd (for_await H fuel iterated (\<lambda>v _. bnd (CallAwait H fn [v]) (\<lambda>_. ret (Inl ()))) ())
         (\<lambda>x. case x of Inl _ \<Rightarrow> ret Undef | Inr y \<Rightarrow> ret y)))"

definition async_search ::
    "'w async_host \<Rightarrow> nat \<Rightarrow> val \<Rightarrow> val \<Rightarrow> (val \<Rightarrow> val \<Rightarrow> val option) \<Rightarrow> val \<Rightarrow> ('w, val) jprog" where
  "async_search H fuel this fn stop after = async_call H (
     bnd (AsyncEagerPrelude H this fn) (\<lambda>iterated.
     bnd (for_await H fuel iterated (\<lambda>v _.
            bnd (CallAwait H fn [v]) (\<lambda>x. ret (case stop v x of Some y \<Rightarrow> Inr y | None \<Rightarrow> Inl ()))) ())
         (\<lambda>x. case x of Inl _ \<Rightarrow> ret after | Inr y \<Rightarrow> ret y)))"

definition AsyncIteratorSome :: "'w async_host \<Rightarrow> nat \<Rightarrow> val \<Rightarrow> val \<Rightarrow> ('w, val) jprog" where
  "AsyncIteratorSome H fuel this fn =
     async_search H fuel this fn (\<lambda>v x. if truthy x then Some (Bool True) else None) (Bool False)"

definition AsyncIteratorEvery :: "'w async_host \<Rightarrow> nat \<Rightarrow> val \<Rightarrow> val \<Rightarrow> ('w, val) jprog" where
  "AsyncIteratorEvery H fuel this fn =
     async_search H fuel this fn (\<lambda>v x. if \<not> truthy x then Some (Bool False) else None) (Bool True)"

definition AsyncIteratorFind :: "'w async_host \<Rightarrow> nat \<Rightarrow> val \<Rightarrow> val \<Rightarrow> ('w, val) jprog" where
  "AsyncIteratorFind H fuel this fn =
     async_search H fuel this fn (\<lambda>v x. if truthy x then Some v else None) Undef"

end
