(* ===== verification/AsyncProps.thy ===== *)
theory AsyncProps
  imports AsyncIteration IteratorProps
begin

text \<open>
  The lazy helpers of async iterators against those of iterators: where the source answers with promises, an async helper does what the
  other helper does on an engine that awaits the result of every call. So what \<open>IteratorProps\<close> shows of drained helpers carries over.
\<close>

section \<open>Simulation of returning programs\<close>

text \<open>What \<open>m\<close> returns from \<open>w\<close>, \<open>m'\<close> returns too, for results in \<open>P\<close>.\<close>

definition sim :: "('a \<Rightarrow> bool) \<Rightarrow> ('s, 'e, 'a) prog \<Rightarrow> ('s, 'e, 'a) prog \<Rightarrow> 's \<Rightarrow> bool" where
  "sim P m m' w \<longleftrightarrow> (\<forall>a w'. m w = (Ret a, w') \<longrightarrow> P a \<longrightarrow> m' w = (Ret a, w'))"

named_theorems sim_intros "how programs simulate each other"

lemma sim_refl [sim_intros]: "sim P m m w"
  by (simp add: sim_def)

lemma sim_throw [sim_intros]: "sim P (throw e) m w"
  by (simp add: sim_def throw_def)

lemma sim_bnd [sim_intros]: "sim (\<lambda>_. True) m m' w \<Longrightarrow> (\<And>a t. sim P (f a) (f' a) t) \<Longrightarrow> sim P (bnd m f) (bnd m' f') w"
  by (auto simp: sim_def bnd_def split: prod.splits res.splits)

lemma sim_if [sim_intros]: "(b \<Longrightarrow> sim P m m' w) \<Longrightarrow> (\<not> b \<Longrightarrow> sim P n n' w) \<Longrightarrow> sim P (if b then m else n) (if b then m' else n') w"
  by simp

text \<open>What follows the closing block there is in it here; a block that returns has not closed.\<close>

lemma sim_closing [sim_intros]:
  "(\<And>v u. sim P (f v) (g v) u) \<Longrightarrow>
   sim P (bnd (closing S r (bnd m k)) f) (async_closing H r (bnd m (\<lambda>p. bnd (k p) g))) w"
  by (auto simp: sim_def closing_def async_closing_def try_catch_def sq_def bnd_def throw_def split: prod.splits res.splits)

lemma sim_loop [sim_intros]:
  assumes "\<And>c t. sim (\<lambda>x. case x of Inl _ \<Rightarrow> True | Inr r \<Rightarrow> P r) (body c) (body' c) t"
  shows "sim P (loop_fuel n body c) (loop_fuel n body' c) w"
proof (induction n arbitrary: c w)
  case (Suc n c w)
  have "loop_fuel (Suc n) body' c w = (Ret a, w')" if run: "loop_fuel (Suc n) body c w = (Ret a, w')" and P: "P a" for a w'
  proof -
    obtain x t where x: "body c w = (Ret x, t)" using run by (auto simp: bnd_def split: prod.splits res.splits)
    have "(case x of Inl _ \<Rightarrow> True | Inr r \<Rightarrow> P r)" using run x P by (auto simp: bnd_def ret_def split: sum.splits)
    with assms [of c w] x have "body' c w = (Ret x, t)" by (simp add: sim_def)
    with run x P Suc.IH show ?thesis by (cases x) (auto simp: bnd_def sim_def)
  qed
  then show ?case by (simp add: sim_def)
qed (simp add: sim_def no_fuel_def)

lemma simD: "sim P m m' w \<Longrightarrow> m w = (Ret a, w') \<Longrightarrow> P a \<Longrightarrow> m' w = (Ret a, w')"
  by (simp add: sim_def)

section \<open>An engine that awaits\<close>

definition awaiting :: "'w async_host \<Rightarrow> 'w host" where
  "awaiting H = (host_part H)\<lparr>call_fn := (\<lambda>f T args. bnd (call_fn H f T args) (await H))\<rparr>"

lemma awaiting_fields [simp]:
  "get_prop (awaiting H) = get_prop H" "callable (awaiting H) = callable H"
  "call_fn (awaiting H) f T args = bnd (call_fn H f T args) (await H)"
  "get_prop (host_part H) = get_prop H" "callable (host_part H) = callable H" "call_fn (host_part H) = call_fn H"
  by (simp_all add: awaiting_def host.truncate_def)

lemma awaiting_language [simp]: "Get (awaiting H) = Get (host_part H)" "IsCallable (awaiting H) = IsCallable (host_part H)"
  unfolding Get_def [abs_def] IsCallable_def [abs_def] by (simp_all cong: if_cong)

lemma awaiting_Call: "Call (awaiting H) f T args = bnd (Call (host_part H) f T args) (await H)"
  by (simp add: Call_def bnd_assoc bnd_if cong: if_cong)

text \<open>The \<open>next\<close> method of the source gives objects, such as promises.\<close>

definition promising :: "'w async_host \<Rightarrow> iter_rec \<Rightarrow> bool" where
  "promising H r \<longleftrightarrow> (\<forall>args w p w'. Call (host_part H) (rec_nextMethod r) (rec_iterator r) args w = (Ret p, w') \<longrightarrow> IsObject p)"

lemma sim_step [sim_intros]:
  assumes "promising H r"
  shows "sim P (IteratorStep (awaiting H) r args) (AsyncStep H r args) w"
  using assms
  by (auto simp: sim_def promising_def IteratorStep_def AsyncStep_def IteratorNext_def awaiting_Call bnd_def ret_def throw_def
      split: prod.splits res.splits if_splits)

definition settled :: "'w async_host \<Rightarrow> val \<Rightarrow> bool" where
  "settled H v \<longleftrightarrow> (\<forall>w. await H v w = (Ret v, w))"

text \<open>The value of an outcome is one that awaiting does not change.\<close>

definition settles :: "'w async_host \<Rightarrow> outcome \<Rightarrow> bool" where
  "settles H out \<longleftrightarrow> (case out of Yielded v f \<Rightarrow> settled H v | _ \<Rightarrow> True)"

lemma deliver_settled: "settled H v \<Longrightarrow> deliver H v f w = (Ret (Yielded v f), w)"
  by (simp add: settled_def deliver_def ret_def bnd_def)

lemma sim_deliver [sim_intros]: "sim (settles H) (ret (Yielded v f)) (async_closing H r (deliver H v f)) w"
  by (simp add: sim_def settles_def async_closing_def try_catch_def deliver_settled ret_def)

lemma sim_option [sim_intros]:
  "sim P m m' w \<Longrightarrow> (\<And>v. x = Some v \<Longrightarrow> sim P (f v) (f' v) w) \<Longrightarrow>
   sim P (case x of None \<Rightarrow> m | Some v \<Rightarrow> f v) (case x of None \<Rightarrow> m' | Some v \<Rightarrow> f' v) w"
  by (cases x) simp_all

section \<open>The loops\<close>

lemma sim_map_loop:
  "promising H r \<Longrightarrow> sim (\<lambda>_. True) (map_loop (awaiting H) r f x) (async_map_loop H r f x) w"
  unfolding map_loop_def async_map_loop_def awaiting_Call awaiting_language deliver_def
  by (rule sim_bnd sim_step sim_option sim_closing sim_refl | assumption)+

lemma sim_select:
  "sim (\<lambda>x. case x of Inl _ \<Rightarrow> True | Inr out \<Rightarrow> settles H out) (ret (if b then Inr (Yielded v f) else Inl ()))
     (if b then bnd (deliver H v f) (\<lambda>out. ret (Inr out)) else ret (Inl ())) w"
  by (simp add: sim_def settles_def ret_def bnd_def deliver_settled)

lemma sim_filter_loop:
  "promising H r \<Longrightarrow> sim (settles H) (filter_loop (awaiting H) fuel r f x) (async_filter_loop H fuel r f x) w"
  unfolding filter_loop_def async_filter_loop_def awaiting_Call awaiting_language
  by (rule sim_loop sim_bnd sim_step sim_option sim_closing sim_select sim_refl | assumption)+

lemma sim_drop_loop:
  "promising H r \<Longrightarrow> sim (settles H) (drop_loop (awaiting H) r x) (async_drop_loop H r x) w"
  unfolding drop_loop_def async_drop_loop_def awaiting_language by (intro sim_intros)

lemma sim_drop_skip:
  "promising H r \<Longrightarrow> sim P (drop_skip (awaiting H) fuel r n) (async_drop_skip H fuel r n) w"
  unfolding drop_skip_def async_drop_skip_def by (intro sim_intros)

section \<open>Drained helpers\<close>

fun async_drain :: "'w async_host \<Rightarrow> nat \<Rightarrow> nat \<Rightarrow> frame \<Rightarrow> ('w, val list) jprog" where
  "async_drain H fuel 0 f = no_fuel"
| "async_drain H fuel (Suc n) f =
     bnd (async_resume H fuel f (RNext Undef)) (\<lambda>out. case out of
       Yielded v f' \<Rightarrow> bnd (async_drain H fuel n f') (\<lambda>vs. ret (v # vs))
     | Finished v \<Rightarrow> ret []
     | Completed v \<Rightarrow> ret [])"

text \<open>For a set \<open>F\<close> of frames that a generator goes through: one resumption after the other.\<close>

lemma sim_drain:
  assumes step: "\<And>f w. F f \<Longrightarrow> sim (\<lambda>out. case out of Yielded v _ \<Rightarrow> good v | _ \<Rightarrow> True)
      (gen_resume S fuel f (RNext Undef)) (async_resume H fuel f (RNext Undef)) w"
    and stays: "\<And>f w. F f \<Longrightarrow> wlp (gen_resume S fuel f (RNext Undef)) (\<lambda>out _. case out of Yielded _ f' \<Rightarrow> F f' | _ \<Rightarrow> True) w"
  shows "F f \<Longrightarrow> sim (list_all good) (drain S fuel n f) (async_drain H fuel n f) w"
proof (induction n arbitrary: f w)
  case (Suc n f w)
  have "async_drain H fuel (Suc n) f w = (Ret vs, w')" if run: "drain S fuel (Suc n) f w = (Ret vs, w')" and vs: "list_all good vs" for vs w'
  proof -
    obtain out t where out: "gen_resume S fuel f (RNext Undef) w = (Ret out, t)"
      using run by (auto simp: bnd_def split: prod.splits res.splits)
    have good: "case out of Yielded v _ \<Rightarrow> good v | _ \<Rightarrow> True" using run out vs
      by (auto simp: bnd_def ret_def split: outcome.splits prod.splits res.splits)
    then have out': "async_resume H fuel f (RNext Undef) w = (Ret out, t)" using step [OF Suc.prems, of w] out by (simp add: sim_def)
    show ?thesis
    proof (cases out)
      case (Yielded v f')
      then have "F f'" using wlpD [OF stays [OF Suc.prems, of w] out] by simp
      from Suc.IH [OF this, of t] run out out' Yielded vs show ?thesis
        by (auto simp: bnd_def ret_def sim_def split: prod.splits res.splits)
    qed (use run out out' in \<open>auto simp: bnd_def\<close>)
  qed
  then show ?case by (simp add: sim_def)
qed (simp add: sim_def no_fuel_def)

lemma loop_stays:
  "wlp (map_loop S r f x) (\<lambda>out _. case out of Yielded _ f' \<Rightarrow> f' = AtYield (MapGen r f) | _ \<Rightarrow> True) w"
  "wlp (filter_loop S fuel r f x) (\<lambda>out _. case out of Yielded _ f' \<Rightarrow> f' = AtYield (FilterGen r f) | _ \<Rightarrow> True) w"
  "wlp (drop_loop S r x) (\<lambda>out _. case out of Yielded _ f' \<Rightarrow> f' = AtYield (DropGen r (IFin 0)) | _ \<Rightarrow> True) w"
  unfolding map_loop_def filter_loop_def drop_loop_def
  by (auto intro!: wlp_any wlp_loop_any simp: wlp_ret split: option.split)

lemma sim_drains:
  assumes "promising H r"
  shows "sim (\<lambda>_. True) (drain (awaiting H) fuel n (AtStart (MapGen r f))) (async_drain H fuel n (AtStart (MapGen r f))) w"
    "sim (list_all (settled H)) (drain (awaiting H) fuel n (AtStart (FilterGen r f))) (async_drain H fuel n (AtStart (FilterGen r f))) w"
    "sim (list_all (settled H)) (drain (awaiting H) fuel n (AtStart (DropGen r k))) (async_drain H fuel n (AtStart (DropGen r k))) w"
proof -
  let ?S = "awaiting H"
  have any: "sim (\<lambda>_. True) m m' w \<Longrightarrow> sim (\<lambda>out. case out of Yielded v _ \<Rightarrow> True | _ \<Rightarrow> True) m m' w" for m m' :: "('a, outcome) jprog" and w
    by (simp add: sim_def)
  have "sim (list_all (\<lambda>_. True)) (drain ?S fuel n (AtStart (MapGen r f))) (async_drain H fuel n (AtStart (MapGen r f))) w"
  proof (rule sim_drain [where F = "\<lambda>x. x = AtStart (MapGen r f) \<or> x = AtYield (MapGen r f)"])
    show "sim (\<lambda>out. case out of Yielded v _ \<Rightarrow> True | _ \<Rightarrow> True)
        (gen_resume ?S fuel x (RNext Undef)) (async_resume H fuel x (RNext Undef)) w"
      if "x = AtStart (MapGen r f) \<or> x = AtYield (MapGen r f)" for x w
      using that by (auto intro!: any sim_map_loop assms)
  qed (auto intro!: wlp_mono [OF loop_stays(1)] split: outcome.splits)
  then show "sim (\<lambda>_. True) (drain ?S fuel n (AtStart (MapGen r f))) (async_drain H fuel n (AtStart (MapGen r f))) w"
    by (simp add: sim_def list_all_iff)
  show "sim (list_all (settled H)) (drain ?S fuel n (AtStart (FilterGen r f))) (async_drain H fuel n (AtStart (FilterGen r f))) w"
  proof (rule sim_drain [where F = "\<lambda>x. x = AtStart (FilterGen r f) \<or> x = AtYield (FilterGen r f)"])
    show "sim (\<lambda>out. case out of Yielded v _ \<Rightarrow> settled H v | _ \<Rightarrow> True)
        (gen_resume ?S fuel x (RNext Undef)) (async_resume H fuel x (RNext Undef)) w"
      if "x = AtStart (FilterGen r f) \<or> x = AtYield (FilterGen r f)" for x w
      using that sim_filter_loop [OF assms] by (auto simp: settles_def [abs_def])
  qed (auto intro!: wlp_mono [OF loop_stays(2)] split: outcome.splits)
  show "sim (list_all (settled H)) (drain ?S fuel n (AtStart (DropGen r k))) (async_drain H fuel n (AtStart (DropGen r k))) w"
  proof (rule sim_drain [where F = "\<lambda>x. x = AtStart (DropGen r k) \<or> x = AtYield (DropGen r (IFin 0))"])
    have "sim (settles H) (gen_resume ?S fuel x (RNext Undef)) (async_resume H fuel x (RNext Undef)) w"
      if "x = AtStart (DropGen r k) \<or> x = AtYield (DropGen r (IFin 0))" for x w
      using that by (elim disjE) (auto intro!: sim_bnd sim_drop_skip sim_drop_loop sim_refl assms)
    then show "sim (\<lambda>out. case out of Yielded v _ \<Rightarrow> settled H v | _ \<Rightarrow> True)
        (gen_resume ?S fuel x (RNext Undef)) (async_resume H fuel x (RNext Undef)) w"
      if "x = AtStart (DropGen r k) \<or> x = AtYield (DropGen r (IFin 0))" for x w
      using that by (simp add: settles_def [abs_def])
  qed (auto intro!: wlp_any wlp_mono [OF loop_stays(3)] simp: wlp_ret split: outcome.splits)
qed

text \<open>
  C13: the lazy helpers of async iterators, drained, give the same lists as those of iterators: where the promises of the
  source come to results with the values \<open>xs\<close> and to an end, the promises of the callback to the values of \<open>g\<close>, and none of \<open>xs\<close> is a
  promise itself, \<open>map\<close>, \<open>filter\<close> and \<open>drop\<close> give the values of \<open>map\<close>, \<open>filter\<close> and \<open>drop\<close> on \<open>xs\<close>, and draw the source to its end.
\<close>

theorem async_helpers_lists:
  assumes "promising H r" "pure_fn (awaiting H) f g" "yields (awaiting H) r w xs w1" "at_end (awaiting H) r w1 w2"
    and "length xs < n" "length xs < fuel" "list_all (settled H) xs"
  shows "async_drain H fuel n (AtStart (MapGen r f)) w = (Ret (map g xs), w2)
    \<and> async_drain H fuel n (AtStart (FilterGen r f)) w = (Ret (filter (\<lambda>v. truthy (g v)) xs), w2)
    \<and> async_drain H fuel n (AtStart (DropGen r (IFin (int k)))) w = (Ret (drop k xs), w2)"
proof -
  have vals: "list_all (settled H) (filter P xs)" "list_all (settled H) (drop k xs)" for P
    using assms(7) by (auto simp: list_all_iff dest: in_set_dropD)
  have lists: "drain (awaiting H) fuel n (AtStart (MapGen r f)) w = (Ret (map g xs), w2)"
    "drain (awaiting H) fuel n (AtStart (FilterGen r f)) w = (Ret (filter (\<lambda>v. truthy (g v)) xs), w2)"
    "drain (awaiting H) fuel n (AtStart (DropGen r (IFin (int k)))) w = (Ret (drop k xs), w2)"
    using map_drain [OF assms(2-5)] filter_drain [OF assms(2,4,3,5,6)] start_drop [OF assms(3,4,6,5)] by (simp_all add: start_yield)
  show ?thesis
    using simD [OF sim_drains(1) [OF assms(1)] lists(1)] simD [OF sim_drains(2) [OF assms(1)] lists(2)]
      simD [OF sim_drains(3) [OF assms(1)] lists(3)] vals by simp
qed

section \<open>How they fail\<close>

text \<open>
  An exception of the mapper, or of its promise, comes out of the generator, after the source's \<open>return\<close> has been called: what happens
  to the promise of that is lost. (In the helpers of iterators an exception of \<open>return\<close> prevails.)
\<close>

lemma async_map_error:
  assumes "\<And>m w. \<exists>p w'. async_call H m w = (Ret p, w')"
    and "AsyncStep H r [x] w = (Ret (Some result), w1)" "Get (host_part H) result (pstr ''value'') w1 = (Ret v, w2)"
    and "bnd (Call (host_part H) f Undef [v]) (await H) w2 = (Throw e, w3)"
  shows "\<exists>p w'. AsyncIteratorClose H r Undef w3 = (Ret p, w') \<and> async_resume H fuel (AtYield (MapGen r f)) (RNext x) w = (Throw e, w')"
proof -
  obtain p w' where p: "AsyncIteratorClose H r Undef w3 = (Ret p, w')" using assms(1) unfolding AsyncIteratorClose_def by blast
  have "bnd (Call (host_part H) f Undef [v]) (\<lambda>m. deliver H m (AtYield (MapGen r f))) w2 = (Throw e, w3)"
    using assms(4) by (auto simp: bnd_def deliver_def split: prod.splits res.splits)
  with p show ?thesis
    by (simp add: async_map_loop_def async_closing_def try_catch_def bnd_def throw_def assms(2,3))
qed

text \<open>What the source's promise comes to is not tested: a source whose promises come to a Number never ends.\<close>

lemma AsyncStep_primitive:
  assumes "IteratorNext (host_part H) r args w = (Ret p, w1)" "await H p w1 = (Ret (vint i), w2)"
    and "get_prop H (vint i) (pstr ''done'') w2 = (Ret Undef, w2)"
  shows "AsyncStep H r args w = (Ret (Some (vint i)), w2)"
  using assms by (simp add: AsyncStep_def bnd_def ret_def Get_def is_nullish_def)

end
