(* ===== verification/AsyncExamples.thy ===== *)
theory AsyncExamples
  imports AsyncProps
begin

text \<open>
  The engine of \<open>JSEngine\<close> with promises that are settled at once, a source that answers with promises, and the list property of
  the async helpers on them.
\<close>

section \<open>An engine with promises\<close>

text \<open>A promise is an object with the state in its slots: whether it is fulfilled, and the value or the reason.\<close>

definition promise_obj :: "bool \<Rightarrow> val \<Rightarrow> jobj" where
  "promise_obj ok v = plain_obj\<lparr>slots := (\<lambda>_. Undef)(0 := Bool ok, 1 := v), class_name := ''Promise''\<rparr>"

definition eng_await :: "val \<Rightarrow> (eng, val) jprog" where
  "eng_await v =
     bnd (gets (\<lambda>w. obj_test (\<lambda>r. class_name r = ''Promise'') w v)) (\<lambda>promise.
     if promise then
       bnd (eng_get_slot v 0) (\<lambda>ok. bnd (eng_get_slot v 1) (\<lambda>x. if truthy ok then ret x else throw (Thrown x)))
     else ret v)"

definition eng_async_call :: "(eng, val) jprog \<Rightarrow> (eng, val) jprog" where
  "eng_async_call m =
     bnd (try_catch (bnd m (\<lambda>v. ret (True, v))) (\<lambda>e. ret (False, case e of Thrown v \<Rightarrow> v | _ \<Rightarrow> Undef))) (\<lambda>(ok, v).
     eng_new (promise_obj ok v))"

definition async_engine :: "code_table \<Rightarrow> eng async_host" where
  "async_engine code = host.extend (engine code) (async_host.fields eng_await eng_async_call)"

lemma async_engine_simps [simp]:
  "host_part (async_engine code) = engine code" "await (async_engine code) = eng_await" "call_fn (async_engine code) = eng_call code"
  by (simp_all add: async_engine_def host.truncate_def host.extend_def async_host.fields_def engine_def)

section \<open>A source\<close>

text \<open>Object 2 is the iterator, its slot counts; 3 to 5 are the results and 6 to 8 promises of them.\<close>

definition ex_res :: "int \<Rightarrow> bool \<Rightarrow> jobj" where
  "ex_res v d = plain_obj\<lparr>props := [pstr ''value'' \<mapsto> vint v, pstr ''done'' \<mapsto> Bool d]\<rparr>"

definition ex_async :: "int \<Rightarrow> eng" where
  "ex_async k = \<lparr>heap = [plain_obj\<lparr>proto := None\<rparr>, plain_obj, plain_obj\<lparr>slots := (\<lambda>_. Undef)(0 := vint k)\<rparr>,
     ex_res 5 False, ex_res 0 False, ex_res 0 True, promise_obj True (Obj 3), promise_obj True (Obj 4), promise_obj True (Obj 5)]\<rparr>"

definition ex_async_code :: code_table where
  "ex_async_code = [10 \<mapsto> (\<lambda>T args. bnd (eng_get_slot T 0) (\<lambda>k.
       if k = vint 0 then sq (eng_set_slot T 0 (vint 1)) (ret (Obj 6))
       else if k = vint 1 then sq (eng_set_slot T 0 (vint 2)) (ret (Obj 7))
       else ret (Obj 8))),
     11 \<mapsto> (\<lambda>T args. ret (Bool (truthy (arg args 0))))]"

definition ex_async_rec :: iter_rec where
  "ex_async_rec = \<lparr>rec_iterator = Obj 2, rec_nextMethod = Obj 10\<rparr>"

abbreviation ex_async_host :: "eng async_host" where
  "ex_async_host \<equiv> async_engine ex_async_code"

lemma ex_async_call:
  "Call (engine ex_async_code) (Obj 10) (Obj 2) args (ex_async 0) = (Ret (Obj 6), ex_async 1)"
  "Call (engine ex_async_code) (Obj 10) (Obj 2) args (ex_async 1) = (Ret (Obj 7), ex_async 2)"
  "Call (engine ex_async_code) (Obj 10) (Obj 2) args (ex_async 2) = (Ret (Obj 8), ex_async 2)"
  by (simp_all add: Call_def IsCallable_def run_simps eng_call_def ex_async_code_def ex_async_def upd_obj_def)

lemma ex_async_await:
  "eng_await (Obj 6) (ex_async k) = (Ret (Obj 3), ex_async k)"
  "eng_await (Obj 7) (ex_async k) = (Ret (Obj 4), ex_async k)"
  "eng_await (Obj 8) (ex_async k) = (Ret (Obj 5), ex_async k)"
  by (simp_all add: eng_await_def run_simps ex_async_def promise_obj_def)

declare eng_Get [simp del]

lemma ex_async_get: "Get (engine ex_async_code) (Obj a) k (ex_async i) =
   (Ret (case lookup 9 (heap (ex_async i)) a k of Some v \<Rightarrow> v | None \<Rightarrow> Undef), ex_async i)"
proof -
  have "length (heap (ex_async i)) = 9" by (simp add: ex_async_def)
  then show ?thesis by (simp add: Get_def is_nullish_def eng_get.simps run_simps)
qed

lemma ex_async_results:
  "Get (engine ex_async_code) (Obj 3) (pstr ''done'') (ex_async k) = (Ret (Bool False), ex_async k)"
  "Get (engine ex_async_code) (Obj 4) (pstr ''done'') (ex_async k) = (Ret (Bool False), ex_async k)"
  "Get (engine ex_async_code) (Obj 5) (pstr ''done'') (ex_async k) = (Ret (Bool True), ex_async k)"
  "Get (engine ex_async_code) (Obj 3) (pstr ''value'') (ex_async k) = (Ret (vint 5), ex_async k)"
  "Get (engine ex_async_code) (Obj 4) (pstr ''value'') (ex_async k) = (Ret (vint 0), ex_async k)"
  unfolding ex_async_get
  by (simp_all add: ex_async_def ex_res_def own_prop_def plain_obj_def js_def eval_nat_numeral)

lemma ex_async_step:
  "IteratorStep (awaiting ex_async_host) ex_async_rec args (ex_async 0) = (Ret (Some (Obj 3)), ex_async 1)"
  "IteratorStep (awaiting ex_async_host) ex_async_rec args (ex_async 1) = (Ret (Some (Obj 4)), ex_async 2)"
  "IteratorStep (awaiting ex_async_host) ex_async_rec args (ex_async 2) = (Ret None, ex_async 2)"
  by (simp_all add: IteratorStep_def awaiting_Call ex_async_rec_def run_simps ex_async_call ex_async_await ex_async_results)

lemma ex_async_yields: "yields (awaiting ex_async_host) ex_async_rec (ex_async 0) [vint 5, vint 0] (ex_async 2)"
  by (rule yields.one yields.none ex_async_step | simp add: ex_async_results)+

lemma ex_async_promising: "promising ex_async_host ex_async_rec"
  by (auto simp: promising_def ex_async_rec_def Call_def IsCallable_def run_simps eng_call_def ex_async_code_def
      split: if_splits)

lemma ex_await_primitive: "\<not> IsObject v \<Longrightarrow> eng_await v w = (Ret v, w)"
  by (cases v) (simp_all add: eng_await_def run_simps)

lemma ex_async_pure: "pure_fn (awaiting ex_async_host) (Obj 11) (\<lambda>v. Bool (truthy v))"
  by (simp add: pure_fn_def awaiting_Call Call_def IsCallable_def run_simps eng_call_def ex_async_code_def ex_await_primitive arg_def)

theorem async_helpers_lists_witness:
  "async_drain ex_async_host 5 5 (AtStart (MapGen ex_async_rec (Obj 11))) (ex_async 0) = (Ret [Bool True, Bool False], ex_async 2)
   \<and> async_drain ex_async_host 5 5 (AtStart (FilterGen ex_async_rec (Obj 11))) (ex_async 0) = (Ret [vint 5], ex_async 2)
   \<and> async_drain ex_async_host 5 5 (AtStart (DropGen ex_async_rec (IFin (int 1)))) (ex_async 0) = (Ret [vint 0], ex_async 2)"
  using async_helpers_lists [OF ex_async_promising ex_async_pure ex_async_yields, of "ex_async 2" 5 5 1]
  by (simp add: at_end_def ex_async_step settled_def ex_await_primitive)

end
