(* ===== verification/TypedObjects.thy ===== *)
theory TypedObjects
  imports TypedArrayBuiltins StringBuiltins
begin

unbundle bit_operations_syntax

text \<open>
  TypedObject.js: values in memory that type descriptors lay out. Reading and writing by descriptor, and the methods of
  arrays of such values over several dimensions. The memory is native: \<open>Load_...\<close> and \<open>Store_...\<close> with an object and an offset.
\<close>

section \<open>Descriptors\<close>

definition JS_DESCR_SLOT_KIND :: nat where "JS_DESCR_SLOT_KIND = 0"
definition JS_DESCR_SLOT_STRING_REPR :: nat where "JS_DESCR_SLOT_STRING_REPR = 1"
definition JS_DESCR_SLOT_SIZE :: nat where "JS_DESCR_SLOT_SIZE = 3"
definition JS_DESCR_SLOT_TYPE :: nat where "JS_DESCR_SLOT_TYPE = 9"
definition JS_DESCR_SLOT_ARRAY_ELEM_TYPE :: nat where "JS_DESCR_SLOT_ARRAY_ELEM_TYPE = 9"
definition JS_DESCR_SLOT_ARRAY_LENGTH :: nat where "JS_DESCR_SLOT_ARRAY_LENGTH = 10"
definition JS_DESCR_SLOT_STRUCT_FIELD_NAMES :: nat where "JS_DESCR_SLOT_STRUCT_FIELD_NAMES = 9"
definition JS_DESCR_SLOT_STRUCT_FIELD_TYPES :: nat where "JS_DESCR_SLOT_STRUCT_FIELD_TYPES = 10"
definition JS_DESCR_SLOT_STRUCT_FIELD_OFFSETS :: nat where "JS_DESCR_SLOT_STRUCT_FIELD_OFFSETS = 11"

definition JS_TYPEREPR_SCALAR_KIND :: int where "JS_TYPEREPR_SCALAR_KIND = 1"
definition JS_TYPEREPR_REFERENCE_KIND :: int where "JS_TYPEREPR_REFERENCE_KIND = 2"
definition JS_TYPEREPR_STRUCT_KIND :: int where "JS_TYPEREPR_STRUCT_KIND = 3"
definition JS_TYPEREPR_ARRAY_KIND :: int where "JS_TYPEREPR_ARRAY_KIND = 4"

definition JS_SCALARTYPEREPR_INT8 :: int where "JS_SCALARTYPEREPR_INT8 = 0"
definition JS_SCALARTYPEREPR_UINT8 :: int where "JS_SCALARTYPEREPR_UINT8 = 1"
definition JS_SCALARTYPEREPR_INT16 :: int where "JS_SCALARTYPEREPR_INT16 = 2"
definition JS_SCALARTYPEREPR_UINT16 :: int where "JS_SCALARTYPEREPR_UINT16 = 3"
definition JS_SCALARTYPEREPR_INT32 :: int where "JS_SCALARTYPEREPR_INT32 = 4"
definition JS_SCALARTYPEREPR_UINT32 :: int where "JS_SCALARTYPEREPR_UINT32 = 5"
definition JS_SCALARTYPEREPR_FLOAT32 :: int where "JS_SCALARTYPEREPR_FLOAT32 = 6"
definition JS_SCALARTYPEREPR_FLOAT64 :: int where "JS_SCALARTYPEREPR_FLOAT64 = 7"
definition JS_SCALARTYPEREPR_UINT8_CLAMPED :: int where "JS_SCALARTYPEREPR_UINT8_CLAMPED = 8"
definition JS_SCALARTYPEREPR_BIGINT64 :: int where "JS_SCALARTYPEREPR_BIGINT64 = 9"
definition JS_SCALARTYPEREPR_BIGUINT64 :: int where "JS_SCALARTYPEREPR_BIGUINT64 = 10"

definition JS_REFERENCETYPEREPR_ANY :: int where "JS_REFERENCETYPEREPR_ANY = 0"
definition JS_REFERENCETYPEREPR_OBJECT :: int where "JS_REFERENCETYPEREPR_OBJECT = 1"
definition JS_REFERENCETYPEREPR_WASM_ANYREF :: int where "JS_REFERENCETYPEREPR_WASM_ANYREF = 2"
definition JS_REFERENCETYPEREPR_STRING :: int where "JS_REFERENCETYPEREPR_STRING = 3"

definition DESCR_KIND :: "'w host \<Rightarrow> val \<Rightarrow> ('w, int) jprog" where
  "DESCR_KIND H d = IntOf (get_slot H d JS_DESCR_SLOT_KIND)"

definition DESCR_STRING_REPR :: "'w host \<Rightarrow> val \<Rightarrow> ('w, val) jprog" where
  "DESCR_STRING_REPR H d = get_slot H d JS_DESCR_SLOT_STRING_REPR"

definition DESCR_SIZE :: "'w host \<Rightarrow> val \<Rightarrow> ('w, int) jprog" where
  "DESCR_SIZE H d = IntOf (get_slot H d JS_DESCR_SLOT_SIZE)"

definition DESCR_TYPE :: "'w host \<Rightarrow> val \<Rightarrow> ('w, int) jprog" where
  "DESCR_TYPE H d = IntOf (get_slot H d JS_DESCR_SLOT_TYPE)"

definition DESCR_ARRAY_ELEMENT_TYPE :: "'w host \<Rightarrow> val \<Rightarrow> ('w, val) jprog" where
  "DESCR_ARRAY_ELEMENT_TYPE H d = get_slot H d JS_DESCR_SLOT_ARRAY_ELEM_TYPE"

definition DESCR_ARRAY_LENGTH :: "'w host \<Rightarrow> val \<Rightarrow> ('w, int) jprog" where
  "DESCR_ARRAY_LENGTH H d = bnd (IntOf (get_slot H d JS_DESCR_SLOT_ARRAY_LENGTH)) (\<lambda>n. ret (to_int32 n))"

definition DESCR_STRUCT_FIELD_NAMES :: "'w host \<Rightarrow> val \<Rightarrow> ('w, val) jprog" where
  "DESCR_STRUCT_FIELD_NAMES H d = get_slot H d JS_DESCR_SLOT_STRUCT_FIELD_NAMES"

definition DESCR_STRUCT_FIELD_TYPES :: "'w host \<Rightarrow> val \<Rightarrow> ('w, val) jprog" where
  "DESCR_STRUCT_FIELD_TYPES H d = get_slot H d JS_DESCR_SLOT_STRUCT_FIELD_TYPES"

definition DESCR_STRUCT_FIELD_OFFSETS :: "'w host \<Rightarrow> val \<Rightarrow> ('w, val) jprog" where
  "DESCR_STRUCT_FIELD_OFFSETS H d = get_slot H d JS_DESCR_SLOT_STRUCT_FIELD_OFFSETS"

text \<open>\<open>IsObject(v) && ObjectIsTypeDescr(v)\<close> and its like are tests of the class.\<close>

definition IsTypeDescr :: "'w host \<Rightarrow> val \<Rightarrow> ('w, bool) jprog" where
  "IsTypeDescr H v = HasClass H ''TypeDescr'' v"

definition IsTypedObject :: "'w host \<Rightarrow> val \<Rightarrow> ('w, bool) jprog" where
  "IsTypedObject H v = HasClass H ''TypedObject'' v"

definition TypeDescrIsSimpleType :: "'w host \<Rightarrow> val \<Rightarrow> ('w, bool) jprog" where
  "TypeDescrIsSimpleType H v = HasClass H ''SimpleTypeDescr'' v"

definition TypeDescrIsArrayType :: "'w host \<Rightarrow> val \<Rightarrow> ('w, bool) jprog" where
  "TypeDescrIsArrayType H v = HasClass H ''ArrayTypeDescr'' v"

definition TypedObjectTypeDescr :: "'w host \<Rightarrow> val \<Rightarrow> ('w, val) jprog" where
  "TypedObjectTypeDescr H v = intrinsic H ''TypedObjectTypeDescr'' [v]"

definition BadArgs :: "('w, 'a) jprog" where
  "BadArgs = throw (TypeErr ''JSMSG_TYPEDOBJECT_BAD_ARGS'')"

section \<open>Getting values\<close>

definition TypedObjectGetDerived :: "'w host \<Rightarrow> val \<Rightarrow> val \<Rightarrow> int \<Rightarrow> ('w, val) jprog" where
  "TypedObjectGetDerived H descr typedObj offset =
     bnd (TypeDescrIsSimpleType H descr) (\<lambda>s.
     sq (asrt (\<not> s) ''getDerived() used with simple type'')
        (intrinsic H ''NewDerivedTypedObject'' [descr, typedObj, vint (to_int32 offset)]))"

definition TypedObjectGetDerivedIf :: "'w host \<Rightarrow> val \<Rightarrow> val \<Rightarrow> int \<Rightarrow> bool \<Rightarrow> ('w, val) jprog" where
  "TypedObjectGetDerivedIf H descr typedObj offset c = (if c then TypedObjectGetDerived H descr typedObj offset else ret Undef)"

definition TypedObjectGetOpaque :: "'w host \<Rightarrow> val \<Rightarrow> val \<Rightarrow> int \<Rightarrow> ('w, val) jprog" where
  "TypedObjectGetOpaque H descr typedObj offset =
     bnd (TypeDescrIsSimpleType H descr) (\<lambda>s.
     sq (asrt (\<not> s) ''getDerived() used with simple type'')
        (intrinsic H ''NewOpaqueTypedObject'' [descr, typedObj, vint (to_int32 offset)]))"

definition TypedObjectGetOpaqueIf :: "'w host \<Rightarrow> val \<Rightarrow> val \<Rightarrow> int \<Rightarrow> bool \<Rightarrow> ('w, val) jprog" where
  "TypedObjectGetOpaqueIf H descr typedObj offset c = (if c then TypedObjectGetOpaque H descr typedObj offset else ret Undef)"

definition Load :: "'w host \<Rightarrow> string \<Rightarrow> val \<Rightarrow> int \<Rightarrow> ('w, val) jprog" where
  "Load H name typedObj offset = intrinsic H name [typedObj, vint (to_int32 offset)]"

definition TypedObjectGetScalar :: "'w host \<Rightarrow> val \<Rightarrow> val \<Rightarrow> int \<Rightarrow> ('w, val) jprog" where
  "TypedObjectGetScalar H descr typedObj offset =
     bnd (DESCR_TYPE H descr) (\<lambda>type.
     if type = JS_SCALARTYPEREPR_INT8 then Load H ''Load_int8'' typedObj offset
     else if type = JS_SCALARTYPEREPR_UINT8 \<or> type = JS_SCALARTYPEREPR_UINT8_CLAMPED then Load H ''Load_uint8'' typedObj offset
     else if type = JS_SCALARTYPEREPR_INT16 then Load H ''Load_int16'' typedObj offset
     else if type = JS_SCALARTYPEREPR_UINT16 then Load H ''Load_uint16'' typedObj offset
     else if type = JS_SCALARTYPEREPR_INT32 then Load H ''Load_int32'' typedObj offset
     else if type = JS_SCALARTYPEREPR_UINT32 then Load H ''Load_uint32'' typedObj offset
     else if type = JS_SCALARTYPEREPR_FLOAT32 then Load H ''Load_float32'' typedObj offset
     else if type = JS_SCALARTYPEREPR_FLOAT64 then Load H ''Load_float64'' typedObj offset
     else if type = JS_SCALARTYPEREPR_BIGINT64 then Load H ''Load_bigint64'' typedObj offset
     else if type = JS_SCALARTYPEREPR_BIGUINT64 then Load H ''Load_biguint64'' typedObj offset
     else sq (asrt False ''Unhandled scalar type'') (ret Undef))"

definition TypedObjectGetReference :: "'w host \<Rightarrow> val \<Rightarrow> val \<Rightarrow> int \<Rightarrow> ('w, val) jprog" where
  "TypedObjectGetReference H descr typedObj offset =
     bnd (DESCR_TYPE H descr) (\<lambda>type.
     if type = JS_REFERENCETYPEREPR_ANY then Load H ''Load_Any'' typedObj offset
     else if type = JS_REFERENCETYPEREPR_OBJECT then Load H ''Load_Object'' typedObj offset
     else if type = JS_REFERENCETYPEREPR_WASM_ANYREF then
       bnd (Load H ''Load_WasmAnyRef'' typedObj offset) (\<lambda>boxed.
       bnd (intrinsic H ''IsBoxedWasmAnyRef'' [boxed]) (\<lambda>b.
       if \<not> truthy b then ret boxed else intrinsic H ''UnboxBoxedWasmAnyRef'' [boxed]))
     else if type = JS_REFERENCETYPEREPR_STRING then Load H ''Load_string'' typedObj offset
     else sq (asrt False ''Unhandled scalar type'') (ret Undef))"

definition TypedObjectGet :: "'w host \<Rightarrow> val \<Rightarrow> val \<Rightarrow> int \<Rightarrow> ('w, val) jprog" where
  "TypedObjectGet H descr typedObj offset =
     bnd (IsTypeDescr H descr) (\<lambda>d.
     sq (asrt d ''get() called with bad type descr'')
    (bnd (DESCR_KIND H descr) (\<lambda>kind.
     if kind = JS_TYPEREPR_SCALAR_KIND then TypedObjectGetScalar H descr typedObj offset
     else if kind = JS_TYPEREPR_REFERENCE_KIND then TypedObjectGetReference H descr typedObj offset
     else if kind = JS_TYPEREPR_ARRAY_KIND \<or> kind = JS_TYPEREPR_STRUCT_KIND then TypedObjectGetDerived H descr typedObj offset
     else sq (asrt False ''Unhandled kind'') (ret Undef))))"

section \<open>Setting values\<close>

definition ToInt32 :: "'w host \<Rightarrow> val \<Rightarrow> ('w, int) jprog" where
  "ToInt32 H v = bnd (ToNumber H v) (\<lambda>n. ret (case num_to_integer n of IFin i \<Rightarrow> to_int32 i | _ \<Rightarrow> 0))"

definition ToUint32 :: "'w host \<Rightarrow> val \<Rightarrow> ('w, int) jprog" where
  "ToUint32 H v = bnd (ToNumber H v) (\<lambda>n. ret (to_uint32 n))"

text \<open>Stores of scalars take the value, stores of references also the name of the field.\<close>

definition Store :: "'w host \<Rightarrow> string \<Rightarrow> val \<Rightarrow> int \<Rightarrow> val list \<Rightarrow> ('w, unit) jprog" where
  "Store H name typedObj offset args = bnd (intrinsic H name (typedObj # vint (to_int32 offset) # args)) (\<lambda>_. ret ())"

definition TypedObjectSetScalar :: "'w host \<Rightarrow> val \<Rightarrow> val \<Rightarrow> int \<Rightarrow> val \<Rightarrow> ('w, unit) jprog" where
  "TypedObjectSetScalar H descr typedObj offset fromValue =
     bnd (DESCR_KIND H descr) (\<lambda>kind.
     sq (asrt (kind = JS_TYPEREPR_SCALAR_KIND) ''Expected scalar type descriptor'')
    (bnd (DESCR_TYPE H descr) (\<lambda>type.
     if type = JS_SCALARTYPEREPR_INT8 then
       bnd (ToInt32 H fromValue) (\<lambda>i. Store H ''Store_int8'' typedObj offset [vint (i AND 0xFF)])
     else if type = JS_SCALARTYPEREPR_UINT8 then
       bnd (ToUint32 H fromValue) (\<lambda>i. Store H ''Store_uint8'' typedObj offset [vint (i AND 0xFF)])
     else if type = JS_SCALARTYPEREPR_UINT8_CLAMPED then
       bnd (ToNumber H fromValue) (\<lambda>n. bnd (intrinsic H ''ClampToUint8'' [Num n]) (\<lambda>v. Store H ''Store_int8'' typedObj offset [v]))
     else if type = JS_SCALARTYPEREPR_INT16 then
       bnd (ToInt32 H fromValue) (\<lambda>i. Store H ''Store_int16'' typedObj offset [vint (i AND 0xFFFF)])
     else if type = JS_SCALARTYPEREPR_UINT16 then
       bnd (ToUint32 H fromValue) (\<lambda>i. Store H ''Store_uint16'' typedObj offset [vint (i AND 0xFFFF)])
     else if type = JS_SCALARTYPEREPR_INT32 then
       bnd (ToInt32 H fromValue) (\<lambda>i. Store H ''Store_int32'' typedObj offset [vint i])
     else if type = JS_SCALARTYPEREPR_UINT32 then
       bnd (ToUint32 H fromValue) (\<lambda>i. Store H ''Store_uint32'' typedObj offset [vint i])
     else if type = JS_SCALARTYPEREPR_FLOAT32 then
       bnd (ToNumber H fromValue) (\<lambda>n. Store H ''Store_float32'' typedObj offset [Num n])
     else if type = JS_SCALARTYPEREPR_FLOAT64 then
       bnd (ToNumber H fromValue) (\<lambda>n. Store H ''Store_float64'' typedObj offset [Num n])
     else if type = JS_SCALARTYPEREPR_BIGINT64 then Store H ''Store_bigint64'' typedObj offset [fromValue]
     else if type = JS_SCALARTYPEREPR_BIGUINT64 then Store H ''Store_biguint64'' typedObj offset [fromValue]
     else sq (asrt False ''Unhandled scalar type'') (ret ()))))"

definition TypedObjectSetReference :: "'w host \<Rightarrow> val \<Rightarrow> val \<Rightarrow> int \<Rightarrow> val \<Rightarrow> val \<Rightarrow> ('w, unit) jprog" where
  "TypedObjectSetReference H descr typedObj offset name fromValue =
     bnd (DESCR_TYPE H descr) (\<lambda>type.
     if type = JS_REFERENCETYPEREPR_ANY then Store H ''Store_Any'' typedObj offset [name, fromValue]
     else if type = JS_REFERENCETYPEREPR_OBJECT then
       bnd (if fromValue = Null then ret fromValue else ToObject H fromValue) (\<lambda>v. Store H ''Store_Object'' typedObj offset [name, v])
     else if type = JS_REFERENCETYPEREPR_WASM_ANYREF then
       bnd (intrinsic H ''IsBoxableWasmAnyRef'' [fromValue]) (\<lambda>b.
       bnd (if truthy b then intrinsic H ''BoxWasmAnyRef'' [fromValue] else ret fromValue) (\<lambda>v.
       Store H ''Store_WasmAnyRef'' typedObj offset [name, v]))
     else if type = JS_REFERENCETYPEREPR_STRING then
       bnd (ToString H fromValue) (\<lambda>s. Store H ''Store_string'' typedObj offset [name, Str s])
     else sq (asrt False ''Unhandled scalar type'') (ret ()))"

text \<open>The elements of an array and the fields of a struct, with the function \<open>set\<close> that writes one.\<close>

definition TypedObjectSetArray ::
    "'w host \<Rightarrow> (val \<Rightarrow> val \<Rightarrow> int \<Rightarrow> val \<Rightarrow> val \<Rightarrow> ('w, unit) jprog) \<Rightarrow> val \<Rightarrow> int \<Rightarrow> val \<Rightarrow> int \<Rightarrow> val \<Rightarrow> ('w, bool) jprog" where
  "TypedObjectSetArray H write descr len typedObj offset fromValue =
     (if \<not> IsObject fromValue then ret False
      else
        bnd (Get H fromValue (pstr ''length'')) (\<lambda>n.
        if \<not> strict_eq n (vint len) then ret False
        else
          sq (if 0 < len then
                bnd (DESCR_ARRAY_ELEMENT_TYPE H descr) (\<lambda>elemDescr.
                bnd (DESCR_SIZE H elemDescr) (\<lambda>elemSize.
                bnd (for_acc 0 len (\<lambda>i elemOffset.
                       bnd (Get H fromValue (PIdx i)) (\<lambda>v.
                       sq (write elemDescr typedObj elemOffset Null v) (ret (elemOffset + elemSize)))) offset) (\<lambda>_. ret ())))
              else ret ()) (ret True)))"

definition TypedObjectSetStruct ::
    "'w host \<Rightarrow> (val \<Rightarrow> val \<Rightarrow> int \<Rightarrow> val \<Rightarrow> val \<Rightarrow> ('w, unit) jprog) \<Rightarrow> val \<Rightarrow> val \<Rightarrow> int \<Rightarrow> val \<Rightarrow> ('w, unit) jprog" where
  "TypedObjectSetStruct H write descr typedObj offset fromValue =
     bnd (DESCR_STRUCT_FIELD_NAMES H descr) (\<lambda>fieldNames.
     bnd (DESCR_STRUCT_FIELD_TYPES H descr) (\<lambda>fieldDescrs.
     bnd (DESCR_STRUCT_FIELD_OFFSETS H descr) (\<lambda>fieldOffsets.
     bnd (IntOf (Get H fieldNames (pstr ''length''))) (\<lambda>n.
     for_each 0 n (\<lambda>i.
       bnd (StrOf (Get H fieldNames (PIdx i))) (\<lambda>fieldName.
       bnd (Get H fieldDescrs (PIdx i)) (\<lambda>fieldDescr.
       bnd (IntOf (Get H fieldOffsets (PIdx i))) (\<lambda>fieldOffset.
       bnd (Get H fromValue (PStr fieldName)) (\<lambda>fieldValue.
       write fieldDescr typedObj (offset + fieldOffset) (Str fieldName) fieldValue)))))))))"

text \<open>Descriptors nest, so writing recurs; \<open>fuel\<close> is above the depth of the descriptor.\<close>

definition CantConvert :: "('w, 'a) jprog" where
  "CantConvert = throw (TypeErr ''JSMSG_CANT_CONVERT_TO'')"

fun TypedObjectSet :: "'w host \<Rightarrow> nat \<Rightarrow> val \<Rightarrow> val \<Rightarrow> int \<Rightarrow> val \<Rightarrow> val \<Rightarrow> ('w, unit) jprog" where
  "TypedObjectSet H 0 descr typedObj offset name fromValue = no_fuel"
| "TypedObjectSet H (Suc fuel) descr typedObj offset name fromValue =
     bnd (DESCR_KIND H descr) (\<lambda>kind.
     if kind = JS_TYPEREPR_SCALAR_KIND then TypedObjectSetScalar H descr typedObj offset fromValue
     else if kind = JS_TYPEREPR_REFERENCE_KIND then TypedObjectSetReference H descr typedObj offset name fromValue
     else if kind = JS_TYPEREPR_ARRAY_KIND then
       bnd (DESCR_ARRAY_LENGTH H descr) (\<lambda>len.
       bnd (TypedObjectSetArray H (TypedObjectSet H fuel) descr len typedObj offset fromValue) (\<lambda>ok.
       if ok then ret () else CantConvert))
     else if kind = JS_TYPEREPR_STRUCT_KIND then
       if \<not> IsObject fromValue then CantConvert
       else TypedObjectSetStruct H (TypedObjectSet H fuel) descr typedObj offset fromValue
     else CantConvert)"

definition ConvertAndCopyTo :: "'w host \<Rightarrow> nat \<Rightarrow> val \<Rightarrow> val \<Rightarrow> int \<Rightarrow> val \<Rightarrow> val \<Rightarrow> ('w, unit) jprog" where
  "ConvertAndCopyTo H fuel destDescr destTypedObj destOffset fieldName fromValue =
     bnd (IsTypeDescr H destDescr) (\<lambda>d. sq (asrt d ''ConvertAndCopyTo: not type obj'')
    (bnd (IsTypedObject H destTypedObj) (\<lambda>t. sq (asrt t ''ConvertAndCopyTo: not type typedObj'')
       (TypedObjectSet H fuel destDescr destTypedObj destOffset fieldName fromValue))))"

definition Reify :: "'w host \<Rightarrow> val \<Rightarrow> val \<Rightarrow> int \<Rightarrow> ('w, val) jprog" where
  "Reify H sourceDescr sourceTypedObj sourceOffset =
     bnd (IsTypeDescr H sourceDescr) (\<lambda>d. sq (asrt d ''Reify: not type obj'')
    (bnd (IsTypedObject H sourceTypedObj) (\<lambda>t. sq (asrt t ''Reify: not type typedObj'')
       (TypedObjectGet H sourceDescr sourceTypedObj sourceOffset))))"

section \<open>Descriptors as user code sees them\<close>

definition DescrsEquiv :: "'w host \<Rightarrow> val \<Rightarrow> val \<Rightarrow> ('w, bool) jprog" where
  "DescrsEquiv H descr1 descr2 =
     bnd (IsTypeDescr H descr1) (\<lambda>a. sq (asrt a ''descr1 not descr'')
    (bnd (IsTypeDescr H descr2) (\<lambda>b. sq (asrt b ''descr2 not descr'')
    (bnd (DESCR_STRING_REPR H descr1) (\<lambda>s1. bnd (DESCR_STRING_REPR H descr2) (\<lambda>s2. ret (strict_eq s1 s2)))))))"

definition TypeDescrEquivalent :: "'w host \<Rightarrow> val \<Rightarrow> val \<Rightarrow> ('w, bool) jprog" where
  "TypeDescrEquivalent H this otherDescr =
     bnd (IsTypeDescr H this) (\<lambda>a.
     if \<not> a then BadArgs
     else bnd (IsTypeDescr H otherDescr) (\<lambda>b. if \<not> b then BadArgs else DescrsEquiv H this otherDescr))"

definition DescrToSource :: "'w host \<Rightarrow> val \<Rightarrow> ('w, val) jprog" where
  "DescrToSource H this =
     bnd (IsTypeDescr H this) (\<lambda>a. if \<not> a then throw (TypeErr ''JSMSG_INCOMPATIBLE_PROTO'') else DESCR_STRING_REPR H this)"

text \<open>The permanent properties \<open>length\<close> and \<open>elementType\<close> of array types, and \<open>length\<close> of their values.\<close>

definition the_length :: "'w host \<Rightarrow> val \<Rightarrow> ('w, int) jprog" where
  "the_length H v = IntOf (Get H v (pstr ''length''))"

definition elementType :: "'w host \<Rightarrow> val \<Rightarrow> ('w, val) jprog" where
  "elementType H v = Get H v (pstr ''elementType'')"

text \<open>Peeling array layers: the number of elements and what they are.\<close>

definition peel_arrays :: "'w host \<Rightarrow> nat \<Rightarrow> val \<Rightarrow> ('w, int \<times> val) jprog" where
  "peel_arrays H fuel arrayType =
     loop_fuel fuel (\<lambda>(elementCount, ty).
       bnd (DESCR_KIND H ty) (\<lambda>kind.
       if kind = JS_TYPEREPR_ARRAY_KIND then
         bnd (the_length H ty) (\<lambda>n. bnd (elementType H ty) (\<lambda>ty. ret (Inl (elementCount * n, ty))))
       else ret (Inr (elementCount, ty)))) (1, arrayType)"

definition TypedObjectArrayRedimension :: "'w host \<Rightarrow> nat \<Rightarrow> val \<Rightarrow> val \<Rightarrow> ('w, val) jprog" where
  "TypedObjectArrayRedimension H fuel this newArrayType =
     bnd (IsTypedObject H this) (\<lambda>t.
     if \<not> t then BadArgs
     else
       bnd (IsTypeDescr H newArrayType) (\<lambda>d.
       if \<not> d then BadArgs
       else
         bnd (TypedObjectTypeDescr H this) (\<lambda>oldArrayType.
         bnd (DESCR_KIND H oldArrayType) (\<lambda>kind.
         if kind \<noteq> JS_TYPEREPR_ARRAY_KIND then BadArgs
         else
           bnd (peel_arrays H fuel oldArrayType) (\<lambda>(oldElementCount, oldElementType).
           bnd (peel_arrays H fuel newArrayType) (\<lambda>(newElementCount, newElementType).
           if oldElementCount \<noteq> newElementCount then BadArgs
           else
             bnd (DescrsEquiv H oldElementType newElementType) (\<lambda>e.
             if \<not> e then BadArgs
             else
               bnd (DESCR_SIZE H oldArrayType) (\<lambda>oldSize. bnd (DESCR_SIZE H newArrayType) (\<lambda>newSize.
               sq (asrt (oldSize = newSize) ''Byte sizes should be equal'')
                  (intrinsic H ''NewDerivedTypedObject'' [newArrayType, this, vint 0]))))))))))"

definition ArrayShorthand :: "'w host \<Rightarrow> val \<Rightarrow> val list \<Rightarrow> ('w, val) jprog" where
  "ArrayShorthand H this dims =
     bnd (IsTypeDescr H this) (\<lambda>d.
     if \<not> d then BadArgs
     else
       bnd (intrinsic H ''GetTypedObjectModule'' []) (\<lambda>T.
       bnd (Get H T (pstr ''ArrayType'')) (\<lambda>AT.
       if dims = [] then BadArgs
       else for_acc_down (int (length dims) - 1) 0 (\<lambda>i accum. New H AT [accum, dims ! nat i]) this)))"

definition TypeOfTypedObject :: "'w host \<Rightarrow> val \<Rightarrow> ('w, val) jprog" where
  "TypeOfTypedObject H obj =
     bnd (IsTypedObject H obj) (\<lambda>t.
     if t then TypedObjectTypeDescr H obj
     else
       bnd (intrinsic H ''GetTypedObjectModule'' []) (\<lambda>T. case obj of
         Obj _ \<Rightarrow> Get H T (pstr ''Object'')
       | Null \<Rightarrow> Get H T (pstr ''Object'')
       | Str _ \<Rightarrow> Get H T (pstr ''String'')
       | Num _ \<Rightarrow> Get H T (pstr ''float64'')
       | _ \<Rightarrow> Get H T (pstr ''Any'')))"

section \<open>Iteration spaces\<close>

text \<open>\<open>indices\<close> is an odometer over \<open>iterationSpace\<close>: the index in the last dimension runs fastest.\<close>

fun increment_from :: "nat \<Rightarrow> int list \<Rightarrow> int list \<Rightarrow> ('w, int list) jprog" where
  "increment_from n iterationSpace indices =
     (let indices = indices[n := indices ! n + 1] in
      if indices ! n < iterationSpace ! n then ret indices
      else
        sq (asrt (indices ! n = iterationSpace ! n) ''Components of indices must match those of iterationSpace.'')
           (let indices = indices[n := 0] in
            if n = 0 then ret indices else increment_from (n - 1) iterationSpace indices))"

declare increment_from.simps [simp del]

definition IncrementIterationSpace :: "int list \<Rightarrow> int list \<Rightarrow> ('w, int list) jprog" where
  "IncrementIterationSpace indices iterationSpace =
     sq (asrt (length indices = length iterationSpace) ''indices dimension must equal iterationSpace dimension.'')
        (increment_from (length indices - 1) iterationSpace indices)"

definition ComputeIterationSpace :: "'w host \<Rightarrow> val \<Rightarrow> int \<Rightarrow> int \<Rightarrow> ('w, int list \<times> val \<times> int) jprog" where
  "ComputeIterationSpace H arrayType depth len =
     bnd (IsTypeDescr H arrayType) (\<lambda>d. sq (asrt d ''ComputeIterationSpace called on non-type-object'')
    (bnd (TypeDescrIsArrayType H arrayType) (\<lambda>a. sq (asrt a ''ComputeIterationSpace called on non-array-type'')
    (sq (asrt (0 < depth) ''ComputeIterationSpace called on non-positive depth'')
    (bnd (elementType H arrayType) (\<lambda>grainType.
     for_acc 1 depth (\<lambda>i (iterationSpace, grainType, totalLength).
       bnd (TypeDescrIsArrayType H grainType) (\<lambda>a.
       if a then
         bnd (the_length H grainType) (\<lambda>grainLen.
         bnd (elementType H grainType) (\<lambda>ty.
         ret (iterationSpace[nat i := grainLen], ty, totalLength * grainLen)))
       else BadArgs)) ((replicate (nat depth) 0)[0 := len], grainType, len)))))))"

text \<open>\<open>depth <= 0 || TO_INT32(depth) !== depth\<close>\<close>

definition CheckDepth :: "num \<Rightarrow> ('w, int) jprog" where
  "CheckDepth depth = (case num_to_integer depth of
      IFin i \<Rightarrow> if num_le depth (Fin 0) \<or> \<not> num_eq (nint (to_int32 i)) depth then BadArgs else ret (to_int32 i)
    | _ \<Rightarrow> BadArgs)"

text \<open>A call of the user's function with \<open>result\<close>, stored unless it is \<open>undefined\<close>.\<close>

definition StoreResult :: "'w host \<Rightarrow> nat \<Rightarrow> val \<Rightarrow> val \<Rightarrow> int \<Rightarrow> val \<Rightarrow> ('w, unit) jprog" where
  "StoreResult H fuel grainType result outOffset r =
     (if r \<noteq> Undef then TypedObjectSet H fuel grainType result outOffset Null r else ret ())"

definition BuildTypedSeqImpl :: "'w host \<Rightarrow> nat \<Rightarrow> val \<Rightarrow> int \<Rightarrow> num \<Rightarrow> val \<Rightarrow> ('w, val) jprog" where
  "BuildTypedSeqImpl H fuel arrayType len depth func =
     bnd (IsTypeDescr H arrayType) (\<lambda>d. sq (asrt d ''Build called on non-type-object'')
    (bnd (CheckDepth depth) (\<lambda>depth.
     bnd (ComputeIterationSpace H arrayType depth len) (\<lambda>(iterationSpace, grainType, totalLength).
     bnd (New H arrayType []) (\<lambda>result.
     bnd (TypeDescrIsSimpleType H grainType) (\<lambda>simple.
     bnd (DESCR_SIZE H grainType) (\<lambda>size.
     bnd (for_acc 0 totalLength (\<lambda>i (indices, outOffset).
            bnd (TypedObjectGetOpaqueIf H grainType result outOffset (\<not> simple)) (\<lambda>userOutPointer.
            bnd (Call H func Undef (map vint indices @ [userOutPointer])) (\<lambda>r.
            sq (StoreResult H fuel grainType result outOffset r)
           (bnd (IncrementIterationSpace indices iterationSpace) (\<lambda>indices.
            ret (indices, outOffset + size)))))) (replicate (nat depth) 0, 0)) (\<lambda>_.
     ret result))))))))"

definition MapUntypedSeqImpl :: "'w host \<Rightarrow> nat \<Rightarrow> val \<Rightarrow> val \<Rightarrow> val \<Rightarrow> ('w, val) jprog" where
  "MapUntypedSeqImpl H fuel inArray outputType maybeFunc =
     sq (asrt (IsObject outputType) ''1. Map/From called on non-object outputType'')
    (bnd (IsTypeDescr H outputType) (\<lambda>d. sq (asrt d ''1. Map/From called on non-type-object outputType'')
    (bnd (ToObject H inArray) (\<lambda>inArray.
     bnd (TypeDescrIsArrayType H outputType) (\<lambda>a. sq (asrt a ''Map/From called on non array-type outputType'')
    (bnd (IsCallable H maybeFunc) (\<lambda>c.
     if \<not> c then throw (TypeErr ''JSMSG_NOT_FUNCTION'')
     else
       bnd (the_length H outputType) (\<lambda>outLength.
       bnd (elementType H outputType) (\<lambda>outGrainType.
       bnd (New H outputType []) (\<lambda>result.
       bnd (DESCR_SIZE H outGrainType) (\<lambda>outUnitSize.
       bnd (TypeDescrIsSimpleType H outGrainType) (\<lambda>simple.
       bnd (for_acc 0 outLength (\<lambda>i outOffset.
              bnd (has_prop H inArray (PIdx i)) (\<lambda>there.
              sq (if there then
                    bnd (Get H inArray (PIdx i)) (\<lambda>element.
                    bnd (TypedObjectGetOpaqueIf H outGrainType result outOffset (\<not> simple)) (\<lambda>out.
                    bnd (Call H maybeFunc Undef [element, vint i, inArray, out]) (StoreResult H fuel outGrainType result outOffset)))
                  else ret ())
                 (ret (outOffset + outUnitSize)))) 0) (\<lambda>_.
       ret result)))))))))))))"

section \<open>Mapping a typed array of values\<close>

text \<open>The functions inside \<open>MapTypedSeqImpl\<close>, with the variables they close over as parameters.\<close>

definition DoMapTypedSeqDepth1Simple :: "'w host \<Rightarrow> val \<Rightarrow> int \<Rightarrow> val \<Rightarrow> val \<Rightarrow> ('w, val) jprog" where
  "DoMapTypedSeqDepth1Simple H inArray totalLength func result =
     sq (for_each 0 totalLength (\<lambda>i.
          bnd (Get H inArray (PIdx i)) (\<lambda>element.
          bnd (Call H func Undef [element, vint i, inArray, Undef]) (\<lambda>r.
          if r \<noteq> Undef then Put H result (PIdx i) r else ret ()))))
        (ret result)"

definition DoMapTypedSeqDepth1 ::
    "'w host \<Rightarrow> nat \<Rightarrow> val \<Rightarrow> val \<Rightarrow> val \<Rightarrow> bool \<Rightarrow> int \<Rightarrow> int \<Rightarrow> int \<Rightarrow> val \<Rightarrow> val \<Rightarrow> ('w, val) jprog" where
  "DoMapTypedSeqDepth1 H fuel inArray inGrainType outGrainType outGrainTypeIsComplex inUnitSize outUnitSize totalLength func result =
     bnd (for_acc 0 totalLength (\<lambda>i (inOffset, outOffset).
            bnd (TypedObjectGet H inGrainType inArray inOffset) (\<lambda>element.
            bnd (TypedObjectGetOpaqueIf H outGrainType result outOffset outGrainTypeIsComplex) (\<lambda>out.
            bnd (Call H func Undef [element, vint i, inArray, out]) (\<lambda>r.
            sq (StoreResult H fuel outGrainType result outOffset r)
               (ret (inOffset + inUnitSize, outOffset + outUnitSize)))))) (0, 0)) (\<lambda>_.
     ret result)"

definition DoMapTypedSeqDepthN ::
    "'w host \<Rightarrow> nat \<Rightarrow> val \<Rightarrow> int \<Rightarrow> val \<Rightarrow> val \<Rightarrow> bool \<Rightarrow> int \<Rightarrow> int \<Rightarrow> int list \<Rightarrow> int \<Rightarrow> val \<Rightarrow> val \<Rightarrow> ('w, val) jprog" where
  "DoMapTypedSeqDepthN H fuel inArray depth inGrainType outGrainType outGrainTypeIsComplex inUnitSize outUnitSize iterationSpace
       totalLength func result =
     bnd (for_acc 0 totalLength (\<lambda>i (indices, inOffset, outOffset).
            bnd (TypedObjectGet H inGrainType inArray inOffset) (\<lambda>element.
            bnd (TypedObjectGetOpaqueIf H outGrainType result outOffset outGrainTypeIsComplex) (\<lambda>out.
            bnd (Call H func Undef (element # map vint indices @ [inArray, out])) (\<lambda>r.
            sq (StoreResult H fuel outGrainType result outOffset r)
              (bnd (IncrementIterationSpace indices iterationSpace) (\<lambda>indices.
               ret (indices, inOffset + inUnitSize, outOffset + outUnitSize)))))))
          (replicate (nat depth) 0, 0, 0)) (\<lambda>_.
     ret result)"

definition MapTypedSeqImpl :: "'w host \<Rightarrow> nat \<Rightarrow> val \<Rightarrow> num \<Rightarrow> val \<Rightarrow> val \<Rightarrow> ('w, val) jprog" where
  "MapTypedSeqImpl H fuel inArray depth outputType func =
     bnd (IsTypeDescr H outputType) (\<lambda>d. sq (asrt d ''2. Map/From called on non-type-object outputType'')
    (bnd (IsTypedObject H inArray) (\<lambda>t. sq (asrt t ''Map/From called on non-object or untyped input array.'')
    (bnd (TypeDescrIsArrayType H outputType) (\<lambda>a. sq (asrt a ''Map/From called on non array-type outputType'')
    (bnd (CheckDepth depth) (\<lambda>depth.
     bnd (TypeOfTypedObject H inArray) (\<lambda>inputType.
     bnd (the_length H inArray) (\<lambda>inLen.
     bnd (ComputeIterationSpace H inputType depth inLen) (\<lambda>(inIterationSpace, inGrainType, _).
     bnd (IsTypeDescr H inGrainType) (\<lambda>g.
     if \<not> g then BadArgs
     else
       bnd (the_length H outputType) (\<lambda>outLen.
       bnd (ComputeIterationSpace H outputType depth outLen) (\<lambda>(iterationSpace, outGrainType, totalLength).
       if inIterationSpace \<noteq> iterationSpace then BadArgs
       else
         bnd (New H outputType []) (\<lambda>result.
         bnd (TypeDescrIsSimpleType H inGrainType) (\<lambda>inSimple.
         bnd (TypeDescrIsSimpleType H outGrainType) (\<lambda>outSimple.
         if depth = 1 \<and> inSimple \<and> outSimple then DoMapTypedSeqDepth1Simple H inArray totalLength func result
         else
           bnd (DESCR_SIZE H inGrainType) (\<lambda>inUnitSize.
           bnd (DESCR_SIZE H outGrainType) (\<lambda>outUnitSize.
           if depth = 1 then
             DoMapTypedSeqDepth1 H fuel inArray inGrainType outGrainType (\<not> outSimple) inUnitSize outUnitSize totalLength func result
           else
             DoMapTypedSeqDepthN H fuel inArray depth inGrainType outGrainType (\<not> outSimple) inUnitSize outUnitSize
               iterationSpace totalLength func result))))))))))))))))))"

section \<open>Reducing and filtering\<close>

definition ReduceTypedSeqImpl :: "'w host \<Rightarrow> val \<Rightarrow> val \<Rightarrow> val \<Rightarrow> val \<Rightarrow> ('w, val) jprog" where
  "ReduceTypedSeqImpl H arr outputType func initial =
     bnd (IsTypedObject H arr) (\<lambda>t. sq (asrt t ''Reduce called on non-object or untyped input array.'')
    (bnd (IsTypeDescr H outputType) (\<lambda>d. sq (asrt d ''Reduce called on non-type-object outputType'')
    (bnd (the_length H arr) (\<lambda>n.
     if initial = Undef \<and> n < 1 then BadArgs
     else
       bnd (TypeDescrIsSimpleType H outputType) (\<lambda>simple.
       if simple then
         bnd (if initial = Undef then bnd (Get H arr (PIdx 0)) (\<lambda>v. ret (1, v))
              else bnd (Call H outputType Undef [initial]) (\<lambda>v. ret (0, v))) (\<lambda>(start, v).
         for_acc start n (\<lambda>i v.
           bnd (Get H arr (PIdx i)) (\<lambda>x.
           bnd (Call H func Undef [v, x]) (\<lambda>r. Call H outputType Undef [r]))) v)
       else
         bnd (if initial = Undef then bnd (Get H arr (PIdx 0)) (\<lambda>x. bnd (New H outputType [x]) (\<lambda>v. ret (1, v)))
              else ret (0, initial)) (\<lambda>(start, v).
         for_acc start n (\<lambda>i v. bnd (Get H arr (PIdx i)) (\<lambda>x. Call H func Undef [v, x])) v)))))))"

text \<open>
  Flags in a \<open>Uint8Array\<close>, eight in a byte: a write past its end is lost, a read there is \<open>undefined\<close>, which has no bit set.
\<close>

definition js_shift_right :: "int \<Rightarrow> nat \<Rightarrow> int" where
  "js_shift_right i n = drop_bit n (to_int32 i)"

definition NUM_BYTES :: "int \<Rightarrow> int" where
  "NUM_BYTES bits = js_shift_right (bits + 7) 3"

definition bit_mask :: "int \<Rightarrow> 8 word" where
  "bit_mask index = push_bit (nat (index AND 7)) 1"

definition SET_BIT :: "8 word list \<Rightarrow> int \<Rightarrow> 8 word list" where
  "SET_BIT data index =
     (let w = js_shift_right index 3 in
      if 0 \<le> w \<and> w < int (length data) then data[nat w := data ! nat w OR bit_mask index] else data)"

definition GET_BIT :: "8 word list \<Rightarrow> int \<Rightarrow> bool" where
  "GET_BIT data index =
     (let w = js_shift_right index 3 in
      0 \<le> w \<and> w < int (length data) \<and> data ! nat w AND bit_mask index \<noteq> 0)"

definition FilterTypedSeqImpl :: "'w host \<Rightarrow> val \<Rightarrow> val \<Rightarrow> ('w, val) jprog" where
  "FilterTypedSeqImpl H arr func =
     bnd (IsTypedObject H arr) (\<lambda>t. sq (asrt t ''Filter called on non-object or untyped input array.'')
    (bnd (IsCallable H func) (\<lambda>c. sq (asrt c ''Filter called with non-function predicate'')
    (bnd (TypeOfTypedObject H arr) (\<lambda>arrayType.
     bnd (TypeDescrIsArrayType H arrayType) (\<lambda>a.
     if \<not> a then BadArgs
     else
       bnd (elementType H arrayType) (\<lambda>ty.
       bnd (the_length H arr) (\<lambda>n.
       bnd (DESCR_SIZE H ty) (\<lambda>size.
       bnd (for_acc 0 n (\<lambda>i (flags, cnt, inOffset).
              bnd (TypedObjectGet H ty arr inOffset) (\<lambda>v.
              bnd (Call H func Undef [v, vint i, arr]) (\<lambda>r.
              ret (if truthy r then (SET_BIT flags i, cnt + 1, inOffset + size) else (flags, cnt, inOffset + size)))))
            (replicate (nat (NUM_BYTES n)) 0, 0, 0)) (\<lambda>(flags, cnt, _).
       bnd (intrinsic H ''GetTypedObjectModule'' []) (\<lambda>T.
       bnd (Get H T (pstr ''ArrayType'')) (\<lambda>AT.
       bnd (New H AT [ty, vint cnt]) (\<lambda>resultType.
       bnd (New H resultType []) (\<lambda>result.
       bnd (for_acc 0 n (\<lambda>i j.
              if GET_BIT flags i then bnd (Get H arr (PIdx i)) (\<lambda>v. sq (Put H result (PIdx j) v) (ret (j + 1)))
              else ret j) 0) (\<lambda>_.
       ret result)))))))))))))))"

section \<open>The methods\<close>

definition TypedObjectArrayTypeBuild :: "'w host \<Rightarrow> nat \<Rightarrow> val \<Rightarrow> val \<Rightarrow> val \<Rightarrow> ('w, val) jprog" where
  "TypedObjectArrayTypeBuild H fuel this a b =
     bnd (IsTypeDescr H this) (\<lambda>d.
     if \<not> d then BadArgs
     else
       bnd (DESCR_KIND H this) (\<lambda>kind.
       if kind = JS_TYPEREPR_ARRAY_KIND then
         bnd (IsCallable H a) (\<lambda>fa.
         if fa then bnd (the_length H this) (\<lambda>n. BuildTypedSeqImpl H fuel this n (nint 1) a)
         else case a of
           Num depth \<Rightarrow>
             bnd (IsCallable H b) (\<lambda>fb.
             if fb then bnd (the_length H this) (\<lambda>n. BuildTypedSeqImpl H fuel this n depth b) else BadArgs)
         | _ \<Rightarrow> BadArgs)
       else BadArgs))"

definition TypedObjectArrayTypeFrom :: "'w host \<Rightarrow> nat \<Rightarrow> val \<Rightarrow> val \<Rightarrow> val \<Rightarrow> val \<Rightarrow> ('w, val) jprog" where
  "TypedObjectArrayTypeFrom H fuel this a b c =
     bnd (IsTypeDescr H this) (\<lambda>d.
     if \<not> d then BadArgs
     else
       bnd (IsTypedObject H a) (\<lambda>t.
       bnd (if t then bnd (TypedObjectTypeDescr H a) (TypeDescrIsArrayType H) else ret False) (\<lambda>typedInput.
       bnd (IsCallable H b) (\<lambda>fb.
       bnd (IsCallable H c) (\<lambda>fc.
       if \<not> typedInput then
         if strict_eq b (vint 1) \<and> fc then MapUntypedSeqImpl H fuel a this c
         else if fb then MapUntypedSeqImpl H fuel a this b
         else BadArgs
       else case b of
         Num depth \<Rightarrow> if fc then MapTypedSeqImpl H fuel a depth this c else BadArgs
       | _ \<Rightarrow> if fb then MapTypedSeqImpl H fuel a (nint 1) this b else BadArgs)))))"

text \<open>The checks that the methods of arrays start with, which give the type of the array.\<close>

definition ThisArrayType :: "'w host \<Rightarrow> val \<Rightarrow> ('w, val) jprog" where
  "ThisArrayType H this =
     bnd (IsTypedObject H this) (\<lambda>t.
     if \<not> t then BadArgs
     else bnd (TypedObjectTypeDescr H this) (\<lambda>thisType.
       bnd (TypeDescrIsArrayType H thisType) (\<lambda>a. if \<not> a then BadArgs else ret thisType)))"

definition TypedObjectArrayMap :: "'w host \<Rightarrow> nat \<Rightarrow> val \<Rightarrow> val \<Rightarrow> val \<Rightarrow> ('w, val) jprog" where
  "TypedObjectArrayMap H fuel this a b =
     bnd (ThisArrayType H this) (\<lambda>thisType.
     bnd (IsCallable H a) (\<lambda>fa.
     bnd (IsCallable H b) (\<lambda>fb. case a of
       Num depth \<Rightarrow> if fb then MapTypedSeqImpl H fuel this depth thisType b else BadArgs
     | _ \<Rightarrow> if fa then MapTypedSeqImpl H fuel this (nint 1) thisType a else BadArgs)))"

definition TypedObjectArrayReduce :: "'w host \<Rightarrow> val \<Rightarrow> val \<Rightarrow> val \<Rightarrow> ('w, val) jprog" where
  "TypedObjectArrayReduce H this a b =
     bnd (ThisArrayType H this) (\<lambda>thisType.
     bnd (IsCallable H a) (\<lambda>fa.
     if a \<noteq> Undef \<and> \<not> fa then BadArgs
     else bnd (elementType H thisType) (\<lambda>outputType. ReduceTypedSeqImpl H this outputType a b)))"

definition TypedObjectArrayFilter :: "'w host \<Rightarrow> val \<Rightarrow> val \<Rightarrow> ('w, val) jprog" where
  "TypedObjectArrayFilter H this func =
     bnd (ThisArrayType H this) (\<lambda>_.
     bnd (IsCallable H func) (\<lambda>f. if \<not> f then BadArgs else FilterTypedSeqImpl H this func))"

end
