(* ===== verification/TypedObjectProps.thy ===== *)
theory TypedObjectProps
  imports TypedObjects BufferSafety
begin

unbundle bit_operations_syntax

text \<open>
  The loops of TypedObject.js over several dimensions visit every element once, in the order of the memory; what they and the
  writes by descriptor give to the native stores is inside the object, aligned, and of the right kind.
\<close>

section \<open>Iteration spaces\<close>

text \<open>The indices of the element number \<open>k\<close>: its digits in the mixed radix of the dimensions.\<close>

fun indices_at :: "int list \<Rightarrow> int \<Rightarrow> int list" where
  "indices_at [] k = []"
| "indices_at (n # ns) k = (k div prod_list ns) # indices_at ns (k mod prod_list ns)"

lemma asrt_True [simp]: "asrt True msg = ret ()"
  by (simp add: asrt_def ret_def fun_eq_iff)

lemma length_indices_at [simp]: "length (indices_at ns k) = length ns"
  by (induction ns arbitrary: k) auto

lemma prod_list_pos: "\<forall>n\<in>set ns. 0 < n \<Longrightarrow> 0 < prod_list (ns :: int list)"
  by (induction ns) auto

lemma prod_list_nonneg: "\<forall>n\<in>set ns. 0 \<le> n \<Longrightarrow> 0 \<le> prod_list (ns :: int list)"
  by (induction ns) auto

lemma indices_at_zero: "indices_at ns 0 = replicate (length ns) 0"
  by (induction ns) auto

lemma radix_digits:
  "0 < P \<Longrightarrow> 0 < m \<Longrightarrow> (k mod (P * m)) div m = (k div m) mod P"
  "0 < P \<Longrightarrow> 0 < m \<Longrightarrow> (k mod (P * m)) mod m = k mod (m :: int)"
  by (simp_all add: mult.commute [of P] zmod_zmult2_eq)

lemma radix_range: "0 < m \<Longrightarrow> k < P * m \<Longrightarrow> k div m < (P :: int)"
proof (rule ccontr)
  assume "0 < m" "k < P * m" "\<not> k div m < P"
  then have "P * m \<le> k div m * m" by (intro mult_right_mono) auto
  also have "\<dots> = m * (k div m)" by (rule mult.commute)
  also have "\<dots> \<le> k" using mult_div_mod_eq [of m k] pos_mod_sign [OF \<open>0 < m\<close>, of k] by linarith
  finally show False using \<open>k < P * m\<close> by simp
qed

lemma indices_at_snoc:
  "\<forall>n\<in>set ns. 0 < n \<Longrightarrow> 0 < m \<Longrightarrow> 0 \<le> k \<Longrightarrow> k < prod_list ns * m \<Longrightarrow>
   indices_at (ns @ [m]) k = indices_at ns (k div m) @ [k mod m]"
proof (induction ns arbitrary: k)
  case (Cons n ns)
  let ?P = "prod_list ns"
  have P: "0 < ?P" using Cons.prems by (simp add: prod_list_pos)
  have "k div (?P * m) = k div m div ?P"
    using P by (simp add: mult.commute [of ?P] zdiv_zmult2_eq)
  then show ?case using Cons.IH [of "k mod (?P * m)"] Cons.prems P by (simp add: radix_digits)
qed simp

lemma increment_append:
  "i < length ns \<Longrightarrow> i < length xs \<Longrightarrow>
   increment_from i (ns @ ms) (xs @ ys) = bnd (increment_from i ns xs) (\<lambda>r. ret (r @ ys))"
proof (induction i arbitrary: xs)
  case (Suc i)
  from Suc.IH [of "xs[Suc i := 0]"] Suc.prems show ?case
    by (simp add: increment_from.simps [of "Suc i"] nth_append list_update_append run_simps Let_def)
qed (simp add: increment_from.simps [of 0] nth_append list_update_append run_simps Let_def)

text \<open>The odometer goes from the indices of an element to those of the next one, and from the last to the first.\<close>

lemma increment_next:
  "ns \<noteq> [] \<Longrightarrow> \<forall>n\<in>set ns. 0 < n \<Longrightarrow> 0 \<le> k \<Longrightarrow> k < prod_list ns \<Longrightarrow>
   increment_from (length ns - 1) ns (indices_at ns k) = ret (indices_at ns ((k + 1) mod prod_list ns))"
proof (induction ns arbitrary: k rule: rev_induct)
  case (snoc m ns)
  then have m: "0 < m" and ns: "\<forall>n\<in>set ns. 0 < n" and P: "0 < prod_list ns" by (simp_all add: prod_list_pos)
  let ?xs = "indices_at ns (k div m)"
  have at: "indices_at (ns @ [m]) k = ?xs @ [k mod m]" using snoc.prems by (intro indices_at_snoc [OF ns m]) simp_all
  have nxt: "indices_at (ns @ [m]) ((k + 1) mod (prod_list ns * m)) =
      indices_at ns ((k + 1) div m mod prod_list ns) @ [(k + 1) mod m]"
    using P m indices_at_snoc [OF ns m, of "(k + 1) mod (prod_list ns * m)"]
    by (simp add: radix_digits)
  have k: "k div m < prod_list ns" "0 \<le> k div m"
    using snoc.prems m by (simp_all add: radix_range pos_imp_zdiv_nonneg_iff)
  show ?case
  proof (cases "k mod m + 1 < m")
    case True
    have e: "k + 1 = m * (k div m) + (k mod m + 1)" by simp
    have "0 \<le> k mod m + 1" using pos_mod_sign [OF m, of k] by simp
    note d = int_mod_pos_eq [OF e this True] int_div_pos_eq [OF e this True]
    with True k d show ?thesis
      by (simp add: increment_from.simps [of "length ns"] nth_append list_update_append at nxt)
  next
    case False
    then have x: "k mod m + 1 = m" using pos_mod_bound [OF m, of k] by linarith
    then have "k + 1 = m * (k div m + 1)" using mult_div_mod_eq [of m k] distrib_left [of m "k div m" 1] by linarith
    then have d: "(k + 1) mod m = 0" "(k + 1) div m = k div m + 1" using m by simp_all
    show ?thesis
    proof (cases "ns = []")
      case True
      with x snoc.prems have "k + 1 = m" by simp
      with True show ?thesis by (simp add: increment_from.simps [of 0] Let_def)
    next
      case False
      then obtain i where i: "length ns = Suc i" by (cases ns) auto
      then show ?thesis
        using snoc.IH [OF False ns k(2) k(1)] x d
        by (simp add: at nxt increment_from.simps [of "Suc i"] nth_append list_update_append increment_append run_simps Let_def)
    qed
  qed
qed simp

lemma IncrementIterationSpace_next:
  assumes "ns \<noteq> []" "\<forall>n\<in>set ns. 0 < n" "0 \<le> k" "k < prod_list ns"
  shows "IncrementIterationSpace (indices_at ns k) ns = ret (indices_at ns ((k + 1) mod prod_list ns))"
  using increment_next [OF assms] by (simp add: IncrementIterationSpace_def)

lemma replicate_nat: "0 < d \<Longrightarrow> replicate (nat d) x = x # replicate (nat (d - 1)) x"
  by (cases "nat d") (auto simp: nat_diff_distrib)

lemma ComputeIterationSpace_wlp:
  assumes lens: "\<And>ty w. wlp (the_length H ty) (\<lambda>n _. 0 \<le> n) w" and "0 \<le> len"
  shows "wlp (ComputeIterationSpace H arrayType depth len)
    (\<lambda>(space, _, total) _. space \<noteq> [] \<and> length space = nat depth \<and> (\<forall>n\<in>set space. 0 \<le> n) \<and> total = prod_list space) w"
proof -
  let ?I = "\<lambda>i (space, _, total) _. \<exists>xs. space = xs @ replicate (nat (depth - i)) 0 \<and> int (length xs) = i
    \<and> (\<forall>n\<in>set xs. 0 \<le> n) \<and> total = prod_list xs"
  show ?thesis
    unfolding ComputeIterationSpace_def
    apply (rule wlp_any, unfold wlp_sq wlp_asrt, rule impI)
    apply (rule wlp_any, unfold wlp_sq wlp_asrt, rule impI, rule impI)
    apply (rule wlp_any)
    apply (rule wlp_for_acc [where I = ?I])
    subgoal
      using \<open>0 \<le> len\<close> by (auto intro!: exI [of _ "[len]"] simp: replicate_nat [of depth])
    subgoal by simp
    subgoal premises p for a t b t' g t'' i c s
    proof -
      obtain xs ty where c: "c = (xs @ replicate (nat (depth - i)) 0, ty, prod_list xs)" "int (length xs) = i" "\<forall>n\<in>set xs. 0 \<le> n"
        using p(6) by (cases c) auto
      have rep: "replicate (nat (depth - i)) (0 :: int) = 0 # replicate (nat (depth - (i + 1))) 0"
        using p(5) replicate_nat [of "depth - i"] by (simp add: algebra_simps)
      show ?thesis
        unfolding c(1) prod.case
        apply (rule wlp_any)
        subgoal for a s
        proof (cases a)
          case True
          have "wlp (elementType H ty) (\<lambda>ty' _. ?I (i + 1) ((xs @ replicate (nat (depth - i)) 0)[nat i := n], ty', prod_list xs * n) s') s'"
            if "0 \<le> n" for n s'
            unfolding wlp_def using c(2,3) that
            by (auto simp: rep list_update_append intro!: exI [of _ "xs @ [n]"])
          then show ?thesis
            unfolding if_P [OF True] wlp_bnd wlp_ret
            by (intro wlp_mono [OF lens]) (simp add: wlp_def)
        qed (simp add: BadArgs_def wlp_throw)
        done
    qed
    subgoal by auto
    done
qed

text \<open>A loop whose variables are a function of the counter.\<close>

lemma for_acc_counter:
  assumes "lo \<le> n" and "\<And>i. lo \<le> i \<Longrightarrow> i < n \<Longrightarrow> body i (c i) = sq (m i) (ret (c (i + 1)))"
  shows "for_acc lo n body (c lo) = sq (for_each lo n m) (ret (c n))"
proof -
  have "for_acc k n body (c k) = sq (for_each k n m) (ret (c n))" if "lo \<le> k" "k \<le> n" for k
    using that
  proof (induction "nat (n - k)" arbitrary: k rule: less_induct)
    case less
    show ?case
    proof (cases "k < n")
      case True
      with less have "for_acc (k + 1) n body (c (k + 1)) = sq (for_each (k + 1) n m) (ret (c n))" by simp
      with True less.prems show ?thesis
        by (simp add: for_acc_step for_each_step assms(2) run_simps)
    next
      case False
      with less.prems show ?thesis by (simp add: for_acc_done for_each_done)
    qed
  qed
  from this [of lo] \<open>lo \<le> n\<close> show ?thesis by simp
qed

lemma bnd_wlp_cong:
  "wlp m P s \<Longrightarrow> (\<And>a t. m s = (Ret a, t) \<Longrightarrow> P a t \<Longrightarrow> f a t = g a t) \<Longrightarrow> bnd m f s = bnd m g s"
  by (rule bnd_cong_run) (auto simp: wlp_def)

section \<open>The loops element by element\<close>

text \<open>What \<open>build\<close> does at the element number \<open>k\<close>: its indices and its place in memory are those of \<open>k\<close>.\<close>

definition build_at :: "'w host \<Rightarrow> nat \<Rightarrow> int list \<Rightarrow> val \<Rightarrow> val \<Rightarrow> bool \<Rightarrow> int \<Rightarrow> val \<Rightarrow> int \<Rightarrow> ('w, unit) jprog" where
  "build_at H fuel space grainType result simple sz func k =
     bnd (TypedObjectGetOpaqueIf H grainType result (k * sz) (\<not> simple)) (\<lambda>out.
     bnd (Call H func Undef (map vint (indices_at space k) @ [out])) (StoreResult H fuel grainType result (k * sz)))"

definition BuildTypedSeq_by_index :: "'w host \<Rightarrow> nat \<Rightarrow> val \<Rightarrow> int \<Rightarrow> num \<Rightarrow> val \<Rightarrow> ('w, val) jprog" where
  "BuildTypedSeq_by_index H fuel arrayType len depth func =
     bnd (IsTypeDescr H arrayType) (\<lambda>d. sq (asrt d ''Build called on non-type-object'')
    (bnd (CheckDepth depth) (\<lambda>depth.
     bnd (ComputeIterationSpace H arrayType depth len) (\<lambda>(space, grainType, _).
     bnd (New H arrayType []) (\<lambda>result.
     bnd (TypeDescrIsSimpleType H grainType) (\<lambda>simple.
     bnd (DESCR_SIZE H grainType) (\<lambda>size.
     sq (for_each 0 (prod_list space) (build_at H fuel space grainType result simple size func)) (ret result))))))))"

lemma space_positive: "\<forall>n\<in>set ns. 0 \<le> n \<Longrightarrow> 0 < prod_list ns \<Longrightarrow> \<forall>n\<in>set ns. 0 < (n :: int)"
proof (induction ns)
  case (Cons n ns)
  then have "0 \<le> n" "0 \<le> prod_list ns" "0 < n * prod_list ns" by (simp_all add: prod_list_nonneg)
  then have "0 < n" "0 < prod_list ns" by (simp_all add: zero_less_mult_iff)
  with Cons show ?case by simp
qed simp

lemma BuildTypedSeqImpl_by_index:
  assumes "\<And>ty w. wlp (the_length H ty) (\<lambda>n _. 0 \<le> n) w" and "0 \<le> len"
  shows "BuildTypedSeqImpl H fuel arrayType len depth func w = BuildTypedSeq_by_index H fuel arrayType len depth func w"
  unfolding BuildTypedSeqImpl_def BuildTypedSeq_by_index_def
  apply (intro bnd_cong_run sq_right_run)
  subgoal premises p for d t u depth t' sp t''
  proof -
    obtain space ty total where sp: "sp = (space, ty, total)" by (cases sp)
    with wlpD [OF ComputeIterationSpace_wlp [OF assms] p(4)]
    have space: "space \<noteq> []" "length space = nat depth" "\<forall>n\<in>set space. 0 \<le> n" "total = prod_list space" by auto
    have loop: "for_acc 0 total (\<lambda>i (indices, outOffset).
            bnd (TypedObjectGetOpaqueIf H ty result outOffset (\<not> simple)) (\<lambda>userOutPointer.
            bnd (Call H func Undef (map vint indices @ [userOutPointer])) (\<lambda>r.
            sq (StoreResult H fuel ty result outOffset r)
           (bnd (IncrementIterationSpace indices space) (\<lambda>indices.
            ret (indices, outOffset + size)))))) (replicate (nat depth) 0, 0)
      = sq (for_each 0 total (build_at H fuel space ty result simple size func)) (ret (indices_at space (total mod total), total * size))"
      for result simple size
    proof -
      let ?c = "\<lambda>k. (indices_at space (k mod total), k * size)"
      have "0 \<le> total" using prod_list_nonneg space by simp
      moreover have z: "?c 0 = (replicate (nat depth) 0, 0)" by (simp add: indices_at_zero space(2))
      ultimately show ?thesis
        using space_positive [OF space(3)] space(1,4)
        by (subst z [symmetric], intro for_acc_counter [where c = ?c])
          (simp_all add: build_at_def IncrementIterationSpace_next run_simps distrib_right)
    qed
    show ?thesis by (simp add: sp loop [unfolded space(4)] run_simps space(4))
  qed
  done

text \<open>The same of \<open>map\<close> and \<open>from\<close>: one loop for every depth.\<close>

definition map_at ::
    "'w host \<Rightarrow> nat \<Rightarrow> int list \<Rightarrow> val \<Rightarrow> val \<Rightarrow> val \<Rightarrow> bool \<Rightarrow> int \<Rightarrow> int \<Rightarrow> val \<Rightarrow> val \<Rightarrow> int \<Rightarrow> ('w, unit) jprog" where
  "map_at H fuel space inArray inGrainType outGrainType outGrainTypeIsComplex inUnitSize outUnitSize func result k =
     bnd (TypedObjectGet H inGrainType inArray (k * inUnitSize)) (\<lambda>element.
     bnd (TypedObjectGetOpaqueIf H outGrainType result (k * outUnitSize) outGrainTypeIsComplex) (\<lambda>out.
     bnd (Call H func Undef (element # map vint (indices_at space k) @ [inArray, out]))
       (StoreResult H fuel outGrainType result (k * outUnitSize))))"

definition MapTypedSeq_by_index :: "'w host \<Rightarrow> nat \<Rightarrow> val \<Rightarrow> num \<Rightarrow> val \<Rightarrow> val \<Rightarrow> ('w, val) jprog" where
  "MapTypedSeq_by_index H fuel inArray depth outputType func =
     bnd (IsTypeDescr H outputType) (\<lambda>d. sq (asrt d ''2. Map/From called on non-type-object outputType'')
    (bnd (IsTypedObject H inArray) (\<lambda>t. sq (asrt t ''Map/From called on non-object or untyped input array.'')
    (bnd (TypeDescrIsArrayType H outputType) (\<lambda>a. sq (asrt a ''Map/From called on non array-type outputType'')
    (bnd (CheckDepth depth) (\<lambda>depth.
     bnd (TypeOfTypedObject H inArray) (\<lambda>inputType.
     bnd (the_length H inArray) (\<lambda>inLen.
     bnd (ComputeIterationSpace H inputType depth inLen) (\<lambda>(inSpace, inGrainType, _).
     bnd (IsTypeDescr H inGrainType) (\<lambda>g.
     if \<not> g then BadArgs
     else
       bnd (the_length H outputType) (\<lambda>outLen.
       bnd (ComputeIterationSpace H outputType depth outLen) (\<lambda>(space, outGrainType, _).
       if inSpace \<noteq> space then BadArgs
       else
         bnd (New H outputType []) (\<lambda>result.
         bnd (TypeDescrIsSimpleType H inGrainType) (\<lambda>inSimple.
         bnd (TypeDescrIsSimpleType H outGrainType) (\<lambda>outSimple.
         if depth = 1 \<and> inSimple \<and> outSimple then DoMapTypedSeqDepth1Simple H inArray (prod_list space) func result
         else
           bnd (DESCR_SIZE H inGrainType) (\<lambda>inUnitSize.
           bnd (DESCR_SIZE H outGrainType) (\<lambda>outUnitSize.
           sq (for_each 0 (prod_list space)
                 (map_at H fuel space inArray inGrainType outGrainType (\<not> outSimple) inUnitSize outUnitSize func result))
              (ret result)))))))))))))))))))"

lemma DoMapTypedSeqDepth1_by_index:
  assumes "0 \<le> n"
  shows "DoMapTypedSeqDepth1 H fuel inArray ity oty cplx isz osz n func result
       = sq (for_each 0 n (map_at H fuel [n] inArray ity oty cplx isz osz func result)) (ret result)"
proof -
  let ?c = "\<lambda>k. (k * isz, k * osz)"
  have z: "?c 0 = (0, 0)" by simp
  show ?thesis
    unfolding DoMapTypedSeqDepth1_def
    by (subst z [symmetric], subst for_acc_counter [OF assms, where c = ?c])
      (simp_all add: map_at_def run_simps distrib_right)
qed

lemma DoMapTypedSeqDepthN_by_index:
  assumes space: "space \<noteq> []" "length space = nat depth" "\<forall>n\<in>set space. 0 \<le> n"
  shows "DoMapTypedSeqDepthN H fuel inArray depth ity oty cplx isz osz space (prod_list space) func result
       = sq (for_each 0 (prod_list space) (map_at H fuel space inArray ity oty cplx isz osz func result)) (ret result)"
proof -
  let ?n = "prod_list space"
  let ?c = "\<lambda>k. (indices_at space (k mod ?n), k * isz, k * osz)"
  have z: "?c 0 = (replicate (nat depth) 0, 0, 0)" by (simp add: indices_at_zero space(2))
  show ?thesis
    unfolding DoMapTypedSeqDepthN_def
    using space_positive [OF space(3)] space(1)
    by (subst z [symmetric], subst for_acc_counter [OF prod_list_nonneg [OF space(3)], where c = ?c])
      (simp_all add: map_at_def IncrementIterationSpace_next run_simps distrib_right)
qed

lemma MapTypedSeqImpl_by_index:
  assumes lens: "\<And>ty w. wlp (the_length H ty) (\<lambda>n _. 0 \<le> n) w"
  shows "MapTypedSeqImpl H fuel inArray depth outputType func w = MapTypedSeq_by_index H fuel inArray depth outputType func w"
  unfolding MapTypedSeqImpl_def MapTypedSeq_by_index_def
  apply (intro bnd_cong_run sq_right_run)
  apply (simp only: case_prod_beta')
  apply (rule bnd_cong_run, rule if_cong_run, rule refl, rule bnd_wlp_cong [OF lens],
      rule bnd_wlp_cong [OF ComputeIterationSpace_wlp [OF lens]], assumption, rule if_cong_run, rule refl)
  subgoal premises p for d t u a t1 v b t2 x depth t3 ty t4 len t5 insp t6 g t7 outlen t8 sp t9
  proof -
    obtain space oty total where sp: "sp = (space, oty, total)" by (cases sp) auto
    then have space: "space \<noteq> []" "length space = nat depth" "\<forall>n\<in>set space. 0 \<le> n" "total = prod_list space"
      using p by auto
    have one: "space = [prod_list space]" if "depth = 1"
      using space(1,2) that by (cases space) auto
    have loop: "(if depth = 1 then DoMapTypedSeqDepth1 H fuel inArray ity oty cplx isz osz (prod_list space) func result
        else DoMapTypedSeqDepthN H fuel inArray depth ity oty cplx isz osz space (prod_list space) func result)
      = sq (for_each 0 (prod_list space) (map_at H fuel space inArray ity oty cplx isz osz func result)) (ret result)"
      for ity cplx isz osz result
      using DoMapTypedSeqDepthN_by_index [OF space(1-3)]
        DoMapTypedSeqDepth1_by_index [OF prod_list_nonneg [OF space(3)]] one by (metis (full_types))
    show ?thesis by (simp only: sp prod.sel space(4) loop)
  qed
  done

section \<open>The flags of filter\<close>

lemma and_seven: "(i :: int) AND 7 = i mod 8"
proof -
  have "mask 3 = (7 :: int)" by (simp add: mask_eq_exp_minus_1)
  then show ?thesis using take_bit_eq_mask [of 3 i] by (simp add: take_bit_eq_mod)
qed

lemma GET_BIT_bit:
  "0 \<le> i \<Longrightarrow> i < 2 ^ 31 \<Longrightarrow> GET_BIT data i \<longleftrightarrow> i div 8 < int (length data) \<and> bit (data ! nat (i div 8)) (nat (i mod 8))"
  by (simp add: GET_BIT_def Let_def js_shift_right_def bit_mask_def and_seven to_int32_small drop_bit_eq_div
      pos_imp_zdiv_nonneg_iff bit_iff_and_push_bit_not_eq_0)

lemma same_place:
  assumes "0 \<le> i" "0 \<le> j" "nat (i div 8) = nat (j div 8)" "nat (i mod 8) = nat (j mod 8)"
  shows "i = (j :: int)"
proof -
  have "i div 8 = j div 8" "i mod 8 = j mod 8" using assms by (simp_all add: eq_nat_nat_iff pos_imp_zdiv_nonneg_iff)
  then show ?thesis by (metis div_mult_mod_eq)
qed

text \<open>A flag that is set is read as set, and setting it changes no other.\<close>

lemma GET_BIT_SET_BIT:
  assumes i: "0 \<le> i" "i < 8 * int (length data)" "8 * int (length data) \<le> 2 ^ 31" and j: "0 \<le> j" "j < 2 ^ 31"
  shows "GET_BIT (SET_BIT data i) j \<longleftrightarrow> j = i \<or> GET_BIT data j"
proof -
  have w: "0 \<le> i div 8" "i div 8 < int (length data)" using i radix_range [of 8 i "int (length data)"] by simp_all
  have set: "SET_BIT data i = data[nat (i div 8) := data ! nat (i div 8) OR 2 ^ nat (i mod 8)]"
    using i w by (simp add: SET_BIT_def Let_def js_shift_right_def bit_mask_def and_seven to_int32_small drop_bit_eq_div)
  have m: "nat (i mod 8) < 8" by (simp add: nat_less_iff)
  then have one: "bit (2 ^ nat (i mod 8) :: 8 word) k \<longleftrightarrow> k = nat (i mod 8)" for k by (auto simp: bit_simps)
  show ?thesis
  proof (cases "nat (j div 8) = nat (i div 8)")
    case True
    then have "j div 8 = i div 8" using w j by (simp add: eq_nat_nat_iff pos_imp_zdiv_nonneg_iff)
    moreover have "j = i \<longleftrightarrow> nat (j mod 8) = nat (i mod 8)" using same_place [OF j(1) i(1) True] by auto
    ultimately show ?thesis using w j by (simp add: GET_BIT_bit set bit_or_iff one disj_commute)
  next
    case False
    with j show ?thesis by (auto simp: GET_BIT_bit set)
  qed
qed

end
