(* ===== verification/TypedObjectSafety.thy ===== *)
theory TypedObjectSafety
  imports TypedObjects
begin

unbundle bit_operations_syntax

text \<open>
  Writing a value by its descriptor: what the native stores assert of their arguments holds at every store, for every descriptor
  whose parts lie inside it, and the recursion over the descriptor ends.
\<close>

section \<open>Layouts\<close>

text \<open>A descriptor, one level of it: the codes of scalars and references, element type and length, names and types and offsets.\<close>

datatype layout = ScalarOf int | ReferenceOf int | ArrayOf val int | StructOf "(jstr \<times> val \<times> int) list"

fun layout_kind :: "layout \<Rightarrow> int" where
  "layout_kind (ScalarOf _) = JS_TYPEREPR_SCALAR_KIND"
| "layout_kind (ReferenceOf _) = JS_TYPEREPR_REFERENCE_KIND"
| "layout_kind (StructOf _) = JS_TYPEREPR_STRUCT_KIND"
| "layout_kind (ArrayOf _ _) = JS_TYPEREPR_ARRAY_KIND"

text \<open>The bytes of the scalars by their codes; references take eight (a \<open>Value\<close>, or a pointer of 64 bits).\<close>

definition scalar_bytes :: "int \<Rightarrow> int option" where
  "scalar_bytes = map_of [(JS_SCALARTYPEREPR_INT8, 1), (JS_SCALARTYPEREPR_UINT8, 1), (JS_SCALARTYPEREPR_UINT8_CLAMPED, 1),
     (JS_SCALARTYPEREPR_INT16, 2), (JS_SCALARTYPEREPR_UINT16, 2), (JS_SCALARTYPEREPR_INT32, 4), (JS_SCALARTYPEREPR_UINT32, 4),
     (JS_SCALARTYPEREPR_FLOAT32, 4), (JS_SCALARTYPEREPR_FLOAT64, 8), (JS_SCALARTYPEREPR_BIGINT64, 8), (JS_SCALARTYPEREPR_BIGUINT64, 8)]"

definition reference_codes :: "int list" where
  "reference_codes = [JS_REFERENCETYPEREPR_ANY, JS_REFERENCETYPEREPR_OBJECT, JS_REFERENCETYPEREPR_WASM_ANYREF, JS_REFERENCETYPEREPR_STRING]"

text \<open>A descriptor of at most so many levels whose parts lie inside it, each at a multiple of its alignment.\<close>

fun laid_out :: "(val \<Rightarrow> layout option) \<Rightarrow> (val \<Rightarrow> int) \<Rightarrow> (val \<Rightarrow> int) \<Rightarrow> nat \<Rightarrow> val \<Rightarrow> bool" where
  "laid_out lay bytes al 0 d = False"
| "laid_out lay bytes al (Suc n) d = (0 \<le> bytes d \<and> (case lay d of
      Some (ScalarOf t) \<Rightarrow> scalar_bytes t = Some (bytes d) \<and> al d = bytes d
    | Some (ReferenceOf t) \<Rightarrow> t \<in> set reference_codes \<and> bytes d = 8 \<and> al d = 8
    | Some (ArrayOf e len) \<Rightarrow> laid_out lay bytes al n e \<and> 0 \<le> len \<and> len < 2 ^ 31 \<and> bytes d = len * bytes e
        \<and> al d = al e \<and> al e dvd bytes e
    | Some (StructOf fs) \<Rightarrow> (\<forall>(_, f, off) \<in> set fs. laid_out lay bytes al n f \<and> 0 \<le> off \<and> off + bytes f \<le> bytes d
        \<and> al f dvd off \<and> al f dvd al d)
    | None \<Rightarrow> False))"

section \<open>Stores that check what they assert\<close>

definition scalar_stores :: "(string \<times> int) list" where
  "scalar_stores = [(''Store_int8'', 1), (''Store_uint8'', 1), (''Store_int16'', 2), (''Store_uint16'', 2), (''Store_int32'', 4),
     (''Store_uint32'', 4), (''Store_float32'', 4), (''Store_float64'', 8)]"

definition bigint_stores :: "(string \<times> int) list" where
  "bigint_stores = [(''Store_bigint64'', 8), (''Store_biguint64'', 8)]"

definition reference_stores :: "(string \<times> int) list" where
  "reference_stores = [(''Store_Any'', 8), (''Store_Object'', 8), (''Store_WasmAnyRef'', 8), (''Store_string'', 8)]"

definition store_bytes :: "string \<Rightarrow> int option" where
  "store_bytes = map_of (scalar_stores @ bigint_stores @ reference_stores)"

text \<open>
  The assertions of the native functions: the number of arguments, an offset that is an int32 and aligned, a number for a
  scalar, a string or null as the name of a reference; and what they do not check, the range of the memory.
\<close>

definition store_ok :: "(val \<Rightarrow> int) \<Rightarrow> string \<Rightarrow> val list \<Rightarrow> bool" where
  "store_ok mem name args = (case args of
      ob # offset # rest \<Rightarrow>
        (case (store_bytes name, int_value offset) of
           (Some n, Some i) \<Rightarrow> 0 \<le> i \<and> i + n \<le> mem ob \<and> n dvd i \<and>
             (if name \<in> fst ` set scalar_stores then \<exists>x. rest = [Num x]
              else if name \<in> fst ` set bigint_stores then length rest = 1
              else (\<exists>v. rest = [Null, v]) \<or> (\<exists>s v. rest = [Str s, v]))
         | _ \<Rightarrow> False)
    | _ \<Rightarrow> False)"

definition guard_stores :: "'w host \<Rightarrow> (val \<Rightarrow> int) \<Rightarrow> 'w host" where
  "guard_stores H mem = H\<lparr>intrinsic := (\<lambda>name args.
     if store_bytes name \<noteq> None then sq (asrt (store_ok mem name args) ''arguments of a native store'') (intrinsic H name args)
     else intrinsic H name args)\<rparr>"

lemma scalar_bytes_simps:
  "scalar_bytes JS_SCALARTYPEREPR_INT8 = Some 1" "scalar_bytes JS_SCALARTYPEREPR_UINT8 = Some 1"
  "scalar_bytes JS_SCALARTYPEREPR_UINT8_CLAMPED = Some 1" "scalar_bytes JS_SCALARTYPEREPR_INT16 = Some 2"
  "scalar_bytes JS_SCALARTYPEREPR_UINT16 = Some 2" "scalar_bytes JS_SCALARTYPEREPR_INT32 = Some 4"
  "scalar_bytes JS_SCALARTYPEREPR_UINT32 = Some 4" "scalar_bytes JS_SCALARTYPEREPR_FLOAT32 = Some 4"
  "scalar_bytes JS_SCALARTYPEREPR_FLOAT64 = Some 8" "scalar_bytes JS_SCALARTYPEREPR_BIGINT64 = Some 8"
  "scalar_bytes JS_SCALARTYPEREPR_BIGUINT64 = Some 8"
  by (simp_all add: scalar_bytes_def JS_SCALARTYPEREPR_INT8_def JS_SCALARTYPEREPR_UINT8_def JS_SCALARTYPEREPR_UINT8_CLAMPED_def
      JS_SCALARTYPEREPR_INT16_def JS_SCALARTYPEREPR_UINT16_def JS_SCALARTYPEREPR_INT32_def JS_SCALARTYPEREPR_UINT32_def
      JS_SCALARTYPEREPR_FLOAT32_def JS_SCALARTYPEREPR_FLOAT64_def JS_SCALARTYPEREPR_BIGINT64_def JS_SCALARTYPEREPR_BIGUINT64_def)

lemma store_simps:
  "store_bytes ''Store_int8'' = Some 1" "store_bytes ''Store_uint8'' = Some 1" "store_bytes ''Store_int16'' = Some 2"
  "store_bytes ''Store_uint16'' = Some 2" "store_bytes ''Store_int32'' = Some 4" "store_bytes ''Store_uint32'' = Some 4"
  "store_bytes ''Store_float32'' = Some 4" "store_bytes ''Store_float64'' = Some 8" "store_bytes ''Store_bigint64'' = Some 8"
  "store_bytes ''Store_biguint64'' = Some 8" "store_bytes ''Store_Any'' = Some 8" "store_bytes ''Store_Object'' = Some 8"
  "store_bytes ''Store_WasmAnyRef'' = Some 8" "store_bytes ''Store_string'' = Some 8"
  "store_bytes ''ClampToUint8'' = None" "store_bytes ''IsBoxableWasmAnyRef'' = None" "store_bytes ''BoxWasmAnyRef'' = None"
  "fst ` set scalar_stores = {''Store_int8'', ''Store_uint8'', ''Store_int16'', ''Store_uint16'', ''Store_int32'', ''Store_uint32'',
     ''Store_float32'', ''Store_float64''}"
  "fst ` set bigint_stores = {''Store_bigint64'', ''Store_biguint64''}"
  by (simp_all add: store_bytes_def scalar_stores_def bigint_stores_def reference_stores_def)

lemma guard_stores_fields [simp]:
  "get_prop (guard_stores H mem) = get_prop H" "get_slot (guard_stores H mem) = get_slot H"
  "to_number_of (guard_stores H mem) = to_number_of H" "to_string_of (guard_stores H mem) = to_string_of H"
  "wrap_prim (guard_stores H mem) = wrap_prim H"
  "store_bytes n = None \<Longrightarrow> intrinsic (guard_stores H mem) n args = intrinsic H n args"
  by (simp_all add: guard_stores_def)

lemma guard_stores_run:
  "store_ok mem n args \<Longrightarrow> intrinsic (guard_stores H mem) n args = intrinsic H n args"
  by (auto simp: guard_stores_def sq_def bnd_def asrt_def fun_eq_iff)

lemma guard_stores_language [simp]:
  "Get (guard_stores H mem) = Get H" "ToNumber (guard_stores H mem) = ToNumber H" "ToString (guard_stores H mem) = ToString H"
  "ToObject (guard_stores H mem) = ToObject H"
proof -
  show "Get (guard_stores H mem) = Get H" by (simp add: Get_def fun_eq_iff)
  show "ToNumber (guard_stores H mem) = ToNumber H" by (rule ext) (case_tac x, simp_all)
  show "ToString (guard_stores H mem) = ToString H" by (rule ext) (case_tac x, simp_all)
  show "ToObject (guard_stores H mem) = ToObject H" by (rule ext) (case_tac x, simp_all)
qed

lemma guard_stores_conversions [simp]:
  "ToInt32 (guard_stores H mem) = ToInt32 H" "ToUint32 (guard_stores H mem) = ToUint32 H"
  by (simp_all add: ToInt32_def ToUint32_def fun_eq_iff)

section \<open>Engines with typed objects\<close>

text \<open>
  The documented behaviour: the slots of descriptors and the lists of the fields of a struct are read without effect; everything
  that may run code of the user, a getter or a conversion, returns or throws in the end, in any state and with any effect, and so do the
  stores; \<open>ClampToUint8\<close> gives a number.
\<close>

abbreviation ends :: "('w, 'a) jprog \<Rightarrow> 'w \<Rightarrow> bool" where
  "ends m \<equiv> wp m (\<lambda>_ _. True) (\<lambda>_ _. True)"

lemma ends_bnd: "ends m w \<Longrightarrow> (\<And>a s. ends (f a) s) \<Longrightarrow> ends (bnd m f) w"
  unfolding wp_bnd by (rule wp_mono) auto

lemma ends_if: "(b \<Longrightarrow> ends m w) \<Longrightarrow> (\<not> b \<Longrightarrow> ends n w) \<Longrightarrow> ends (if b then m else n) w"
  by simp

lemma IntOf_run: "m s = (Ret (vint i), s) \<Longrightarrow> IntOf m s = (Ret i, s)"
  by (simp add: IntOf_def run_simps)

locale descr_host =
  fixes H :: "'w host" and lay :: "val \<Rightarrow> layout option" and bytes :: "val \<Rightarrow> int"
    and names :: "val \<Rightarrow> val" and types :: "val \<Rightarrow> val" and offsets :: "val \<Rightarrow> val"
  assumes kind_slot: "lay d = Some l \<Longrightarrow> get_slot H d JS_DESCR_SLOT_KIND w = (Ret (vint (layout_kind l)), w)"
    and size_slot: "lay d = Some l \<Longrightarrow> get_slot H d JS_DESCR_SLOT_SIZE w = (Ret (vint (bytes d)), w)"
    and type_slot: "lay d = Some (ScalarOf t) \<or> lay d = Some (ReferenceOf t) \<Longrightarrow> get_slot H d JS_DESCR_SLOT_TYPE w = (Ret (vint t), w)"
    and elem_slot: "lay d = Some (ArrayOf e n) \<Longrightarrow> get_slot H d JS_DESCR_SLOT_ARRAY_ELEM_TYPE w = (Ret e, w)"
    and length_slot: "lay d = Some (ArrayOf e n) \<Longrightarrow> get_slot H d JS_DESCR_SLOT_ARRAY_LENGTH w = (Ret (vint n), w)"
    and names_slot: "lay d = Some (StructOf fs) \<Longrightarrow> get_slot H d JS_DESCR_SLOT_STRUCT_FIELD_NAMES w = (Ret (names d), w)"
    and types_slot: "lay d = Some (StructOf fs) \<Longrightarrow> get_slot H d JS_DESCR_SLOT_STRUCT_FIELD_TYPES w = (Ret (types d), w)"
    and offsets_slot: "lay d = Some (StructOf fs) \<Longrightarrow> get_slot H d JS_DESCR_SLOT_STRUCT_FIELD_OFFSETS w = (Ret (offsets d), w)"
    and names_length: "lay d = Some (StructOf fs) \<Longrightarrow> Get H (names d) (pstr ''length'') w = (Ret (vint (int (length fs))), w)"
    and field: "lay d = Some (StructOf fs) \<Longrightarrow> i < length fs \<Longrightarrow>
        Get H (names d) (PIdx (int i)) w = (Ret (Str (fst (fs ! i))), w)
      \<and> Get H (types d) (PIdx (int i)) w = (Ret (fst (snd (fs ! i))), w)
      \<and> Get H (offsets d) (PIdx (int i)) w = (Ret (vint (snd (snd (fs ! i)))), w)"
    and get_ends: "ends (get_prop H v k) w"
    and number_ends: "ends (to_number_of H v) w"
    and string_ends: "ends (to_string_of H v) w"
    and wrap_ends: "ends (wrap_prim H v) w"
    and clamp_number: "wp (intrinsic H ''ClampToUint8'' [Num x]) (\<lambda>v _. \<exists>y. v = Num y) (\<lambda>_ _. True) w"
    and boxes_end: "nm \<in> {''IsBoxableWasmAnyRef'', ''BoxWasmAnyRef''} \<Longrightarrow> ends (intrinsic H nm args) w"
    and stores_end: "store_bytes nm \<noteq> None \<Longrightarrow> ends (intrinsic H nm args) w"

begin

lemma Get_ends: "ends (Get H v k) w"
  by (simp add: Get_def wp_simps get_ends)

lemma ToNumber_ends: "ends (ToNumber H v) w"
  by (cases v) (simp_all add: wp_simps number_ends)

lemma ToInt32_ends: "ends (ToInt32 H v) w" and ToUint32_ends: "ends (ToUint32 H v) w"
  by (simp_all add: ToInt32_def ToUint32_def wp_simps ToNumber_ends)

lemma ToString_ends: "ends (ToString H v) w"
  by (cases v) (simp_all add: wp_simps string_ends)

lemma ToObject_ends: "ends (ToObject H v) w"
  by (cases v) (simp_all add: wp_simps wrap_ends)

lemma Store_ends:
  assumes "store_bytes name \<noteq> None" "store_ok mem name (ob # vint (to_int32 off) # args)"
  shows "ends (Store (guard_stores H mem) name ob off args) w"
  unfolding Store_def guard_stores_run [OF assms(2)] wp_bnd wp_ret by (rule stores_end [OF assms(1)])

text \<open>What the stores of a place in an object need of the place.\<close>

lemma store_ok_at:
  assumes "store_bytes name = Some n" "0 \<le> off" "off + n \<le> mem ob" "n dvd off" "mem ob < 2 ^ 31" "0 < n"
  shows "store_ok mem name (ob # vint (to_int32 off) # args) \<longleftrightarrow>
    (if name \<in> fst ` set scalar_stores then \<exists>x. args = [Num x]
     else if name \<in> fst ` set bigint_stores then length args = 1
     else (\<exists>v. args = [Null, v]) \<or> (\<exists>s v. args = [Str s, v]))"
  using assms by (simp add: store_ok_def to_int32_small)

lemma SetScalar_ends:
  assumes "lay d = Some (ScalarOf t)" "scalar_bytes t = Some (bytes d)"
    and place: "0 \<le> off" "off + bytes d \<le> mem ob" "bytes d dvd off" "mem ob < 2 ^ 31"
  shows "ends (TypedObjectSetScalar (guard_stores H mem) d ob off v) w"
proof -
  have kind: "DESCR_KIND (guard_stores H mem) d s = (Ret JS_TYPEREPR_SCALAR_KIND, s)"
    and type: "DESCR_TYPE (guard_stores H mem) d s = (Ret t, s)" for s
    using assms(1) by (simp_all add: DESCR_KIND_def DESCR_TYPE_def IntOf_def run_simps kind_slot type_slot)
  have store: "ends (Store (guard_stores H mem) name ob off [x]) s"
    if "store_bytes name = Some (bytes d)" "name \<in> fst ` set scalar_stores \<Longrightarrow> \<exists>y. x = Num y"
      "name \<in> fst ` set scalar_stores \<or> name \<in> fst ` set bigint_stores" for name x s
  proof (rule Store_ends)
    show "store_bytes name \<noteq> None" using that(1) by simp
    have "0 < bytes d" using assms(2) by (auto simp: scalar_bytes_def split: if_splits)
    from store_ok_at [of name "bytes d" off mem ob "[x]", OF that(1) place(1-4) this] that
    show "store_ok mem name (ob # vint (to_int32 off) # [x])" by auto
  qed
  have num: "wp (intrinsic (guard_stores H mem) ''ClampToUint8'' [Num n]) (\<lambda>v. ends (Store (guard_stores H mem) name ob off [v])) (\<lambda>_ _. True) s"
    if "store_bytes name = Some (bytes d)" "name \<in> fst ` set scalar_stores" for name n s
    using that by (auto simp: store_simps intro!: wp_mono [OF clamp_number] store)
  show ?thesis
    unfolding TypedObjectSetScalar_def wp_bnd wp_run [OF kind] wp_run [OF type] wp_sq wp_asrt
    apply (rule conjI, rule refl)
    apply (intro ends_if)
    using assms(2)
    apply (simp_all only: wp_bnd [symmetric] scalar_bytes_simps option.inject)
    apply (simp_all only: guard_stores_language guard_stores_conversions)
    subgoal by (intro ends_bnd ToInt32_ends store) (simp_all add: store_simps)
    subgoal by (intro ends_bnd ToUint32_ends store) (simp_all add: store_simps)
    subgoal by (rule ends_bnd [OF ToNumber_ends], unfold wp_bnd, rule num) (simp_all add: store_simps)
    subgoal by (intro ends_bnd ToInt32_ends store) (simp_all add: store_simps)
    subgoal by (intro ends_bnd ToUint32_ends store) (simp_all add: store_simps)
    subgoal by (intro ends_bnd ToInt32_ends store) (simp_all add: store_simps)
    subgoal by (intro ends_bnd ToUint32_ends store) (simp_all add: store_simps)
    subgoal by (intro ends_bnd ToNumber_ends store) (simp_all add: store_simps)
    subgoal by (intro ends_bnd ToNumber_ends store) (simp_all add: store_simps)
    subgoal by (intro store) (simp_all add: store_simps)
    subgoal by (intro store) (simp_all add: store_simps)
    subgoal by (auto simp: scalar_bytes_def)
    done
qed


lemma SetReference_ends:
  assumes "lay d = Some (ReferenceOf t)" "t \<in> set reference_codes"
    and place: "0 \<le> off" "off + 8 \<le> mem ob" "8 dvd off" "mem ob < 2 ^ 31" and name: "name = Null \<or> (\<exists>s. name = Str s)"
  shows "ends (TypedObjectSetReference (guard_stores H mem) d ob off name v) w"
proof -
  have type: "DESCR_TYPE (guard_stores H mem) d s = (Ret t, s)" for s
    using assms(1) by (simp add: DESCR_TYPE_def IntOf_def run_simps type_slot)
  have store: "ends (Store (guard_stores H mem) nm ob off [name, x]) s"
    if "nm \<in> {''Store_Any'', ''Store_Object'', ''Store_WasmAnyRef'', ''Store_string''}" for nm x s
  proof (rule Store_ends)
    have n: "store_bytes nm = Some 8" using that by (auto simp: store_simps)
    then show "store_bytes nm \<noteq> None" by simp
    from store_ok_at [of nm 8 off mem ob "[name, x]", OF n place] that name
    show "store_ok mem nm (ob # vint (to_int32 off) # [name, x])" by (auto simp: store_simps)
  qed
  have box: "ends (intrinsic (guard_stores H mem) nm args) s" if "nm \<in> {''IsBoxableWasmAnyRef'', ''BoxWasmAnyRef''}" for nm args s
    using that by (auto simp: store_simps boxes_end)
  show ?thesis
    unfolding TypedObjectSetReference_def wp_bnd wp_run [OF type]
    apply (intro ends_if)
    apply (simp_all only: wp_bnd [symmetric] guard_stores_language)
    subgoal by (rule store) simp
    subgoal by (intro ends_bnd store ends_if ToObject_ends) (simp_all add: wp_ret)
    subgoal by (intro ends_bnd store ends_if box) (simp_all add: wp_ret)
    subgoal by (intro ends_bnd store ToString_ends) simp
    subgoal using assms(2) by (auto simp: reference_codes_def)
    done
qed

text \<open>Arrays and structs, over any function that writes their parts.\<close>

lemma SetArray_ends:
  assumes lay: "lay d = Some (ArrayOf e len)" "lay e \<noteq> None" "0 \<le> len" "0 \<le> bytes e"
    and part_ends: "\<And>i v s. 0 \<le> i \<Longrightarrow> i < len \<Longrightarrow> ends (write e ob (off + i * bytes e) Null v) s"
  shows "ends (TypedObjectSetArray (guard_stores H mem) write d len ob off v) w"
proof -
  have elem: "DESCR_ARRAY_ELEMENT_TYPE (guard_stores H mem) d s = (Ret e, s)"
    and sz: "DESCR_SIZE (guard_stores H mem) e s = (Ret (bytes e), s)" for s
    using lay by (auto simp: DESCR_ARRAY_ELEMENT_TYPE_def DESCR_SIZE_def IntOf_def run_simps elem_slot size_slot)
  have loop: "ends (for_acc 0 len (\<lambda>i elemOffset. bnd (Get H v (PIdx i)) (\<lambda>x.
      sq (write e ob elemOffset Null x) (ret (elemOffset + bytes e)))) off) s" for s
  proof (rule wp_for_acc [where I = "\<lambda>i c _. c = off + i * bytes e"])
    fix i c s assume i: "0 \<le> i" "i < len" "c = off + i * bytes e"
    show "wp (bnd (Get H v (PIdx i)) (\<lambda>x. sq (write e ob c Null x) (ret (c + bytes e))))
        (\<lambda>c _. c = off + (i + 1) * bytes e) (\<lambda>_ _. True) s"
      unfolding wp_bnd wp_sq wp_ret i(3)
      by (rule wp_mono [OF Get_ends], rule wp_mono [OF part_ends [OF i(1,2)]]) (simp_all add: distrib_right)
  qed (use lay in simp_all)
  show ?thesis
    unfolding TypedObjectSetArray_def guard_stores_language
    by (intro ends_if ends_bnd Get_ends) (simp_all add: wp_simps wp_run [OF elem] wp_run [OF sz] loop del: One_nat_def)
qed

lemma SetStruct_ends:
  assumes lay: "lay d = Some (StructOf fs)"
    and part_ends: "\<And>nm f fo v s. (nm, f, fo) \<in> set fs \<Longrightarrow> ends (write f ob (off + fo) (Str nm) v) s"
  shows "ends (TypedObjectSetStruct (guard_stores H mem) write d ob off v) w"
proof -
  have slots: "DESCR_STRUCT_FIELD_NAMES (guard_stores H mem) d s = (Ret (names d), s)"
      "DESCR_STRUCT_FIELD_TYPES (guard_stores H mem) d s = (Ret (types d), s)"
      "DESCR_STRUCT_FIELD_OFFSETS (guard_stores H mem) d s = (Ret (offsets d), s)"
      "IntOf (Get H (names d) (pstr ''length'')) s = (Ret (int (length fs)), s)" for s
    using lay by (simp_all add: DESCR_STRUCT_FIELD_NAMES_def DESCR_STRUCT_FIELD_TYPES_def DESCR_STRUCT_FIELD_OFFSETS_def
        names_slot types_slot offsets_slot IntOf_run [OF names_length])
  have part: "StrOf (Get H (names d) (PIdx i)) s = (Ret (fst (fs ! nat i)), s)"
      "Get H (types d) (PIdx i) s = (Ret (fst (snd (fs ! nat i))), s)"
      "IntOf (Get H (offsets d) (PIdx i)) s = (Ret (snd (snd (fs ! nat i))), s)"
    if "0 \<le> i" "i < int (length fs)" for i s
    using field [OF lay, of "nat i" s] that by (simp_all add: StrOf_def IntOf_run run_simps)
  show ?thesis
    unfolding TypedObjectSetStruct_def guard_stores_language wp_bnd wp_run [OF slots(1)] wp_run [OF slots(2)] wp_run [OF slots(3)]
      wp_run [OF slots(4)]
  proof (rule wp_for_each [where I = "\<lambda>_ _. True"])
    fix i s assume i: "0 \<le> i" "i < int (length fs)"
    then have "fs ! nat i \<in> set fs" by simp
    then show "ends (bnd (StrOf (Get H (names d) (PIdx i))) (\<lambda>fieldName. bnd (Get H (types d) (PIdx i)) (\<lambda>fieldDescr.
        bnd (IntOf (Get H (offsets d) (PIdx i))) (\<lambda>fieldOffset. bnd (Get H v (PStr fieldName)) (\<lambda>fieldValue.
        write fieldDescr ob (off + fieldOffset) (Str fieldName) fieldValue))))) s"
      unfolding wp_bnd wp_run [OF part(1) [OF i]] wp_run [OF part(2) [OF i]] wp_run [OF part(3) [OF i]]
      by (intro wp_mono [OF Get_ends] part_ends) (cases "fs ! nat i", simp)
  qed simp_all
qed


lemma laid_out_lay: "laid_out lay bytes al n d \<Longrightarrow> lay d \<noteq> None \<and> 0 \<le> bytes d"
  by (cases n) (auto split: option.splits)

text \<open>The step of the recursion, by the layout of the descriptor.\<close>

lemma Set_step:
  assumes "laid_out lay bytes al (Suc n) d"
    and place: "0 \<le> off" "off + bytes d \<le> mem ob" "al d dvd off" "mem ob < 2 ^ 31" and name: "name = Null \<or> (\<exists>s. name = Str s)"
    and IH: "\<And>d off name v w. laid_out lay bytes al n d \<Longrightarrow> 0 \<le> off \<Longrightarrow> off + bytes d \<le> mem ob \<Longrightarrow> al d dvd off \<Longrightarrow>
       name = Null \<or> (\<exists>s. name = Str s) \<Longrightarrow> ends (TypedObjectSet (guard_stores H mem) n d ob off name v) w"
  shows "ends (TypedObjectSet (guard_stores H mem) (Suc n) d ob off name v) w"
proof -
  have kind: "DESCR_KIND (guard_stores H mem) d s = (Ret (layout_kind l), s)" if "lay d = Some l" for l s
    using that by (simp add: DESCR_KIND_def IntOf_run [OF kind_slot])
  have codes: "JS_TYPEREPR_SCALAR_KIND = 1" "JS_TYPEREPR_REFERENCE_KIND = 2" "JS_TYPEREPR_STRUCT_KIND = 3" "JS_TYPEREPR_ARRAY_KIND = 4"
    by (simp_all add: JS_TYPEREPR_SCALAR_KIND_def JS_TYPEREPR_REFERENCE_KIND_def JS_TYPEREPR_STRUCT_KIND_def JS_TYPEREPR_ARRAY_KIND_def)
  from assms(1) obtain l where l: "lay d = Some l" by (auto split: option.splits)
  note run = TypedObjectSet.simps(2) wp_bnd wp_run [OF kind [OF l]] codes layout_kind.simps
  show ?thesis
  proof (cases l)
    case (ScalarOf t)
    with assms(1) l place show ?thesis unfolding run ScalarOf by (simp add: codes SetScalar_ends)
  next
    case (ReferenceOf t)
    with assms(1) l place name show ?thesis unfolding run ReferenceOf by (simp add: codes SetReference_ends)
  next
    case (ArrayOf e len)
    with assms(1) l have e: "laid_out lay bytes al n e" "0 \<le> len" "len < 2 ^ 31" "bytes d = len * bytes e" "al d = al e"
      "al e dvd bytes e" by simp_all
    have len: "DESCR_ARRAY_LENGTH (guard_stores H mem) d s = (Ret len, s)" for s
      using l ArrayOf e(2,3) by (simp add: DESCR_ARRAY_LENGTH_def IntOf_run [OF length_slot] run_simps to_int32_small)
    have "ends (TypedObjectSetArray (guard_stores H mem) (TypedObjectSet (guard_stores H mem) n) d len ob off v) w"
    proof (rule SetArray_ends)
      fix i v s assume i: "0 \<le> i" "i < len"
      have b: "0 \<le> bytes e" using laid_out_lay [OF e(1)] by simp
      then have "i * bytes e + bytes e \<le> len * bytes e"
        using mult_right_mono [of "i + 1" len "bytes e"] i by (simp add: distrib_right)
      then show "ends (TypedObjectSet (guard_stores H mem) n e ob (off + i * bytes e) Null v) s"
        using place e i b by (intro IH) simp_all
    qed (use l ArrayOf e laid_out_lay [OF e(1)] in simp_all)
    then show ?thesis
      unfolding run ArrayOf by (simp add: wp_simps wp_run [OF len] CantConvert_def codes if_distribR cong: if_cong)
  next
    case (StructOf fs)
    then have "ends (TypedObjectSetStruct (guard_stores H mem) (TypedObjectSet (guard_stores H mem) n) d ob off v) w"
      using assms(1) l place by (intro SetStruct_ends IH) (fastforce intro: dvd_trans)+
    then show ?thesis unfolding run StructOf by (simp add: wp_simps CantConvert_def codes)
  qed
qed

lemma Set_ends:
  "laid_out lay bytes al n d \<Longrightarrow> 0 \<le> off \<Longrightarrow> off + bytes d \<le> mem ob \<Longrightarrow> al d dvd off \<Longrightarrow> mem ob < 2 ^ 31 \<Longrightarrow>
   name = Null \<or> (\<exists>s. name = Str s) \<Longrightarrow> ends (TypedObjectSet (guard_stores H mem) n d ob off name v) w"
proof (induction n arbitrary: d off name v w)
  case (Suc n d off name v w)
  from Suc.prems show ?case by (intro Set_step Suc.IH) simp_all
qed simp

end

end
