(* ===== verification/TypedObjectEngine.thy ===== *)
theory TypedObjectEngine
  imports TypedObjectProps TypedObjectSafety
begin

unbundle bit_operations_syntax

text \<open>
  An engine with some typed objects: a byte, a double, arrays of bytes and a struct with all of them, a memory, and a function
  that records its arguments. It provides the interface of \<open>TypedObjectSafety\<close>; the properties and their examples.
\<close>

section \<open>The engine\<close>

record tworld =
  cells :: "(int \<times> val) list"
  calls :: "val list list"

definition td_lay :: "val \<Rightarrow> layout option" where
  "td_lay v = (case v of
      Obj n \<Rightarrow>
        if n = 1 then Some (ScalarOf JS_SCALARTYPEREPR_INT8)
        else if n = 2 then Some (ScalarOf JS_SCALARTYPEREPR_FLOAT64)
        else if n = 3 then Some (ArrayOf (Obj 1) 3)
        else if n = 4 then Some (ArrayOf (Obj 3) 2)
        else if n = 5 then Some (StructOf [(js ''a'', Obj 1, 0), (js ''b'', Obj 2, 8), (js ''c'', Obj 4, 16)])
        else None
    | _ \<Rightarrow> None)"

definition td_bytes :: "val \<Rightarrow> int" where
  "td_bytes v = (case v of
      Obj n \<Rightarrow> if n = 1 then 1 else if n = 2 then 8 else if n = 3 then 3 else if n = 4 then 6 else if n = 5 then 24 else 0
    | _ \<Rightarrow> 0)"

definition td_align :: "val \<Rightarrow> int" where
  "td_align v = (if v = Obj 2 \<or> v = Obj 5 then 8 else 1)"

text \<open>Objects 6, 7 and 8 are the lists of the fields of the struct; 20, 21 and 22 are objects of the user.\<close>

definition list_prop :: "val list \<Rightarrow> key \<Rightarrow> val" where
  "list_prop vs k = (case k of
      PIdx i \<Rightarrow> if 0 \<le> i \<and> i < int (length vs) then vs ! nat i else Undef
    | _ \<Rightarrow> if k = pstr ''length'' then vint (int (length vs)) else Undef)"

definition td_prop :: "nat \<Rightarrow> key \<Rightarrow> val" where
  "td_prop n k =
     (if n = 3 then (if k = pstr ''length'' then vint 3 else if k = pstr ''elementType'' then Obj 1 else Undef)
      else if n = 4 then (if k = pstr ''length'' then vint 2 else if k = pstr ''elementType'' then Obj 3 else Undef)
      else if n = 6 then list_prop [vstr ''a'', vstr ''b'', vstr ''c''] k
      else if n = 7 then list_prop [Obj 1, Obj 2, Obj 4] k
      else if n = 8 then list_prop [vint 0, vint 8, vint 16] k
      else if n = 20 then
        (if k = pstr ''a'' then vint 300 else if k = pstr ''b'' then Num (Fin (5 / 2)) else if k = pstr ''c'' then Obj 21 else Undef)
      else if n = 21 then list_prop [Obj 22, Obj 22] k
      else if n = 22 then list_prop [vint 1, vint 2, vint 3] k
      else Undef)"

definition td_get :: "val \<Rightarrow> key \<Rightarrow> (tworld, val) jprog" where
  "td_get v k = ret (case v of Obj n \<Rightarrow> td_prop n k | _ \<Rightarrow> Undef)"

definition td_slot :: "val \<Rightarrow> nat \<Rightarrow> (tworld, val) jprog" where
  "td_slot v i = ret (case td_lay v of
      None \<Rightarrow> Undef
    | Some l \<Rightarrow>
        if i = JS_DESCR_SLOT_KIND then vint (layout_kind l)
        else if i = JS_DESCR_SLOT_SIZE then vint (td_bytes v)
        else case l of
          ScalarOf t \<Rightarrow> vint t
        | ReferenceOf t \<Rightarrow> vint t
        | ArrayOf e n \<Rightarrow> if i = JS_DESCR_SLOT_ARRAY_ELEM_TYPE then e else vint n
        | StructOf fs \<Rightarrow> if i = JS_DESCR_SLOT_STRUCT_FIELD_NAMES then Obj 6
            else if i = JS_DESCR_SLOT_STRUCT_FIELD_TYPES then Obj 7 else Obj 8)"

text \<open>Object 14 is the typed object that \<open>new\<close> gives; function 30 answers with ten times its first argument and its second.\<close>

definition td_class :: "string \<Rightarrow> val \<Rightarrow> bool" where
  "td_class c v =
     (if c = ''TypeDescr'' then v \<in> {Obj 1, Obj 2, Obj 3, Obj 4, Obj 5}
      else if c = ''ArrayTypeDescr'' then v \<in> {Obj 3, Obj 4}
      else if c = ''SimpleTypeDescr'' then v \<in> {Obj 1, Obj 2}
      else c = ''TypedObject'' \<and> v = Obj 14)"

definition td_call :: "val \<Rightarrow> val \<Rightarrow> val list \<Rightarrow> (tworld, val) jprog" where
  "td_call f this args = sq (modify (\<lambda>w. w\<lparr>calls := calls w @ [args]\<rparr>))
     (ret (case (int_value (arg args 0), int_value (arg args 1)) of (Some i, Some j) \<Rightarrow> vint (10 * i + j) | _ \<Rightarrow> Undef))"

definition td_intrinsic :: "string \<Rightarrow> val list \<Rightarrow> (tworld, val) jprog" where
  "td_intrinsic name args =
     (if store_bytes name \<noteq> None then
        sq (modify (\<lambda>w. w\<lparr>cells := cells w @ [(case int_value (arg args 1) of Some i \<Rightarrow> i | None \<Rightarrow> 0, last args)]\<rparr>)) (ret Undef)
      else if name = ''ClampToUint8'' then ret (case args of [Num x] \<Rightarrow> Num x | _ \<Rightarrow> vint 0)
      else ret Undef)"

definition td_engine :: "tworld host" where
  "td_engine = \<lparr>get_prop = td_get, set_prop = (\<lambda>v k x. ret ()), has_prop = (\<lambda>v k. ret False), del_prop = (\<lambda>v k. ret ()),
     define_data = (\<lambda>v k x. ret ()), call_fn = td_call, construct_fn = (\<lambda>v args. ret (Obj 14)),
     callable = (\<lambda>w v. v = Obj 30), constructible = (\<lambda>w v. True), has_class = (\<lambda>w. td_class),
     is_array = (\<lambda>v. ret False), wrap_prim = (\<lambda>v. ret (Obj 40)), to_number_of = (\<lambda>v. ret NaN), to_string_of = (\<lambda>v. ret (js ''0'')),
     new_array = (\<lambda>n. ret (Obj 40)), new_object = ret (Obj 40), get_slot = td_slot, set_slot = (\<lambda>v i x. ret ()),
     builtin = (\<lambda>name. Obj 40), intrinsic = td_intrinsic\<rparr>"

definition td_start :: tworld where
  "td_start = \<lparr>cells = [], calls = []\<rparr>"

lemma td_engine_simps [simp]:
  "get_prop td_engine = td_get" "get_slot td_engine = td_slot" "to_number_of td_engine = (\<lambda>v. ret NaN)"
  "to_string_of td_engine = (\<lambda>v. ret (js ''0''))" "wrap_prim td_engine = (\<lambda>v. ret (Obj 40))" "intrinsic td_engine = td_intrinsic"
  by (simp_all add: td_engine_def)

lemmas td_slots = JS_DESCR_SLOT_KIND_def JS_DESCR_SLOT_SIZE_def JS_DESCR_SLOT_TYPE_def JS_DESCR_SLOT_ARRAY_ELEM_TYPE_def
  JS_DESCR_SLOT_ARRAY_LENGTH_def JS_DESCR_SLOT_STRUCT_FIELD_NAMES_def JS_DESCR_SLOT_STRUCT_FIELD_TYPES_def
  JS_DESCR_SLOT_STRUCT_FIELD_OFFSETS_def

lemma td_struct: "td_lay d = Some (StructOf fs) \<Longrightarrow> d = Obj 5 \<and> fs = [(js ''a'', Obj 1, 0), (js ''b'', Obj 2, 8), (js ''c'', Obj 4, 16)]"
  by (auto simp: td_lay_def split: val.splits if_splits)

lemma td_field:
  assumes "td_lay d = Some (StructOf fs)" "i < length fs"
  shows "Get td_engine (Obj 6) (PIdx (int i)) w = (Ret (Str (fst (fs ! i))), w)
      \<and> Get td_engine (Obj 7) (PIdx (int i)) w = (Ret (fst (snd (fs ! i))), w)
      \<and> Get td_engine (Obj 8) (PIdx (int i)) w = (Ret (vint (snd (snd (fs ! i)))), w)"
  using td_struct [OF assms(1)] assms(2)
  by (auto simp: less_Suc_eq Get_def is_nullish_def td_get_def td_prop_def list_prop_def ret_def)

lemma td_get_ends: "ends (td_get v k) w"
  by (simp add: td_get_def wp_simps)

lemma td_intrinsic_ends: "ends (td_intrinsic name args) w"
  "wp (td_intrinsic ''ClampToUint8'' [Num x]) (\<lambda>v _. \<exists>y. v = Num y) (\<lambda>_ _. True) w"
  by (simp_all add: td_intrinsic_def wp_simps store_simps)

interpretation td: descr_host td_engine td_lay td_bytes "\<lambda>_. Obj 6" "\<lambda>_. Obj 7" "\<lambda>_. Obj 8"
proof
  show "Get td_engine (Obj 6) (pstr ''length'') w = (Ret (vint (int (length fs))), w)" if "td_lay d = Some (StructOf fs)" for d fs w
    using td_struct [OF that] by (simp add: Get_def is_nullish_def td_get_def td_prop_def list_prop_def ret_def js_def)
  show "Get td_engine (Obj 6) (PIdx (int i)) w = (Ret (Str (fst (fs ! i))), w)
      \<and> Get td_engine (Obj 7) (PIdx (int i)) w = (Ret (fst (snd (fs ! i))), w)
      \<and> Get td_engine (Obj 8) (PIdx (int i)) w = (Ret (vint (snd (snd (fs ! i)))), w)"
    if "td_lay d = Some (StructOf fs)" "i < length fs" for d fs i w
    using td_field [OF that] .
qed (auto simp: td_slot_def td_slots ret_def td_get_ends td_intrinsic_ends wp_simps [unfolded ret_def])

section \<open>The properties\<close>


lemma td_int_value: "int_value (Num (Fin (numeral k))) = Some (numeral k)" "int_value Undef = None"
  using int_value_vint(1) [of "numeral k"] by (simp_all add: int_value_def)

lemma td_lengths: "wlp (the_length td_engine ty) (\<lambda>n _. 0 \<le> n) w"
  by (cases ty) (auto simp: the_length_def IntOf_def Get_def td_get_def td_prop_def list_prop_def is_nullish_def js_def
      wlp_simps td_int_value)



lemma td_laid_out: "laid_out td_lay td_bytes td_align 4 (Obj 5)"
  by (simp add: eval_nat_numeral td_lay_def td_bytes_def td_align_def scalar_bytes_simps js_def)


section \<open>Examples\<close>

text \<open>\<open>new ArrayType(new ArrayType(int8, 3), 2).build(2, f)\<close>: six calls, and what they return in the six bytes.\<close>

lemma build_example:
  "cells (snd (BuildTypedSeqImpl td_engine 1 (Obj 4) 2 (nint 2) (Obj 30) td_start))
     = [(0, vint 0), (1, vint 1), (2, vint 2), (3, vint 10), (4, vint 11), (5, vint 12)]"
  by code_simp

text \<open>The struct \<open>{a: int8, b: float64, c: [[int8, 3], 2]}\<close> from \<open>{a: 300, b: 2.5, c: [[1, 2, 3], [1, 2, 3]]}\<close>: 300 wraps.\<close>

lemma set_example:
  "TypedObjectSet td_engine 4 (Obj 5) (Obj 14) 0 Null (Obj 20) td_start
     = (Ret (), \<lparr>cells = [(0, vint 44), (8, Num (Fin (5 / 2))), (16, vint 1), (17, vint 2), (18, vint 3), (19, vint 1),
         (20, vint 2), (21, vint 3)], calls = []\<rparr>)"
  by code_simp

text \<open>\<open>from\<close> does not ask whether the descriptor that it is called on is of an array, unlike \<open>build\<close>.\<close>

lemma from_on_struct:
  "TypedObjectArrayTypeFrom td_engine 1 (Obj 5) (Obj 22) (Obj 30) Undef td_start
     = (AssertFail ''Map/From called on non array-type outputType'', td_start)"
  "TypedObjectArrayTypeBuild td_engine 1 (Obj 5) (Obj 30) Undef td_start
     = (Throw (TypeErr ''JSMSG_TYPEDOBJECT_BAD_ARGS''), td_start)"
  by code_simp+

end
