(* ===== verification/Spec2Isabelle.thy ===== *)
theory Spec2Isabelle
  imports TypedSort SortMergeTop ModuleOrder ModuleExamples StringExamples TypedArrayProps IteratorExamples RegExpEngine
    ObjectProps FunctionBuiltins CollectionsEngine AsyncExamples TypedObjectEngine
begin

text \<open>
  A verification library for the self-hosted builtins of SpiderMonkey: the part of the standard library of JavaScript, and the
  module loader, that the engine implements in JavaScript itself (\<open>src/src/builtin\<close>).

  \<^bold>\<open>The program and its parts.\<close> A self-hosted file is a set of functions that the engine calls with the \<open>this\<close> and the arguments of a
  method. They share no state of their own, with few exceptions (the status fields of module records, the result arrays of the collection
  iterators, generator objects): what they change is the heap, through the operations of the language and through native functions
  (intrinsics). Between two steps of a method, code of the user may run (a getter, a conversion, a callback, a species
  constructor) and change everything that it can reach. Utilities.js has the abstract operations that all others call; Array.js and
  TypedArray.js call the sorts of Sorting.js; String.js dispatches to the methods of RegExp.js, whose replacement includes the two
  templates RegExpGlobalReplaceOpt.h.js and RegExpLocalReplaceOpt.h.js once per kind of replacement; Iterator.js resumes generators through
  Generator.js; Object.js and Reflect.js share the definition of properties; Module.js stands alone. The constants are those of
  SelfHostingDefines.h.

  \<^bold>\<open>How it is modelled.\<close> A function of the source is a definition of the same name (\<open>$ArrayValues\<close> is \<open>ArrayValues\<close>, a method
  that is an expression of its own is a definition of its own). It is a program of \<open>Prelude\<close>: from a state it returns a value, throws,
  fails an assertion of a debug build, or runs out of fuel, with a state each. The engine is a record of functions over an
  unknown type of states (\<open>'w host\<close> in \<open>JSHost\<close>): property access, calls, construction, classes and slots, and the intrinsics by their name.
  A theorem over every such record speaks about hostile getters, proxies and callbacks too. Numbers are reals with -0, infinities and NaN
  (\<open>JSValues\<close>), elements of typed arrays are words of their width (\<open>TypedElems\<close>), 32-bit conversions and flag words are written out.
  Arrays and objects that do not leave a function (buffers of a sort, the work lists of the loader, the arguments of a bound
  function) are values of the model.

  \<^bold>\<open>The theories.\<close>
  \<^item> \<open>Prelude\<close>: programs, the loop forms of the sources, total correctness (\<open>wp\<close>), correctness with assertions as
    outcomes (\<open>wpa\<close>), partial correctness (\<open>wlp\<close>), relations that programs keep (\<open>evolves\<close>). \<open>JSValues\<close>: values. \<open>JSHost\<close>: the
    engine, Utilities.js, \<open>for-of\<close>. \<open>JSEngine\<close>: a concrete engine with a heap, prototypes and functions, on which the examples run.
  \<^item> Sorting.js: \<open>SortInsertion\<close>, \<open>SortMerge\<close>, \<open>SortQuick\<close>, \<open>SortRadix\<close> with the definitions over an interface of arrays
    (locale \<open>sparse_array\<close> for objects with holes); \<open>SortMergeCorrect\<close>, \<open>SortMergeTop\<close>, \<open>SortFrame\<close>, \<open>SortQuickCorrect\<close>, \<open>RadixKeys\<close>,
    \<open>SortRadixCorrect\<close>, \<open>SortCounting\<close>, \<open>SortTyped\<close> show that each is the stable sort, or a sort of the element values, of the library;
    \<open>TypedSort\<close> is the sort method of typed arrays (C1, C2).
  \<^item> Module.js: \<open>Module\<close> has the definitions; \<open>ModuleWalk\<close> states linking and evaluation as one depth-first walk, \<open>ModuleTarjan\<close> its
    invariant, \<open>ModuleResolve\<close> what names mean in the tables of the modules, \<open>ModuleNamespace\<close> namespaces and environments,
    \<open>ModuleLink\<close> and \<open>ModuleOrder\<close> the entry points, \<open>ModuleExamples\<close> concrete graphs (C3 to C10).
  \<^item> Array.js: \<open>ArrayBuiltins\<close>, \<open>ArrayProps\<close>, \<open>ArrayCallbacks\<close>, \<open>ArrayExamples\<close> (C11, C12, C15 to C18, C20, C21). String.js: \<open>StringBuiltins\<close>, \<open>StringProps\<close>,
    \<open>StringExamples\<close> (C22 to C26).
  \<^item> TypedArray.js: \<open>TypedElems\<close>, \<open>TypedArrayBuiltins\<close>; \<open>BufferSafety\<close> has the interfaces of engines with buffers and the checked native
    copies, \<open>BufferEngine\<close> an engine whose constructors are hostile, \<open>TypedArrayProps\<close> the properties (C27 to C31).
  \<^item> Iterator.js and Generator.js: \<open>IteratorHelpers\<close>, \<open>IteratorProps\<close>, \<open>GenEngine\<close>, \<open>IteratorExamples\<close> (C32 to C35). A suspended generator is
    a frame: the \<open>yield\<close> that it waits at and its locals. AsyncIteration.js and AsyncFunction.js: \<open>AsyncIteration\<close>, \<open>AsyncProps\<close>,
    \<open>AsyncExamples\<close> (C13), with \<open>await\<close> as an effect of the engine.
  \<^item> RegExp.js and its templates: \<open>RegExpBuiltins\<close>, \<open>RegExpReplace\<close>, \<open>RegExpProps\<close>, \<open>RegExpSplitProps\<close>, \<open>RegExpEngine\<close> (C36, C37).
  \<^item> Object.js, Reflect.js, Number.js, Promise.js: \<open>ObjectBuiltins\<close>, \<open>ObjectProps\<close> (C38). Function.js: \<open>FunctionBuiltins\<close> (C39).
  \<^item> TypedObject.js: \<open>TypedObjects\<close>, \<open>TypedObjectProps\<close>, \<open>TypedObjectSafety\<close>, \<open>TypedObjectEngine\<close> (C14, C19), with the layout of the
    descriptors and the memory as parts of the engine.
  \<^item> Map.js, Set.js, WeakMap.js, WeakSet.js: \<open>Collections\<close>, \<open>CollectionsProps\<close>, \<open>CollectionsEngine\<close> (C40).

  \<^bold>\<open>What the lemmas show.\<close> The sorts refine the sorting function of the library, on every element kind, length and comparison
  function with the signs of a linear preorder. The module walk keeps an invariant that every outcome leaves behind, exceptions included;
  resolution computes two inductive relations on the export tables and ends on cycles; evaluation refines a recursive order. The array and string
  methods have exact results with their clamped indices. The native copies of buffers are only reached with ranges inside attached
  buffers, stated as an equality: the method over natives that check their arguments is the method over those that do not. Iterator
  helpers refine functions on lists, the async ones by a simulation; generators have a life cycle that re-entrant calls cannot break. Replacement is a splice of the string along
  its matches, and splitting has an inverse. Descriptors are well formed; the fast paths of bound functions are one call; \<open>forEach\<close> on a map
  that changes visits each place once. The loops over typed arrays of several dimensions are one loop over the numbers of their
  elements, and writing by a descriptor stays inside the object.

  \<^bold>\<open>Interfaces.\<close> What a component relies on is a locale, and each has an interpretation on the model: the arrays of the
  sorts on the buffers of the model and on the array objects of \<open>JSEngine\<close>; the buffers on \<open>BufferEngine\<close>; the store of generators on \<open>GenEngine\<close>; the
  matcher and the splitter on the literal patterns of \<open>RegExpEngine\<close>; the tables of maps on \<open>CollectionsEngine\<close>; typed objects on \<open>TypedObjectEngine\<close>. The properties that name such
  an interface hold for every engine that keeps it.

  \<^bold>\<open>Bounds and fuel.\<close> A loop over a range is a recursion over it. A loop without a bound in its text takes fuel, and a property that
  says that a function returns says which fuel is enough: the stack of \<open>QuickSort\<close> needs twice the length of the array and two more, the
  walks of the loader more than the modules there are, resolution more than the pairs of a module and a name (\<open>enough_fuel\<close>), global
  replacement two more than the length of the string, splitting one more than twice the length, \<open>forEach\<close> one more than the largest table, writing by a
  descriptor the levels of the descriptor. The
  passes of the merge sorts and the doublings of \<open>repeat\<close> have a measure and take none. Loops that code of the user keeps
  alive (\<open>for-of\<close> over an iterator that never ends, a prototype chain of proxies) have no such bound: there the fuel is an argument and
  running out of it an outcome.

  \<^bold>\<open>Not modelled.\<close>
  \<^item> Everything that formats or compares in a locale: \<open>intl\<close>, Date.js, Error.js, BigInt.js, \<open>Number.prototype.toLocaleString\<close>,
    \<open>toLocaleLowerCase\<close> and \<open>toLocaleUpperCase\<close>. It prepares options and caches for native functions over ICU and generated locale data.
  \<^item> The job queue and the queues of requests to async generators, in C++: what an \<open>await\<close> runs before it comes back is any effect.
  \<^item> The memory of typed objects and how C++ lays out their descriptors. Classes.js: two placeholders.
  \<^item> The internal \<open>List\<close> and \<open>Record\<close> constructors and the testing functions of Utilities.js; error messages beyond their number; the names of
    functions (\<open>_SetCanonicalName\<close>); hints to the compilers.
  \<^item> The calls of a method on a wrapper of an object of another compartment go to an intrinsic by the method's name.
  \<^item> The C++ of the engine and its C++ tests, the build-time hazard analysis in \<open>src/src/devtools\<close>, the benchmarks and test libraries
    (\<open>src/src/octane\<close>, \<open>src/src/jit-test\<close>), and the examples.
\<close>

end
